(* ===== verification/Machine.thy ===== *)
theory Machine
  imports Main "HOL-Library.Word"
begin

text \<open>
  Prelude of the development: Rust's machine integers, the system clock and runs of
  operations.

  \<^item> Unsigned integers are words of their width. An \<open>i64\<close> is the 64-bit word of its two's
    complement, so the casts \<open>as u64\<close> and \<open>as i64\<close> are the identity, \<open>+\<close>, \<open>-\<close> and \<open>*\<close> wrap
    around as they do in the release profile of \<open>Cargo.toml\<close> (which leaves
    \<open>overflow-checks\<close> off), and a signed comparison reads both sides with \<open>sint\<close>.
  \<^item> An operation that reads the system clock takes a \<open>clock\<close>: a function from the read
    sites of the call to the values read there, in nanoseconds. Nothing relates two reads,
    so a clock that steps backwards is covered.
  \<^item> An atomic cell is the value it holds. Each method is one transition of the state; where
    the interleaving of several threads matters, a component has a step relation of its own.
  \<^item> \<open>run\<close> executes a list of operations; the locales below lift facts about one operation
    to whole runs.
\<close>

named_theorems i64_simps \<open>reading signed machine arithmetic as integer arithmetic\<close>
named_theorems u64_simps \<open>reading unsigned machine arithmetic as arithmetic on naturals\<close>

section \<open>Machine integers\<close>

type_synonym u8 = "8 word"
type_synonym u32 = "32 word"
type_synonym u64 = "64 word"
type_synonym u128 = "128 word"
type_synonym i32 = "32 word"
type_synonym i64 = "64 word"

definition i64_MAX :: i64 where
  "i64_MAX = 9223372036854775807"

definition i64_MIN :: i64 where
  "i64_MIN = 9223372036854775808"

definition u64_MAX :: u64 where
  "u64_MAX = 18446744073709551615"

definition u128_MAX :: u128 where
  "u128_MAX = 340282366920938463463374607431768211455"

text \<open>\<open>u64::saturating_add\<close>, \<open>u64::saturating_sub\<close>, \<open>u128::checked_mul\<close>.\<close>

definition u64_sat_add :: "u64 \<Rightarrow> u64 \<Rightarrow> u64" where
  "u64_sat_add a b = (if unat a + unat b < 2 ^ 64 then a + b else u64_MAX)"

definition u64_sat_sub :: "u64 \<Rightarrow> u64 \<Rightarrow> u64" where
  "u64_sat_sub a b = (if a < b then 0 else a - b)"

definition u128_checked_mul :: "u128 \<Rightarrow> u128 \<Rightarrow> u128 option" where
  "u128_checked_mul a b = (if unat a * unat b < 2 ^ 128 then Some (a * b) else None)"

text \<open>
  \<open>i64::saturating_add\<close>, \<open>i64::saturating_sub\<close>, \<open>i64::abs\<close> (which wraps on \<open>i64::MIN\<close>),
  \<open>i64::unsigned_abs\<close> and the truncating division \<open>i64 / i64\<close>.
\<close>

definition i64_clamp :: "int \<Rightarrow> i64" where
  "i64_clamp x = (if x < - (2 ^ 63) then i64_MIN else if x < 2 ^ 63 then word_of_int x else i64_MAX)"

definition i64_sat_add :: "i64 \<Rightarrow> i64 \<Rightarrow> i64" where
  "i64_sat_add a b = i64_clamp (sint a + sint b)"

definition i64_sat_sub :: "i64 \<Rightarrow> i64 \<Rightarrow> i64" where
  "i64_sat_sub a b = i64_clamp (sint a - sint b)"

definition i64_abs :: "i64 \<Rightarrow> i64" where
  "i64_abs a = (if sint a < 0 then - a else a)"

definition i64_unsigned_abs :: "i64 \<Rightarrow> u64" where
  "i64_unsigned_abs a = (if sint a < 0 then - a else a)"

definition i64_div :: "i64 \<Rightarrow> i64 \<Rightarrow> i64" where
  "i64_div a b = word_of_int (sgn (sint a) * sgn (sint b) * (\<bar>sint a\<bar> div \<bar>sint b\<bar>))"

section \<open>Reading words as integers\<close>

lemma sint_i64_range [i64_simps]: "- (2 ^ 63) \<le> sint (a :: i64)" "sint (a :: i64) < 2 ^ 63"
  using sint_ge [of a] sint_lt [of a] by simp_all

lemma sint_i64_le: "sint (a :: i64) \<le> 9223372036854775807"
  using sint_i64_range(2) [of a] by simp

lemma sint_i64_ge: "- 9223372036854775808 \<le> sint (a :: i64)"
  using sint_i64_range(1) [of a] by simp

lemma unat_u64_less: "unat (a :: u64) < 18446744073709551616"
  using unsigned_less [of a, where ?'a = nat] by simp

lemma sint_i64_MAX [simp]: "sint i64_MAX = 9223372036854775807"
  by (simp add: i64_MAX_def)

lemma sint_i64_MIN [simp]: "sint i64_MIN = - 9223372036854775808"
  by (simp add: i64_MIN_def)

lemma unat_u64_MAX [simp]: "unat u64_MAX = 18446744073709551615"
  by (simp add: u64_MAX_def)

lemma sint_word_of_int_i64:
  "- (2 ^ 63) \<le> x \<Longrightarrow> x < 2 ^ 63 \<Longrightarrow> sint (word_of_int x :: i64) = x"
  by (simp add: int_word_sint)

lemma word_of_int_sint_sum:
  "(word_of_int (sint a + sint b) :: i64) = a + b"
  "(word_of_int (sint a - sint b) :: i64) = a - b"
  by simp_all

lemma sint_add_i64:
  assumes "- (2 ^ 63) \<le> sint (a :: i64) + sint b" and "sint a + sint b < 2 ^ 63"
  shows "sint (a + b) = sint a + sint b"
  using sint_word_of_int_i64 [OF assms] by simp

lemma sint_sub_i64:
  assumes "- (2 ^ 63) \<le> sint (a :: i64) - sint b" and "sint a - sint b < 2 ^ 63"
  shows "sint (a - b) = sint a - sint b"
  using sint_word_of_int_i64 [OF assms] by simp

lemma sint_neg_i64: "a \<noteq> i64_MIN \<Longrightarrow> sint (- a :: i64) = - sint a"
proof -
  assume "a \<noteq> i64_MIN"
  then have "sint a \<noteq> sint i64_MIN"
    by (metis signed_word_eqI)
  then have "sint a \<noteq> - (2 ^ 63)" by simp
  with sint_i64_range [of a] show ?thesis
    using sint_word_of_int_i64 [of "- sint a"] by simp
qed

text \<open>A word below \<open>2 ^ 63\<close> reads the same signed and unsigned.\<close>

lemma sint_eq_unat: "unat (a :: u64) < 2 ^ 63 \<Longrightarrow> sint a = int (unat a)"
proof -
  assume "unat a < 2 ^ 63"
  then have "int (unat a) < 2 ^ 63"
    by (metis of_nat_less_iff of_nat_numeral of_nat_power)
  then have "sint (word_of_int (int (unat a)) :: i64) = int (unat a)"
    by (intro sint_word_of_int_i64) linarith+
  then show ?thesis by simp
qed

lemma unat_eq_sint: "0 \<le> sint (a :: i64) \<Longrightarrow> int (unat a) = sint a"
proof -
  assume a: "0 \<le> sint a"
  have "uint (word_of_int (sint a) :: i64) = sint a mod 2 ^ 64"
    by (simp only: uint_word_of_int) simp
  then have "uint a = sint a mod 2 ^ 64" by simp
  with a sint_i64_range [of a] show ?thesis by simp
qed

lemma i64_clamp_sint [simp]:
  "sint (i64_clamp x) = max (- (2 ^ 63)) (min (2 ^ 63 - 1) x)"
  by (simp add: i64_clamp_def sint_word_of_int_i64)

lemma sint_i64_sat_add [i64_simps]:
  "sint (i64_sat_add a b) = max (- (2 ^ 63)) (min (2 ^ 63 - 1) (sint a + sint b))"
  by (simp add: i64_sat_add_def)

lemma sint_i64_sat_sub [i64_simps]:
  "sint (i64_sat_sub a b) = max (- (2 ^ 63)) (min (2 ^ 63 - 1) (sint a - sint b))"
  by (simp add: i64_sat_sub_def)

lemma sint_i64_abs [i64_simps]:
  "sint (i64_abs a) = (if a = i64_MIN then sint i64_MIN else \<bar>sint a\<bar>)"
  by (auto simp: i64_abs_def sint_neg_i64) (simp add: i64_MIN_def)

lemma unat_i64_unsigned_abs [u64_simps]: "int (unat (i64_unsigned_abs a)) = \<bar>sint a\<bar>"
proof (cases "a = i64_MIN")
  case True
  then show ?thesis by (simp add: i64_unsigned_abs_def i64_MIN_def)
next
  case False
  then show ?thesis
    using sint_neg_i64 [of a] unat_eq_sint [of a] unat_eq_sint [of "- a"]
    by (simp add: i64_unsigned_abs_def)
qed

lemma unat_u64_sat_add [u64_simps]:
  "unat (u64_sat_add a b) = min 18446744073709551615 (unat a + unat b)"
  by (simp add: u64_sat_add_def unat_word_ariths min_def)

lemma unat_u64_sat_sub [u64_simps]: "unat (u64_sat_sub a b) = unat a - unat b"
  by (auto simp: u64_sat_sub_def word_less_nat_alt unat_sub_if')

lemma unat_add_u64: "unat (a :: u64) + unat b < 2 ^ 64 \<Longrightarrow> unat (a + b) = unat a + unat b"
  by (simp add: unat_word_ariths)

lemma unat_mult_u64: "unat (a :: u64) * unat b < 2 ^ 64 \<Longrightarrow> unat (a * b) = unat a * unat b"
  by (simp add: unat_word_ariths)

lemma unat_sub_u64: "b \<le> (a :: u64) \<Longrightarrow> unat (a - b) = unat a - unat b"
  by (simp add: unat_sub)

lemma unat_ucast_128 [simp]: "unat (ucast (a :: u64) :: u128) = unat a"
  by (simp add: unsigned_ucast_eq take_bit_nat_eq_self_iff order_less_trans [OF unat_u64_less])

lemma unat_ucast_32_64: "unat (ucast (a :: u32) :: u64) = unat a"
  using unsigned_less [of a, where ?'a = nat]
  by (simp add: unsigned_ucast_eq take_bit_nat_eq_self_iff)

lemma int_less_2p64: "int n < 2 ^ 64 \<Longrightarrow> n < 2 ^ 64"
  by simp

lemma sum_list_unat_ge: "x \<in> set xs \<Longrightarrow> unat x \<le> (\<Sum>y\<leftarrow>xs. unat y)"
  by (rule member_le_sum_list) auto

lemma sum_list_map_update:
  fixes f :: "'a \<Rightarrow> 'b :: ab_group_add"
  shows "i < length xs \<Longrightarrow>
    (\<Sum>x\<leftarrow>xs[i := y]. f x) = (\<Sum>x\<leftarrow>xs. f x) - f (xs ! i) + f y"
proof (induction xs arbitrary: i)
  case Nil
  then show ?case by simp
next
  case (Cons a xs)
  then show ?case by (cases i) (simp_all add: algebra_simps)
qed

lemma sum_list_map_zero: "(\<And>x. x \<in> set xs \<Longrightarrow> f x = 0) \<Longrightarrow> (\<Sum>x\<leftarrow>xs. f x) = (0 :: 'b :: comm_monoid_add)"
  by (induction xs) auto

lemma word_of_int_sum_list:
  "(word_of_int (\<Sum>x\<leftarrow>xs. f x) :: 'a :: len word) = (\<Sum>x\<leftarrow>xs. word_of_int (f x))"
  by (induction xs) simp_all

section \<open>The system clock\<close>

type_synonym clock = "nat \<Rightarrow> u64"

text \<open>The reads of a call that follow the first \<open>n\<close> read sites.\<close>

definition after :: "nat \<Rightarrow> clock \<Rightarrow> clock" where
  "after n clk = (\<lambda>i. clk (n + i))"

lemma after_apply [simp]: "after n clk i = clk (n + i)"
  by (simp add: after_def)

section \<open>Runs of operations\<close>

text \<open>A run folds the transition function over the operations, the first one first.\<close>

definition run :: "('op \<Rightarrow> 's \<Rightarrow> 's) \<Rightarrow> 'op list \<Rightarrow> 's \<Rightarrow> 's" where
  "run step ops s = fold step ops s"

text \<open>Every operation of the run is allowed in the state it is executed in.\<close>

fun permitted :: "('op \<Rightarrow> 's \<Rightarrow> 's) \<Rightarrow> ('op \<Rightarrow> 's \<Rightarrow> bool) \<Rightarrow> 'op list \<Rightarrow> 's \<Rightarrow> bool" where
  "permitted step allowed [] s = True"
| "permitted step allowed (a # ops) s = (allowed a s \<and> permitted step allowed ops (step a s))"

lemma run_simps [simp]:
  "run step [] s = s"
  "run step (a # ops) s = run step ops (step a s)"
  by (simp_all add: run_def)

lemma permitted_always [simp]: "permitted step (\<lambda>op s. True) ops s"
  by (induction ops arbitrary: s) simp_all

lemma run_append: "run step (xs @ ys) s = run step ys (run step xs s)"
  by (simp add: run_def)

lemma run_snoc: "run step (xs @ [a]) s = step a (run step xs s)"
  by (simp add: run_append)

text \<open>
  A component whose operations keep an invariant, as long as each operation is one the
  client is entitled to call in the state it is called in.
\<close>

locale guarded_system =
  fixes step :: "'op \<Rightarrow> 's \<Rightarrow> 's"
    and allowed :: "'op \<Rightarrow> 's \<Rightarrow> bool"
    and inv :: "'s \<Rightarrow> bool"
  assumes step_inv: "inv s \<Longrightarrow> allowed a s \<Longrightarrow> inv (step a s)"
begin

lemma run_inv: "inv s \<Longrightarrow> permitted step allowed ops s \<Longrightarrow> inv (run step ops s)"
  by (induction ops arbitrary: s) (auto simp: step_inv)

end

text \<open>
  A guarded system that implements an abstract one: every allowed operation commutes with the
  abstraction.
\<close>

locale refined_system = guarded_system +
  fixes spec :: "'op \<Rightarrow> 'a \<Rightarrow> 'a"
    and abs :: "'s \<Rightarrow> 'a"
  assumes step_abs: "inv s \<Longrightarrow> allowed a s \<Longrightarrow> abs (step a s) = spec a (abs s)"
begin

lemma run_abs: "inv s \<Longrightarrow> permitted step allowed ops s \<Longrightarrow> abs (run step ops s) = run spec ops (abs s)"
  by (induction ops arbitrary: s) (auto simp: step_inv step_abs)

end

text \<open>
  The special case where the right to call an operation does not depend on the state: a
  safety property that every operation of a class keeps.
\<close>

locale latched_system =
  fixes step :: "'op \<Rightarrow> 's \<Rightarrow> 's"
    and harmless :: "'op \<Rightarrow> bool"
    and latch :: "'s \<Rightarrow> bool"
  assumes step_latch: "latch s \<Longrightarrow> harmless a \<Longrightarrow> latch (step a s)"
begin

lemma run_latch: "latch s \<Longrightarrow> list_all harmless ops \<Longrightarrow> latch (run step ops s)"
  by (induction ops arbitrary: s) (auto simp: step_latch)

end

sublocale latched_system \<subseteq> guarded_system step "\<lambda>a s. harmless a" latch
  by unfold_locales (rule step_latch)

text \<open>Operations that never touch a part of the state.\<close>

locale framed_system =
  fixes step :: "'op \<Rightarrow> 's \<Rightarrow> 's"
    and part :: "'s \<Rightarrow> 'p"
  assumes step_part: "part (step a s) = part s"
begin

lemma run_part: "part (run step ops s) = part s"
  by (induction ops arbitrary: s) (auto simp: step_part)

end

end
