(* ===== verification/Trading_Gate.thy ===== *)
theory Trading_Gate
  imports Machine
begin

text \<open>
  The interface between the parts that decide whether trading is allowed (a breaker, the
  manager of the breakers, the whole safety system) and their clients: asking has an effect,
  and a gate that is shut refuses and stays shut, however often it is asked.
\<close>

text \<open>Asking a gate once per clock of the list, from left to right.\<close>

primrec ask_all :: "('s \<Rightarrow> clock \<Rightarrow> bool \<times> 's) \<Rightarrow> clock list \<Rightarrow> 's \<Rightarrow> bool list \<times> 's" where
  "ask_all allowed [] s = ([], s)"
| "ask_all allowed (clk # clks) s =
     (let (ok, s) = allowed s clk; (oks, s) = ask_all allowed clks s in (ok # oks, s))"

declare ask_all.simps(2) [simp del]

lemma ask_all_Cons [simp]:
  "fst (ask_all allowed (clk # clks) s)
     = fst (allowed s clk) # fst (ask_all allowed clks (snd (allowed s clk)))"
  "snd (ask_all allowed (clk # clks) s) = snd (ask_all allowed clks (snd (allowed s clk)))"
  by (simp_all add: ask_all.simps(2) Let_def case_prod_unfold)

locale trading_gate =
  fixes allowed :: "'s \<Rightarrow> clock \<Rightarrow> bool \<times> 's"
    and shut :: "'s \<Rightarrow> bool"
  assumes refuses: "shut s \<Longrightarrow> \<not> fst (allowed s clk)"
    and keeps: "shut s \<Longrightarrow> shut (snd (allowed s clk))"
begin

lemma shut_ask_all:
  "shut s \<Longrightarrow> shut (snd (ask_all allowed clks s)) \<and>
     fst (ask_all allowed clks s) = replicate (length clks) False"
proof (induction clks arbitrary: s)
  case Nil
  then show ?case by simp
next
  case (Cons clk clks)
  then have "shut (snd (allowed s clk))" by (intro keeps)
  with Cons.IH [of "snd (allowed s clk)"] refuses [OF Cons.prems, of clk] show ?case
    by simp
qed

end

end
