(* ===== verification/Circuit_Breaker.thy ===== *)
theory Circuit_Breaker
  imports Machine Trading_Gate
begin

text \<open>
  The automated circuit breakers of \<open>src/safety/circuit_breaker.rs\<close>: one breaker
  (\<open>CircuitBreaker\<close>), which watches drawdown, API errors and order rejections, and the
  manager of the main, API and volatility breakers. The lemmas show what each trigger
  computes, that an open breaker stays shut until a reset when it may not recover by
  itself, and that the drawdown trigger can never fire on a breaker made by \<open>new\<close>.

  The source compares the 64-bit error count with the 32-bit threshold without a cast;
  the model compares the values.
\<close>

section \<open>Data\<close>

datatype BreakerType =
  Drawdown | APIErrors | Volatility | LatencySpike | OrderRejection
  | FillRate | PositionDrift | MarginWarning | NetworkPartition | ExchangeMaintenance

datatype BreakerState = Closed | Open | HalfOpen | Cooldown

text \<open>The casts \<open>as u64\<close> of the two enumerations.\<close>

fun breaker_type_code :: "BreakerType \<Rightarrow> u64" where
  "breaker_type_code Drawdown = 0"
| "breaker_type_code APIErrors = 1"
| "breaker_type_code Volatility = 2"
| "breaker_type_code LatencySpike = 3"
| "breaker_type_code OrderRejection = 4"
| "breaker_type_code FillRate = 5"
| "breaker_type_code PositionDrift = 6"
| "breaker_type_code MarginWarning = 7"
| "breaker_type_code NetworkPartition = 8"
| "breaker_type_code ExchangeMaintenance = 9"

fun breaker_state_code :: "BreakerState \<Rightarrow> u64" where
  "breaker_state_code Closed = 0"
| "breaker_state_code Open = 1"
| "breaker_state_code HalfOpen = 2"
| "breaker_state_code Cooldown = 3"

record BreakerConfig =
  max_drawdown_bps :: u64
  max_api_errors :: u32
  api_error_window_s :: u64
  volatility_threshold_bps :: u64
  latency_threshold_ms :: u64
  rejection_threshold_pct :: u8
  cooldown_ms :: u64
  auto_recovery :: bool
  half_open_duration_ms :: u64

definition breaker_config_default :: BreakerConfig where
  "breaker_config_default =
     \<lparr>max_drawdown_bps = 500, max_api_errors = 10, api_error_window_s = 60,
      volatility_threshold_bps = 200, latency_threshold_ms = 50, rejection_threshold_pct = 50,
      cooldown_ms = 60000, auto_recovery = False, half_open_duration_ms = 5000\<rparr>"

record BreakerEvent =
  be_breaker_type :: BreakerType
  be_timestamp_ns :: u64
  be_trigger_value :: u64
  be_threshold_value :: u64

record CircuitBreaker =
  cb_config :: BreakerConfig
  cb_state :: u64
  cb_trip_count :: u64
  cb_last_trip_ns :: u64
  cb_cooldown_end_ns :: u64
  cb_peak_equity :: i64
  cb_current_equity :: i64
  cb_api_error_count :: u64
  cb_api_error_window_start_ns :: u64
  cb_orders_submitted :: u64
  cb_orders_rejected :: u64
  cb_enabled :: bool
  cb_last_event :: u64

section \<open>One breaker\<close>

definition breaker_event_new :: "BreakerType \<Rightarrow> u64 \<Rightarrow> u64 \<Rightarrow> clock \<Rightarrow> BreakerEvent" where
  "breaker_event_new ty tv th clk =
     \<lparr>be_breaker_type = ty, be_timestamp_ns = clk 0, be_trigger_value = tv,
      be_threshold_value = th\<rparr>"

definition cb_new :: "BreakerConfig \<Rightarrow> clock \<Rightarrow> CircuitBreaker" where
  "cb_new cfg clk =
     \<lparr>cb_config = cfg, cb_state = breaker_state_code Closed, cb_trip_count = 0,
      cb_last_trip_ns = 0, cb_cooldown_end_ns = 0, cb_peak_equity = i64_MAX,
      cb_current_equity = 0, cb_api_error_count = 0, cb_api_error_window_start_ns = clk 0,
      cb_orders_submitted = 0, cb_orders_rejected = 0, cb_enabled = True, cb_last_event = 0\<rparr>"

definition cb_get_state :: "CircuitBreaker \<Rightarrow> BreakerState" where
  "cb_get_state cb =
     (let s = cb_state cb in
      if s = 0 then Closed else if s = 1 then Open else if s = 2 then HalfOpen
      else if s = 3 then Cooldown else Closed)"

definition cb_set_state :: "CircuitBreaker \<Rightarrow> BreakerState \<Rightarrow> CircuitBreaker" where
  "cb_set_state cb st = cb\<lparr>cb_state := breaker_state_code st\<rparr>"

text \<open>\<open>trip\<close> reads the clock twice: in \<open>BreakerEvent::new\<close> and for the cooldown.\<close>

definition cb_trip ::
    "CircuitBreaker \<Rightarrow> BreakerType \<Rightarrow> u64 \<Rightarrow> u64 \<Rightarrow> clock \<Rightarrow> BreakerEvent \<times> CircuitBreaker" where
  "cb_trip cb ty tv th clk =
     (let event = breaker_event_new ty tv th clk;
          now = clk 1
      in (event,
          cb\<lparr>cb_state := breaker_state_code Open,
             cb_trip_count := cb_trip_count cb + 1,
             cb_last_trip_ns := now,
             cb_cooldown_end_ns := now + cooldown_ms (cb_config cb) * 1000000,
             cb_last_event := now\<rparr>))"

definition cb_update_equity ::
    "CircuitBreaker \<Rightarrow> i64 \<Rightarrow> clock \<Rightarrow> BreakerEvent option \<times> CircuitBreaker" where
  "cb_update_equity cb equity clk =
     (if \<not> cb_enabled cb then (None, cb)
      else
        let cb = cb\<lparr>cb_current_equity := equity\<rparr>;
            cb = (if cb_peak_equity cb <s equity then cb\<lparr>cb_peak_equity := equity\<rparr> else cb);
            peak = cb_peak_equity cb
        in if 0 <s peak \<and> peak \<noteq> i64_MAX then
             let drawdown_bps = (peak - equity) * 10000 div peak;
                 limit = max_drawdown_bps (cb_config cb)
             in if limit \<le> drawdown_bps
                then (let (ev, cb) = cb_trip cb Drawdown drawdown_bps limit clk in (Some ev, cb))
                else (None, cb)
           else (None, cb))"

definition cb_record_api_error ::
    "CircuitBreaker \<Rightarrow> clock \<Rightarrow> BreakerEvent option \<times> CircuitBreaker" where
  "cb_record_api_error cb clk =
     (if \<not> cb_enabled cb then (None, cb)
      else
        let now = clk 0;
            window_ns = api_error_window_s (cb_config cb) * 1000000000
        in if window_ns < u64_sat_sub now (cb_api_error_window_start_ns cb) then
             (None, cb\<lparr>cb_api_error_window_start_ns := now, cb_api_error_count := 1\<rparr>)
           else
             let count = cb_api_error_count cb + 1;
                 cb = cb\<lparr>cb_api_error_count := count\<rparr>;
                 limit = ucast (max_api_errors (cb_config cb))
             in if limit \<le> count
                then (let (ev, cb) = cb_trip cb APIErrors count limit (after 1 clk) in (Some ev, cb))
                else (None, cb))"

definition cb_record_order_submission :: "CircuitBreaker \<Rightarrow> CircuitBreaker" where
  "cb_record_order_submission cb = cb\<lparr>cb_orders_submitted := cb_orders_submitted cb + 1\<rparr>"

definition cb_record_order_rejection ::
    "CircuitBreaker \<Rightarrow> clock \<Rightarrow> BreakerEvent option \<times> CircuitBreaker" where
  "cb_record_order_rejection cb clk =
     (if \<not> cb_enabled cb then (None, cb)
      else
        let rejected = cb_orders_rejected cb + 1;
            cb = cb\<lparr>cb_orders_rejected := rejected\<rparr>;
            submitted = cb_orders_submitted cb
        in if 10 \<le> submitted then
             let rejection_pct = (ucast (rejected * 100 div submitted) :: u8);
                 limit = rejection_threshold_pct (cb_config cb)
             in if limit \<le> rejection_pct
                then (let (ev, cb) = cb_trip cb OrderRejection (ucast rejection_pct) (ucast limit) clk
                      in (Some ev, cb))
                else (None, cb)
           else (None, cb))"

definition cb_is_cooldown_expired :: "CircuitBreaker \<Rightarrow> clock \<Rightarrow> bool" where
  "cb_is_cooldown_expired cb clk =
     (if cb_cooldown_end_ns cb = 0 then True else cb_cooldown_end_ns cb \<le> clk 0)"

text \<open>Asking whether trading is allowed can move an open breaker to half-open.\<close>

definition cb_is_trading_allowed :: "CircuitBreaker \<Rightarrow> clock \<Rightarrow> bool \<times> CircuitBreaker" where
  "cb_is_trading_allowed cb clk =
     (if \<not> cb_enabled cb then (False, cb)
      else case cb_get_state cb of
          Closed \<Rightarrow> (True, cb)
        | HalfOpen \<Rightarrow> (True, cb)
        | Open \<Rightarrow>
            (if cb_is_cooldown_expired cb clk then
               if auto_recovery (cb_config cb) then (True, cb_set_state cb HalfOpen)
               else (False, cb)
             else (False, cb))
        | Cooldown \<Rightarrow> (False, cb))"

definition cb_reset :: "CircuitBreaker \<Rightarrow> clock \<Rightarrow> CircuitBreaker" where
  "cb_reset cb clk =
     (cb_set_state cb Closed)
       \<lparr>cb_api_error_count := 0, cb_orders_submitted := 0, cb_orders_rejected := 0,
        cb_api_error_window_start_ns := clk 0\<rparr>"

definition cb_disable :: "CircuitBreaker \<Rightarrow> CircuitBreaker" where
  "cb_disable cb = cb\<lparr>cb_enabled := False\<rparr>"

definition cb_enable :: "CircuitBreaker \<Rightarrow> CircuitBreaker" where
  "cb_enable cb = cb\<lparr>cb_enabled := True\<rparr>"

record BreakerStats =
  bs_state :: BreakerState
  bs_enabled :: bool
  bs_trip_count :: u64
  bs_last_trip_ns :: u64
  bs_api_error_count :: u64
  bs_orders_submitted :: u64
  bs_orders_rejected :: u64
  bs_current_equity :: i64
  bs_peak_equity :: i64

definition cb_get_stats :: "CircuitBreaker \<Rightarrow> BreakerStats" where
  "cb_get_stats cb =
     \<lparr>bs_state = cb_get_state cb, bs_enabled = cb_enabled cb, bs_trip_count = cb_trip_count cb,
      bs_last_trip_ns = cb_last_trip_ns cb, bs_api_error_count = cb_api_error_count cb,
      bs_orders_submitted = cb_orders_submitted cb, bs_orders_rejected = cb_orders_rejected cb,
      bs_current_equity = cb_current_equity cb, bs_peak_equity = cb_peak_equity cb\<rparr>"

section \<open>The manager of the breakers\<close>

record CircuitBreakerManager =
  cm_main_breaker :: CircuitBreaker
  cm_api_breaker :: CircuitBreaker
  cm_volatility_breaker :: CircuitBreaker
  cm_any_tripped :: bool
  cm_tripped_type :: u64

definition cm_new :: "BreakerConfig option \<Rightarrow> clock \<Rightarrow> CircuitBreakerManager" where
  "cm_new config clk =
     (let cfg = (case config of Some c \<Rightarrow> c | None \<Rightarrow> breaker_config_default)
      in \<lparr>cm_main_breaker = cb_new cfg clk,
          cm_api_breaker =
            cb_new (cfg\<lparr>max_api_errors := max_api_errors cfg,
                       api_error_window_s := api_error_window_s cfg\<rparr>) (after 1 clk),
          cm_volatility_breaker =
            cb_new (cfg\<lparr>volatility_threshold_bps := volatility_threshold_bps cfg\<rparr>) (after 2 clk),
          cm_any_tripped = False, cm_tripped_type = 0\<rparr>)"

definition cm_is_trading_allowed ::
    "CircuitBreakerManager \<Rightarrow> clock \<Rightarrow> bool \<times> CircuitBreakerManager" where
  "cm_is_trading_allowed m clk =
     (let (ok, b) = cb_is_trading_allowed (cm_main_breaker m) clk;
          m = m\<lparr>cm_main_breaker := b\<rparr>
      in if \<not> ok then (False, m)
         else let (ok, b) = cb_is_trading_allowed (cm_api_breaker m) (after 1 clk);
                  m = m\<lparr>cm_api_breaker := b\<rparr>
              in if \<not> ok then (False, m)
                 else let (ok, b) = cb_is_trading_allowed (cm_volatility_breaker m) (after 2 clk)
                      in (ok, m\<lparr>cm_volatility_breaker := b\<rparr>))"

text \<open>What the three reporting methods do with the answer of the breaker they call.\<close>

definition cm_note ::
    "BreakerEvent option \<Rightarrow> CircuitBreakerManager \<Rightarrow> BreakerEvent option \<times> CircuitBreakerManager" where
  "cm_note r m =
     (case r of
        Some event \<Rightarrow>
          (Some event,
           m\<lparr>cm_any_tripped := True, cm_tripped_type := breaker_type_code (be_breaker_type event)\<rparr>)
      | None \<Rightarrow> (None, m))"

definition cm_update_equity ::
    "CircuitBreakerManager \<Rightarrow> i64 \<Rightarrow> clock \<Rightarrow> BreakerEvent option \<times> CircuitBreakerManager" where
  "cm_update_equity m equity clk =
     (let (r, b) = cb_update_equity (cm_main_breaker m) equity clk
      in cm_note r (m\<lparr>cm_main_breaker := b\<rparr>))"

definition cm_record_api_error ::
    "CircuitBreakerManager \<Rightarrow> clock \<Rightarrow> BreakerEvent option \<times> CircuitBreakerManager" where
  "cm_record_api_error m clk =
     (let (r, b) = cb_record_api_error (cm_api_breaker m) clk
      in cm_note r (m\<lparr>cm_api_breaker := b\<rparr>))"

definition cm_record_order_submission :: "CircuitBreakerManager \<Rightarrow> CircuitBreakerManager" where
  "cm_record_order_submission m =
     m\<lparr>cm_main_breaker := cb_record_order_submission (cm_main_breaker m),
       cm_api_breaker := cb_record_order_submission (cm_api_breaker m)\<rparr>"

definition cm_record_order_rejection ::
    "CircuitBreakerManager \<Rightarrow> clock \<Rightarrow> BreakerEvent option \<times> CircuitBreakerManager" where
  "cm_record_order_rejection m clk =
     (let (r, b) = cb_record_order_rejection (cm_main_breaker m) clk
      in cm_note r (m\<lparr>cm_main_breaker := b\<rparr>))"

definition cm_reset_all :: "CircuitBreakerManager \<Rightarrow> clock \<Rightarrow> CircuitBreakerManager" where
  "cm_reset_all m clk =
     m\<lparr>cm_main_breaker := cb_reset (cm_main_breaker m) clk,
       cm_api_breaker := cb_reset (cm_api_breaker m) (after 1 clk),
       cm_volatility_breaker := cb_reset (cm_volatility_breaker m) (after 2 clk),
       cm_any_tripped := False\<rparr>"

record BreakerManagerStatus =
  bm_trading_allowed :: bool
  bm_any_tripped :: bool
  bm_main_stats :: BreakerStats
  bm_api_stats :: BreakerStats

definition cm_get_status ::
    "CircuitBreakerManager \<Rightarrow> clock \<Rightarrow> BreakerManagerStatus \<times> CircuitBreakerManager" where
  "cm_get_status m clk =
     (let (ok, m) = cm_is_trading_allowed m clk
      in (\<lparr>bm_trading_allowed = ok, bm_any_tripped = cm_any_tripped m,
           bm_main_stats = cb_get_stats (cm_main_breaker m),
           bm_api_stats = cb_get_stats (cm_api_breaker m)\<rparr>, m))"

section \<open>Runs of one breaker\<close>

datatype cb_op =
  CbUpdateEquity i64 clock | CbApiError clock | CbSubmission | CbRejection clock
  | CbAllowed clock | CbReset clock | CbDisable | CbEnable

fun cb_exec :: "cb_op \<Rightarrow> CircuitBreaker \<Rightarrow> CircuitBreaker" where
  "cb_exec (CbUpdateEquity e clk) cb = snd (cb_update_equity cb e clk)"
| "cb_exec (CbApiError clk) cb = snd (cb_record_api_error cb clk)"
| "cb_exec CbSubmission cb = cb_record_order_submission cb"
| "cb_exec (CbRejection clk) cb = snd (cb_record_order_rejection cb clk)"
| "cb_exec (CbAllowed clk) cb = snd (cb_is_trading_allowed cb clk)"
| "cb_exec (CbReset clk) cb = cb_reset cb clk"
| "cb_exec CbDisable cb = cb_disable cb"
| "cb_exec CbEnable cb = cb_enable cb"

fun cb_is_reset :: "cb_op \<Rightarrow> bool" where
  "cb_is_reset (CbReset clk) = True"
| "cb_is_reset a = False"

lemmas cb_defs =
  cb_update_equity_def cb_record_api_error_def cb_record_order_submission_def
  cb_record_order_rejection_def cb_is_trading_allowed_def cb_reset_def cb_disable_def
  cb_enable_def cb_trip_def cb_set_state_def breaker_event_new_def Let_def

lemma cb_get_state_set [simp]: "cb_get_state (cb_set_state cb st) = st"
  by (cases st) (simp_all add: cb_get_state_def cb_set_state_def)

lemma cb_get_state_update [simp]: "cb_get_state (cb\<lparr>cb_state := breaker_state_code st\<rparr>) = st"
  using cb_get_state_set [of cb st] by (simp add: cb_set_state_def)

lemma cb_get_state_cong: "cb_state cb = cb_state cb' \<Longrightarrow> cb_get_state cb = cb_get_state cb'"
  by (simp add: cb_get_state_def)

subsection \<open>The configuration never changes\<close>

lemma cb_exec_config: "cb_config (cb_exec a cb) = cb_config cb"
  by (cases a) (auto simp: cb_defs split: BreakerState.splits)

interpretation cb_frame: framed_system cb_exec cb_config
  by unfold_locales (rule cb_exec_config)

subsection \<open>An open breaker without auto-recovery\<close>

definition cb_locked :: "CircuitBreaker \<Rightarrow> bool" where
  "cb_locked cb \<longleftrightarrow> cb_state cb = breaker_state_code Open \<and> \<not> auto_recovery (cb_config cb)"

lemma cb_locked_state: "cb_locked cb \<Longrightarrow> cb_get_state cb = Open"
  by (simp add: cb_locked_def cb_get_state_def)

lemma cb_exec_locked: "cb_locked cb \<Longrightarrow> \<not> cb_is_reset a \<Longrightarrow> cb_locked (cb_exec a cb)"
  by (cases a) (auto simp: cb_locked_def cb_defs cb_get_state_def)

interpretation cb_lock: latched_system cb_exec "\<lambda>a. \<not> cb_is_reset a" cb_locked
  by unfold_locales (rule cb_exec_locked)

lemma cb_locked_disallows: "cb_locked cb \<Longrightarrow> \<not> fst (cb_is_trading_allowed cb clk)"
  by (auto simp: cb_is_trading_allowed_def cb_locked_state) (auto simp: cb_locked_def)

subsection \<open>The peak equity of a new breaker\<close>

lemma not_i64_MAX_less: "\<not> i64_MAX <s e"
  using sint_i64_le [of e] by (simp add: word_sless_alt)

lemma cb_exec_peak: "cb_peak_equity cb = i64_MAX \<Longrightarrow> cb_peak_equity (cb_exec a cb) = i64_MAX"
  by (cases a) (auto simp: cb_defs not_i64_MAX_less split: BreakerState.splits)

interpretation cb_peak: latched_system cb_exec "\<lambda>a. True" "\<lambda>cb. cb_peak_equity cb = i64_MAX"
  by unfold_locales (rule cb_exec_peak)

lemma cb_update_equity_peak_MAX:
  "cb_peak_equity cb = i64_MAX \<Longrightarrow> fst (cb_update_equity cb e clk) = None"
  by (simp add: cb_defs not_i64_MAX_less)

subsection \<open>Counting API errors inside a window\<close>

definition cb_in_window :: "CircuitBreaker \<Rightarrow> clock \<Rightarrow> bool" where
  "cb_in_window cb clk \<longleftrightarrow>
     u64_sat_sub (clk 0) (cb_api_error_window_start_ns cb)
       \<le> api_error_window_s (cb_config cb) * 1000000000"

lemma cb_api_error_in_window:
  assumes "cb_enabled cb" and "cb_in_window cb clk"
  shows "cb_api_error_count (snd (cb_record_api_error cb clk)) = cb_api_error_count cb + 1"
    and "cb_enabled (snd (cb_record_api_error cb clk))"
    and "cb_api_error_window_start_ns (snd (cb_record_api_error cb clk))
           = cb_api_error_window_start_ns cb"
    and "fst (cb_record_api_error cb clk) \<noteq> None \<longleftrightarrow>
           ucast (max_api_errors (cb_config cb)) \<le> cb_api_error_count cb + 1"
  using assms by (auto simp: cb_defs cb_in_window_def not_less)

lemma cb_run_api_errors:
  assumes "cb_enabled cb" and "list_all (cb_in_window cb) clks"
  shows "cb_enabled (run cb_exec (map CbApiError clks) cb) \<and>
         cb_api_error_window_start_ns (run cb_exec (map CbApiError clks) cb)
           = cb_api_error_window_start_ns cb \<and>
         cb_api_error_count (run cb_exec (map CbApiError clks) cb)
           = cb_api_error_count cb + of_nat (length clks)"
  using assms
proof (induction clks arbitrary: cb)
  case Nil
  then show ?case by simp
next
  case (Cons clk clks)
  let ?cb' = "snd (cb_record_api_error cb clk)"
  have "cb_in_window ?cb' = cb_in_window cb"
    using Cons.prems cb_exec_config [of "CbApiError clk" cb]
    by (simp add: fun_eq_iff cb_in_window_def cb_api_error_in_window)
  with Cons show ?case by (simp add: cb_api_error_in_window ac_simps)
qed

subsection \<open>Reading the triggers as arithmetic\<close>

lemma cb_update_equity_enabled:
  fixes cb e
  defines "q \<equiv> (if cb_peak_equity cb <s e then e else cb_peak_equity cb)"
  assumes "cb_enabled cb"
  shows "cb_peak_equity (snd (cb_update_equity cb e clk)) = q"
    and "fst (cb_update_equity cb e clk) \<noteq> None \<longleftrightarrow>
           0 <s q \<and> q \<noteq> i64_MAX \<and> max_drawdown_bps (cb_config cb) \<le> (q - e) * 10000 div q"
  using assms(2) by (cases "cb_peak_equity cb <s e"; simp add: cb_defs q_def)+

lemma unat_drawdown:
  fixes p e :: i64
  assumes "0 < sint p" and "sint e \<le> sint p" and "(sint p - sint e) * 10000 < 2 ^ 64"
  shows "int (unat ((p - e) * 10000 div p)) = (sint p - sint e) * 10000 div sint p"
proof -
  have d: "int (unat (p - e)) = sint p - sint e"
    using assms sint_i64_range [of p] sint_i64_range [of e]
    by (subst unat_eq_sint) (simp_all add: sint_sub_i64)
  then have "int (unat (p - e) * 10000) < 2 ^ 64"
    using assms(3) by simp
  then have "unat (p - e) * 10000 < 2 ^ 64"
    by (rule int_less_2p64)
  then have "unat ((p - e) * 10000) = unat (p - e) * 10000"
    using unat_mult_u64 [of "p - e" 10000] by simp
  then show ?thesis
    using d unat_eq_sint [of p] assms(1) by (simp add: unat_div zdiv_int)
qed

lemma unat_rejection_pct:
  fixes r n :: u64
  assumes "10 \<le> n" and "r \<le> n" and "unat r * 100 < 2 ^ 64"
  shows "unat (ucast (r * 100 div n) :: u8) = unat r * 100 div unat n"
proof -
  have "unat (r * 100) = unat r * 100"
    using assms(3) by (subst unat_mult_u64) simp_all
  then have q: "unat (r * 100 div n) = unat r * 100 div unat n"
    by (simp add: unat_div)
  have "unat r * 100 div unat n \<le> unat n * 100 div unat n"
    using assms(2) by (intro div_le_mono) (simp add: word_le_nat_alt)
  also have "\<dots> \<le> 100" by (cases "unat n = 0") simp_all
  finally have "unat (r * 100 div n) < 2 ^ 8" using q by simp
  then have "unat (ucast (r * 100 div n) :: u8) = unat (r * 100 div n)"
    by (simp add: unsigned_ucast_eq take_bit_nat_eq_self)
  with q show ?thesis by simp
qed

subsection \<open>The breakers as trading gates\<close>

interpretation cb_gate: trading_gate cb_is_trading_allowed cb_locked
  using cb_exec_locked [of _ "CbAllowed _"]
  by unfold_locales (auto simp: cb_locked_disallows)

definition cm_locked :: "CircuitBreakerManager \<Rightarrow> bool" where
  "cm_locked m \<longleftrightarrow>
     cb_locked (cm_main_breaker m) \<or> cb_locked (cm_api_breaker m) \<or> cb_locked (cm_volatility_breaker m)"

lemma cm_locked_disallows:
  assumes "cm_locked m"
  shows "\<not> fst (cm_is_trading_allowed m clk) \<and> cm_locked (snd (cm_is_trading_allowed m clk))"
  using assms cb_gate.refuses cb_gate.keeps
  by (auto simp: cm_locked_def cm_is_trading_allowed_def Let_def split: prod.splits)
    (metis fst_conv snd_conv)+

interpretation cm_gate: trading_gate cm_is_trading_allowed cm_locked
  by unfold_locales (auto simp: cm_locked_disallows)

lemma cm_reset_all_allows:
  assumes "cb_enabled (cm_main_breaker m)" "cb_enabled (cm_api_breaker m)"
    "cb_enabled (cm_volatility_breaker m)"
  shows "fst (cm_is_trading_allowed (cm_reset_all m c) clk)"
  using assms
  by (simp add: cm_is_trading_allowed_def cm_reset_all_def cb_reset_def cb_is_trading_allowed_def
      cb_set_state_def cb_get_state_def)

datatype cm_op =
  CmUpdateEquity i64 clock | CmApiError clock | CmSubmission | CmRejection clock
  | CmAllowed clock | CmResetAll clock

fun cm_exec :: "cm_op \<Rightarrow> CircuitBreakerManager \<Rightarrow> CircuitBreakerManager" where
  "cm_exec (CmUpdateEquity e clk) m = snd (cm_update_equity m e clk)"
| "cm_exec (CmApiError clk) m = snd (cm_record_api_error m clk)"
| "cm_exec CmSubmission m = cm_record_order_submission m"
| "cm_exec (CmRejection clk) m = snd (cm_record_order_rejection m clk)"
| "cm_exec (CmAllowed clk) m = snd (cm_is_trading_allowed m clk)"
| "cm_exec (CmResetAll clk) m = cm_reset_all m clk"

lemma snd_cm_note: "snd (cm_note r m) = (case r of None \<Rightarrow> m | Some ev \<Rightarrow>
    m\<lparr>cm_any_tripped := True, cm_tripped_type := breaker_type_code (be_breaker_type ev)\<rparr>)"
  by (simp add: cm_note_def split: option.splits)

lemma fst_cm_note [simp]: "fst (cm_note r m) = r"
  by (simp add: cm_note_def split: option.splits)

text \<open>What an operation of the manager does to the main breaker.\<close>

fun cm_main_op :: "cm_op \<Rightarrow> cb_op option" where
  "cm_main_op (CmUpdateEquity e clk) = Some (CbUpdateEquity e clk)"
| "cm_main_op (CmApiError clk) = None"
| "cm_main_op CmSubmission = Some CbSubmission"
| "cm_main_op (CmRejection clk) = Some (CbRejection clk)"
| "cm_main_op (CmAllowed clk) = Some (CbAllowed clk)"
| "cm_main_op (CmResetAll clk) = Some (CbReset clk)"

lemma cm_exec_main:
  "cm_main_breaker (cm_exec a m) =
     (case cm_main_op a of None \<Rightarrow> cm_main_breaker m | Some b \<Rightarrow> cb_exec b (cm_main_breaker m))"
  by (cases a) (simp_all add: cm_update_equity_def cm_record_api_error_def snd_cm_note
      cm_record_order_submission_def cm_record_order_rejection_def cm_is_trading_allowed_def
      cm_reset_all_def Let_def case_prod_unfold split: option.splits)

lemma cm_exec_peak:
  "cb_peak_equity (cm_main_breaker m) = i64_MAX \<Longrightarrow>
     cb_peak_equity (cm_main_breaker (cm_exec a m)) = i64_MAX"
  by (auto simp: cm_exec_main cb_exec_peak split: option.splits)

interpretation cm_peak: latched_system cm_exec "\<lambda>a. True"
    "\<lambda>m. cb_peak_equity (cm_main_breaker m) = i64_MAX"
  by unfold_locales (rule cm_exec_peak)

section \<open>Properties\<close>

text \<open>
  A drawdown breaker made by \<open>new\<close> never trips. \<open>new\<close> stores \<open>i64::MAX\<close> as the peak, to
  be "set on first update", but an update only raises the peak, so it stays there and the
  check is skipped: whatever operations have run, no equity makes \<open>update_equity\<close> return an
  event.
\<close>

lemma drawdown_never_trips:
  "fst (cb_update_equity (run cb_exec ops (cb_new cfg clk0)) equity clk) = None"
proof (rule cb_update_equity_peak_MAX, rule cb_peak.run_latch)
  show "cb_peak_equity (cb_new cfg clk0) = i64_MAX" by (simp add: cb_new_def)
  show "list_all (\<lambda>a. True) ops" by (simp add: list_all_iff)
qed

text \<open>
  A breaker whose configuration does not let it recover by itself refuses trading from
  the moment any of its three triggers fires until a manual reset, whatever other operations
  run in between and whatever the clock says.
\<close>

lemma tripped_breaker_stays_shut:
  assumes "(Some ev, cb') \<in> {cb_update_equity cb equity c, cb_record_api_error cb c,
             cb_record_order_rejection cb c}"
    and "\<not> auto_recovery (cb_config cb)"
    and "list_all (\<lambda>a. \<not> cb_is_reset a) ops"
  shows "\<not> fst (cb_is_trading_allowed (run cb_exec ops cb') clk)"
proof -
  have "cb_locked cb'"
    using assms(1,2) by (auto simp: cb_locked_def cb_defs split: if_splits)
  with assms(3) show ?thesis
    by (intro cb_locked_disallows cb_lock.run_latch)
qed

text \<open>
  The drawdown rule itself, from a breaker whose peak is set: the peak becomes the
  running maximum, and the breaker trips exactly when the fall from that peak, in basis
  points rounded down, reaches the configured limit (as long as the scaled fall fits 64
  bits).
\<close>

lemma drawdown_rule:
  fixes cb equity
  defines "p \<equiv> max (sint (cb_peak_equity cb)) (sint equity)"
  assumes "cb_enabled cb" and "0 < sint (cb_peak_equity cb)" and "p < sint i64_MAX"
    and "(p - sint equity) * 10000 < 2 ^ 64"
  shows "sint (cb_peak_equity (snd (cb_update_equity cb equity clk))) = p \<and>
         (fst (cb_update_equity cb equity clk) \<noteq> None \<longleftrightarrow>
           int (unat (max_drawdown_bps (cb_config cb))) \<le> (p - sint equity) * 10000 div p)"
proof (rule conjI)
  define q where "q = (if cb_peak_equity cb <s equity then equity else cb_peak_equity cb)"
  have q: "sint q = p"
    by (simp add: q_def p_def word_sless_alt max_def)
  have q_pos: "0 <s q" and q_max: "q \<noteq> i64_MAX"
    using assms(3,4) q by (auto simp: word_sless_alt p_def)
  have dd: "int (unat ((q - equity) * 10000 div q)) = (p - sint equity) * 10000 div p"
    using unat_drawdown [of q equity] assms(3,5) q by (simp add: p_def)
  show "sint (cb_peak_equity (snd (cb_update_equity cb equity clk))) = p"
    using cb_update_equity_enabled(1) [OF assms(2)] q by (simp add: q_def)
  have "fst (cb_update_equity cb equity clk) \<noteq> None \<longleftrightarrow>
      max_drawdown_bps (cb_config cb) \<le> (q - equity) * 10000 div q"
    using cb_update_equity_enabled(2) [OF assms(2)] q_pos q_max by (simp only: q_def) blast
  also have "\<dots> \<longleftrightarrow> int (unat (max_drawdown_bps (cb_config cb)))
      \<le> int (unat ((q - equity) * 10000 div q))"
    by (simp only: word_le_nat_alt of_nat_le_iff)
  finally show "fst (cb_update_equity cb equity clk) \<noteq> None \<longleftrightarrow>
      int (unat (max_drawdown_bps (cb_config cb))) \<le> (p - sint equity) * 10000 div p"
    by (simp only: dd)
qed

text \<open>
  API errors inside one window are counted one by one: after \<open>n\<close> errors the counter of an
  enabled breaker with a clean window is \<open>n\<close>, and the next error trips it exactly when it
  is at least the \<open>max_api_errors\<close>-th.
\<close>

lemma api_errors_trip_at_limit:
  assumes "cb_enabled cb" and "cb_api_error_count cb = 0"
    and "list_all (cb_in_window cb) (clk # clks)" and "length clks + 1 < 2 ^ 64"
  shows "unat (cb_api_error_count (run cb_exec (map CbApiError clks) cb)) = length clks \<and>
         (fst (cb_record_api_error (run cb_exec (map CbApiError clks) cb) clk) \<noteq> None \<longleftrightarrow>
           unat (max_api_errors (cb_config cb)) \<le> length clks + 1)"
proof (rule conjI)
  let ?cb = "run cb_exec (map CbApiError clks) cb"
  have cb: "cb_enabled ?cb" "cb_api_error_count ?cb = of_nat (length clks)"
    and "cb_api_error_window_start_ns ?cb = cb_api_error_window_start_ns cb"
    using cb_run_api_errors [of cb clks] assms(1-3) by simp_all
  then have w: "cb_in_window ?cb clk"
    using assms(3) by (simp add: cb_in_window_def cb_frame.run_part)
  show "unat (cb_api_error_count ?cb) = length clks"
    using assms(4) cb(2) by (simp add: unat_of_nat)
  have "unat (of_nat (length clks) + 1 :: u64) = length clks + 1"
    using assms(4) by (simp add: unat_word_ariths unat_of_nat)
  moreover have "unat (ucast (max_api_errors (cb_config cb)) :: u64)
      = unat (max_api_errors (cb_config cb))"
    by (rule unat_ucast_32_64)
  ultimately show "fst (cb_record_api_error ?cb clk) \<noteq> None \<longleftrightarrow>
      unat (max_api_errors (cb_config cb)) \<le> length clks + 1"
    using cb_api_error_in_window(4) [OF cb(1) w] cb(2)
    by (simp add: cb_frame.run_part word_le_nat_alt)
qed

text \<open>
  Order rejections: with at least ten submissions and no more rejections than
  submissions, the percentage survives its narrowing to eight bits, and the breaker trips
  exactly when the rejected share, in percent rounded down, reaches the configured limit;
  below ten submissions it never trips.
\<close>

lemma rejection_rule:
  fixes cb
  defines "r \<equiv> unat (cb_orders_rejected cb) + 1" and "n \<equiv> unat (cb_orders_submitted cb)"
  assumes "cb_enabled cb" and "r \<le> n" and "r * 100 < 2 ^ 64"
  shows "fst (cb_record_order_rejection cb clk) \<noteq> None \<longleftrightarrow>
           10 \<le> n \<and> unat (rejection_threshold_pct (cb_config cb)) \<le> r * 100 div n"
proof -
  let ?r = "cb_orders_rejected cb + 1" and ?n = "cb_orders_submitted cb"
  have r: "unat ?r = r"
    using assms(5) by (simp add: r_def unat_word_ariths)
  have "fst (cb_record_order_rejection cb clk) \<noteq> None \<longleftrightarrow>
      10 \<le> ?n \<and> rejection_threshold_pct (cb_config cb) \<le> ucast (?r * 100 div ?n)"
    using assms(3) by (simp add: cb_defs)
  moreover have "unat (ucast (?r * 100 div ?n) :: u8) = r * 100 div n" if "10 \<le> ?n"
    using unat_rejection_pct [of ?n ?r] that assms(4,5) r by (simp add: word_le_nat_alt n_def)
  ultimately show ?thesis
    by (auto simp: word_le_nat_alt n_def)
qed

end
