(* ===== verification/Kill_Switch.thy ===== *)
theory Kill_Switch
  imports Machine
begin

text \<open>
  The global kill switch of \<open>src/safety/kill_switch.rs\<close>: the kill flag, the phases of a kill
  (cancelling, cancelled, halted, restarting) and the cooldown before a restart. The lemmas
  show that a kill is latched until \<open>reset\<close> or \<open>arm\<close>, that the first trigger wins, how the
  cancellation phase counts down, and that the two cooldown computations agree.

  \<open>record_cancellation\<close> calls \<open>fetch_sub\<close> on a padded cell that declares no such method in
  this file; the model takes the method the other copies of the cell declare.
\<close>

section \<open>Data\<close>

datatype KillSource =
  ManualUI | PanicDetected | RiskThreshold | CircuitBreakerSource | NetworkFailure
  | ExchangeDisconnect | HeartbeatFailure | MarginCall | PositionLimit | DrawdownLimit
  | SystemShutdown

datatype KillState = Armed | Triggered | Cancelling | Cancelled | Halted | Restarting | Ready

fun kill_source_code :: "KillSource \<Rightarrow> u64" where
  "kill_source_code ManualUI = 0"
| "kill_source_code PanicDetected = 1"
| "kill_source_code RiskThreshold = 2"
| "kill_source_code CircuitBreakerSource = 3"
| "kill_source_code NetworkFailure = 4"
| "kill_source_code ExchangeDisconnect = 5"
| "kill_source_code HeartbeatFailure = 6"
| "kill_source_code MarginCall = 7"
| "kill_source_code PositionLimit = 8"
| "kill_source_code DrawdownLimit = 9"
| "kill_source_code SystemShutdown = 10"

fun kill_state_code :: "KillState \<Rightarrow> u64" where
  "kill_state_code Armed = 0"
| "kill_state_code Triggered = 1"
| "kill_state_code Cancelling = 2"
| "kill_state_code Cancelled = 3"
| "kill_state_code Halted = 4"
| "kill_state_code Restarting = 5"
| "kill_state_code Ready = 6"

record KillEvent =
  ke_source :: KillSource
  ke_timestamp_ns :: u64
  ke_error_code :: i32
  ke_data :: u64

record GlobalKillSwitch =
  ks_kill_flag :: bool
  ks_state :: u64
  ks_trigger_source :: u64
  ks_kill_count :: u64
  ks_last_kill_ns :: u64
  ks_orders_pending :: u64
  ks_orders_cancelled :: u64
  ks_is_armed :: bool
  ks_allow_restart :: bool
  ks_cooldown_ns :: u64
  ks_cooldown_start_ns :: u64

section \<open>Operations\<close>

definition kill_event_new :: "KillSource \<Rightarrow> i32 \<Rightarrow> u64 \<Rightarrow> clock \<Rightarrow> KillEvent" where
  "kill_event_new src err dat clk =
     \<lparr>ke_source = src, ke_timestamp_ns = clk 0, ke_error_code = err, ke_data = dat\<rparr>"

definition ks_new :: "u64 \<Rightarrow> GlobalKillSwitch" where
  "ks_new cooldown_ms =
     \<lparr>ks_kill_flag = False, ks_state = kill_state_code Armed, ks_trigger_source = 0,
      ks_kill_count = 0, ks_last_kill_ns = 0, ks_orders_pending = 0, ks_orders_cancelled = 0,
      ks_is_armed = True, ks_allow_restart = False, ks_cooldown_ns = cooldown_ms * 1000000,
      ks_cooldown_start_ns = 0\<rparr>"

text \<open>
  \<open>trigger\<close> builds a \<open>KillEvent\<close> (clock read 0) that it then drops, and stamps the kill with
  a second read.
\<close>

definition ks_trigger ::
    "GlobalKillSwitch \<Rightarrow> KillSource \<Rightarrow> i32 \<Rightarrow> u64 \<Rightarrow> clock \<Rightarrow> bool \<times> GlobalKillSwitch" where
  "ks_trigger ks src err dat clk =
     (if \<not> ks_is_armed ks then (False, ks)
      else if ks_kill_flag ks then (False, ks)
      else
        let ks = ks\<lparr>ks_kill_flag := True\<rparr>;
            event = kill_event_new src err dat clk;
            ks = ks\<lparr>ks_state := kill_state_code Triggered,
                    ks_trigger_source := kill_source_code src\<rparr>;
            now = clk 1
        in (True, ks\<lparr>ks_last_kill_ns := now, ks_kill_count := ks_kill_count ks + 1,
                     ks_cooldown_start_ns := now\<rparr>))"

definition ks_trigger_manual :: "GlobalKillSwitch \<Rightarrow> clock \<Rightarrow> bool \<times> GlobalKillSwitch" where
  "ks_trigger_manual ks clk = ks_trigger ks ManualUI 0 0 clk"

definition ks_trigger_panic :: "GlobalKillSwitch \<Rightarrow> i32 \<Rightarrow> clock \<Rightarrow> bool \<times> GlobalKillSwitch" where
  "ks_trigger_panic ks code clk = ks_trigger ks PanicDetected code 0 clk"

definition ks_trigger_risk ::
    "GlobalKillSwitch \<Rightarrow> i32 \<Rightarrow> u64 \<Rightarrow> clock \<Rightarrow> bool \<times> GlobalKillSwitch" where
  "ks_trigger_risk ks code dat clk = ks_trigger ks RiskThreshold code dat clk"

definition ks_begin_cancellation :: "GlobalKillSwitch \<Rightarrow> u64 \<Rightarrow> GlobalKillSwitch" where
  "ks_begin_cancellation ks n =
     ks\<lparr>ks_state := kill_state_code Cancelling, ks_orders_pending := n\<rparr>"

definition ks_record_cancellation :: "GlobalKillSwitch \<Rightarrow> u64 \<times> GlobalKillSwitch" where
  "ks_record_cancellation ks =
     (let remaining = u64_sat_sub (ks_orders_pending ks) 1;
          ks = ks\<lparr>ks_orders_pending := ks_orders_pending ks - 1,
                  ks_orders_cancelled := ks_orders_cancelled ks + 1\<rparr>;
          ks = (if remaining = 0 then ks\<lparr>ks_state := kill_state_code Cancelled\<rparr> else ks)
      in (remaining, ks))"

definition ks_halt_trading :: "GlobalKillSwitch \<Rightarrow> GlobalKillSwitch" where
  "ks_halt_trading ks = ks\<lparr>ks_state := kill_state_code Halted\<rparr>"

definition ks_is_killed :: "GlobalKillSwitch \<Rightarrow> bool" where
  "ks_is_killed ks = ks_kill_flag ks"

definition ks_get_state :: "GlobalKillSwitch \<Rightarrow> KillState" where
  "ks_get_state ks =
     (let s = ks_state ks in
      if s = 0 then Armed else if s = 1 then Triggered else if s = 2 then Cancelling
      else if s = 3 then Cancelled else if s = 4 then Halted else if s = 5 then Restarting
      else if s = 6 then Ready else Halted)"

definition ks_get_trigger_source :: "GlobalKillSwitch \<Rightarrow> KillSource" where
  "ks_get_trigger_source ks =
     (let s = ks_trigger_source ks in
      if s = 0 then ManualUI else if s = 1 then PanicDetected else if s = 2 then RiskThreshold
      else if s = 3 then CircuitBreakerSource else if s = 4 then NetworkFailure
      else if s = 5 then ExchangeDisconnect else if s = 6 then HeartbeatFailure
      else if s = 7 then MarginCall else if s = 8 then PositionLimit
      else if s = 9 then DrawdownLimit else if s = 10 then SystemShutdown else ManualUI)"

definition ks_is_cooldown_expired :: "GlobalKillSwitch \<Rightarrow> clock \<Rightarrow> bool" where
  "ks_is_cooldown_expired ks clk =
     (if ks_cooldown_ns ks = 0 \<or> ks_cooldown_start_ns ks = 0 then True
      else ks_cooldown_ns ks \<le> u64_sat_sub (clk 0) (ks_cooldown_start_ns ks))"

definition ks_prepare_restart :: "GlobalKillSwitch \<Rightarrow> clock \<Rightarrow> bool \<times> GlobalKillSwitch" where
  "ks_prepare_restart ks clk =
     (if \<not> ks_is_cooldown_expired ks clk then (False, ks)
      else (True, ks\<lparr>ks_state := kill_state_code Restarting\<rparr>))"

definition ks_reset :: "GlobalKillSwitch \<Rightarrow> GlobalKillSwitch" where
  "ks_reset ks =
     ks\<lparr>ks_kill_flag := False, ks_state := kill_state_code Armed, ks_trigger_source := 0,
       ks_orders_pending := 0, ks_allow_restart := False\<rparr>"

definition ks_arm :: "GlobalKillSwitch \<Rightarrow> GlobalKillSwitch" where
  "ks_arm ks = ks_reset (ks\<lparr>ks_is_armed := True\<rparr>)"

definition ks_disarm :: "GlobalKillSwitch \<Rightarrow> GlobalKillSwitch" where
  "ks_disarm ks = ks\<lparr>ks_is_armed := False\<rparr>"

definition ks_get_cooldown_remaining :: "GlobalKillSwitch \<Rightarrow> clock \<Rightarrow> u64" where
  "ks_get_cooldown_remaining ks clk =
     (if ks_cooldown_ns ks = 0 \<or> ks_cooldown_start_ns ks = 0 then 0
      else let elapsed = u64_sat_sub (clk 0) (ks_cooldown_start_ns ks)
           in if ks_cooldown_ns ks \<le> elapsed then 0 else ks_cooldown_ns ks - elapsed)"

definition ks_set_cooldown_ms :: "GlobalKillSwitch \<Rightarrow> u64 \<Rightarrow> GlobalKillSwitch" where
  "ks_set_cooldown_ms ks ms = ks\<lparr>ks_cooldown_ns := ms * 1000000\<rparr>"

record KillSwitchStats =
  kst_is_killed :: bool
  kst_state :: KillState
  kst_trigger_source :: KillSource
  kst_kill_count :: u64
  kst_last_kill_ns :: u64
  kst_orders_pending :: u64
  kst_orders_cancelled :: u64
  kst_is_armed :: bool
  kst_cooldown_remaining_ns :: u64

definition ks_get_stats :: "GlobalKillSwitch \<Rightarrow> clock \<Rightarrow> KillSwitchStats" where
  "ks_get_stats ks clk =
     \<lparr>kst_is_killed = ks_is_killed ks, kst_state = ks_get_state ks,
      kst_trigger_source = ks_get_trigger_source ks, kst_kill_count = ks_kill_count ks,
      kst_last_kill_ns = ks_last_kill_ns ks, kst_orders_pending = ks_orders_pending ks,
      kst_orders_cancelled = ks_orders_cancelled ks, kst_is_armed = ks_is_armed ks,
      kst_cooldown_remaining_ns = ks_get_cooldown_remaining ks clk\<rparr>"

section \<open>Runs\<close>

datatype ks_op =
  KsTrigger KillSource i32 u64 clock | KsBegin u64 | KsRecord | KsHalt | KsPrepare clock
  | KsReset | KsArm | KsDisarm | KsSetCooldown u64

fun ks_exec :: "ks_op \<Rightarrow> GlobalKillSwitch \<Rightarrow> GlobalKillSwitch" where
  "ks_exec (KsTrigger src err dat clk) ks = snd (ks_trigger ks src err dat clk)"
| "ks_exec (KsBegin n) ks = ks_begin_cancellation ks n"
| "ks_exec KsRecord ks = snd (ks_record_cancellation ks)"
| "ks_exec KsHalt ks = ks_halt_trading ks"
| "ks_exec (KsPrepare clk) ks = snd (ks_prepare_restart ks clk)"
| "ks_exec KsReset ks = ks_reset ks"
| "ks_exec KsArm ks = ks_arm ks"
| "ks_exec KsDisarm ks = ks_disarm ks"
| "ks_exec (KsSetCooldown ms) ks = ks_set_cooldown_ms ks ms"

fun ks_rearms :: "ks_op \<Rightarrow> bool" where
  "ks_rearms KsReset = True"
| "ks_rearms KsArm = True"
| "ks_rearms a = False"

lemmas ks_defs =
  ks_trigger_def ks_begin_cancellation_def ks_record_cancellation_def ks_halt_trading_def
  ks_prepare_restart_def ks_reset_def ks_arm_def ks_disarm_def ks_set_cooldown_ms_def Let_def

lemma ks_get_state_update [simp]: "ks_get_state (ks\<lparr>ks_state := kill_state_code st\<rparr>) = st"
  by (cases st) (simp_all add: ks_get_state_def)

lemma ks_get_source_update [simp]:
  "ks_get_trigger_source (ks\<lparr>ks_trigger_source := kill_source_code src\<rparr>) = src"
  by (cases src) (simp_all add: ks_get_trigger_source_def)

text \<open>The kill and its source are latched.\<close>

definition ks_killed_by :: "u64 \<Rightarrow> u64 \<Rightarrow> GlobalKillSwitch \<Rightarrow> bool" where
  "ks_killed_by code t ks \<longleftrightarrow>
     ks_kill_flag ks \<and> ks_trigger_source ks = code \<and> ks_last_kill_ns ks = t"

lemma ks_exec_killed_by:
  "ks_killed_by code t ks \<Longrightarrow> \<not> ks_rearms a \<Longrightarrow> ks_killed_by code t (ks_exec a ks)"
  by (cases a) (auto simp: ks_killed_by_def ks_defs)

interpretation ks_latch: latched_system ks_exec "\<lambda>a. \<not> ks_rearms a" "ks_killed_by code t"
  for code t
  by unfold_locales (rule ks_exec_killed_by)

text \<open>Counting down the pending cancellations.\<close>

lemma ks_record_pending:
  assumes "0 < ks_orders_pending ks"
  shows "unat (ks_orders_pending (snd (ks_record_cancellation ks))) = unat (ks_orders_pending ks) - 1"
    and "unat (fst (ks_record_cancellation ks)) = unat (ks_orders_pending ks) - 1"
proof -
  have "1 \<le> ks_orders_pending ks" using assms by (simp add: word_less_nat_alt word_le_nat_alt)
  then show "unat (ks_orders_pending (snd (ks_record_cancellation ks)))
      = unat (ks_orders_pending ks) - 1"
    by (simp add: ks_defs unat_sub_u64)
qed (simp add: ks_record_cancellation_def Let_def unat_u64_sat_sub)

lemma ks_run_record:
  assumes "k \<le> unat (ks_orders_pending ks)"
  shows "unat (ks_orders_pending (run ks_exec (replicate k KsRecord) ks))
           = unat (ks_orders_pending ks) - k \<and>
         ks_orders_cancelled (run ks_exec (replicate k KsRecord) ks)
           = ks_orders_cancelled ks + of_nat k"
  using assms
proof (induction k)
  case 0
  then show ?case by simp
next
  case (Suc k)
  let ?ks = "run ks_exec (replicate k KsRecord) ks"
  have rep: "replicate (Suc k) KsRecord = replicate k KsRecord @ [KsRecord]"
    by (simp add: replicate_append_same)
  have IH: "unat (ks_orders_pending ?ks) = unat (ks_orders_pending ks) - k"
    "ks_orders_cancelled ?ks = ks_orders_cancelled ks + of_nat k"
    using Suc by simp_all
  have "0 < unat (ks_orders_pending ?ks)" using IH(1) Suc.prems by simp
  then have "0 < ks_orders_pending ?ks" by (simp add: word_less_nat_alt)
  moreover have "run ks_exec (replicate (Suc k) KsRecord) ks
      = snd (ks_record_cancellation ?ks)"
    by (simp only: rep run_snoc ks_exec.simps)
  moreover have "ks_orders_cancelled (snd (ks_record_cancellation ?ks))
      = ks_orders_cancelled ?ks + 1"
    by (simp add: ks_defs)
  ultimately show ?case
    using ks_record_pending(1) [of ?ks] IH by (simp add: ac_simps)
qed

lemma ks_run_record_state:
  assumes "k \<le> unat (ks_orders_pending ks)" and "0 < k"
  shows "ks_get_state (run ks_exec (replicate k KsRecord) ks)
           = (if k = unat (ks_orders_pending ks) then Cancelled else ks_get_state ks)"
  using assms
proof (induction k arbitrary: ks)
  case 0
  then show ?case by simp
next
  case (Suc k)
  let ?ks = "snd (ks_record_cancellation ks)"
  have pos: "0 < ks_orders_pending ks"
    using Suc.prems by (simp add: word_less_nat_alt)
  have pend: "unat (ks_orders_pending ?ks) = unat (ks_orders_pending ks) - 1"
    by (rule ks_record_pending(1) [OF pos])
  have st: "ks_get_state ?ks
      = (if unat (ks_orders_pending ks) = 1 then Cancelled else ks_get_state ks)"
    using ks_record_pending(2) [OF pos] pos
    by (auto simp: ks_record_cancellation_def Let_def word_unat_eq_iff ks_get_state_def
        word_less_nat_alt)
  show ?case
  proof (cases "k = 0")
    case True
    with st show ?thesis by simp
  next
    case False
    then have "ks_get_state (run ks_exec (replicate k KsRecord) ?ks)
        = (if k = unat (ks_orders_pending ?ks) then Cancelled else ks_get_state ?ks)"
      using Suc pend by (intro Suc.IH) simp_all
    with pend st Suc.prems False show ?thesis by auto
  qed
qed

section \<open>Properties\<close>

text \<open>
  The first trigger wins and its kill is latched: a successful \<open>trigger\<close> needs an armed
  switch that is not yet killed; afterwards, whatever operations run except \<open>reset\<close> and
  \<open>arm\<close>, the switch reports killed with that source and time, and every further trigger is
  refused.
\<close>

lemma first_trigger_wins:
  assumes "ks_trigger ks src err dat c = (True, ks')"
    and "list_all (\<lambda>a. \<not> ks_rearms a) ops"
  shows "ks_is_armed ks \<and> \<not> ks_is_killed ks \<and>
         ks_is_killed (run ks_exec ops ks') \<and>
         ks_get_trigger_source (run ks_exec ops ks') = src \<and>
         ks_last_kill_ns (run ks_exec ops ks') = c 1 \<and>
         \<not> fst (ks_trigger (run ks_exec ops ks') src2 err2 dat2 c2)"
proof -
  have "ks_killed_by (kill_source_code src) (c 1) ks'"
    using assms(1) by (auto simp: ks_killed_by_def ks_defs split: if_splits)
  then have k: "ks_killed_by (kill_source_code src) (c 1) (run ks_exec ops ks')"
    using assms(2) by (rule ks_latch.run_latch)
  have "ks_get_trigger_source (run ks_exec ops ks') = src"
    using k by (cases src) (simp_all add: ks_killed_by_def ks_get_trigger_source_def)
  with k assms(1) show ?thesis
    by (auto simp: ks_killed_by_def ks_is_killed_def ks_trigger_def split: if_splits)
qed

text \<open>
  The cancellation phase: after \<open>begin_cancellation n\<close> with \<open>n > 0\<close>, each
  \<open>record_cancellation\<close> takes one order off, the switch stays in \<open>Cancelling\<close> while orders
  remain and becomes \<open>Cancelled\<close> exactly with the \<open>n\<close>-th one.
\<close>

lemma cancellation_countdown:
  fixes ks n k
  defines "ks' \<equiv> run ks_exec (replicate k KsRecord) (ks_begin_cancellation ks n)"
  assumes "0 < n" and "k \<le> unat n"
  shows "unat (ks_orders_pending ks') = unat n - k \<and>
         ks_orders_cancelled ks' = ks_orders_cancelled ks + of_nat k \<and>
         ks_get_state ks' = (if k = unat n then Cancelled else Cancelling)"
proof -
  let ?ks = "ks_begin_cancellation ks n"
  have "ks_get_state ?ks = Cancelling" "ks_orders_pending ?ks = n"
    "ks_orders_cancelled ?ks = ks_orders_cancelled ks"
    by (simp_all add: ks_begin_cancellation_def ks_get_state_def)
  moreover have "ks_get_state ks' = (if k = unat n then Cancelled else Cancelling)"
  proof (cases "k = 0")
    case True
    with assms(2) show ?thesis
      by (simp add: ks'_def ks_begin_cancellation_def ks_get_state_def word_less_nat_alt)
  next
    case False
    with assms(3) show ?thesis
      using ks_run_record_state [of k ?ks] calculation by (simp add: ks'_def)
  qed
  ultimately show ?thesis
    using assms(3) ks_run_record [of k ?ks] by (simp add: ks'_def)
qed

text \<open>
  One cancellation too many makes the pending counter wrap to \<open>2 ^ 64 - 1\<close>, although the
  call reports that nothing remains and the state is \<open>Cancelled\<close>: the saturating subtraction
  is applied to the value \<open>fetch_sub\<close> returns, not to the cell.
\<close>

lemma extra_cancellation_wraps:
  assumes "ks_orders_pending ks = 0"
  shows "fst (ks_record_cancellation ks) = 0 \<and>
         ks_get_state (snd (ks_record_cancellation ks)) = Cancelled \<and>
         unat (ks_orders_pending (snd (ks_record_cancellation ks))) = 2 ^ 64 - 1"
  using assms
  by (simp add: ks_record_cancellation_def Let_def u64_sat_sub_def ks_get_state_def
      unsigned_minus_1_eq_mask mask_eq_exp_minus_1)

text \<open>
  The reported remaining cooldown and the check that gates a restart agree: the remaining
  time is zero exactly when the cooldown counts as expired, and otherwise remaining and
  elapsed time add up to the cooldown.
\<close>

lemma cooldown_views_agree:
  "(ks_get_cooldown_remaining ks clk = 0 \<longleftrightarrow> ks_is_cooldown_expired ks clk) \<and>
   (ks_is_cooldown_expired ks clk \<or>
    unat (ks_get_cooldown_remaining ks clk) + (unat (clk 0) - unat (ks_cooldown_start_ns ks))
      = unat (ks_cooldown_ns ks))"
proof -
  define e where "e = u64_sat_sub (clk 0) (ks_cooldown_start_ns ks)"
  have e: "unat e = unat (clk 0) - unat (ks_cooldown_start_ns ks)"
    by (simp add: e_def unat_u64_sat_sub)
  have "unat (ks_cooldown_ns ks - e) = unat (ks_cooldown_ns ks) - unat e" if "e < ks_cooldown_ns ks"
    using that by (intro unat_sub_u64) simp
  with e show ?thesis
    by (auto simp: ks_get_cooldown_remaining_def ks_is_cooldown_expired_def word_le_nat_alt
        word_less_nat_alt word_unat_eq_iff not_le simp flip: e_def)
qed

end
