(* ===== verification/Safety.thy ===== *)
theory Safety
  imports Circuit_Breaker Kill_Switch
begin

text \<open>
  The safety system of \<open>src/safety/mod.rs\<close>, which couples the kill switch with the circuit
  breakers, and the execution gateway that asks it before every order. The lemmas show that
  a killed or deactivated system refuses every order until it is activated or reset, what
  the gateway counts, and which breaker trips reach the kill switch.
\<close>

section \<open>Data\<close>

record SafetyConfig =
  kill_cooldown_ms :: u64
  breaker_config :: BreakerConfig
  auto_kill_on_breaker :: bool
  enable_ui_kill :: bool
  shutdown_timeout_ms :: u64

definition safety_config_default :: SafetyConfig where
  "safety_config_default =
     \<lparr>kill_cooldown_ms = 5000, breaker_config = breaker_config_default,
      auto_kill_on_breaker = True, enable_ui_kill = True, shutdown_timeout_ms = 10000\<rparr>"

record SafetySystem =
  ss_kill_switch :: GlobalKillSwitch
  ss_circuit_breakers :: CircuitBreakerManager
  ss_config :: SafetyConfig
  ss_is_active :: bool
  ss_safety_events :: u64
  ss_last_safety_event_ns :: u64

section \<open>The safety system\<close>

definition ss_new :: "SafetyConfig \<Rightarrow> clock \<Rightarrow> SafetySystem" where
  "ss_new cfg clk =
     \<lparr>ss_kill_switch = ks_new (kill_cooldown_ms cfg),
      ss_circuit_breakers = cm_new (Some (breaker_config cfg)) clk,
      ss_config = cfg, ss_is_active = True, ss_safety_events = 0, ss_last_safety_event_ns = 0\<rparr>"

definition ss_is_trading_allowed :: "SafetySystem \<Rightarrow> clock \<Rightarrow> bool \<times> SafetySystem" where
  "ss_is_trading_allowed s clk =
     (if \<not> ss_is_active s then (False, s)
      else if ks_is_killed (ss_kill_switch s) then (False, s)
      else let (ok, m) = cm_is_trading_allowed (ss_circuit_breakers s) clk
           in (ok, s\<lparr>ss_circuit_breakers := m\<rparr>))"

definition ss_record_safety_event :: "SafetySystem \<Rightarrow> clock \<Rightarrow> SafetySystem" where
  "ss_record_safety_event s clk =
     s\<lparr>ss_safety_events := ss_safety_events s + 1, ss_last_safety_event_ns := clk 0\<rparr>"

definition ss_handle_ui_kill :: "SafetySystem \<Rightarrow> clock \<Rightarrow> bool \<times> SafetySystem" where
  "ss_handle_ui_kill s clk =
     (if \<not> enable_ui_kill (ss_config s) then (False, s)
      else let (result, k) = ks_trigger_manual (ss_kill_switch s) clk;
               s = s\<lparr>ss_kill_switch := k\<rparr>;
               s = (if result then ss_record_safety_event s (after 2 clk) else s)
           in (result, s))"

definition ss_handle_panic :: "SafetySystem \<Rightarrow> i32 \<Rightarrow> clock \<Rightarrow> bool \<times> SafetySystem" where
  "ss_handle_panic s code clk =
     (let (result, k) = ks_trigger_panic (ss_kill_switch s) code clk;
          s = s\<lparr>ss_kill_switch := k\<rparr>;
          s = (if result then ss_record_safety_event s (after 2 clk) else s)
      in (result, s))"

definition ss_update_equity :: "SafetySystem \<Rightarrow> i64 \<Rightarrow> clock \<Rightarrow> SafetySystem" where
  "ss_update_equity s equity clk =
     (let (r, m) = cm_update_equity (ss_circuit_breakers s) equity clk;
          s = s\<lparr>ss_circuit_breakers := m\<rparr>
      in case r of
           None \<Rightarrow> s
         | Some event \<Rightarrow>
             let s = ss_record_safety_event s (after 2 clk)
             in if auto_kill_on_breaker (ss_config s)
                then s\<lparr>ss_kill_switch :=
                       snd (ks_trigger_risk (ss_kill_switch s)
                              (ucast (breaker_type_code (be_breaker_type event)))
                              (be_trigger_value event) (after 3 clk))\<rparr>
                else s)"

definition ss_record_api_error :: "SafetySystem \<Rightarrow> clock \<Rightarrow> SafetySystem" where
  "ss_record_api_error s clk =
     s\<lparr>ss_circuit_breakers := snd (cm_record_api_error (ss_circuit_breakers s) clk)\<rparr>"

definition ss_record_order_submission :: "SafetySystem \<Rightarrow> SafetySystem" where
  "ss_record_order_submission s =
     s\<lparr>ss_circuit_breakers := cm_record_order_submission (ss_circuit_breakers s)\<rparr>"

definition ss_record_order_rejection :: "SafetySystem \<Rightarrow> clock \<Rightarrow> SafetySystem" where
  "ss_record_order_rejection s clk =
     (let (r, m) = cm_record_order_rejection (ss_circuit_breakers s) clk;
          s = s\<lparr>ss_circuit_breakers := m\<rparr>
      in case r of None \<Rightarrow> s | Some event \<Rightarrow> ss_record_safety_event s (after 2 clk))"

definition ss_begin_cancellation :: "SafetySystem \<Rightarrow> u64 \<Rightarrow> SafetySystem" where
  "ss_begin_cancellation s n = s\<lparr>ss_kill_switch := ks_begin_cancellation (ss_kill_switch s) n\<rparr>"

definition ss_record_cancellation :: "SafetySystem \<Rightarrow> u64 \<times> SafetySystem" where
  "ss_record_cancellation s =
     (let (remaining, k) = ks_record_cancellation (ss_kill_switch s)
      in (remaining, s\<lparr>ss_kill_switch := k\<rparr>))"

definition ss_activate :: "SafetySystem \<Rightarrow> SafetySystem" where
  "ss_activate s = s\<lparr>ss_is_active := True, ss_kill_switch := ks_arm (ss_kill_switch s)\<rparr>"

definition ss_deactivate :: "SafetySystem \<Rightarrow> SafetySystem" where
  "ss_deactivate s = s\<lparr>ss_is_active := False\<rparr>"

definition ss_reset :: "SafetySystem \<Rightarrow> clock \<Rightarrow> bool \<times> SafetySystem" where
  "ss_reset s clk =
     (if \<not> ks_is_cooldown_expired (ss_kill_switch s) clk then (False, s)
      else (True, s\<lparr>ss_kill_switch := ks_reset (ss_kill_switch s),
                   ss_circuit_breakers := cm_reset_all (ss_circuit_breakers s) (after 1 clk)\<rparr>))"

definition ss_emergency_shutdown :: "SafetySystem \<Rightarrow> clock \<Rightarrow> SafetySystem" where
  "ss_emergency_shutdown s clk =
     ss_deactivate (s\<lparr>ss_kill_switch :=
       snd (ks_trigger (ss_kill_switch s) SystemShutdown 0 0 clk)\<rparr>)"

record SafetyStatus =
  sst_trading_allowed :: bool
  sst_is_killed :: bool
  sst_kill_state :: KillState
  sst_kill_source :: KillSource
  sst_breaker_status :: BreakerManagerStatus
  sst_safety_events :: u64
  sst_last_safety_event_ns :: u64
  sst_is_active :: bool

text \<open>The status asks the breakers twice: once itself and once for the breaker status.\<close>

definition ss_get_status :: "SafetySystem \<Rightarrow> clock \<Rightarrow> SafetyStatus \<times> SafetySystem" where
  "ss_get_status s clk =
     (let (ok, s) = ss_is_trading_allowed s clk;
          (bst, m) = cm_get_status (ss_circuit_breakers s) (after 3 clk);
          s = s\<lparr>ss_circuit_breakers := m\<rparr>
      in (\<lparr>sst_trading_allowed = ok, sst_is_killed = ks_is_killed (ss_kill_switch s),
           sst_kill_state = ks_get_state (ss_kill_switch s),
           sst_kill_source = ks_get_trigger_source (ss_kill_switch s),
           sst_breaker_status = bst, sst_safety_events = ss_safety_events s,
           sst_last_safety_event_ns = ss_last_safety_event_ns s,
           sst_is_active = ss_is_active s\<rparr>, s))"

section \<open>The execution gateway\<close>

record SafeExecutionGateway =
  gw_safety_system :: SafetySystem
  gw_orders_submitted :: u64
  gw_orders_rejected_safety :: u64

definition gw_new :: "SafetySystem \<Rightarrow> SafeExecutionGateway" where
  "gw_new s = \<lparr>gw_safety_system = s, gw_orders_submitted = 0, gw_orders_rejected_safety = 0\<rparr>"

definition gw_can_submit_order :: "SafeExecutionGateway \<Rightarrow> clock \<Rightarrow> bool \<times> SafeExecutionGateway" where
  "gw_can_submit_order g clk =
     (let (ok, s) = ss_is_trading_allowed (gw_safety_system g) clk;
          g = g\<lparr>gw_safety_system := s\<rparr>
      in if \<not> ok
         then (False, g\<lparr>gw_orders_rejected_safety := gw_orders_rejected_safety g + 1\<rparr>)
         else (True, g))"

definition gw_submit_order :: "SafeExecutionGateway \<Rightarrow> clock \<Rightarrow> bool \<times> SafeExecutionGateway" where
  "gw_submit_order g clk =
     (let (ok, g) = gw_can_submit_order g clk
      in if \<not> ok then (False, g)
         else (True, g\<lparr>gw_orders_submitted := gw_orders_submitted g + 1,
                       gw_safety_system := ss_record_order_submission (gw_safety_system g)\<rparr>))"

definition gw_record_rejection :: "SafeExecutionGateway \<Rightarrow> clock \<Rightarrow> SafeExecutionGateway" where
  "gw_record_rejection g clk =
     g\<lparr>gw_safety_system := ss_record_order_rejection (gw_safety_system g) clk\<rparr>"

record GatewayStats =
  gws_orders_submitted :: u64
  gws_orders_rejected_safety :: u64
  gws_trading_allowed :: bool

definition gw_get_stats :: "SafeExecutionGateway \<Rightarrow> clock \<Rightarrow> GatewayStats \<times> SafeExecutionGateway" where
  "gw_get_stats g clk =
     (let (ok, s) = ss_is_trading_allowed (gw_safety_system g) clk
      in (\<lparr>gws_orders_submitted = gw_orders_submitted g,
           gws_orders_rejected_safety = gw_orders_rejected_safety g,
           gws_trading_allowed = ok\<rparr>, g\<lparr>gw_safety_system := s\<rparr>))"

section \<open>Runs\<close>

text \<open>
  The operations of the system, and those of the kill switch and of the breakers that a
  client reaches through \<open>get_kill_switch\<close> and \<open>get_circuit_breakers\<close>.
\<close>

datatype ss_op =
  SsAllowed clock | SsUiKill clock | SsPanic i32 clock | SsUpdateEquity i64 clock
  | SsApiError clock | SsSubmission | SsRejection clock | SsBeginCancellation u64
  | SsRecordCancellation | SsActivate | SsDeactivate | SsReset clock | SsShutdown clock
  | SsKillSwitch ks_op | SsBreakers cm_op

fun ss_exec :: "ss_op \<Rightarrow> SafetySystem \<Rightarrow> SafetySystem" where
  "ss_exec (SsAllowed clk) s = snd (ss_is_trading_allowed s clk)"
| "ss_exec (SsUiKill clk) s = snd (ss_handle_ui_kill s clk)"
| "ss_exec (SsPanic code clk) s = snd (ss_handle_panic s code clk)"
| "ss_exec (SsUpdateEquity e clk) s = ss_update_equity s e clk"
| "ss_exec (SsApiError clk) s = ss_record_api_error s clk"
| "ss_exec SsSubmission s = ss_record_order_submission s"
| "ss_exec (SsRejection clk) s = ss_record_order_rejection s clk"
| "ss_exec (SsBeginCancellation n) s = ss_begin_cancellation s n"
| "ss_exec SsRecordCancellation s = snd (ss_record_cancellation s)"
| "ss_exec SsActivate s = ss_activate s"
| "ss_exec SsDeactivate s = ss_deactivate s"
| "ss_exec (SsReset clk) s = snd (ss_reset s clk)"
| "ss_exec (SsShutdown clk) s = ss_emergency_shutdown s clk"
| "ss_exec (SsKillSwitch a) s = s\<lparr>ss_kill_switch := ks_exec a (ss_kill_switch s)\<rparr>"
| "ss_exec (SsBreakers a) s = s\<lparr>ss_circuit_breakers := cm_exec a (ss_circuit_breakers s)\<rparr>"

text \<open>The operations that can bring a halted system back.\<close>

fun ss_revives :: "ss_op \<Rightarrow> bool" where
  "ss_revives SsActivate = True"
| "ss_revives (SsReset clk) = True"
| "ss_revives (SsKillSwitch a) = ks_rearms a"
| "ss_revives a = False"

text \<open>The operations that report market and order events, and nothing else.\<close>

fun ss_reports :: "ss_op \<Rightarrow> bool" where
  "ss_reports (SsAllowed clk) = True"
| "ss_reports (SsUpdateEquity e clk) = True"
| "ss_reports (SsApiError clk) = True"
| "ss_reports SsSubmission = True"
| "ss_reports (SsRejection clk) = True"
| "ss_reports (SsBreakers a) = True"
| "ss_reports a = False"

lemmas ss_defs =
  ss_is_trading_allowed_def ss_record_safety_event_def ss_handle_ui_kill_def ss_handle_panic_def
  ss_update_equity_def ss_record_api_error_def ss_record_order_submission_def
  ss_record_order_rejection_def ss_begin_cancellation_def ss_record_cancellation_def
  ss_activate_def ss_deactivate_def ss_reset_def ss_emergency_shutdown_def
  ks_trigger_manual_def ks_trigger_panic_def ks_trigger_risk_def ks_is_killed_def
  Let_def case_prod_unfold

definition ss_shut :: "SafetySystem \<Rightarrow> bool" where
  "ss_shut s \<longleftrightarrow> \<not> ss_is_active s \<or> ks_is_killed (ss_kill_switch s)"

lemma ks_trigger_killed [simp]:
  "ks_kill_flag (snd (ks_trigger ks src err dat clk)) \<longleftrightarrow> ks_is_armed ks \<or> ks_kill_flag ks"
  by (simp add: ks_trigger_def Let_def)

lemma ks_record_cancellation_killed [simp]:
  "ks_kill_flag (snd (ks_record_cancellation ks)) = ks_kill_flag ks"
  by (simp add: ks_defs)

lemma ks_begin_cancellation_killed [simp]:
  "ks_kill_flag (ks_begin_cancellation ks n) = ks_kill_flag ks"
  by (simp add: ks_defs)

lemma ks_exec_keeps_flag: "ks_kill_flag ks \<Longrightarrow> \<not> ks_rearms a \<Longrightarrow> ks_kill_flag (ks_exec a ks)"
  using ks_exec_killed_by [of "ks_trigger_source ks" "ks_last_kill_ns ks" ks a]
  by (simp add: ks_killed_by_def)

lemma ss_exec_shut: "ss_shut s \<Longrightarrow> \<not> ss_revives a \<Longrightarrow> ss_shut (ss_exec a s)"
  by (cases a) (auto simp: ss_shut_def ss_defs ks_exec_keeps_flag split: option.splits)

interpretation ss_latch: latched_system ss_exec "\<lambda>a. \<not> ss_revives a" ss_shut
  by unfold_locales (rule ss_exec_shut)

interpretation ss_gate: trading_gate ss_is_trading_allowed ss_shut
  by unfold_locales (auto simp: ss_is_trading_allowed_def ss_shut_def)

text \<open>Submitting through the gateway is asking a gate, too.\<close>

definition gw_shut :: "SafeExecutionGateway \<Rightarrow> bool" where
  "gw_shut g \<longleftrightarrow> ss_shut (gw_safety_system g)"

lemma ss_is_trading_allowed_shut:
  "ss_shut s \<Longrightarrow> ss_is_trading_allowed s clk = (False, s)"
  by (auto simp: ss_shut_def ss_is_trading_allowed_def)

interpretation gw_gate: trading_gate gw_submit_order gw_shut
  by unfold_locales
    (auto simp: gw_shut_def gw_submit_order_def gw_can_submit_order_def ss_is_trading_allowed_shut)

lemma gw_submit_order_counts:
  "gw_orders_submitted (snd (gw_submit_order g clk))
     = gw_orders_submitted g + (if fst (gw_submit_order g clk) then 1 else 0)"
  "gw_orders_rejected_safety (snd (gw_submit_order g clk))
     = gw_orders_rejected_safety g + (if fst (gw_submit_order g clk) then 0 else 1)"
  by (simp_all add: gw_submit_order_def gw_can_submit_order_def Let_def case_prod_unfold)

text \<open>Reports never reach the kill switch of a system made by \<open>new\<close>.\<close>

definition ss_unkilled :: "SafetySystem \<Rightarrow> bool" where
  "ss_unkilled s \<longleftrightarrow>
     \<not> ks_kill_flag (ss_kill_switch s) \<and>
     cb_peak_equity (cm_main_breaker (ss_circuit_breakers s)) = i64_MAX"

lemma cm_update_equity_peak_MAX:
  "cb_peak_equity (cm_main_breaker m) = i64_MAX \<Longrightarrow> fst (cm_update_equity m e clk) = None"
  by (simp add: cm_update_equity_def Let_def case_prod_unfold cb_update_equity_peak_MAX)

lemma ss_exec_unkilled: "ss_unkilled s \<Longrightarrow> ss_reports a \<Longrightarrow> ss_unkilled (ss_exec a s)"
  using cm_exec_peak [of "ss_circuit_breakers s"] cm_exec_peak [of "ss_circuit_breakers s" "CmAllowed _"]
    cm_exec_peak [of "ss_circuit_breakers s" "CmUpdateEquity _ _"]
    cm_exec_peak [of "ss_circuit_breakers s" "CmApiError _"]
    cm_exec_peak [of "ss_circuit_breakers s" CmSubmission]
    cm_exec_peak [of "ss_circuit_breakers s" "CmRejection _"]
  by (cases a) (auto simp: ss_unkilled_def ss_defs cm_update_equity_peak_MAX split: option.splits)

interpretation ss_quiet: latched_system ss_exec ss_reports ss_unkilled
  by unfold_locales (rule ss_exec_unkilled)

lemma ss_new_unkilled: "ss_unkilled (ss_new cfg clk)"
  by (simp add: ss_unkilled_def ss_new_def ks_new_def cm_new_def cb_new_def Let_def)

section \<open>Properties\<close>

text \<open>
  C1: Once the system is halted (by a successful \<open>/KILL\<close>, by a panic that triggers the switch,
  or by an emergency shutdown even of a disarmed switch), the gateway refuses every order,
  however often it is asked and whatever the clock says, until an operation re-arms the
  switch, activates the system or resets it; no refused order is counted as submitted.
\<close>

theorem halted_system_refuses_orders:
  assumes "ss_handle_ui_kill s c = (True, s') \<or> ss_handle_panic s code c = (True, s') \<or>
           ss_emergency_shutdown s c = s'"
    and "list_all (\<lambda>a. \<not> ss_revives a) ops"
    and "gw_safety_system g = run ss_exec ops s'"
  shows "fst (ask_all gw_submit_order clks g) = replicate (length clks) False \<and>
         gw_orders_submitted (snd (ask_all gw_submit_order clks g)) = gw_orders_submitted g"
proof -
  have "ss_shut s'"
    using assms(1) by (auto simp: ss_shut_def ss_defs ks_trigger_def split: if_splits)
  then have shut: "gw_shut g"
    using assms(2,3) ss_latch.run_latch [of s' ops] by (simp add: gw_shut_def)
  then have "gw_orders_submitted (snd (ask_all gw_submit_order clks g)) = gw_orders_submitted g"
  proof (induction clks arbitrary: g)
    case (Cons clk clks)
    with gw_gate.keeps [of g clk] gw_gate.refuses [of g clk] show ?case
      by (simp add: gw_submit_order_counts)
  qed simp
  with shut show ?thesis by (simp add: gw_gate.shut_ask_all)
qed

theorem halted_system_refuses_orders_witness:
  fixes s' g
  defines "s' \<equiv> ss_emergency_shutdown (ss_new safety_config_default (\<lambda>_. 1)) (\<lambda>_. 2)"
    and "g \<equiv> gw_new (run ss_exec [SsUpdateEquity 5 (\<lambda>_. 3), SsApiError (\<lambda>_. 4)] s')"
  shows "fst (ask_all gw_submit_order [\<lambda>_. 5, \<lambda>_. 10 ^ 15] g) = [False, False]"
  using halted_system_refuses_orders [of "ss_new safety_config_default (\<lambda>_. 1)" "\<lambda>_. 2" s' 0
      "[SsUpdateEquity 5 (\<lambda>_. 3), SsApiError (\<lambda>_. 4)]" g "[\<lambda>_. 5, \<lambda>_. 10 ^ 15]"]
  by (simp add: s'_def g_def gw_new_def numeral_2_eq_2)

text \<open>
  The gateway accounts for every attempt: over any sequence of submissions the submitted
  counter grows by the number of accepted orders and the rejected counter by the number of
  refused ones.
\<close>

lemma gateway_accounts_for_attempts:
  "gw_orders_submitted (snd (ask_all gw_submit_order clks g))
     = gw_orders_submitted g + of_nat (count_list (fst (ask_all gw_submit_order clks g)) True) \<and>
   gw_orders_rejected_safety (snd (ask_all gw_submit_order clks g))
     = gw_orders_rejected_safety g + of_nat (count_list (fst (ask_all gw_submit_order clks g)) False)"
proof (induction clks arbitrary: g)
  case Nil
  show ?case by simp
next
  case (Cons clk clks)
  show ?case
    using Cons.IH [of "snd (gw_submit_order g clk)"] gw_submit_order_counts [of g clk]
    by (auto simp: ac_simps)
qed

text \<open>
  Automatic killing never happens: on a system made by \<open>new\<close>, whatever the configuration,
  no sequence of equity updates, API errors, order reports and breaker operations ever
  triggers the kill switch. Only a drawdown trip is escalated, and that trip cannot occur.
\<close>

lemma reports_never_kill:
  assumes "list_all ss_reports ops"
  shows "\<not> ks_is_killed (ss_kill_switch (run ss_exec ops (ss_new cfg clk)))"
  using ss_quiet.run_latch [OF ss_new_unkilled assms] by (simp add: ss_unkilled_def ks_is_killed_def)

text \<open>
  An API-error trip halts trading without being recorded: when the API breaker trips and
  may not recover by itself, the system refuses trading, but the kill switch and the count of
  safety events are as before, even with \<open>auto_kill_on_breaker\<close> set.
\<close>

lemma api_trip_is_not_escalated:
  assumes "fst (cm_record_api_error (ss_circuit_breakers s) c) = Some ev"
    and "\<not> auto_recovery (cb_config (cm_api_breaker (ss_circuit_breakers s)))"
  shows "\<not> fst (ss_is_trading_allowed (ss_record_api_error s c) clk) \<and>
         ss_kill_switch (ss_record_api_error s c) = ss_kill_switch s \<and>
         ss_safety_events (ss_record_api_error s c) = ss_safety_events s"
proof -
  let ?m = "ss_circuit_breakers s"
  have "cb_locked (snd (cb_record_api_error (cm_api_breaker ?m) c))"
    using assms
    by (auto simp: cm_record_api_error_def cb_locked_def cb_defs case_prod_unfold split: if_splits)
  then have "cm_locked (snd (cm_record_api_error ?m c))"
    by (simp add: cm_locked_def cm_record_api_error_def snd_cm_note case_prod_unfold Let_def
        split: option.splits)
  then show ?thesis
    by (auto simp: ss_record_api_error_def ss_is_trading_allowed_def case_prod_unfold
        cm_gate.refuses Let_def)
qed

text \<open>
  A reset of an active system either is refused and changes nothing, because the cooldown
  of the kill is still running, or succeeds and, with the three breakers enabled, trading is
  allowed again at once.
\<close>

lemma reset_waits_for_cooldown:
  assumes "ss_is_active s"
    and "cb_enabled (cm_main_breaker (ss_circuit_breakers s))"
      "cb_enabled (cm_api_breaker (ss_circuit_breakers s))"
      "cb_enabled (cm_volatility_breaker (ss_circuit_breakers s))"
  shows "if ks_is_cooldown_expired (ss_kill_switch s) clk
         then fst (ss_reset s clk) \<and> fst (ss_is_trading_allowed (snd (ss_reset s clk)) clk')
         else ss_reset s clk = (False, s)"
  using assms cm_reset_all_allows [of "ss_circuit_breakers s" "after 1 clk" clk']
  by (simp add: ss_defs ks_reset_def)

end
