(* ===== verification/Order_Id.thy ===== *)
theory Order_Id
  imports Machine
begin

unbundle bit_operations_syntax

text \<open>
  The order-id generator of \<open>src/risk/pre_trade.rs\<close> (\<open>IdempotentOrderIdGenerator\<close>), twice:
  as a step relation over any number of threads, one step per atomic operation, with
  compare-exchange allowed to fail spuriously; and as a sequential function, the call of one
  undisturbed thread, with fuel for its retry loop. The relation shows that ids are never
  issued twice; the function shows which ids a run issues, and that the loop does not end
  once the 32 counter bits are used up.
\<close>

section \<open>Data\<close>

record IdempotentOrderIdGenerator =
  oig_counter :: u64
  oig_last_id :: u64
  oig_epoch_base :: u64

definition oig_new :: "u64 \<Rightarrow> IdempotentOrderIdGenerator" where
  "oig_new epoch = \<lparr>oig_counter = 0, oig_last_id = 0, oig_epoch_base = epoch\<rparr>"

text \<open>\<open>(self.epoch_base << 32) | (counter & 0xFFFFFFFF)\<close>\<close>

definition make_order_id :: "u64 \<Rightarrow> u64 \<Rightarrow> u64" where
  "make_order_id epoch counter = push_bit 32 epoch OR (counter AND 0xFFFFFFFF)"

definition oig_is_duplicate :: "IdempotentOrderIdGenerator \<Rightarrow> u64 \<Rightarrow> bool" where
  "oig_is_duplicate g order_id = (order_id \<le> oig_last_id g)"

section \<open>Any number of threads\<close>

text \<open>
  The points of \<open>generate_order_id\<close> between two atomic operations, with the local variables
  alive there: before the first load, in the loop, before the reload of the second branch,
  before its compare-exchange.
\<close>

datatype oig_pc =
    OigIdle
  | OigLoad u64
  | OigLoop u64 u64
  | OigReload u64 u64
  | OigInner u64 u64 u64

record oig_sys =
  oig_shared :: IdempotentOrderIdGenerator
  oig_pcs :: "nat \<Rightarrow> oig_pc"
  oig_issued :: "u64 list"

definition oig_init :: "u64 \<Rightarrow> oig_sys" where
  "oig_init epoch = \<lparr>oig_shared = oig_new epoch, oig_pcs = (\<lambda>_. OigIdle), oig_issued = []\<rparr>"

text \<open>
  \<open>oig_issued\<close> lists the ids that a call has returned (or is about to), the latest first. A
  failed compare-exchange hands back the current value, whether or not it is the expected
  one.
\<close>

inductive oig_step :: "oig_sys \<Rightarrow> oig_sys \<Rightarrow> bool" where
  fetch: "oig_pcs s i = OigIdle \<Longrightarrow> g = oig_shared s \<Longrightarrow>
    oig_step s (s\<lparr>oig_shared := g\<lparr>oig_counter := oig_counter g + 1\<rparr>,
      oig_pcs := (oig_pcs s)(i := OigLoad (make_order_id (oig_epoch_base g) (oig_counter g)))\<rparr>)"
| load: "oig_pcs s i = OigLoad order_id \<Longrightarrow>
    oig_step s (s\<lparr>oig_pcs := (oig_pcs s)(i := OigLoop order_id (oig_last_id (oig_shared s)))\<rparr>)"
| cas_ok: "oig_pcs s i = OigLoop order_id lst \<Longrightarrow> lst < order_id \<Longrightarrow>
    oig_last_id (oig_shared s) = lst \<Longrightarrow>
    oig_step s (s\<lparr>oig_shared := (oig_shared s)\<lparr>oig_last_id := order_id\<rparr>,
      oig_pcs := (oig_pcs s)(i := OigIdle), oig_issued := order_id # oig_issued s\<rparr>)"
| cas_fail: "oig_pcs s i = OigLoop order_id lst \<Longrightarrow> lst < order_id \<Longrightarrow>
    oig_step s (s\<lparr>oig_pcs := (oig_pcs s)(i := OigLoop order_id (oig_last_id (oig_shared s)))\<rparr>)"
| refetch: "oig_pcs s i = OigLoop order_id lst \<Longrightarrow> \<not> lst < order_id \<Longrightarrow> g = oig_shared s \<Longrightarrow>
    oig_step s (s\<lparr>oig_shared := g\<lparr>oig_counter := oig_counter g + 1\<rparr>,
      oig_pcs := (oig_pcs s)
        (i := OigReload order_id (make_order_id (oig_epoch_base g) (oig_counter g)))\<rparr>)"
| reload: "oig_pcs s i = OigReload order_id new_id \<Longrightarrow>
    oig_step s (s\<lparr>oig_pcs := (oig_pcs s)
      (i := OigInner order_id new_id (oig_last_id (oig_shared s)))\<rparr>)"
| inner_ok: "oig_pcs s i = OigInner order_id new_id lst \<Longrightarrow> lst < new_id \<Longrightarrow>
    oig_last_id (oig_shared s) = lst \<Longrightarrow>
    oig_step s (s\<lparr>oig_shared := (oig_shared s)\<lparr>oig_last_id := new_id\<rparr>,
      oig_pcs := (oig_pcs s)(i := OigIdle), oig_issued := new_id # oig_issued s\<rparr>)"
| inner_fail: "oig_pcs s i = OigInner order_id new_id lst \<Longrightarrow> lst < new_id \<Longrightarrow>
    oig_step s (s\<lparr>oig_pcs := (oig_pcs s)(i := OigLoop order_id (oig_last_id (oig_shared s)))\<rparr>)"
| inner_skip: "oig_pcs s i = OigInner order_id new_id lst \<Longrightarrow> \<not> lst < new_id \<Longrightarrow>
    oig_step s (s\<lparr>oig_pcs := (oig_pcs s)(i := OigLoop order_id lst)\<rparr>)"

inductive oig_reachable :: "u64 \<Rightarrow> oig_sys \<Rightarrow> bool" for epoch where
  start: "oig_reachable epoch (oig_init epoch)"
| step: "oig_reachable epoch s \<Longrightarrow> oig_step s t \<Longrightarrow> oig_reachable epoch t"

section \<open>One undisturbed call\<close>

text \<open>
  The loop of \<open>generate_order_id\<close>, entered with the first id and the last id loaded; each
  iteration costs one unit of fuel. Undisturbed, a compare-exchange succeeds.
\<close>

fun oig_loop ::
    "nat \<Rightarrow> u64 \<Rightarrow> u64 \<Rightarrow> IdempotentOrderIdGenerator \<Rightarrow> (u64 \<times> IdempotentOrderIdGenerator) option" where
  "oig_loop 0 order_id lst g = None"
| "oig_loop (Suc fuel) order_id lst g =
     (if lst < order_id then Some (order_id, g\<lparr>oig_last_id := order_id\<rparr>)
      else
        let new_id = make_order_id (oig_epoch_base g) (oig_counter g);
            g = g\<lparr>oig_counter := oig_counter g + 1\<rparr>;
            lst = oig_last_id g
        in if lst < new_id then Some (new_id, g\<lparr>oig_last_id := new_id\<rparr>)
           else oig_loop fuel order_id lst g)"

definition oig_generate ::
    "nat \<Rightarrow> IdempotentOrderIdGenerator \<Rightarrow> (u64 \<times> IdempotentOrderIdGenerator) option" where
  "oig_generate fuel g =
     (let order_id = make_order_id (oig_epoch_base g) (oig_counter g);
          g = g\<lparr>oig_counter := oig_counter g + 1\<rparr>
      in oig_loop fuel order_id (oig_last_id g) g)"

text \<open>The ids of \<open>n\<close> calls in a row; \<open>None\<close> if one of them does not return.\<close>

primrec oig_take ::
    "nat \<Rightarrow> nat \<Rightarrow> IdempotentOrderIdGenerator \<Rightarrow> (u64 list \<times> IdempotentOrderIdGenerator) option" where
  "oig_take fuel 0 g = Some ([], g)"
| "oig_take fuel (Suc n) g =
     (case oig_take fuel n g of
        None \<Rightarrow> None
      | Some (ids, g) \<Rightarrow>
          (case oig_generate fuel g of None \<Rightarrow> None | Some (x, g) \<Rightarrow> Some (ids @ [x], g)))"

section \<open>The invariant of the step relation\<close>

definition oig_inv :: "oig_sys \<Rightarrow> bool" where
  "oig_inv s \<longleftrightarrow> sorted_wrt (>) (oig_issued s) \<and> list_all (\<lambda>x. 0 < x) (oig_issued s) \<and>
     oig_last_id (oig_shared s) = (case oig_issued s of [] \<Rightarrow> 0 | x # xs \<Rightarrow> x)"

lemma oig_inv_issue:
  assumes "oig_inv s" and "oig_last_id (oig_shared s) < x"
  shows "oig_inv (s\<lparr>oig_shared := (oig_shared s)\<lparr>oig_last_id := x\<rparr>, oig_pcs := p,
                    oig_issued := x # oig_issued s\<rparr>)"
  using assms le_less_trans [OF word_zero_le assms(2)]
  by (cases "oig_issued s") (auto simp: oig_inv_def)

lemma oig_inv_cong:
  assumes "oig_inv s" and "oig_issued t = oig_issued s"
    and "oig_last_id (oig_shared t) = oig_last_id (oig_shared s)"
  shows "oig_inv t"
  using assms by (cases "oig_issued s") (auto simp: oig_inv_def)

lemma oig_step_inv: "oig_step s t \<Longrightarrow> oig_inv s \<Longrightarrow> oig_inv t"
  by (induction rule: oig_step.induct) (auto intro: oig_inv_issue elim: oig_inv_cong)

lemma oig_reachable_inv: "oig_reachable epoch s \<Longrightarrow> oig_inv s"
proof (induction rule: oig_reachable.induct)
  case start
  show ?case by (simp add: oig_inv_def oig_init_def oig_new_def)
next
  case (step s t)
  then show ?case by (blast intro: oig_step_inv)
qed

lemma oig_inv_le_last:
  assumes "oig_inv s" and "x \<in> set (oig_issued s)"
  shows "x \<le> oig_last_id (oig_shared s)"
  using assms by (cases "oig_issued s") (auto simp: oig_inv_def)

section \<open>Order ids as numbers\<close>

lemma low_mask_32: "(c :: u64) AND 0xFFFFFFFF = take_bit 32 c"
  by (simp add: take_bit_eq_mask mask_eq_exp_minus_1)

lemma unat_make_order_id:
  "unat (make_order_id epoch c) = (unat epoch mod 2 ^ 32) * 2 ^ 32 + unat c mod 2 ^ 32"
proof -
  have "push_bit 32 epoch OR take_bit 32 c = push_bit 32 epoch + take_bit 32 c"
    by (rule disjunctive_add_eq_or [symmetric]) (auto simp: bit_eq_iff bit_simps)
  moreover have p: "unat (push_bit 32 epoch) = (unat epoch mod 2 ^ 32) * 2 ^ 32"
    by (simp add: push_bit_eq_mult unat_word_ariths mult_mod_left)
  moreover have t: "unat (take_bit 32 c) = unat c mod 2 ^ 32"
    by (subst unsigned_take_bit_eq) (simp only: take_bit_eq_mod)
  moreover have "(unat epoch mod 2 ^ 32) * 2 ^ 32 + unat c mod 2 ^ 32 < 2 ^ 64"
  proof -
    have "unat epoch mod 2 ^ 32 \<le> 2 ^ 32 - 1" "unat c mod 2 ^ 32 < 2 ^ 32" by simp_all
    then show ?thesis by simp
  qed
  ultimately show ?thesis
    by (simp add: make_order_id_def low_mask_32 unat_add_u64)
qed

lemma make_order_id_less_iff:
  "make_order_id epoch a < make_order_id epoch b \<longleftrightarrow> unat a mod 2 ^ 32 < unat b mod 2 ^ 32"
  by (simp add: word_less_nat_alt unat_make_order_id)

lemma make_order_id_le_top: "make_order_id epoch c \<le> make_order_id epoch 0xFFFFFFFF"
proof -
  have "unat c mod 2 ^ 32 \<le> 2 ^ 32 - 1" by simp
  then show ?thesis by (simp add: word_le_nat_alt unat_make_order_id)
qed

lemma make_order_id_pos: "unat epoch mod 2 ^ 32 \<noteq> 0 \<Longrightarrow> 0 < make_order_id epoch c"
  by (simp add: word_less_nat_alt unat_make_order_id)

section \<open>Sources of fresh ids\<close>

text \<open>
  What a client relies on: a call may refuse, but an id it returns is above every id returned
  before. Its ids are then strictly increasing over any sequence of calls.
\<close>

primrec issue_all :: "('a \<Rightarrow> 'g \<Rightarrow> u64 option \<times> 'g) \<Rightarrow> 'a list \<Rightarrow> 'g \<Rightarrow> u64 list \<times> 'g" where
  "issue_all call [] g = ([], g)"
| "issue_all call (a # as) g =
     (let (r, g) = call a g; (ids, g) = issue_all call as g
      in ((case r of None \<Rightarrow> ids | Some x \<Rightarrow> x # ids), g))"

locale id_source =
  fixes call :: "'a \<Rightarrow> 'g \<Rightarrow> u64 option \<times> 'g"
    and high :: "'g \<Rightarrow> u64"
  assumes issue: "call a g = (Some x, g') \<Longrightarrow> high g < x \<and> high g' = x"
    and refuse: "call a g = (None, g') \<Longrightarrow> high g' = high g"
begin

lemma issue_all_increasing:
  "sorted_wrt (<) (high g # fst (issue_all call as g)) \<and>
   high (snd (issue_all call as g)) = last (high g # fst (issue_all call as g))"
proof (induction as arbitrary: g)
  case Nil
  show ?case by simp
next
  case (Cons a as)
  obtain r g' where c: "call a g = (r, g')" by (cases "call a g")
  have IH: "sorted_wrt (<) (high g' # fst (issue_all call as g'))"
    "high (snd (issue_all call as g')) = last (high g' # fst (issue_all call as g'))"
    using Cons.IH [of g'] by auto
  show ?case
  proof (cases r)
    case None
    with c IH refuse [of a g g'] show ?thesis by (simp add: case_prod_unfold Let_def)
  next
    case (Some x)
    with c IH issue [of a g x g'] show ?thesis
      by (auto simp: case_prod_unfold Let_def intro: less_trans)
  qed
qed

end

text \<open>The undisturbed generator, with the fuel of each call given.\<close>

definition oig_call ::
    "nat \<Rightarrow> IdempotentOrderIdGenerator \<Rightarrow> u64 option \<times> IdempotentOrderIdGenerator" where
  "oig_call fuel g = (case oig_generate fuel g of None \<Rightarrow> (None, g) | Some (x, g') \<Rightarrow> (Some x, g'))"

lemma oig_loop_fresh:
  "oig_loop fuel order_id (oig_last_id g) g = Some (x, g') \<Longrightarrow>
     oig_last_id g < x \<and> oig_last_id g' = x \<and> oig_epoch_base g' = oig_epoch_base g"
proof (induction fuel arbitrary: g)
  case 0
  then show ?case by simp
next
  case (Suc fuel)
  let ?g = "g\<lparr>oig_counter := oig_counter g + 1\<rparr>"
  show ?case
    using Suc.prems Suc.IH [of ?g] by (simp add: Let_def split: if_splits) auto
qed

lemma oig_generate_fresh:
  "oig_generate fuel g = Some (x, g') \<Longrightarrow>
     oig_last_id g < x \<and> oig_last_id g' = x \<and> oig_epoch_base g' = oig_epoch_base g"
  using oig_loop_fresh [of fuel "make_order_id (oig_epoch_base g) (oig_counter g)"
      "g\<lparr>oig_counter := oig_counter g + 1\<rparr>" x g']
  by (simp add: oig_generate_def Let_def)

interpretation oig_source: id_source oig_call oig_last_id
  by unfold_locales (auto simp: oig_call_def dest: oig_generate_fresh split: option.splits)

section \<open>Runs of an undisturbed generator\<close>

lemma oig_generate_next:
  assumes "oig_last_id g < make_order_id (oig_epoch_base g) (oig_counter g)"
  shows "oig_generate (Suc fuel) g =
    Some (make_order_id (oig_epoch_base g) (oig_counter g),
          g\<lparr>oig_counter := oig_counter g + 1,
            oig_last_id := make_order_id (oig_epoch_base g) (oig_counter g)\<rparr>)"
  using assms by (simp add: oig_generate_def Let_def)

lemma oig_take_fresh:
  assumes "unat epoch mod 2 ^ 32 \<noteq> 0" and "n \<le> 2 ^ 32"
  shows "oig_take (Suc fuel) n (oig_new epoch) =
    Some (map (\<lambda>i. make_order_id epoch (of_nat i)) [0..<n],
          \<lparr>oig_counter = of_nat n,
           oig_last_id = (if n = 0 then 0 else make_order_id epoch (of_nat (n - 1))),
           oig_epoch_base = epoch\<rparr>)"
  using assms(2)
proof (induction n)
  case 0
  show ?case by (simp add: oig_new_def)
next
  case (Suc n)
  let ?g = "\<lparr>oig_counter = of_nat n,
             oig_last_id = (if n = 0 then 0 else make_order_id epoch (of_nat (n - 1))),
             oig_epoch_base = epoch\<rparr>"
  have "unat (of_nat (n - 1) :: u64) = n - 1" "unat (of_nat n :: u64) = n"
    using Suc.prems by (simp_all add: unat_of_nat)
  then have "oig_last_id ?g < make_order_id epoch (of_nat n)"
    using Suc.prems assms(1) by (auto simp: make_order_id_less_iff make_order_id_pos)
  then have "oig_generate (Suc fuel) ?g = Some (make_order_id epoch (of_nat n),
      ?g\<lparr>oig_counter := of_nat n + 1, oig_last_id := make_order_id epoch (of_nat n)\<rparr>)"
    using oig_generate_next [of ?g] by simp
  with Suc show ?case by (simp add: ac_simps)
qed

lemma oig_take_last:
  assumes "unat epoch mod 2 ^ 32 \<noteq> 0" and "n \<le> 2 ^ 32" and "0 < n"
    and "oig_take (Suc fuel) n (oig_new epoch) = Some (ids, g)"
  shows "oig_last_id g = make_order_id epoch (of_nat (n - 1)) \<and> oig_epoch_base g = epoch"
  using oig_take_fresh [OF assms(1,2), of fuel] assms(3,4) by auto

lemma oig_loop_exhausted:
  assumes "oig_last_id g = make_order_id (oig_epoch_base g) 0xFFFFFFFF"
    and "order_id \<le> oig_last_id g"
  shows "oig_loop fuel order_id (oig_last_id g) g = None"
  using assms
proof (induction fuel arbitrary: g)
  case 0
  show ?case by simp
next
  case (Suc fuel)
  have "\<not> oig_last_id g < make_order_id (oig_epoch_base g) (oig_counter g)"
    using Suc.prems(1) make_order_id_le_top by (simp add: not_less)
  with Suc show ?case
    using Suc.IH [of "g\<lparr>oig_counter := oig_counter g + 1\<rparr>"]
    by (simp add: Let_def not_less)
qed

lemma oig_generate_exhausted:
  assumes "oig_last_id g = make_order_id (oig_epoch_base g) 0xFFFFFFFF"
  shows "oig_generate fuel g = None"
  using oig_loop_exhausted [of "g\<lparr>oig_counter := oig_counter g + 1\<rparr>"] assms make_order_id_le_top
  by (simp add: oig_generate_def Let_def)

section \<open>Properties\<close>

text \<open>
  C2: No order id is issued twice. In every state that any number of threads reach by
  interleaving the atomic operations of \<open>generate_order_id\<close> in any order, with
  compare-exchanges failing spuriously at will, the ids issued so far are strictly increasing
  in the order of issue (so pairwise distinct), none is zero, and \<open>is_duplicate\<close> reports each
  of them, the one just issued included (where the unit test of the generator expects the
  latest id not to be reported: it compares with \<open>\<le>\<close>).
\<close>

theorem order_ids_never_repeat:
  assumes "oig_reachable epoch s"
  shows "sorted_wrt (>) (oig_issued s) \<and> distinct (oig_issued s) \<and>
         list_all (\<lambda>x. 0 < x \<and> oig_is_duplicate (oig_shared s) x) (oig_issued s)"
proof -
  have inv: "oig_inv s" by (rule oig_reachable_inv [OF assms])
  have "distinct xs" if "sorted_wrt (>) xs" for xs :: "u64 list"
    using that by (induction xs) auto
  moreover have "oig_is_duplicate (oig_shared s) x" if "x \<in> set (oig_issued s)" for x
    using oig_inv_le_last [OF inv that] by (simp add: oig_is_duplicate_def)
  ultimately show ?thesis
    using inv by (simp add: oig_inv_def list_all_iff)
qed

theorem order_ids_never_repeat_witness:
  "\<exists>s. oig_reachable 1 s \<and> oig_issued s = [0x100000000] \<and>
     list_all (\<lambda>x. 0 < x \<and> oig_is_duplicate (oig_shared s) x) (oig_issued s)"
proof -
  define g where "g = (oig_new 1)\<lparr>oig_counter := 1\<rparr>"
  define s1 where "s1 = \<lparr>oig_shared = g, oig_pcs = (\<lambda>_. OigIdle)(0 := OigLoad 0x100000000),
      oig_issued = []\<rparr>"
  define s2 where "s2 = s1\<lparr>oig_pcs := (oig_pcs s1)(0 := OigLoop 0x100000000 0)\<rparr>"
  define s3 where "s3 = \<lparr>oig_shared = g\<lparr>oig_last_id := 0x100000000\<rparr>,
      oig_pcs = (oig_pcs s2)(0 := OigIdle), oig_issued = [0x100000000]\<rparr>"
  have "oig_step (oig_init 1) s1"
    using oig_step.fetch [of "oig_init 1" 0 "oig_new 1"]
    by (simp add: s1_def g_def oig_init_def oig_new_def make_order_id_def push_bit_eq_mult)
  moreover have "oig_step s1 s2"
    using oig_step.load [of s1 0 "0x100000000"] by (simp add: s2_def s1_def g_def oig_new_def)
  moreover have "oig_step s2 s3"
    using oig_step.cas_ok [of s2 0 "0x100000000" 0]
    by (simp add: s3_def s2_def s1_def g_def oig_new_def)
  ultimately have r: "oig_reachable 1 s3"
    by (meson oig_reachable.start oig_reachable.step)
  then show ?thesis
    using order_ids_never_repeat [OF r] by (intro exI [of _ s3]) (simp add: s3_def)
qed

text \<open>
  An undisturbed generator whose epoch has a non-zero low half issues, in order, the ids
  \<open>epoch << 32 | 0\<close>, \<open>epoch << 32 | 1\<close>, and so on: each of the first \<open>2 ^ 32\<close> calls returns in
  its first iteration, and the run leaves the counter and the last id at its end.
\<close>

lemma order_ids_count_up:
  assumes "unat epoch mod 2 ^ 32 \<noteq> 0" and "n \<le> 2 ^ 32"
  shows "map_option fst (oig_take 1 n (oig_new epoch))
           = Some (map (\<lambda>i. make_order_id epoch (of_nat i)) [0..<n])"
  using oig_take_fresh [OF assms, of 0] by simp

text \<open>
  Call number \<open>2 ^ 32 + 1\<close> never returns. After the counter bits are used up the last id
  is the largest the epoch has, so neither branch of the retry loop can succeed, although the
  code counts on a wrapped counter being caught up with by incrementing: no amount of fuel
  gives an id.
\<close>

lemma exhausted_generator_spins:
  assumes "oig_take 1 (2 ^ 32) (oig_new epoch) = Some (ids, g)"
    and "unat epoch mod 2 ^ 32 \<noteq> 0"
  shows "oig_generate fuel g = None"
proof (rule oig_generate_exhausted)
  have "of_nat (2 ^ 32 - 1) = (0xFFFFFFFF :: u64)" by simp
  then show "oig_last_id g = make_order_id (oig_epoch_base g) 0xFFFFFFFF"
    using oig_take_last [OF assms(2), of "2 ^ 32" 0 ids g] assms(1) by (metis One_nat_def order_refl zero_less_power zero_less_numeral)
qed

end
