(* ===== verification/Pre_Trade.thy ===== *)
theory Pre_Trade
  imports Order_Id
begin

text \<open>
  The pre-trade validator of \<open>src/risk/pre_trade.rs\<close> (\<open>PreTradeRiskValidator\<close>): fat-finger
  checks on size, price and notional, the position limit, and the rejection counter. The
  lemmas read its machine arithmetic back as arithmetic on the quantities themselves.
\<close>

section \<open>Data\<close>

datatype FatFingerResult =
    Ok
  | PriceTooHigh u64
  | PriceTooLow u64
  | SizeTooLarge u64
  | SizeTooSmall u64
  | NotionalExceeded u128

record PreTradeRiskParams =
  max_order_size :: u64
  min_order_size :: u64
  max_price_deviation_bps :: u64
  max_notional :: u128
  max_position :: i64

definition pre_trade_params_default :: PreTradeRiskParams where
  "pre_trade_params_default =
     \<lparr>max_order_size = 1000000000, min_order_size = 1000, max_price_deviation_bps = 500,
      max_notional = 10000000000, max_position = 10000000000\<rparr>"

record PreTradeRiskValidator =
  pt_params :: PreTradeRiskParams
  pt_order_id_gen :: IdempotentOrderIdGenerator
  pt_current_position :: i64
  pt_is_active :: bool
  pt_rejection_count :: u64

section \<open>Operations\<close>

definition pt_new :: "u64 \<Rightarrow> PreTradeRiskParams \<Rightarrow> PreTradeRiskValidator" where
  "pt_new epoch params =
     \<lparr>pt_params = params, pt_order_id_gen = oig_new epoch, pt_current_position = 0,
      pt_is_active = True, pt_rejection_count = 0\<rparr>"

text \<open>A rejecting return: count it and answer \<open>r\<close>.\<close>

definition pt_reject ::
    "PreTradeRiskValidator \<Rightarrow> FatFingerResult \<Rightarrow> FatFingerResult \<times> PreTradeRiskValidator" where
  "pt_reject v r = (r, v\<lparr>pt_rejection_count := pt_rejection_count v + 1\<rparr>)"

definition pt_validate_order ::
    "PreTradeRiskValidator \<Rightarrow> bool \<Rightarrow> u64 \<Rightarrow> u64 \<Rightarrow> u64 \<Rightarrow> FatFingerResult \<times> PreTradeRiskValidator" where
  "pt_validate_order v side price sz mid_price =
     (if \<not> pt_is_active v then pt_reject v (PriceTooHigh 0)
      else if sz < min_order_size (pt_params v) then pt_reject v (SizeTooSmall sz)
      else if max_order_size (pt_params v) < sz then pt_reject v (SizeTooLarge sz)
      else
        let max_deviation = (ucast ((ucast mid_price :: u128)
                               * ucast (max_price_deviation_bps (pt_params v)) div 10000) :: u64);
            price_floor = u64_sat_sub mid_price max_deviation;
            price_ceiling = u64_sat_add mid_price max_deviation
        in if price < price_floor then pt_reject v (PriceTooLow price)
           else if price_ceiling < price then pt_reject v (PriceTooHigh price)
           else
             let notional = (case u128_checked_mul (ucast price) (ucast sz) of
                               Some n \<Rightarrow> n | None \<Rightarrow> u128_MAX)
             in if max_notional (pt_params v) < notional then pt_reject v (NotionalExceeded notional)
                else
                  let current_pos = pt_current_position v;
                      new_position = (if side then i64_sat_add current_pos sz
                                      else i64_sat_sub current_pos sz)
                  in if max_position (pt_params v) <s i64_abs new_position
                     then pt_reject v (NotionalExceeded (ucast (i64_unsigned_abs new_position)))
                     else (Ok, v))"

definition pt_update_position :: "PreTradeRiskValidator \<Rightarrow> bool \<Rightarrow> u64 \<Rightarrow> PreTradeRiskValidator" where
  "pt_update_position v side sz =
     (let delta = (if side then sz else - sz)
      in v\<lparr>pt_current_position := pt_current_position v + delta\<rparr>)"

definition pt_get_position :: "PreTradeRiskValidator \<Rightarrow> i64" where
  "pt_get_position v = pt_current_position v"

definition pt_generate_order_id ::
    "nat \<Rightarrow> PreTradeRiskValidator \<Rightarrow> (u64 \<times> PreTradeRiskValidator) option" where
  "pt_generate_order_id fuel v =
     map_option (\<lambda>(x, g). (x, v\<lparr>pt_order_id_gen := g\<rparr>)) (oig_generate fuel (pt_order_id_gen v))"

definition pt_is_duplicate_order_id :: "PreTradeRiskValidator \<Rightarrow> u64 \<Rightarrow> bool" where
  "pt_is_duplicate_order_id v x = oig_is_duplicate (pt_order_id_gen v) x"

definition pt_activate :: "PreTradeRiskValidator \<Rightarrow> PreTradeRiskValidator" where
  "pt_activate v = v\<lparr>pt_is_active := True\<rparr>"

definition pt_deactivate :: "PreTradeRiskValidator \<Rightarrow> PreTradeRiskValidator" where
  "pt_deactivate v = v\<lparr>pt_is_active := False\<rparr>"

definition pt_get_rejection_count :: "PreTradeRiskValidator \<Rightarrow> u64" where
  "pt_get_rejection_count v = pt_rejection_count v"

definition pt_get_params :: "PreTradeRiskValidator \<Rightarrow> PreTradeRiskParams" where
  "pt_get_params v = pt_params v"

definition pt_update_params :: "PreTradeRiskValidator \<Rightarrow> PreTradeRiskParams \<Rightarrow> PreTradeRiskValidator" where
  "pt_update_params v params = v\<lparr>pt_params := params\<rparr>"

section \<open>What the checks mean\<close>

text \<open>
  The conditions an order is meant to satisfy, on the quantities as numbers: \<open>signed_size\<close> is
  the change of the position.
\<close>

definition signed_size :: "bool \<Rightarrow> u64 \<Rightarrow> int" where
  "signed_size side sz = (if side then int (unat sz) else - int (unat sz))"

definition order_within_limits ::
    "PreTradeRiskParams \<Rightarrow> int \<Rightarrow> bool \<Rightarrow> u64 \<Rightarrow> u64 \<Rightarrow> u64 \<Rightarrow> bool" where
  "order_within_limits p pos side price sz mid \<longleftrightarrow>
     unat (min_order_size p) \<le> unat sz \<and> unat sz \<le> unat (max_order_size p) \<and>
     \<bar>int (unat price) - int (unat mid)\<bar>
       \<le> int (unat mid * unat (max_price_deviation_bps p) div 10000) \<and>
     unat price * unat sz \<le> unat (max_notional p) \<and>
     \<bar>pos + signed_size side sz\<bar> \<le> sint (max_position p)"

text \<open>
  Limits for which the machine arithmetic is exact: a deviation of at most 100 percent, and
  order and position limits whose sum fits an \<open>i64\<close>.
\<close>

definition sane_params :: "PreTradeRiskParams \<Rightarrow> bool" where
  "sane_params p \<longleftrightarrow>
     unat (max_price_deviation_bps p) \<le> 10000 \<and> 0 \<le> sint (max_position p) \<and>
     int (unat (max_order_size p)) + sint (max_position p) < 2 ^ 63"

definition pt_inv :: "PreTradeRiskValidator \<Rightarrow> bool" where
  "pt_inv v \<longleftrightarrow> sane_params (pt_params v) \<and>
     \<bar>sint (pt_current_position v)\<bar> \<le> sint (max_position (pt_params v))"

lemma unat_max_deviation:
  fixes mid bps :: u64
  assumes "unat bps \<le> 10000"
  shows "unat (ucast ((ucast mid :: u128) * ucast bps div 10000) :: u64) = unat mid * unat bps div 10000"
    and "unat mid * unat bps div 10000 \<le> unat mid"
proof -
  have m: "unat mid < 2 ^ 64" using unat_u64_less [of mid] by simp
  have "unat mid * unat bps \<le> unat mid * 10000" using assms by simp
  then have "unat mid * unat bps div 10000 \<le> unat mid * 10000 div 10000" by (rule div_le_mono)
  then show le: "unat mid * unat bps div 10000 \<le> unat mid" by simp
  have "unat mid * unat bps < 2 ^ 128"
    by (rule le_less_trans [OF \<open>unat mid * unat bps \<le> unat mid * 10000\<close>]) (use m in simp)
  then have "unat ((ucast mid :: u128) * ucast bps) = unat mid * unat bps"
    by (simp add: unat_word_ariths)
  then have "unat ((ucast mid :: u128) * ucast bps div 10000) = unat mid * unat bps div 10000"
    by (simp add: unat_div)
  with le m show "unat (ucast ((ucast mid :: u128) * ucast bps div 10000) :: u64)
      = unat mid * unat bps div 10000"
    by (simp add: unsigned_ucast_eq take_bit_nat_eq_self)
qed

lemma checked_notional:
  "u128_checked_mul (ucast (price :: u64)) (ucast (sz :: u64)) = Some (ucast price * ucast sz)"
  "unat ((ucast price :: u128) * ucast sz) = unat price * unat sz"
proof -
  have "unat price * unat sz \<le> (2 ^ 64 - 1) * (2 ^ 64 - 1)"
    using unat_u64_less [of price] unat_u64_less [of sz] by (intro mult_le_mono) simp_all
  then have "unat price * unat sz < 2 ^ 128" by simp
  then show "u128_checked_mul (ucast price) (ucast sz) = Some (ucast price * ucast sz)"
    "unat ((ucast price :: u128) * ucast sz) = unat price * unat sz"
    by (simp_all add: u128_checked_mul_def unat_word_ariths)
qed

lemma new_position_exact:
  assumes "pt_inv v" and "unat sz \<le> unat (max_order_size (pt_params v))"
  defines "pos \<equiv> pt_current_position v"
  shows "sint (i64_abs (if side then i64_sat_add pos sz else i64_sat_sub pos sz))
           = \<bar>sint pos + signed_size side sz\<bar>"
    and "sint (pt_current_position (pt_update_position v side sz)) = sint pos + signed_size side sz"
    and "sint sz = int (unat sz)"
proof -
  have bnd: "\<bar>sint pos\<bar> + int (unat sz) < 2 ^ 63"
    using assms(1) of_nat_mono [OF assms(2), where ?'a = int]
    unfolding pt_inv_def sane_params_def pos_def by linarith
  then have "int (unat sz) < 2 ^ 63" by linarith
  then have "unat sz < 2 ^ 63" by (metis of_nat_less_iff of_nat_numeral of_nat_power)
  then show s: "sint sz = int (unat sz)" by (rule sint_eq_unat)
  define np where "np = (if side then i64_sat_add pos sz else i64_sat_sub pos sz)"
  have rng: "- (2 ^ 63) < sint pos + signed_size side sz" "sint pos + signed_size side sz < 2 ^ 63"
    using bnd of_nat_0_le_iff [of "unat sz", where ?'a = int]
    unfolding signed_size_def by (cases side; simp only: if_True if_False; linarith)+
  have "sint np = max (- (2 ^ 63)) (min (2 ^ 63 - 1) (sint pos + signed_size side sz))"
    using s by (simp add: np_def signed_size_def sint_i64_sat_add sint_i64_sat_sub)
  then have np: "sint np = sint pos + signed_size side sz"
    using rng by simp
  then have "np \<noteq> i64_MIN"
    using rng by auto
  with np show "sint (i64_abs (if side then i64_sat_add pos sz else i64_sat_sub pos sz))
      = \<bar>sint pos + signed_size side sz\<bar>"
    by (simp add: sint_i64_abs flip: np_def)
  show "sint (pt_current_position (pt_update_position v side sz)) = sint pos + signed_size side sz"
    using rng s sint_add_i64 [of pos sz] sint_sub_i64 [of pos sz]
    by (cases side) (simp_all add: pt_update_position_def pos_def signed_size_def)
qed

lemma fst_pt_reject [simp]: "fst (pt_reject v r) = r"
  by (simp add: pt_reject_def)

lemma pt_validate_order_Ok_iff:
  assumes "pt_inv v"
  shows "fst (pt_validate_order v side price sz mid) = Ok \<longleftrightarrow>
    pt_is_active v \<and>
    order_within_limits (pt_params v) (sint (pt_current_position v)) side price sz mid"
proof -
  let ?p = "pt_params v" and ?pos = "pt_current_position v"
  let ?dev = "unat mid * unat (max_price_deviation_bps ?p) div 10000"
  let ?d = "ucast ((ucast mid :: u128) * ucast (max_price_deviation_bps ?p) div 10000) :: u64"
  let ?np = "if side then i64_sat_add ?pos sz else i64_sat_sub ?pos sz"
  have dev: "unat ?d = ?dev" "?dev \<le> unat mid"
    using assms unat_max_deviation [of "max_price_deviation_bps ?p" mid]
    by (simp_all add: pt_inv_def sane_params_def)
  have size: "\<not> sz < min_order_size ?p \<and> \<not> max_order_size ?p < sz \<longleftrightarrow>
      unat (min_order_size ?p) \<le> unat sz \<and> unat sz \<le> unat (max_order_size ?p)"
    by (auto simp: word_less_nat_alt)
  have price: "\<not> price < u64_sat_sub mid ?d \<and> \<not> u64_sat_add mid ?d < price \<longleftrightarrow>
      \<bar>int (unat price) - int (unat mid)\<bar> \<le> int ?dev"
    using dev unat_u64_less [of price]
    by (auto simp only: word_less_nat_alt unat_u64_sat_sub unat_u64_sat_add)
  have notional: "\<not> max_notional ?p < ucast price * ucast sz \<longleftrightarrow>
      unat price * unat sz \<le> unat (max_notional ?p)"
    by (simp add: word_less_nat_alt checked_notional(2) not_less)
  have position: "\<not> max_position ?p <s i64_abs ?np \<longleftrightarrow>
      \<bar>sint ?pos + signed_size side sz\<bar> \<le> sint (max_position ?p)"
    if "unat sz \<le> unat (max_order_size ?p)"
    using new_position_exact(1) [OF assms that] by (simp add: word_sless_alt not_less)
  have "fst (pt_validate_order v side price sz mid) = Ok \<longleftrightarrow>
      pt_is_active v \<and> (\<not> sz < min_order_size ?p \<and> \<not> max_order_size ?p < sz) \<and>
      (\<not> price < u64_sat_sub mid ?d \<and> \<not> u64_sat_add mid ?d < price) \<and>
      \<not> max_notional ?p < ucast price * ucast sz \<and> \<not> max_position ?p <s i64_abs ?np"
    by (simp add: pt_validate_order_def Let_def checked_notional(1))
  then show ?thesis
    unfolding size price notional using position by (auto simp: order_within_limits_def)
qed

lemma pt_validate_order_state:
  "snd (pt_validate_order v side price sz mid) =
     (if fst (pt_validate_order v side price sz mid) = Ok then v
      else v\<lparr>pt_rejection_count := pt_rejection_count v + 1\<rparr>)"
  by (simp add: pt_validate_order_def pt_reject_def Let_def)

lemma pt_validate_order_fields [simp]:
  "pt_params (snd (pt_validate_order v side price sz mid)) = pt_params v"
  "pt_current_position (snd (pt_validate_order v side price sz mid)) = pt_current_position v"
  "pt_order_id_gen (snd (pt_validate_order v side price sz mid)) = pt_order_id_gen v"
  "pt_is_active (snd (pt_validate_order v side price sz mid)) = pt_is_active v"
  by (simp_all add: pt_validate_order_state)

section \<open>Properties\<close>

text \<open>
  C25: The validator accepts exactly the orders within the limits: with parameters whose
  arithmetic cannot overflow and a position inside its limit, an order passes if and only if
  the validator is active, its size is between the bounds, its price is within the allowed
  deviation from mid, its notional is below the cap and the position it leads to is inside
  the limit; a pass changes nothing, every refusal only adds one to the rejection counter. The
  notional is price times size, unscaled: by this the order the unit test of the validator
  expects to pass is refused (lemma below).
\<close>

theorem validate_order_exact:
  assumes "pt_inv v"
  shows "(fst (pt_validate_order v side price sz mid) = Ok \<longleftrightarrow>
            pt_is_active v \<and>
            order_within_limits (pt_params v) (sint (pt_current_position v)) side price sz mid) \<and>
         snd (pt_validate_order v side price sz mid) =
           (if fst (pt_validate_order v side price sz mid) = Ok then v
            else v\<lparr>pt_rejection_count := pt_rejection_count v + 1\<rparr>)"
  using pt_validate_order_Ok_iff [OF assms] pt_validate_order_state by blast

theorem validate_order_exact_witness:
  fixes v
  defines "v \<equiv> pt_new 1 pre_trade_params_default"
  shows "fst (pt_validate_order v True 1000 5000 1010) = Ok \<and>
         fst (pt_validate_order v True 1000 5000 1100) \<noteq> Ok"
proof -
  have inv: "pt_inv v"
    by (simp add: v_def pt_new_def pt_inv_def sane_params_def pre_trade_params_default_def)
  show ?thesis
    using validate_order_exact [OF inv, of True 1000 5000 1010]
      validate_order_exact [OF inv, of True 1000 5000 1100]
    by (simp add: v_def pt_new_def pre_trade_params_default_def order_within_limits_def
        signed_size_def)
qed

text \<open>The order of the validator's unit test, refused for its notional value.\<close>

lemma test_order_exceeds_notional:
  "fst (pt_validate_order (pt_new 12345 pre_trade_params_default) True 50000000 1000000 50000000) \<noteq> Ok"
proof -
  have "pt_inv (pt_new 12345 pre_trade_params_default)"
    by (simp add: pt_new_def pt_inv_def sane_params_def pre_trade_params_default_def)
  from pt_validate_order_Ok_iff [OF this] show ?thesis
    by (simp add: pt_new_def pre_trade_params_default_def order_within_limits_def)
qed

end
