(* ===== verification/Margin.thy ===== *)
theory Margin
  imports Machine
begin

text \<open>
  The margin calculator of \<open>src/risk/margin.rs\<close>: the per-symbol margin state and the account
  (\<open>MarginCalculator\<close>), whose health flag gates the order router. The lemmas say what the
  wrapping balance updates compute, when the health flag matches the margin ratio, and that
  a loss never clears it.
\<close>

section \<open>Data\<close>

datatype MarginMode = Cross | Isolated

datatype BalanceType = Spot | FuturesCross | FuturesIsolated

record SymbolMarginState =
  sm_symbol_hash :: u64
  sm_mode :: MarginMode
  sm_available :: u64
  sm_used_margin :: u64
  sm_unrealized_pnl :: i64
  sm_position :: i64
  sm_entry_price :: u64
  sm_liquidation_price :: u64
  sm_leverage :: u64

record MarginCalculator =
  mc_total_equity :: i64
  mc_total_used_margin :: u64
  mc_is_healthy :: bool
  mc_margin_call_threshold_bps :: u64
  mc_active_symbol_count :: u64
  mc_last_update_ns :: u64

record MarginUpdateEvent =
  mu_symbol_hash :: u64
  mu_balance_type :: BalanceType
  mu_delta :: i64
  mu_timestamp_ns :: u64

section \<open>One symbol\<close>

definition sm_new :: "u64 \<Rightarrow> MarginMode \<Rightarrow> u64 \<Rightarrow> SymbolMarginState" where
  "sm_new h mode balance =
     \<lparr>sm_symbol_hash = h, sm_mode = mode, sm_available = balance, sm_used_margin = 0,
      sm_unrealized_pnl = 0, sm_position = 0, sm_entry_price = 0, sm_liquidation_price = 0,
      sm_leverage = 1\<rparr>"

text \<open>The \<open>fetch_add\<close> or \<open>fetch_sub\<close> by a signed delta that three methods share.\<close>

definition apply_delta :: "u64 \<Rightarrow> i64 \<Rightarrow> u64" where
  "apply_delta cell delta = (if 0 \<le>s delta then cell + delta else cell - (- delta))"

definition sm_update_available :: "SymbolMarginState \<Rightarrow> i64 \<Rightarrow> SymbolMarginState" where
  "sm_update_available s delta = s\<lparr>sm_available := apply_delta (sm_available s) delta\<rparr>"

definition sm_update_used_margin :: "SymbolMarginState \<Rightarrow> i64 \<Rightarrow> SymbolMarginState" where
  "sm_update_used_margin s delta = s\<lparr>sm_used_margin := apply_delta (sm_used_margin s) delta\<rparr>"

definition sm_update_unrealized_pnl :: "SymbolMarginState \<Rightarrow> i64 \<Rightarrow> SymbolMarginState" where
  "sm_update_unrealized_pnl s pnl = s\<lparr>sm_unrealized_pnl := pnl\<rparr>"

definition sm_get_equity :: "SymbolMarginState \<Rightarrow> i64" where
  "sm_get_equity s = sm_available s + sm_unrealized_pnl s"

text \<open>\<open>((used as u128 * 10_000) / equity as u128) as u64\<close>, for a positive equity.\<close>

definition margin_ratio_bps :: "u64 \<Rightarrow> i64 \<Rightarrow> u64" where
  "margin_ratio_bps used equity = ucast ((ucast used :: u128) * 10000 div ucast equity)"

definition sm_get_margin_ratio_bps :: "SymbolMarginState \<Rightarrow> u64" where
  "sm_get_margin_ratio_bps s =
     (let equity = sm_get_equity s
      in if equity \<le>s 0 then u64_MAX else margin_ratio_bps (sm_used_margin s) equity)"

definition sm_can_open_position :: "SymbolMarginState \<Rightarrow> u64 \<Rightarrow> bool" where
  "sm_can_open_position s required = (required \<le> sm_available s)"

definition sm_set_leverage :: "SymbolMarginState \<Rightarrow> u64 \<Rightarrow> SymbolMarginState" where
  "sm_set_leverage s l = s\<lparr>sm_leverage := l\<rparr>"

definition sm_get_leverage :: "SymbolMarginState \<Rightarrow> u64" where
  "sm_get_leverage s = sm_leverage s"

section \<open>The account\<close>

definition mc_new :: "i64 \<Rightarrow> u64 \<Rightarrow> MarginCalculator" where
  "mc_new equity threshold =
     \<lparr>mc_total_equity = equity, mc_total_used_margin = 0, mc_is_healthy = True,
      mc_margin_call_threshold_bps = threshold, mc_active_symbol_count = 0,
      mc_last_update_ns = 0\<rparr>"

definition mc_check_health :: "MarginCalculator \<Rightarrow> i64 \<Rightarrow> MarginCalculator" where
  "mc_check_health m equity =
     (if equity \<le>s 0 then m\<lparr>mc_is_healthy := False\<rparr>
      else let ratio_bps = margin_ratio_bps (mc_total_used_margin m) equity
           in if mc_margin_call_threshold_bps m \<le> ratio_bps
              then m\<lparr>mc_is_healthy := False\<rparr> else m\<lparr>mc_is_healthy := True\<rparr>)"

definition mc_update_timestamp :: "MarginCalculator \<Rightarrow> clock \<Rightarrow> MarginCalculator" where
  "mc_update_timestamp m clk = m\<lparr>mc_last_update_ns := clk 0\<rparr>"

text \<open>
  For a negative delta the cell is decremented by \<open>- delta\<close>, and \<open>delta\<close> is then subtracted
  from the value \<open>fetch_sub\<close> returns.
\<close>

definition mc_update_total_equity :: "MarginCalculator \<Rightarrow> i64 \<Rightarrow> clock \<Rightarrow> MarginCalculator" where
  "mc_update_total_equity m delta clk =
     (let old = mc_total_equity m;
          (cell, new_equity) = (if 0 \<le>s delta then (old + delta, old + delta)
                                else (old - (- delta), old - delta));
          m = m\<lparr>mc_total_equity := cell\<rparr>
      in mc_update_timestamp (mc_check_health m new_equity) clk)"

definition mc_update_total_used_margin :: "MarginCalculator \<Rightarrow> i64 \<Rightarrow> clock \<Rightarrow> MarginCalculator" where
  "mc_update_total_used_margin m delta clk =
     (let m = m\<lparr>mc_total_used_margin := apply_delta (mc_total_used_margin m) delta\<rparr>
      in mc_update_timestamp (mc_check_health m (mc_total_equity m)) clk)"

definition mc_get_last_update_ns :: "MarginCalculator \<Rightarrow> u64" where
  "mc_get_last_update_ns m = mc_last_update_ns m"

definition mc_get_total_equity :: "MarginCalculator \<Rightarrow> i64" where
  "mc_get_total_equity m = mc_total_equity m"

definition mc_get_total_used_margin :: "MarginCalculator \<Rightarrow> u64" where
  "mc_get_total_used_margin m = mc_total_used_margin m"

definition mc_get_available_margin :: "MarginCalculator \<Rightarrow> i64" where
  "mc_get_available_margin m = mc_total_equity m - mc_total_used_margin m"

definition mc_get_margin_ratio_bps :: "MarginCalculator \<Rightarrow> u64" where
  "mc_get_margin_ratio_bps m =
     (if mc_total_equity m \<le>s 0 then u64_MAX
      else margin_ratio_bps (mc_total_used_margin m) (mc_total_equity m))"

definition mc_set_margin_call_threshold :: "MarginCalculator \<Rightarrow> u64 \<Rightarrow> MarginCalculator" where
  "mc_set_margin_call_threshold m t = m\<lparr>mc_margin_call_threshold_bps := t\<rparr>"

definition mc_force_unhealthy :: "MarginCalculator \<Rightarrow> MarginCalculator" where
  "mc_force_unhealthy m = m\<lparr>mc_is_healthy := False\<rparr>"

definition mc_reset_health :: "MarginCalculator \<Rightarrow> MarginCalculator" where
  "mc_reset_health m = mc_check_health m (mc_total_equity m)"

definition margin_update_event_new ::
    "u64 \<Rightarrow> BalanceType \<Rightarrow> i64 \<Rightarrow> clock \<Rightarrow> MarginUpdateEvent" where
  "margin_update_event_new h ty delta clk =
     \<lparr>mu_symbol_hash = h, mu_balance_type = ty, mu_delta = delta, mu_timestamp_ns = clk 0\<rparr>"

section \<open>Reading the arithmetic\<close>

lemma apply_delta_eq: "apply_delta cell delta = cell + delta"
  by (simp add: apply_delta_def)

text \<open>The exact margin ratio, in basis points rounded down.\<close>

definition ratio_of :: "u64 \<Rightarrow> int \<Rightarrow> int" where
  "ratio_of used equity = int (unat used) * 10000 div equity"

lemma margin_ratio_bps_exact:
  assumes "0 < sint equity" and "ratio_of used (sint equity) < 2 ^ 64"
  shows "int (unat (margin_ratio_bps used equity)) = ratio_of used (sint equity)"
proof -
  have "unat used * 10000 < 2 ^ 128" using unat_u64_less [of used] by simp
  then have "unat ((ucast used :: u128) * 10000) = unat used * 10000"
    by (simp add: unat_word_ariths)
  then have q: "unat ((ucast used :: u128) * 10000 div ucast equity)
      = unat used * 10000 div unat equity"
    by (simp add: unat_div)
  have r: "int (unat used * 10000 div unat equity) = ratio_of used (sint equity)"
    using unat_eq_sint [of equity] assms(1) unfolding ratio_of_def
    by (simp only: zdiv_int of_nat_mult of_nat_numeral)
  have "unat used * 10000 div unat equity < 2 ^ 64"
    using assms(2) unfolding r [symmetric] by (rule int_less_2p64)
  then have "unat (margin_ratio_bps used equity) = unat used * 10000 div unat equity"
    unfolding margin_ratio_bps_def by (simp only: unsigned_ucast_eq q) (simp add: take_bit_nat_eq_self)
  with r show ?thesis by simp
qed

definition healthy_at :: "MarginCalculator \<Rightarrow> int \<Rightarrow> bool" where
  "healthy_at m equity \<longleftrightarrow>
     0 < equity \<and>
     ratio_of (mc_total_used_margin m) equity < int (unat (mc_margin_call_threshold_bps m))"

text \<open>The ratio is narrowed to 64 bits before it is compared; this is when that is harmless.\<close>

definition ratio_fits :: "MarginCalculator \<Rightarrow> int \<Rightarrow> bool" where
  "ratio_fits m equity \<longleftrightarrow> ratio_of (mc_total_used_margin m) equity < 2 ^ 64"

lemma mc_check_health_exact:
  assumes "ratio_fits m (sint equity)"
  shows "mc_is_healthy (mc_check_health m equity) \<longleftrightarrow> healthy_at m (sint equity)"
proof (cases "0 < sint equity")
  case True
  have "mc_margin_call_threshold_bps m \<le> margin_ratio_bps (mc_total_used_margin m) equity \<longleftrightarrow>
      int (unat (mc_margin_call_threshold_bps m))
        \<le> int (unat (margin_ratio_bps (mc_total_used_margin m) equity))"
    by (simp only: word_le_nat_alt of_nat_le_iff)
  also have "\<dots> \<longleftrightarrow> int (unat (mc_margin_call_threshold_bps m))
      \<le> ratio_of (mc_total_used_margin m) (sint equity)"
    using margin_ratio_bps_exact [OF True] assms by (simp only: ratio_fits_def)
  finally show ?thesis
    using True by (auto simp: mc_check_health_def Let_def healthy_at_def word_sle_eq)
next
  case False
  then show ?thesis by (simp add: mc_check_health_def healthy_at_def word_sle_eq)
qed

lemma mc_check_health_fields [simp]:
  "mc_total_equity (mc_check_health m e) = mc_total_equity m"
  "mc_total_used_margin (mc_check_health m e) = mc_total_used_margin m"
  "mc_margin_call_threshold_bps (mc_check_health m e) = mc_margin_call_threshold_bps m"
  by (simp_all add: mc_check_health_def Let_def)

lemma healthy_at_check [simp]:
  "healthy_at (mc_check_health m e) x = healthy_at m x"
  "ratio_fits (mc_check_health m e) x = ratio_fits m x"
  by (simp_all add: healthy_at_def ratio_fits_def)

lemma mc_update_timestamp_fields [simp]:
  "mc_total_equity (mc_update_timestamp m clk) = mc_total_equity m"
  "mc_is_healthy (mc_update_timestamp m clk) = mc_is_healthy m"
  "mc_total_used_margin (mc_update_timestamp m clk) = mc_total_used_margin m"
  "mc_margin_call_threshold_bps (mc_update_timestamp m clk) = mc_margin_call_threshold_bps m"
  "healthy_at (mc_update_timestamp m clk) x = healthy_at m x"
  "ratio_fits (mc_update_timestamp m clk) x = ratio_fits m x"
  by (simp_all add: mc_update_timestamp_def healthy_at_def ratio_fits_def)

lemma healthy_at_equity [simp]:
  "healthy_at (m\<lparr>mc_total_equity := e\<rparr>) x = healthy_at m x"
  "ratio_fits (m\<lparr>mc_total_equity := e\<rparr>) x = ratio_fits m x"
  by (simp_all add: healthy_at_def ratio_fits_def)

lemma uint_add_delta: "uint (a + b :: u64) = (uint a + sint b) mod 2 ^ 64"
proof -
  have "uint b = sint b mod 2 ^ 64"
    using uint_sint [of b] by (simp add: take_bit_eq_mod)
  then show ?thesis
    by (simp add: uint_word_ariths mod_add_right_eq)
qed

lemma healthy_at_mono:
  assumes "healthy_at m e" and "e \<le> e'"
  shows "healthy_at m e'"
proof -
  have "ratio_of (mc_total_used_margin m) e' \<le> ratio_of (mc_total_used_margin m) e"
    using assms unfolding ratio_of_def healthy_at_def
    by (intro zdiv_mono2) simp_all
  with assms show ?thesis by (simp add: healthy_at_def)
qed

lemma healthy_at_fits: "healthy_at m e \<Longrightarrow> ratio_fits m e"
  using unsigned_less [of "mc_margin_call_threshold_bps m", where ?'a = int]
  by (simp add: healthy_at_def ratio_fits_def)

section \<open>Properties\<close>

text \<open>
  A symbol's available balance and the margin it uses change by the signed delta modulo
  \<open>2 ^ 64\<close>, for every delta: a debit beyond the balance wraps to a huge balance instead of
  failing.
\<close>

lemma balance_updates_wrap:
  "uint (sm_available (sm_update_available s delta)) = (uint (sm_available s) + sint delta) mod 2 ^ 64 \<and>
   uint (sm_used_margin (sm_update_used_margin s delta))
     = (uint (sm_used_margin s) + sint delta) mod 2 ^ 64"
  by (simp add: sm_update_available_def sm_update_used_margin_def apply_delta_eq uint_add_delta
      del: uint_word_ariths)

text \<open>
  After an overdraft the symbol looks rich: debiting more than is available leaves
  \<open>2 ^ 64\<close> minus the shortfall, and \<open>can_open_position\<close> grants every margin up to that.
\<close>

lemma overdraft_grants_margin:
  assumes "uint (sm_available s) + sint delta < 0"
    and "uint required \<le> 2 ^ 64 + uint (sm_available s) + sint delta"
  shows "sm_can_open_position (sm_update_available s delta) required"
proof -
  let ?x = "uint (sm_available s) + sint delta"
  have pow: "(2 :: int) ^ 64 = 18446744073709551616" by simp
  have "0 \<le> uint (sm_available s)" by simp
  then have "0 \<le> ?x + 2 ^ 64" using sint_i64_ge [of delta] unfolding pow by linarith
  then have "(?x + 2 ^ 64) mod 2 ^ 64 = ?x + 2 ^ 64"
    using assms(1) by (intro mod_pos_pos_trivial) simp_all
  then have "?x mod 2 ^ 64 = 2 ^ 64 + ?x" by simp
  with assms(2) show ?thesis
    by (simp add: sm_can_open_position_def sm_update_available_def apply_delta_eq
        word_le_def uint_add_delta del: uint_word_ariths)
qed

text \<open>
  After a gain, after a change of the used margin and after \<open>reset_health\<close>, the health flag
  is exactly "equity positive and margin ratio below the margin-call threshold", as long as
  the ratio fits the 64 bits it is narrowed to.
\<close>

lemma health_flag_exact:
  assumes "m' = mc_update_total_equity m delta clk \<and> 0 \<le> sint delta \<or>
           m' = mc_update_total_used_margin m delta clk \<or> m' = mc_reset_health m"
    and "ratio_fits m' (sint (mc_total_equity m'))"
  shows "mc_is_healthy m' \<longleftrightarrow> healthy_at m' (sint (mc_total_equity m'))"
  using assms
  by (auto simp: mc_update_total_equity_def mc_update_total_used_margin_def mc_reset_health_def
      Let_def word_sle_eq mc_check_health_exact)

text \<open>
  No loss ever clears the health flag of a healthy account, not even one that makes its
  equity negative: the equity cell drops by the loss, but the flag is computed from the old
  equity plus the loss.
\<close>

lemma losses_never_flag_unhealthy:
  assumes "healthy_at m (sint (mc_total_equity m))"
    and "sint delta < 0" and "sint (mc_total_equity m) - sint delta < 2 ^ 63"
  shows "sint (mc_total_equity (mc_update_total_equity m delta clk))
           = sint (mc_total_equity m) + sint delta \<and>
         mc_is_healthy (mc_update_total_equity m delta clk)"
proof -
  let ?e = "mc_total_equity m"
  have pos: "0 < sint ?e" using assms(1) by (simp add: healthy_at_def)
  have "sint (?e - delta) = sint ?e - sint delta"
    using assms(2,3) pos by (intro sint_sub_i64) simp_all
  then have "healthy_at m (sint (?e - delta))"
    using healthy_at_mono [OF assms(1), of "sint ?e - sint delta"] assms(2) by simp
  then have "mc_is_healthy (mc_check_health (m\<lparr>mc_total_equity := x\<rparr>) (?e - delta))" for x
    by (simp add: mc_check_health_exact healthy_at_fits)
  moreover have "sint (?e + delta) = sint ?e + sint delta"
    using assms(2) pos sint_i64_range [of delta] sint_i64_range [of ?e]
    by (intro sint_add_i64) linarith+
  ultimately show ?thesis
    using assms(2) by (simp add: mc_update_total_equity_def Let_def word_sle_eq)
qed

end
