(* ===== verification/Risk_Router.thy ===== *)
theory Risk_Router
  imports Pre_Trade Margin
begin

text \<open>
  The risk-aware order router and the risk bus of \<open>src/risk/mod.rs\<close>: an order is routed when
  the router is active, the account healthy and the validator satisfied, and it then gets a
  fresh order id. The router shares the validator and the margin calculator through \<open>Arc\<close>s;
  its state here contains theirs. A call returns \<open>None\<close> when the id generator does not return
  within the given fuel.
\<close>

section \<open>The router\<close>

record RiskAwareRouter =
  rr_validator :: PreTradeRiskValidator
  rr_margin_calc :: MarginCalculator
  rr_is_active :: bool
  rr_orders_routed :: u64
  rr_orders_rejected :: u64

definition rr_new :: "PreTradeRiskValidator \<Rightarrow> MarginCalculator \<Rightarrow> RiskAwareRouter" where
  "rr_new v m =
     \<lparr>rr_validator = v, rr_margin_calc = m, rr_is_active = True, rr_orders_routed = 0,
      rr_orders_rejected = 0\<rparr>"

definition rr_validate_and_route ::
    "nat \<Rightarrow> RiskAwareRouter \<Rightarrow> bool \<Rightarrow> u64 \<Rightarrow> u64 \<Rightarrow> u64 \<Rightarrow> (u64 option \<times> RiskAwareRouter) option" where
  "rr_validate_and_route fuel r side price sz mid =
     (if \<not> rr_is_active r then Some (None, r\<lparr>rr_orders_rejected := rr_orders_rejected r + 1\<rparr>)
      else if \<not> mc_is_healthy (rr_margin_calc r)
      then Some (None, r\<lparr>rr_orders_rejected := rr_orders_rejected r + 1\<rparr>)
      else
        let (result, v) = pt_validate_order (rr_validator r) side price sz mid;
            r = r\<lparr>rr_validator := v\<rparr>
        in case result of
             Ok \<Rightarrow>
               (case pt_generate_order_id fuel (rr_validator r) of
                  None \<Rightarrow> None
                | Some (order_id, v) \<Rightarrow>
                    Some (Some order_id,
                          r\<lparr>rr_validator := v, rr_orders_routed := rr_orders_routed r + 1\<rparr>))
           | _ \<Rightarrow> Some (None, r\<lparr>rr_orders_rejected := rr_orders_rejected r + 1\<rparr>))"

definition rr_confirm_execution ::
    "RiskAwareRouter \<Rightarrow> bool \<Rightarrow> u64 \<Rightarrow> i64 \<Rightarrow> clock \<Rightarrow> RiskAwareRouter" where
  "rr_confirm_execution r side sz pnl_delta clk =
     r\<lparr>rr_validator := pt_update_position (rr_validator r) side sz,
       rr_margin_calc := mc_update_total_equity (rr_margin_calc r) pnl_delta clk\<rparr>"

definition rr_activate :: "RiskAwareRouter \<Rightarrow> RiskAwareRouter" where
  "rr_activate r = r\<lparr>rr_is_active := True, rr_validator := pt_activate (rr_validator r)\<rparr>"

definition rr_deactivate :: "RiskAwareRouter \<Rightarrow> RiskAwareRouter" where
  "rr_deactivate r = r\<lparr>rr_is_active := False, rr_validator := pt_deactivate (rr_validator r)\<rparr>"

definition rr_get_stats :: "RiskAwareRouter \<Rightarrow> u64 \<times> u64" where
  "rr_get_stats r = (rr_orders_routed r, rr_orders_rejected r)"

section \<open>The risk bus\<close>

record RiskBus =
  rb_kill_signal :: bool
  rb_margin_warning :: bool
  rb_position_warning :: bool

definition rb_new :: RiskBus where
  "rb_new = \<lparr>rb_kill_signal = False, rb_margin_warning = False, rb_position_warning = False\<rparr>"

definition rb_trigger_kill :: "RiskBus \<Rightarrow> RiskBus" where
  "rb_trigger_kill b = b\<lparr>rb_kill_signal := True\<rparr>"

definition rb_clear_kill :: "RiskBus \<Rightarrow> RiskBus" where
  "rb_clear_kill b = b\<lparr>rb_kill_signal := False\<rparr>"

definition rb_is_killed :: "RiskBus \<Rightarrow> bool" where
  "rb_is_killed b = rb_kill_signal b"

definition rb_trigger_margin_warning :: "RiskBus \<Rightarrow> RiskBus" where
  "rb_trigger_margin_warning b = b\<lparr>rb_margin_warning := True\<rparr>"

definition rb_clear_margin_warning :: "RiskBus \<Rightarrow> RiskBus" where
  "rb_clear_margin_warning b = b\<lparr>rb_margin_warning := False\<rparr>"

definition rb_has_margin_warning :: "RiskBus \<Rightarrow> bool" where
  "rb_has_margin_warning b = rb_margin_warning b"

definition rb_trigger_position_warning :: "RiskBus \<Rightarrow> RiskBus" where
  "rb_trigger_position_warning b = b\<lparr>rb_position_warning := True\<rparr>"

definition rb_clear_position_warning :: "RiskBus \<Rightarrow> RiskBus" where
  "rb_clear_position_warning b = b\<lparr>rb_position_warning := False\<rparr>"

definition rb_has_position_warning :: "RiskBus \<Rightarrow> bool" where
  "rb_has_position_warning b = rb_position_warning b"

section \<open>Requests\<close>

text \<open>
  A request to route an order: fuel, side, price, size and mid price. A call that does not
  return leaves the client without an answer; here it answers \<open>None\<close> and the state is kept,
  so that sequences of calls can be followed.
\<close>

type_synonym route_request = "nat \<times> bool \<times> u64 \<times> u64 \<times> u64"

definition rr_call :: "route_request \<Rightarrow> RiskAwareRouter \<Rightarrow> u64 option \<times> RiskAwareRouter" where
  "rr_call q r =
     (case q of (fuel, side, price, sz, mid) \<Rightarrow>
        (case rr_validate_and_route fuel r side price sz mid of None \<Rightarrow> (None, r) | Some a \<Rightarrow> a))"

definition rr_last_id :: "RiskAwareRouter \<Rightarrow> u64" where
  "rr_last_id r = oig_last_id (pt_order_id_gen (rr_validator r))"

lemma rr_validate_and_route_eq:
  "rr_validate_and_route fuel r side price sz mid =
    (let v = rr_validator r; (result, v') = pt_validate_order v side price sz mid
     in if rr_is_active r \<and> mc_is_healthy (rr_margin_calc r) then
          if result = Ok then
            map_option (\<lambda>(x, g). (Some x, r\<lparr>rr_validator := v\<lparr>pt_order_id_gen := g\<rparr>,
                                             rr_orders_routed := rr_orders_routed r + 1\<rparr>))
              (oig_generate fuel (pt_order_id_gen v))
          else Some (None, r\<lparr>rr_validator := v', rr_orders_rejected := rr_orders_rejected r + 1\<rparr>)
        else Some (None, r\<lparr>rr_orders_rejected := rr_orders_rejected r + 1\<rparr>))"
  using pt_validate_order_state [of "rr_validator r" side price sz mid]
  by (auto simp: rr_validate_and_route_def pt_generate_order_id_def Let_def case_prod_unfold
      split: FatFingerResult.splits option.splits)

lemma rr_route_Some:
  assumes "rr_validate_and_route fuel r side price sz mid = Some (Some x, r')"
  shows "rr_is_active r" and "mc_is_healthy (rr_margin_calc r)"
    and "fst (pt_validate_order (rr_validator r) side price sz mid) = Ok"
    and "rr_last_id r < x" and "rr_last_id r' = x"
    and "rr_orders_routed r' = rr_orders_routed r + 1" and "rr_orders_rejected r' = rr_orders_rejected r"
    and "pt_params (rr_validator r') = pt_params (rr_validator r)"
    and "pt_current_position (rr_validator r') = pt_current_position (rr_validator r)"
    and "rr_margin_calc r' = rr_margin_calc r"
  using assms
  by (auto simp: rr_validate_and_route_eq rr_last_id_def Let_def case_prod_unfold
      dest: oig_generate_fresh split: if_splits)

lemma rr_route_None:
  assumes "rr_validate_and_route fuel r side price sz mid = Some (None, r')"
  shows "rr_last_id r' = rr_last_id r" and "rr_orders_routed r' = rr_orders_routed r"
    and "rr_orders_rejected r' = rr_orders_rejected r + 1"
    and "pt_params (rr_validator r') = pt_params (rr_validator r)"
    and "pt_current_position (rr_validator r') = pt_current_position (rr_validator r)"
    and "rr_margin_calc r' = rr_margin_calc r"
  using assms
  by (auto simp: rr_validate_and_route_eq rr_last_id_def Let_def case_prod_unfold split: if_splits)

interpretation rr_source: id_source rr_call rr_last_id
proof unfold_locales
  fix q :: route_request and r r' x
  show "rr_call q r = (Some x, r') \<Longrightarrow> rr_last_id r < x \<and> rr_last_id r' = x"
    by (auto simp: rr_call_def dest: rr_route_Some(4,5) split: prod.splits option.splits)
  show "rr_call q r = (None, r') \<Longrightarrow> rr_last_id r' = rr_last_id r"
    by (auto simp: rr_call_def dest: rr_route_None(1) split: prod.splits option.splits)
qed

section \<open>Orders that are routed and then filled\<close>

text \<open>
  The protocol the source's comments ask for, one order at a time: route the order, and when
  it got an id, confirm its execution with some profit or loss.
\<close>

datatype rr_order = RrOrder (rro_request: route_request) (rro_pnl: i64) (rro_clk: clock)

fun rr_trade :: "rr_order \<Rightarrow> RiskAwareRouter \<Rightarrow> RiskAwareRouter" where
  "rr_trade (RrOrder (fuel, side, price, sz, mid) pnl clk) r =
     (case rr_call (fuel, side, price, sz, mid) r of
        (None, r) \<Rightarrow> r
      | (Some x, r) \<Rightarrow> rr_confirm_execution r side sz pnl clk)"

definition rr_inv :: "RiskAwareRouter \<Rightarrow> bool" where
  "rr_inv r \<longleftrightarrow> pt_inv (rr_validator r)"

lemma pt_inv_update_position:
  assumes "pt_inv v" and "fst (pt_validate_order v side price sz mid) = Ok"
  shows "pt_inv (pt_update_position v side sz)"
proof -
  have lim: "order_within_limits (pt_params v) (sint (pt_current_position v)) side price sz mid"
    using assms pt_validate_order_Ok_iff by blast
  then have "sint (pt_current_position (pt_update_position v side sz))
      = sint (pt_current_position v) + signed_size side sz"
    by (intro new_position_exact(2) [OF assms(1)]) (simp add: order_within_limits_def)
  with lim assms(1) show ?thesis
    by (simp add: pt_inv_def order_within_limits_def pt_update_position_def Let_def)
qed

lemma pt_inv_cong:
  assumes "pt_params v' = pt_params v" and "pt_current_position v' = pt_current_position v"
  shows "pt_inv v' = pt_inv v" "pt_inv (pt_update_position v' side sz) = pt_inv (pt_update_position v side sz)"
  using assms by (simp_all add: pt_inv_def pt_update_position_def Let_def)

lemma rr_trade_inv: "rr_inv r \<Longrightarrow> rr_inv (rr_trade ord r)"
proof (cases ord)
  case (RrOrder q pnl clk)
  assume inv: "rr_inv r"
  obtain fuel side price sz mid where q: "q = (fuel, side, price, sz, mid)" by (cases q) auto
  show ?thesis
  proof (cases "rr_validate_and_route fuel r side price sz mid")
    case None
    with inv show ?thesis by (simp add: RrOrder q rr_call_def)
  next
    case (Some a)
    obtain ans r' where a: "a = (ans, r')" by (cases a)
    show ?thesis
    proof (cases ans)
      case None
      with Some a inv show ?thesis
        using pt_inv_cong(1) [OF rr_route_None(4,5)]
        by (fastforce simp: RrOrder q rr_call_def rr_inv_def)
    next
      case (Some x)
      with \<open>rr_validate_and_route fuel r side price sz mid = Some a\<close> a
      have routed: "rr_validate_and_route fuel r side price sz mid = Some (Some x, r')" by simp
      have "pt_inv (pt_update_position (rr_validator r') side sz)"
        using pt_inv_cong(2) [OF rr_route_Some(8,9) [OF routed]] inv
          pt_inv_update_position [OF _ rr_route_Some(3) [OF routed]]
        by (simp add: rr_inv_def)
      with routed show ?thesis
        by (simp add: RrOrder q rr_call_def rr_inv_def rr_confirm_execution_def)
    qed
  qed
qed

interpretation rr_limit: latched_system rr_trade "\<lambda>ord. True" rr_inv
  by unfold_locales (rule rr_trade_inv)

lemma rr_trade_params: "pt_params (rr_validator (rr_trade ord r)) = pt_params (rr_validator r)"
  by (cases ord; cases "rro_request ord")
    (auto simp: rr_call_def rr_confirm_execution_def pt_update_position_def Let_def
      dest: rr_route_Some(8) rr_route_None(4) split: option.splits prod.splits)

interpretation rr_frame: framed_system rr_trade "\<lambda>r. pt_params (rr_validator r)"
  by unfold_locales (rule rr_trade_params)

lemma rr_call_inactive:
  assumes "\<not> rr_is_active r"
  shows "rr_call q r = (None, r\<lparr>rr_orders_rejected := rr_orders_rejected r + 1\<rparr>)"
  using assms by (simp add: rr_call_def rr_validate_and_route_def split: prod.splits)

lemma issue_all_inactive:
  assumes "\<not> rr_is_active r"
  shows "issue_all rr_call qs r
           = ([], r\<lparr>rr_orders_rejected := rr_orders_rejected r + of_nat (length qs)\<rparr>)"
  using assms by (induction qs arbitrary: r) (simp_all add: rr_call_inactive ac_simps)

section \<open>Properties\<close>

text \<open>The condition on which an order is to be routed, and a generator that has issued \<open>n\<close> ids of an epoch.\<close>

definition rr_accepts :: "RiskAwareRouter \<Rightarrow> bool \<Rightarrow> u64 \<Rightarrow> u64 \<Rightarrow> u64 \<Rightarrow> bool" where
  "rr_accepts r side price sz mid \<longleftrightarrow>
     rr_is_active r \<and> pt_is_active (rr_validator r) \<and> mc_is_healthy (rr_margin_calc r) \<and>
     order_within_limits (pt_params (rr_validator r))
       (sint (pt_current_position (rr_validator r))) side price sz mid"

definition has_issued :: "u64 \<Rightarrow> nat \<Rightarrow> IdempotentOrderIdGenerator \<Rightarrow> bool" where
  "has_issued epoch n g \<longleftrightarrow> (\<exists>ids. oig_take 1 n (oig_new epoch) = Some (ids, g))"

lemma next_id_at_once:
  assumes "has_issued epoch n g" and "unat epoch mod 2 ^ 32 \<noteq> 0" and "n < 2 ^ 32" and "0 < fuel"
  shows "oig_generate fuel g \<noteq> None"
proof -
  obtain ids where "oig_take 1 n (oig_new epoch) = Some (ids, g)" using assms(1) by (auto simp: has_issued_def)
  then have "oig_take (Suc (fuel - 1)) n (oig_new epoch) = Some (ids, g)"
    using oig_take_fresh [OF assms(2), of n 0] oig_take_fresh [OF assms(2), of n "fuel - 1"] assms(3) by simp
  moreover have "oig_take (Suc (fuel - 1)) (Suc n) (oig_new epoch) \<noteq> None"
    using oig_take_fresh [OF assms(2), of "Suc n" "fuel - 1"] assms(3) by simp
  ultimately show ?thesis using assms(4) by (auto split: option.splits)
qed

lemma route_answers:
  assumes "pt_inv (rr_validator r)" and "oig_generate fuel (pt_order_id_gen (rr_validator r)) \<noteq> None"
  shows "\<exists>ans r'. rr_validate_and_route fuel r side price sz mid = Some (ans, r') \<and>
    (ans \<noteq> None \<longleftrightarrow> rr_accepts r side price sz mid)"
  using assms(2) pt_validate_order_Ok_iff [OF assms(1), of side price sz mid]
  by (auto simp: rr_validate_and_route_eq rr_accepts_def Let_def case_prod_unfold)

text \<open>
  C27: What the router routes. When \<open>validate_and_route\<close> returns an id, the router and the validator were
  active, the account was flagged healthy, the order was within every limit, and the id is above all ids
  issued before: the check for duplicates did not report it before and does now (the unit test of the
  generator expects that it does not). And the call returns: as long as the generator has issued less than
  \<open>2 ^ 32\<close> ids of an epoch with a non-zero low half, one round of its loop is enough, and an id is returned
  exactly when these conditions hold.
\<close>

theorem routed_order_guarantee:
  assumes "pt_inv (rr_validator r)"
  shows "(\<forall>fuel x r'. rr_validate_and_route fuel r side price sz mid = Some (Some x, r') \<longrightarrow>
            rr_accepts r side price sz mid \<and>
            \<not> pt_is_duplicate_order_id (rr_validator r) x \<and> pt_is_duplicate_order_id (rr_validator r') x) \<and>
         (\<forall>fuel epoch n. 0 < fuel \<and> has_issued epoch n (pt_order_id_gen (rr_validator r)) \<and>
            unat epoch mod 2 ^ 32 \<noteq> 0 \<and> n < 2 ^ 32 \<longrightarrow>
            (\<exists>ans r'. rr_validate_and_route fuel r side price sz mid = Some (ans, r') \<and>
               (ans \<noteq> None \<longleftrightarrow> rr_accepts r side price sz mid)))"
proof (intro conjI allI impI)
  fix fuel x r'
  assume "rr_validate_and_route fuel r side price sz mid = Some (Some x, r')"
  from rr_route_Some [OF this] show "rr_accepts r side price sz mid"
    "\<not> pt_is_duplicate_order_id (rr_validator r) x" "pt_is_duplicate_order_id (rr_validator r') x"
    using pt_validate_order_Ok_iff [OF assms]
    by (simp_all add: rr_accepts_def pt_is_duplicate_order_id_def oig_is_duplicate_def rr_last_id_def)
next
  fix fuel n :: nat and epoch :: u64
  assume "0 < fuel \<and> has_issued epoch n (pt_order_id_gen (rr_validator r)) \<and> unat epoch mod 2 ^ 32 \<noteq> 0 \<and> n < 2 ^ 32"
  then have "oig_generate fuel (pt_order_id_gen (rr_validator r)) \<noteq> None" by (intro next_id_at_once) auto
  then show "\<exists>ans r'. rr_validate_and_route fuel r side price sz mid = Some (ans, r') \<and>
      (ans \<noteq> None \<longleftrightarrow> rr_accepts r side price sz mid)"
    by (rule route_answers [OF assms])
qed

theorem routed_order_guarantee_witness:
  fixes r
  defines "r \<equiv> rr_new (pt_new 1 pre_trade_params_default) (mc_new 1000 8000)"
  shows "\<exists>x r'. rr_validate_and_route 1 r True 1000 5000 1010 = Some (Some x, r') \<and>
           \<not> pt_is_duplicate_order_id (rr_validator r) x \<and> pt_is_duplicate_order_id (rr_validator r') x"
proof -
  have inv: "pt_inv (rr_validator r)"
    by (simp add: r_def rr_new_def pt_new_def pt_inv_def sane_params_def pre_trade_params_default_def)
  have acc: "rr_accepts r True 1000 5000 1010"
    by (simp add: rr_accepts_def r_def rr_new_def mc_new_def pt_new_def order_within_limits_def
        pre_trade_params_default_def signed_size_def)
  have issued: "0 < (1 :: nat) \<and> has_issued 1 0 (pt_order_id_gen (rr_validator r)) \<and>
      unat (1 :: u64) mod 2 ^ 32 \<noteq> 0 \<and> (0 :: nat) < 2 ^ 32"
    by (simp add: has_issued_def r_def rr_new_def pt_new_def)
  note both = routed_order_guarantee [OF inv, of True 1000 5000 1010]
  obtain ans r' where "rr_validate_and_route 1 r True 1000 5000 1010 = Some (ans, r')" "ans \<noteq> None"
    using both [THEN conjunct2, rule_format, OF issued] acc by blast
  then show ?thesis using both [THEN conjunct1, rule_format] by blast
qed

text \<open>
  The order of the router's own unit test, which expects it to be routed, is refused: its notional value
  exceeds the default limit by far.
\<close>

lemma test_order_refused:
  "\<not> rr_accepts (rr_new (pt_new 12345 pre_trade_params_default) m) True 50000000 1000000 50000000"
  by (simp add: rr_accepts_def rr_new_def pt_new_def order_within_limits_def pre_trade_params_default_def)

text \<open>
  Over any sequence of requests, accepted or refused, with any fuel, the ids the router
  hands out are strictly increasing and above every id issued before, hence pairwise
  distinct.
\<close>

lemma routed_ids_increase:
  "sorted_wrt (<) (rr_last_id r # fst (issue_all rr_call qs r)) \<and>
   distinct (fst (issue_all rr_call qs r))"
proof -
  have "distinct xs" if "sorted_wrt (<) xs" for xs :: "u64 list"
    using that by (induction xs) auto
  with rr_source.issue_all_increasing [of r qs] show ?thesis by auto
qed

text \<open>
  C26: Trading one order at a time, each filled in full only after it was routed, never moves
  the position outside its limit, whatever the orders, fills and profits or losses are.
\<close>

theorem position_limit_holds:
  assumes "sane_params params"
  shows "\<bar>sint (pt_get_position
            (rr_validator (run rr_trade ords (rr_new (pt_new epoch params) m))))\<bar>
           \<le> sint (max_position params)"
proof -
  let ?r = "rr_new (pt_new epoch params) m"
  have "rr_inv ?r"
    using assms by (simp add: rr_inv_def rr_new_def pt_new_def pt_inv_def sane_params_def)
  then have "rr_inv (run rr_trade ords ?r)"
    by (rule rr_limit.run_latch) (simp add: list_all_iff)
  moreover have "pt_params (rr_validator (run rr_trade ords ?r)) = params"
    by (simp add: rr_frame.run_part rr_new_def pt_new_def)
  ultimately show ?thesis
    by (simp add: rr_inv_def pt_inv_def pt_get_position_def)
qed

theorem position_limit_holds_witness:
  "\<bar>sint (pt_get_position (rr_validator (run rr_trade
      [RrOrder (1, True, 1000, 5000, 1000) 7 (\<lambda>_. 1), RrOrder (1, True, 1000, 5000, 1000) 7 (\<lambda>_. 2)]
      (rr_new (pt_new 1 (pre_trade_params_default\<lparr>max_position := 6000\<rparr>)) (mc_new 1000 8000)))))\<bar>
     \<le> 6000"
  using position_limit_holds [of "pre_trade_params_default\<lparr>max_position := 6000\<rparr>"]
  by (simp add: sane_params_def pre_trade_params_default_def del: run_simps)

text \<open>
  Orders in flight are not counted: there are a router and two orders such that both are
  routed before either is filled, and after both fills the position is outside its limit,
  because a routed order reserves nothing.
\<close>

lemma in_flight_orders_exceed_limit:
  "\<exists>r x y r1 r2. pt_inv (rr_validator r) \<and>
     rr_validate_and_route 1 r True 1000 5000 1000 = Some (Some x, r1) \<and>
     rr_validate_and_route 1 r1 True 1000 5000 1000 = Some (Some y, r2) \<and>
     sint (max_position (pt_params (rr_validator r2))) <
       sint (pt_get_position (rr_validator
         (rr_confirm_execution (rr_confirm_execution r2 True 5000 0 clk1) True 5000 0 clk2)))"
proof -
  define r where
    "r = rr_new (pt_new 1 (pre_trade_params_default\<lparr>max_position := 6000\<rparr>)) (mc_new 1000 8000)"
  define v where "v = rr_validator r"
  let ?gen = "\<lambda>c l. \<lparr>oig_counter = c, oig_last_id = l, oig_epoch_base = 1\<rparr>"
  define r1 where "r1 = r\<lparr>rr_validator := v\<lparr>pt_order_id_gen := ?gen 1 0x100000000\<rparr>, rr_orders_routed := 1\<rparr>"
  define r2 where "r2 = r1\<lparr>rr_validator := v\<lparr>pt_order_id_gen := ?gen 2 0x100000001\<rparr>, rr_orders_routed := 2\<rparr>"
  have inv: "pt_inv (v\<lparr>pt_order_id_gen := g\<rparr>)" for g
    by (simp add: v_def r_def rr_new_def pt_new_def pt_inv_def sane_params_def
        pre_trade_params_default_def)
  have ok: "fst (pt_validate_order (v\<lparr>pt_order_id_gen := g\<rparr>) True 1000 5000 1000) = Ok" for g
    unfolding pt_validate_order_Ok_iff [OF inv]
    by (simp add: v_def r_def rr_new_def pt_new_def order_within_limits_def
        pre_trade_params_default_def signed_size_def)
  have v0: "v\<lparr>pt_order_id_gen := pt_order_id_gen v\<rparr> = v" by simp
  have gen: "oig_generate 1 (?gen 1 0x100000000) = Some (0x100000001, ?gen 2 0x100000001)"
    "oig_generate 1 (pt_order_id_gen v) = Some (0x100000000, ?gen 1 0x100000000)"
    by (simp_all add: v_def r_def rr_new_def pt_new_def oig_new_def oig_generate_def
        make_order_id_def push_bit_eq_mult Let_def)
  have "rr_validate_and_route 1 r True 1000 5000 1000 = Some (Some 0x100000000, r1)"
    using ok [of "pt_order_id_gen v"] gen(2) v0
    by (simp add: rr_validate_and_route_eq Let_def case_prod_unfold flip: v_def)
      (simp add: r1_def r_def rr_new_def mc_new_def)
  moreover have "rr_validate_and_route 1 r1 True 1000 5000 1000 = Some (Some 0x100000001, r2)"
    using ok [of "?gen 1 0x100000000"] gen(1)
    by (simp add: rr_validate_and_route_eq Let_def case_prod_unfold r1_def)
      (simp add: r2_def r1_def r_def rr_new_def mc_new_def)
  moreover have "sint (max_position (pt_params (rr_validator r2))) <
      sint (pt_get_position (rr_validator
        (rr_confirm_execution (rr_confirm_execution r2 True 5000 0 clk1) True 5000 0 clk2)))"
    by (simp add: r2_def v_def r_def rr_new_def pt_new_def pre_trade_params_default_def
        rr_confirm_execution_def pt_update_position_def pt_get_position_def)
  moreover have "pt_inv (rr_validator r)"
    using inv [of "pt_order_id_gen v"] unfolding v0 by (simp add: v_def)
  ultimately show ?thesis by blast
qed

text \<open>
  A deactivated router refuses every request and counts each refusal, with no other effect
  on its state, until it is activated.
\<close>

lemma deactivated_router_refuses:
  "issue_all rr_call qs (rr_deactivate r)
     = ([], (rr_deactivate r)\<lparr>rr_orders_rejected := rr_orders_rejected r + of_nat (length qs)\<rparr>)"
  using issue_all_inactive [of "rr_deactivate r" qs] by (simp add: rr_deactivate_def)

end
