(* ===== verification/Portfolio_State.thy ===== *)
theory Portfolio_State
  imports Machine
begin

text \<open>
  The exposure totals of the portfolio (\<open>src/src/portfolio/state.rs\<close>): the per-symbol risk
  states that actors contribute and withdraw, the global sums, the limits and the flag that
  says a limit is exceeded.

  The sequential model has one transition per method. The step relation at the end has one
  transition per atomic operation of \<open>aggregate_symbol\<close>, for any number of threads.
\<close>

section \<open>Data\<close>

record SymbolRiskState =
  srs_symbol_hash :: u64
  srs_net_position :: i64
  srs_notional :: u64
  srs_delta :: i64
  srs_gamma :: i64
  srs_unrealized_pnl :: i64
  srs_last_update_ns :: u64

record PortfolioState =
  ps_global_delta :: i64
  ps_global_gamma :: i64
  ps_total_notional :: u64
  ps_total_unrealized_pnl :: i64
  ps_active_symbols :: u64
  ps_max_delta_limit :: i64
  ps_max_gamma_limit :: i64
  ps_max_notional_limit :: u64
  ps_limits_exceeded :: bool
  ps_last_aggregation_ns :: u64

record ExposureSummary =
  es_global_delta :: i64
  es_global_gamma :: i64
  es_total_notional :: u64
  es_total_unrealized_pnl :: i64
  es_active_symbols :: u64
  es_limits_exceeded :: bool
  es_timestamp_ns :: u64

record DeltaUpdateEvent =
  due_symbol_hash :: u64
  due_delta_change :: i64
  due_gamma_change :: i64
  due_notional_change :: u64
  due_pnl_change :: i64
  due_timestamp_ns :: u64

definition srs_new :: "u64 \<Rightarrow> SymbolRiskState" where
  "srs_new h =
     \<lparr>srs_symbol_hash = h, srs_net_position = 0, srs_notional = 0, srs_delta = 0, srs_gamma = 0,
      srs_unrealized_pnl = 0, srs_last_update_ns = 0\<rparr>"

section \<open>Operations\<close>

definition ps_new :: "i64 \<Rightarrow> i64 \<Rightarrow> u64 \<Rightarrow> PortfolioState" where
  "ps_new max_delta max_gamma max_notional =
     \<lparr>ps_global_delta = 0, ps_global_gamma = 0, ps_total_notional = 0,
      ps_total_unrealized_pnl = 0, ps_active_symbols = 0, ps_max_delta_limit = max_delta,
      ps_max_gamma_limit = max_gamma, ps_max_notional_limit = max_notional,
      ps_limits_exceeded = False, ps_last_aggregation_ns = 0\<rparr>"

definition ps_check_limits :: "PortfolioState \<Rightarrow> i64 \<Rightarrow> i64 \<Rightarrow> u64 \<Rightarrow> PortfolioState" where
  "ps_check_limits p delta gamma notional =
     (let exceeded = (ps_max_delta_limit p <s i64_abs delta \<or>
                      ps_max_gamma_limit p <s i64_abs gamma \<or>
                      ps_max_notional_limit p < notional)
      in p\<lparr>ps_limits_exceeded := exceeded\<rparr>)"

definition ps_update_timestamp :: "PortfolioState \<Rightarrow> clock \<Rightarrow> PortfolioState" where
  "ps_update_timestamp p clk = p\<lparr>ps_last_aggregation_ns := clk 0\<rparr>"

definition ps_aggregate_symbol :: "PortfolioState \<Rightarrow> SymbolRiskState \<Rightarrow> clock \<Rightarrow> PortfolioState" where
  "ps_aggregate_symbol p st clk =
     (let old_delta = ps_global_delta p;
          p = p\<lparr>ps_global_delta := old_delta + srs_delta st\<rparr>;
          old_gamma = ps_global_gamma p;
          p = p\<lparr>ps_global_gamma := old_gamma + srs_gamma st\<rparr>;
          old_notional = ps_total_notional p;
          p = p\<lparr>ps_total_notional := old_notional + srs_notional st\<rparr>;
          p = p\<lparr>ps_total_unrealized_pnl := ps_total_unrealized_pnl p + srs_unrealized_pnl st\<rparr>;
          p = ps_check_limits p (old_delta + srs_delta st) (old_gamma + srs_gamma st)
                (old_notional + srs_notional st)
      in ps_update_timestamp p clk)"

text \<open>\<open>check_limits\<close> on the totals read back from the cells.\<close>

definition ps_recheck :: "PortfolioState \<Rightarrow> PortfolioState" where
  "ps_recheck p = ps_check_limits p (ps_global_delta p) (ps_global_gamma p) (ps_total_notional p)"

definition ps_remove_symbol :: "PortfolioState \<Rightarrow> SymbolRiskState \<Rightarrow> PortfolioState" where
  "ps_remove_symbol p st =
     (let p = p\<lparr>ps_global_delta := ps_global_delta p - srs_delta st\<rparr>;
          p = p\<lparr>ps_global_gamma := ps_global_gamma p - srs_gamma st\<rparr>;
          p = p\<lparr>ps_total_notional := ps_total_notional p - srs_notional st\<rparr>;
          p = p\<lparr>ps_total_unrealized_pnl := ps_total_unrealized_pnl p - srs_unrealized_pnl st\<rparr>;
          p = p\<lparr>ps_active_symbols := ps_active_symbols p - 1\<rparr>
      in ps_recheck p)"

definition ps_add_symbol :: "PortfolioState \<Rightarrow> PortfolioState" where
  "ps_add_symbol p = p\<lparr>ps_active_symbols := ps_active_symbols p + 1\<rparr>"

definition ps_set_max_delta_limit :: "PortfolioState \<Rightarrow> i64 \<Rightarrow> PortfolioState" where
  "ps_set_max_delta_limit p l = ps_recheck (p\<lparr>ps_max_delta_limit := l\<rparr>)"

definition ps_set_max_gamma_limit :: "PortfolioState \<Rightarrow> i64 \<Rightarrow> PortfolioState" where
  "ps_set_max_gamma_limit p l = ps_recheck (p\<lparr>ps_max_gamma_limit := l\<rparr>)"

definition ps_set_max_notional_limit :: "PortfolioState \<Rightarrow> u64 \<Rightarrow> PortfolioState" where
  "ps_set_max_notional_limit p l = ps_recheck (p\<lparr>ps_max_notional_limit := l\<rparr>)"

definition ps_get_exposure_summary :: "PortfolioState \<Rightarrow> ExposureSummary" where
  "ps_get_exposure_summary p =
     \<lparr>es_global_delta = ps_global_delta p, es_global_gamma = ps_global_gamma p,
      es_total_notional = ps_total_notional p,
      es_total_unrealized_pnl = ps_total_unrealized_pnl p,
      es_active_symbols = ps_active_symbols p, es_limits_exceeded = ps_limits_exceeded p,
      es_timestamp_ns = ps_last_aggregation_ns p\<rparr>"

definition due_new :: "u64 \<Rightarrow> i64 \<Rightarrow> i64 \<Rightarrow> u64 \<Rightarrow> i64 \<Rightarrow> clock \<Rightarrow> DeltaUpdateEvent" where
  "due_new h delta gamma notional pnl clk =
     \<lparr>due_symbol_hash = h, due_delta_change = delta, due_gamma_change = gamma,
      due_notional_change = notional, due_pnl_change = pnl, due_timestamp_ns = clk 0\<rparr>"

definition due_from_symbol_state :: "SymbolRiskState \<Rightarrow> SymbolRiskState \<Rightarrow> clock \<Rightarrow> DeltaUpdateEvent" where
  "due_from_symbol_state old new clk =
     due_new (srs_symbol_hash new) (srs_delta new - srs_delta old) (srs_gamma new - srs_gamma old)
       (srs_notional new - srs_notional old) (srs_unrealized_pnl new - srs_unrealized_pnl old) clk"

section \<open>Runs of the portfolio\<close>

datatype ps_op =
    PsAggregate SymbolRiskState clock
  | PsRemove SymbolRiskState
  | PsAddSymbol
  | PsSetMaxDelta i64
  | PsSetMaxGamma i64
  | PsSetMaxNotional u64

fun ps_exec :: "ps_op \<Rightarrow> PortfolioState \<Rightarrow> PortfolioState" where
  "ps_exec (PsAggregate st clk) p = ps_aggregate_symbol p st clk"
| "ps_exec (PsRemove st) p = ps_remove_symbol p st"
| "ps_exec PsAddSymbol p = ps_add_symbol p"
| "ps_exec (PsSetMaxDelta l) p = ps_set_max_delta_limit p l"
| "ps_exec (PsSetMaxGamma l) p = ps_set_max_gamma_limit p l"
| "ps_exec (PsSetMaxNotional l) p = ps_set_max_notional_limit p l"

text \<open>
  The abstract portfolio: for a reading \<open>f\<close> of a symbol's state, what the run has
  contributed less what it has withdrawn, as an unbounded integer.
\<close>

fun ps_signed :: "(SymbolRiskState \<Rightarrow> int) \<Rightarrow> ps_op \<Rightarrow> int" where
  "ps_signed f (PsAggregate st clk) = f st"
| "ps_signed f (PsRemove st) = - f st"
| "ps_signed f _ = 0"

definition ps_exposure :: "(SymbolRiskState \<Rightarrow> int) \<Rightarrow> ps_op list \<Rightarrow> int" where
  "ps_exposure f ops = (\<Sum>op\<leftarrow>ops. ps_signed f op)"

lemma ps_exposure_simps [simp]:
  "ps_exposure f [] = 0"
  "ps_exposure f (op # ops) = ps_signed f op + ps_exposure f ops"
  by (simp_all add: ps_exposure_def)

lemmas ps_defs = ps_new_def ps_aggregate_symbol_def ps_remove_symbol_def ps_add_symbol_def
  ps_set_max_delta_limit_def ps_set_max_gamma_limit_def ps_set_max_notional_limit_def
  ps_recheck_def ps_check_limits_def ps_update_timestamp_def Let_def

text \<open>
  The contract of one total: it starts at zero and every operation adds its signed
  contribution, modulo the width of the cell. Its client lemma reads the total exactly.
\<close>

locale exposure_total =
  fixes total :: "PortfolioState \<Rightarrow> 64 word"
    and part :: "SymbolRiskState \<Rightarrow> 64 word"
    and reading :: "64 word \<Rightarrow> int"
  assumes total_new: "total (ps_new d g n) = 0"
    and total_exec: "total (ps_exec op p) = total p + word_of_int (ps_signed (\<lambda>st. reading (part st)) op)"
begin

lemma total_run:
  "total (run ps_exec ops p)
     = total p + word_of_int (ps_exposure (\<lambda>st. reading (part st)) ops)"
  by (induction ops arbitrary: p) (simp_all add: total_exec add.assoc)

lemma total_run_new:
  "total (run ps_exec ops (ps_new d g n)) = word_of_int (ps_exposure (\<lambda>st. reading (part st)) ops)"
  by (simp add: total_run total_new)

end

interpretation ps_delta: exposure_total ps_global_delta srs_delta sint
  by unfold_locales (simp add: ps_defs, case_tac op, simp_all add: ps_defs)

interpretation ps_gamma: exposure_total ps_global_gamma srs_gamma sint
  by unfold_locales (simp add: ps_defs, case_tac op, simp_all add: ps_defs)

interpretation ps_notional: exposure_total ps_total_notional srs_notional uint
  by unfold_locales (simp add: ps_defs, case_tac op, simp_all add: ps_defs)

interpretation ps_pnl: exposure_total ps_total_unrealized_pnl srs_unrealized_pnl sint
  by unfold_locales (simp add: ps_defs, case_tac op, simp_all add: ps_defs)

section \<open>The limits flag\<close>

text \<open>What \<open>check_limits\<close> computes from the totals, and the invariant of the flag.\<close>

definition ps_over_limits :: "PortfolioState \<Rightarrow> int \<Rightarrow> int \<Rightarrow> int \<Rightarrow> bool" where
  "ps_over_limits p delta gamma notional \<longleftrightarrow>
     sint (ps_max_delta_limit p) < \<bar>delta\<bar> \<or> sint (ps_max_gamma_limit p) < \<bar>gamma\<bar> \<or>
     uint (ps_max_notional_limit p) < notional"

definition ps_flag_inv :: "PortfolioState \<Rightarrow> bool" where
  "ps_flag_inv p \<longleftrightarrow> ps_limits_exceeded (ps_recheck p) = ps_limits_exceeded p"

interpretation ps_flag: latched_system ps_exec "\<lambda>op. True" ps_flag_inv
  by unfold_locales (case_tac a; simp add: ps_flag_inv_def ps_defs)

lemma ps_flag_inv_new:
  "0 \<le> sint d \<Longrightarrow> 0 \<le> sint g \<Longrightarrow> ps_flag_inv (ps_new d g n)"
  by (simp add: ps_flag_inv_def ps_defs word_sless_alt sint_i64_abs i64_MIN_def)

lemma ps_recheck_flag:
  assumes "ps_global_delta p \<noteq> i64_MIN" and "ps_global_gamma p \<noteq> i64_MIN"
  shows "ps_limits_exceeded (ps_recheck p) \<longleftrightarrow>
    ps_over_limits p (sint (ps_global_delta p)) (sint (ps_global_gamma p))
      (uint (ps_total_notional p))"
  using assms
  by (simp add: ps_defs ps_over_limits_def word_sless_alt sint_i64_abs word_less_alt)

lemma word_of_int_not_MIN:
  assumes "- (2 ^ 63) < x" and "x < 2 ^ 63"
  shows "(word_of_int x :: i64) \<noteq> i64_MIN"
proof
  assume "(word_of_int x :: i64) = i64_MIN"
  then have "sint (word_of_int x :: i64) = sint i64_MIN" by simp
  with assms show False by (simp add: sint_word_of_int_i64)
qed

section \<open>Interleaved aggregations\<close>

text \<open>
  One thread of actors, at the atomic operation it executes next: the four \<open>fetch_add\<close>s, the
  \<open>store\<close> of \<open>check_limits\<close> and the \<open>store\<close> of the timestamp. The old values returned by the
  \<open>fetch_add\<close>s stay in the thread. The limits are only read here, and no other operation of
  this system writes them, so their loads belong to the step that stores the flag.
\<close>

datatype ps_pc =
    PsIdle
  | PsAtDelta SymbolRiskState
  | PsAtGamma SymbolRiskState i64
  | PsAtNotional SymbolRiskState i64 i64
  | PsAtPnl SymbolRiskState i64 i64 u64
  | PsAtCheck SymbolRiskState i64 i64 u64
  | PsAtStamp

record ps_sys =
  sys_state :: PortfolioState
  sys_threads :: "ps_pc list"
  sys_calls :: "SymbolRiskState list"

definition ps_sys_init :: "nat \<Rightarrow> PortfolioState \<Rightarrow> ps_sys" where
  "ps_sys_init n p = \<lparr>sys_state = p, sys_threads = replicate n PsIdle, sys_calls = []\<rparr>"

text \<open>
  A tick of the scheduler: thread \<open>i\<close> does its next atomic operation. An idle thread calls
  \<open>aggregate_symbol\<close> with the given state; the clock value is used by the timestamp only.
\<close>

datatype ps_tick = PsTick (tick_thread: nat) (tick_state: SymbolRiskState) (tick_now: u64)

fun ps_pc_step :: "SymbolRiskState \<Rightarrow> u64 \<Rightarrow> ps_pc \<Rightarrow> PortfolioState \<Rightarrow> ps_pc \<times> PortfolioState" where
  "ps_pc_step new now PsIdle p = (PsAtDelta new, p)"
| "ps_pc_step new now (PsAtDelta st) p =
     (PsAtGamma st (ps_global_delta p), p\<lparr>ps_global_delta := ps_global_delta p + srs_delta st\<rparr>)"
| "ps_pc_step new now (PsAtGamma st d) p =
     (PsAtNotional st d (ps_global_gamma p),
      p\<lparr>ps_global_gamma := ps_global_gamma p + srs_gamma st\<rparr>)"
| "ps_pc_step new now (PsAtNotional st d g) p =
     (PsAtPnl st d g (ps_total_notional p),
      p\<lparr>ps_total_notional := ps_total_notional p + srs_notional st\<rparr>)"
| "ps_pc_step new now (PsAtPnl st d g n) p =
     (PsAtCheck st d g n,
      p\<lparr>ps_total_unrealized_pnl := ps_total_unrealized_pnl p + srs_unrealized_pnl st\<rparr>)"
| "ps_pc_step new now (PsAtCheck st d g n) p =
     (PsAtStamp, ps_check_limits p (d + srs_delta st) (g + srs_gamma st) (n + srs_notional st))"
| "ps_pc_step new now PsAtStamp p = (PsIdle, p\<lparr>ps_last_aggregation_ns := now\<rparr>)"

fun ps_sys_step :: "ps_tick \<Rightarrow> ps_sys \<Rightarrow> ps_sys" where
  "ps_sys_step (PsTick i new now) s =
     (if i < length (sys_threads s)
      then let (pc, p) = ps_pc_step new now (sys_threads s ! i) (sys_state s)
           in \<lparr>sys_state = p, sys_threads = (sys_threads s)[i := pc],
               sys_calls = (if sys_threads s ! i = PsIdle then sys_calls s @ [new]
                            else sys_calls s)\<rparr>
      else s)"

definition ps_quiet :: "ps_sys \<Rightarrow> bool" where
  "ps_quiet s \<longleftrightarrow> list_all (\<lambda>pc. pc = PsIdle) (sys_threads s)"

text \<open>What a thread still owes to each total.\<close>

fun owes_delta :: "ps_pc \<Rightarrow> i64" where
  "owes_delta (PsAtDelta st) = srs_delta st"
| "owes_delta _ = 0"

fun owes_gamma :: "ps_pc \<Rightarrow> i64" where
  "owes_gamma (PsAtDelta st) = srs_gamma st"
| "owes_gamma (PsAtGamma st d) = srs_gamma st"
| "owes_gamma _ = 0"

fun owes_notional :: "ps_pc \<Rightarrow> u64" where
  "owes_notional (PsAtDelta st) = srs_notional st"
| "owes_notional (PsAtGamma st d) = srs_notional st"
| "owes_notional (PsAtNotional st d g) = srs_notional st"
| "owes_notional _ = 0"

fun owes_pnl :: "ps_pc \<Rightarrow> i64" where
  "owes_pnl (PsAtDelta st) = srs_unrealized_pnl st"
| "owes_pnl (PsAtGamma st d) = srs_unrealized_pnl st"
| "owes_pnl (PsAtNotional st d g) = srs_unrealized_pnl st"
| "owes_pnl (PsAtPnl st d g n) = srs_unrealized_pnl st"
| "owes_pnl _ = 0"

text \<open>
  Debt accounting, for any total: what the cell holds and what the threads owe is what the
  calls so far contribute.
\<close>

locale owed_total =
  fixes total :: "PortfolioState \<Rightarrow> 64 word"
    and part :: "SymbolRiskState \<Rightarrow> 64 word"
    and owes :: "ps_pc \<Rightarrow> 64 word"
  assumes owes_step: "ps_pc_step new now pc p = (pc', p') \<Longrightarrow>
      total p' + owes pc' = total p + owes pc + (if pc = PsIdle then part new else 0)"
    and owes_idle: "owes PsIdle = 0"
begin

definition balanced :: "64 word \<Rightarrow> ps_sys \<Rightarrow> bool" where
  "balanced base s \<longleftrightarrow> total (sys_state s) + (\<Sum>pc\<leftarrow>sys_threads s. owes pc)
     = base + (\<Sum>st\<leftarrow>sys_calls s. part st)"

lemma balanced_init: "balanced (total p) (ps_sys_init n p)"
  by (simp add: balanced_def ps_sys_init_def owes_idle sum_list_replicate)

lemma balanced_step: "balanced base s \<Longrightarrow> balanced base (ps_sys_step t s)"
proof (cases t)
  case (PsTick i new now)
  let ?pc = "sys_threads s ! i"
  obtain pc' p' where step: "ps_pc_step new now ?pc (sys_state s) = (pc', p')"
    by fastforce
  have total: "total p' = total (sys_state s) + owes ?pc + (if ?pc = PsIdle then part new else 0)
      - owes pc'"
    unfolding owes_step [OF step, symmetric] by simp
  assume bal: "balanced base s"
  have thr: "(\<Sum>pc\<leftarrow>sys_threads s. owes pc)
      = base + (\<Sum>st\<leftarrow>sys_calls s. part st) - total (sys_state s)"
    using bal unfolding balanced_def by (metis add_diff_cancel_left')
  show ?thesis
    using bal by (simp add: PsTick balanced_def step sum_list_map_update total thr)
qed

lemma balanced_run: "balanced base s \<Longrightarrow> balanced base (run ps_sys_step ts s)"
  by (induction ts arbitrary: s) (auto intro: balanced_step)

lemma quiet_total:
  assumes "ps_quiet (run ps_sys_step ts (ps_sys_init n p))"
  shows "total (sys_state (run ps_sys_step ts (ps_sys_init n p)))
    = total p + (\<Sum>st\<leftarrow>sys_calls (run ps_sys_step ts (ps_sys_init n p)). part st)"
proof -
  let ?s = "run ps_sys_step ts (ps_sys_init n p)"
  have "(\<Sum>pc\<leftarrow>sys_threads ?s. owes pc) = 0"
    using assms by (intro sum_list_map_zero) (auto simp: ps_quiet_def list_all_iff owes_idle)
  with balanced_run [OF balanced_init [of p n], of ts] show ?thesis
    by (simp add: balanced_def)
qed

end

interpretation owed_delta: owed_total ps_global_delta srs_delta owes_delta
  by unfold_locales ((case_tac pc; auto simp: ps_check_limits_def), simp)

interpretation owed_gamma: owed_total ps_global_gamma srs_gamma owes_gamma
  by unfold_locales ((case_tac pc; auto simp: ps_check_limits_def), simp)

interpretation owed_notional: owed_total ps_total_notional srs_notional owes_notional
  by unfold_locales ((case_tac pc; auto simp: ps_check_limits_def), simp)

interpretation owed_pnl: owed_total ps_total_unrealized_pnl srs_unrealized_pnl owes_pnl
  by unfold_locales ((case_tac pc; auto simp: ps_check_limits_def), simp)

section \<open>Properties\<close>

text \<open>
  The totals are exact. For every sequence of calls from a new portfolio, the
  global delta, gamma, notional and unrealised PnL are the unbounded-integer sums of what was
  aggregated less what was removed, whenever those sums fit the cells; a transient overflow
  on the way does not matter.
\<close>

lemma exposure_exact:
  fixes ops :: "ps_op list"
  defines "D \<equiv> ps_exposure (\<lambda>st. sint (srs_delta st)) ops"
    and "G \<equiv> ps_exposure (\<lambda>st. sint (srs_gamma st)) ops"
    and "N \<equiv> ps_exposure (\<lambda>st. uint (srs_notional st)) ops"
    and "P \<equiv> ps_exposure (\<lambda>st. sint (srs_unrealized_pnl st)) ops"
  assumes "D \<in> {- (2 ^ 63)..<2 ^ 63}" and "G \<in> {- (2 ^ 63)..<2 ^ 63}"
    and "P \<in> {- (2 ^ 63)..<2 ^ 63}" and "N \<in> {0..<2 ^ 64}"
  shows "let s = ps_get_exposure_summary (run ps_exec ops (ps_new d g n))
    in sint (es_global_delta s) = D \<and> sint (es_global_gamma s) = G \<and>
       uint (es_total_notional s) = N \<and> sint (es_total_unrealized_pnl s) = P"
  using assms(5-)
  by (simp add: ps_get_exposure_summary_def ps_delta.total_run_new ps_gamma.total_run_new
      ps_notional.total_run_new ps_pnl.total_run_new sint_word_of_int_i64 uint_word_of_int
      flip: assms(1-4))

text \<open>
  The limits flag is exact. After every sequence of calls from a new portfolio with
  non-negative limits, the flag is set exactly when the exposure of the run is beyond one of
  the limits in force, if the exposures fit the cells and neither delta nor gamma is
  \<open>i64::MIN\<close> (whose absolute value wraps).
\<close>

lemma limits_flag_exact:
  fixes ops :: "ps_op list"
  defines "D \<equiv> ps_exposure (\<lambda>st. sint (srs_delta st)) ops"
    and "G \<equiv> ps_exposure (\<lambda>st. sint (srs_gamma st)) ops"
    and "N \<equiv> ps_exposure (\<lambda>st. uint (srs_notional st)) ops"
  assumes "D \<in> {- (2 ^ 63)<..<2 ^ 63}" and "G \<in> {- (2 ^ 63)<..<2 ^ 63}"
    and "N \<in> {0..<2 ^ 64}" and "0 \<le> sint d" and "0 \<le> sint g"
  shows "ps_limits_exceeded (run ps_exec ops (ps_new d g n))
    \<longleftrightarrow> ps_over_limits (run ps_exec ops (ps_new d g n)) D G N"
proof -
  let ?p = "run ps_exec ops (ps_new d g n)"
  have "ps_flag_inv ?p"
    using assms(7,8) by (intro ps_flag.run_latch ps_flag_inv_new) (simp_all add: list_all_iff)
  then have "ps_limits_exceeded ?p = ps_limits_exceeded (ps_recheck ?p)"
    by (simp add: ps_flag_inv_def)
  also have "\<dots> = ps_over_limits ?p D G N"
    using assms(4-6) word_of_int_not_MIN [of D] word_of_int_not_MIN [of G]
    by (subst ps_recheck_flag) (simp_all add: ps_delta.total_run_new ps_gamma.total_run_new
      ps_notional.total_run_new sint_word_of_int_i64 uint_word_of_int flip: assms(1-3))
  finally show ?thesis .
qed

text \<open>
  C8: Lock-free aggregation loses nothing. For any number of threads and any interleaving of
  the atomic operations of their calls, once all calls have returned the totals are those of
  the calls executed one after the other.
\<close>

theorem interleaved_totals_exact:
  fixes ticks :: "ps_tick list" and n :: nat and p :: PortfolioState and clk :: clock
  defines "s \<equiv> run ps_sys_step ticks (ps_sys_init n p)"
  defines "q \<equiv> run ps_exec (map (\<lambda>st. PsAggregate st clk) (sys_calls s)) p"
  assumes "ps_quiet s"
  shows "ps_global_delta (sys_state s) = ps_global_delta q \<and>
    ps_global_gamma (sys_state s) = ps_global_gamma q \<and>
    ps_total_notional (sys_state s) = ps_total_notional q \<and>
    ps_total_unrealized_pnl (sys_state s) = ps_total_unrealized_pnl q"
proof -
  have sum: "(word_of_int (ps_exposure (\<lambda>st. r (f st)) (map (\<lambda>st. PsAggregate st clk) sts)) :: 64 word)
      = (\<Sum>st\<leftarrow>sts. word_of_int (r (f st)))" for r and f :: "SymbolRiskState \<Rightarrow> 64 word" and sts
    by (simp add: ps_exposure_def word_of_int_sum_list o_def)
  show ?thesis
    using assms(3) unfolding s_def q_def
    by (simp add: owed_delta.quiet_total owed_gamma.quiet_total owed_notional.quiet_total
        owed_pnl.quiet_total ps_delta.total_run ps_gamma.total_run ps_notional.total_run
        ps_pnl.total_run sum)
qed

theorem interleaved_totals_exact_witness:
  "let st = (srs_new 1)\<lparr>srs_delta := 60\<rparr>;
       s = run ps_sys_step (map (\<lambda>i. PsTick i st 0) [0, 1, 0, 1, 1, 1, 1, 1, 1, 0, 0, 0, 0, 0])
             (ps_sys_init 2 (ps_new 100 100 100))
   in ps_quiet s \<and> ps_global_delta (sys_state s) = 120"
  using interleaved_totals_exact
    [of "map (\<lambda>i. PsTick i ((srs_new 1)\<lparr>srs_delta := 60\<rparr>) 0) [0, 1, 0, 1, 1, 1, 1, 1, 1, 0, 0, 0, 0, 0]"
      2 "ps_new 100 100 100" "\<lambda>_. 0"]
  by (simp add: ps_sys_init_def ps_defs srs_new_def ps_quiet_def numeral_2_eq_2)

text \<open>
  The alarm can be lost. Two actors aggregate a delta of 60 each under a delta limit of
  100. There is an interleaving after which both calls have returned, the total is 120 and
  the flag says that no limit is exceeded, because the actor that added first stores its
  verdict last; executed one after the other the same calls raise it.
\<close>

lemma concurrent_alarm_lost:
  "\<exists>ticks. let st = (srs_new 1)\<lparr>srs_delta := 60\<rparr>;
              s = run ps_sys_step ticks (ps_sys_init 2 (ps_new 100 100 100))
          in ps_quiet s \<and> sys_calls s = [st, st] \<and>
             sint (ps_global_delta (sys_state s)) = 120 \<and> \<not> ps_limits_exceeded (sys_state s) \<and>
             ps_limits_exceeded
               (run ps_exec (map (\<lambda>st. PsAggregate st clk) (sys_calls s)) (ps_new 100 100 100))"
  by (rule exI [where x = "map (\<lambda>i. PsTick i ((srs_new 1)\<lparr>srs_delta := 60\<rparr>) 0)
        [0, 0, 1, 1, 1, 1, 1, 1, 1, 0, 0, 0, 0, 0]"])
    (simp add: ps_sys_init_def ps_defs srs_new_def ps_quiet_def numeral_2_eq_2 i64_abs_def
      word_sless_alt)

end
