(* ===== verification/Reconciliation.thy ===== *)
theory Reconciliation
  imports Machine
begin

text \<open>
  Reconciliation of the internal books with the exchange's snapshots
  (\<open>src/src/portfolio/reconciliation.rs\<close>): the comparison, its tolerances and counters, the
  consecutive-failure stop, and the background runner.

  The source compares \<open>(internal.position - exchange.position).abs()\<close>, an \<open>i64\<close>, with
  \<open>max_position_drift as u64\<close>; the model reads the comparison as unsigned, as the cast asks.
\<close>

section \<open>Data\<close>

record ExchangeSnapshot =
  ex_symbol_hash :: u64
  ex_position :: i64
  ex_balance :: u64
  ex_open_orders :: u64
  ex_timestamp_ns :: u64
  ex_sequence :: u64

record InternalSnapshot =
  in_symbol_hash :: u64
  in_position :: i64
  in_balance :: u64
  in_pending_orders :: u64
  in_timestamp_ns :: u64

datatype ReconciliationStatus =
    Matched
  | PositionDrift i64
  | BalanceDrift i64
  | MissingExecution u64
  | ExtraOrder u64
  | TimestampMismatch u64

record ReconciliationEvent =
  rev_symbol_hash :: u64
  rev_status :: ReconciliationStatus
  rev_internal_value :: i64
  rev_exchange_value :: i64
  rev_correction_applied :: bool
  rev_timestamp_ns :: u64

record ReconciliationConfig =
  max_position_drift :: i64
  max_balance_drift :: u64
  snapshot_interval_ms :: u64
  auto_correct :: bool
  alert_on_mismatch :: bool

definition reconciliation_config_default :: ReconciliationConfig where
  "reconciliation_config_default =
     \<lparr>max_position_drift = 1000, max_balance_drift = 100, snapshot_interval_ms = 100,
      auto_correct = True, alert_on_mismatch = True\<rparr>"

record ReconciliationEngine =
  re_is_running :: bool
  re_config :: ReconciliationConfig
  re_total_reconciliations :: u64
  re_mismatches_detected :: u64
  re_corrections_applied :: u64
  re_last_reconciliation_ns :: u64
  re_consecutive_failures :: u64
  re_max_consecutive_failures :: u64

record ReconciliationStats =
  rst_total_reconciliations :: u64
  rst_mismatches_detected :: u64
  rst_corrections_applied :: u64
  rst_consecutive_failures :: u64
  rst_last_reconciliation_ns :: u64

section \<open>Operations\<close>

definition re_new :: "ReconciliationConfig \<Rightarrow> ReconciliationEngine" where
  "re_new config =
     \<lparr>re_is_running = False, re_config = config, re_total_reconciliations = 0,
      re_mismatches_detected = 0, re_corrections_applied = 0, re_last_reconciliation_ns = 0,
      re_consecutive_failures = 0, re_max_consecutive_failures = 5\<rparr>"

text \<open>The return of a mismatch: count it and answer \<open>st\<close>.\<close>

definition re_mismatch ::
    "ReconciliationEngine \<Rightarrow> ReconciliationStatus \<Rightarrow> ReconciliationStatus \<times> ReconciliationEngine" where
  "re_mismatch e st = (st, e\<lparr>re_mismatches_detected := re_mismatches_detected e + 1\<rparr>)"

definition re_reconcile ::
    "ReconciliationEngine \<Rightarrow> InternalSnapshot \<Rightarrow> ExchangeSnapshot \<Rightarrow> clock
     \<Rightarrow> ReconciliationStatus \<times> ReconciliationEngine" where
  "re_reconcile e i x clk =
     (let e = e\<lparr>re_total_reconciliations := re_total_reconciliations e + 1\<rparr>;
          position_diff = i64_abs (in_position i - ex_position x)
      in if max_position_drift (re_config e) < position_diff
         then re_mismatch e (PositionDrift (in_position i - ex_position x))
         else
           let balance_diff = i64_abs (in_balance i - ex_balance x)
           in if max_balance_drift (re_config e) < balance_diff
              then re_mismatch e (BalanceDrift (in_balance i - ex_balance x))
              else if in_pending_orders i \<noteq> ex_open_orders x
              then re_mismatch e (MissingExecution 0)
              else
                let now_ns = clk 0;
                    age_ms = u64_sat_sub now_ns (ex_timestamp_ns x) div 1000000
                in if 1000 < age_ms then (TimestampMismatch age_ms, e)
                   else (Matched, e\<lparr>re_last_reconciliation_ns := now_ns,
                                    re_consecutive_failures := 0\<rparr>))"

definition re_apply_correction ::
    "ReconciliationEngine \<Rightarrow> ReconciliationEvent \<Rightarrow> bool \<times> ReconciliationEngine" where
  "re_apply_correction e ev =
     (let corrected = (True, e\<lparr>re_corrections_applied := re_corrections_applied e + 1\<rparr>)
      in if \<not> auto_correct (re_config e) then (False, e)
         else case rev_status ev of
                PositionDrift drift \<Rightarrow> corrected
              | BalanceDrift drift \<Rightarrow> corrected
              | MissingExecution order_id \<Rightarrow> corrected
              | _ \<Rightarrow> (False, e))"

definition re_start :: "ReconciliationEngine \<Rightarrow> ReconciliationEngine" where
  "re_start e = e\<lparr>re_is_running := True, re_consecutive_failures := 0\<rparr>"

definition re_stop :: "ReconciliationEngine \<Rightarrow> ReconciliationEngine" where
  "re_stop e = e\<lparr>re_is_running := False\<rparr>"

definition re_record_failure :: "ReconciliationEngine \<Rightarrow> u64 \<times> ReconciliationEngine" where
  "re_record_failure e =
     (let failures = re_consecutive_failures e + 1;
          e = e\<lparr>re_consecutive_failures := failures\<rparr>
      in (failures, if re_max_consecutive_failures e \<le> failures then re_stop e else e))"

definition re_get_stats :: "ReconciliationEngine \<Rightarrow> ReconciliationStats" where
  "re_get_stats e =
     \<lparr>rst_total_reconciliations = re_total_reconciliations e,
      rst_mismatches_detected = re_mismatches_detected e,
      rst_corrections_applied = re_corrections_applied e,
      rst_consecutive_failures = re_consecutive_failures e,
      rst_last_reconciliation_ns = re_last_reconciliation_ns e\<rparr>"

definition re_set_max_failures :: "ReconciliationEngine \<Rightarrow> u64 \<Rightarrow> ReconciliationEngine" where
  "re_set_max_failures e m = e\<lparr>re_max_consecutive_failures := m\<rparr>"

section \<open>The background runner\<close>

record ReconciliationRunner =
  rn_engine :: ReconciliationEngine
  rn_shutdown_flag :: bool

definition rn_new :: "ReconciliationEngine \<Rightarrow> ReconciliationRunner" where
  "rn_new e = \<lparr>rn_engine = e, rn_shutdown_flag = False\<rparr>"

definition rn_shutdown :: "ReconciliationRunner \<Rightarrow> ReconciliationRunner" where
  "rn_shutdown r = r\<lparr>rn_shutdown_flag := True\<rparr>"

text \<open>
  The loop of \<open>run\<close>: its body only sleeps, so an iteration is whatever the other threads do
  to the shared engine and flag during it. The list holds their effects, iteration by
  iteration; \<open>None\<close> says that the loop has not been left by the end of the list.
\<close>

fun rn_loop ::
    "(ReconciliationRunner \<Rightarrow> ReconciliationRunner) list \<Rightarrow> ReconciliationRunner
     \<Rightarrow> ReconciliationRunner option" where
  "rn_loop others r =
     (if re_is_running (rn_engine r) \<and> \<not> rn_shutdown_flag r
      then case others of [] \<Rightarrow> None | other # others \<Rightarrow> rn_loop others (other r)
      else Some r)"

declare rn_loop.simps [simp del]

definition rn_run ::
    "(ReconciliationRunner \<Rightarrow> ReconciliationRunner) list \<Rightarrow> ReconciliationRunner
     \<Rightarrow> ReconciliationRunner option" where
  "rn_run others r = rn_loop others (r\<lparr>rn_shutdown_flag := False\<rparr>)"

section \<open>What the comparison means\<close>

text \<open>The books agree within the tolerances of the configuration, over the integers.\<close>

definition books_agree :: "ReconciliationConfig \<Rightarrow> InternalSnapshot \<Rightarrow> ExchangeSnapshot \<Rightarrow> bool" where
  "books_agree c i x \<longleftrightarrow>
     \<bar>sint (in_position i) - sint (ex_position x)\<bar> \<le> sint (max_position_drift c) \<and>
     \<bar>uint (in_balance i) - uint (ex_balance x)\<bar> \<le> uint (max_balance_drift c) \<and>
     in_pending_orders i = ex_open_orders x"

text \<open>The differences of position and balance fit an \<open>i64\<close>, and the tolerance is not negative.\<close>

definition comparable :: "ReconciliationConfig \<Rightarrow> InternalSnapshot \<Rightarrow> ExchangeSnapshot \<Rightarrow> bool" where
  "comparable c i x \<longleftrightarrow>
     \<bar>sint (in_position i) - sint (ex_position x)\<bar> < 2 ^ 63 \<and>
     \<bar>uint (in_balance i) - uint (ex_balance x)\<bar> < 2 ^ 63 \<and> 0 \<le> sint (max_position_drift c)"

lemma uint_i64_abs: "uint (i64_abs a) = \<bar>sint a\<bar>"
  using unat_i64_unsigned_abs [of a] by (simp add: i64_abs_def i64_unsigned_abs_def)

lemma sint_diff_u64:
  assumes "\<bar>uint (a :: u64) - uint b\<bar> < 2 ^ 63"
  shows "sint (a - b) = uint a - uint b"
proof -
  have "a - b = word_of_int (uint a - uint b)" by simp
  then show ?thesis
    using assms sint_word_of_int_i64 [of "uint a - uint b"] by simp
qed

lemma position_check:
  assumes "comparable c i x"
  shows "max_position_drift c < i64_abs (in_position i - ex_position x)
    \<longleftrightarrow> sint (max_position_drift c) < \<bar>sint (in_position i) - sint (ex_position x)\<bar>"
proof -
  have "sint (in_position i - ex_position x) = sint (in_position i) - sint (ex_position x)"
    using assms by (intro sint_sub_i64) (auto simp: comparable_def)
  moreover have "uint (max_position_drift c) = sint (max_position_drift c)"
    using assms unat_eq_sint [of "max_position_drift c"] by (simp add: comparable_def)
  ultimately show ?thesis by (simp add: word_less_alt uint_i64_abs)
qed

lemma balance_check:
  assumes "comparable c i x"
  shows "max_balance_drift c < i64_abs (in_balance i - ex_balance x)
    \<longleftrightarrow> uint (max_balance_drift c) < \<bar>uint (in_balance i) - uint (ex_balance x)\<bar>"
  using assms sint_diff_u64 [of "in_balance i" "ex_balance x"]
  by (simp add: comparable_def word_less_alt uint_i64_abs)

lemma age_check:
  "1000 < u64_sat_sub now t div 1000000 \<longleftrightarrow> uint t + 1001000000 \<le> uint now"
proof -
  have "unat (u64_sat_sub now t div 1000000) = (unat now - unat t) div 1000000"
    by (simp add: unat_div unat_u64_sat_sub)
  then have "1000 < u64_sat_sub now t div 1000000 \<longleftrightarrow> unat t + 1001000000 \<le> unat now"
    by (simp add: word_less_nat_alt) linarith
  then show ?thesis by (simp add: uint_nat del: of_nat_unat) linarith
qed

section \<open>Runs of the engine\<close>

datatype re_op =
    ReReconcile InternalSnapshot ExchangeSnapshot clock
  | ReCorrect ReconciliationEvent
  | ReFailure
  | ReSetMaxFailures u64
  | ReStop

fun re_exec :: "re_op \<Rightarrow> ReconciliationEngine \<Rightarrow> ReconciliationEngine" where
  "re_exec (ReReconcile i x clk) e = snd (re_reconcile e i x clk)"
| "re_exec (ReCorrect ev) e = snd (re_apply_correction e ev)"
| "re_exec ReFailure e = snd (re_record_failure e)"
| "re_exec (ReSetMaxFailures m) e = re_set_max_failures e m"
| "re_exec ReStop e = re_stop e"

lemmas re_defs = re_reconcile_def re_apply_correction_def re_record_failure_def
  re_set_max_failures_def re_start_def re_stop_def re_mismatch_def Let_def

text \<open>A stopped engine stays stopped, whatever is called but \<open>start\<close>.\<close>

interpretation re_stopped: latched_system re_exec "\<lambda>op. True" "\<lambda>e. \<not> re_is_running e"
  by unfold_locales
    (case_tac a; auto simp: re_defs split: ReconciliationStatus.split)

lemma run_failures:
  assumes "re_is_running e"
  shows "re_is_running (run re_exec (replicate n ReFailure) e)
    \<longleftrightarrow> (\<forall>k \<in> {1..n}. re_consecutive_failures e + of_nat k < re_max_consecutive_failures e)"
  using assms
proof (induction n arbitrary: e)
  case 0
  then show ?case by simp
next
  case (Suc n)
  have split: "(\<forall>k \<in> {1..Suc n}. P k) \<longleftrightarrow> P 1 \<and> (\<forall>k \<in> {1..n}. P (Suc k))" for P :: "nat \<Rightarrow> bool"
    by (auto simp: Ball_def) (metis Suc_le_D Suc_le_mono not_less_eq_eq One_nat_def le_zero_eq)
  let ?e = "re_exec ReFailure e"
  show ?case
  proof (cases "re_consecutive_failures e + 1 < re_max_consecutive_failures e")
    case True
    then have "re_is_running ?e" using Suc.prems by (simp add: re_defs)
    from Suc.IH [OF this] True show ?thesis
      unfolding split by (simp add: re_defs add.assoc)
  next
    case False
    then have "\<not> re_is_running ?e" by (simp add: re_defs not_less)
    then have "\<not> re_is_running (run re_exec (replicate n ReFailure) ?e)"
      by (intro re_stopped.run_latch) (simp_all add: list_all_iff)
    with False show ?thesis unfolding split by simp
  qed
qed

lemma rn_loop_shutdown: "rn_loop (others @ rn_shutdown # rest) r \<noteq> None"
proof (induction others arbitrary: r)
  case Nil
  show ?case
    by (simp add: rn_loop.simps [of "rn_shutdown # rest"] rn_loop.simps [of rest "rn_shutdown r"])
      (simp add: rn_shutdown_def)
next
  case (Cons a others)
  then show ?case by (simp add: rn_loop.simps [of "a # others @ rn_shutdown # rest"])
qed

section \<open>Properties\<close>

text \<open>
  Reconciliation is exact. When the differences fit an \<open>i64\<close>, the verdict is \<open>Matched\<close>
  exactly when positions and balances agree within the tolerances, the order counts are
  equal and the snapshot is less than 1.001 seconds old; and the mismatch counter moves
  exactly when the books disagree, so a stale snapshot is not counted.
\<close>

lemma reconcile_exact:
  assumes "comparable (re_config e) i x"
  shows "(fst (re_reconcile e i x clk) = Matched \<longleftrightarrow>
      books_agree (re_config e) i x \<and> uint (clk 0) < uint (ex_timestamp_ns x) + 1001000000) \<and>
    re_mismatches_detected (snd (re_reconcile e i x clk)) =
      re_mismatches_detected e + (if books_agree (re_config e) i x then 0 else 1)"
  using position_check [OF assms] balance_check [OF assms]
    age_check [of "clk 0" "ex_timestamp_ns x"]
  by (simp add: re_reconcile_def re_mismatch_def books_agree_def Let_def not_less not_le)

text \<open>
  The failure limit. From a started engine, \<open>n\<close> failures in a row stop it exactly when
  \<open>n\<close> reaches the limit (at the latest with the first failure when the limit is zero).
\<close>

lemma failures_stop_engine:
  assumes "n < 2 ^ 64"
  shows "re_is_running (run re_exec (replicate n ReFailure) (re_start e))
    \<longleftrightarrow> n = 0 \<or> n < unat (re_max_consecutive_failures e)"
proof -
  have "(\<forall>k \<in> {1..n}. (of_nat k :: u64) < m) \<longleftrightarrow> n = 0 \<or> n < unat m" for m :: u64
  proof -
    have "(of_nat k :: u64) < m \<longleftrightarrow> k < unat m" if "k \<le> n" for k
      using that assms by (simp add: word_less_nat_alt unat_of_nat take_bit_nat_eq_self)
    then show ?thesis by auto
  qed
  then show ?thesis by (subst run_failures) (simp_all add: re_start_def)
qed

text \<open>
  The runner ends when it is told to, and only then: a shutdown during any iteration ends
  the loop, whatever the other threads do before and after, and a shutdown signalled before
  the runner starts has no effect, since \<open>run\<close> clears the flag first.
\<close>

lemma runner_shutdown:
  "rn_run (others @ rn_shutdown # rest) r \<noteq> None \<and>
   rn_run others (rn_shutdown r) = rn_run others r"
  by (simp add: rn_run_def rn_loop_shutdown) (simp add: rn_shutdown_def)

end
