(* ===== verification/Portfolio_Manager.thy ===== *)
theory Portfolio_Manager
  imports Portfolio_State Reconciliation "HOL-Library.AList"
begin

text \<open>
  The portfolio manager and order netting (\<open>src/src/portfolio/mod.rs\<close>): the manager composes
  the exposure totals with the reconciliation engine and decides when to hedge; \<open>net_orders\<close>
  nets a batch of pending orders per symbol.
\<close>

section \<open>The manager\<close>

record PortfolioManager =
  pm_state :: PortfolioState
  pm_reconciliation :: ReconciliationEngine
  pm_netting_enabled :: bool
  pm_auto_hedge_enabled :: bool
  pm_hedge_threshold_bps :: u64

definition pm_new :: "i64 \<Rightarrow> i64 \<Rightarrow> u64 \<Rightarrow> ReconciliationConfig \<Rightarrow> PortfolioManager" where
  "pm_new max_delta max_gamma max_notional config =
     \<lparr>pm_state = ps_new max_delta max_gamma max_notional, pm_reconciliation = re_new config,
      pm_netting_enabled = True, pm_auto_hedge_enabled = False, pm_hedge_threshold_bps = 5000\<rparr>"

definition pm_aggregate_symbol :: "PortfolioManager \<Rightarrow> SymbolRiskState \<Rightarrow> clock \<Rightarrow> PortfolioManager" where
  "pm_aggregate_symbol m st clk = m\<lparr>pm_state := ps_aggregate_symbol (pm_state m) st clk\<rparr>"

definition pm_is_within_limits :: "PortfolioManager \<Rightarrow> bool" where
  "pm_is_within_limits m = (\<not> ps_limits_exceeded (pm_state m))"

definition pm_get_exposure :: "PortfolioManager \<Rightarrow> ExposureSummary" where
  "pm_get_exposure m = ps_get_exposure_summary (pm_state m)"

definition pm_should_hedge :: "PortfolioManager \<Rightarrow> bool" where
  "pm_should_hedge m =
     (if \<not> pm_auto_hedge_enabled m then False
      else let delta = i64_abs (ps_global_delta (pm_state m));
               threshold = pm_hedge_threshold_bps m
           in i64_div (threshold * 1000000) 10000 <s delta)"

definition pm_reconcile ::
    "PortfolioManager \<Rightarrow> InternalSnapshot \<Rightarrow> ExchangeSnapshot \<Rightarrow> clock
     \<Rightarrow> ReconciliationStatus \<times> PortfolioManager" where
  "pm_reconcile m i x clk =
     (let (st, e) = re_reconcile (pm_reconciliation m) i x clk
      in (st, m\<lparr>pm_reconciliation := e\<rparr>))"

definition pm_enable_netting :: "PortfolioManager \<Rightarrow> PortfolioManager" where
  "pm_enable_netting m = m\<lparr>pm_netting_enabled := True\<rparr>"

definition pm_disable_netting :: "PortfolioManager \<Rightarrow> PortfolioManager" where
  "pm_disable_netting m = m\<lparr>pm_netting_enabled := False\<rparr>"

definition pm_enable_auto_hedge :: "PortfolioManager \<Rightarrow> PortfolioManager" where
  "pm_enable_auto_hedge m = m\<lparr>pm_auto_hedge_enabled := True\<rparr>"

definition pm_disable_auto_hedge :: "PortfolioManager \<Rightarrow> PortfolioManager" where
  "pm_disable_auto_hedge m = m\<lparr>pm_auto_hedge_enabled := False\<rparr>"

definition pm_set_hedge_threshold_bps :: "PortfolioManager \<Rightarrow> u64 \<Rightarrow> PortfolioManager" where
  "pm_set_hedge_threshold_bps m t = m\<lparr>pm_hedge_threshold_bps := t\<rparr>"

definition pm_start_reconciliation :: "PortfolioManager \<Rightarrow> PortfolioManager" where
  "pm_start_reconciliation m = m\<lparr>pm_reconciliation := re_start (pm_reconciliation m)\<rparr>"

definition pm_stop_reconciliation :: "PortfolioManager \<Rightarrow> PortfolioManager" where
  "pm_stop_reconciliation m = m\<lparr>pm_reconciliation := re_stop (pm_reconciliation m)\<rparr>"

definition pm_is_healthy :: "PortfolioManager \<Rightarrow> bool" where
  "pm_is_healthy m = (pm_is_within_limits m \<and> re_is_running (pm_reconciliation m))"

section \<open>Netting\<close>

record NettingResult =
  nr_symbol_hash :: u64
  nr_net_quantity :: i64
  nr_order_count :: u64
  nr_avg_price :: u64

record PendingOrder =
  po_symbol_hash :: u64
  po_side :: bool
  po_quantity :: u64
  po_price :: u64
  po_order_id :: u64
  po_timestamp_ns :: u64

definition po_new :: "u64 \<Rightarrow> bool \<Rightarrow> u64 \<Rightarrow> u64 \<Rightarrow> u64 \<Rightarrow> clock \<Rightarrow> PendingOrder" where
  "po_new h side quantity price order_id clk =
     \<lparr>po_symbol_hash = h, po_side = side, po_quantity = quantity, po_price = price,
      po_order_id = order_id, po_timestamp_ns = clk 0\<rparr>"

text \<open>
  The hash map of \<open>net_orders\<close> as an association list: per symbol the net quantity, the total
  value and the number of orders. One order updates the entry of its symbol.
\<close>

definition net_qty_signed :: "PendingOrder \<Rightarrow> i64" where
  "net_qty_signed ord = (if po_side ord then po_quantity ord else - po_quantity ord)"

definition net_step ::
    "PendingOrder \<Rightarrow> (u64 \<times> i64 \<times> u64 \<times> u64) list \<Rightarrow> (u64 \<times> i64 \<times> u64 \<times> u64) list" where
  "net_step ord net_map =
     (let (net_qty, total_value, count) =
            (case map_of net_map (po_symbol_hash ord) of Some entry \<Rightarrow> entry | None \<Rightarrow> (0, 0, 0))
      in AList.update (po_symbol_hash ord)
           (net_qty + net_qty_signed ord, total_value + po_quantity ord * po_price ord, count + 1)
           net_map)"

fun net_result :: "u64 \<times> i64 \<times> u64 \<times> u64 \<Rightarrow> NettingResult" where
  "net_result (h, net_qty, total_value, count) =
     (let avg_price = (if net_qty \<noteq> 0 then total_value div i64_unsigned_abs net_qty else 0)
      in \<lparr>nr_symbol_hash = h, nr_net_quantity = net_qty, nr_order_count = count,
          nr_avg_price = avg_price\<rparr>)"

text \<open>
  The vector has the iteration order of the hash map, which Rust leaves unspecified; the model
  has the order of first appearance, and the theorems speak of the elements only.
\<close>

definition net_orders :: "PendingOrder list \<Rightarrow> NettingResult list" where
  "net_orders orders = map net_result (fold net_step orders [])"

section \<open>What netting means\<close>

text \<open>The netting of the orders of one symbol, as sums.\<close>

definition netting_of :: "u64 \<Rightarrow> PendingOrder list \<Rightarrow> NettingResult" where
  "netting_of h orders =
     (let net = (\<Sum>ord\<leftarrow>orders. net_qty_signed ord)
      in \<lparr>nr_symbol_hash = h, nr_net_quantity = net, nr_order_count = of_nat (length orders),
          nr_avg_price = (if net = 0 then 0
             else (\<Sum>ord\<leftarrow>orders. po_quantity ord * po_price ord) div i64_unsigned_abs net)\<rparr>)"

abbreviation orders_of :: "u64 \<Rightarrow> PendingOrder list \<Rightarrow> PendingOrder list" where
  "orders_of h orders \<equiv> filter (\<lambda>ord. po_symbol_hash ord = h) orders"

definition net_entry :: "PendingOrder list \<Rightarrow> i64 \<times> u64 \<times> u64" where
  "net_entry orders = ((\<Sum>ord\<leftarrow>orders. net_qty_signed ord),
     (\<Sum>ord\<leftarrow>orders. po_quantity ord * po_price ord), of_nat (length orders))"

lemma map_of_net_step:
  assumes "\<And>h. map_of m h = (if h \<in> po_symbol_hash ` set pre then Some (net_entry (orders_of h pre)) else None)"
  shows "map_of (net_step ord m) h =
    (if h \<in> po_symbol_hash ` set (pre @ [ord]) then Some (net_entry (orders_of h (pre @ [ord]))) else None)"
proof -
  have "orders_of (po_symbol_hash ord) pre = []" if "po_symbol_hash ord \<notin> po_symbol_hash ` set pre"
    using that unfolding filter_empty_conv by (metis image_eqI)
  then show ?thesis
    using assms by (auto simp: net_step_def net_entry_def update_conv' Let_def algebra_simps)
qed

lemma map_of_fold_net_step:
  "map_of (fold net_step orders []) h =
    (if h \<in> po_symbol_hash ` set orders then Some (net_entry (orders_of h orders)) else None)"
proof (induction orders arbitrary: h rule: rev_induct)
  case Nil
  then show ?case by simp
next
  case (snoc ord orders)
  then show ?case using map_of_net_step [of "fold net_step orders []" orders] by simp
qed

lemma distinct_fold_net_step: "distinct (map fst (fold net_step orders []))"
proof (induction orders rule: rev_induct)
  case Nil
  then show ?case by simp
next
  case (snoc ord orders)
  then show ?case by (simp add: net_step_def Let_def case_prod_unfold distinct_update)
qed

lemma net_result_entry: "net_result (h, net_entry orders) = netting_of h orders"
  by (simp add: net_entry_def netting_of_def Let_def)

lemma set_fold_net_step:
  "set (fold net_step orders []) =
     (\<lambda>h. (h, net_entry (orders_of h orders))) ` po_symbol_hash ` set orders"
proof (intro set_eqI)
  fix e :: "u64 \<times> i64 \<times> u64 \<times> u64"
  have "e \<in> set (fold net_step orders []) \<longleftrightarrow>
      map_of (fold net_step orders []) (fst e) = Some (snd e)"
    using distinct_fold_net_step by simp
  also have "\<dots> \<longleftrightarrow> e \<in> (\<lambda>h. (h, net_entry (orders_of h orders))) ` po_symbol_hash ` set orders"
    by (cases e) (auto simp: map_of_fold_net_step)
  finally show "e \<in> set (fold net_step orders []) \<longleftrightarrow>
      e \<in> (\<lambda>h. (h, net_entry (orders_of h orders))) ` po_symbol_hash ` set orders" .
qed

lemma map_nr_symbol_hash: "map nr_symbol_hash (net_orders orders) = map fst (fold net_step orders [])"
  by (auto simp: net_orders_def Let_def)

section \<open>Properties\<close>

text \<open>
  Netting is complete and exact. There is one result per symbol of the batch, no symbol
  twice, and it carries the signed sum of the symbol's quantities and the number of its
  orders (modulo the width of the cells); its average price is the total traded value
  divided by the net quantity.
\<close>

lemma netting_exact:
  "set (net_orders orders) = (\<lambda>h. netting_of h (orders_of h orders)) ` po_symbol_hash ` set orders \<and>
   distinct (map nr_symbol_hash (net_orders orders))"
  unfolding map_nr_symbol_hash
  by (simp add: distinct_fold_net_step net_orders_def set_fold_net_step image_image net_result_entry)

text \<open>
  The average price is not an average when orders offset. For a buy of \<open>a\<close> and a sell of
  \<open>b < a\<close> of one symbol, both at price \<open>p\<close>, the reported average is \<open>p (a + b) div (a - b)\<close>,
  above the only price in the batch as soon as \<open>a - b \<le> 2 p b\<close>.
\<close>

lemma offsetting_average_overshoots:
  fixes a b p h :: u64 and clk :: clock
  defines "orders \<equiv> [po_new h True a p 1 clk, po_new h False b p 2 clk]"
  assumes "b < a" and "unat a < 2 ^ 63" and "unat p * (unat a + unat b) < 2 ^ 64"
  shows "\<exists>r. net_orders orders = [r] \<and> nr_net_quantity r = a - b \<and>
     unat (nr_avg_price r) = unat p * (unat a + unat b) div (unat a - unat b) \<and>
     (unat a - unat b \<le> 2 * unat p * unat b \<longrightarrow> p < nr_avg_price r)"
proof -
  let ?avg = "(a * p + b * p) div (a - b)"
  have diff: "unat (a - b) = unat a - unat b" "0 < unat a - unat b" "unat (a - b) < 2 ^ 63"
    using assms(2,3) unat_sub_u64 [of b a] by (auto simp: word_less_nat_alt word_le_nat_alt)
  have "0 \<le> sint (a - b)" unfolding sint_eq_unat [OF diff(3)] by simp
  then have abs: "i64_unsigned_abs (a - b) = a - b"
    by (simp only: i64_unsigned_abs_def not_less [symmetric] if_False)
  have "unat (a * p + b * p) = unat (p * (a + b))" by (simp add: algebra_simps)
  also have "\<dots> = unat p * (unat a + unat b) mod 2 ^ 64"
    by (simp add: unat_word_ariths mod_mult_right_eq)
  also have "\<dots> = unat p * (unat a + unat b)" using assms(4) by simp
  finally have avg: "unat ?avg = unat p * (unat a + unat b) div (unat a - unat b)"
    by (simp add: unat_div diff)
  have "p < ?avg" if "unat a - unat b \<le> 2 * unat p * unat b"
  proof -
    have "unat p * (unat a + unat b) = unat p * (unat a - unat b) + 2 * unat p * unat b"
      using diff(2) by (simp add: diff_mult_distrib2 algebra_simps)
    then have "(unat p + 1) * (unat a - unat b) \<le> unat p * (unat a + unat b)"
      using that by (simp add: algebra_simps)
    then show ?thesis
      using diff(2) by (simp add: word_less_nat_alt avg less_eq_div_iff_mult_less_eq Suc_le_eq [symmetric])
  qed
  moreover have "net_orders orders = [\<lparr>nr_symbol_hash = h, nr_net_quantity = a - b, nr_order_count = 2,
      nr_avg_price = ?avg\<rparr>]"
    using assms(2) by (simp add: orders_def po_new_def net_orders_def net_step_def net_qty_signed_def abs)
  ultimately show ?thesis using avg by simp
qed

text \<open>
  When to hedge. With auto-hedging on, a threshold small enough not to overflow and a
  global delta other than \<open>i64::MIN\<close>, a hedge is due exactly when the absolute delta is above
  100 times the threshold: an absolute amount, whatever the delta limit is.
\<close>

lemma hedge_trigger_exact:
  assumes "pm_auto_hedge_enabled m" and "unat (pm_hedge_threshold_bps m) * 1000000 < 2 ^ 63"
    and "ps_global_delta (pm_state m) \<noteq> i64_MIN"
  shows "pm_should_hedge m \<longleftrightarrow>
    100 * uint (pm_hedge_threshold_bps m) < \<bar>sint (ps_global_delta (pm_state m))\<bar>"
proof -
  let ?t = "pm_hedge_threshold_bps m"
  have "unat (?t * 1000000) = unat ?t * 1000000"
    using assms(2) by (subst unat_mult_u64) simp_all
  then have t: "sint (?t * 1000000) = int (unat ?t * 1000000)"
    using assms(2) sint_eq_unat [of "?t * 1000000"] by simp
  have "i64_div (?t * 1000000) 10000 = word_of_int (100 * uint ?t)"
  proof (cases "?t = 0")
    case False
    then have "0 < uint ?t" by (metis uint_0_iff uint_ge_0 order_le_less)
    then show ?thesis by (simp add: i64_div_def t)
  qed (simp add: i64_div_def)
  moreover have "sint (word_of_int (100 * uint ?t) :: i64) = 100 * uint ?t"
  proof (intro sint_word_of_int_i64)
    have "int (unat ?t * 1000000) < 2 ^ 63"
      using assms(2) by (metis of_nat_less_iff of_nat_numeral of_nat_power)
    then show "100 * uint ?t < 2 ^ 63" by simp
    show "- (2 ^ 63) \<le> 100 * uint ?t" by (rule order_trans [of _ 0]) simp_all
  qed
  ultimately show ?thesis
    using assms(1,3) by (simp add: pm_should_hedge_def word_sless_alt sint_i64_abs Let_def)
qed

end
