(* ===== verification/Self_Trade.thy ===== *)
theory Self_Trade
  imports Machine
begin

text \<open>
  Self-trade prevention (\<open>src/src/compliance/stp.rs\<close>): per symbol, the resting orders of the
  bot grouped by STP group and side, the check of an aggressive order against them, the
  engine that keeps one such state per symbol, and the STP tags of outbound orders.

  The hash maps are HOL maps, the vectors lists. A symbol is its array of twelve bytes. The
  type \<open>VenueId\<close> is not defined in the repository; the engine is polymorphic in it.
\<close>

section \<open>Data\<close>

datatype StpAction = CancelAggressive | CancelMaker | CancelBoth | Allow

datatype StpGroupId = StpGroupId (stp_value: u32)

definition stp_generate :: "u32 \<Rightarrow> u32 \<Rightarrow> StpGroupId" where
  "stp_generate strategy_id symbol_hash = StpGroupId (strategy_id * 31 + symbol_hash)"

datatype OrderSide = Buy | Sell

type_synonym symbol = "u8 list"

record RestingOrder =
  ro_order_id :: u64
  ro_symbol :: symbol
  ro_side :: OrderSide
  ro_price_ticks :: i64
  ro_quantity :: u64
  ro_stp_group_id :: StpGroupId
  ro_timestamp_ns :: u64

record AggressiveOrder =
  ao_symbol :: symbol
  ao_side :: OrderSide
  ao_price_ticks :: i64
  ao_quantity :: u64
  ao_stp_group_id :: StpGroupId
  ao_is_market :: bool

datatype StpCheckResult =
    Pass
  | Conflict StpAction "u64 list"
  | Reject string

record SymbolStpState =
  sts_symbol :: symbol
  sts_buy_orders_by_group :: "StpGroupId \<rightharpoonup> RestingOrder list"
  sts_sell_orders_by_group :: "StpGroupId \<rightharpoonup> RestingOrder list"
  sts_orders_by_id :: "u64 \<rightharpoonup> RestingOrder"
  sts_best_bid_by_group :: "StpGroupId \<rightharpoonup> i64"
  sts_best_offer_by_group :: "StpGroupId \<rightharpoonup> i64"

section \<open>One symbol\<close>

definition sts_new :: "symbol \<Rightarrow> SymbolStpState" where
  "sts_new symb =
     \<lparr>sts_symbol = symb, sts_buy_orders_by_group = Map.empty, sts_sell_orders_by_group = Map.empty,
      sts_orders_by_id = Map.empty, sts_best_bid_by_group = Map.empty,
      sts_best_offer_by_group = Map.empty\<rparr>"

text \<open>\<open>max\<close> and \<open>min\<close> of two \<open>i64\<close>, and of a list of them.\<close>

definition i64_max :: "i64 \<Rightarrow> i64 \<Rightarrow> i64" where
  "i64_max a b = (if a \<le>s b then b else a)"

definition i64_min :: "i64 \<Rightarrow> i64 \<Rightarrow> i64" where
  "i64_min a b = (if a \<le>s b then a else b)"

fun iter_max :: "i64 list \<Rightarrow> i64 option" where
  "iter_max [] = None"
| "iter_max (x # xs) = Some (fold (\<lambda>y m. i64_max m y) xs x)"

fun iter_min :: "i64 list \<Rightarrow> i64 option" where
  "iter_min [] = None"
| "iter_min (x # xs) = Some (fold (\<lambda>y m. i64_min m y) xs x)"

text \<open>\<open>map.entry(group).or_default().push(order)\<close>.\<close>

definition push_order ::
    "RestingOrder \<Rightarrow> (StpGroupId \<rightharpoonup> RestingOrder list) \<Rightarrow> (StpGroupId \<rightharpoonup> RestingOrder list)" where
  "push_order ord m =
     m(ro_stp_group_id ord \<mapsto>
         (case m (ro_stp_group_id ord) of Some os \<Rightarrow> os | None \<Rightarrow> []) @ [ord])"

definition sts_add_order :: "SymbolStpState \<Rightarrow> RestingOrder \<Rightarrow> SymbolStpState" where
  "sts_add_order st ord =
     (let st = (case ro_side ord of
                  Buy \<Rightarrow> st\<lparr>sts_buy_orders_by_group := push_order ord (sts_buy_orders_by_group st)\<rparr>
                | Sell \<Rightarrow> st\<lparr>sts_sell_orders_by_group := push_order ord (sts_sell_orders_by_group st)\<rparr>);
          st = st\<lparr>sts_orders_by_id := (sts_orders_by_id st)(ro_order_id ord \<mapsto> ord)\<rparr>;
          g = ro_stp_group_id ord
      in case ro_side ord of
           Buy \<Rightarrow>
             let best_bid = (case sts_best_bid_by_group st g of Some b \<Rightarrow> b | None \<Rightarrow> i64_MIN)
             in st\<lparr>sts_best_bid_by_group :=
                   (sts_best_bid_by_group st)(g \<mapsto> i64_max best_bid (ro_price_ticks ord))\<rparr>
         | Sell \<Rightarrow>
             let best_offer = (case sts_best_offer_by_group st g of Some b \<Rightarrow> b | None \<Rightarrow> i64_MAX)
             in st\<lparr>sts_best_offer_by_group :=
                   (sts_best_offer_by_group st)(g \<mapsto> i64_min best_offer (ro_price_ticks ord))\<rparr>)"

text \<open>The two loops over the groups insert a price for each group that has orders.\<close>

definition sts_recalculate_best_prices :: "SymbolStpState \<Rightarrow> SymbolStpState" where
  "sts_recalculate_best_prices st =
     st\<lparr>sts_best_bid_by_group := (\<lambda>g.
          case Option.bind (sts_buy_orders_by_group st g) (\<lambda>os. iter_max (map ro_price_ticks os)) of
            Some max_price \<Rightarrow> Some max_price | None \<Rightarrow> sts_best_bid_by_group st g),
        sts_best_offer_by_group := (\<lambda>g.
          case Option.bind (sts_sell_orders_by_group st g) (\<lambda>os. iter_min (map ro_price_ticks os)) of
            Some min_price \<Rightarrow> Some min_price | None \<Rightarrow> sts_best_offer_by_group st g)\<rparr>"

text \<open>\<open>retain\<close> in the group of the order, and removal of the group when it is empty.\<close>

definition drop_order ::
    "RestingOrder \<Rightarrow> u64 \<Rightarrow> (StpGroupId \<rightharpoonup> RestingOrder list) \<Rightarrow> (StpGroupId \<rightharpoonup> RestingOrder list)" where
  "drop_order ord x m =
     (case m (ro_stp_group_id ord) of
        Some os \<Rightarrow>
          let os = filter (\<lambda>r. ro_order_id r \<noteq> x) os
          in if os = [] then m(ro_stp_group_id ord := None) else m(ro_stp_group_id ord \<mapsto> os)
      | None \<Rightarrow> m)"

definition sts_remove_order :: "SymbolStpState \<Rightarrow> u64 \<Rightarrow> RestingOrder option \<times> SymbolStpState" where
  "sts_remove_order st x =
     (case sts_orders_by_id st x of
        Some ord \<Rightarrow>
          let st = st\<lparr>sts_orders_by_id := (sts_orders_by_id st)(x := None)\<rparr>;
              st = (case ro_side ord of
                      Buy \<Rightarrow> st\<lparr>sts_buy_orders_by_group := drop_order ord x (sts_buy_orders_by_group st)\<rparr>
                    | Sell \<Rightarrow> st\<lparr>sts_sell_orders_by_group := drop_order ord x (sts_sell_orders_by_group st)\<rparr>)
          in (Some ord, sts_recalculate_best_prices st)
      | None \<Rightarrow> (None, st))"

text \<open>The loop over the resting orders of one group and side.\<close>

fun conflicting_ids :: "(RestingOrder \<Rightarrow> bool) \<Rightarrow> RestingOrder list \<Rightarrow> u64 list" where
  "conflicting_ids would_match [] = []"
| "conflicting_ids would_match (ord # os) =
     (if would_match ord then ro_order_id ord # conflicting_ids would_match os
      else conflicting_ids would_match os)"

definition sts_check_self_trade :: "SymbolStpState \<Rightarrow> AggressiveOrder \<Rightarrow> StpAction \<Rightarrow> StpCheckResult" where
  "sts_check_self_trade st a default_action =
     (let ids =
        (case ao_side a of
           Buy \<Rightarrow>
             (case sts_sell_orders_by_group st (ao_stp_group_id a) of
                Some resting_sells \<Rightarrow> conflicting_ids
                  (\<lambda>ord. if ao_is_market a then True else ro_price_ticks ord \<le>s ao_price_ticks a)
                  resting_sells
              | None \<Rightarrow> [])
         | Sell \<Rightarrow>
             (case sts_buy_orders_by_group st (ao_stp_group_id a) of
                Some resting_buys \<Rightarrow> conflicting_ids
                  (\<lambda>ord. if ao_is_market a then True else ao_price_ticks a \<le>s ro_price_ticks ord)
                  resting_buys
              | None \<Rightarrow> []))
      in if ids = [] then Pass else Conflict default_action ids)"

section \<open>The engine\<close>

record 'venue StpEngine =
  se_venue_id :: 'venue
  se_symbol_states :: "symbol \<rightharpoonup> SymbolStpState"
  se_default_action :: StpAction
  se_enabled :: bool
  se_checks_performed :: u64
  se_conflicts_detected :: u64
  se_orders_rejected :: u64

record StpStats =
  sst_checks_performed :: u64
  sst_conflicts_detected :: u64
  sst_orders_rejected :: u64

definition se_new :: "'venue \<Rightarrow> StpAction \<Rightarrow> 'venue StpEngine" where
  "se_new venue_id default_action =
     \<lparr>se_venue_id = venue_id, se_symbol_states = Map.empty, se_default_action = default_action,
      se_enabled = True, se_checks_performed = 0, se_conflicts_detected = 0,
      se_orders_rejected = 0\<rparr>"

definition se_register_resting_order :: "'venue StpEngine \<Rightarrow> RestingOrder \<Rightarrow> 'venue StpEngine" where
  "se_register_resting_order e ord =
     (if \<not> se_enabled e then e
      else let st = (case se_symbol_states e (ro_symbol ord) of
                       Some st \<Rightarrow> st | None \<Rightarrow> sts_new (ro_symbol ord))
           in e\<lparr>se_symbol_states := (se_symbol_states e)(ro_symbol ord \<mapsto> sts_add_order st ord)\<rparr>)"

definition se_remove_resting_order :: "'venue StpEngine \<Rightarrow> symbol \<Rightarrow> u64 \<Rightarrow> 'venue StpEngine" where
  "se_remove_resting_order e symb x =
     (case se_symbol_states e symb of
        Some st \<Rightarrow> e\<lparr>se_symbol_states := (se_symbol_states e)(symb \<mapsto> snd (sts_remove_order st x))\<rparr>
      | None \<Rightarrow> e)"

definition se_check_aggressive_order ::
    "'venue StpEngine \<Rightarrow> AggressiveOrder \<Rightarrow> StpCheckResult \<times> 'venue StpEngine" where
  "se_check_aggressive_order e a =
     (if \<not> se_enabled e then (Pass, e)
      else
        let e = e\<lparr>se_checks_performed := se_checks_performed e + 1\<rparr>
        in case se_symbol_states e (ao_symbol a) of
             Some st \<Rightarrow>
               let result = sts_check_self_trade st a (se_default_action e)
               in (result,
                   case result of
                     Conflict act ids \<Rightarrow> e\<lparr>se_conflicts_detected := se_conflicts_detected e + 1\<rparr>
                   | Reject reason \<Rightarrow> e\<lparr>se_orders_rejected := se_orders_rejected e + 1\<rparr>
                   | Pass \<Rightarrow> e)
           | None \<Rightarrow> (Pass, e))"

definition se_set_enabled :: "'venue StpEngine \<Rightarrow> bool \<Rightarrow> 'venue StpEngine" where
  "se_set_enabled e b = e\<lparr>se_enabled := b\<rparr>"

definition se_is_enabled :: "'venue StpEngine \<Rightarrow> bool" where
  "se_is_enabled e = se_enabled e"

definition se_get_stats :: "'venue StpEngine \<Rightarrow> StpStats" where
  "se_get_stats e =
     \<lparr>sst_checks_performed = se_checks_performed e, sst_conflicts_detected = se_conflicts_detected e,
      sst_orders_rejected = se_orders_rejected e\<rparr>"

definition se_clear_all :: "'venue StpEngine \<Rightarrow> 'venue StpEngine" where
  "se_clear_all e = e\<lparr>se_symbol_states := Map.empty\<rparr>"

section \<open>The book behind one symbol\<close>

definition group_orders :: "(StpGroupId \<rightharpoonup> RestingOrder list) \<Rightarrow> StpGroupId \<Rightarrow> RestingOrder list" where
  "group_orders m g = (case m g of Some os \<Rightarrow> os | None \<Rightarrow> [])"

fun sts_orders_on :: "OrderSide \<Rightarrow> SymbolStpState \<Rightarrow> StpGroupId \<rightharpoonup> RestingOrder list" where
  "sts_orders_on Buy st = sts_buy_orders_by_group st"
| "sts_orders_on Sell st = sts_sell_orders_by_group st"

text \<open>The group lists hold exactly the orders of \<open>orders_by_id\<close>, each once.\<close>

definition sts_inv :: "SymbolStpState \<Rightarrow> bool" where
  "sts_inv st \<longleftrightarrow>
     (\<forall>side g ord. ord \<in> set (group_orders (sts_orders_on side st) g) \<longleftrightarrow>
        sts_orders_by_id st (ro_order_id ord) = Some ord \<and> ro_side ord = side \<and>
        ro_stp_group_id ord = g) \<and>
     (\<forall>side g. distinct (group_orders (sts_orders_on side st) g)) \<and>
     (\<forall>x ord. sts_orders_by_id st x = Some ord \<longrightarrow> ro_order_id ord = x)"

lemma sts_invI:
  assumes "\<And>side g ord. ord \<in> set (group_orders (sts_orders_on side st) g) \<longleftrightarrow>
      sts_orders_by_id st (ro_order_id ord) = Some ord \<and> ro_side ord = side \<and> ro_stp_group_id ord = g"
    and "\<And>side g. distinct (group_orders (sts_orders_on side st) g)"
    and "\<And>x ord. sts_orders_by_id st x = Some ord \<Longrightarrow> ro_order_id ord = x"
  shows "sts_inv st"
  using assms by (simp add: sts_inv_def)

lemma sts_invD:
  assumes "sts_inv st"
  shows "ord \<in> set (group_orders (sts_orders_on side st) g) \<longleftrightarrow>
      sts_orders_by_id st (ro_order_id ord) = Some ord \<and> ro_side ord = side \<and> ro_stp_group_id ord = g"
    and "distinct (group_orders (sts_orders_on side st) g)"
    and "sts_orders_by_id st x = Some ord \<Longrightarrow> ro_order_id ord = x"
  using assms by (simp_all add: sts_inv_def)

lemma group_orders_push:
  "group_orders (push_order ord m) g =
     group_orders m g @ (if ro_stp_group_id ord = g then [ord] else [])"
  by (auto simp: group_orders_def push_order_def split: option.split)

lemma group_orders_drop:
  "group_orders (drop_order ord x m) g =
     (if ro_stp_group_id ord = g then filter (\<lambda>r. ro_order_id r \<noteq> x) (group_orders m g)
      else group_orders m g)"
  by (auto simp: group_orders_def drop_order_def Let_def split: option.split)

lemma sts_orders_on_add:
  "sts_orders_on side (sts_add_order st ord) =
     (if ro_side ord = side then push_order ord (sts_orders_on side st) else sts_orders_on side st)"
  by (cases side; cases "ro_side ord") (simp_all add: sts_add_order_def Let_def)

lemma sts_orders_by_id_add:
  "sts_orders_by_id (sts_add_order st ord) = (sts_orders_by_id st)(ro_order_id ord \<mapsto> ord)"
  by (cases "ro_side ord") (simp_all add: sts_add_order_def Let_def)

lemma sts_orders_on_recalculate [simp]:
  "sts_orders_on side (sts_recalculate_best_prices st) = sts_orders_on side st"
  by (cases side) (simp_all add: sts_recalculate_best_prices_def)

lemma sts_orders_on_remove:
  "sts_orders_on side (snd (sts_remove_order st x)) =
     (case sts_orders_by_id st x of
        Some ord \<Rightarrow> if ro_side ord = side then drop_order ord x (sts_orders_on side st)
                    else sts_orders_on side st
      | None \<Rightarrow> sts_orders_on side st)"
  by (cases side) (auto simp: sts_remove_order_def sts_recalculate_best_prices_def Let_def
      split: option.split OrderSide.split)

lemma sts_orders_by_id_remove:
  "sts_orders_by_id (snd (sts_remove_order st x)) = (sts_orders_by_id st)(x := None)"
  by (auto simp: sts_remove_order_def sts_recalculate_best_prices_def Let_def
      split: option.split OrderSide.split)

lemma sts_inv_new: "sts_inv (sts_new symb)"
proof (rule sts_invI)
  fix side g ord
  show "(ord \<in> set (group_orders (sts_orders_on side (sts_new symb)) g)) =
      (sts_orders_by_id (sts_new symb) (ro_order_id ord) = Some ord \<and> ro_side ord = side \<and>
       ro_stp_group_id ord = g)"
    by (cases side) (simp_all add: sts_new_def group_orders_def)
  show "distinct (group_orders (sts_orders_on side (sts_new symb)) g)"
    by (cases side) (simp_all add: sts_new_def group_orders_def)
qed (simp add: sts_new_def)

lemma sts_inv_add:
  assumes inv: "sts_inv st" and fresh: "sts_orders_by_id st (ro_order_id ord) = None"
  shows "sts_inv (sts_add_order st ord)"
proof (rule sts_invI)
  note mem = sts_invD(1) [OF inv]
  fix side g r
  show "(r \<in> set (group_orders (sts_orders_on side (sts_add_order st ord)) g)) =
      (sts_orders_by_id (sts_add_order st ord) (ro_order_id r) = Some r \<and> ro_side r = side \<and>
       ro_stp_group_id r = g)"
    using mem fresh by (auto simp: sts_orders_on_add sts_orders_by_id_add group_orders_push)
  show "distinct (group_orders (sts_orders_on side (sts_add_order st ord)) g)"
    using sts_invD(2) [OF inv] mem fresh
    by (auto simp: sts_orders_on_add group_orders_push)
next
  fix x r
  show "sts_orders_by_id (sts_add_order st ord) x = Some r \<Longrightarrow> ro_order_id r = x"
    using sts_invD(3) [OF inv] by (auto simp: sts_orders_by_id_add split: if_splits)
qed

lemma sts_inv_remove:
  assumes inv: "sts_inv st"
  shows "sts_inv (snd (sts_remove_order st x))"
proof (rule sts_invI)
  note mem = sts_invD(1) [OF inv] and ids = sts_invD(3) [OF inv]
  fix side g r
  show "(r \<in> set (group_orders (sts_orders_on side (snd (sts_remove_order st x))) g)) =
      (sts_orders_by_id (snd (sts_remove_order st x)) (ro_order_id r) = Some r \<and>
       ro_side r = side \<and> ro_stp_group_id r = g)"
    using mem ids
    by (cases "sts_orders_by_id st x")
      (auto simp: sts_orders_on_remove sts_orders_by_id_remove group_orders_drop)
  show "distinct (group_orders (sts_orders_on side (snd (sts_remove_order st x))) g)"
    using sts_invD(2) [OF inv]
    by (cases "sts_orders_by_id st x") (simp_all add: sts_orders_on_remove group_orders_drop)
next
  fix y r
  show "sts_orders_by_id (snd (sts_remove_order st x)) y = Some r \<Longrightarrow> ro_order_id r = y"
    using sts_invD(3) [OF inv] by (auto simp: sts_orders_by_id_remove split: if_splits)
qed

section \<open>What the check means\<close>

text \<open>The aggressive order would trade with the resting order, both being of one group.\<close>

fun crosses :: "AggressiveOrder \<Rightarrow> RestingOrder \<Rightarrow> bool" where
  "crosses a ord \<longleftrightarrow>
     ro_stp_group_id ord = ao_stp_group_id a \<and> ro_side ord \<noteq> ao_side a \<and>
     (ao_is_market a \<or>
      (case ao_side a of Buy \<Rightarrow> sint (ro_price_ticks ord) \<le> sint (ao_price_ticks a)
                       | Sell \<Rightarrow> sint (ao_price_ticks a) \<le> sint (ro_price_ticks ord)))"

lemma conflicting_ids_eq: "conflicting_ids P os = map ro_order_id (filter P os)"
  by (induction os) simp_all

fun other_side :: "OrderSide \<Rightarrow> OrderSide" where
  "other_side Buy = Sell"
| "other_side Sell = Buy"

lemma other_side_neq: "(s \<noteq> t) = (s = other_side t)"
  by (cases s; cases t) simp_all

lemma check_self_trade_eq:
  "sts_check_self_trade st a act =
     (let ids = map ro_order_id (filter (\<lambda>ord. ao_is_market a \<or>
            (case ao_side a of Buy \<Rightarrow> sint (ro_price_ticks ord) \<le> sint (ao_price_ticks a)
                             | Sell \<Rightarrow> sint (ao_price_ticks a) \<le> sint (ro_price_ticks ord)))
          (group_orders (sts_orders_on (other_side (ao_side a)) st) (ao_stp_group_id a)))
      in if ids = [] then Pass else Conflict act ids)"
  by (cases "ao_side a"; cases "ao_is_market a")
    (simp_all add: sts_check_self_trade_def group_orders_def conflicting_ids_eq word_sle_eq Let_def
      split: option.split)

lemma check_self_trade_exact:
  assumes "sts_inv st"
  shows "\<exists>ids. distinct ids \<and>
    set ids = {x. \<exists>ord. sts_orders_by_id st x = Some ord \<and> crosses a ord} \<and>
    sts_check_self_trade st a act = (if ids = [] then Pass else Conflict act ids)"
proof -
  let ?os = "group_orders (sts_orders_on (other_side (ao_side a)) st) (ao_stp_group_id a)"
  let ?P = "\<lambda>ord. ao_is_market a \<or>
    (case ao_side a of Buy \<Rightarrow> sint (ro_price_ticks ord) \<le> sint (ao_price_ticks a)
                     | Sell \<Rightarrow> sint (ao_price_ticks a) \<le> sint (ro_price_ticks ord))"
  let ?ids = "map ro_order_id (filter ?P ?os)"
  have "inj_on ro_order_id (set ?os)"
    using sts_invD(1) [OF assms] by (intro inj_onI) (metis option.inject)
  then have "distinct ?ids"
    using sts_invD(2) [OF assms] by (auto simp: distinct_map inj_on_def)
  moreover have "set ?ids = {x. \<exists>ord. sts_orders_by_id st x = Some ord \<and> crosses a ord}"
    using sts_invD(1,3) [OF assms] by (auto simp: other_side_neq image_iff) blast+
  ultimately show ?thesis
    unfolding check_self_trade_eq by (intro exI [of _ ?ids]) (simp add: Let_def)
qed

section \<open>Runs of the engine\<close>

datatype se_op =
    SeRegister RestingOrder
  | SeRemove symbol u64
  | SeCheck AggressiveOrder
  | SeSetEnabled bool
  | SeClearAll

fun se_exec :: "se_op \<Rightarrow> 'venue StpEngine \<Rightarrow> 'venue StpEngine" where
  "se_exec (SeRegister ord) e = se_register_resting_order e ord"
| "se_exec (SeRemove symb x) e = se_remove_resting_order e symb x"
| "se_exec (SeCheck a) e = snd (se_check_aggressive_order e a)"
| "se_exec (SeSetEnabled b) e = se_set_enabled e b"
| "se_exec SeClearAll e = se_clear_all e"

text \<open>
  The specification of the engine: per symbol the open orders by id, and whether the engine
  is enabled; a disabled engine does not record new orders.
\<close>

type_synonym stp_book = "(symbol \<Rightarrow> u64 \<rightharpoonup> RestingOrder) \<times> bool"

fun book_exec :: "se_op \<Rightarrow> stp_book \<Rightarrow> stp_book" where
  "book_exec (SeRegister ord) (b, on) =
     (if on then b(ro_symbol ord := (b (ro_symbol ord))(ro_order_id ord \<mapsto> ord)) else b, on)"
| "book_exec (SeRemove symb x) (b, on) = (b(symb := (b symb)(x := None)), on)"
| "book_exec (SeCheck a) (b, on) = (b, on)"
| "book_exec (SeSetEnabled on') (b, on) = (b, on')"
| "book_exec SeClearAll (b, on) = ((\<lambda>_. Map.empty), on)"

definition se_book :: "'venue StpEngine \<Rightarrow> stp_book" where
  "se_book e =
     ((\<lambda>symb. case se_symbol_states e symb of Some st \<Rightarrow> sts_orders_by_id st | None \<Rightarrow> Map.empty),
      se_enabled e)"

definition se_inv :: "'venue StpEngine \<Rightarrow> bool" where
  "se_inv e \<longleftrightarrow> (\<forall>symb st. se_symbol_states e symb = Some st \<longrightarrow> sts_inv st)"

text \<open>The client's duty: an order id is registered once per symbol while it is open.\<close>

fun se_allowed :: "se_op \<Rightarrow> 'venue StpEngine \<Rightarrow> bool" where
  "se_allowed (SeRegister ord) e = (fst (se_book e) (ro_symbol ord) (ro_order_id ord) = None)"
| "se_allowed _ e = True"

lemma se_check_frame:
  "se_symbol_states (snd (se_check_aggressive_order e a)) = se_symbol_states e"
  "se_enabled (snd (se_check_aggressive_order e a)) = se_enabled e"
  "se_default_action (snd (se_check_aggressive_order e a)) = se_default_action e"
  by (simp_all add: se_check_aggressive_order_def Let_def split: option.split StpCheckResult.split)

interpretation stp_engine: refined_system se_exec se_allowed se_inv book_exec se_book
proof
  fix e :: "'a StpEngine" and op
  assume inv: "se_inv e" and ok: "se_allowed op e"
  show "se_inv (se_exec op e)"
  proof (cases op)
    case (SeRegister ord)
    with inv ok show ?thesis
      by (auto simp: se_inv_def se_book_def se_register_resting_order_def Let_def
          intro!: sts_inv_add sts_inv_new split: option.splits if_splits)
        (simp add: sts_new_def)
  next
    case (SeRemove symb x)
    with inv show ?thesis
      by (auto simp: se_inv_def se_remove_resting_order_def sts_inv_remove split: option.splits if_splits)
  qed (use inv in \<open>simp_all add: se_inv_def se_check_frame se_set_enabled_def se_clear_all_def\<close>)
  show "se_book (se_exec op e) = book_exec op (se_book e)"
  proof (cases op)
    case (SeRegister ord)
    then show ?thesis
      by (auto simp: se_book_def se_register_resting_order_def sts_orders_by_id_add Let_def
          sts_new_def fun_eq_iff split: option.split)
  next
    case (SeRemove symb x)
    then show ?thesis
      by (auto simp: se_book_def se_remove_resting_order_def sts_orders_by_id_remove fun_eq_iff
          split: option.split)
  qed (simp_all add: se_book_def se_check_frame se_set_enabled_def se_clear_all_def)
qed

interpretation stp_action: framed_system se_exec se_default_action
  by unfold_locales
    (case_tac a; simp add: se_check_frame se_register_resting_order_def se_remove_resting_order_def
      se_set_enabled_def se_clear_all_def Let_def split: option.split)

lemma se_new_simps [simp]:
  "se_inv (se_new v act)" "se_book (se_new v act) = ((\<lambda>_. Map.empty), True)"
  "se_default_action (se_new v act) = act"
  by (simp_all add: se_inv_def se_book_def se_new_def)

lemma se_check_exact:
  assumes "se_inv e" and "se_enabled e"
  shows "\<exists>ids. distinct ids \<and>
    set ids = {x. \<exists>ord. fst (se_book e) (ao_symbol a) x = Some ord \<and> crosses a ord} \<and>
    fst (se_check_aggressive_order e a) =
      (if ids = [] then Pass else Conflict (se_default_action e) ids)"
proof (cases "se_symbol_states e (ao_symbol a)")
  case None
  with assms(2) show ?thesis
    by (intro exI [of _ "[]"]) (simp add: se_check_aggressive_order_def se_book_def)
next
  case (Some st)
  with assms have "sts_inv st" by (auto simp: se_inv_def)
  from check_self_trade_exact [OF this, of a "se_default_action e"] Some assms(2) show ?thesis
    by (simp add: se_check_aggressive_order_def se_book_def Let_def del: crosses.simps)
qed

section \<open>Tags of outbound orders\<close>

text \<open>\<open>format!("STP{:08X}", id)\<close>: eight upper-case hexadecimal digits.\<close>

definition hex_digits :: string where
  "hex_digits = ''0123456789ABCDEF''"

definition hex_digit :: "u32 \<Rightarrow> char" where
  "hex_digit d = hex_digits ! unat (d mod 16)"

definition format_hex8 :: "u32 \<Rightarrow> string" where
  "format_hex8 x = map (\<lambda>k. hex_digit (drop_bit (4 * k) x)) [7, 6, 5, 4, 3, 2, 1, 0]"

definition generate_stp_tag :: "StpGroupId \<Rightarrow> string" where
  "generate_stp_tag g = ''STP'' @ format_hex8 (stp_value g)"

text \<open>
  \<open>u32::from_str_radix(s, 16)\<close>: an optional plus sign before at least one digit, then
  digits of either case with the overflow checked at each step.
\<close>

definition digit_of :: "char \<Rightarrow> u32 option" where
  "digit_of c =
     (let n = (of_char c :: nat)
      in if 48 \<le> n \<and> n \<le> 57 then Some (of_nat (n - 48))
         else if 65 \<le> n \<and> n \<le> 70 then Some (of_nat (n - 55))
         else if 97 \<le> n \<and> n \<le> 102 then Some (of_nat (n - 87))
         else None)"

fun radix16_loop :: "string \<Rightarrow> u32 \<Rightarrow> u32 option" where
  "radix16_loop [] acc = Some acc"
| "radix16_loop (c # cs) acc =
     (case digit_of c of
        None \<Rightarrow> None
      | Some d \<Rightarrow> if unat acc * 16 + unat d < 2 ^ 32 then radix16_loop cs (acc * 16 + d) else None)"

definition from_str_radix16 :: "string \<Rightarrow> u32 option" where
  "from_str_radix16 s =
     (case s of
        [] \<Rightarrow> None
      | c # cs \<Rightarrow> if c = CHR ''+'' then (if cs = [] then None else radix16_loop cs 0)
                  else radix16_loop s 0)"

text \<open>
  A \<open>&str\<close> is its bytes. Slicing \<open>tag[3..11]\<close> panics when byte 11 exists and continues a
  UTF-8 sequence (byte 3 follows an ASCII prefix); the outer \<open>None\<close> is the panic.
\<close>

definition is_continuation :: "char \<Rightarrow> bool" where
  "is_continuation c = (let n = (of_char c :: nat) in 128 \<le> n \<and> n < 192)"

definition parse_stp_tag :: "string \<Rightarrow> StpGroupId option option" where
  "parse_stp_tag tag =
     (if 11 \<le> length tag \<and> take 3 tag = ''STP''
      then if 11 < length tag \<and> is_continuation (tag ! 11) then None
           else Some (map_option StpGroupId (from_str_radix16 (take 8 (drop 3 tag))))
      else Some None)"

lemma digit_of_hex_digits:
  "n < 16 \<Longrightarrow> digit_of (hex_digits ! n) = Some (of_nat n)"
  by (auto simp: hex_digits_def digit_of_def less_Suc_eq numeral_eq_Suc)

lemma digit_of_hex_digit: "digit_of (hex_digit d) = Some (d mod 16)"
proof -
  have "unat (d mod 16) < 16" by (simp add: unat_mod)
  then show ?thesis by (simp add: hex_digit_def digit_of_hex_digits)
qed

lemma radix16_digit:
  "radix16_loop (hex_digit y # cs) (y div 16) = radix16_loop cs y"
proof -
  have "unat (y div 16) * 16 + unat (y mod 16) = unat y"
    by (simp add: unat_div unat_mod)
  moreover have "unat y < 2 ^ 32"
    using unsigned_less [of y, where ?'a = nat] by simp
  moreover have "y div 16 * 16 + y mod 16 = y" by (rule div_mult_mod_eq)
  ultimately show ?thesis by (simp add: digit_of_hex_digit)
qed

lemma radix16_drop_bit:
  "radix16_loop (hex_digit (drop_bit k x) # cs) (drop_bit (4 + k) x) = radix16_loop cs (drop_bit k x)"
proof -
  have "drop_bit (4 + k) x = drop_bit 4 (drop_bit k x)" by simp
  also have "\<dots> = drop_bit k x div 16" by (subst drop_bit_eq_div) simp
  finally show ?thesis by (simp only: radix16_digit)
qed

lemma radix16_format: "radix16_loop (format_hex8 x) 0 = Some x"
proof -
  have "0 = drop_bit (4 + 28) x" by simp
  then show ?thesis
    using radix16_drop_bit [of 28 x] radix16_drop_bit [of 24 x] radix16_drop_bit [of 20 x]
      radix16_drop_bit [of 16 x] radix16_drop_bit [of 12 x] radix16_drop_bit [of 8 x]
      radix16_drop_bit [of 4 x] radix16_drop_bit [of 0 x]
    by (simp add: format_hex8_def del: radix16_loop.simps(2))
qed

lemma hex_digit_not_plus: "hex_digit d \<noteq> CHR ''+''"
  using digit_of_hex_digit [of d] by (auto simp: digit_of_def)

lemma from_str_radix16_format: "from_str_radix16 (format_hex8 x) = Some x"
  using radix16_format [of x] by (simp add: from_str_radix16_def hex_digit_not_plus format_hex8_def)

section \<open>Exchange configurations\<close>

record 'venue ExchangeStpConfig =
  esc_venue_id :: 'venue
  esc_supported_actions :: "StpAction list"
  esc_default_action :: StpAction
  esc_supports_group_ids :: bool
  esc_max_groups :: u32

text \<open>The venue constants \<open>VenueId::Nasdaq\<close>, \<open>NYSE\<close> and \<open>Binance\<close> are arguments.\<close>

definition esc_nasdaq :: "'venue \<Rightarrow> 'venue ExchangeStpConfig" where
  "esc_nasdaq nasdaq =
     \<lparr>esc_venue_id = nasdaq, esc_supported_actions = [CancelAggressive, CancelMaker, CancelBoth],
      esc_default_action = CancelAggressive, esc_supports_group_ids = True, esc_max_groups = 100\<rparr>"

definition esc_nyse :: "'venue \<Rightarrow> 'venue ExchangeStpConfig" where
  "esc_nyse nyse =
     \<lparr>esc_venue_id = nyse, esc_supported_actions = [CancelAggressive, CancelBoth],
      esc_default_action = CancelAggressive, esc_supports_group_ids = True, esc_max_groups = 50\<rparr>"

definition esc_binance :: "'venue \<Rightarrow> 'venue ExchangeStpConfig" where
  "esc_binance binance =
     \<lparr>esc_venue_id = binance, esc_supported_actions = [CancelMaker],
      esc_default_action = CancelMaker, esc_supports_group_ids = False, esc_max_groups = 1\<rparr>"

section \<open>Properties\<close>

text \<open>
  C5: Self-trade detection is sound and complete. After any sequence of calls in which no
  open order id is registered twice for a symbol, an enabled engine reports for an aggressive
  order exactly the ids of the open orders of its group on the other side of the same symbol
  that it would trade with, each once, and passes it exactly when there are none.
\<close>

theorem self_trade_detection_exact:
  fixes ops :: "se_op list" and venue :: 'venue and act :: StpAction
  defines "e \<equiv> run se_exec ops (se_new venue act)"
    and "open_orders \<equiv> fst (run book_exec ops ((\<lambda>_. Map.empty), True))"
  assumes "permitted se_exec se_allowed ops (se_new venue act)" and "se_is_enabled e"
  shows "\<exists>ids. distinct ids \<and>
    set ids = {x. \<exists>ord. open_orders (ao_symbol a) x = Some ord \<and> crosses a ord} \<and>
    fst (se_check_aggressive_order e a) = (if ids = [] then Pass else Conflict act ids)"
proof -
  have "se_inv e"
    using assms(3) unfolding e_def by (intro stp_engine.run_inv) simp_all
  moreover have "fst (se_book e) = open_orders"
    using stp_engine.run_abs [OF _ assms(3)] by (simp add: e_def open_orders_def)
  moreover have "se_default_action e = act"
    by (simp add: e_def stp_action.run_part)
  ultimately show ?thesis
    using se_check_exact [of e a] assms(4) unfolding se_is_enabled_def by metis
qed

theorem self_trade_detection_exact_witness:
  "let ord = (\<lambda>x side price. \<lparr>ro_order_id = x, ro_symbol = [1], ro_side = side,
         ro_price_ticks = price, ro_quantity = 5, ro_stp_group_id = StpGroupId 9,
         ro_timestamp_ns = 0\<rparr>);
       ops = [SeRegister (ord 1 Sell 100), SeRegister (ord 2 Sell 90), SeRemove [1] 1];
       a = \<lparr>ao_symbol = [1], ao_side = Buy, ao_price_ticks = 95, ao_quantity = 5,
            ao_stp_group_id = StpGroupId 9, ao_is_market = False\<rparr>
   in \<exists>ids. set ids = {2} \<and>
     fst (se_check_aggressive_order (run se_exec ops (se_new () CancelMaker)) a) = Conflict CancelMaker ids"
proof -
  define ord where "ord = (\<lambda>(x :: u64) side (price :: i64). \<lparr>ro_order_id = x, ro_symbol = [1 :: u8],
    ro_side = side, ro_price_ticks = price, ro_quantity = 5, ro_stp_group_id = StpGroupId 9,
    ro_timestamp_ns = 0\<rparr>)"
  let ?ops = "[SeRegister (ord 1 Sell 100), SeRegister (ord 2 Sell 90), SeRemove [1] 1]"
  let ?a = "\<lparr>ao_symbol = [1], ao_side = Buy, ao_price_ticks = 95, ao_quantity = 5,
    ao_stp_group_id = StpGroupId 9, ao_is_market = False\<rparr>"
  note defs = se_new_def se_register_resting_order_def se_remove_resting_order_def sts_new_def
    sts_add_order_def ord_def se_book_def Let_def
  have ok: "permitted se_exec se_allowed ?ops (se_new () CancelMaker)" by (simp add: defs)
  have on: "se_is_enabled (run se_exec ?ops (se_new () CancelMaker))"
    by (simp add: defs se_is_enabled_def)
  have book: "{x. \<exists>r. fst (run book_exec ?ops ((\<lambda>_. Map.empty), True)) [1] x = Some r \<and> crosses ?a r} = {2}"
    by (auto simp: ord_def split: if_splits)
  show ?thesis
    using self_trade_detection_exact [OF ok on, of ?a]
    unfolding AggressiveOrder.simps book ord_def [symmetric] Let_def
    by (metis insert_not_empty list.set(1))
qed

text \<open>
  Tags round-trip. The tag generated for a group parses back to the group, whatever ASCII
  text follows it.
\<close>

lemma stp_tag_roundtrip:
  assumes "\<forall>c \<in> set rest. (of_char c :: nat) < 128"
  shows "parse_stp_tag (generate_stp_tag g @ rest) = Some (Some g)"
proof -
  have len: "length (format_hex8 (stp_value g)) = 8" by (simp add: format_hex8_def)
  moreover have "\<not> is_continuation (rest ! 0)" if "rest \<noteq> []"
    using assms that by (cases rest) (auto simp: is_continuation_def Let_def)
  ultimately show ?thesis
    by (cases g) (auto simp: parse_stp_tag_def generate_stp_tag_def from_str_radix16_format nth_append)
qed

text \<open>
  Group ids. For one symbol, different strategies always get different groups, because
  31 is invertible modulo \<open>2 ^ 32\<close>; across symbols they need not: the next strategy id with a
  symbol hash smaller by 31 gives the same group.
\<close>

lemma group_id_collisions:
  "(stp_generate s h = stp_generate s' h \<longleftrightarrow> s = s') \<and>
   stp_generate (s + 1) (h - 31) = stp_generate s h"
proof -
  have "(s * 31 = s' * 31) \<longleftrightarrow> s = s'" for s s' :: u32
  proof
    assume eq: "s * 31 = s' * 31"
    have one: "(31 :: u32) * 3186588639 = 1" by simp
    have "s * 31 * 3186588639 = s' * 31 * 3186588639" by (simp only: eq)
    then show "s = s'" by (simp only: mult.assoc one mult_1_right)
  qed simp
  then have "stp_generate s h = stp_generate s' h \<longleftrightarrow> s = s'"
    by (simp only: stp_generate_def StpGroupId.inject add_right_cancel)
  moreover have "stp_generate (s + 1) (h - 31) = stp_generate s h"
    by (simp add: stp_generate_def distrib_right)
  ultimately show ?thesis by (rule conjI)
qed

end
