(* ===== verification/Bytes.thy ===== *)
theory Bytes
  imports Machine
begin

text \<open>
  Bytes shared by the message formats: what \<open>std::str::from_utf8\<close> accepts, little-endian
  integers, and decimal numbers as \<open>to_string\<close> prints them.
\<close>

section \<open>UTF-8\<close>

text \<open>\<open>std::str::from_utf8\<close> succeeds on exactly the well-formed UTF-8 byte sequences.\<close>

definition cont_byte :: "u8 \<Rightarrow> bool" where
  "cont_byte b \<longleftrightarrow> 0x80 \<le> b \<and> b \<le> 0xBF"

function utf8_valid :: "u8 list \<Rightarrow> bool" where
  "utf8_valid bs =
     (case bs of
        [] \<Rightarrow> True
      | b # bs \<Rightarrow>
          if b < 0x80 then utf8_valid bs
          else if 0xC2 \<le> b \<and> b \<le> 0xDF
          then (case bs of c1 # r \<Rightarrow> cont_byte c1 \<and> utf8_valid r | _ \<Rightarrow> False)
          else if 0xE0 \<le> b \<and> b \<le> 0xEF
          then (case bs of c1 # c2 # r \<Rightarrow>
                  cont_byte c1 \<and> (b = 0xE0 \<longrightarrow> 0xA0 \<le> c1) \<and> (b = 0xED \<longrightarrow> c1 \<le> 0x9F) \<and>
                  cont_byte c2 \<and> utf8_valid r
                | _ \<Rightarrow> False)
          else if 0xF0 \<le> b \<and> b \<le> 0xF4
          then (case bs of c1 # c2 # c3 # r \<Rightarrow>
                  cont_byte c1 \<and> (b = 0xF0 \<longrightarrow> 0x90 \<le> c1) \<and> (b = 0xF4 \<longrightarrow> c1 \<le> 0x8F) \<and>
                  cont_byte c2 \<and> cont_byte c3 \<and> utf8_valid r
                | _ \<Rightarrow> False)
          else False)"
  by pat_completeness auto
termination by (relation "measure length") auto

declare utf8_valid.simps [simp del]

section \<open>Little-endian integers\<close>

text \<open>\<open>from_le_bytes\<close>, and \<open>to_le_bytes\<close> of a word of \<open>n\<close> bytes and of a \<open>u64\<close>.\<close>

definition from_le_bytes :: "u8 list \<Rightarrow> 'a :: len word" where
  "from_le_bytes bs = foldr (\<lambda>b acc. acc * 256 + ucast b) bs 0"

definition le_bytes :: "nat \<Rightarrow> 'a :: len word \<Rightarrow> u8 list" where
  "le_bytes n w = map (\<lambda>k. ucast (drop_bit (8 * k) w)) [0..<n]"

definition to_le_bytes :: "u64 \<Rightarrow> u8 list" where
  "to_le_bytes w = le_bytes 8 w"

lemma length_le_bytes [simp]: "length (le_bytes n w) = n"
  by (simp add: le_bytes_def)

lemma length_to_le_bytes [simp]: "length (to_le_bytes w) = 8"
  by (simp add: to_le_bytes_def)

lemma le_bytes_0 [simp]: "le_bytes 0 w = []"
  by (simp add: le_bytes_def)

lemma le_bytes_Suc: "le_bytes (Suc n) w = ucast w # le_bytes n (drop_bit 8 w)"
proof -
  have "map (\<lambda>k. ucast (drop_bit (8 * k) w)) (map Suc [0..<n]) =
    (map (\<lambda>k. ucast (drop_bit (8 * k) (drop_bit 8 w))) [0..<n] :: u8 list)"
    by (simp add: comp_def add.commute)
  then show ?thesis by (simp add: le_bytes_def upt_conv_Cons map_Suc_upt del: upt_Suc map_map)
qed

lemma from_le_bytes_Cons: "from_le_bytes (b # bs) = from_le_bytes bs * 256 + ucast b"
  by (simp add: from_le_bytes_def)

lemma from_le_bytes_le_bytes:
  "8 * n \<le> LENGTH('a) \<Longrightarrow> from_le_bytes (le_bytes n w) = take_bit (8 * n) (w :: 'a :: len word)"
proof (induction n arbitrary: w)
  case 0
  then show ?case by (simp add: from_le_bytes_def)
next
  case (Suc n)
  have low: "(ucast (ucast w :: u8) :: 'a word) = take_bit 8 w"
    by (rule bit_word_eqI) (auto simp: bit_simps)
  have "take_bit (8 * Suc n) w = take_bit (8 * n) (drop_bit 8 w) * 2 ^ 8 + take_bit 8 w"
    using bits_ident [of 8 "take_bit (8 * Suc n) w"]
    by (simp add: drop_bit_take_bit push_bit_eq_mult min_def)
  with Suc low show ?case by (simp add: le_bytes_Suc from_le_bytes_Cons)
qed

lemma le_roundtrip_word:
  "8 * n = LENGTH('a) \<Longrightarrow> from_le_bytes (le_bytes n w) = (w :: 'a :: len word)"
  using take_bit_length_eq [of w] by (simp add: from_le_bytes_le_bytes)

lemma le_roundtrip [simp]: "from_le_bytes (to_le_bytes w) = w"
  by (simp add: to_le_bytes_def le_roundtrip_word)

section \<open>Decimal numbers\<close>

text \<open>
  \<open>to_string\<close> of an unsigned number, as bytes, and the value of a digit string read from the
  left with an accumulator.
\<close>

fun decimal :: "nat \<Rightarrow> u8 list" where
  "decimal n = (if n < 10 then [48 + of_nat n] else decimal (n div 10) @ [48 + of_nat (n mod 10)])"

declare decimal.simps [simp del]

definition is_digit :: "u8 \<Rightarrow> bool" where
  "is_digit b = (48 \<le> b \<and> b \<le> 57)"

fun dec_val :: "nat \<Rightarrow> u8 list \<Rightarrow> nat" where
  "dec_val acc [] = acc"
| "dec_val acc (b # bs) = dec_val (acc * 10 + (unat b - 48)) bs"

lemma is_digit_of_nat: "n < 10 \<Longrightarrow> is_digit (48 + of_nat n)"
  by (auto simp: is_digit_def word_le_nat_alt unat_word_ariths unat_of_nat)

lemma unat_digit: "n < 10 \<Longrightarrow> unat (48 + of_nat n :: u8) - 48 = n"
  by (simp add: unat_word_ariths unat_of_nat)

lemma dec_val_append: "dec_val acc (bs @ [b]) = dec_val acc bs * 10 + (unat b - 48)"
  by (induction bs arbitrary: acc) simp_all

lemma dec_val_ge: "acc \<le> dec_val acc bs"
proof (induction bs arbitrary: acc)
  case (Cons b bs)
  have "acc \<le> acc * 10 + (unat b - 48)" by simp
  also have "\<dots> \<le> dec_val (acc * 10 + (unat b - 48)) bs" by (rule Cons.IH)
  finally show ?case by simp
qed simp

lemma decimal_digits: "list_all is_digit (decimal n)"
  by (induction n rule: decimal.induct) (subst decimal.simps, simp add: is_digit_of_nat)

lemma decimal_nonempty [simp]: "decimal n \<noteq> []"
  by (subst decimal.simps) simp

lemma dec_val_decimal [simp]: "dec_val 0 (decimal n) = n"
proof (induction n rule: decimal.induct)
  case (1 n)
  then show ?case
    by (subst decimal.simps) (simp add: dec_val_append unat_digit)
qed

lemma decimal_not_mem: "\<not> is_digit b \<Longrightarrow> b \<notin> set (decimal n)"
  using decimal_digits [of n] by (auto simp: list_all_iff)

section \<open>Slices\<close>

text \<open>
  \<open>&buffer[i..j]\<close>, and a slice overwritten in place, both for ranges inside the buffer.
\<close>

definition slice :: "nat \<Rightarrow> nat \<Rightarrow> 'a list \<Rightarrow> 'a list" where
  "slice i j xs = take (j - i) (drop i xs)"

definition write_at :: "nat \<Rightarrow> 'a list \<Rightarrow> 'a list \<Rightarrow> 'a list" where
  "write_at i ys xs = take i xs @ ys @ drop (i + length ys) xs"

lemma length_slice [simp]: "j \<le> length xs \<Longrightarrow> length (slice i j xs) = j - i"
  by (simp add: slice_def)

lemma length_write_at [simp]: "i + length ys \<le> length xs \<Longrightarrow> length (write_at i ys xs) = length xs"
  by (simp add: write_at_def)

lemma take_write_at: "i + length ys \<le> length xs \<Longrightarrow> take (i + length ys) (write_at i ys xs) = take i xs @ ys"
  by (simp add: write_at_def)

lemma drop_write_at: "i + length ys \<le> length xs \<Longrightarrow> drop (i + length ys) (write_at i ys xs) = drop (i + length ys) xs"
  by (simp add: write_at_def)

lemma write_at_single: "i < length xs \<Longrightarrow> xs[i := y] = write_at i [y] xs"
  by (simp add: write_at_def upd_conv_take_nth_drop)

lemma write_at_append:
  "i + length ys + length zs \<le> length xs \<Longrightarrow>
   write_at (i + length ys) zs (write_at i ys xs) = write_at i (ys @ zs) xs"
  by (simp add: write_at_def algebra_simps)

lemma slice_append: "slice (length xs) (length xs + length ys) (xs @ ys @ zs) = ys"
  by (simp add: slice_def)

end
