(* ===== verification/Halt_Detector.thy ===== *)
theory Halt_Detector
  imports Bytes
begin

text \<open>
  Detection of exchange halts (\<open>src/src/exchange/halt_detector.rs\<close>): per venue the state of its
  symbols and of the venue, the kill switch they drive, the queries before an order, and the
  binary halt message.

  \<open>VenueId\<close> is a type variable, and the constant \<open>VenueId::Unknown\<close> an argument. The broadcast
  channel is the list of events sent, which nothing here reads back.
\<close>

section \<open>Data\<close>

datatype TradingState =
    Open | PreOpen | CloseAuction | VolatilityHalt | RegulatoryHalt | TechnicalHalt | Maintenance | Closed

fun is_tradeable :: "TradingState \<Rightarrow> bool" where
  "is_tradeable Open = True"
| "is_tradeable PreOpen = True"
| "is_tradeable CloseAuction = True"
| "is_tradeable _ = False"

fun trading_state_code :: "TradingState \<Rightarrow> u8" where
  "trading_state_code Open = 0"
| "trading_state_code PreOpen = 1"
| "trading_state_code CloseAuction = 2"
| "trading_state_code VolatilityHalt = 3"
| "trading_state_code RegulatoryHalt = 4"
| "trading_state_code TechnicalHalt = 5"
| "trading_state_code Maintenance = 6"
| "trading_state_code Closed = 7"

definition trading_state_from_u8 :: "u8 \<Rightarrow> TradingState" where
  "trading_state_from_u8 val =
     (if val = 0 then Open else if val = 1 then PreOpen else if val = 2 then CloseAuction
      else if val = 3 then VolatilityHalt else if val = 4 then RegulatoryHalt
      else if val = 5 then TechnicalHalt else if val = 6 then Maintenance
      else if val = 7 then Closed else Closed)"

text \<open>The level \<open>None\<close> of the source is \<open>NoLevel\<close> here.\<close>

datatype CircuitBreakerLevel = NoLevel | Level1 | Level2 | Level3

fun level_code :: "CircuitBreakerLevel \<Rightarrow> u8" where
  "level_code NoLevel = 0"
| "level_code Level1 = 1"
| "level_code Level2 = 2"
| "level_code Level3 = 3"

type_synonym halt_symbol = "u8 list"

record 'venue HaltEvent =
  he_venue_id :: 'venue
  he_symbol :: halt_symbol
  he_state :: TradingState
  he_circuit_breaker_level :: CircuitBreakerLevel
  he_timestamp_ns :: u64
  he_expected_resume_ns :: "u64 option"
  he_reason_code :: "16 word"

text \<open>A \<open>&str\<close> is its bytes; the symbol buffer holds the first twelve, padded with zeros.\<close>

definition symbol_buf :: "u8 list \<Rightarrow> halt_symbol" where
  "symbol_buf bytes =
     (let copy_len = min (length bytes) 12
      in take copy_len bytes @ replicate (12 - copy_len) 0)"

definition he_new ::
    "'venue \<Rightarrow> u8 list \<Rightarrow> TradingState \<Rightarrow> CircuitBreakerLevel \<Rightarrow> u64 \<Rightarrow> u64 option \<Rightarrow> 16 word
     \<Rightarrow> 'venue HaltEvent" where
  "he_new venue_id symbol state level timestamp_ns expected_resume_ns reason_code =
     \<lparr>he_venue_id = venue_id, he_symbol = symbol_buf symbol, he_state = state,
      he_circuit_breaker_level = level, he_timestamp_ns = timestamp_ns,
      he_expected_resume_ns = expected_resume_ns, he_reason_code = reason_code\<rparr>"

record SymbolHaltState =
  sh_symbol :: halt_symbol
  sh_state :: u8
  sh_last_update_ns :: u64
  sh_circuit_breaker :: u8
  sh_expected_resume_ns :: u64

record 'venue VenueHaltState =
  vh_venue_id :: 'venue
  vh_global_state :: u8
  vh_symbols :: "SymbolHaltState list"
  vh_any_halted :: bool

record 'venue HaltDetector =
  hd_global_kill_switch :: bool
  hd_venue_states :: "'venue VenueHaltState list"
  hd_halt_tx :: "'venue HaltEvent list"
  hd_last_heartbeat_ns :: u64
  hd_heartbeat_timeout_ns :: u64
  hd_is_active :: bool

section \<open>Symbols and venues\<close>

definition sh_new :: "halt_symbol \<Rightarrow> SymbolHaltState" where
  "sh_new symb =
     \<lparr>sh_symbol = symb, sh_state = trading_state_code Open, sh_last_update_ns = 0,
      sh_circuit_breaker = level_code NoLevel, sh_expected_resume_ns = 0\<rparr>"

definition sh_update :: "SymbolHaltState \<Rightarrow> 'venue HaltEvent \<Rightarrow> SymbolHaltState" where
  "sh_update s ev =
     (let s = s\<lparr>sh_state := trading_state_code (he_state ev), sh_last_update_ns := he_timestamp_ns ev,
                sh_circuit_breaker := level_code (he_circuit_breaker_level ev)\<rparr>
      in case he_expected_resume_ns ev of
           Some resume \<Rightarrow> s\<lparr>sh_expected_resume_ns := resume\<rparr>
         | None \<Rightarrow> s)"

definition sh_is_halted :: "SymbolHaltState \<Rightarrow> bool" where
  "sh_is_halted s = (\<not> is_tradeable (trading_state_from_u8 (sh_state s)))"

definition vh_new :: "'venue \<Rightarrow> 'venue VenueHaltState" where
  "vh_new venue_id =
     \<lparr>vh_venue_id = venue_id, vh_global_state = trading_state_code Open, vh_symbols = [],
      vh_any_halted = False\<rparr>"

text \<open>
  \<open>get_or_create_symbol\<close> followed by \<open>update\<close> on the shared state: the first entry of the
  symbol is updated, a missing one is pushed first.
\<close>

fun update_symbol :: "'venue HaltEvent \<Rightarrow> SymbolHaltState list \<Rightarrow> SymbolHaltState list" where
  "update_symbol ev [] = [sh_update (sh_new (he_symbol ev)) ev]"
| "update_symbol ev (s # ss) =
     (if sh_symbol s = he_symbol ev then sh_update s ev # ss else s # update_symbol ev ss)"

definition vh_update_global_state :: "'venue VenueHaltState \<Rightarrow> TradingState \<Rightarrow> 'venue VenueHaltState" where
  "vh_update_global_state v state =
     v\<lparr>vh_global_state := trading_state_code state, vh_any_halted := \<not> is_tradeable state\<rparr>"

section \<open>The detector\<close>

definition hd_new :: "'venue list \<Rightarrow> 'venue HaltDetector" where
  "hd_new venues =
     \<lparr>hd_global_kill_switch = False, hd_venue_states = map vh_new venues, hd_halt_tx = [],
      hd_last_heartbeat_ns = 0, hd_heartbeat_timeout_ns = 5000000000, hd_is_active = True\<rparr>"

text \<open>The updates of the venue an event names, and the search for the first such venue.\<close>

definition vh_process :: "'venue HaltEvent \<Rightarrow> 'venue VenueHaltState \<Rightarrow> 'venue VenueHaltState" where
  "vh_process ev v =
     (let v = v\<lparr>vh_symbols := update_symbol ev (vh_symbols v)\<rparr>
      in if he_reason_code ev < 100 then vh_update_global_state v (he_state ev) else v)"

fun update_venue :: "'venue HaltEvent \<Rightarrow> 'venue VenueHaltState list \<Rightarrow> 'venue VenueHaltState list option" where
  "update_venue ev [] = None"
| "update_venue ev (v # vs) =
     (if vh_venue_id v = he_venue_id ev then Some (vh_process ev v # vs)
      else map_option (Cons v) (update_venue ev vs))"

definition hd_process_halt_message :: "'venue HaltDetector \<Rightarrow> 'venue HaltEvent \<Rightarrow> 'venue HaltDetector" where
  "hd_process_halt_message d ev =
     (if \<not> hd_is_active d then d
      else
        let d = d\<lparr>hd_last_heartbeat_ns := he_timestamp_ns ev\<rparr>;
            d = (case update_venue ev (hd_venue_states d) of
                   None \<Rightarrow> d
                 | Some vs \<Rightarrow>
                     let d = d\<lparr>hd_venue_states := vs\<rparr>
                     in if \<not> is_tradeable (he_state ev) then d\<lparr>hd_global_kill_switch := True\<rparr>
                        else
                          let any_still_halted = list_ex vh_any_halted (hd_venue_states d)
                          in if \<not> any_still_halted then d\<lparr>hd_global_kill_switch := False\<rparr> else d)
        in d\<lparr>hd_halt_tx := hd_halt_tx d @ [ev]\<rparr>)"

definition find_venue :: "'venue HaltDetector \<Rightarrow> 'venue \<Rightarrow> 'venue VenueHaltState option" where
  "find_venue d venue_id = find (\<lambda>v. vh_venue_id v = venue_id) (hd_venue_states d)"

definition find_symbol :: "'venue VenueHaltState \<Rightarrow> halt_symbol \<Rightarrow> SymbolHaltState option" where
  "find_symbol v symb = find (\<lambda>s. sh_symbol s = symb) (vh_symbols v)"

definition hd_is_symbol_tradeable :: "'venue HaltDetector \<Rightarrow> 'venue \<Rightarrow> halt_symbol \<Rightarrow> bool" where
  "hd_is_symbol_tradeable d venue_id symb =
     (if hd_global_kill_switch d then False
      else case find_venue d venue_id of
             Some v \<Rightarrow>
               if vh_any_halted v
               then (case find_symbol v symb of Some s \<Rightarrow> \<not> sh_is_halted s | None \<Rightarrow> True)
               else True
           | None \<Rightarrow> True)"

definition hd_is_venue_tradeable :: "'venue HaltDetector \<Rightarrow> 'venue \<Rightarrow> bool" where
  "hd_is_venue_tradeable d venue_id =
     (if hd_global_kill_switch d then False
      else case find_venue d venue_id of Some v \<Rightarrow> \<not> vh_any_halted v | None \<Rightarrow> True)"

definition hd_get_symbol_state :: "'venue HaltDetector \<Rightarrow> 'venue \<Rightarrow> halt_symbol \<Rightarrow> TradingState" where
  "hd_get_symbol_state d venue_id symb =
     (case find_venue d venue_id of
        Some v \<Rightarrow> (case find_symbol v symb of
                     Some s \<Rightarrow> trading_state_from_u8 (sh_state s) | None \<Rightarrow> Open)
      | None \<Rightarrow> Open)"

definition hd_check_health :: "'venue HaltDetector \<Rightarrow> u64 \<Rightarrow> bool" where
  "hd_check_health d current_time_ns =
     (let last = hd_last_heartbeat_ns d
      in if last = 0 then True else current_time_ns - last < hd_heartbeat_timeout_ns d)"

definition hd_set_active :: "'venue HaltDetector \<Rightarrow> bool \<Rightarrow> 'venue HaltDetector" where
  "hd_set_active d active = d\<lparr>hd_is_active := active\<rparr>"

text \<open>The literal \<open>"SYSTEM"\<close>.\<close>

definition system_symbol :: "u8 list" where
  "system_symbol = [0x53, 0x59, 0x53, 0x54, 0x45, 0x4D]"

definition hd_emergency_stop :: "'venue \<Rightarrow> 'venue HaltDetector \<Rightarrow> 'venue HaltDetector" where
  "hd_emergency_stop unknown d =
     (let d = d\<lparr>hd_global_kill_switch := True\<rparr>
      in d\<lparr>hd_halt_tx := hd_halt_tx d @
             [he_new unknown system_symbol TechnicalHalt Level3 0 None 999]\<rparr>)"

section \<open>The binary halt message\<close>

definition he_symbol_str :: "'venue HaltEvent \<Rightarrow> u8 list" where
  "he_symbol_str ev = (if utf8_valid (he_symbol ev) then he_symbol ev else [])"

definition parse_halt_message :: "u8 list \<Rightarrow> 'venue \<Rightarrow> 'venue HaltEvent option" where
  "parse_halt_message data venue_id =
     (if length data < 32 then None
      else if data ! 0 \<noteq> 0x48 then None
      else
        let reason_code = from_le_bytes [data ! 1, data ! 2];
            symbol = take 12 (drop 2 data);
            state = trading_state_from_u8 (data ! 14);
            cb_level = (if data ! 15 = 1 then Level1 else if data ! 15 = 2 then Level2
                        else if data ! 15 = 3 then Level3 else NoLevel);
            timestamp_ns = from_le_bytes (take 8 (drop 16 data));
            resume_ns = from_le_bytes (take 8 (drop 24 data));
            expected_resume = (if 0 < resume_ns then Some resume_ns else None)
        in Some (he_new venue_id (if utf8_valid symbol then symbol else []) state cb_level timestamp_ns
                   expected_resume reason_code))"

section \<open>Encoding\<close>

text \<open>The message as the comment in the source lays it out.\<close>

definition encode_halt ::
    "u8 \<Rightarrow> halt_symbol \<Rightarrow> TradingState \<Rightarrow> CircuitBreakerLevel \<Rightarrow> u64 \<Rightarrow> u64 \<Rightarrow> u8 list" where
  "encode_halt reason symb state level timestamp resume =
     [0x48, reason] @ symb @ [trading_state_code state, level_code level] @
     to_le_bytes timestamp @ to_le_bytes resume"

lemma trading_state_roundtrip [simp]: "trading_state_from_u8 (trading_state_code st) = st"
  by (cases st) (simp_all add: trading_state_from_u8_def)

lemma symbol_buf_full [simp]: "length symb = 12 \<Longrightarrow> symbol_buf symb = symb"
  by (simp add: symbol_buf_def)

section \<open>Runs of the detector\<close>

datatype 'venue hd_op =
    HdProcess "'venue HaltEvent"
  | HdSetActive bool
  | HdEmergencyStop 'venue

fun hd_exec :: "'venue hd_op \<Rightarrow> 'venue HaltDetector \<Rightarrow> 'venue HaltDetector" where
  "hd_exec (HdProcess ev) d = hd_process_halt_message d ev"
| "hd_exec (HdSetActive b) d = hd_set_active d b"
| "hd_exec (HdEmergencyStop unknown) d = hd_emergency_stop unknown d"

text \<open>The first state of the venue says halted, and the kill switch is on.\<close>

definition venue_halted :: "'venue \<Rightarrow> 'venue HaltDetector \<Rightarrow> bool" where
  "venue_halted venue_id d \<longleftrightarrow>
     (\<exists>v. find_venue d venue_id = Some v \<and> vh_any_halted v) \<and> hd_global_kill_switch d"

fun resumes_venue :: "'venue \<Rightarrow> 'venue hd_op \<Rightarrow> bool" where
  "resumes_venue venue_id (HdProcess ev) \<longleftrightarrow>
     he_venue_id ev = venue_id \<and> he_reason_code ev < 100 \<and> is_tradeable (he_state ev)"
| "resumes_venue venue_id _ = False"

lemma vh_process_simps [simp]:
  "vh_venue_id (vh_process ev v) = vh_venue_id v"
  "vh_any_halted (vh_process ev v) =
     (if he_reason_code ev < 100 then \<not> is_tradeable (he_state ev) else vh_any_halted v)"
  by (simp_all add: vh_process_def vh_update_global_state_def Let_def)

lemma find_update_venue:
  "update_venue ev vs = Some vs' \<Longrightarrow>
     find (\<lambda>v. vh_venue_id v = x) vs' =
       (if he_venue_id ev = x then map_option (vh_process ev) (find (\<lambda>v. vh_venue_id v = x) vs)
        else find (\<lambda>v. vh_venue_id v = x) vs)"
  by (induction vs arbitrary: vs') (auto split: if_splits)

lemma find_list_ex: "find P xs = Some x \<Longrightarrow> Q x \<Longrightarrow> list_ex Q xs"
  by (induction xs) (auto split: if_splits)

lemma process_venue_halted:
  assumes "venue_halted x d" and "\<not> resumes_venue x (HdProcess ev)"
  shows "venue_halted x (hd_process_halt_message d ev)"
proof (cases "hd_is_active d \<and> update_venue ev (hd_venue_states d) \<noteq> None")
  case False
  then show ?thesis
    using assms(1) by (auto simp: hd_process_halt_message_def venue_halted_def find_venue_def Let_def)
next
  case True
  then obtain vs where vs: "update_venue ev (hd_venue_states d) = Some vs" and "hd_is_active d" by blast
  obtain v where "find_venue d x = Some v" "vh_any_halted v" and kill: "hd_global_kill_switch d"
    using assms(1) by (auto simp: venue_halted_def)
  then obtain v' where v': "find (\<lambda>v. vh_venue_id v = x) vs = Some v'" "vh_any_halted v'"
    using find_update_venue [OF vs, of x] assms(2) by (auto simp: find_venue_def split: if_splits)
  then have "list_ex vh_any_halted vs" by (rule find_list_ex)
  with v' kill \<open>hd_is_active d\<close> show ?thesis
    by (simp add: hd_process_halt_message_def venue_halted_def find_venue_def vs Let_def)
qed

interpretation venue_halt: latched_system hd_exec "\<lambda>op. \<not> resumes_venue x op" "venue_halted x"
proof
  fix d :: "'a HaltDetector" and op
  assume "venue_halted x d" and "\<not> resumes_venue x op"
  then show "venue_halted x (hd_exec op d)"
    by (cases op) (simp_all add: process_venue_halted del: resumes_venue.simps,
      simp_all add: venue_halted_def find_venue_def hd_set_active_def hd_emergency_stop_def Let_def)
qed

lemma halt_venue:
  assumes "hd_is_active d" and "find_venue d (he_venue_id ev) \<noteq> None"
    and "he_reason_code ev < 100" and "\<not> is_tradeable (he_state ev)"
  shows "venue_halted (he_venue_id ev) (hd_process_halt_message d ev)"
proof -
  have "update_venue ev vs \<noteq> None" if "find (\<lambda>v. vh_venue_id v = he_venue_id ev) vs \<noteq> None" for vs
    using that by (induction vs) auto
  then obtain vs where vs: "update_venue ev (hd_venue_states d) = Some vs"
    using assms(2) by (auto simp: find_venue_def)
  from find_update_venue [OF this, of "he_venue_id ev"] assms show ?thesis
    by (auto simp: hd_process_halt_message_def venue_halted_def find_venue_def vs Let_def)
qed

section \<open>Properties\<close>

text \<open>
  A venue-wide halt stops everything until the venue resumes. After an active detector
  processes a venue-wide halt (reason code below 100) of a venue it monitors, no symbol of
  any venue is tradeable, through every sequence of calls without a venue-wide resumption of
  that venue.
\<close>

lemma venue_halt_persists:
  assumes "hd_is_active d" and "find_venue d (he_venue_id ev) \<noteq> None"
    and "he_reason_code ev < 100" and "\<not> is_tradeable (he_state ev)"
    and "list_all (\<lambda>op. \<not> resumes_venue (he_venue_id ev) op) ops"
  shows "\<not> hd_is_symbol_tradeable (run hd_exec ops (hd_process_halt_message d ev)) venue symb \<and>
    \<not> hd_is_venue_tradeable (run hd_exec ops (hd_process_halt_message d ev)) venue"
  using venue_halt.run_latch [OF halt_venue [OF assms(1-4)] assms(5)]
  by (simp add: venue_halted_def hd_is_symbol_tradeable_def hd_is_venue_tradeable_def)

text \<open>
  A halted symbol is reopened by any other symbol. When a symbol is halted by a symbol
  halt (reason code 100 or more) and another symbol of the venue then reports trading, the
  halted symbol is still recorded as halted, but the detector says it is tradeable.
\<close>

lemma halted_symbol_reopened:
  fixes halt resume :: "'venue HaltEvent" and venue :: 'venue
  defines "d \<equiv> run hd_exec [HdProcess halt, HdProcess resume] (hd_new [venue])"
  assumes "he_venue_id halt = venue" and "he_venue_id resume = venue"
    and "he_symbol halt \<noteq> he_symbol resume"
    and "100 \<le> he_reason_code halt" and "100 \<le> he_reason_code resume"
    and "\<not> is_tradeable (he_state halt)" and "is_tradeable (he_state resume)"
  shows "hd_get_symbol_state d venue (he_symbol halt) = he_state halt \<and>
    hd_is_symbol_tradeable d venue (he_symbol halt)"
proof -
  have upd: "sh_symbol (sh_update s ev) = sh_symbol s"
    "sh_state (sh_update s ev) = trading_state_code (he_state ev)" for s and ev :: "'venue HaltEvent"
    by (simp_all add: sh_update_def Let_def split: option.split)
  have "\<not> he_reason_code halt < 100" "\<not> he_reason_code resume < 100"
    using assms(5,6) by (simp_all add: not_less)
  then show ?thesis
    using assms(2-4) assms(7,8)
    by (simp add: d_def hd_new_def vh_new_def hd_process_halt_message_def vh_process_def Let_def
        hd_get_symbol_state_def hd_is_symbol_tradeable_def find_venue_def find_symbol_def upd
        sh_new_def)
qed

text \<open>
  Parsing a halt message, in the layout the source documents, gives back its symbol,
  state, level and times; but the reason code shares its high byte with the first byte of
  the symbol. So whenever a symbol starts with a non-zero byte the parsed reason is at least
  256, and the halt is never taken as venue-wide.
\<close>

lemma halt_message_roundtrip:
  assumes "length symb = 12" and "utf8_valid symb"
  shows "\<exists>reason. parse_halt_message (encode_halt r symb st lvl ts resume) venue =
      Some \<lparr>he_venue_id = venue, he_symbol = symb, he_state = st, he_circuit_breaker_level = lvl,
        he_timestamp_ns = ts, he_expected_resume_ns = (if resume = 0 then None else Some resume),
        he_reason_code = reason\<rparr> \<and>
    unat reason = unat r + 256 * unat (hd symb) \<and> (hd symb \<noteq> 0 \<longrightarrow> \<not> reason < 100)"
proof -
  obtain a as where symb: "symb = a # as" and len: "length as = 11"
    using assms(1) by (cases symb) auto
  let ?data = "encode_halt r symb st lvl ts resume"
  let ?reason = "from_le_bytes [r, a] :: 16 word"
  have data: "length ?data = 32" "?data ! 0 = 0x48" "?data ! 1 = r" "?data ! 2 = a"
    "take 12 (drop 2 ?data) = symb" "?data ! 14 = trading_state_code st" "?data ! 15 = level_code lvl"
    "take 8 (drop 16 ?data) = to_le_bytes ts" "take 8 (drop 24 ?data) = to_le_bytes resume"
    using len by (simp_all add: encode_halt_def symb nth_append nth_Cons')
  have byte: "unat (ucast b :: 16 word) = unat b" for b :: u8
    using unsigned_less [of b, where ?'a = nat]
    by (simp add: unsigned_ucast_eq take_bit_nat_eq_self_iff)
  have reason: "unat ?reason = unat r + 256 * unat a"
    using unsigned_less [of r, where ?'a = nat] unsigned_less [of a, where ?'a = nat]
    by (simp add: from_le_bytes_def unat_word_ariths byte)
  then have "\<not> ?reason < 100" if "a \<noteq> 0"
    using that by (simp add: word_less_nat_alt unat_eq_zero [symmetric])
  moreover have lvl: "(if level_code lvl = 1 then Level1 else if level_code lvl = 2 then Level2
      else if level_code lvl = 3 then Level3 else NoLevel) = lvl"
    by (cases lvl) simp_all
  have "parse_halt_message ?data venue = Some (he_new venue symb st lvl ts
      (if resume = 0 then None else Some resume) ?reason)"
    unfolding parse_halt_message_def data Let_def lvl
    using assms by (simp add: word_neq_0_conv [symmetric])
  ultimately show ?thesis
    using reason assms(1) by (intro exI [of _ ?reason]) (simp add: he_new_def, simp add: symb)
qed

end
