(* ===== verification/Price_Map.thy ===== *)
theory Price_Map
  imports Machine "HOL-Library.Multiset"
begin

text \<open>
  The \<open>BTreeMap\<close> with \<open>i64\<close> keys that the price books are built on: an association list in
  strictly ascending order of the keys, which is also the order the source iterates in. The
  locale \<open>ordered_map\<close> is what the clients rely on.
\<close>

type_synonym 'v price_map = "(i64 \<times> 'v) list"

section \<open>Operations\<close>

text \<open>\<open>get\<close>, \<open>insert\<close> and \<open>remove\<close>.\<close>

fun bt_get :: "'v price_map \<Rightarrow> i64 \<Rightarrow> 'v option" where
  "bt_get [] k = None"
| "bt_get ((k', v) # m) k = (if k' = k then Some v else bt_get m k)"

fun bt_put :: "i64 \<Rightarrow> 'v \<Rightarrow> 'v price_map \<Rightarrow> 'v price_map" where
  "bt_put k v [] = [(k, v)]"
| "bt_put k v ((k', v') # m) =
     (if k <s k' then (k, v) # (k', v') # m
      else if k = k' then (k, v) # m
      else (k', v') # bt_put k v m)"

fun bt_del :: "i64 \<Rightarrow> 'v price_map \<Rightarrow> 'v price_map" where
  "bt_del k [] = []"
| "bt_del k ((k', v) # m) = (if k' = k then m else (k', v) # bt_del k m)"

definition bt_sorted :: "'v price_map \<Rightarrow> bool" where
  "bt_sorted m \<longleftrightarrow> sorted_wrt (\<lambda>a b. sint (fst a) < sint (fst b)) m"

section \<open>The contract\<close>

locale ordered_map =
  fixes get :: "'m \<Rightarrow> 'k :: finite \<Rightarrow> 'v option"
    and put :: "'k \<Rightarrow> 'v \<Rightarrow> 'm \<Rightarrow> 'm"
    and del :: "'k \<Rightarrow> 'm \<Rightarrow> 'm"
    and entries :: "'m \<Rightarrow> ('k \<times> 'v) list"
    and ok :: "'m \<Rightarrow> bool"
  assumes get_put: "ok m \<Longrightarrow> get (put k v m) = (get m)(k \<mapsto> v)"
    and get_del: "ok m \<Longrightarrow> get (del k m) = (get m)(k := None)"
    and ok_put: "ok m \<Longrightarrow> ok (put k v m)"
    and ok_del: "ok m \<Longrightarrow> ok (del k m)"
    and get_entries: "get m = map_of (entries m)"
    and distinct_entries: "ok m \<Longrightarrow> distinct (map fst (entries m))"
begin

text \<open>A sum over the entries is a sum over all keys.\<close>

lemma sum_entries:
  assumes "ok m"
  shows "(\<Sum>e\<leftarrow>entries m. f (fst e) (snd e)) =
    (\<Sum>k\<in>UNIV. case get m k of Some v \<Rightarrow> f k v | None \<Rightarrow> (0 :: nat))"
proof -
  have "distinct (map fst es) \<Longrightarrow> (\<Sum>e\<leftarrow>es. f (fst e) (snd e)) =
      (\<Sum>k\<in>UNIV. case map_of es k of Some v \<Rightarrow> f k v | None \<Rightarrow> 0)" for es
  proof (induction es)
    case Nil
    show ?case by simp
  next
    case (Cons e es)
    let ?g = "\<lambda>es k. case map_of es k of Some v \<Rightarrow> f k v | None \<Rightarrow> 0"
    have "?g (e # es) k = (if k = fst e then f (fst e) (snd e) else 0) + ?g es k" for k
      using Cons.prems by (cases "k = fst e") (auto simp: map_of_eq_None_iff [THEN iffD2])
    then have "sum (?g (e # es)) UNIV = f (fst e) (snd e) + sum (?g es) UNIV"
      by (simp add: sum.distrib)
    with Cons show ?case by simp
  qed
  with distinct_entries [OF assms] show ?thesis by (simp add: get_entries)
qed

lemma mem_entries: "ok m \<Longrightarrow> (k, v) \<in> set (entries m) \<longleftrightarrow> get m k = Some v"
  by (simp add: get_entries distinct_entries)

end

section \<open>The sorted list meets it\<close>

lemma bt_get_map_of: "bt_get m = map_of m"
proof
  fix k
  show "bt_get m k = map_of m k" by (induction m) auto
qed

lemma bt_sorted_simps [simp]:
  "bt_sorted []"
  "bt_sorted ((k, v) # m) \<longleftrightarrow> (\<forall>e \<in> set m. sint k < sint (fst e)) \<and> bt_sorted m"
  by (simp_all add: bt_sorted_def)

lemma fst_set_bt_put: "fst ` set (bt_put k v m) = insert k (fst ` set m)"
  by (induction k v m rule: bt_put.induct) auto

lemma set_bt_del_subset: "set (bt_del k m) \<subseteq> set m"
  by (induction m) (auto split: if_splits)

lemma bt_sorted_Cons: "bt_sorted (e # m) \<longleftrightarrow> (\<forall>k \<in> fst ` set m. sint (fst e) < sint k) \<and> bt_sorted m"
  by (cases e) simp

lemma bt_sorted_put: "bt_sorted m \<Longrightarrow> bt_sorted (bt_put k v m)"
proof (induction k v m rule: bt_put.induct)
  case (2 k v k' v' m)
  consider "k <s k'" | "k = k'" | "sint k' < sint k"
    by (metis linorder_neqE signed_word_eqI word_sless_alt)
  then show ?case
  proof cases
    case 1
    then show ?thesis using 2(2) by (force simp: bt_sorted_Cons word_sless_alt)
  next
    case 2
    then show ?thesis using "2.prems" by (simp add: bt_sorted_Cons word_sless_alt)
  next
    case 3
    then have "\<not> k <s k'" "k \<noteq> k'" by (auto simp: word_sless_alt)
    with 2 3 show ?thesis by (simp add: bt_sorted_Cons fst_set_bt_put del: bt_sorted_simps)
  qed
qed simp

lemma bt_sorted_del: "bt_sorted m \<Longrightarrow> bt_sorted (bt_del k m)"
  using set_bt_del_subset by (induction m) fastforce+

lemma bt_sorted_distinct: "bt_sorted m \<Longrightarrow> distinct (map fst m)"
  by (induction m) force+

lemma map_of_bt_put: "bt_sorted m \<Longrightarrow> map_of (bt_put k v m) = (map_of m)(k \<mapsto> v)"
  by (induction k v m rule: bt_put.induct) (auto simp: fun_eq_iff)

lemma map_of_bt_del: "bt_sorted m \<Longrightarrow> map_of (bt_del k m) = (map_of m)(k := None)"
proof (induction m)
  case (Cons e m)
  then have "map_of m (fst e) = None"
    by (cases e) (force simp: map_of_eq_None_iff)
  with Cons show ?case by (cases e) (auto simp: fun_eq_iff)
qed simp

interpretation bt: ordered_map bt_get bt_put bt_del "\<lambda>m. m" bt_sorted
  by unfold_locales
    (simp_all add: bt_get_map_of map_of_bt_put map_of_bt_del bt_sorted_put bt_sorted_del
      bt_sorted_distinct)

text \<open>The elements of a map of lists, in the order of the keys.\<close>

abbreviation bt_list :: "'a list price_map \<Rightarrow> i64 \<Rightarrow> 'a list" where
  "bt_list m k \<equiv> (case bt_get m k of Some xs \<Rightarrow> xs | None \<Rightarrow> [])"

definition bt_concat :: "'a list price_map \<Rightarrow> 'a list" where
  "bt_concat m = concat (map snd m)"

lemma set_bt_concat: "bt_sorted m \<Longrightarrow> x \<in> set (bt_concat m) \<longleftrightarrow> (\<exists>k. x \<in> set (bt_list m k))"
  by (force simp: bt_concat_def bt_get_map_of dest: bt_sorted_distinct split: option.splits)

lemma mset_bt_concat_put:
  "bt_sorted m \<Longrightarrow>
     mset (bt_concat (bt_put k v m)) + mset (bt_list m k) = mset (bt_concat m) + mset v"
proof (induction k v m rule: bt_put.induct)
  case (2 k v k' v' m)
  have "bt_get m k = None" if "k <s k' \<or> k = k'"
    using that 2(2) by (force simp: bt_get_map_of map_of_eq_None_iff word_sless_alt)
  with 2 show ?case by (auto simp: bt_concat_def)
qed (simp add: bt_concat_def)

end
