(* ===== verification/Auction_Book.thy ===== *)
theory Auction_Book
  imports Price_Map
begin

text \<open>
  The call-auction book of one symbol (\<open>src/src/exchange/auction_engine.rs\<close>, the private type
  \<open>AuctionBook\<close>): entering, cancelling and modifying orders, the indicative clearing price and
  the clearing of the book.

  Two places of the source do not compile and are read as they are meant: \<open>cancel_order\<close>
  removes the first order with the id from the vector it is iterating over, and \<open>drain\<close>
  (which \<open>BTreeMap\<close> does not have) hands out the price levels in ascending order.
\<close>

section \<open>Data\<close>

datatype AuctionPhase = Inactive | PreOpen | OrderModification | Freeze | Matching | Executing

datatype Side = Buy | Sell

type_synonym auction_symbol = "u8 list"

record AuctionOrder =
  auo_order_id :: u64
  auo_symbol :: auction_symbol
  auo_side :: Side
  auo_price_ticks :: i64
  auo_quantity :: u64
  auo_remaining_qty :: u64
  auo_timestamp_ns :: u64
  auo_is_market_order :: bool
  auo_stp_group_id :: "u32 option"

record IndicativePrice =
  ip_price_ticks :: i64
  ip_executable_volume :: u64
  ip_buy_imbalance :: i64
  ip_sell_imbalance :: i64
  ip_total_buy_volume :: u64
  ip_total_sell_volume :: u64

record AuctionBook =
  ab_symbol :: auction_symbol
  ab_buy_orders :: "AuctionOrder list price_map"
  ab_sell_orders :: "AuctionOrder list price_map"
  ab_buy_volume_by_price :: "u64 price_map"
  ab_sell_volume_by_price :: "u64 price_map"
  ab_order_lookup :: "u64 \<rightharpoonup> i64 \<times> Side"

fun allows_order_entry :: "AuctionPhase \<Rightarrow> bool" where
  "allows_order_entry PreOpen = True"
| "allows_order_entry OrderModification = True"
| "allows_order_entry _ = False"

fun allows_cancellation :: "AuctionPhase \<Rightarrow> bool" where
  "allows_cancellation Executing = False"
| "allows_cancellation _ = True"

fun auction_phase_code :: "AuctionPhase \<Rightarrow> u8" where
  "auction_phase_code Inactive = 0"
| "auction_phase_code PreOpen = 1"
| "auction_phase_code OrderModification = 2"
| "auction_phase_code Freeze = 3"
| "auction_phase_code Matching = 4"
| "auction_phase_code Executing = 5"

definition auction_phase_from_u8 :: "u8 \<Rightarrow> AuctionPhase" where
  "auction_phase_from_u8 val =
     (if val = 0 then Inactive else if val = 1 then PreOpen else if val = 2 then OrderModification
      else if val = 3 then Freeze else if val = 4 then Matching else if val = 5 then Executing
      else Inactive)"

definition side_from_u8 :: "u8 \<Rightarrow> Side" where
  "side_from_u8 val = (if val = 0 then Buy else Sell)"

section \<open>Operations\<close>

definition ab_new :: "auction_symbol \<Rightarrow> AuctionBook" where
  "ab_new symb =
     \<lparr>ab_symbol = symb, ab_buy_orders = [], ab_sell_orders = [], ab_buy_volume_by_price = [],
      ab_sell_volume_by_price = [], ab_order_lookup = Map.empty\<rparr>"

text \<open>\<open>entry(price).or_default().push(order)\<close> and \<open>*entry(price).or_insert(0) += quantity\<close>.\<close>

definition push_at :: "i64 \<Rightarrow> AuctionOrder \<Rightarrow> AuctionOrder list price_map \<Rightarrow> AuctionOrder list price_map" where
  "push_at price ord m = bt_put price (bt_list m price @ [ord]) m"

definition add_volume :: "i64 \<Rightarrow> u64 \<Rightarrow> u64 price_map \<Rightarrow> u64 price_map" where
  "add_volume price q m = bt_put price ((case bt_get m price of Some v \<Rightarrow> v | None \<Rightarrow> 0) + q) m"

definition ab_add_order :: "AuctionBook \<Rightarrow> AuctionOrder \<Rightarrow> AuctionBook" where
  "ab_add_order b ord =
     (let price = auo_price_ticks ord; side = auo_side ord;
          b = (case side of
                 Buy \<Rightarrow> b\<lparr>ab_buy_orders := push_at price ord (ab_buy_orders b),
                          ab_buy_volume_by_price :=
                            add_volume price (auo_quantity ord) (ab_buy_volume_by_price b)\<rparr>
               | Sell \<Rightarrow> b\<lparr>ab_sell_orders := push_at price ord (ab_sell_orders b),
                           ab_sell_volume_by_price :=
                             add_volume price (auo_quantity ord) (ab_sell_volume_by_price b)\<rparr>)
      in b\<lparr>ab_order_lookup := (ab_order_lookup b)(auo_order_id ord \<mapsto> (price, side))\<rparr>)"

text \<open>The search of \<open>cancel_order\<close>: the first order with the id, and the vector without it.\<close>

fun remove_first :: "u64 \<Rightarrow> AuctionOrder list \<Rightarrow> (AuctionOrder \<times> AuctionOrder list) option" where
  "remove_first x [] = None"
| "remove_first x (ord # os) =
     (if auo_order_id ord = x then Some (ord, os)
      else map_option (\<lambda>(r, os). (r, ord # os)) (remove_first x os))"

text \<open>The volume update of \<open>cancel_order\<close>: saturating, and an empty level is removed.\<close>

definition sub_volume :: "i64 \<Rightarrow> u64 \<Rightarrow> u64 price_map \<Rightarrow> u64 price_map" where
  "sub_volume price q m =
     (case bt_get m price of
        Some vol \<Rightarrow> let vol = u64_sat_sub vol q in if vol = 0 then bt_del price m else bt_put price vol m
      | None \<Rightarrow> m)"

definition ab_cancel_order :: "AuctionBook \<Rightarrow> u64 \<Rightarrow> AuctionOrder option \<times> AuctionBook" where
  "ab_cancel_order b x =
     (case ab_order_lookup b x of
        None \<Rightarrow> (None, b)
      | Some (price, side) \<Rightarrow>
          let b = b\<lparr>ab_order_lookup := (ab_order_lookup b)(x := None)\<rparr>
          in case (case side of Buy \<Rightarrow> bt_get (ab_buy_orders b) price
                              | Sell \<Rightarrow> bt_get (ab_sell_orders b) price) of
               None \<Rightarrow> (None, b)
             | Some os \<Rightarrow>
                 (case remove_first x os of
                    None \<Rightarrow> (None, b)
                  | Some (removed, os) \<Rightarrow>
                      (Some removed,
                       case side of
                         Buy \<Rightarrow> b\<lparr>ab_buy_orders := bt_put price os (ab_buy_orders b),
                                  ab_buy_volume_by_price :=
                                    sub_volume price (auo_quantity removed) (ab_buy_volume_by_price b)\<rparr>
                       | Sell \<Rightarrow> b\<lparr>ab_sell_orders := bt_put price os (ab_sell_orders b),
                                   ab_sell_volume_by_price :=
                                     sub_volume price (auo_quantity removed) (ab_sell_volume_by_price b)\<rparr>)))"

text \<open>The order \<open>modify_order\<close> puts back.\<close>

definition modified_order :: "AuctionOrder \<Rightarrow> u64 \<Rightarrow> i64 option \<Rightarrow> AuctionOrder" where
  "modified_order removed new_quantity new_price =
     (let modified = removed\<lparr>auo_quantity := new_quantity, auo_remaining_qty := new_quantity\<rparr>
      in case new_price of Some price \<Rightarrow> modified\<lparr>auo_price_ticks := price\<rparr> | None \<Rightarrow> modified)"

definition ab_modify_order :: "AuctionBook \<Rightarrow> u64 \<Rightarrow> u64 \<Rightarrow> i64 option \<Rightarrow> bool \<times> AuctionBook" where
  "ab_modify_order b x new_quantity new_price =
     (case ab_order_lookup b x of
        None \<Rightarrow> (False, b)
      | Some _ \<Rightarrow>
          (case ab_cancel_order b x of
             (Some removed, b) \<Rightarrow> (True, ab_add_order b (modified_order removed new_quantity new_price))
           | (None, b) \<Rightarrow> (False, b)))"

text \<open>\<open>prices.sort()\<close> followed by \<open>dedup()\<close>.\<close>

definition sort_dedup :: "i64 list \<Rightarrow> i64 list" where
  "sort_dedup ps = remdups_adj (sort_key sint ps)"

text \<open>The two inner loops: volume at or above the price, and at or below it.\<close>

fun volume_where :: "(i64 \<Rightarrow> bool) \<Rightarrow> u64 price_map \<Rightarrow> u64 \<Rightarrow> u64" where
  "volume_where P [] acc = acc"
| "volume_where P ((p, vol) # m) acc = volume_where P m (if P p then acc + vol else acc)"

record clearing =
  cl_best_price :: i64
  cl_max_volume :: u64
  cl_best_buy_imbalance :: i64
  cl_best_sell_imbalance :: i64

text \<open>One candidate price of the outer loop.\<close>

definition clearing_step :: "u64 price_map \<Rightarrow> u64 price_map \<Rightarrow> i64 \<Rightarrow> clearing \<Rightarrow> clearing" where
  "clearing_step buys sells price c =
     (let total_buy_vol = volume_where (\<lambda>p. price \<le>s p) buys 0;
          total_sell_vol = volume_where (\<lambda>p. p \<le>s price) sells 0;
          executable_vol = min total_buy_vol total_sell_vol
      in if cl_max_volume c < executable_vol
         then \<lparr>cl_best_price = price, cl_max_volume = executable_vol,
               cl_best_buy_imbalance = total_buy_vol - executable_vol,
               cl_best_sell_imbalance = total_sell_vol - executable_vol\<rparr>
         else if executable_vol = cl_max_volume c \<and> 0 < cl_max_volume c
         then
           let buy_imb = total_buy_vol - executable_vol;
               sell_imb = total_sell_vol - executable_vol;
               current_imb = i64_div (i64_abs (cl_best_buy_imbalance c)
                                      + i64_abs (cl_best_sell_imbalance c)) 2;
               new_imb = i64_div (i64_abs buy_imb + i64_abs sell_imb) 2
           in if new_imb <s current_imb
              then c\<lparr>cl_best_price := price, cl_best_buy_imbalance := buy_imb,
                     cl_best_sell_imbalance := sell_imb\<rparr>
              else c
         else c)"

definition ab_calculate_indicative_price :: "AuctionBook \<Rightarrow> IndicativePrice option" where
  "ab_calculate_indicative_price b =
     (let buys = ab_buy_volume_by_price b; sells = ab_sell_volume_by_price b
      in if buys = [] \<or> sells = [] then None
         else
           let prices = sort_dedup (map fst buys @ map fst sells);
               c = fold (clearing_step buys sells) prices
                     \<lparr>cl_best_price = 0, cl_max_volume = 0, cl_best_buy_imbalance = 0,
                      cl_best_sell_imbalance = 0\<rparr>
           in if cl_max_volume c = 0 then None
              else Some \<lparr>ip_price_ticks = cl_best_price c, ip_executable_volume = cl_max_volume c,
                         ip_buy_imbalance = cl_best_buy_imbalance c,
                         ip_sell_imbalance = cl_best_sell_imbalance c,
                         ip_total_buy_volume = sum_list (map snd buys),
                         ip_total_sell_volume = sum_list (map snd sells)\<rparr>)"

definition ab_clear_book :: "AuctionBook \<Rightarrow> AuctionOrder list \<times> AuctionBook" where
  "ab_clear_book b =
     (bt_concat (ab_buy_orders b) @ bt_concat (ab_sell_orders b),
      b\<lparr>ab_buy_orders := [], ab_sell_orders := [], ab_buy_volume_by_price := [],
        ab_sell_volume_by_price := [], ab_order_lookup := Map.empty\<rparr>)"

section \<open>The invariant of the book\<close>

fun ab_orders_on :: "Side \<Rightarrow> AuctionBook \<Rightarrow> AuctionOrder list price_map" where
  "ab_orders_on Buy b = ab_buy_orders b"
| "ab_orders_on Sell b = ab_sell_orders b"

fun ab_volume_on :: "Side \<Rightarrow> AuctionBook \<Rightarrow> u64 price_map" where
  "ab_volume_on Buy b = ab_buy_volume_by_price b"
| "ab_volume_on Sell b = ab_sell_volume_by_price b"

text \<open>The open orders, in the order \<open>clear_book\<close> hands them out, and their total quantity.\<close>

definition ab_open :: "AuctionBook \<Rightarrow> AuctionOrder list" where
  "ab_open b = fst (ab_clear_book b)"

definition qty_sum :: "AuctionOrder list \<Rightarrow> nat" where
  "qty_sum os = (\<Sum>ord\<leftarrow>os. unat (auo_quantity ord))"

abbreviation level_volume :: "u64 price_map \<Rightarrow> i64 \<Rightarrow> u64" where
  "level_volume m p \<equiv> (case bt_get m p of Some v \<Rightarrow> v | None \<Rightarrow> 0)"

text \<open>
  One side: every order sits at the level of its price, and the volume of a level is the sum
  of the quantities of its orders.
\<close>

definition side_inv :: "Side \<Rightarrow> AuctionOrder list price_map \<Rightarrow> u64 price_map \<Rightarrow> bool" where
  "side_inv side ords vols \<longleftrightarrow> bt_sorted ords \<and> bt_sorted vols \<and>
     (\<forall>p. \<forall>ord \<in> set (bt_list ords p). auo_price_ticks ord = p \<and> auo_side ord = side) \<and>
     (\<forall>p. unat (level_volume vols p) = qty_sum (bt_list ords p))"

definition ab_inv :: "AuctionBook \<Rightarrow> bool" where
  "ab_inv b \<longleftrightarrow> (\<forall>side. side_inv side (ab_orders_on side b) (ab_volume_on side b)) \<and>
     distinct (map auo_order_id (ab_open b)) \<and> qty_sum (ab_open b) < 2 ^ 63 \<and>
     (\<forall>x p side. ab_order_lookup b x = Some (p, side) \<longleftrightarrow>
        (\<exists>ord \<in> set (ab_open b). auo_order_id ord = x \<and> auo_price_ticks ord = p \<and> auo_side ord = side))"

lemma qty_sum_simps [simp]:
  "qty_sum [] = 0" "qty_sum (ord # os) = unat (auo_quantity ord) + qty_sum os"
  "qty_sum (os @ os') = qty_sum os + qty_sum os'"
  by (simp_all add: qty_sum_def)

lemma qty_sum_mset: "qty_sum os = (\<Sum>ord\<in>#mset os. unat (auo_quantity ord))"
  by (simp add: qty_sum_def sum_mset_sum_list flip: mset_map)

lemma qty_sum_level:
  assumes "bt_sorted m"
  shows "qty_sum (bt_list m p) \<le> qty_sum (bt_concat m)"
proof -
  have "mset (bt_concat m) = mset (bt_concat (bt_put p [] m)) + mset (bt_list m p)"
    using mset_bt_concat_put [OF assms, of p "[]"] by simp
  then show ?thesis by (simp add: qty_sum_mset)
qed

lemma remove_first_Some:
  "remove_first x os = Some (r, os') \<Longrightarrow>
     mset os = add_mset r (mset os') \<and> auo_order_id r = x \<and> set os' \<subseteq> set os \<and> r \<in> set os"
  by (induction os arbitrary: os') (auto split: if_splits)

lemma remove_first_None: "remove_first x os = None \<longleftrightarrow> x \<notin> auo_order_id ` set os"
  by (induction os) auto

lemma side_invI:
  assumes "bt_sorted ords" and "bt_sorted vols"
    and "\<And>p ord. ord \<in> set (bt_list ords p) \<Longrightarrow> auo_price_ticks ord = p \<and> auo_side ord = side"
    and "\<And>p. unat (level_volume vols p) = qty_sum (bt_list ords p)"
  shows "side_inv side ords vols"
  using assms by (auto simp: side_inv_def)

lemma side_invD:
  assumes "side_inv side ords vols"
  shows "bt_sorted ords" "bt_sorted vols"
    and "ord \<in> set (bt_list ords p) \<Longrightarrow> auo_price_ticks ord = p \<and> auo_side ord = side"
    and "unat (level_volume vols p) = qty_sum (bt_list ords p)"
  using assms by (auto simp: side_inv_def)

lemma side_inv_add:
  assumes inv: "side_inv side ords vols" and "auo_side ord = side"
    and fits: "qty_sum (bt_concat ords) + unat (auo_quantity ord) < 2 ^ 64"
  shows "side_inv side (push_at (auo_price_ticks ord) ord ords)
    (add_volume (auo_price_ticks ord) (auo_quantity ord) vols)"
proof (rule side_invI)
  let ?p = "auo_price_ticks ord"
  note [simp] = bt.get_put [OF side_invD(1) [OF inv]] bt.get_put [OF side_invD(2) [OF inv]]
  show "bt_sorted (push_at ?p ord ords)" "bt_sorted (add_volume ?p (auo_quantity ord) vols)"
    using side_invD(1,2) [OF inv] by (simp_all add: push_at_def add_volume_def bt_sorted_put)
  show "auo_price_ticks r = p \<and> auo_side r = side" if "r \<in> set (bt_list (push_at ?p ord ords) p)" for p r
    using that side_invD(3) [OF inv, of r] assms(2)
    by (auto simp: push_at_def split: if_splits)
  have "unat (level_volume vols ?p) + unat (auo_quantity ord) < 2 ^ 64"
    using fits qty_sum_level [OF side_invD(1) [OF inv], of ?p] side_invD(4) [OF inv, of ?p] by simp
  then show "unat (level_volume (add_volume ?p (auo_quantity ord) vols) p)
      = qty_sum (bt_list (push_at ?p ord ords) p)" for p
    using side_invD(4) [OF inv, of p] side_invD(4) [OF inv, of ?p]
    by (simp add: push_at_def add_volume_def unat_add_u64)
qed

lemma level_volume_sub:
  assumes "bt_sorted vols"
  shows "unat (level_volume (sub_volume p q vols) p') =
    (if p' = p then unat (level_volume vols p) - unat q else unat (level_volume vols p'))"
  using assms unat_u64_sat_sub [of "level_volume vols p" q]
  by (auto simp: sub_volume_def Let_def bt.get_put bt.get_del split: option.split)

lemma side_inv_cancel:
  assumes inv: "side_inv side ords vols" and get: "bt_get ords p = Some os"
    and rem: "remove_first x os = Some (r, os')"
  shows "side_inv side (bt_put p os' ords) (sub_volume p (auo_quantity r) vols)"
proof (rule side_invI)
  note [simp] = bt.get_put [OF side_invD(1) [OF inv]]
  show "bt_sorted (bt_put p os' ords)" "bt_sorted (sub_volume p (auo_quantity r) vols)"
    using side_invD(1,2) [OF inv]
    by (auto simp: sub_volume_def bt_sorted_put bt_sorted_del Let_def split: option.split)
  show "auo_price_ticks r = p' \<and> auo_side r = side" if "r \<in> set (bt_list (bt_put p os' ords) p')" for p' r
    using that side_invD(3) [OF inv, of r p'] remove_first_Some [OF rem] get
    by (auto split: if_splits)
  have "qty_sum os = unat (auo_quantity r) + qty_sum os'"
    using remove_first_Some [OF rem] by (simp add: qty_sum_mset)
  then show "unat (level_volume (sub_volume p (auo_quantity r) vols) p')
      = qty_sum (bt_list (bt_put p os' ords) p')" for p'
    using side_invD(4) [OF inv, of p] side_invD(4) [OF inv, of p'] get
    by (simp add: level_volume_sub [OF side_invD(2) [OF inv]])
qed

text \<open>Reading the invariant of the whole book.\<close>

lemma ab_invD:
  assumes "ab_inv b"
  shows "side_inv side (ab_orders_on side b) (ab_volume_on side b)"
    and "distinct (map auo_order_id (ab_open b))" and "qty_sum (ab_open b) < 2 ^ 63"
    and "ab_order_lookup b x = Some (p, side) \<longleftrightarrow>
      (\<exists>ord \<in> set (ab_open b). auo_order_id ord = x \<and> auo_price_ticks ord = p \<and> auo_side ord = side)"
  using assms by (simp_all add: ab_inv_def)

lemma ab_open_eq: "ab_open b = bt_concat (ab_orders_on Buy b) @ bt_concat (ab_orders_on Sell b)"
  by (simp add: ab_open_def ab_clear_book_def)

lemma mset_ab_open:
  "mset (ab_open b) = mset (bt_concat (ab_orders_on side b)) +
     mset (bt_concat (ab_orders_on (if side = Buy then Sell else Buy) b))"
  by (cases side) (simp_all add: ab_open_eq)

lemma qty_sum_side: "qty_sum (bt_concat (ab_orders_on side b)) \<le> qty_sum (ab_open b)"
  by (cases side) (simp_all add: ab_open_eq)

lemma ab_inv_lookup_None:
  assumes "ab_inv b"
  shows "ab_order_lookup b x = None \<longleftrightarrow> x \<notin> auo_order_id ` set (ab_open b)"
proof -
  have "(\<exists>p side. ab_order_lookup b x = Some (p, side)) \<longleftrightarrow> x \<in> auo_order_id ` set (ab_open b)"
    by (auto simp: ab_invD(4) [OF assms])
  then show ?thesis by (metis not_None_eq surj_pair)
qed

text \<open>An open order is in the list of its side and price.\<close>

lemma ab_inv_mem:
  assumes "ab_inv b"
  shows "ord \<in> set (ab_open b) \<longleftrightarrow>
    ord \<in> set (bt_list (ab_orders_on (auo_side ord) b) (auo_price_ticks ord))"
proof -
  note inv = ab_invD(1) [OF assms]
  have "ord \<in> set (ab_open b) \<longleftrightarrow> (\<exists>side p. ord \<in> set (bt_list (ab_orders_on side b) p))"
    unfolding ab_open_eq set_append Un_iff
      set_bt_concat [OF side_invD(1) [OF inv [of Buy]]] set_bt_concat [OF side_invD(1) [OF inv [of Sell]]]
    by (metis Side.exhaust)
  then show ?thesis using side_invD(3) [OF inv] by metis
qed

section \<open>Effect of the operations on the open orders\<close>

lemma ab_orders_on_add:
  "ab_orders_on side (ab_add_order b ord) =
     (if side = auo_side ord then push_at (auo_price_ticks ord) ord (ab_orders_on side b)
      else ab_orders_on side b)"
  by (cases side; cases "auo_side ord") (simp_all add: ab_add_order_def Let_def)

lemma ab_volume_on_add:
  "ab_volume_on side (ab_add_order b ord) =
     (if side = auo_side ord
      then add_volume (auo_price_ticks ord) (auo_quantity ord) (ab_volume_on side b)
      else ab_volume_on side b)"
  by (cases side; cases "auo_side ord") (simp_all add: ab_add_order_def Let_def)

lemma ab_order_lookup_add:
  "ab_order_lookup (ab_add_order b ord) =
     (ab_order_lookup b)(auo_order_id ord \<mapsto> (auo_price_ticks ord, auo_side ord))"
  by (cases "auo_side ord") (simp_all add: ab_add_order_def Let_def)

lemma mset_bt_concat_push:
  "bt_sorted m \<Longrightarrow> mset (bt_concat (push_at p ord m)) = add_mset ord (mset (bt_concat m))"
  using mset_bt_concat_put [of m p "bt_list m p @ [ord]"] by (simp add: push_at_def)

lemma mset_ab_open_add:
  assumes "ab_inv b"
  shows "mset (ab_open (ab_add_order b ord)) = add_mset ord (mset (ab_open b))"
  using mset_bt_concat_push [OF side_invD(1) [OF ab_invD(1) [OF assms, of "auo_side ord"]]]
  by (simp add: mset_ab_open [of _ "auo_side ord"] ab_orders_on_add)

lemma ab_inv_add:
  assumes inv: "ab_inv b" and fresh: "auo_order_id ord \<notin> auo_order_id ` set (ab_open b)"
    and fits: "qty_sum (ab_open b) + unat (auo_quantity ord) < 2 ^ 63"
  shows "ab_inv (ab_add_order b ord)"
  unfolding ab_inv_def
proof (intro conjI allI)
  have open_add: "mset (ab_open (ab_add_order b ord)) = mset (ord # ab_open b)"
    using mset_ab_open_add [OF inv] by simp
  show "side_inv side (ab_orders_on side (ab_add_order b ord)) (ab_volume_on side (ab_add_order b ord))" for side
    using ab_invD(1) [OF inv, of side] fits qty_sum_side [of side b]
    by (auto simp: ab_orders_on_add ab_volume_on_add intro!: side_inv_add)
  have "distinct (map auo_order_id (ord # ab_open b))"
    using ab_invD(2) [OF inv] fresh by simp
  then show "distinct (map auo_order_id (ab_open (ab_add_order b ord)))"
    using open_add by (metis mset_eq_imp_distinct_iff mset_map)
  show "qty_sum (ab_open (ab_add_order b ord)) < 2 ^ 63"
    using fits unfolding qty_sum_mset open_add by (simp add: add.commute)
  have "auo_order_id r \<noteq> auo_order_id ord" if "r \<in> set (ab_open b)" for r
    using fresh that by (metis image_eqI)
  moreover have "set (ab_open (ab_add_order b ord)) = insert ord (set (ab_open b))"
    using open_add by (metis list.set(2) set_mset_mset)
  ultimately show "(ab_order_lookup (ab_add_order b ord) x = Some (p, side)) =
      (\<exists>r\<in>set (ab_open (ab_add_order b ord)). auo_order_id r = x \<and> auo_price_ticks r = p \<and> auo_side r = side)"
    for x p side
    using ab_invD(4) [OF inv, of x p side] by (auto simp: ab_order_lookup_add)
qed

lemma ab_cancel_order_eq:
  assumes "ab_order_lookup b x = Some (p, side)" and "bt_get (ab_orders_on side b) p = Some os"
    and "remove_first x os = Some (r, os')"
  shows "fst (ab_cancel_order b x) = Some r"
    and "ab_orders_on s (snd (ab_cancel_order b x)) =
      (if s = side then bt_put p os' (ab_orders_on s b) else ab_orders_on s b)"
    and "ab_volume_on s (snd (ab_cancel_order b x)) =
      (if s = side then sub_volume p (auo_quantity r) (ab_volume_on s b) else ab_volume_on s b)"
    and "ab_order_lookup (snd (ab_cancel_order b x)) = (ab_order_lookup b)(x := None)"
  using assms by (cases side; cases s; simp add: ab_cancel_order_def)+

lemma ab_cancel_unknown:
  "ab_inv b \<Longrightarrow> x \<notin> auo_order_id ` set (ab_open b) \<Longrightarrow> ab_cancel_order b x = (None, b)"
  by (simp add: ab_cancel_order_def ab_inv_lookup_None [THEN iffD2])

text \<open>The search for an open order finds it.\<close>

lemma ab_cancel_found:
  assumes inv: "ab_inv b" and ord: "ord \<in> set (ab_open b)"
  obtains os os' where "ab_order_lookup b (auo_order_id ord) = Some (auo_price_ticks ord, auo_side ord)"
    and "bt_get (ab_orders_on (auo_side ord) b) (auo_price_ticks ord) = Some os"
    and "remove_first (auo_order_id ord) os = Some (ord, os')"
proof -
  let ?x = "auo_order_id ord" and ?p = "auo_price_ticks ord" and ?s = "auo_side ord"
  have look: "ab_order_lookup b ?x = Some (?p, ?s)"
    using ab_invD(4) [OF inv] ord by blast
  have "ord \<in> set (bt_list (ab_orders_on ?s b) ?p)" using ab_inv_mem [OF inv] ord by blast
  then obtain os where get: "bt_get (ab_orders_on ?s b) ?p = Some os" and "ord \<in> set os"
    by (cases "bt_get (ab_orders_on ?s b) ?p") auto
  then obtain r os' where rem: "remove_first ?x os = Some (r, os')"
    using remove_first_None [of ?x os] by (metis image_eqI not_None_eq surj_pair)
  have "r \<in> set (ab_open b)"
    using remove_first_Some [OF rem] get side_invD(3) [OF ab_invD(1) [OF inv, of ?s], of r ?p]
    by (simp add: ab_inv_mem [OF inv])
  moreover have "auo_order_id r = ?x" using remove_first_Some [OF rem] by simp
  ultimately have "r = ord"
    using ab_invD(2) [OF inv] ord by (auto simp: distinct_map inj_on_def)
  with that [OF look get] rem show ?thesis by blast
qed

lemma ab_cancel_known:
  assumes inv: "ab_inv b" and ord: "ord \<in> set (ab_open b)"
  shows "fst (ab_cancel_order b (auo_order_id ord)) = Some ord"
    and "mset (ab_open b) = add_mset ord (mset (ab_open (snd (ab_cancel_order b (auo_order_id ord)))))"
proof -
  let ?b = "snd (ab_cancel_order b (auo_order_id ord))" and ?s = "auo_side ord"
  obtain os os' where found: "ab_order_lookup b (auo_order_id ord) = Some (auo_price_ticks ord, ?s)"
    "bt_get (ab_orders_on ?s b) (auo_price_ticks ord) = Some os"
    "remove_first (auo_order_id ord) os = Some (ord, os')"
    by (rule ab_cancel_found [OF assms])
  note eqs = ab_cancel_order_eq [OF found]
  show "fst (ab_cancel_order b (auo_order_id ord)) = Some ord" by (rule eqs(1))
  have "mset (bt_concat (ab_orders_on ?s b)) = add_mset ord (mset (bt_concat (ab_orders_on ?s ?b)))"
    using mset_bt_concat_put [OF side_invD(1) [OF ab_invD(1) [OF inv, of ?s]], of "auo_price_ticks ord" os']
      found(2) remove_first_Some [OF found(3)] by (simp add: eqs(2))
  then show "mset (ab_open b) = add_mset ord (mset (ab_open ?b))"
    by (simp add: mset_ab_open [of _ ?s] eqs(2))
qed

lemma ab_inv_cancel:
  assumes inv: "ab_inv b" and ord: "ord \<in> set (ab_open b)"
  shows "ab_inv (snd (ab_cancel_order b (auo_order_id ord)))"
proof -
  let ?b = "snd (ab_cancel_order b (auo_order_id ord))" and ?s = "auo_side ord"
  obtain os os' where found: "ab_order_lookup b (auo_order_id ord) = Some (auo_price_ticks ord, ?s)"
    "bt_get (ab_orders_on ?s b) (auo_price_ticks ord) = Some os"
    "remove_first (auo_order_id ord) os = Some (ord, os')"
    by (rule ab_cancel_found [OF assms])
  note eqs = ab_cancel_order_eq [OF found] and opn = ab_cancel_known(2) [OF assms]
  show ?thesis
    unfolding ab_inv_def
  proof (intro conjI allI)
    show "side_inv s (ab_orders_on s ?b) (ab_volume_on s ?b)" for s
      using ab_invD(1) [OF inv, of s] side_inv_cancel [OF ab_invD(1) [OF inv, of ?s] found(2,3)]
      by (simp add: eqs(2,3))
    have dist: "distinct (map auo_order_id (ord # ab_open ?b))"
      using ab_invD(2) [OF inv] opn by (metis mset.simps(2) mset_eq_imp_distinct_iff mset_map)
    then show "distinct (map auo_order_id (ab_open ?b))" by simp
    show "qty_sum (ab_open ?b) < 2 ^ 63"
      using ab_invD(3) [OF inv] unfolding qty_sum_mset opn by simp
    have "auo_order_id r \<noteq> auo_order_id ord" if "r \<in> set (ab_open ?b)" for r
      using dist that by (auto simp: image_iff)
    moreover have "set (ab_open b) = insert ord (set (ab_open ?b))"
      using opn by (metis set_mset_add_mset_insert set_mset_mset)
    ultimately show "(ab_order_lookup ?b y = Some (p, side)) =
        (\<exists>r\<in>set (ab_open ?b). auo_order_id r = y \<and> auo_price_ticks r = p \<and> auo_side r = side)" for y p side
      using ab_invD(4) [OF inv, of y p side] by (auto simp: eqs(4))
  qed
qed

section \<open>Demand and supply\<close>

text \<open>
  At a price \<open>q\<close> (any integer): the quantity of the open buys that accept it, of the open
  sells that accept it, and what can trade.
\<close>

definition demand_at :: "AuctionOrder list \<Rightarrow> int \<Rightarrow> nat" where
  "demand_at os q = qty_sum (filter (\<lambda>ord. auo_side ord = Buy \<and> q \<le> sint (auo_price_ticks ord)) os)"

definition supply_at :: "AuctionOrder list \<Rightarrow> int \<Rightarrow> nat" where
  "supply_at os q = qty_sum (filter (\<lambda>ord. auo_side ord = Sell \<and> sint (auo_price_ticks ord) \<le> q) os)"

definition tradable :: "AuctionOrder list \<Rightarrow> int \<Rightarrow> nat" where
  "tradable os q = min (demand_at os q) (supply_at os q)"

definition imbalance :: "AuctionOrder list \<Rightarrow> int \<Rightarrow> nat" where
  "imbalance os q = demand_at os q + supply_at os q - 2 * tradable os q"

text \<open>The volume of the levels that satisfy \<open>P\<close>, over the naturals.\<close>

definition levels_where :: "(i64 \<Rightarrow> bool) \<Rightarrow> u64 price_map \<Rightarrow> nat" where
  "levels_where P vols = (\<Sum>e\<leftarrow>vols. if P (fst e) then unat (snd e) else 0)"

lemma volume_where_acc: "volume_where P m acc = acc + volume_where P m 0"
proof (induction m arbitrary: acc)
  case (Cons e m)
  show ?case
    using Cons.IH [of "acc + snd e"] Cons.IH [of "snd e"] Cons.IH [of acc] by (cases e) simp
qed simp

lemma unat_volume_where:
  "levels_where P m < 2 ^ 64 \<Longrightarrow> unat (volume_where P m 0) = levels_where P m"
proof (induction m)
  case (Cons e m)
  obtain k v where e: "e = (k, v)" by fastforce
  have "unat (v + volume_where P m 0) = unat v + levels_where P m" if "P k"
    using Cons that by (subst unat_add_u64) (simp_all add: e levels_where_def)
  then show ?case
    using Cons volume_where_acc [of P m v] by (auto simp: e levels_where_def)
qed (simp add: levels_where_def)

lemma qty_sum_concat: "qty_sum (concat oss) = (\<Sum>os\<leftarrow>oss. qty_sum os)"
  by (induction oss) simp_all

lemma qty_sum_filter_const:
  "(\<And>ord. ord \<in> set os \<Longrightarrow> Q ord = c) \<Longrightarrow> qty_sum (filter Q os) = (if c then qty_sum os else 0)"
  by (induction os) auto

lemma levels_where_orders:
  assumes inv: "side_inv side ords vols"
  shows "levels_where P vols = qty_sum (filter (\<lambda>ord. P (auo_price_ticks ord)) (bt_concat ords))"
proof -
  note sorted = side_invD(1,2) [OF inv]
  have "levels_where P vols = (\<Sum>k\<in>UNIV. case bt_get vols k of Some v \<Rightarrow> (if P k then unat v else 0) | None \<Rightarrow> 0)"
    unfolding levels_where_def by (rule bt.sum_entries [OF sorted(2)])
  also have "\<dots> = (\<Sum>k\<in>UNIV. case bt_get ords k of
      Some os \<Rightarrow> qty_sum (filter (\<lambda>ord. P (auo_price_ticks ord)) os) | None \<Rightarrow> 0)"
  proof (intro sum.cong refl)
    fix k
    have "qty_sum (filter (\<lambda>ord. P (auo_price_ticks ord)) (bt_list ords k))
        = (if P k then unat (level_volume vols k) else 0)"
      using side_invD(3) [OF inv, of _ k]
      by (subst qty_sum_filter_const [where c = "P k"]) (simp_all add: side_invD(4) [OF inv])
    then show "(case bt_get vols k of Some v \<Rightarrow> (if P k then unat v else 0) | None \<Rightarrow> 0) =
        (case bt_get ords k of Some os \<Rightarrow> qty_sum (filter (\<lambda>ord. P (auo_price_ticks ord)) os) | None \<Rightarrow> 0)"
      by (cases "bt_get vols k"; cases "bt_get ords k") (auto split: if_splits)
  qed
  also have "\<dots> = (\<Sum>e\<leftarrow>ords. qty_sum (filter (\<lambda>ord. P (auo_price_ticks ord)) (snd e)))"
    by (rule bt.sum_entries [OF sorted(1), symmetric])
  also have "\<dots> = qty_sum (filter (\<lambda>ord. P (auo_price_ticks ord)) (bt_concat ords))"
    by (simp add: bt_concat_def filter_concat qty_sum_concat o_def)
  finally show ?thesis .
qed

lemma filter_side:
  assumes "ab_inv b"
  shows "filter (\<lambda>ord. auo_side ord = side \<and> Q ord) (ab_open b) = filter Q (bt_concat (ab_orders_on side b))"
proof -
  have "auo_side ord = s" if "ord \<in> set (bt_concat (ab_orders_on s b))" for s ord
    using that side_invD(3) [OF ab_invD(1) [OF assms]]
    by (auto simp: set_bt_concat [OF side_invD(1) [OF ab_invD(1) [OF assms]]])
  then have "filter (\<lambda>ord. auo_side ord = side \<and> Q ord) (bt_concat (ab_orders_on s b))
      = (if s = side then filter Q (bt_concat (ab_orders_on s b)) else [])" for s
    by (auto intro!: filter_cong simp: filter_empty_conv)
  then show ?thesis by (cases side) (simp_all add: ab_open_eq del: ab_orders_on.simps)
qed

lemma demand_levels:
  "ab_inv b \<Longrightarrow> demand_at (ab_open b) q = levels_where (\<lambda>p. q \<le> sint p) (ab_buy_volume_by_price b)"
  using levels_where_orders [OF ab_invD(1) [of b Buy]] by (simp add: demand_at_def filter_side)

lemma supply_levels:
  "ab_inv b \<Longrightarrow> supply_at (ab_open b) q = levels_where (\<lambda>p. sint p \<le> q) (ab_sell_volume_by_price b)"
  using levels_where_orders [OF ab_invD(1) [of b Sell]] by (simp add: supply_at_def filter_side)

lemma demand_supply_bound: "demand_at os q + supply_at os q \<le> qty_sum os"
  unfolding demand_at_def supply_at_def by (induction os) auto

end
