(* ===== verification/Auction_Price.thy ===== *)
theory Auction_Price
  imports Auction_Book
begin

text \<open>
  The indicative price of the auction (\<open>calculate_indicative_price\<close> in
  \<open>src/src/exchange/auction_engine.rs\<close>) against its specification: demand and supply of the
  open orders. The loop over the candidate prices keeps the best candidate so far; no price
  between the candidates can trade more.
\<close>

section \<open>One candidate\<close>

lemma i64_abs_small: "unat (a :: i64) < 2 ^ 63 \<Longrightarrow> i64_abs a = a"
  using sint_eq_unat [of a] unfolding i64_abs_def by (metis not_less of_nat_0_le_iff)

lemma half_imbalance:
  assumes "unat (a :: i64) + unat (b :: i64) < 2 ^ 63"
  shows "sint (i64_div (i64_abs a + i64_abs b) 2) = int ((unat a + unat b) div 2)"
proof -
  have "unat (a + b) = unat a + unat b"
    using assms by (subst unat_add_u64) simp_all
  then have ab: "sint (a + b) = int (unat a + unat b)"
    using assms sint_eq_unat [of "a + b"] by simp
  have "i64_abs a + i64_abs b = a + b"
    using assms by (simp add: i64_abs_small)
  moreover have "i64_div (a + b) 2 = word_of_int (int ((unat a + unat b) div 2))"
  proof (cases "unat a + unat b = 0")
    case True
    then show ?thesis by (simp add: i64_div_def ab)
  next
    case False
    then have "sgn (int (unat a + unat b)) = 1" by (simp only: sgn_1_pos)
    then show ?thesis unfolding i64_div_def ab zdiv_int by simp
  qed
  moreover have "(unat a + unat b) div 2 < 2 ^ 63"
    using assms div_le_dividend [of "unat a + unat b" 2] by linarith
  then have "int ((unat a + unat b) div 2) < 2 ^ 63"
    by (metis of_nat_less_iff of_nat_numeral of_nat_power)
  ultimately show ?thesis
    using sint_word_of_int_i64 [of "int ((unat a + unat b) div 2)"] by simp
qed

text \<open>
  The best candidate among those seen, in ascending order: the largest tradable volume, then
  the smallest halved imbalance, then the lowest price.
\<close>

definition better_or_same :: "AuctionOrder list \<Rightarrow> i64 \<Rightarrow> i64 \<Rightarrow> bool" where
  "better_or_same os p q \<longleftrightarrow>
     imbalance os (sint p) div 2 < imbalance os (sint q) div 2 \<or>
     imbalance os (sint p) div 2 = imbalance os (sint q) div 2 \<and> sint p \<le> sint q"

definition best_so_far :: "AuctionOrder list \<Rightarrow> i64 list \<Rightarrow> clearing \<Rightarrow> bool" where
  "best_so_far os ps c \<longleftrightarrow>
     (\<forall>p \<in> set ps. tradable os (sint p) \<le> unat (cl_max_volume c)) \<and>
     (cl_max_volume c \<noteq> 0 \<longrightarrow>
        cl_best_price c \<in> set ps \<and>
        unat (cl_max_volume c) = tradable os (sint (cl_best_price c)) \<and>
        unat (cl_best_buy_imbalance c) = demand_at os (sint (cl_best_price c)) - unat (cl_max_volume c) \<and>
        unat (cl_best_sell_imbalance c) = supply_at os (sint (cl_best_price c)) - unat (cl_max_volume c) \<and>
        (\<forall>p \<in> set ps. tradable os (sint p) = unat (cl_max_volume c) \<longrightarrow>
           better_or_same os (cl_best_price c) p))"

lemma imbalance_eq:
  "imbalance os q = (demand_at os q - tradable os q) + (supply_at os q - tradable os q)"
  by (simp add: imbalance_def tradable_def)

lemma best_more:
  assumes "best_so_far os ps c" and "unat (cl_max_volume c) < tradable os (sint price)"
    and "unat v = tradable os (sint price)"
    and "unat bi = demand_at os (sint price) - tradable os (sint price)"
    and "unat si = supply_at os (sint price) - tradable os (sint price)"
  shows "best_so_far os (ps @ [price]) \<lparr>cl_best_price = price, cl_max_volume = v,
    cl_best_buy_imbalance = bi, cl_best_sell_imbalance = si\<rparr>"
proof -
  have "tradable os (sint p) < tradable os (sint price)" if "p \<in> set ps" for p
    using assms(1,2) that unfolding best_so_far_def by (meson order_le_less_trans)
  then show ?thesis
    using assms(3-) by (force simp: best_so_far_def better_or_same_def)
qed

lemma best_tie:
  assumes "best_so_far os ps c" and "tradable os (sint price) = unat (cl_max_volume c)"
    and "cl_max_volume c \<noteq> 0"
    and "imbalance os (sint price) div 2 < imbalance os (sint (cl_best_price c)) div 2"
    and "unat bi = demand_at os (sint price) - tradable os (sint price)"
    and "unat si = supply_at os (sint price) - tradable os (sint price)"
  shows "best_so_far os (ps @ [price]) (c\<lparr>cl_best_price := price, cl_best_buy_imbalance := bi,
    cl_best_sell_imbalance := si\<rparr>)"
  using assms unfolding best_so_far_def better_or_same_def by auto

lemma best_keep:
  assumes "best_so_far os ps c" and "tradable os (sint price) \<le> unat (cl_max_volume c)"
    and "\<forall>p \<in> set ps. sint p < sint price"
    and "tradable os (sint price) = unat (cl_max_volume c) \<Longrightarrow> cl_max_volume c \<noteq> 0 \<Longrightarrow>
      imbalance os (sint (cl_best_price c)) div 2 \<le> imbalance os (sint price) div 2"
  shows "best_so_far os (ps @ [price]) c"
  using assms unfolding best_so_far_def better_or_same_def
  by (auto simp: order_le_less dest: bspec)

text \<open>The step in terms of the specification, and the invariant it keeps.\<close>

lemma clearing_step_best:
  assumes best: "best_so_far os ps c" and asc: "\<forall>p \<in> set ps. sint p < sint price"
    and fits: "qty_sum os < 2 ^ 63"
    and buy: "unat (volume_where (\<lambda>p. price \<le>s p) buys 0) = demand_at os (sint price)"
    and sell: "unat (volume_where (\<lambda>p. p \<le>s price) sells 0) = supply_at os (sint price)"
  shows "best_so_far os (ps @ [price]) (clearing_step buys sells price c)"
proof -
  define tb where "tb = volume_where (\<lambda>p. price \<le>s p) buys 0"
  define ts where "ts = volume_where (\<lambda>p. p \<le>s price) sells 0"
  have ev: "unat (min tb ts) = tradable os (sint price)"
    using buy sell by (simp add: tradable_def tb_def ts_def min_def word_le_nat_alt)
  have bi: "unat (tb - min tb ts) = demand_at os (sint price) - tradable os (sint price)"
    and si: "unat (ts - min tb ts) = supply_at os (sint price) - tradable os (sint price)"
    using buy sell by (simp_all add: unat_sub_u64 ev) (simp_all add: tb_def ts_def)
  have imb: "sint (i64_div (i64_abs (tb - min tb ts) + i64_abs (ts - min tb ts)) 2)
      = int (imbalance os (sint price) div 2)"
    using demand_supply_bound [of os "sint price"] fits
    by (subst half_imbalance) (simp_all add: bi si imbalance_eq)
  have cur: "sint (i64_div (i64_abs (cl_best_buy_imbalance c) + i64_abs (cl_best_sell_imbalance c)) 2)
      = int (imbalance os (sint (cl_best_price c)) div 2)" if "cl_max_volume c \<noteq> 0"
    using that best demand_supply_bound [of os "sint (cl_best_price c)"] fits
    by (subst half_imbalance) (simp_all add: best_so_far_def imbalance_eq)
  have gt: "cl_max_volume c < min tb ts \<longleftrightarrow> unat (cl_max_volume c) < tradable os (sint price)"
    and eq: "min tb ts = cl_max_volume c \<longleftrightarrow> tradable os (sint price) = unat (cl_max_volume c)"
    by (simp_all only: word_less_nat_alt word_unat_eq_iff ev)
  have step: "clearing_step buys sells price c =
      (if unat (cl_max_volume c) < tradable os (sint price)
       then \<lparr>cl_best_price = price, cl_max_volume = min tb ts,
             cl_best_buy_imbalance = tb - min tb ts, cl_best_sell_imbalance = ts - min tb ts\<rparr>
       else if tradable os (sint price) = unat (cl_max_volume c) \<and> cl_max_volume c \<noteq> 0 \<and>
            imbalance os (sint price) div 2 < imbalance os (sint (cl_best_price c)) div 2
       then c\<lparr>cl_best_price := price, cl_best_buy_imbalance := tb - min tb ts,
              cl_best_sell_imbalance := ts - min tb ts\<rparr>
       else c)"
    using cur unfolding clearing_step_def Let_def tb_def [symmetric] ts_def [symmetric]
      word_sless_alt imb gt eq
    by (cases "cl_max_volume c = 0") (simp_all flip: word_neq_0_conv)
  show ?thesis
    unfolding step
    by (auto simp: not_less intro!: best_more [OF best _ ev bi si] best_tie [OF best _ _ _ bi si]
        best_keep [OF best _ asc])
qed

section \<open>The loop over the candidates\<close>

lemma set_sort_dedup [simp]: "set (sort_dedup ps) = set ps"
  by (simp add: sort_dedup_def)

lemma sorted_distinct_adj: "sorted xs \<Longrightarrow> distinct_adj xs \<Longrightarrow> sorted_wrt (<) (xs :: int list)"
proof (induction xs rule: induct_list012)
  case (3 x y zs)
  then have "x < y" "sorted_wrt (<) (y # zs)" by auto
  then show ?case by force
qed simp_all

lemma sort_dedup_ascending: "sorted_wrt (\<lambda>p q. sint p < sint q) (sort_dedup ps)"
proof -
  have "inj (sint :: i64 \<Rightarrow> int)" by (intro injI) (rule signed_word_eqI)
  then have "map sint (sort_dedup ps) = remdups_adj (map sint (sort_key sint ps))"
    by (simp add: sort_dedup_def remdups_adj_map_injective)
  then have "sorted_wrt (<) (map sint (sort_dedup ps))"
    by (simp add: sorted_distinct_adj)
  then show ?thesis by (simp add: sorted_wrt_map)
qed

lemma fold_clearing_best:
  assumes "\<And>price. unat (volume_where (\<lambda>p. price \<le>s p) buys 0) = demand_at os (sint price)"
    and "\<And>price. unat (volume_where (\<lambda>p. p \<le>s price) sells 0) = supply_at os (sint price)"
    and "qty_sum os < 2 ^ 63"
  shows "sorted_wrt (\<lambda>p q. sint p < sint q) (seen @ ps) \<Longrightarrow> best_so_far os seen c \<Longrightarrow>
    best_so_far os (seen @ ps) (fold (clearing_step buys sells) ps c)"
proof (induction ps arbitrary: seen c)
  case (Cons p ps)
  have "best_so_far os (seen @ [p]) (clearing_step buys sells p c)"
    using Cons.prems assms by (intro clearing_step_best) (auto simp: sorted_wrt_append)
  with Cons.IH [of "seen @ [p]"] Cons.prems(1) show ?case by simp
qed simp

section \<open>No price trades more than the candidates\<close>

lemma levels_where_mono:
  "(\<And>p. P p \<Longrightarrow> Q p) \<Longrightarrow> levels_where P vols \<le> levels_where Q vols"
  by (induction vols) (auto simp: levels_where_def intro: add_mono)

lemma levels_where_cong:
  "(\<And>p. p \<in> fst ` set vols \<Longrightarrow> P p = Q p) \<Longrightarrow> levels_where P vols = levels_where Q vols"
  by (induction vols) (auto simp: levels_where_def)

text \<open>The lowest bid at or above \<open>q\<close> trades at least as much as \<open>q\<close>.\<close>

lemma candidate_for:
  assumes inv: "ab_inv b" and "0 < tradable (ab_open b) q"
  shows "\<exists>p \<in> fst ` set (ab_buy_volume_by_price b).
    tradable (ab_open b) q \<le> tradable (ab_open b) (sint p)"
proof -
  let ?K = "{p \<in> fst ` set (ab_buy_volume_by_price b). q \<le> sint p}"
  have pos: "levels_where (\<lambda>p. q \<le> sint p) (ab_buy_volume_by_price b) > 0"
    using assms by (simp add: tradable_def demand_levels)
  have "?K \<noteq> {}"
  proof
    assume "?K = {}"
    then have "levels_where (\<lambda>p. q \<le> sint p) (ab_buy_volume_by_price b)
        = levels_where (\<lambda>_. False) (ab_buy_volume_by_price b)"
      by (intro levels_where_cong) auto
    moreover have "levels_where (\<lambda>_. False) (ab_buy_volume_by_price b) = 0"
      by (simp add: levels_where_def)
    ultimately show False using pos by linarith
  qed
  moreover have "finite ?K" by simp
  ultimately have "Min (sint ` ?K) \<in> sint ` ?K" by (intro Min_in) simp_all
  then obtain p where "p \<in> ?K" and min: "Min (sint ` ?K) = sint p" by blast
  then have p: "p \<in> fst ` set (ab_buy_volume_by_price b)" "q \<le> sint p" by simp_all
  have least: "sint p \<le> sint p'"
    if "p' \<in> fst ` set (ab_buy_volume_by_price b)" "q \<le> sint p'" for p'
    unfolding min [symmetric] using that by (intro Min_le) auto
  have "q \<le> sint p' \<longleftrightarrow> sint p \<le> sint p'" if "p' \<in> fst ` set (ab_buy_volume_by_price b)" for p'
    using least [OF that] p(2) by linarith
  then have "demand_at (ab_open b) q = demand_at (ab_open b) (sint p)"
    unfolding demand_levels [OF inv] by (rule levels_where_cong)
  moreover have "supply_at (ab_open b) q \<le> supply_at (ab_open b) (sint p)"
    unfolding supply_levels [OF inv] using p(2) by (intro levels_where_mono) linarith
  ultimately have "tradable (ab_open b) q \<le> tradable (ab_open b) (sint p)"
    unfolding tradable_def by linarith
  with p(1) show ?thesis by blast
qed

lemma volume_demand:
  assumes "ab_inv b"
  shows "unat (volume_where (\<lambda>p. price \<le>s p) (ab_buy_volume_by_price b) 0) = demand_at (ab_open b) (sint price)"
    and "unat (volume_where (\<lambda>p. p \<le>s price) (ab_sell_volume_by_price b) 0) = supply_at (ab_open b) (sint price)"
  using demand_supply_bound [of "ab_open b" "sint price"] ab_invD(3) [OF assms]
  by (simp_all add: demand_levels [OF assms] supply_levels [OF assms] unat_volume_where word_sle_eq)

text \<open>The specification of the indicative price of a collection of open orders.\<close>

definition clears :: "AuctionOrder list \<Rightarrow> i64 set \<Rightarrow> IndicativePrice option \<Rightarrow> bool" where
  "clears os candidates result =
     (case result of
        None \<Rightarrow> (\<forall>q. tradable os q = 0)
      | Some ip \<Rightarrow>
          let p = ip_price_ticks ip; v = unat (ip_executable_volume ip)
          in 0 < v \<and> p \<in> candidates \<and> v = tradable os (sint p) \<and> (\<forall>q. tradable os q \<le> v) \<and>
             int (demand_at os (sint p)) - int v = sint (ip_buy_imbalance ip) \<and>
             int (supply_at os (sint p)) - int v = sint (ip_sell_imbalance ip) \<and>
             (\<forall>q \<in> candidates. tradable os (sint q) = v \<longrightarrow> better_or_same os p q))"

lemma tradable_le:
  assumes inv: "ab_inv b" and "\<forall>p \<in> set ps. tradable (ab_open b) (sint p) \<le> n"
    and "fst ` set (ab_buy_volume_by_price b) \<subseteq> set ps"
  shows "tradable (ab_open b) q \<le> n"
  using candidate_for [OF inv, of q] assms(2,3) by (cases "tradable (ab_open b) q = 0") fastforce+

lemma best_so_far_clears:
  assumes inv: "ab_inv b" and best: "best_so_far (ab_open b) ps c"
    and all: "fst ` set (ab_buy_volume_by_price b) \<subseteq> set ps"
  shows "clears (ab_open b) (set ps) (if cl_max_volume c = 0 then None else
    Some \<lparr>ip_price_ticks = cl_best_price c, ip_executable_volume = cl_max_volume c,
      ip_buy_imbalance = cl_best_buy_imbalance c, ip_sell_imbalance = cl_best_sell_imbalance c,
      ip_total_buy_volume = tb, ip_total_sell_volume = ts\<rparr>)"
proof -
  let ?os = "ab_open b" and ?p = "cl_best_price c"
  have le: "tradable ?os q \<le> unat (cl_max_volume c)" for q
    using best by (intro tradable_le [OF inv _ all]) (simp add: best_so_far_def)
  show ?thesis
  proof (cases "cl_max_volume c = 0")
    case True
    with le show ?thesis by (simp add: clears_def)
  next
    case False
    note facts = best [unfolded best_so_far_def, THEN conjunct2, rule_format, OF False]
    have "demand_at ?os (sint ?p) < 2 ^ 63" "supply_at ?os (sint ?p) < 2 ^ 63"
      using demand_supply_bound [of ?os "sint ?p"] ab_invD(3) [OF inv] by simp_all
    then have "sint (cl_best_buy_imbalance c) = int (demand_at ?os (sint ?p) - unat (cl_max_volume c))"
      "sint (cl_best_sell_imbalance c) = int (supply_at ?os (sint ?p) - unat (cl_max_volume c))"
      using facts by (subst sint_eq_unat, simp_all)+
    moreover have "unat (cl_max_volume c) \<le> demand_at ?os (sint ?p)" "unat (cl_max_volume c) \<le> supply_at ?os (sint ?p)"
      using facts by (simp_all add: tradable_def)
    moreover have "0 < unat (cl_max_volume c)" using False by (simp add: unat_gt_0)
    ultimately show ?thesis
      using False facts le by (simp add: clears_def Let_def of_nat_diff)
  qed
qed

lemma calculate_indicative_price_clears:
  assumes inv: "ab_inv b"
  shows "clears (ab_open b) (fst ` set (ab_buy_volume_by_price b) \<union> fst ` set (ab_sell_volume_by_price b))
    (ab_calculate_indicative_price b)"
proof (cases "ab_buy_volume_by_price b = [] \<or> ab_sell_volume_by_price b = []")
  case True
  then have "tradable (ab_open b) q = 0" for q
    by (auto simp: tradable_def demand_levels [OF inv] supply_levels [OF inv] levels_where_def)
  with True show ?thesis by (simp add: clears_def ab_calculate_indicative_price_def)
next
  case False
  let ?ps = "sort_dedup (map fst (ab_buy_volume_by_price b) @ map fst (ab_sell_volume_by_price b))"
  let ?c = "fold (clearing_step (ab_buy_volume_by_price b) (ab_sell_volume_by_price b)) ?ps
    \<lparr>cl_best_price = 0, cl_max_volume = 0, cl_best_buy_imbalance = 0, cl_best_sell_imbalance = 0\<rparr>"
  have "best_so_far (ab_open b) ([] @ ?ps) ?c"
    using volume_demand [OF inv] ab_invD(3) [OF inv] sort_dedup_ascending
    by (intro fold_clearing_best) (simp_all add: best_so_far_def)
  from best_so_far_clears [OF inv this] False show ?thesis
    by (simp add: ab_calculate_indicative_price_def Let_def)
qed

section \<open>Runs of the book\<close>

datatype ab_op =
    AbAdd AuctionOrder
  | AbCancel u64
  | AbModify u64 u64 "i64 option"
  | AbClear

fun ab_exec :: "ab_op \<Rightarrow> AuctionBook \<Rightarrow> AuctionBook" where
  "ab_exec (AbAdd ord) b = ab_add_order b ord"
| "ab_exec (AbCancel x) b = snd (ab_cancel_order b x)"
| "ab_exec (AbModify x q p) b = snd (ab_modify_order b x q p)"
| "ab_exec AbClear b = snd (ab_clear_book b)"

text \<open>The specification: the open orders are a multiset.\<close>

fun ab_spec :: "ab_op \<Rightarrow> AuctionOrder multiset \<Rightarrow> AuctionOrder multiset" where
  "ab_spec (AbAdd ord) M = add_mset ord M"
| "ab_spec (AbCancel x) M = {#ord \<in># M. auo_order_id ord \<noteq> x#}"
| "ab_spec (AbModify x q p) M =
     {#ord \<in># M. auo_order_id ord \<noteq> x#} +
     {#modified_order ord q p. ord \<in># {#ord \<in># M. auo_order_id ord = x#}#}"
| "ab_spec AbClear M = {#}"

text \<open>The client's duty: fresh ids, and a book of less than \<open>2 ^ 63\<close> units.\<close>

fun ab_allowed :: "ab_op \<Rightarrow> AuctionBook \<Rightarrow> bool" where
  "ab_allowed (AbAdd ord) b \<longleftrightarrow> auo_order_id ord \<notin> auo_order_id ` set (ab_open b) \<and>
     qty_sum (ab_open b) + unat (auo_quantity ord) < 2 ^ 63"
| "ab_allowed (AbModify x q p) b \<longleftrightarrow> qty_sum (ab_open b) + unat q < 2 ^ 63"
| "ab_allowed _ b = True"

lemma ab_open_cleared [simp]: "ab_open (ab_new symb) = []" "ab_open (snd (ab_clear_book b)) = []"
  by (simp_all add: ab_open_def ab_clear_book_def ab_new_def bt_concat_def)

lemma ab_inv_empty:
  assumes "\<And>side. ab_orders_on side b = []" and "\<And>side. ab_volume_on side b = []"
    and "ab_order_lookup b = Map.empty"
  shows "ab_inv b"
  by (simp add: ab_inv_def side_inv_def assms ab_open_eq bt_concat_def del: ab_orders_on.simps ab_volume_on.simps)

lemma ab_cleared_sides:
  "ab_orders_on side (ab_new symb) = []" "ab_volume_on side (ab_new symb) = []"
  "ab_orders_on side (snd (ab_clear_book b)) = []" "ab_volume_on side (snd (ab_clear_book b)) = []"
  by (cases side; simp add: ab_new_def ab_clear_book_def)+

lemma ab_lookup_cleared:
  "ab_order_lookup (ab_new symb) = Map.empty" "ab_order_lookup (snd (ab_clear_book b)) = Map.empty"
  by (simp_all add: ab_new_def ab_clear_book_def)

lemma ab_inv_cleared: "ab_inv (ab_new symb)" "ab_inv (snd (ab_clear_book b))"
  by (simp_all add: ab_inv_empty ab_cleared_sides ab_lookup_cleared)

lemma modified_order_simps [simp]:
  "auo_order_id (modified_order ord q p) = auo_order_id ord"
  "auo_quantity (modified_order ord q p) = q"
  by (simp_all add: modified_order_def Let_def split: option.split)

text \<open>What is left after a cancellation.\<close>

lemma ab_cancel_filter:
  assumes inv: "ab_inv b"
  shows "mset (ab_open (snd (ab_cancel_order b x))) = {#ord \<in># mset (ab_open b). auo_order_id ord \<noteq> x#}"
    and "ab_inv (snd (ab_cancel_order b x))"
proof (atomize (full), cases "x \<in> auo_order_id ` set (ab_open b)")
  case False
  then have "{#ord \<in># mset (ab_open b). auo_order_id ord \<noteq> x#} = mset (ab_open b)"
    by (auto simp: filter_mset_eq_conv)
  with False inv show "mset (ab_open (snd (ab_cancel_order b x))) =
      {#ord \<in># mset (ab_open b). auo_order_id ord \<noteq> x#} \<and> ab_inv (snd (ab_cancel_order b x))"
    by (simp add: ab_cancel_unknown)
next
  case True
  then obtain ord where ord: "ord \<in> set (ab_open b)" and x: "x = auo_order_id ord" by blast
  let ?b = "snd (ab_cancel_order b x)"
  have eq: "mset (ab_open b) = mset (ord # ab_open ?b)"
    using ab_cancel_known(2) [OF inv ord] by (simp add: x)
  then have "distinct (map auo_order_id (ord # ab_open ?b))"
    using ab_invD(2) [OF inv] by (metis mset_eq_imp_distinct_iff mset_map)
  then have "{#r \<in># mset (ab_open ?b). auo_order_id r \<noteq> x#} = mset (ab_open ?b)"
    by (simp add: filter_mset_eq_conv x) (metis image_eqI)
  then have "{#r \<in># mset (ab_open b). auo_order_id r \<noteq> x#} = mset (ab_open ?b)"
    unfolding eq by (simp add: x)
  with ab_inv_cancel [OF inv ord] show "mset (ab_open ?b) =
      {#ord \<in># mset (ab_open b). auo_order_id ord \<noteq> x#} \<and> ab_inv ?b"
    by (simp add: x)
qed

text \<open>An unknown id changes nothing; a known order is replaced by its modification.\<close>

lemma ab_modify_unknown:
  assumes "ab_inv b" and "x \<notin> auo_order_id ` set (ab_open b)"
  shows "ab_modify_order b x q p = (False, b)"
    and "ab_spec (AbModify x q p) (mset (ab_open b)) = mset (ab_open b)"
proof -
  show "ab_modify_order b x q p = (False, b)"
    using assms by (simp add: ab_modify_order_def ab_inv_lookup_None [THEN iffD2])
  have "{#ord \<in># mset (ab_open b). auo_order_id ord \<noteq> x#} = mset (ab_open b)"
    "{#ord \<in># mset (ab_open b). auo_order_id ord = x#} = {#}"
    using assms(2) by (auto simp: filter_mset_eq_conv)
  then show "ab_spec (AbModify x q p) (mset (ab_open b)) = mset (ab_open b)" by simp
qed

lemma ab_modify_known:
  assumes inv: "ab_inv b" and ord: "ord \<in> set (ab_open b)" and x: "auo_order_id ord = x"
    and fits: "qty_sum (ab_open b) + unat q < 2 ^ 63"
  shows "fst (ab_modify_order b x q p)"
    and "mset (ab_open (snd (ab_modify_order b x q p))) = ab_spec (AbModify x q p) (mset (ab_open b))"
    and "ab_inv (snd (ab_modify_order b x q p))"
proof -
  let ?b = "snd (ab_cancel_order b x)" and ?ord = "modified_order ord q p"
  note left = ab_cancel_filter [OF inv, of x] and known = ab_cancel_known [OF inv ord, unfolded x]
  have ids: "auo_order_id r \<noteq> x" if "r \<in> set (ab_open ?b)" for r
  proof -
    have "\<forall>r \<in># mset (ab_open ?b). auo_order_id r \<noteq> x" unfolding left(1) by simp
    with that show ?thesis by simp
  qed
  have eq: "ab_modify_order b x q p = (True, ab_add_order ?b ?ord)"
    using ord x known(1) ab_inv_lookup_None [OF inv, of x]
    by (cases "ab_cancel_order b x") (auto simp: ab_modify_order_def split: option.split)
  then show "fst (ab_modify_order b x q p)" by simp
  have "{#r \<in># mset (ab_open b). auo_order_id r = x#} = {#ord#}"
    using ids unfolding known(2) by (auto simp: x)
  then show "mset (ab_open (snd (ab_modify_order b x q p))) = ab_spec (AbModify x q p) (mset (ab_open b))"
    by (simp add: eq mset_ab_open_add [OF left(2)] left(1))
  have "qty_sum (ab_open ?b) \<le> qty_sum (ab_open b)"
    unfolding qty_sum_mset known(2) by simp
  moreover have "auo_order_id ?ord \<notin> auo_order_id ` set (ab_open ?b)"
    using ids by (metis imageE modified_order_simps(1) x)
  ultimately show "ab_inv (snd (ab_modify_order b x q p))"
    unfolding eq snd_conv using fits by (intro ab_inv_add [OF left(2)]) simp_all
qed

lemma ab_modify_effect:
  assumes "ab_inv b" and "qty_sum (ab_open b) + unat q < 2 ^ 63"
  shows "mset (ab_open (snd (ab_modify_order b x q p))) = ab_spec (AbModify x q p) (mset (ab_open b))"
    and "ab_inv (snd (ab_modify_order b x q p))"
    and "fst (ab_modify_order b x q p) \<longleftrightarrow> x \<in> auo_order_id ` set (ab_open b)"
  using ab_modify_unknown [OF assms(1), of x] ab_modify_known [OF assms(1) _ _ assms(2), of _ x] assms(1)
  by (cases "x \<in> auo_order_id ` set (ab_open b)"; force simp del: ab_spec.simps)+

interpretation auction_book: refined_system ab_exec ab_allowed ab_inv ab_spec "\<lambda>b. mset (ab_open b)"
proof
  fix b op
  assume inv: "ab_inv b" and ok: "ab_allowed op b"
  show "ab_inv (ab_exec op b)"
    using inv ok by (cases op) (simp_all add: ab_inv_add ab_cancel_filter ab_modify_effect ab_inv_cleared)
  show "mset (ab_open (ab_exec op b)) = ab_spec op (mset (ab_open b))"
    using inv ok
    by (cases op) (simp_all add: mset_ab_open_add ab_cancel_filter ab_modify_effect del: ab_spec.simps(3))
qed

lemma tradable_mset_cong:
  "mset os = mset os' \<Longrightarrow> demand_at os q = demand_at os' q \<and> supply_at os q = supply_at os' q"
  by (simp add: demand_at_def supply_at_def qty_sum_mset mset_filter)

lemma clears_mset_cong: "mset os = mset os' \<Longrightarrow> clears os K r = clears os' K r"
  using tradable_mset_cong [of os os']
  by (simp add: clears_def better_or_same_def imbalance_def tradable_def cong: option.case_cong)

section \<open>Properties\<close>

text \<open>
  C3: The indicative price maximises the traded volume. After any sequence of entries,
  cancellations, modifications and clearings with fresh ids and less than \<open>2 ^ 63\<close> units in
  the book, for any listing of the orders that are open: no price is reported only if nothing
  can trade at any price; a reported price trades the reported volume, no integer price
  trades more, the imbalances are demand and supply less that volume, and among the price
  levels of the book that trade as much it has the smallest halved imbalance and, among
  those, is the lowest.
\<close>

theorem indicative_price_optimal:
  fixes ops :: "ab_op list" and symb :: auction_symbol
  defines "b \<equiv> run ab_exec ops (ab_new symb)"
  assumes "permitted ab_exec ab_allowed ops (ab_new symb)"
    and "mset os = run ab_spec ops {#}"
  shows "clears os (fst ` set (ab_buy_volume_by_price b) \<union> fst ` set (ab_sell_volume_by_price b))
    (ab_calculate_indicative_price b)"
proof -
  have "ab_inv b"
    unfolding b_def using assms(2) by (intro auction_book.run_inv ab_inv_cleared)
  moreover have "mset os = mset (ab_open b)"
    using auction_book.run_abs [OF ab_inv_cleared(1) assms(2)] assms(3) by (simp add: b_def)
  ultimately show ?thesis
    using calculate_indicative_price_clears clears_mset_cong by blast
qed

theorem indicative_price_optimal_witness:
  "let ord = (\<lambda>x side p q. \<lparr>auo_order_id = x, auo_symbol = [], auo_side = side, auo_price_ticks = p,
         auo_quantity = q, auo_remaining_qty = q, auo_timestamp_ns = 0,
         auo_is_market_order = False, auo_stp_group_id = None\<rparr>);
       ops = [AbAdd (ord 1 Buy 10 5), AbAdd (ord 2 Sell 8 3)];
       b = run ab_exec ops (ab_new [])
   in permitted ab_exec ab_allowed ops (ab_new []) \<and>
      clears [ord 1 Buy 10 5, ord 2 Sell 8 3] {10, 8} (ab_calculate_indicative_price b)"
proof -
  define ord where "ord = (\<lambda>(x :: u64) side (p :: i64) (q :: u64). \<lparr>auo_order_id = x, auo_symbol = [],
    auo_side = side, auo_price_ticks = p, auo_quantity = q, auo_remaining_qty = q,
    auo_timestamp_ns = 0, auo_is_market_order = False, auo_stp_group_id = None\<rparr>)"
  let ?ops = "[AbAdd (ord 1 Buy 10 5), AbAdd (ord 2 Sell 8 3)]"
  note defs = ab_add_order_def ab_new_def push_at_def add_volume_def ord_def ab_open_def
    ab_clear_book_def bt_concat_def Let_def
  have ok: "permitted ab_exec ab_allowed ?ops (ab_new [])" by (simp add: defs)
  have "fst ` set (ab_buy_volume_by_price (run ab_exec ?ops (ab_new [])))
      \<union> fst ` set (ab_sell_volume_by_price (run ab_exec ?ops (ab_new []))) = {10, 8}"
    by (simp add: defs insert_commute)
  with indicative_price_optimal [OF ok, of "[ord 1 Buy 10 5, ord 2 Sell 8 3]"] ok show ?thesis
    unfolding Let_def ord_def [symmetric] by (simp add: add_mset_commute)
qed

end
