(* ===== verification/Auction_Engine.thy ===== *)
theory Auction_Engine
  imports Auction_Price "HOL-Library.AList"
begin

text \<open>
  The auction engine (\<open>src/src/exchange/auction_engine.rs\<close>): one auction state per symbol
  (phase, book, timestamps), created on first use as long as the engine has room, the order
  entry rules of the phases, execution and emergency end.

  The map of symbols is an association list. \<open>get_or_create_symbol\<close> hands out a shared
  pointer: to the state in the map, or, when the engine is full, to a fresh state that nobody
  else can see. \<open>ae_store\<close> is what becomes of the updates of that pointer.
\<close>

section \<open>Data\<close>

record SymbolAuctionState =
  sa_symbol :: auction_symbol
  sa_phase :: u8
  sa_book :: AuctionBook
  sa_last_update_ns :: u64
  sa_auction_start_ns :: u64
  sa_expected_end_ns :: u64

record 'venue AuctionEngine =
  ae_venue_id :: 'venue
  ae_symbols :: "(auction_symbol \<times> SymbolAuctionState) list"
  ae_global_auction_active :: bool
  ae_max_symbols :: nat

record IndicativePriceData =
  ipd_price_ticks :: i64
  ipd_executable_volume :: u64
  ipd_imbalance :: i64

record 'venue AuctionEvent =
  aev_venue_id :: 'venue
  aev_symbol :: auction_symbol
  aev_phase :: AuctionPhase
  aev_indicative_price :: "IndicativePriceData option"
  aev_timestamp_ns :: u64

definition ipd_from :: "IndicativePrice \<Rightarrow> IndicativePriceData" where
  "ipd_from ip = \<lparr>ipd_price_ticks = ip_price_ticks ip, ipd_executable_volume = ip_executable_volume ip,
     ipd_imbalance = ip_buy_imbalance ip - ip_sell_imbalance ip\<rparr>"

section \<open>Operations\<close>

definition sa_new :: "auction_symbol \<Rightarrow> SymbolAuctionState" where
  "sa_new symb =
     \<lparr>sa_symbol = symb, sa_phase = auction_phase_code Inactive, sa_book = ab_new symb,
      sa_last_update_ns = 0, sa_auction_start_ns = 0, sa_expected_end_ns = 0\<rparr>"

definition sa_get_phase :: "SymbolAuctionState \<Rightarrow> AuctionPhase" where
  "sa_get_phase s = auction_phase_from_u8 (sa_phase s)"

definition sa_set_phase :: "SymbolAuctionState \<Rightarrow> AuctionPhase \<Rightarrow> SymbolAuctionState" where
  "sa_set_phase s ph = s\<lparr>sa_phase := auction_phase_code ph\<rparr>"

definition ae_new :: "'venue \<Rightarrow> nat \<Rightarrow> 'venue AuctionEngine" where
  "ae_new venue_id max_symbols =
     \<lparr>ae_venue_id = venue_id, ae_symbols = [], ae_global_auction_active = False,
      ae_max_symbols = max_symbols\<rparr>"

definition ae_get_or_create_symbol ::
    "'venue AuctionEngine \<Rightarrow> auction_symbol \<Rightarrow> SymbolAuctionState \<times> 'venue AuctionEngine" where
  "ae_get_or_create_symbol e symb =
     (case map_of (ae_symbols e) symb of
        Some s \<Rightarrow> (s, e)
      | None \<Rightarrow>
          let s = sa_new symb
          in if length (ae_symbols e) < ae_max_symbols e
             then (s, e\<lparr>ae_symbols := AList.update symb s (ae_symbols e)\<rparr>)
             else (s, e))"

definition ae_store ::
    "'venue AuctionEngine \<Rightarrow> auction_symbol \<Rightarrow> SymbolAuctionState \<Rightarrow> 'venue AuctionEngine" where
  "ae_store e symb s =
     (case map_of (ae_symbols e) symb of
        Some _ \<Rightarrow> e\<lparr>ae_symbols := AList.update symb s (ae_symbols e)\<rparr>
      | None \<Rightarrow> e)"

definition ae_start_auction :: "'venue AuctionEngine \<Rightarrow> auction_symbol \<Rightarrow> u64 \<Rightarrow> clock \<Rightarrow> 'venue AuctionEngine" where
  "ae_start_auction e symb duration_ms clk =
     (let (s, e) = ae_get_or_create_symbol e symb;
          now_ns = clk 0;
          s = sa_set_phase s PreOpen;
          s = s\<lparr>sa_auction_start_ns := now_ns, sa_expected_end_ns := now_ns + duration_ms * 1000000,
                sa_last_update_ns := now_ns\<rparr>
      in (ae_store e symb s)\<lparr>ae_global_auction_active := True\<rparr>)"

definition ae_transition_phase :: "'venue AuctionEngine \<Rightarrow> auction_symbol \<Rightarrow> AuctionPhase \<Rightarrow> clock \<Rightarrow> 'venue AuctionEngine" where
  "ae_transition_phase e symb new_phase clk =
     (let (s, e) = ae_get_or_create_symbol e symb;
          now_ns = clk 0
      in ae_store e symb ((sa_set_phase s new_phase)\<lparr>sa_last_update_ns := now_ns\<rparr>))"

definition ae_submit_auction_order ::
    "'venue AuctionEngine \<Rightarrow> AuctionOrder \<Rightarrow> (string + unit) \<times> 'venue AuctionEngine" where
  "ae_submit_auction_order e ord =
     (let (s, e) = ae_get_or_create_symbol e (auo_symbol ord)
      in if \<not> allows_order_entry (sa_get_phase s)
         then (Inl ''Order entry not allowed in current auction phase'', e)
         else (Inr (), ae_store e (auo_symbol ord) (s\<lparr>sa_book := ab_add_order (sa_book s) ord\<rparr>)))"

definition ae_cancel_auction_order ::
    "'venue AuctionEngine \<Rightarrow> u64 \<Rightarrow> auction_symbol \<Rightarrow> (string + AuctionOrder option) \<times> 'venue AuctionEngine" where
  "ae_cancel_auction_order e x symb =
     (let (s, e) = ae_get_or_create_symbol e symb
      in if \<not> allows_cancellation (sa_get_phase s)
         then (Inl ''Cancellation not allowed in current auction phase'', e)
         else let (r, b) = ab_cancel_order (sa_book s) x
              in (Inr r, ae_store e symb (s\<lparr>sa_book := b\<rparr>)))"

definition ae_modify_auction_order ::
    "'venue AuctionEngine \<Rightarrow> u64 \<Rightarrow> auction_symbol \<Rightarrow> u64 \<Rightarrow> i64 option \<Rightarrow> (string + bool) \<times> 'venue AuctionEngine" where
  "ae_modify_auction_order e x symb new_quantity new_price =
     (let (s, e) = ae_get_or_create_symbol e symb
      in if \<not> allows_order_entry (sa_get_phase s)
         then (Inl ''Order modification not allowed in current auction phase'', e)
         else let (r, b) = ab_modify_order (sa_book s) x new_quantity new_price
              in (Inr r, ae_store e symb (s\<lparr>sa_book := b\<rparr>)))"

definition ae_get_indicative_price ::
    "'venue AuctionEngine \<Rightarrow> auction_symbol \<Rightarrow> IndicativePrice option \<times> 'venue AuctionEngine" where
  "ae_get_indicative_price e symb =
     (let (s, e) = ae_get_or_create_symbol e symb
      in (ab_calculate_indicative_price (sa_book s), e))"

definition ae_execute_auction ::
    "'venue AuctionEngine \<Rightarrow> auction_symbol
     \<Rightarrow> (IndicativePrice option \<times> AuctionOrder list) \<times> 'venue AuctionEngine" where
  "ae_execute_auction e symb =
     (let (s, e) = ae_get_or_create_symbol e symb;
          s = sa_set_phase s Executing;
          indicative = ab_calculate_indicative_price (sa_book s);
          (orders, b) = ab_clear_book (sa_book s);
          s = sa_set_phase (s\<lparr>sa_book := b\<rparr>) Inactive
      in ((indicative, orders), ae_store e symb s))"

definition ae_is_auction_active :: "'venue AuctionEngine \<Rightarrow> bool" where
  "ae_is_auction_active e = ae_global_auction_active e"

definition ae_get_symbol_phase :: "'venue AuctionEngine \<Rightarrow> auction_symbol \<Rightarrow> AuctionPhase \<times> 'venue AuctionEngine" where
  "ae_get_symbol_phase e symb =
     (let (s, e) = ae_get_or_create_symbol e symb in (sa_get_phase s, e))"

definition ae_emergency_end_all :: "'venue AuctionEngine \<Rightarrow> 'venue AuctionEngine" where
  "ae_emergency_end_all e =
     e\<lparr>ae_symbols := map (\<lambda>(symb, s). (symb, sa_set_phase s Inactive)) (ae_symbols e),
       ae_global_auction_active := False\<rparr>"

definition reprice :: "i64 \<Rightarrow> AuctionOrder \<Rightarrow> AuctionOrder" where
  "reprice reference_price ord =
     (if auo_is_market_order ord
      then ord\<lparr>auo_price_ticks := reference_price, auo_is_market_order := False\<rparr> else ord)"

definition ae_reprice_for_continuous ::
    "'venue AuctionEngine \<Rightarrow> auction_symbol \<Rightarrow> i64 \<Rightarrow> AuctionOrder list \<times> 'venue AuctionEngine" where
  "ae_reprice_for_continuous e symb reference_price =
     (let (s, e) = ae_get_or_create_symbol e symb;
          (all_orders, b) = ab_clear_book (sa_book s)
      in (map (reprice reference_price) all_orders, ae_store e symb (s\<lparr>sa_book := b\<rparr>)))"

section \<open>Runs of the engine\<close>

datatype ae_op =
    AeStart auction_symbol u64 clock
  | AeTransition auction_symbol AuctionPhase clock
  | AeSubmit AuctionOrder
  | AeCancel u64 auction_symbol
  | AeModify u64 auction_symbol u64 "i64 option"
  | AeIndicative auction_symbol
  | AeExecute auction_symbol
  | AePhase auction_symbol
  | AeEmergencyEndAll
  | AeReprice auction_symbol i64

fun ae_exec :: "ae_op \<Rightarrow> 'venue AuctionEngine \<Rightarrow> 'venue AuctionEngine" where
  "ae_exec (AeStart symb d clk) e = ae_start_auction e symb d clk"
| "ae_exec (AeTransition symb ph clk) e = ae_transition_phase e symb ph clk"
| "ae_exec (AeSubmit ord) e = snd (ae_submit_auction_order e ord)"
| "ae_exec (AeCancel x symb) e = snd (ae_cancel_auction_order e x symb)"
| "ae_exec (AeModify x symb q p) e = snd (ae_modify_auction_order e x symb q p)"
| "ae_exec (AeIndicative symb) e = snd (ae_get_indicative_price e symb)"
| "ae_exec (AeExecute symb) e = snd (ae_execute_auction e symb)"
| "ae_exec (AePhase symb) e = snd (ae_get_symbol_phase e symb)"
| "ae_exec AeEmergencyEndAll e = ae_emergency_end_all e"
| "ae_exec (AeReprice symb ref) e = snd (ae_reprice_for_continuous e symb ref)"

abbreviation ae_state :: "'venue AuctionEngine \<Rightarrow> auction_symbol \<rightharpoonup> SymbolAuctionState" where
  "ae_state e \<equiv> map_of (ae_symbols e)"

text \<open>The state a call for \<open>symb\<close> works on, and whether its updates are kept.\<close>

definition ae_target :: "'venue AuctionEngine \<Rightarrow> auction_symbol \<Rightarrow> SymbolAuctionState" where
  "ae_target e symb = (case ae_state e symb of Some s \<Rightarrow> s | None \<Rightarrow> sa_new symb)"

definition ae_keeps :: "'venue AuctionEngine \<Rightarrow> auction_symbol \<Rightarrow> bool" where
  "ae_keeps e symb \<longleftrightarrow> ae_state e symb \<noteq> None \<or> length (ae_symbols e) < ae_max_symbols e"

lemma ae_get_or_create_fst [simp]: "fst (ae_get_or_create_symbol e symb) = ae_target e symb"
  by (simp add: ae_get_or_create_symbol_def ae_target_def Let_def split: option.split)

lemma ae_state_get_or_create [simp]:
  "ae_state (snd (ae_get_or_create_symbol e symb)) =
     (if ae_keeps e symb then (ae_state e)(symb \<mapsto> ae_target e symb) else ae_state e)"
  by (auto simp: ae_get_or_create_symbol_def ae_target_def ae_keeps_def Let_def update_conv' fun_eq_iff
      split: option.split)

lemma ae_state_store:
  "ae_state (ae_store e symb s) = (if ae_state e symb = None then ae_state e else (ae_state e)(symb \<mapsto> s))"
  by (auto simp: ae_store_def update_conv' split: option.split)

lemma ae_state_store_created [simp]:
  "ae_state (ae_store (snd (ae_get_or_create_symbol e symb)) symb s) =
     (if ae_keeps e symb then (ae_state e)(symb \<mapsto> s) else ae_state e)"
  by (auto simp: ae_state_store ae_keeps_def)

lemma ae_flag_created [simp]:
  "ae_global_auction_active (ae_store e symb s) = ae_global_auction_active e"
  "ae_global_auction_active (snd (ae_get_or_create_symbol e symb)) = ae_global_auction_active e"
  "ae_max_symbols (ae_store e symb s) = ae_max_symbols e"
  "ae_max_symbols (snd (ae_get_or_create_symbol e symb)) = ae_max_symbols e"
  by (simp_all add: ae_store_def ae_get_or_create_symbol_def Let_def split: option.split)

lemma length_AList_update: "length (AList.update k v m) = (if map_of m k = None then length m + 1 else length m)"
  by (induction m) auto

lemma length_store [simp]: "length (ae_symbols (ae_store e symb s)) = length (ae_symbols e)"
  by (simp add: ae_store_def length_AList_update split: option.split)

lemma phase_code_roundtrip [simp]: "auction_phase_from_u8 (auction_phase_code ph) = ph"
  by (cases ph) (simp_all add: auction_phase_from_u8_def)

lemma sa_phase_simps [simp]:
  "sa_get_phase (sa_set_phase s ph) = ph" "sa_book (sa_set_phase s ph) = sa_book s"
  "sa_get_phase (s\<lparr>sa_book := b\<rparr>) = sa_get_phase s"
  by (simp_all add: sa_get_phase_def sa_set_phase_def)

lemma sa_new_simps [simp]: "sa_get_phase (sa_new symb) = Inactive" "sa_book (sa_new symb) = ab_new symb"
  by (simp_all add: sa_get_phase_def sa_new_def auction_phase_from_u8_def)

lemmas ae_defs = ae_start_auction_def ae_transition_phase_def ae_submit_auction_order_def
  ae_cancel_auction_order_def ae_modify_auction_order_def ae_get_indicative_price_def
  ae_execute_auction_def ae_get_symbol_phase_def ae_reprice_for_continuous_def
  case_prod_unfold Let_def

text \<open>Every book of the engine is sound, while clients keep their duty towards the books.\<close>

definition ae_inv :: "'venue AuctionEngine \<Rightarrow> bool" where
  "ae_inv e \<longleftrightarrow> (\<forall>symb s. ae_state e symb = Some s \<longrightarrow> ab_inv (sa_book s))"

fun ae_allowed :: "ae_op \<Rightarrow> 'venue AuctionEngine \<Rightarrow> bool" where
  "ae_allowed (AeSubmit ord) e \<longleftrightarrow>
     (allows_order_entry (sa_get_phase (ae_target e (auo_symbol ord))) \<longrightarrow>
        ab_allowed (AbAdd ord) (sa_book (ae_target e (auo_symbol ord))))"
| "ae_allowed (AeModify x symb q p) e \<longleftrightarrow>
     (allows_order_entry (sa_get_phase (ae_target e symb)) \<longrightarrow>
        ab_allowed (AbModify x q p) (sa_book (ae_target e symb)))"
| "ae_allowed _ e = True"

lemma ae_inv_target: "ae_inv e \<Longrightarrow> ab_inv (sa_book (ae_target e symb))"
  by (auto simp: ae_inv_def ae_target_def ab_inv_cleared split: option.split)

lemma ae_inv_created: "ae_inv e \<Longrightarrow> ae_inv (snd (ae_get_or_create_symbol e symb))"
  using ae_inv_target [of e symb] by (auto simp: ae_inv_def)

lemma ae_inv_store:
  "ae_inv e \<Longrightarrow> ab_inv (sa_book s) \<Longrightarrow> ae_inv (ae_store (snd (ae_get_or_create_symbol e symb)) symb s)"
  by (auto simp: ae_inv_def)

lemma ae_state_emergency:
  "ae_state (ae_emergency_end_all e) symb = map_option (\<lambda>s. sa_set_phase s Inactive) (ae_state e symb)"
  by (simp add: ae_emergency_end_all_def map_of_map)

interpretation auction_engine: guarded_system ae_exec ae_allowed ae_inv
proof
  fix e :: "'a AuctionEngine" and op
  assume inv: "ae_inv e" and ok: "ae_allowed op e"
  note books = ae_inv_target [OF inv] and keep = ae_inv_store [OF inv] ae_inv_created [OF inv]
  show "ae_inv (ae_exec op e)"
  proof (cases op)
    case (AeStart symb d clk)
    have "ae_inv (e\<lparr>ae_global_auction_active := f\<rparr>) = ae_inv e" for f and e :: "'a AuctionEngine"
      by (simp add: ae_inv_def)
    with AeStart keep books show ?thesis by (simp add: ae_defs)
  next
    case AeEmergencyEndAll
    with inv show ?thesis by (auto simp: ae_inv_def ae_state_emergency)
  next
    case (AeCancel x symb)
    with keep books show ?thesis by (simp add: ae_defs ab_cancel_filter)
  next
    case (AeSubmit ord)
    with keep books ok show ?thesis by (simp add: ae_defs ab_inv_add)
  next
    case (AeModify x symb q p)
    with keep books ok show ?thesis by (simp add: ae_defs ab_modify_effect)
  qed (use keep books in \<open>simp_all add: ae_defs ab_inv_cleared\<close>)
qed

section \<open>Latches of the engine\<close>

fun ends_auctions :: "ae_op \<Rightarrow> bool" where
  "ends_auctions AeEmergencyEndAll = True"
| "ends_auctions _ = False"

interpretation auction_flag: latched_system ae_exec "\<lambda>op. \<not> ends_auctions op" ae_is_auction_active
  by unfold_locales (case_tac a; simp add: ae_is_auction_active_def ae_defs)

text \<open>The engine has no room, and no state for the symbol.\<close>

definition ae_no_room :: "auction_symbol \<Rightarrow> 'venue AuctionEngine \<Rightarrow> bool" where
  "ae_no_room symb e \<longleftrightarrow> ae_state e symb = None \<and> ae_max_symbols e \<le> length (ae_symbols e)"

lemma get_or_create_full:
  "ae_max_symbols e \<le> length (ae_symbols e) \<Longrightarrow> snd (ae_get_or_create_symbol e symb) = e"
  by (simp add: ae_get_or_create_symbol_def Let_def split: option.split)

lemma ae_no_room_store: "ae_no_room symb e \<Longrightarrow> ae_no_room symb (ae_store e t s)"
  by (auto simp: ae_no_room_def ae_state_store)

interpretation auction_room: latched_system ae_exec "\<lambda>op. True" "ae_no_room symb"
proof
  fix e :: "'a AuctionEngine" and op
  assume full: "ae_no_room symb e"
  have created: "snd (ae_get_or_create_symbol e t) = e" for t
    using full by (simp add: ae_no_room_def get_or_create_full)
  have flag: "ae_no_room symb (d\<lparr>ae_global_auction_active := f\<rparr>) = ae_no_room symb d" for f and d :: "'a AuctionEngine"
    by (simp add: ae_no_room_def)
  show "ae_no_room symb (ae_exec op e)"
  proof (cases op)
    case AeEmergencyEndAll
    with full show ?thesis
      by (auto simp: ae_no_room_def ae_emergency_end_all_def map_of_map)
  qed (use full in \<open>simp_all add: ae_defs created flag ae_no_room_store\<close>)
qed

text \<open>A state of the symbol in a phase without order entry, with its book.\<close>

definition ae_closed :: "auction_symbol \<Rightarrow> AuctionBook \<Rightarrow> 'venue AuctionEngine \<Rightarrow> bool" where
  "ae_closed symb b e \<longleftrightarrow> (\<exists>s. ae_state e symb = Some s \<and> sa_book s = b \<and>
     \<not> allows_order_entry (sa_get_phase s))"

fun entry_op :: "ae_op \<Rightarrow> bool" where
  "entry_op (AeSubmit ord) = True"
| "entry_op (AeModify x symb q p) = True"
| "entry_op (AeIndicative symb) = True"
| "entry_op (AePhase symb) = True"
| "entry_op _ = False"

lemma ae_closed_target: "ae_closed symb b e \<Longrightarrow> sa_book (ae_target e symb) = b \<and>
    \<not> allows_order_entry (sa_get_phase (ae_target e symb)) \<and> ae_keeps e symb"
  by (auto simp: ae_closed_def ae_target_def ae_keeps_def)

lemma ae_closed_created: "ae_closed symb b e \<Longrightarrow> ae_closed symb b (snd (ae_get_or_create_symbol e t))"
  by (auto simp: ae_closed_def ae_target_def)

lemma ae_closed_store:
  "ae_closed symb b e \<Longrightarrow> t \<noteq> symb \<Longrightarrow> ae_closed symb b (ae_store (snd (ae_get_or_create_symbol e t)) t s)"
  by (auto simp: ae_closed_def)

interpretation auction_closed: latched_system ae_exec entry_op "ae_closed symb b"
proof
  fix e :: "'a AuctionEngine" and op
  assume closed: "ae_closed symb b e" and "entry_op op"
  have "t \<noteq> symb" if "allows_order_entry (sa_get_phase (ae_target e t))" for t
    using that ae_closed_target [OF closed] by metis
  then show "ae_closed symb b (ae_exec op e)"
    using \<open>entry_op op\<close> ae_closed_created [OF closed] ae_closed_store [OF closed]
    by (cases op) (simp_all add: ae_defs)
qed

section \<open>Properties\<close>

text \<open>
  Executing an auction. After any permitted sequence of calls, the indicative price is
  optimal for exactly the orders handed out, which are all the open orders of the symbol,
  whether they can trade or not, and even when there is no price at all; afterwards the
  symbol is inactive and a second execution finds nothing.
\<close>

lemma execution_hands_out_book:
  fixes ops :: "ae_op list" and venue :: 'venue and max_symbols :: nat
  defines "e \<equiv> run ae_exec ops (ae_new venue max_symbols)"
  assumes "permitted ae_exec ae_allowed ops (ae_new venue max_symbols)"
    and "ae_state e symb = Some s"
  shows "let ((ip, orders), e') = ae_execute_auction e symb; vols = sa_book s
    in clears orders (fst ` set (ab_buy_volume_by_price vols) \<union> fst ` set (ab_sell_volume_by_price vols)) ip \<and>
       orders = bt_concat (ab_buy_orders vols) @ bt_concat (ab_sell_orders vols) \<and>
       fst (ae_get_symbol_phase e' symb) = Inactive \<and>
       fst (ae_execute_auction e' symb) = (None, [])"
proof -
  have "ae_inv e"
    unfolding e_def using assms(2) by (intro auction_engine.run_inv) (simp_all add: ae_inv_def ae_new_def)
  then have "ab_inv (sa_book s)" using assms(3) by (auto simp: ae_inv_def)
  from calculate_indicative_price_clears [OF this]
  have clr: "clears (fst (ab_clear_book (sa_book s))) (fst ` set (ab_buy_volume_by_price (sa_book s))
      \<union> fst ` set (ab_sell_volume_by_price (sa_book s))) (ab_calculate_indicative_price (sa_book s))"
    by (simp add: ab_open_def)
  have target: "ae_target e symb = s" "ae_keeps e symb"
    using assms(3) by (simp_all add: ae_target_def ae_keeps_def)
  let ?e = "snd (ae_execute_auction e symb)"
  have after: "ae_target ?e symb = sa_set_phase (s\<lparr>sa_book := snd (ab_clear_book (sa_book s)),
      sa_phase := auction_phase_code Executing\<rparr>) Inactive"
    by (simp add: ae_target_def ae_defs target) (simp add: assms(3) sa_set_phase_def)
  have "ab_calculate_indicative_price (snd (ab_clear_book b)) = None \<and>
      fst (ab_clear_book (snd (ab_clear_book b))) = []" for b
    by (simp add: ab_calculate_indicative_price_def ab_clear_book_def bt_concat_def Let_def)
  then have "fst (ae_execute_auction ?e symb) = (None, [])"
    by (simp add: ae_execute_auction_def [of ?e] case_prod_unfold Let_def after)
  moreover have "fst (ae_get_symbol_phase ?e symb) = Inactive"
    by (simp add: ae_get_symbol_phase_def case_prod_unfold after)
  moreover have "fst (ae_execute_auction e symb)
      = (ab_calculate_indicative_price (sa_book s), fst (ab_clear_book (sa_book s)))"
    by (simp add: ae_defs target)
  ultimately show ?thesis
    using clr by (simp add: case_prod_unfold Let_def) (simp add: ab_clear_book_def)
qed

text \<open>
  A closed phase refuses orders. While a symbol is in a phase other than \<open>PreOpen\<close> and
  \<open>OrderModification\<close>, no submission or modification, for whatever symbols and in whatever
  number, changes its book.
\<close>

lemma closed_phase_keeps_book:
  assumes "ae_closed symb b e" and "list_all entry_op ops"
  shows "ae_closed symb b (run ae_exec ops e)"
  using assms by (rule auction_closed.run_latch)

text \<open>
  A full engine loses auctions. When the engine has reached its number of symbols, a
  symbol it does not know stays unknown through every sequence of calls; every order for it
  is refused, even right after its auction was started; and yet the engine then reports that
  an auction is active.
\<close>

lemma full_engine_loses_auction:
  assumes "ae_no_room symb e" and "auo_symbol ord = symb"
  shows "let e' = ae_start_auction (run ae_exec ops e) symb d clk
    in ae_state e' symb = None \<and> ae_is_auction_active e' \<and>
       fst (ae_submit_auction_order e' ord) = Inl ''Order entry not allowed in current auction phase''"
proof -
  let ?e = "ae_start_auction (run ae_exec ops e) symb d clk"
  have "ae_no_room symb (run ae_exec (ops @ [AeStart symb d clk]) e)"
    using assms(1) by (rule auction_room.run_latch) (simp add: list_all_iff)
  then have none: "ae_state ?e symb = None" by (simp add: run_append ae_no_room_def)
  then have "fst (ae_submit_auction_order ?e ord) = Inl ''Order entry not allowed in current auction phase''"
    using assms(2) by (simp add: ae_submit_auction_order_def case_prod_unfold Let_def ae_target_def)
  moreover have "ae_is_auction_active ?e" by (simp add: ae_is_auction_active_def ae_defs)
  ultimately show ?thesis using none by (simp add: Let_def)
qed

text \<open>
  The active flag is never lowered by an auction ending: once an auction was started, the
  engine reports an active auction after every sequence of calls without an emergency end,
  executions included.
\<close>

lemma active_flag_outlives_auctions:
  assumes "list_all (\<lambda>op. \<not> ends_auctions op) ops"
  shows "ae_is_auction_active (run ae_exec ops (ae_start_auction e symb d clk))"
  using assms by (intro auction_flag.run_latch) (simp_all add: ae_is_auction_active_def ae_defs)

end
