(* ===== verification/Exchange_Control.thy ===== *)
theory Exchange_Control
  imports Halt_Detector Auction_Engine
begin

text \<open>
  Exchange control (\<open>src/src/exchange/halt_mod.rs\<close>): per venue the halt detector and the auction
  engine with a cached view of both, and the manager of several venues.

  The control and its detector share one kill switch, so the model has it once, in the
  detector. The manager shares the switch of its first control.
\<close>

section \<open>Data\<close>

record 'venue ExchangeControlState =
  ecs_venue_id :: 'venue
  ecs_is_halted :: bool
  ecs_halt_state :: TradingState
  ecs_auction_active :: bool
  ecs_auction_phase :: AuctionPhase
  ecs_circuit_breaker_level :: CircuitBreakerLevel
  ecs_last_update_ns :: u64

definition ecs_is_tradeable :: "'venue ExchangeControlState \<Rightarrow> bool" where
  "ecs_is_tradeable s = (\<not> ecs_is_halted s \<and> is_tradeable (ecs_halt_state s) \<and> \<not> ecs_auction_active s)"

record 'venue ExchangeControl =
  ec_venue_id :: 'venue
  ec_halt_detector :: "'venue HaltDetector"
  ec_auction_engine :: "'venue AuctionEngine"
  ec_cached_state :: "'venue ExchangeControlState"
  ec_last_update_ns :: u64

section \<open>Operations\<close>

definition ec_new :: "'venue \<Rightarrow> 'venue list \<Rightarrow> 'venue ExchangeControl" where
  "ec_new venue_id venues =
     \<lparr>ec_venue_id = venue_id, ec_halt_detector = hd_new venues,
      ec_auction_engine = ae_new venue_id 1000,
      ec_cached_state =
        \<lparr>ecs_venue_id = venue_id, ecs_is_halted = False, ecs_halt_state = Open,
         ecs_auction_active = False, ecs_auction_phase = Inactive,
         ecs_circuit_breaker_level = NoLevel, ecs_last_update_ns = 0\<rparr>,
      ec_last_update_ns = 0\<rparr>"

definition ec_kill_switch :: "'venue ExchangeControl \<Rightarrow> bool" where
  "ec_kill_switch c = hd_global_kill_switch (ec_halt_detector c)"

definition ec_is_symbol_tradeable ::
    "'venue ExchangeControl \<Rightarrow> auction_symbol \<Rightarrow> bool \<times> 'venue ExchangeControl" where
  "ec_is_symbol_tradeable c symb =
     (if ec_kill_switch c then (False, c)
      else if \<not> hd_is_symbol_tradeable (ec_halt_detector c) (ec_venue_id c) symb then (False, c)
      else let (phase, e) = ae_get_symbol_phase (ec_auction_engine c) symb;
               c = c\<lparr>ec_auction_engine := e\<rparr>
           in if \<not> allows_order_entry phase then (False, c) else (True, c))"

definition ec_is_venue_tradeable :: "'venue ExchangeControl \<Rightarrow> bool" where
  "ec_is_venue_tradeable c =
     (if ec_kill_switch c then False
      else hd_is_venue_tradeable (ec_halt_detector c) (ec_venue_id c) \<and>
           \<not> ae_is_auction_active (ec_auction_engine c))"

definition ec_get_control_state :: "'venue ExchangeControl \<Rightarrow> 'venue ExchangeControlState" where
  "ec_get_control_state c = ec_cached_state c"

definition ec_refresh_state :: "'venue ExchangeControl \<Rightarrow> clock \<Rightarrow> 'venue ExchangeControl" where
  "ec_refresh_state c clk =
     (let now_ns = clk 0;
          is_halted = ec_kill_switch c;
          auction_active = ae_is_auction_active (ec_auction_engine c);
          dummy_symbol = replicate 12 0;
          halt_state = hd_get_symbol_state (ec_halt_detector c) (ec_venue_id c) dummy_symbol;
          (phase, e) = (if auction_active then ae_get_symbol_phase (ec_auction_engine c) dummy_symbol
                        else (Inactive, ec_auction_engine c));
          state = (ec_cached_state c)\<lparr>ecs_is_halted := is_halted, ecs_halt_state := halt_state,
                    ecs_auction_active := auction_active, ecs_auction_phase := phase,
                    ecs_last_update_ns := now_ns\<rparr>
      in c\<lparr>ec_auction_engine := e, ec_cached_state := state, ec_last_update_ns := now_ns\<rparr>)"

definition ec_emergency_stop :: "'venue \<Rightarrow> 'venue ExchangeControl \<Rightarrow> 'venue ExchangeControl" where
  "ec_emergency_stop unknown c =
     c\<lparr>ec_halt_detector := hd_emergency_stop unknown (ec_halt_detector c)\<rparr>"

definition ec_process_halt :: "'venue ExchangeControl \<Rightarrow> 'venue HaltEvent \<Rightarrow> clock \<Rightarrow> 'venue ExchangeControl" where
  "ec_process_halt c ev clk =
     ec_refresh_state (c\<lparr>ec_halt_detector := hd_process_halt_message (ec_halt_detector c) ev\<rparr>) clk"

definition ec_start_auction :: "'venue ExchangeControl \<Rightarrow> auction_symbol \<Rightarrow> u64 \<Rightarrow> clock \<Rightarrow> 'venue ExchangeControl" where
  "ec_start_auction c symb duration_ms clk =
     ec_refresh_state
       (c\<lparr>ec_auction_engine := ae_start_auction (ec_auction_engine c) symb duration_ms clk\<rparr>) (after 1 clk)"

definition ec_submit_auction_order ::
    "'venue ExchangeControl \<Rightarrow> AuctionOrder \<Rightarrow> (string + unit) \<times> 'venue ExchangeControl" where
  "ec_submit_auction_order c ord =
     (let (r, e) = ae_submit_auction_order (ec_auction_engine c) ord in (r, c\<lparr>ec_auction_engine := e\<rparr>))"

definition ec_execute_auction ::
    "'venue ExchangeControl \<Rightarrow> auction_symbol \<Rightarrow> clock
     \<Rightarrow> (IndicativePrice option \<times> AuctionOrder list) \<times> 'venue ExchangeControl" where
  "ec_execute_auction c symb clk =
     (let (r, e) = ae_execute_auction (ec_auction_engine c) symb
      in (r, ec_refresh_state (c\<lparr>ec_auction_engine := e\<rparr>) clk))"

definition ec_get_indicative_price ::
    "'venue ExchangeControl \<Rightarrow> auction_symbol \<Rightarrow> IndicativePrice option \<times> 'venue ExchangeControl" where
  "ec_get_indicative_price c symb =
     (let (r, e) = ae_get_indicative_price (ec_auction_engine c) symb in (r, c\<lparr>ec_auction_engine := e\<rparr>))"

section \<open>The manager\<close>

record 'venue ExchangeControlManager =
  em_controls :: "'venue ExchangeControl list"

definition em_new :: "'venue list \<Rightarrow> 'venue ExchangeControlManager" where
  "em_new venues = \<lparr>em_controls = map (\<lambda>venue_id. ec_new venue_id venues) venues\<rparr>"

text \<open>The switch of the first control, or a fresh one when there is no venue.\<close>

definition em_any_venue_halted :: "'venue ExchangeControlManager \<Rightarrow> bool" where
  "em_any_venue_halted m = (case em_controls m of c # _ \<Rightarrow> ec_kill_switch c | [] \<Rightarrow> False)"

definition em_get_control :: "'venue ExchangeControlManager \<Rightarrow> 'venue \<Rightarrow> 'venue ExchangeControl option" where
  "em_get_control m venue_id = find (\<lambda>c. ec_venue_id c = venue_id) (em_controls m)"

text \<open>What a caller does to the shared control that \<open>get_control\<close> hands out.\<close>

fun on_control ::
    "'venue \<Rightarrow> ('venue ExchangeControl \<Rightarrow> 'venue ExchangeControl) \<Rightarrow> 'venue ExchangeControl list
     \<Rightarrow> 'venue ExchangeControl list" where
  "on_control venue_id f [] = []"
| "on_control venue_id f (c # cs) =
     (if ec_venue_id c = venue_id then f c # cs else c # on_control venue_id f cs)"

definition em_with_control ::
    "'venue ExchangeControlManager \<Rightarrow> 'venue \<Rightarrow> ('venue ExchangeControl \<Rightarrow> 'venue ExchangeControl)
     \<Rightarrow> 'venue ExchangeControlManager" where
  "em_with_control m venue_id f = m\<lparr>em_controls := on_control venue_id f (em_controls m)\<rparr>"

definition em_emergency_stop_all :: "'venue \<Rightarrow> 'venue ExchangeControlManager \<Rightarrow> 'venue ExchangeControlManager" where
  "em_emergency_stop_all unknown m = m\<lparr>em_controls := map (ec_emergency_stop unknown) (em_controls m)\<rparr>"

definition em_refresh_all_states :: "'venue ExchangeControlManager \<Rightarrow> (nat \<Rightarrow> clock) \<Rightarrow> 'venue ExchangeControlManager" where
  "em_refresh_all_states m clks =
     m\<lparr>em_controls := map (\<lambda>(i, c). ec_refresh_state c (clks i)) (enumerate 0 (em_controls m))\<rparr>"

section \<open>Runs of a control\<close>

datatype 'venue ec_op =
    EcTradeable auction_symbol
  | EcRefresh clock
  | EcEmergencyStop 'venue
  | EcProcessHalt "'venue HaltEvent" clock
  | EcStartAuction auction_symbol u64 clock
  | EcSubmit AuctionOrder
  | EcExecute auction_symbol clock
  | EcIndicative auction_symbol

fun ec_exec :: "'venue ec_op \<Rightarrow> 'venue ExchangeControl \<Rightarrow> 'venue ExchangeControl" where
  "ec_exec (EcTradeable symb) c = snd (ec_is_symbol_tradeable c symb)"
| "ec_exec (EcRefresh clk) c = ec_refresh_state c clk"
| "ec_exec (EcEmergencyStop unknown) c = ec_emergency_stop unknown c"
| "ec_exec (EcProcessHalt ev clk) c = ec_process_halt c ev clk"
| "ec_exec (EcStartAuction symb d clk) c = ec_start_auction c symb d clk"
| "ec_exec (EcSubmit ord) c = snd (ec_submit_auction_order c ord)"
| "ec_exec (EcExecute symb clk) c = snd (ec_execute_auction c symb clk)"
| "ec_exec (EcIndicative symb) c = snd (ec_get_indicative_price c symb)"

fun starts_auction :: "auction_symbol \<Rightarrow> 'venue ec_op \<Rightarrow> bool" where
  "starts_auction symb (EcStartAuction t d clk) \<longleftrightarrow> t = symb"
| "starts_auction symb _ = False"

text \<open>The symbol is in no auction.\<close>

definition ec_no_auction :: "auction_symbol \<Rightarrow> 'venue ExchangeControl \<Rightarrow> bool" where
  "ec_no_auction symb c \<longleftrightarrow> sa_get_phase (ae_target (ec_auction_engine c) symb) = Inactive"

lemma ae_target_created [simp]:
  "ae_target (snd (ae_get_or_create_symbol e t)) symb = ae_target e symb"
  by (auto simp: ae_target_def)

lemma ae_target_store:
  "ae_target (ae_store (snd (ae_get_or_create_symbol e t)) t s) symb =
     (if t = symb \<and> ae_keeps e t then s else ae_target e symb)"
  by (auto simp: ae_target_def)

lemma ae_target_flag [simp]: "ae_target (e\<lparr>ae_global_auction_active := f\<rparr>) symb = ae_target e symb"
  by (simp add: ae_target_def)

lemma engine_keeps_inactive:
  assumes "sa_get_phase (ae_target e symb) = Inactive"
  shows "sa_get_phase (ae_target (snd (ae_submit_auction_order e ord)) symb) = Inactive"
    and "sa_get_phase (ae_target (snd (ae_execute_auction e t)) symb) = Inactive"
    and "sa_get_phase (ae_target (snd (ae_get_symbol_phase e t)) symb) = Inactive"
    and "sa_get_phase (ae_target (snd (ae_get_indicative_price e t)) symb) = Inactive"
    and "t \<noteq> symb \<Longrightarrow> sa_get_phase (ae_target (ae_start_auction e t d clk) symb) = Inactive"
  using assms by (simp_all add: ae_defs ae_target_store)

lemma refresh_no_auction: "ec_no_auction symb c \<Longrightarrow> ec_no_auction symb (ec_refresh_state c clk)"
  by (simp add: ec_no_auction_def ec_refresh_state_def Let_def case_prod_unfold engine_keeps_inactive)

interpretation no_auction: latched_system ec_exec "\<lambda>op. \<not> starts_auction symb op" "ec_no_auction symb"
proof
  fix c :: "'a ExchangeControl" and op :: "'a ec_op"
  assume none: "ec_no_auction symb c" and other: "\<not> starts_auction symb op"
  note idle = engine_keeps_inactive [OF none [unfolded ec_no_auction_def]]
  have eng: "ec_no_auction symb (c\<lparr>ec_auction_engine := e\<rparr>)"
    if "sa_get_phase (ae_target e symb) = Inactive" for e
    using that by (simp add: ec_no_auction_def)
  have det: "ec_no_auction symb (c\<lparr>ec_halt_detector := d\<rparr>)" for d
    using none by (simp add: ec_no_auction_def)
  show "ec_no_auction symb (ec_exec op c)"
  proof (cases op)
    case (EcTradeable t)
    with none eng idle(3) show ?thesis by (simp add: ec_is_symbol_tradeable_def case_prod_unfold Let_def)
  next
    case (EcStartAuction t d clk)
    with other eng idle(5) show ?thesis by (simp add: ec_start_auction_def refresh_no_auction)
  qed (use none eng det idle in \<open>simp_all add: refresh_no_auction ec_emergency_stop_def ec_process_halt_def
    ec_submit_auction_order_def ec_execute_auction_def ec_get_indicative_price_def case_prod_unfold Let_def\<close>)
qed

section \<open>Properties\<close>

text \<open>
  Only symbols in an auction are reported tradeable. For a control made by \<open>new\<close>, through
  every sequence of its calls that never starts an auction for the symbol, the symbol is
  reported as not tradeable, whether or not anything is halted: normal continuous trading
  has the auction phase \<open>Inactive\<close>, which does not allow order entry.
\<close>

lemma continuous_trading_refused:
  assumes "list_all (\<lambda>op. \<not> starts_auction symb op) ops"
  shows "\<not> fst (ec_is_symbol_tradeable (run ec_exec ops (ec_new venue venues)) symb)"
proof -
  have "ec_no_auction symb (ec_new venue venues)"
    by (simp add: ec_no_auction_def ec_new_def ae_new_def ae_target_def)
  then have "ec_no_auction symb (run ec_exec ops (ec_new venue venues))"
    using assms by (rule no_auction.run_latch)
  then show ?thesis
    by (simp add: ec_is_symbol_tradeable_def ec_no_auction_def ae_get_symbol_phase_def
        case_prod_unfold Let_def)
qed

text \<open>
  The manager sees the halts of its first venue only. Whatever is done to the control of
  another venue of a new manager, an emergency stop for example, the manager does not report
  a halted venue.
\<close>

lemma manager_sees_first_venue_only:
  assumes "v \<noteq> first"
  shows "\<not> em_any_venue_halted (em_with_control (em_new (first # venues)) v f)"
  using assms
  by (simp add: em_any_venue_halted_def em_with_control_def em_new_def ec_new_def ec_kill_switch_def hd_new_def)

end
