(* ===== verification/Fix_Codec.thy ===== *)
theory Fix_Codec
  imports Bytes
begin

text \<open>
  The FIX 4.4 codec (\<open>src/src/fix/codec.rs\<close>): tags, fields, messages, the encoder and the
  decoder with their number and checksum routines.

  A position in a buffer is a natural number. The length of a field is a \<open>u64\<close>, since the
  expression that computes it underflows. An encoder returns its result next to the buffer it
  has written to, also when it fails half-way. Two places of the source do not compile:
  \<open>HeartBtInt\<close> and \<open>HeartbeatInterval\<close> have the same discriminant, and \<open>encode\<close> calls \<open>len\<close> on the
  count \<open>itoa_buffer\<close> returns; the model reads the count itself.
\<close>

section \<open>Tags and errors\<close>

datatype FixTag =
    BeginString | BodyLength | MsgType | SenderCompID | TargetCompID | MsgSeqNum | SendingTime
  | CheckSum | ClOrdID | OrderQty | Side | Symbol | Price | OrdType | TimeInForce | ExecID | ExecType
  | OrdStatus | LastQty | LastPx | HeartBtInt | TestReqID | GapFillFlag | PossResend | EncryptMethod
  | HeartbeatInterval

fun as_u32 :: "FixTag \<Rightarrow> u32" where
  "as_u32 BeginString = 8"
| "as_u32 BodyLength = 9"
| "as_u32 MsgType = 35"
| "as_u32 SenderCompID = 49"
| "as_u32 TargetCompID = 56"
| "as_u32 MsgSeqNum = 34"
| "as_u32 SendingTime = 52"
| "as_u32 CheckSum = 10"
| "as_u32 ClOrdID = 11"
| "as_u32 OrderQty = 38"
| "as_u32 Side = 54"
| "as_u32 Symbol = 55"
| "as_u32 Price = 44"
| "as_u32 OrdType = 40"
| "as_u32 TimeInForce = 59"
| "as_u32 ExecID = 17"
| "as_u32 ExecType = 150"
| "as_u32 OrdStatus = 39"
| "as_u32 LastQty = 32"
| "as_u32 LastPx = 31"
| "as_u32 HeartBtInt = 108"
| "as_u32 TestReqID = 112"
| "as_u32 GapFillFlag = 123"
| "as_u32 PossResend = 97"
| "as_u32 EncryptMethod = 98"
| "as_u32 HeartbeatInterval = 108"

definition tag_from_u32 :: "u32 \<Rightarrow> FixTag option" where
  "tag_from_u32 val =
     (if val = 8 then Some BeginString
      else if val = 9 then Some BodyLength
      else if val = 35 then Some MsgType
      else if val = 49 then Some SenderCompID
      else if val = 56 then Some TargetCompID
      else if val = 34 then Some MsgSeqNum
      else if val = 52 then Some SendingTime
      else if val = 10 then Some CheckSum
      else if val = 11 then Some ClOrdID
      else if val = 38 then Some OrderQty
      else if val = 54 then Some Side
      else if val = 55 then Some Symbol
      else if val = 44 then Some Price
      else if val = 40 then Some OrdType
      else if val = 59 then Some TimeInForce
      else if val = 17 then Some ExecID
      else if val = 150 then Some ExecType
      else if val = 39 then Some OrdStatus
      else if val = 32 then Some LastQty
      else if val = 31 then Some LastPx
      else if val = 108 then Some HeartBtInt
      else if val = 112 then Some TestReqID
      else if val = 123 then Some GapFillFlag
      else if val = 97 then Some PossResend
      else None)"

datatype FixError =
    BufferTooSmall | InvalidTagFormat | MissingRequiredField | InvalidChecksum | InvalidUtf8
  | EmptyValue | ParseError | MalformedMessage | OutOfBounds | SessionNotActive | SequenceGap
  | InvalidMessageType

fun error_code :: "FixError \<Rightarrow> u32" where
  "error_code BufferTooSmall = 1"
| "error_code InvalidTagFormat = 2"
| "error_code MissingRequiredField = 3"
| "error_code InvalidChecksum = 4"
| "error_code InvalidUtf8 = 5"
| "error_code EmptyValue = 6"
| "error_code ParseError = 7"
| "error_code MalformedMessage = 8"
| "error_code OutOfBounds = 9"
| "error_code SessionNotActive = 10"
| "error_code SequenceGap = 11"
| "error_code InvalidMessageType = 12"

definition SOH :: u8 where
  "SOH = 1"

definition MAX_FIX_MESSAGE_SIZE :: nat where
  "MAX_FIX_MESSAGE_SIZE = 4096"

type_synonym 'a fix_result = "FixError + 'a"

section \<open>Numbers and checksums\<close>

definition u64_checked_mul :: "u64 \<Rightarrow> u64 \<Rightarrow> u64 option" where
  "u64_checked_mul a b = (if unat a * unat b < 2 ^ 64 then Some (a * b) else None)"

definition u64_checked_add :: "u64 \<Rightarrow> u64 \<Rightarrow> u64 option" where
  "u64_checked_add a b = (if unat a + unat b < 2 ^ 64 then Some (a + b) else None)"

definition i64_checked_mul :: "i64 \<Rightarrow> i64 \<Rightarrow> i64 option" where
  "i64_checked_mul a b =
     (if - (2 ^ 63) \<le> sint a * sint b \<and> sint a * sint b < 2 ^ 63 then Some (a * b) else None)"

definition i64_checked_add :: "i64 \<Rightarrow> i64 \<Rightarrow> i64 option" where
  "i64_checked_add a b =
     (if - (2 ^ 63) \<le> sint a + sint b \<and> sint a + sint b < 2 ^ 63 then Some (a + b) else None)"

fun parse_uint_loop :: "u8 list \<Rightarrow> u64 \<Rightarrow> u64 fix_result" where
  "parse_uint_loop [] result = Inr result"
| "parse_uint_loop (b # bytes) result =
     (if b < 48 \<or> 57 < b then Inl ParseError
      else case Option.bind (u64_checked_mul result 10) (\<lambda>r. u64_checked_add r (ucast (b - 48))) of
             None \<Rightarrow> Inl ParseError
           | Some result \<Rightarrow> parse_uint_loop bytes result)"

definition parse_uint :: "u8 list \<Rightarrow> u64 fix_result" where
  "parse_uint bytes = (if bytes = [] then Inl EmptyValue else parse_uint_loop bytes 0)"

fun parse_int_loop :: "u8 list \<Rightarrow> i64 \<Rightarrow> i64 fix_result" where
  "parse_int_loop [] result = Inr result"
| "parse_int_loop (b # bytes) result =
     (if b < 48 \<or> 57 < b then Inl ParseError
      else case Option.bind (i64_checked_mul result 10) (\<lambda>r. i64_checked_add r (ucast (b - 48))) of
             None \<Rightarrow> Inl ParseError
           | Some result \<Rightarrow> parse_int_loop bytes result)"

definition parse_int :: "u8 list \<Rightarrow> i64 fix_result" where
  "parse_int bytes =
     (if bytes = [] then Inl EmptyValue
      else
        let (negative, start) =
              (if bytes ! 0 = 45 then (True, 1) else if bytes ! 0 = 43 then (False, 1) else (False, 0))
        in case parse_int_loop (drop start bytes) 0 of
             Inl e \<Rightarrow> Inl e
           | Inr result \<Rightarrow> Inr (if negative then - result else result))"

fun parse_checksum_loop :: "u8 list \<Rightarrow> 16 word \<Rightarrow> (16 word) fix_result" where
  "parse_checksum_loop [] result = Inr result"
| "parse_checksum_loop (b # bytes) result =
     (if b < 48 \<or> 57 < b then Inl ParseError
      else parse_checksum_loop bytes (result * 10 + ucast (b - 48)))"

definition parse_checksum :: "u8 list \<Rightarrow> u8 fix_result" where
  "parse_checksum bytes =
     (if length bytes \<noteq> 3 then Inl ParseError
      else case parse_checksum_loop bytes 0 of
             Inl e \<Rightarrow> Inl e
           | Inr result \<Rightarrow> if 255 < result then Inl ParseError else Inr (ucast result))"

definition calculate_checksum :: "u8 list \<Rightarrow> u8" where
  "calculate_checksum data =
     (let sum = (\<Sum>b\<leftarrow>data. ucast b) :: u32
      in ucast (sum mod 256))"

definition write_checksum :: "u8 list \<Rightarrow> u8 \<Rightarrow> u8 list" where
  "write_checksum buffer checksum =
     (if length buffer < 3 then buffer
      else buffer[0 := 48 + checksum div 100 mod 10, 1 := 48 + checksum div 10 mod 10,
                  2 := 48 + checksum mod 10])"

text \<open>The digits of a number, the last one first, as the loop of \<open>itoa_buffer\<close> collects them.\<close>

function itoa_digits :: "u32 \<Rightarrow> nat \<Rightarrow> u8 list" where
  "itoa_digits val idx =
     (if 0 < val \<and> idx < 10 then (48 + ucast (val mod 10)) # itoa_digits (val div 10) (idx + 1) else [])"
  by pat_completeness auto
termination by (relation "measure (\<lambda>(val, idx). 10 - idx)") auto

declare itoa_digits.simps [simp del]

definition itoa_buffer :: "u32 \<Rightarrow> u8 list \<Rightarrow> nat \<times> u8 list" where
  "itoa_buffer val buffer =
     (if val = 0
      then (if buffer \<noteq> [] then (1, buffer[0 := 48]) else (0, buffer))
      else
        let digits = itoa_digits val 0; idx = length digits
        in if length buffer < idx then (0, buffer) else (idx, rev digits @ drop idx buffer))"

definition find_byte :: "u8 list \<Rightarrow> nat \<Rightarrow> u8 \<Rightarrow> nat option" where
  "find_byte buffer start byte =
     (if length buffer \<le> start then None
      else let p = length (takeWhile (\<lambda>b. b \<noteq> byte) (drop start buffer))
           in if p < length (drop start buffer) then Some (start + p) else None)"

section \<open>Fields and messages\<close>

record FixField =
  ff_tag :: u32
  ff_value :: "u8 list"
  ff_offset :: nat
  ff_length :: u64

definition ff_new :: "u32 \<Rightarrow> u8 list \<Rightarrow> nat \<Rightarrow> u64 \<Rightarrow> FixField" where
  "ff_new tag val offset len = \<lparr>ff_tag = tag, ff_value = val, ff_offset = offset, ff_length = len\<rparr>"

definition ff_as_int :: "FixField \<Rightarrow> i64 fix_result" where
  "ff_as_int f = parse_int (ff_value f)"

definition ff_as_uint :: "FixField \<Rightarrow> u64 fix_result" where
  "ff_as_uint f = parse_uint (ff_value f)"

definition ff_as_str :: "FixField \<Rightarrow> u8 list fix_result" where
  "ff_as_str f = (if utf8_valid (ff_value f) then Inr (ff_value f) else Inl InvalidUtf8)"

definition ff_as_char :: "FixField \<Rightarrow> u8 fix_result" where
  "ff_as_char f = (if ff_value f = [] then Inl EmptyValue else Inr (ff_value f ! 0))"

record FixMessage =
  fm_buffer :: "u8 list"
  fm_fields :: "FixField option list"
  fm_field_count :: nat
  fm_msg_type :: "u8 list option"
  fm_begin_string :: "u8 list option"
  fm_body_length :: u64
  fm_checksum :: u8
  fm_calculated_checksum :: u8

definition fm_new :: "u8 list \<Rightarrow> FixMessage" where
  "fm_new buffer =
     \<lparr>fm_buffer = buffer, fm_fields = replicate 64 None, fm_field_count = 0, fm_msg_type = None,
      fm_begin_string = None, fm_body_length = 0, fm_checksum = 0, fm_calculated_checksum = 0\<rparr>"

definition fm_get_field :: "FixMessage \<Rightarrow> FixTag \<Rightarrow> FixField option" where
  "fm_get_field m tag =
     (let tag_u32 = as_u32 tag
      in List.find (\<lambda>f. ff_tag f = tag_u32) (List.map_filter id (take (fm_field_count m) (fm_fields m))))"

definition fm_fields_iter :: "FixMessage \<Rightarrow> FixField list" where
  "fm_fields_iter m = List.map_filter id (fm_fields m)"

definition fm_get_msg_type :: "FixMessage \<Rightarrow> u8 list option" where
  "fm_get_msg_type m = Option.bind (fm_msg_type m) (\<lambda>b. if utf8_valid b then Some b else None)"

definition fm_get_begin_string :: "FixMessage \<Rightarrow> u8 list option" where
  "fm_get_begin_string m = Option.bind (fm_begin_string m) (\<lambda>b. if utf8_valid b then Some b else None)"

definition fm_validate_checksum :: "FixMessage \<Rightarrow> bool" where
  "fm_validate_checksum m = (fm_checksum m = fm_calculated_checksum m)"

section \<open>The codec\<close>

record FixCodec =
  fc_messages_encoded :: u64
  fc_messages_decoded :: u64
  fc_parse_errors :: u64

definition fc_new :: FixCodec where
  "fc_new = \<lparr>fc_messages_encoded = 0, fc_messages_decoded = 0, fc_parse_errors = 0\<rparr>"

definition fc_error :: "FixCodec \<Rightarrow> FixCodec" where
  "fc_error c = c\<lparr>fc_parse_errors := fc_parse_errors c + 1\<rparr>"

text \<open>
  One round of the loop of \<open>encode\<close>: the field is written at \<open>pos\<close>; the result is the position
  behind it and the start of the checksummed part.
\<close>

definition encode_field ::
    "FixField \<Rightarrow> nat \<Rightarrow> nat \<Rightarrow> u8 list \<Rightarrow> (nat \<times> nat) fix_result \<times> u8 list" where
  "encode_field f pos checksum_start buffer =
     (if (of_nat (length buffer) :: u64) < of_nat pos + ff_length f then (Inl BufferTooSmall, buffer)
      else
        let checksum_start =
              (if checksum_start = 0 \<and> ff_tag f \<noteq> as_u32 BeginString \<and> ff_tag f \<noteq> as_u32 BodyLength
               then pos else checksum_start);
            (n, tail) = itoa_buffer (ff_tag f) (drop pos buffer);
            buffer = take pos buffer @ tail;
            pos = pos + n
        in if length buffer \<le> pos then (Inl BufferTooSmall, buffer)
           else
             let buffer = buffer[pos := 61];
                 pos = pos + 1;
                 value_len = length (ff_value f)
             in if length buffer < pos + value_len + 1 then (Inl BufferTooSmall, buffer)
                else
                  let buffer = write_at pos (ff_value f) buffer;
                      pos = pos + value_len;
                      buffer = buffer[pos := SOH]
                  in (Inr (pos + 1, checksum_start), buffer))"

fun encode_fields ::
    "FixField list \<Rightarrow> nat \<Rightarrow> nat \<Rightarrow> u8 list \<Rightarrow> (nat \<times> nat) fix_result \<times> u8 list" where
  "encode_fields [] pos checksum_start buffer = (Inr (pos, checksum_start), buffer)"
| "encode_fields (f # fs) pos checksum_start buffer =
     (case encode_field f pos checksum_start buffer of
        (Inl e, buffer) \<Rightarrow> (Inl e, buffer)
      | (Inr (pos, checksum_start), buffer) \<Rightarrow> encode_fields fs pos checksum_start buffer)"

definition fc_encode ::
    "FixCodec \<Rightarrow> FixMessage \<Rightarrow> u8 list \<Rightarrow> FixCodec \<times> nat fix_result \<times> u8 list" where
  "fc_encode c msg buffer =
     (case encode_fields (fm_fields_iter msg) 0 0 buffer of
        (Inl e, buffer) \<Rightarrow> (fc_error c, Inl e, buffer)
      | (Inr (pos, checksum_start), buffer) \<Rightarrow>
          let checksum = calculate_checksum (slice checksum_start pos buffer)
          in if length buffer < pos + 7 then (fc_error c, Inl BufferTooSmall, buffer)
             else
               let buffer = buffer[pos := 49, pos + 1 := 48, pos + 2 := 61];
                   buffer = take (pos + 3) buffer @ write_checksum (drop (pos + 3) buffer) checksum;
                   buffer = buffer[pos + 6 := SOH]
               in (c\<lparr>fc_messages_encoded := fc_messages_encoded c + 1\<rparr>, Inr (pos + 7), buffer))"

text \<open>
  One round of the loop of \<open>decode\<close>: a field at \<open>pos\<close> is parsed, its consequences for the message
  and for the bounds of the body are recorded, and the position behind it is returned.
\<close>

definition decode_field ::
    "u8 list \<Rightarrow> FixMessage \<Rightarrow> nat \<Rightarrow> nat \<Rightarrow> nat \<Rightarrow> nat
     \<Rightarrow> (FixMessage \<times> nat \<times> nat \<times> nat) fix_result" where
  "decode_field buffer msg pos field_idx body_start body_end =
     (case find_byte buffer pos 61 of
        None \<Rightarrow> Inl InvalidTagFormat
      | Some eq_pos \<Rightarrow>
          (case parse_uint (slice pos eq_pos buffer) of
             Inl _ \<Rightarrow> Inl InvalidTagFormat
           | Inr t \<Rightarrow>
               let tag = ucast t :: u32; pos = eq_pos + 1
               in case find_byte buffer pos SOH of
                    None \<Rightarrow> Inl MalformedMessage
                  | Some soh_pos \<Rightarrow>
                      let val = slice pos soh_pos buffer;
                          field_len = of_nat soh_pos - of_nat pos + 1 + (of_nat eq_pos - of_nat pos) + 2;
                          tracked =
                            (if tag = as_u32 BodyLength
                             then (case parse_uint val of
                                     Inl _ \<Rightarrow> Inl ParseError
                                   | Inr n \<Rightarrow> Inr (msg\<lparr>fm_body_length := n\<rparr>, soh_pos + 1, body_end))
                             else if tag = as_u32 CheckSum
                             then (case parse_checksum val of
                                     Inl _ \<Rightarrow> Inl InvalidChecksum
                                   | Inr k \<Rightarrow> Inr (msg\<lparr>fm_checksum := k\<rparr>, body_start, pos))
                             else Inr (msg, body_start, body_end))
                      in (case tracked of
                            Inl e \<Rightarrow> Inl e
                          | Inr (msg, body_start, body_end) \<Rightarrow>
                              let msg = msg\<lparr>fm_fields :=
                                    (fm_fields msg)[field_idx := Some (ff_new tag val pos field_len)]\<rparr>;
                                  msg = (if tag = as_u32 MsgType then msg\<lparr>fm_msg_type := Some val\<rparr>
                                         else if tag = as_u32 BeginString
                                         then msg\<lparr>fm_begin_string := Some val\<rparr>
                                         else msg)
                              in Inr (msg, soh_pos + 1, body_start, body_end))))"

lemma decode_field_keeps_capacity:
  "decode_field buffer msg pos idx bs be = Inr (msg', pos', bs', be') \<Longrightarrow>
   length (fm_fields msg') = length (fm_fields msg)"
  by (auto simp: decode_field_def Let_def split: option.splits sum.splits if_splits)

function decode_loop ::
    "u8 list \<Rightarrow> FixMessage \<Rightarrow> nat \<Rightarrow> nat \<Rightarrow> nat \<Rightarrow> nat
     \<Rightarrow> (FixMessage \<times> nat \<times> nat \<times> nat) fix_result" where
  "decode_loop buffer msg pos field_idx body_start body_end =
     (if pos < length buffer \<and> field_idx < length (fm_fields msg)
      then case decode_field buffer msg pos field_idx body_start body_end of
             Inl e \<Rightarrow> Inl e
           | Inr (msg, pos, body_start, body_end) \<Rightarrow>
               decode_loop buffer msg pos (field_idx + 1) body_start body_end
      else Inr (msg, field_idx, body_start, body_end))"
  by pat_completeness auto
termination
  by (relation "measure (\<lambda>(buffer, msg, pos, idx, bs, be). length (fm_fields msg) - idx)")
     (auto simp: decode_field_keeps_capacity)

declare decode_loop.simps [simp del]

definition fc_decode :: "FixCodec \<Rightarrow> u8 list \<Rightarrow> FixCodec \<times> FixMessage fix_result" where
  "fc_decode c buffer =
     (if buffer = [] then (fc_error c, Inl MalformedMessage)
      else case decode_loop buffer (fm_new buffer) 0 0 0 0 of
             Inl e \<Rightarrow> (fc_error c, Inl e)
           | Inr (msg, field_idx, body_start, body_end) \<Rightarrow>
               let msg = msg\<lparr>fm_field_count := field_idx\<rparr>;
                   msg = (if 0 < body_start \<and> body_start < body_end
                          then msg\<lparr>fm_calculated_checksum :=
                                 calculate_checksum (slice body_start body_end buffer)\<rparr>
                          else msg)
               in (c\<lparr>fc_messages_decoded := fc_messages_decoded c + 1\<rparr>, Inr msg))"

record FixCodecStats =
  fcs_messages_encoded :: u64
  fcs_messages_decoded :: u64
  fcs_parse_errors :: u64

definition fc_get_stats :: "FixCodec \<Rightarrow> FixCodecStats" where
  "fc_get_stats c =
     \<lparr>fcs_messages_encoded = fc_messages_encoded c, fcs_messages_decoded = fc_messages_decoded c,
      fcs_parse_errors = fc_parse_errors c\<rparr>"

section \<open>Numbers\<close>

lemma digit_bounds: "(b < 48 \<or> 57 < b) = (\<not> is_digit b)"
  by (auto simp: is_digit_def)

lemma unat_ucast_8_64: "unat (ucast (b :: u8) :: u64) = unat b"
  using unsigned_less [of b, where ?'a = nat]
  by (simp add: unsigned_ucast_eq take_bit_nat_eq_self_iff)

lemma ucast_8_64_of_nat: "(ucast (b :: u8) :: u64) = of_nat (unat b)"
  using unsigned_less [of b, where ?'a = nat] by (simp add: word_unat_eq_iff unat_ucast_8_64 unat_of_nat)

lemma unat_minus_48: "is_digit b \<Longrightarrow> unat (b - 48) = unat b - 48"
  by (simp add: is_digit_def unat_sub)

lemma parse_uint_step:
  "is_digit b \<Longrightarrow>
   Option.bind (u64_checked_mul r 10) (\<lambda>r. u64_checked_add r (ucast (b - 48))) =
   (if unat r * 10 + (unat b - 48) < 2 ^ 64 then Some (of_nat (unat r * 10 + (unat b - 48))) else None)"
proof -
  assume b: "is_digit b"
  have add: "r * 10 + ucast (b - 48) = of_nat (unat r * 10 + (unat b - 48))"
    using b ucast_8_64_of_nat [of "b - 48"] by (simp add: unat_minus_48)
  show ?thesis
  proof (cases "unat r * 10 < 2 ^ 64")
    case True
    then have "unat (r * 10) = unat r * 10" by (simp add: unat_word_ariths)
    moreover from b have "48 \<le> unat b" by (simp add: is_digit_def word_le_nat_alt)
    ultimately show ?thesis using True b
      by (simp add: u64_checked_mul_def u64_checked_add_def unat_ucast_8_64 unat_minus_48 add)
  next
    case False
    then show ?thesis by (simp add: u64_checked_mul_def)
  qed
qed

lemma parse_uint_loop_exact:
  "parse_uint_loop bs r =
     (if list_all is_digit bs \<and> dec_val (unat r) bs < 2 ^ 64
      then Inr (of_nat (dec_val (unat r) bs)) else Inl ParseError)"
proof (induction bs arbitrary: r)
  case Nil
  then show ?case using unat_u64_less [of r] by simp
next
  case (Cons b bs)
  show ?case
  proof (cases "is_digit b")
    case True
    let ?n = "unat r * 10 + (unat b - 48)"
    have "?n \<le> dec_val ?n bs" by (rule dec_val_ge)
    moreover have "?n < 2 ^ 64 \<Longrightarrow> unat (of_nat ?n :: u64) = ?n"
      by (simp add: unat_of_nat del: of_nat_add of_nat_mult)
    ultimately show ?thesis
      using True Cons.IH [of "of_nat ?n"] by (simp add: parse_uint_step digit_bounds)
  qed (simp add: digit_bounds)
qed

lemma parse_uint_eq:
  "parse_uint bs =
     (if bs = [] then Inl EmptyValue
      else if list_all is_digit bs \<and> dec_val 0 bs < 2 ^ 64 then Inr (of_nat (dec_val 0 bs))
      else Inl ParseError)"
  by (simp add: parse_uint_def parse_uint_loop_exact)

lemma parse_uint_decimal: "n < 2 ^ 64 \<Longrightarrow> parse_uint (decimal n) = Inr (of_nat n)"
  by (simp add: parse_uint_eq decimal_digits)

section \<open>Checksums\<close>

lemma ucast_32_8_add: "(ucast (a + b :: u32) :: u8) = ucast a + ucast b"
  by (simp add: word_unat_eq_iff unat_word_ariths unsigned_ucast_eq take_bit_eq_mod mod_mod_cancel mod_add_eq)

lemma ucast_8_32_8: "(ucast (ucast (b :: u8) :: u32) :: u8) = b"
  by (rule bit_word_eqI) (simp add: bit_simps)

lemma ucast_32_8_mod: "(ucast (a mod 256 :: u32) :: u8) = ucast a"
  by (simp add: word_unat_eq_iff unat_mod unsigned_ucast_eq take_bit_eq_mod)

lemma calculate_checksum_sum: "calculate_checksum data = sum_list data"
proof -
  have "(ucast (\<Sum>b\<leftarrow>data. ucast b :: u32) :: u8) = sum_list data"
    by (induction data) (simp_all add: ucast_32_8_add ucast_8_32_8)
  then show ?thesis by (simp add: calculate_checksum_def ucast_32_8_mod)
qed

text \<open>The three digits of a checksum.\<close>

definition checksum_text :: "u8 \<Rightarrow> u8 list" where
  "checksum_text k = [48 + k div 100 mod 10, 48 + k div 10 mod 10, 48 + k mod 10]"

lemma write_checksum_eq: "3 \<le> length buffer \<Longrightarrow> write_checksum buffer k = checksum_text k @ drop 3 buffer"
  by (cases buffer rule: list.exhaust; cases "tl buffer"; cases "tl (tl buffer)")
     (auto simp: write_checksum_def checksum_text_def)

lemma checksum_digit: "is_digit (48 + x mod 10)" "48 + x mod 10 - 48 = (x mod 10 :: u8)"
  by (simp_all add: is_digit_def word_le_nat_alt unat_word_ariths unat_mod)

lemma checksum_value:
  "(ucast (k div 100 mod 10) * 10 + ucast (k div 10 mod 10)) * 10 + ucast (k mod 10) = (ucast (k :: u8) :: 16 word)"
proof -
  define n where "n = unat k"
  have n: "n < 256" using unsigned_less [of k, where ?'a = nat] by (simp add: n_def)
  have u: "unat (ucast (x :: u8) :: 16 word) = unat x" for x
    using unsigned_less [of x, where ?'a = nat] by (simp add: unsigned_ucast_eq take_bit_nat_eq_self_iff)
  have "n div 100 = n div 10 div 10" by (simp flip: div_mult2_eq)
  moreover have "n div 100 mod 10 = n div 100" using n by simp
  ultimately have "((n div 100 mod 10) * 10 + n div 10 mod 10) * 10 + n mod 10 = n"
    by (simp only: div_mult_mod_eq)
  then show ?thesis using n
    by (simp add: word_unat_eq_iff unat_word_ariths u unat_mod unat_div n_def)
qed

lemma parse_checksum_text: "parse_checksum (checksum_text k) = Inr k"
proof -
  have "unat (ucast k :: 16 word) \<le> 255"
    using unsigned_less [of k, where ?'a = nat] by (simp add: unsigned_ucast_eq take_bit_nat_eq_self)
  then have "(ucast (k :: u8) :: 16 word) \<le> 255" by (simp add: word_le_nat_alt)
  moreover have "(ucast (ucast k :: 16 word) :: u8) = k"
    by (rule bit_word_eqI) (simp add: bit_simps)
  ultimately show ?thesis
    using checksum_value [of k]
    by (simp add: parse_checksum_def checksum_text_def digit_bounds checksum_digit)
qed

section \<open>Tags in decimal\<close>

lemma ucast_32_8_of_nat: "(ucast (x :: u32) :: u8) = of_nat (unat x)"
  by (simp add: word_unat_eq_iff unat_of_nat unsigned_ucast_eq take_bit_eq_mod)

lemma itoa_digits_decimal:
  "0 < val \<Longrightarrow> unat val < 10 ^ (10 - idx) \<Longrightarrow> rev (itoa_digits val idx) = decimal (unat val)"
proof (induction val idx rule: itoa_digits.induct)
  case (1 val idx)
  have idx: "idx < 10" using 1 by (cases "10 - idx") (auto simp: word_less_nat_alt)
  have d: "ucast (val mod 10) = (of_nat (unat val mod 10) :: u8)"
    by (simp add: ucast_32_8_of_nat unat_mod)
  show ?case
  proof (cases "unat val < 10")
    case True
    then have "val div 10 = 0" by (simp add: word_unat_eq_iff unat_div)
    with True idx 1(2) d show ?thesis
      by (simp add: itoa_digits.simps [of val] itoa_digits.simps [of 0] decimal.simps [of "unat val"])
  next
    case False
    have "10 - idx = Suc (10 - (idx + 1))" using idx by simp
    with 1(3) have "unat val div 10 < 10 ^ (10 - (idx + 1))" by (simp add: div_less_iff_less_mult)
    moreover have "0 < val div 10" using False by (simp add: word_less_nat_alt unat_div)
    ultimately have "rev (itoa_digits (val div 10) (idx + 1)) = decimal (unat val div 10)"
      using 1(1) [OF conjI, OF 1(2) idx] by (simp add: unat_div)
    with False idx 1(2) d show ?thesis
      by (simp add: itoa_digits.simps [of val] decimal.simps [of "unat val"])
  qed
qed

lemma itoa_buffer_eq:
  "length (decimal (unat val)) \<le> length buffer \<Longrightarrow>
   itoa_buffer val buffer =
     (length (decimal (unat val)), decimal (unat val) @ drop (length (decimal (unat val))) buffer)"
proof (cases "val = 0")
  case True
  assume "length (decimal (unat val)) \<le> length buffer"
  with True show ?thesis by (cases buffer) (auto simp: itoa_buffer_def decimal.simps)
next
  case False
  assume "length (decimal (unat val)) \<le> length buffer"
  moreover have "unat val < 10 ^ (10 - 0)" using unsigned_less [of val, where ?'a = nat] by simp
  ultimately show ?thesis
    using False itoa_digits_decimal [of val 0] length_rev [of "itoa_digits val 0"]
    by (simp add: itoa_buffer_def word_gt_0 Let_def del: length_rev)
qed

end
