(* ===== verification/Fix_Wire.thy ===== *)
theory Fix_Wire
  imports Fix_Codec
begin

text \<open>
  The wire format of the codec of \<open>Fix_Codec\<close>: a list of tags and values is a sequence of bytes
  (\<open>wire\<close>); the encoder writes exactly those bytes and a checksum field behind them, and the
  decoder reads them back.
\<close>

section \<open>The format\<close>

type_synonym fix_item = "u32 \<times> u8 list"

definition wire_field :: "fix_item \<Rightarrow> u8 list" where
  "wire_field x = decimal (unat (fst x)) @ 61 # snd x @ [SOH]"

definition wire :: "fix_item list \<Rightarrow> u8 list" where
  "wire xs = concat (map wire_field xs)"

lemma wire_simps [simp]:
  "wire [] = []" "wire (x # xs) = wire_field x @ wire xs" "wire (xs @ ys) = wire xs @ wire ys"
  by (simp_all add: wire_def)

lemma wire_field_nonempty [simp]: "wire_field x \<noteq> []"
  by (simp add: wire_field_def)

definition item :: "FixField \<Rightarrow> fix_item" where
  "item f = (ff_tag f, ff_value f)"

lemma item_simps [simp]: "fst (item f) = ff_tag f" "snd (item f) = ff_value f"
  by (simp_all add: item_def)

definition items :: "FixMessage \<Rightarrow> fix_item list" where
  "items m = map item (fm_fields_iter m)"

text \<open>
  An item the decoder takes apart again: no delimiter inside the value, and a value that parses
  where the decoder parses it.
\<close>

definition item_ok :: "fix_item \<Rightarrow> bool" where
  "item_ok x \<longleftrightarrow>
     SOH \<notin> set (snd x) \<and>
     (fst x = as_u32 BodyLength \<longrightarrow> \<not> isl (parse_uint (snd x))) \<and>
     (fst x = as_u32 CheckSum \<longrightarrow> \<not> isl (parse_checksum (snd x)))"

lemma not_digit_61 [simp]: "\<not> is_digit 61" "\<not> is_digit SOH" "SOH \<noteq> 61"
  by (simp_all add: is_digit_def SOH_def word_le_nat_alt)

lemma delimiter_not_in_decimal [simp]: "61 \<notin> set (decimal n)" "SOH \<notin> set (decimal n)"
  by (simp_all add: decimal_not_mem)

section \<open>Encoding\<close>

text \<open>Where the bytes that \<open>encode\<close> sums up begin.\<close>

fun csum_start :: "fix_item list \<Rightarrow> nat \<Rightarrow> nat \<Rightarrow> nat" where
  "csum_start [] pos cs = cs"
| "csum_start (x # xs) pos cs =
     csum_start xs (pos + length (wire_field x))
       (if cs = 0 \<and> fst x \<noteq> as_u32 BeginString \<and> fst x \<noteq> as_u32 BodyLength then pos else cs)"

definition field_fits :: "FixField \<Rightarrow> bool" where
  "field_fits f \<longleftrightarrow> unat (ff_length f) \<le> length (wire_field (item f))"

lemma encode_field_eq:
  assumes "pos + length (wire_field (item f)) \<le> length buffer" and "length buffer < 2 ^ 64"
    and "field_fits f"
  shows "encode_field f pos cs buffer =
    (Inr (pos + length (wire_field (item f)),
          if cs = 0 \<and> ff_tag f \<noteq> as_u32 BeginString \<and> ff_tag f \<noteq> as_u32 BodyLength then pos else cs),
     write_at pos (wire_field (item f)) buffer)"
proof -
  let ?d = "decimal (unat (ff_tag f))"
  have len: "pos + length ?d + length (ff_value f) + 2 \<le> length buffer"
    using assms(1) by (simp add: wire_field_def)
  have "pos + unat (ff_length f) \<le> length buffer"
    using assms by (simp add: field_fits_def)
  with assms(2) have "\<not> (of_nat (length buffer) :: u64) < of_nat pos + ff_length f"
    by (simp add: word_less_nat_alt unat_word_ariths unat_of_nat)
  moreover have "itoa_buffer (ff_tag f) (drop pos buffer) =
      (length ?d, ?d @ drop (length ?d) (drop pos buffer))"
    using len by (intro itoa_buffer_eq) simp
  moreover have "take pos buffer @ ?d @ drop (length ?d) (drop pos buffer) = write_at pos ?d buffer"
    by (simp add: write_at_def add.commute)
  moreover have "(write_at pos ?d buffer)[pos + length ?d := 61] = write_at pos (?d @ [61]) buffer"
    using len write_at_append [of pos ?d "[61]" buffer] by (simp add: write_at_single)
  moreover have "write_at (pos + length ?d + 1) (ff_value f) (write_at pos (?d @ [61]) buffer) =
      write_at pos (?d @ [61] @ ff_value f) buffer"
    using len write_at_append [of pos "?d @ [61]" "ff_value f" buffer] by simp
  moreover have "(write_at pos (?d @ [61] @ ff_value f) buffer)[pos + length ?d + 1 + length (ff_value f) := SOH] =
      write_at pos (wire_field (item f)) buffer"
    using len write_at_append [of pos "?d @ [61] @ ff_value f" "[SOH]" buffer]
    by (simp add: write_at_single wire_field_def add.assoc)
  ultimately show ?thesis
    using len by (simp add: encode_field_def Let_def wire_field_def)
qed

lemma encode_fields_eq:
  assumes "pos + length (wire (map item fs)) \<le> length buffer" and "length buffer < 2 ^ 64"
    and "list_all field_fits fs"
  shows "encode_fields fs pos cs buffer =
    (Inr (pos + length (wire (map item fs)), csum_start (map item fs) pos cs),
     write_at pos (wire (map item fs)) buffer)"
  using assms
proof (induction fs arbitrary: pos cs buffer)
  case Nil
  then show ?case by (simp add: write_at_def)
next
  case (Cons f fs)
  let ?w = "wire_field (item f)"
  have "encode_field f pos cs buffer =
    (Inr (pos + length ?w,
          if cs = 0 \<and> ff_tag f \<noteq> as_u32 BeginString \<and> ff_tag f \<noteq> as_u32 BodyLength then pos else cs),
     write_at pos ?w buffer)"
    using Cons.prems by (intro encode_field_eq) simp_all
  moreover have "write_at (pos + length ?w) (wire (map item fs)) (write_at pos ?w buffer) =
      write_at pos (?w @ wire (map item fs)) buffer"
    using Cons.prems by (intro write_at_append) simp
  ultimately show ?case
    using Cons.prems Cons.IH [of "pos + length ?w" "write_at pos ?w buffer"]
    by (simp add: add.assoc)
qed

definition wire_checksum :: "fix_item list \<Rightarrow> u8" where
  "wire_checksum xs = sum_list (drop (csum_start xs 0 0) (wire xs))"

definition sealed :: "fix_item list \<Rightarrow> fix_item list" where
  "sealed xs = xs @ [(as_u32 CheckSum, checksum_text (wire_checksum xs))]"

lemma wire_checksum_field: "wire_field (10, checksum_text k) = [49, 48, 61] @ checksum_text k @ [SOH]"
  by (simp add: wire_field_def decimal.simps)

lemma length_checksum_text [simp]: "length (checksum_text k) = 3"
  by (simp add: checksum_text_def)

lemma fc_encode_eq:
  assumes "length (wire (items msg)) + 7 \<le> length buffer" and "length buffer < 2 ^ 64"
    and "list_all field_fits (fm_fields_iter msg)"
  shows "fc_encode c msg buffer =
    (c\<lparr>fc_messages_encoded := fc_messages_encoded c + 1\<rparr>, Inr (length (wire (sealed (items msg)))),
     write_at 0 (wire (sealed (items msg))) buffer)"
proof -
  let ?w = "wire (items msg)" and ?cs = "csum_start (items msg) 0 0" and ?k = "wire_checksum (items msg)"
  let ?n = "length ?w" and ?b = "write_at 0 ?w buffer"
  have len: "length ?b = length buffer" using assms(1) by simp
  have enc: "encode_fields (fm_fields_iter msg) 0 0 buffer = (Inr (?n, ?cs), ?b)"
    using assms encode_fields_eq [of 0 "fm_fields_iter msg" buffer 0] by (simp add: items_def)
  have k: "calculate_checksum (slice ?cs ?n ?b) = ?k"
    using assms(1) by (simp add: calculate_checksum_sum wire_checksum_def slice_def write_at_def)
  have b1: "?b[?n := 49, ?n + 1 := 48, ?n + 2 := 61] = write_at 0 (?w @ [49, 48, 61]) buffer"
    using assms(1) by (simp add: write_at_def list_update_append drop_update_swap numeral_3_eq_3
        Cons_nth_drop_Suc [symmetric])
  have b2: "take (?n + 3) (write_at 0 (?w @ [49, 48, 61]) buffer) @
      write_checksum (drop (?n + 3) (write_at 0 (?w @ [49, 48, 61]) buffer)) ?k =
      write_at 0 (?w @ [49, 48, 61] @ checksum_text ?k) buffer"
    using assms(1) by (simp add: write_at_def write_checksum_eq add.commute)
  have b3: "(write_at 0 (?w @ [49, 48, 61] @ checksum_text ?k) buffer)[?n + 6 := SOH] =
      write_at 0 (wire (sealed (items msg))) buffer"
    using assms(1) write_at_append [of 0 "?w @ [49, 48, 61] @ checksum_text ?k" "[SOH]" buffer]
    by (simp add: write_at_single sealed_def wire_checksum_field add.commute)
  show ?thesis
    using assms(1) len enc k
    by (simp add: fc_encode_def Let_def b1 [simplified] b2 [simplified] b3 [simplified]
        sealed_def wire_checksum_field)
qed

section \<open>Decoding\<close>

lemma find_byte_eq:
  "c \<notin> set xs \<Longrightarrow> find_byte (pre @ xs @ c # rest) (length pre) c = Some (length pre + length xs)"
proof -
  assume c: "c \<notin> set xs"
  then have "takeWhile (\<lambda>b. b \<noteq> c) (xs @ c # rest) = xs"
    by (subst takeWhile_append2) auto
  then show ?thesis by (simp add: find_byte_def)
qed

text \<open>What a field found at \<open>pos\<close> does to the message and to the bounds of the body.\<close>

definition value_pos :: "fix_item \<Rightarrow> nat \<Rightarrow> nat" where
  "value_pos x pos = pos + length (decimal (unat (fst x))) + 1"

definition located :: "fix_item \<Rightarrow> nat \<Rightarrow> FixField" where
  "located x pos = ff_new (fst x) (snd x) (value_pos x pos) (of_nat (length (snd x)) + 2)"

definition absorb :: "fix_item \<Rightarrow> nat \<Rightarrow> nat \<Rightarrow> FixMessage \<Rightarrow> FixMessage" where
  "absorb x pos idx m =
     m\<lparr>fm_fields := (fm_fields m)[idx := Some (located x pos)],
       fm_msg_type := (if fst x = as_u32 MsgType then Some (snd x) else fm_msg_type m),
       fm_begin_string := (if fst x = as_u32 BeginString then Some (snd x) else fm_begin_string m),
       fm_body_length := (if fst x = as_u32 BodyLength then projr (parse_uint (snd x)) else fm_body_length m),
       fm_checksum := (if fst x = as_u32 CheckSum then projr (parse_checksum (snd x)) else fm_checksum m)\<rparr>"

lemma decode_field_wire:
  assumes "item_ok x"
  shows "decode_field (pre @ wire_field x @ rest) m (length pre) idx bs be =
    Inr (absorb x (length pre) idx m, length pre + length (wire_field x),
         if fst x = as_u32 BodyLength then length pre + length (wire_field x) else bs,
         if fst x = as_u32 CheckSum then value_pos x (length pre) else be)"
proof -
  define d where "d = decimal (unat (fst x))"
  define buf where "buf = pre @ wire_field x @ rest"
  define p where "p = length pre + length d"
  have parts: "buf = pre @ d @ 61 # snd x @ SOH # rest"
    by (simp add: buf_def wire_field_def d_def)
  have eq: "find_byte buf (length pre) 61 = Some p"
    using find_byte_eq [of 61 d pre] by (simp add: parts p_def d_def)
  have tag: "parse_uint (slice (length pre) p buf) = Inr (of_nat (unat (fst x)))"
    using slice_append [of pre d] parse_uint_decimal [of "unat (fst x)"] unsigned_less [of "fst x", where ?'a = nat]
    by (simp add: parts p_def d_def)
  have ucast: "(ucast (of_nat (unat (fst x)) :: u64) :: u32) = fst x"
    by (rule bit_word_eqI) (simp add: bit_simps)
  have soh: "find_byte buf (Suc p) SOH = Some (Suc p + length (snd x))"
    using assms find_byte_eq [of SOH "snd x" "pre @ d @ [61]"] by (simp add: parts item_ok_def p_def)
  have val: "slice (Suc p) (Suc p + length (snd x)) buf = snd x"
    using slice_append [of "pre @ d @ [61]" "snd x"] by (simp add: parts p_def)
  have pos: "length pre + length (wire_field x) = Suc (Suc p + length (snd x))" "value_pos x (length pre) = Suc p"
    by (simp_all add: wire_field_def value_pos_def p_def d_def)
  have len: "of_nat (Suc p + length (snd x)) - of_nat (Suc p) + 1 + (of_nat p - of_nat (Suc p)) + 2 =
      (of_nat (length (snd x)) + 2 :: u64)"
    by simp
  have uint: "fst x = 9 \<Longrightarrow> \<exists>n. parse_uint (snd x) = Inr n"
    and csum: "fst x = 10 \<Longrightarrow> \<exists>k. parse_checksum (snd x) = Inr k"
    using assms by (auto simp: item_ok_def isl_def split: sum.splits) (meson sum.exhaust)+
  show ?thesis
    unfolding buf_def [symmetric] pos absorb_def located_def decode_field_def eq option.case tag sum.case Let_def
      ucast Suc_eq_plus1 [symmetric] soh val len
    using uint csum by (cases "fst x = 9"; cases "fst x = 10") auto
qed

fun absorbed :: "fix_item list \<Rightarrow> nat \<Rightarrow> nat \<Rightarrow> FixMessage \<Rightarrow> FixMessage" where
  "absorbed [] pos idx m = m"
| "absorbed (x # xs) pos idx m = absorbed xs (pos + length (wire_field x)) (idx + 1) (absorb x pos idx m)"

fun body_from :: "fix_item list \<Rightarrow> nat \<Rightarrow> nat \<Rightarrow> nat" where
  "body_from [] pos bs = bs"
| "body_from (x # xs) pos bs =
     body_from xs (pos + length (wire_field x))
       (if fst x = as_u32 BodyLength then pos + length (wire_field x) else bs)"

fun body_to :: "fix_item list \<Rightarrow> nat \<Rightarrow> nat \<Rightarrow> nat" where
  "body_to [] pos be = be"
| "body_to (x # xs) pos be =
     body_to xs (pos + length (wire_field x)) (if fst x = as_u32 CheckSum then value_pos x pos else be)"

fun locate :: "fix_item list \<Rightarrow> nat \<Rightarrow> FixField list" where
  "locate [] pos = []"
| "locate (x # xs) pos = located x pos # locate xs (pos + length (wire_field x))"

lemma length_fields_absorb [simp]: "length (fm_fields (absorb x pos idx m)) = length (fm_fields m)"
  by (simp add: absorb_def)

lemma decode_loop_prefix:
  "list_all item_ok xs \<Longrightarrow> idx + length xs \<le> length (fm_fields m) \<Longrightarrow>
   decode_loop (pre @ wire xs @ rest) m (length pre) idx bs be =
   decode_loop (pre @ wire xs @ rest) (absorbed xs (length pre) idx m) (length pre + length (wire xs))
     (idx + length xs) (body_from xs (length pre) bs) (body_to xs (length pre) be)"
proof (induction xs arbitrary: pre m idx bs be)
  case Nil
  then show ?case by simp
next
  case (Cons x xs)
  let ?pre = "pre @ wire_field x" and ?buf = "pre @ wire (x # xs) @ rest"
  have "decode_field ?buf m (length pre) idx bs be =
    Inr (absorb x (length pre) idx m, length ?pre,
         if fst x = as_u32 BodyLength then length ?pre else bs,
         if fst x = as_u32 CheckSum then value_pos x (length pre) else be)"
    using Cons.prems decode_field_wire [of x pre "wire xs @ rest" m idx bs be] by simp
  moreover have "length pre < length ?buf \<and> idx < length (fm_fields m)" using Cons.prems by simp
  ultimately have "decode_loop ?buf m (length pre) idx bs be =
    decode_loop ?buf (absorb x (length pre) idx m) (length ?pre) (idx + 1)
      (if fst x = as_u32 BodyLength then length ?pre else bs)
      (if fst x = as_u32 CheckSum then value_pos x (length pre) else be)"
    by (subst decode_loop.simps) simp
  then show ?case
    using Cons.prems Cons.IH [of "idx + 1" "absorb x (length pre) idx m" ?pre]
    by (simp add: add.assoc)
qed

lemma decode_loop_wire:
  "list_all item_ok xs \<Longrightarrow> idx + length xs \<le> length (fm_fields m) \<Longrightarrow>
   decode_loop (pre @ wire xs) m (length pre) idx bs be =
     Inr (absorbed xs (length pre) idx m, idx + length xs, body_from xs (length pre) bs, body_to xs (length pre) be)"
  using decode_loop_prefix [of xs idx m pre "[]" bs be] by (simp add: decode_loop.simps)

lemma absorbed_append:
  "absorbed (xs @ ys) pos idx m = absorbed ys (pos + length (wire xs)) (idx + length xs) (absorbed xs pos idx m)"
  by (induction xs arbitrary: pos idx m) (simp_all add: add.assoc)

lemma body_from_append: "body_from (xs @ ys) pos bs = body_from ys (pos + length (wire xs)) (body_from xs pos bs)"
  by (induction xs arbitrary: pos bs) (simp_all add: add.assoc)

lemma body_to_append: "body_to (xs @ ys) pos be = body_to ys (pos + length (wire xs)) (body_to xs pos be)"
  by (induction xs arbitrary: pos be) (simp_all add: add.assoc)

lemma body_from_none: "as_u32 BodyLength \<notin> fst ` set xs \<Longrightarrow> body_from xs pos bs = bs"
  by (induction xs arbitrary: pos) auto

lemma locate_items [simp]: "map item (locate xs pos) = xs"
  by (induction xs arbitrary: pos) (simp_all add: located_def item_def ff_new_def)

lemma length_locate [simp]: "length (locate xs pos) = length xs"
  by (induction xs arbitrary: pos) simp_all

lemma fields_absorbed:
  "idx + length xs \<le> length (fm_fields m) \<Longrightarrow>
   fm_fields (absorbed xs pos idx m) =
     take idx (fm_fields m) @ map Some (locate xs pos) @ drop (idx + length xs) (fm_fields m)"
proof (induction xs arbitrary: pos idx m)
  case (Cons x xs)
  then show ?case
    by (simp add: absorb_def take_Suc_conv_app_nth [of idx "(fm_fields m)[idx := _]"])
qed simp

text \<open>The message the decoder makes of the bytes of a list of items.\<close>

definition decoded :: "fix_item list \<Rightarrow> FixMessage" where
  "decoded xs =
     (let m = (absorbed xs 0 0 (fm_new (wire xs)))\<lparr>fm_field_count := length xs\<rparr>;
          from = body_from xs 0 0; to = body_to xs 0 0
      in if 0 < from \<and> from < to
         then m\<lparr>fm_calculated_checksum := calculate_checksum (slice from to (wire xs))\<rparr> else m)"

lemma length_fields_new [simp]: "length (fm_fields (fm_new b)) = 64"
  by (simp add: fm_new_def)

lemma fc_decode_eq:
  "xs \<noteq> [] \<Longrightarrow> length xs \<le> 64 \<Longrightarrow> list_all item_ok xs \<Longrightarrow>
   fc_decode c (wire xs) = (c\<lparr>fc_messages_decoded := fc_messages_decoded c + 1\<rparr>, Inr (decoded xs))"
  using decode_loop_wire [of xs 0 "fm_new (wire xs)" "[]" 0 0]
  by (cases xs) (simp_all add: fc_decode_def decoded_def Let_def)

lemma decoded_fields: "length xs \<le> 64 \<Longrightarrow> fm_fields (decoded xs) = map Some (locate xs 0) @ replicate (64 - length xs) None"
  by (simp add: decoded_def Let_def fields_absorbed) (simp add: fm_new_def)

lemma map_filter_id [simp]:
  "List.map_filter id (map Some ys) = ys" "List.map_filter id (replicate n None) = []"
  "List.map_filter id (xs @ zs) = List.map_filter id xs @ List.map_filter id zs"
  by (induction ys) (simp_all add: List.map_filter_def)

lemma items_decoded [simp]: "length xs \<le> 64 \<Longrightarrow> items (decoded xs) = xs"
  by (simp add: items_def fm_fields_iter_def decoded_fields)

lemma get_field_decoded:
  "length xs \<le> 64 \<Longrightarrow>
   map_option item (fm_get_field (decoded xs) tag) = List.find (\<lambda>x. fst x = as_u32 tag) xs"
proof -
  assume len: "length xs \<le> 64"
  have find: "map_option item (List.find (\<lambda>f. ff_tag f = t) fs) = List.find (\<lambda>x. fst x = t) (map item fs)" for t fs
    by (induction fs) auto
  have "fm_field_count (decoded xs) = length xs" by (simp add: decoded_def Let_def)
  with len have "List.map_filter id (take (fm_field_count (decoded xs)) (fm_fields (decoded xs))) = locate xs 0"
    by (simp add: decoded_fields)
  then show ?thesis by (simp add: fm_get_field_def find)
qed

section \<open>Round trip\<close>

text \<open>A message is encoded into a buffer, and the written part is decoded.\<close>

definition transmit :: "FixCodec \<Rightarrow> FixMessage \<Rightarrow> u8 list \<Rightarrow> FixMessage fix_result" where
  "transmit c msg buffer =
     (case fc_encode c msg buffer of
        (c, Inl e, buffer) \<Rightarrow> Inl e
      | (c, Inr n, buffer) \<Rightarrow> snd (fc_decode c (take n buffer)))"

definition encodable :: "FixMessage \<Rightarrow> u8 list \<Rightarrow> bool" where
  "encodable msg buffer \<longleftrightarrow>
     length (items msg) < 64 \<and> list_all item_ok (items msg) \<and> list_all field_fits (fm_fields_iter msg) \<and>
     length (wire (items msg)) + 7 \<le> length buffer \<and> length buffer < 2 ^ 64"

lemma sealed_ok: "list_all item_ok xs \<Longrightarrow> list_all item_ok (sealed xs)"
proof -
  assume "list_all item_ok xs"
  moreover have "SOH \<notin> set (checksum_text k)" for k
    using checksum_digit(1) [of "k div 100"] checksum_digit(1) [of "k div 10"] checksum_digit(1) [of k]
      not_digit_61(2) by (auto simp: checksum_text_def simp del: not_digit_61)
  ultimately show ?thesis by (simp add: sealed_def item_ok_def parse_checksum_text)
qed

lemma transmit_eq:
  assumes "encodable msg buffer"
  shows "transmit c msg buffer = Inr (decoded (sealed (items msg)))"
proof -
  let ?w = "wire (sealed (items msg))"
  have fits: "length ?w \<le> length buffer"
    using assms by (simp add: encodable_def sealed_def wire_checksum_field)
  then have "take (length ?w) (write_at 0 ?w buffer) = ?w"
    using take_write_at [of 0 ?w buffer] by simp
  moreover have "list_all item_ok (sealed (items msg))"
    using assms by (simp add: encodable_def sealed_ok)
  moreover have "sealed (items msg) \<noteq> []" "length (sealed (items msg)) \<le> 64"
    using assms by (simp_all add: encodable_def sealed_def)
  ultimately show ?thesis
    using assms fc_encode_eq [of msg buffer c] by (simp add: transmit_def fc_decode_eq encodable_def)
qed

text \<open>
  C4: A message with at most 63 fields whose values contain no delimiter survives the wire: encoding
  it into a buffer of sufficient size succeeds, and decoding what was written gives the same tags
  and values in the same order, followed by the checksum field the encoder adds.
\<close>

theorem fix_roundtrip:
  assumes "encodable msg buffer"
  shows "\<exists>m k. transmit c msg buffer = Inr m \<and> items m = items msg @ [(as_u32 CheckSum, checksum_text k)]"
proof -
  have "length (sealed (items msg)) \<le> 64" using assms by (simp add: encodable_def sealed_def)
  then have "items (decoded (sealed (items msg))) =
      items msg @ [(as_u32 CheckSum, checksum_text (wire_checksum (items msg)))]"
    by (simp only: items_decoded) (simp add: sealed_def)
  with transmit_eq [OF assms] show ?thesis by blast
qed

text \<open>A message with a header, a body length and one body field, as a client would build it.\<close>

definition sample_message :: FixMessage where
  "sample_message =
     (fm_new [])\<lparr>fm_fields :=
        [Some (ff_new 8 [70, 73, 88] 0 0), Some (ff_new 9 [53] 0 0), Some (ff_new 35 [68] 0 0)]\<rparr>"

lemma sample_items: "items sample_message = [(8, [70, 73, 88]), (9, [53]), (35, [68])]"
  by (simp add: items_def sample_message_def fm_fields_iter_def List.map_filter_def item_def ff_new_def)

lemma sample_encodable: "encodable sample_message (replicate 64 0)"
proof -
  have "list_all item_ok [(8, [70, 73, 88]), (9, [53]), (35, [68])]"
    by (simp add: item_ok_def SOH_def parse_uint_eq is_digit_def)
  moreover have "length (wire [(8, [70, 73, 88]), (9, [53]), (35, [68])]) = 15" by code_simp
  moreover have "list_all field_fits (fm_fields_iter sample_message)"
    by (simp add: sample_message_def fm_fields_iter_def List.map_filter_def field_fits_def ff_new_def)
  ultimately show ?thesis
    unfolding encodable_def sample_items by simp
qed

theorem fix_roundtrip_witness:
  "\<exists>m k. transmit fc_new sample_message (replicate 64 0) = Inr m \<and>
     items m = [(8, [70, 73, 88]), (9, [53]), (35, [68])] @ [(as_u32 CheckSum, checksum_text k)]"
  using fix_roundtrip [OF sample_encodable, of fc_new] by (simp add: sample_items)

section \<open>The checksum\<close>

lemma csum_start_set: "cs \<noteq> 0 \<Longrightarrow> csum_start xs pos cs = cs"
  by (induction xs arbitrary: pos) auto

lemma body_bounds_sealed:
  assumes "xs = [(as_u32 BeginString, v), (as_u32 BodyLength, l), x] @ ys"
    and "fst x \<notin> {as_u32 BeginString, as_u32 BodyLength}" and "as_u32 BodyLength \<notin> fst ` set ys"
  shows "csum_start xs 0 0 = length (wire [(as_u32 BeginString, v), (as_u32 BodyLength, l)])"
    and "body_from (sealed xs) 0 0 = length (wire [(as_u32 BeginString, v), (as_u32 BodyLength, l)])"
    and "body_to (sealed xs) 0 0 = length (wire xs) + 3"
proof -
  have pos: "wire_field z \<noteq> []" for z by simp
  show "csum_start xs 0 0 = length (wire [(as_u32 BeginString, v), (as_u32 BodyLength, l)])"
    using assms pos by (simp add: csum_start_set)
  show "body_from (sealed xs) 0 0 = length (wire [(as_u32 BeginString, v), (as_u32 BodyLength, l)])"
    using assms by (simp add: sealed_def body_from_append body_from_none)
  show "body_to (sealed xs) 0 0 = length (wire xs) + 3"
    by (simp add: sealed_def body_to_append value_pos_def decimal.simps)
qed

text \<open>
  No message this codec encodes passes the checksum test of the codec that decodes it: for a
  message that begins with the version and the body length, the encoder sums the body, and the
  decoder sums the body and the tag of the checksum field.
\<close>

lemma own_messages_fail_checksum:
  assumes "encodable msg buffer"
    and "items msg = [(as_u32 BeginString, v), (as_u32 BodyLength, l), x] @ ys"
    and "fst x \<notin> {as_u32 BeginString, as_u32 BodyLength}" and "as_u32 BodyLength \<notin> fst ` set ys"
  shows "\<exists>m. transmit c msg buffer = Inr m \<and> \<not> fm_validate_checksum m"
proof -
  let ?xs = "items msg"
  define n where "n = length (wire [(as_u32 BeginString, v), (as_u32 BodyLength, l)])"
  note bounds = body_bounds_sealed [OF assms(2-4), folded n_def]
  have n: "0 < n" "n \<le> length (wire ?xs)" by (simp_all add: n_def assms(2))
  have "slice n (length (wire ?xs) + 3) (wire (sealed ?xs)) = drop n (wire ?xs) @ [49, 48, 61]"
    using n(2) by (simp add: sealed_def wire_checksum_field slice_def)
  then have calc: "fm_calculated_checksum (decoded (sealed ?xs)) = wire_checksum ?xs + 158"
    using n bounds by (simp add: decoded_def Let_def calculate_checksum_sum wire_checksum_def)
  have "fm_checksum (decoded (sealed ?xs)) = wire_checksum ?xs"
    by (simp add: decoded_def Let_def sealed_def absorbed_append absorb_def parse_checksum_text)
  with calc have "\<not> fm_validate_checksum (decoded (sealed ?xs))"
    by (simp add: fm_validate_checksum_def)
  with transmit_eq [OF assms(1)] show ?thesis by blast
qed

section \<open>Decoding arbitrary bytes\<close>

lemma find_byte_SomeD:
  assumes "find_byte b s c = Some p"
  shows "s \<le> p" and "p < length b" and "b ! p = c" and "c \<notin> set (slice s p b)"
proof -
  let ?t = "takeWhile (\<lambda>x. x \<noteq> c) (drop s b)"
  have p: "p = s + length ?t" "length ?t < length (drop s b)" "s < length b"
    using assms by (auto simp: find_byte_def Let_def split: if_splits)
  then show "s \<le> p" "p < length b" by simp_all
  have "drop s b ! length ?t = c" using nth_length_takeWhile [OF p(2)] by simp
  then show "b ! p = c" using p by simp
  have "slice s p b = ?t" using p(1) takeWhile_eq_take [of "\<lambda>x. x \<noteq> c" "drop s b"]
    by (simp add: slice_def)
  then show "c \<notin> set (slice s p b)" by (auto dest: set_takeWhileD)
qed

definition field_slice :: "u8 list \<Rightarrow> FixField \<Rightarrow> bool" where
  "field_slice b f \<longleftrightarrow>
     0 < ff_offset f \<and> ff_offset f + length (ff_value f) < length b \<and>
     b ! (ff_offset f - 1) = 61 \<and>
     ff_value f = slice (ff_offset f) (ff_offset f + length (ff_value f)) b \<and>
     b ! (ff_offset f + length (ff_value f)) = SOH \<and> SOH \<notin> set (ff_value f) \<and>
     ff_length f = of_nat (length (ff_value f)) + 2"

lemma decode_field_slice:
  assumes "decode_field b m pos idx bs be = Inr (m', pos', bs', be')"
  shows "\<exists>f. fm_fields m' = (fm_fields m)[idx := Some f] \<and> field_slice b f"
proof -
  from assms obtain q e t where q: "find_byte b pos 61 = Some q"
    and e: "find_byte b (q + 1) SOH = Some e"
    and t: "fm_fields m' = (fm_fields m)[idx := Some (ff_new t (slice (q + 1) e b) (q + 1)
      (of_nat e - of_nat (q + 1) + 1 + (of_nat q - of_nat (q + 1)) + 2))]"
    by (auto simp: decode_field_def Let_def split: option.splits sum.splits if_splits)
  have "q + 1 \<le> e" using find_byte_SomeD(1) [OF e] .
  then have "field_slice b (ff_new t (slice (q + 1) e b) (q + 1)
      (of_nat e - of_nat (q + 1) + 1 + (of_nat q - of_nat (q + 1)) + 2))"
    using find_byte_SomeD(2-4) [OF e] find_byte_SomeD(3) [OF q]
    by (simp add: field_slice_def ff_new_def of_nat_diff)
  with t show ?thesis by blast
qed

lemma decode_loop_slice:
  "decode_loop b m pos idx bs be = Inr (m', n, bs', be') \<Longrightarrow>
   \<forall>f. Some f \<in> set (fm_fields m) \<longrightarrow> field_slice b f \<Longrightarrow>
   \<forall>f. Some f \<in> set (fm_fields m') \<longrightarrow> field_slice b f"
proof (induction b m pos idx bs be rule: decode_loop.induct)
  case (1 b m pos idx bs be)
  show ?case
  proof (cases "pos < length b \<and> idx < length (fm_fields m)")
    case True
    with 1(2) obtain m1 pos1 bs1 be1 where d: "decode_field b m pos idx bs be = Inr (m1, pos1, bs1, be1)"
      and l: "decode_loop b m1 pos1 (idx + 1) bs1 be1 = Inr (m', n, bs', be')"
      by (subst (asm) decode_loop.simps) (auto split: sum.splits)
    obtain f where f: "fm_fields m1 = (fm_fields m)[idx := Some f]" "field_slice b f"
      using decode_field_slice [OF d] by blast
    then have "\<forall>f. Some f \<in> set (fm_fields m1) \<longrightarrow> field_slice b f"
      using 1(3) set_update_subset_insert [of "fm_fields m" idx "Some f"] by auto
    with 1(1) [OF True d] l show ?thesis by blast
  next
    case False
    with 1(2,3) show ?thesis by (subst (asm) decode_loop.simps) auto
  qed
qed

text \<open>
  Whatever bytes arrive, each field of a decoded message is a part of the buffer: its value lies
  inside the buffer between an equals sign and the next delimiter. The recorded length of the field
  is that of the value plus two, not that of the whole field.
\<close>

lemma decoded_fields_are_slices:
  assumes "fc_decode c b = (c', Inr m)" and "f \<in> set (fm_fields_iter m)"
  shows "field_slice b f"
proof -
  from assms(1) obtain m0 n bs be where l: "decode_loop b (fm_new b) 0 0 0 0 = Inr (m0, n, bs, be)"
    and m: "fm_fields m = fm_fields m0"
    by (auto simp: fc_decode_def Let_def split: sum.splits if_splits)
  have "\<forall>f. Some f \<in> set (fm_fields (fm_new b)) \<longrightarrow> field_slice b f"
    by (simp add: fm_new_def)
  from decode_loop_slice [OF l this] assms(2) m show ?thesis
    by (auto simp: fm_fields_iter_def List.map_filter_def)
qed

end
