(* ===== verification/Fix_Session.thy ===== *)
theory Fix_Session
  imports Fix_Wire
begin

text \<open>
  The FIX session (\<open>src/src/fix/session.rs\<close>): its state, sequence numbers and statistics, the
  messages it sends and the handling of the messages it receives.

  The statistics are plain fields that methods with a shared reference increment, which does not
  compile; the model increments them. \<open>ResetSeqNumFlag\<close> and \<open>Text\<close> are made by transmuting 141 and
  58 into a tag; the model has the two numbers. The codec a session holds is never used by it and is
  left out.
\<close>

section \<open>Data\<close>

datatype SessionState =
    Disconnected | Connecting | AwaitingLogon | LoggedOn | LoggingOff | Terminated | ResendRequested

definition is_active :: "SessionState \<Rightarrow> bool" where
  "is_active st = (st = LoggedOn \<or> st = ResendRequested)"

record SessionConfig =
  sc_sender_comp_id :: "u8 list"
  sc_target_comp_id :: "u8 list"
  sc_heartbeat_interval_sec :: u32
  sc_start_time :: u32
  sc_end_time :: u32
  sc_enable_encryption :: bool
  sc_encrypt_method :: u8
  sc_max_message_size :: u32
  sc_reset_on_logon :: bool
  sc_reset_on_disconnect :: bool
  sc_refresh_on_logon :: bool

definition sc_default :: SessionConfig where
  "sc_default =
     \<lparr>sc_sender_comp_id = replicate 32 0, sc_target_comp_id = replicate 32 0,
      sc_heartbeat_interval_sec = 30, sc_start_time = 0, sc_end_time = 235959,
      sc_enable_encryption = False, sc_encrypt_method = 0, sc_max_message_size = 4096,
      sc_reset_on_logon = False, sc_reset_on_disconnect = False, sc_refresh_on_logon = False\<rparr>"

record ResendRequest =
  rq_begin_seq_no :: u64
  rq_end_seq_no :: u64
  rq_request_time_ns :: u64

definition rq_new :: "u64 \<Rightarrow> u64 \<Rightarrow> ResendRequest" where
  "rq_new begin_seq end_seq =
     \<lparr>rq_begin_seq_no = begin_seq, rq_end_seq_no = end_seq, rq_request_time_ns = 0\<rparr>"

definition rq_with_timestamp :: "ResendRequest \<Rightarrow> u64 \<Rightarrow> ResendRequest" where
  "rq_with_timestamp r t = r\<lparr>rq_request_time_ns := t\<rparr>"

record SessionStats =
  st_messages_sent :: u64
  st_messages_received :: u64
  st_logons_sent :: u64
  st_logons_received :: u64
  st_heartbeats_sent :: u64
  st_heartbeats_received :: u64
  st_resend_requests_sent :: u64
  st_sequence_gaps :: u64
  st_test_requests_sent :: u64
  st_last_message_ns :: u64
  st_last_heartbeat_ns :: u64

definition st_new :: SessionStats where
  "st_new =
     \<lparr>st_messages_sent = 0, st_messages_received = 0, st_logons_sent = 0, st_logons_received = 0,
      st_heartbeats_sent = 0, st_heartbeats_received = 0, st_resend_requests_sent = 0,
      st_sequence_gaps = 0, st_test_requests_sent = 0, st_last_message_ns = 0,
      st_last_heartbeat_ns = 0\<rparr>"

record FixSession =
  fs_config :: SessionConfig
  fs_state :: u32
  fs_outgoing_seq_num :: u64
  fs_incoming_seq_num :: u64
  fs_last_received_seq :: u64
  fs_is_running :: bool
  fs_last_activity_ns :: u64
  fs_last_heartbeat_ns :: u64
  fs_heartbeat_timeout_ns :: u64
  fs_stats :: SessionStats
  fs_pending_resend :: bool
  fs_resend_begin_seq :: u64
  fs_resend_end_seq :: u64

fun state_to_u32 :: "SessionState \<Rightarrow> u32" where
  "state_to_u32 Disconnected = 0"
| "state_to_u32 Connecting = 1"
| "state_to_u32 AwaitingLogon = 2"
| "state_to_u32 LoggedOn = 3"
| "state_to_u32 LoggingOff = 4"
| "state_to_u32 Terminated = 5"
| "state_to_u32 ResendRequested = 6"

definition u32_to_state :: "u32 \<Rightarrow> SessionState" where
  "u32_to_state val =
     (if val = 0 then Disconnected else if val = 1 then Connecting else if val = 2 then AwaitingLogon
      else if val = 3 then LoggedOn else if val = 4 then LoggingOff else if val = 5 then Terminated
      else if val = 6 then ResendRequested else Disconnected)"

section \<open>State and sequence numbers\<close>

text \<open>\<open>u64::saturating_mul\<close>.\<close>

definition u64_sat_mul :: "u64 \<Rightarrow> u64 \<Rightarrow> u64" where
  "u64_sat_mul a b = (if unat a * unat b < 2 ^ 64 then a * b else u64_MAX)"

definition fs_new :: "SessionConfig \<Rightarrow> FixSession" where
  "fs_new config =
     (let timeout = u64_sat_mul (u64_sat_mul (ucast (sc_heartbeat_interval_sec config)) 1000000000) 2
      in \<lparr>fs_config = config, fs_state = state_to_u32 Disconnected, fs_outgoing_seq_num = 1,
          fs_incoming_seq_num = 1, fs_last_received_seq = 0, fs_is_running = False,
          fs_last_activity_ns = 0, fs_last_heartbeat_ns = 0, fs_heartbeat_timeout_ns = timeout,
          fs_stats = st_new, fs_pending_resend = False, fs_resend_begin_seq = 0,
          fs_resend_end_seq = 0\<rparr>)"

definition fs_get_state :: "FixSession \<Rightarrow> SessionState" where
  "fs_get_state s = u32_to_state (fs_state s)"

definition fs_set_state :: "SessionState \<Rightarrow> FixSession \<Rightarrow> FixSession" where
  "fs_set_state st s = s\<lparr>fs_state := state_to_u32 st\<rparr>"

definition fs_is_logged_on :: "FixSession \<Rightarrow> bool" where
  "fs_is_logged_on s = (fs_get_state s = LoggedOn)"

definition fs_start :: "u64 \<Rightarrow> FixSession \<Rightarrow> FixSession" where
  "fs_start now s =
     (fs_set_state Connecting s)\<lparr>fs_is_running := True, fs_last_activity_ns := now\<rparr>"

definition fs_reset_sequence_numbers :: "FixSession \<Rightarrow> FixSession" where
  "fs_reset_sequence_numbers s =
     s\<lparr>fs_outgoing_seq_num := 1, fs_incoming_seq_num := 1, fs_last_received_seq := 0\<rparr>"

definition fs_stop :: "FixSession \<Rightarrow> FixSession" where
  "fs_stop s =
     (let s = s\<lparr>fs_is_running := False\<rparr>;
          s = (if sc_reset_on_disconnect (fs_config s) then fs_reset_sequence_numbers s else s)
      in fs_set_state Terminated s)"

definition fs_update_stats :: "(SessionStats \<Rightarrow> SessionStats) \<Rightarrow> FixSession \<Rightarrow> FixSession" where
  "fs_update_stats f s = s\<lparr>fs_stats := f (fs_stats s)\<rparr>"

definition fs_request_resend :: "u64 \<Rightarrow> FixSession \<Rightarrow> FixSession" where
  "fs_request_resend expected_seq s =
     (let last_received = fs_last_received_seq s
      in if last_received + 1 < expected_seq
         then
           let s = fs_update_stats (\<lambda>t. t\<lparr>st_sequence_gaps := st_sequence_gaps t + 1\<rparr>) s;
               s = s\<lparr>fs_pending_resend := True, fs_resend_begin_seq := last_received + 1,
                     fs_resend_end_seq := expected_seq - 1\<rparr>;
               s = fs_set_state ResendRequested s
           in fs_update_stats (\<lambda>t. t\<lparr>st_resend_requests_sent := st_resend_requests_sent t + 1\<rparr>) s
         else s)"

definition fs_validate_sequence :: "u64 \<Rightarrow> FixSession \<Rightarrow> bool \<times> FixSession" where
  "fs_validate_sequence received_seq s =
     (let expected = fs_incoming_seq_num s
      in if received_seq < expected then (False, s)
         else if expected < received_seq then (False, s)
         else (True, s\<lparr>fs_incoming_seq_num := fs_incoming_seq_num s + 1,
                       fs_last_received_seq := received_seq\<rparr>))"

definition fs_get_and_increment_seq :: "FixSession \<Rightarrow> u64 \<times> FixSession" where
  "fs_get_and_increment_seq s =
     (fs_outgoing_seq_num s, s\<lparr>fs_outgoing_seq_num := fs_outgoing_seq_num s + 1\<rparr>)"

definition fs_check_heartbeat_timeout :: "u64 \<Rightarrow> FixSession \<Rightarrow> bool" where
  "fs_check_heartbeat_timeout now s =
     (let last_activity = fs_last_activity_ns s; timeout = fs_heartbeat_timeout_ns s
      in if 0 < last_activity \<and> timeout < u64_sat_sub now last_activity then True else False)"

definition fs_get_stats :: "FixSession \<Rightarrow> SessionStats" where
  "fs_get_stats s = (fs_stats s)\<lparr>st_last_heartbeat_ns := fs_last_heartbeat_ns s\<rparr>"

section \<open>Receiving\<close>

definition fs_handle_heartbeat :: "u64 \<Rightarrow> FixSession \<Rightarrow> FixSession" where
  "fs_handle_heartbeat now s =
     (fs_update_stats (\<lambda>t. t\<lparr>st_heartbeats_received := st_heartbeats_received t + 1\<rparr>) s)
       \<lparr>fs_last_heartbeat_ns := now\<rparr>"

definition fs_handle_logon :: "FixSession \<Rightarrow> FixSession" where
  "fs_handle_logon s =
     fs_set_state LoggedOn
       (fs_update_stats (\<lambda>t. t\<lparr>st_logons_received := st_logons_received t + 1\<rparr>) s)"

definition fs_handle_logout :: "FixSession \<Rightarrow> FixSession" where
  "fs_handle_logout s = fs_set_state Disconnected s"

definition fs_handle_resend_request :: "FixSession \<Rightarrow> FixSession" where
  "fs_handle_resend_request s = (fs_set_state LoggedOn s)\<lparr>fs_pending_resend := False\<rparr>"

text \<open>
  The dispatch on the message type. The handlers of test requests, rejects and application
  messages are empty.
\<close>

definition fs_dispatch :: "u64 \<Rightarrow> u8 list \<Rightarrow> FixSession \<Rightarrow> FixSession" where
  "fs_dispatch now msg_type s =
     (if msg_type = [48] then fs_handle_heartbeat now s
      else if msg_type = [65] then fs_handle_logon s
      else if msg_type = [53] then fs_handle_logout s
      else if msg_type = [49] then s
      else if msg_type = [50] then fs_handle_resend_request s
      else if msg_type = [51] then s
      else s)"

definition fs_check_sequence :: "u64 \<Rightarrow> FixSession \<Rightarrow> FixSession" where
  "fs_check_sequence seq_num s =
     (let (valid, s) = fs_validate_sequence seq_num s
      in if \<not> valid then fs_request_resend seq_num s else s)"

definition fs_note_message :: "u64 \<Rightarrow> FixSession \<Rightarrow> FixSession" where
  "fs_note_message now s =
     fs_update_stats (\<lambda>t. t\<lparr>st_messages_received := st_messages_received t + 1, st_last_message_ns := now\<rparr>)
       (s\<lparr>fs_last_activity_ns := now\<rparr>)"

definition fs_process_message :: "clock \<Rightarrow> FixMessage \<Rightarrow> FixSession \<Rightarrow> unit fix_result \<times> FixSession" where
  "fs_process_message clk msg s =
     (if \<not> fs_is_running s then (Inl SessionNotActive, s)
      else
        let s = fs_note_message (clk 0) s
        in case (case fm_get_field msg MsgSeqNum of
                   None \<Rightarrow> Inr s
                 | Some seq_field \<Rightarrow>
                     (case ff_as_uint seq_field of
                        Inl _ \<Rightarrow> Inl ParseError
                      | Inr seq_num \<Rightarrow> Inr (fs_check_sequence seq_num s))) of
             Inl e \<Rightarrow> (Inl e, s)
           | Inr s \<Rightarrow>
               (Inr (), case fm_get_msg_type msg of
                          None \<Rightarrow> s
                        | Some msg_type \<Rightarrow> fs_dispatch (clk 1) msg_type s))"

section \<open>Sending\<close>

text \<open>
  The four writes of a field (tag, equals sign, value, delimiter) all stop with an error at the
  end of the buffer, byte by byte.
\<close>

fun put_bytes :: "u8 list \<Rightarrow> nat \<Rightarrow> u8 list \<Rightarrow> nat fix_result \<times> u8 list" where
  "put_bytes [] pos buffer = (Inr pos, buffer)"
| "put_bytes (b # bs) pos buffer =
     (if length buffer \<le> pos then (Inl BufferTooSmall, buffer)
      else put_bytes bs (pos + 1) (buffer[pos := b]))"

fun put_items :: "fix_item list \<Rightarrow> nat \<Rightarrow> u8 list \<Rightarrow> nat fix_result \<times> u8 list" where
  "put_items [] pos buffer = (Inr pos, buffer)"
| "put_items ((tag, val) # flds) pos buffer =
     (if tag = as_u32 BodyLength then put_items flds pos buffer
      else case put_bytes (decimal (unat tag) @ [61] @ val @ [1]) pos buffer of
             (Inl e, buffer) \<Rightarrow> (Inl e, buffer)
           | (Inr pos, buffer) \<Rightarrow> put_items flds pos buffer)"

type_synonym fs_sent = "FixSession \<times> nat fix_result \<times> u8 list"

definition fs_encode_message :: "fix_item list \<Rightarrow> u8 list \<Rightarrow> FixSession \<Rightarrow> fs_sent" where
  "fs_encode_message flds buffer s =
     (case put_items flds 0 buffer of
        (Inl e, buffer) \<Rightarrow> (s, Inl e, buffer)
      | (Inr pos, buffer) \<Rightarrow>
          (fs_update_stats (\<lambda>t. t\<lparr>st_messages_sent := st_messages_sent t + 1\<rparr>) s, Inr pos, buffer))"

text \<open>The constant time stamp \<open>20240101-12:00:00.000\<close>.\<close>

definition fs_get_sending_time :: "u8 list" where
  "fs_get_sending_time =
     [50, 48, 50, 52, 48, 49, 48, 49, 45, 49, 50, 58, 48, 48, 58, 48, 48, 46, 48, 48, 48]"

text \<open>The seven fields every message of the session begins with.\<close>

definition fs_header :: "SessionConfig \<Rightarrow> u8 list \<Rightarrow> u64 \<Rightarrow> fix_item list" where
  "fs_header cfg msg_type seq =
     [(as_u32 BeginString, [70, 73, 88, 46, 52, 46, 52]), (as_u32 BodyLength, [48, 48, 48]),
      (as_u32 MsgType, msg_type), (as_u32 SenderCompID, sc_sender_comp_id cfg),
      (as_u32 TargetCompID, sc_target_comp_id cfg), (as_u32 MsgSeqNum, decimal (unat seq)),
      (as_u32 SendingTime, fs_get_sending_time)]"

definition fs_send_logon :: "u8 list \<Rightarrow> FixSession \<Rightarrow> fs_sent" where
  "fs_send_logon buffer s =
     (let (seq, s) = fs_get_and_increment_seq s;
          cfg = fs_config s;
          flds = fs_header cfg [65] seq @
            [(as_u32 EncryptMethod, [sc_encrypt_method cfg]),
             (as_u32 HeartBtInt, decimal (unat (sc_heartbeat_interval_sec cfg)))] @
            (if sc_reset_on_logon cfg then [(141, [89])] else []);
          s = fs_update_stats (\<lambda>t. t\<lparr>st_logons_sent := st_logons_sent t + 1\<rparr>) s;
          s = fs_set_state AwaitingLogon s
      in fs_encode_message flds buffer s)"

definition fs_send_logout :: "u8 list \<Rightarrow> u8 list option \<Rightarrow> FixSession \<Rightarrow> fs_sent" where
  "fs_send_logout buffer reason s =
     (let s = fs_set_state LoggingOff s;
          (seq, s) = fs_get_and_increment_seq s;
          flds = fs_header (fs_config s) [53] seq @
            (case reason of None \<Rightarrow> [] | Some r \<Rightarrow> [(58, r)])
      in fs_encode_message flds buffer s)"

definition fs_send_heartbeat :: "u64 \<Rightarrow> u8 list \<Rightarrow> u8 list option \<Rightarrow> FixSession \<Rightarrow> fs_sent" where
  "fs_send_heartbeat now buffer test_req_id s =
     (let (seq, s) = fs_get_and_increment_seq s;
          flds = fs_header (fs_config s) [48] seq @
            (case test_req_id of None \<Rightarrow> [] | Some i \<Rightarrow> [(as_u32 TestReqID, i)]);
          s = fs_update_stats (\<lambda>t. t\<lparr>st_heartbeats_sent := st_heartbeats_sent t + 1\<rparr>) s;
          s = s\<lparr>fs_last_heartbeat_ns := now\<rparr>
      in fs_encode_message flds buffer s)"

definition fs_send_test_request :: "u8 list \<Rightarrow> u8 list \<Rightarrow> FixSession \<Rightarrow> fs_sent" where
  "fs_send_test_request buffer test_req_id s =
     (let (seq, s) = fs_get_and_increment_seq s;
          flds = fs_header (fs_config s) [49] seq @ [(as_u32 TestReqID, test_req_id)];
          s = fs_update_stats (\<lambda>t. t\<lparr>st_test_requests_sent := st_test_requests_sent t + 1\<rparr>) s
      in fs_encode_message flds buffer s)"

section \<open>Invariant\<close>

datatype fs_op =
    FsStart u64
  | FsStop
  | FsProcess clock FixMessage
  | FsSendLogon "u8 list"
  | FsSendLogout "u8 list" "u8 list option"
  | FsSendHeartbeat u64 "u8 list" "u8 list option"
  | FsSendTestRequest "u8 list" "u8 list"
  | FsRequestResend u64
  | FsSetState SessionState
  | FsReset

fun fs_exec :: "fs_op \<Rightarrow> FixSession \<Rightarrow> FixSession" where
  "fs_exec (FsStart now) s = fs_start now s"
| "fs_exec FsStop s = fs_stop s"
| "fs_exec (FsProcess clk m) s = snd (fs_process_message clk m s)"
| "fs_exec (FsSendLogon b) s = fst (fs_send_logon b s)"
| "fs_exec (FsSendLogout b r) s = fst (fs_send_logout b r s)"
| "fs_exec (FsSendHeartbeat now b i) s = fst (fs_send_heartbeat now b i s)"
| "fs_exec (FsSendTestRequest b i) s = fst (fs_send_test_request b i s)"
| "fs_exec (FsRequestResend n) s = fs_request_resend n s"
| "fs_exec (FsSetState st) s = fs_set_state st s"
| "fs_exec FsReset s = fs_reset_sequence_numbers s"

lemma state_roundtrip [simp]: "u32_to_state (state_to_u32 st) = st"
  by (cases st) (simp_all add: u32_to_state_def)

lemma get_set_state [simp]: "fs_get_state (fs_set_state st s) = st"
  by (simp add: fs_get_state_def fs_set_state_def)

lemma fs_update_stats_simps [simp]:
  "fs_state (fs_update_stats f s) = fs_state s"
  "fs_config (fs_update_stats f s) = fs_config s"
  "fs_outgoing_seq_num (fs_update_stats f s) = fs_outgoing_seq_num s"
  "fs_incoming_seq_num (fs_update_stats f s) = fs_incoming_seq_num s"
  "fs_last_received_seq (fs_update_stats f s) = fs_last_received_seq s"
  "fs_is_running (fs_update_stats f s) = fs_is_running s"
  "fs_pending_resend (fs_update_stats f s) = fs_pending_resend s"
  "fs_resend_begin_seq (fs_update_stats f s) = fs_resend_begin_seq s"
  "fs_resend_end_seq (fs_update_stats f s) = fs_resend_end_seq s"
  "fs_stats (fs_update_stats f s) = f (fs_stats s)"
  by (simp_all add: fs_update_stats_def)

lemma fs_note_message_simps [simp]:
  "fs_state (fs_note_message now s) = fs_state s"
  "fs_config (fs_note_message now s) = fs_config s"
  "fs_outgoing_seq_num (fs_note_message now s) = fs_outgoing_seq_num s"
  "fs_incoming_seq_num (fs_note_message now s) = fs_incoming_seq_num s"
  "fs_last_received_seq (fs_note_message now s) = fs_last_received_seq s"
  "fs_is_running (fs_note_message now s) = fs_is_running s"
  "fs_pending_resend (fs_note_message now s) = fs_pending_resend s"
  "fs_resend_begin_seq (fs_note_message now s) = fs_resend_begin_seq s"
  "fs_resend_end_seq (fs_note_message now s) = fs_resend_end_seq s"
  "st_sequence_gaps (fs_stats (fs_note_message now s)) = st_sequence_gaps (fs_stats s)"
  "st_heartbeats_received (fs_stats (fs_note_message now s)) = st_heartbeats_received (fs_stats s)"
  by (simp_all add: fs_note_message_def)

lemma fs_set_state_simps [simp]:
  "fs_state (fs_set_state st s) = state_to_u32 st"
  "fs_config (fs_set_state st s) = fs_config s"
  "fs_outgoing_seq_num (fs_set_state st s) = fs_outgoing_seq_num s"
  "fs_incoming_seq_num (fs_set_state st s) = fs_incoming_seq_num s"
  "fs_last_received_seq (fs_set_state st s) = fs_last_received_seq s"
  "fs_is_running (fs_set_state st s) = fs_is_running s"
  "fs_pending_resend (fs_set_state st s) = fs_pending_resend s"
  "fs_resend_begin_seq (fs_set_state st s) = fs_resend_begin_seq s"
  "fs_resend_end_seq (fs_set_state st s) = fs_resend_end_seq s"
  "fs_stats (fs_set_state st s) = fs_stats s"
  by (simp_all add: fs_set_state_def)

text \<open>Encoding touches the statistics only.\<close>

lemma fs_encode_message_simps [simp]:
  "fs_state (fst (fs_encode_message xs b s)) = fs_state s"
  "fs_outgoing_seq_num (fst (fs_encode_message xs b s)) = fs_outgoing_seq_num s"
  "fs_incoming_seq_num (fst (fs_encode_message xs b s)) = fs_incoming_seq_num s"
  "fs_last_received_seq (fst (fs_encode_message xs b s)) = fs_last_received_seq s"
  by (auto simp: fs_encode_message_def split: prod.splits sum.splits)

lemmas fs_send_defs =
  fs_send_logon_def fs_send_logout_def fs_send_heartbeat_def fs_send_test_request_def
  fs_get_and_increment_seq_def

lemmas fs_receive_defs =
  fs_process_message_def fs_check_sequence_def fs_validate_sequence_def fs_request_resend_def
  fs_dispatch_def fs_handle_heartbeat_def fs_handle_logon_def fs_handle_logout_def
  fs_handle_resend_request_def

text \<open>
  The cell of the state holds the code of a state, and the number expected next follows the number
  received last.
\<close>

definition fs_wf :: "FixSession \<Rightarrow> bool" where
  "fs_wf s \<longleftrightarrow> fs_state s \<in> range state_to_u32 \<and> fs_incoming_seq_num s = fs_last_received_seq s + 1"

lemma state_codes [simp]:
  "0 \<in> range state_to_u32" "1 \<in> range state_to_u32" "2 \<in> range state_to_u32"
  "3 \<in> range state_to_u32" "4 \<in> range state_to_u32" "5 \<in> range state_to_u32"
  "6 \<in> range state_to_u32"
  by (metis rangeI state_to_u32.simps)+

lemma fs_wf_request_resend: "fs_wf s \<Longrightarrow> fs_wf (fs_request_resend n s)"
  by (auto simp: fs_wf_def fs_request_resend_def Let_def)

lemma fs_wf_check_sequence: "fs_wf s \<Longrightarrow> fs_wf (fs_check_sequence n s)"
  using fs_wf_request_resend [of s n]
  by (auto simp: fs_check_sequence_def fs_validate_sequence_def Let_def split: if_splits)
     (simp add: fs_wf_def)

lemma fs_wf_dispatch: "fs_wf s \<Longrightarrow> fs_wf (fs_dispatch now t s)"
  by (auto simp: fs_wf_def fs_dispatch_def fs_handle_heartbeat_def fs_handle_logon_def
      fs_handle_logout_def fs_handle_resend_request_def)

lemma fs_wf_process: "fs_wf s \<Longrightarrow> fs_wf (snd (fs_process_message clk m s))"
proof -
  assume wf: "fs_wf s"
  have "fs_wf (fs_note_message (clk 0) s)" using wf by (simp add: fs_wf_def)
  then show ?thesis
    using wf by (auto simp: fs_process_message_def Let_def fs_wf_dispatch fs_wf_check_sequence
        split: option.splits sum.splits)
qed

lemma fs_wf_exec: "fs_wf s \<Longrightarrow> fs_wf (fs_exec op s)"
proof (cases op)
  case (FsProcess clk m)
  assume "fs_wf s"
  with FsProcess show ?thesis by (simp add: fs_wf_process)
next
  case (FsRequestResend n)
  assume "fs_wf s"
  with FsRequestResend show ?thesis by (simp add: fs_wf_request_resend)
qed (auto simp: fs_wf_def fs_start_def fs_stop_def fs_reset_sequence_numbers_def fs_send_defs Let_def)

interpretation fix_session: guarded_system fs_exec "\<lambda>op s. True" fs_wf
  by unfold_locales (rule fs_wf_exec)

lemma fs_wf_new: "fs_wf (fs_new cfg)"
  by (simp add: fs_wf_def fs_new_def Let_def)

text \<open>
  C39: Whatever a new session is asked to do, its atomic state cell always holds the code of one of the
  seven states, so reading it never falls into the default branch, and the next expected sequence
  number is one more than the last received one.
\<close>

theorem session_state_typed:
  "fs_state (run fs_exec ops (fs_new cfg)) \<in> range state_to_u32 \<and>
   state_to_u32 (fs_get_state (run fs_exec ops (fs_new cfg))) = fs_state (run fs_exec ops (fs_new cfg)) \<and>
   fs_incoming_seq_num (run fs_exec ops (fs_new cfg)) =
     fs_last_received_seq (run fs_exec ops (fs_new cfg)) + 1"
proof -
  have "fs_wf (run fs_exec ops (fs_new cfg))"
    by (rule fix_session.run_inv) (simp_all add: fs_wf_new)
  then show ?thesis by (auto simp: fs_wf_def fs_get_state_def)
qed

section \<open>Sequence numbers of incoming messages\<close>

text \<open>A decoded message with a sequence number and a type.\<close>

definition msg_seq :: "FixMessage \<Rightarrow> u64 option" where
  "msg_seq m =
     (case fm_get_field m MsgSeqNum of
        None \<Rightarrow> None
      | Some f \<Rightarrow> (case ff_as_uint f of Inl _ \<Rightarrow> None | Inr n \<Rightarrow> Some n))"

text \<open>Types that the session does not act on: test requests, rejects, application messages.\<close>

definition passive_type :: "FixMessage \<Rightarrow> bool" where
  "passive_type m \<longleftrightarrow> fm_get_msg_type m \<notin> {Some [48], Some [65], Some [53], Some [50]}"

lemma fs_process_seq:
  assumes "fs_is_running s" and "msg_seq m = Some n"
  shows "fs_process_message clk m s =
    (Inr (), case fm_get_msg_type m of
       None \<Rightarrow> fs_check_sequence n (fs_note_message (clk 0) s)
     | Some t \<Rightarrow> fs_dispatch (clk 1) t (fs_check_sequence n (fs_note_message (clk 0) s)))"
  using assms by (auto simp: fs_process_message_def msg_seq_def Let_def split: option.splits sum.splits)

lemma fs_dispatch_passive: "fm_get_msg_type m = Some t \<Longrightarrow> passive_type m \<Longrightarrow> fs_dispatch now t s = s"
  by (auto simp: passive_type_def fs_dispatch_def)

text \<open>
  Sequence numbers of an application message are treated as follows by a running session that
  expects number \<open>e\<close>. Number \<open>e\<close> is taken and \<open>e + 1\<close> is expected next. A higher number opens a resend
  request for exactly the missing range, from \<open>e\<close> to the number before it, and a lower one changes no
  sequence state at all. In the last two cases the expected number stays, and the message is
  processed nevertheless.
\<close>

lemma gap_detection_exact:
  assumes "fs_wf s" and "fs_is_running s" and "msg_seq m = Some n" and "passive_type m"
    and "s' = snd (fs_process_message clk m s)" and "e = fs_incoming_seq_num s"
  shows "fst (fs_process_message clk m s) = Inr () \<and>
    fs_incoming_seq_num s' = (if n = e then e + 1 else e) \<and>
    fs_state s' = (if e < n then state_to_u32 ResendRequested else fs_state s) \<and>
    fs_pending_resend s' = (e < n \<or> fs_pending_resend s) \<and>
    fs_resend_begin_seq s' = (if e < n then e else fs_resend_begin_seq s) \<and>
    fs_resend_end_seq s' = (if e < n then n - 1 else fs_resend_end_seq s) \<and>
    st_sequence_gaps (fs_stats s') = st_sequence_gaps (fs_stats s) + (if e < n then 1 else 0)"
proof -
  have s': "fs_process_message clk m s = (Inr (), fs_check_sequence n (fs_note_message (clk 0) s))"
    using fs_process_seq [OF assms(2,3), of clk] assms(4)
    by (auto simp: fs_dispatch_passive split: option.splits)
  have e: "fs_last_received_seq s + 1 = e" using assms(1,6) by (simp add: fs_wf_def)
  then show ?thesis
    using assms(5,6) s'
    by (auto simp: fs_check_sequence_def fs_validate_sequence_def fs_request_resend_def Let_def)
qed

text \<open>A message with only a sequence number and a type, as the decoder makes it.\<close>

definition numbered :: "u8 list \<Rightarrow> nat \<Rightarrow> FixMessage" where
  "numbered t n = decoded [(as_u32 MsgType, t), (as_u32 MsgSeqNum, decimal n)]"

lemma msg_type_decoded:
  "fm_msg_type (decoded xs) = fold (\<lambda>x a. if fst x = as_u32 MsgType then Some (snd x) else a) xs None"
proof -
  have "fm_msg_type (absorbed xs pos idx m) =
      fold (\<lambda>x a. if fst x = as_u32 MsgType then Some (snd x) else a) xs (fm_msg_type m)" for pos idx m
    by (induction xs arbitrary: pos idx m) (simp_all add: absorb_def)
  then show ?thesis by (simp add: decoded_def Let_def fm_new_def)
qed

lemma msg_seq_decoded:
  "length xs \<le> 64 \<Longrightarrow> List.find (\<lambda>x. fst x = as_u32 MsgSeqNum) xs = Some (as_u32 MsgSeqNum, decimal n) \<Longrightarrow>
   n < 2 ^ 64 \<Longrightarrow> msg_seq (decoded xs) = Some (of_nat n)"
  using get_field_decoded [of xs MsgSeqNum]
  by (auto simp: msg_seq_def ff_as_uint_def item_def parse_uint_decimal split: option.splits)

lemma utf8_ascii [simp]: "b < 0x80 \<Longrightarrow> utf8_valid [b]"
  by (simp add: utf8_valid.simps)

lemma numbered_simps:
  "n < 2 ^ 64 \<Longrightarrow> msg_seq (numbered t n) = Some (of_nat n)"
  "b < 0x80 \<Longrightarrow> fm_get_msg_type (numbered [b] n) = Some [b]"
  by (simp_all add: numbered_def msg_seq_decoded fm_get_msg_type_def msg_type_decoded)

section \<open>Resend mode\<close>

definition in_resend :: "FixSession \<Rightarrow> bool" where
  "in_resend s \<longleftrightarrow> fs_get_state s = ResendRequested \<and> fs_pending_resend s"

definition keeps_resend :: "clock \<times> FixMessage \<Rightarrow> bool" where
  "keeps_resend x \<longleftrightarrow> fm_get_msg_type (snd x) \<notin> {Some [65], Some [53], Some [50]}"

definition fs_receive :: "clock \<times> FixMessage \<Rightarrow> FixSession \<Rightarrow> FixSession" where
  "fs_receive x s = snd (fs_process_message (fst x) (snd x) s)"

lemma in_resend_check: "in_resend s \<Longrightarrow> in_resend (fs_check_sequence n s)"
  by (auto simp: in_resend_def fs_get_state_def fs_check_sequence_def fs_validate_sequence_def
      fs_request_resend_def Let_def state_roundtrip [of ResendRequested, simplified])

lemma in_resend_note: "in_resend s \<Longrightarrow> in_resend (fs_note_message now s)"
  by (simp add: in_resend_def fs_get_state_def)

lemma in_resend_dispatch:
  "in_resend s \<Longrightarrow> t \<notin> {[65], [53], [50]} \<Longrightarrow> in_resend (fs_dispatch now t s)"
  by (auto simp: in_resend_def fs_get_state_def fs_dispatch_def fs_handle_heartbeat_def)

lemma in_resend_receive: "in_resend s \<Longrightarrow> keeps_resend x \<Longrightarrow> in_resend (fs_receive x s)"
  by (auto simp: fs_receive_def fs_process_message_def Let_def keeps_resend_def in_resend_check
      in_resend_note in_resend_dispatch split: option.splits sum.splits)

interpretation resend: latched_system fs_receive keeps_resend in_resend
  by unfold_locales (rule in_resend_receive)

text \<open>
  A session that has asked for a resend stays in resend mode, with the request pending, whatever
  messages it receives, as long as none is a logon, a logout or a resend request of the other side.
  In particular, receiving all the missing messages does not bring it back to the logged-on state.
\<close>

lemma resend_mode_is_not_left:
  assumes "fs_get_state s = ResendRequested" and "fs_pending_resend s" and "list_all keeps_resend ms"
  shows "fs_get_state (run fs_receive ms s) = ResendRequested \<and> fs_pending_resend (run fs_receive ms s) \<and>
    \<not> fs_is_logged_on (run fs_receive ms s)"
  using resend.run_latch [of s ms] assms by (simp add: in_resend_def fs_is_logged_on_def)

end
