(* ===== verification/Fix_Engine.thy ===== *)
theory Fix_Engine
  imports Fix_Session
begin

text \<open>
  The FIX engine and its router (\<open>src/src/fix/mod.rs\<close>), and the exchange of messages between two
  sessions: what one session writes, the codec reads and the other session processes.

  The engine owns the codec and the session it created; references to them are the same objects.
  The fill rate of the router statistics is a floating-point quotient and is left out.
\<close>

section \<open>The engine\<close>

record FixEngine =
  fe_codec :: FixCodec
  fe_session :: "FixSession option"
  fe_is_running :: bool
  fe_messages_processed :: u64
  fe_encode_errors :: u64
  fe_decode_errors :: u64

definition fe_new :: FixEngine where
  "fe_new =
     \<lparr>fe_codec = fc_new, fe_session = None, fe_is_running = False, fe_messages_processed = 0,
      fe_encode_errors = 0, fe_decode_errors = 0\<rparr>"

definition fe_create_session :: "SessionConfig \<Rightarrow> FixEngine \<Rightarrow> FixEngine" where
  "fe_create_session cfg e = e\<lparr>fe_session := Some (fs_new cfg)\<rparr>"

definition fe_encode :: "FixMessage \<Rightarrow> u8 list \<Rightarrow> FixEngine \<Rightarrow> FixEngine \<times> nat fix_result \<times> u8 list" where
  "fe_encode msg buffer e =
     (if \<not> fe_is_running e then (e, Inl SessionNotActive, buffer)
      else case fc_encode (fe_codec e) msg buffer of
             (c, Inr len, buffer) \<Rightarrow>
               (e\<lparr>fe_codec := c, fe_messages_processed := fe_messages_processed e + 1\<rparr>, Inr len, buffer)
           | (c, Inl err, buffer) \<Rightarrow>
               (e\<lparr>fe_codec := c, fe_encode_errors := fe_encode_errors e + 1\<rparr>, Inl err, buffer))"

definition fe_decode :: "u8 list \<Rightarrow> FixEngine \<Rightarrow> FixEngine \<times> FixMessage fix_result" where
  "fe_decode buffer e =
     (if \<not> fe_is_running e then (e, Inl SessionNotActive)
      else case fc_decode (fe_codec e) buffer of
             (c, Inr msg) \<Rightarrow>
               (e\<lparr>fe_codec := c, fe_messages_processed := fe_messages_processed e + 1\<rparr>, Inr msg)
           | (c, Inl err) \<Rightarrow>
               (e\<lparr>fe_codec := c, fe_decode_errors := fe_decode_errors e + 1\<rparr>, Inl err))"

definition fe_start :: "u64 \<Rightarrow> FixEngine \<Rightarrow> FixEngine" where
  "fe_start now e = e\<lparr>fe_is_running := True, fe_session := map_option (fs_start now) (fe_session e)\<rparr>"

definition fe_stop :: "FixEngine \<Rightarrow> FixEngine" where
  "fe_stop e = e\<lparr>fe_is_running := False, fe_session := map_option fs_stop (fe_session e)\<rparr>"

record FixEngineStats =
  fes_messages_processed :: u64
  fes_encode_errors :: u64
  fes_decode_errors :: u64
  fes_is_running :: bool
  fes_session_active :: bool

definition fe_get_stats :: "FixEngine \<Rightarrow> FixEngineStats" where
  "fe_get_stats e =
     \<lparr>fes_messages_processed = fe_messages_processed e, fes_encode_errors = fe_encode_errors e,
      fes_decode_errors = fe_decode_errors e, fes_is_running = fe_is_running e,
      fes_session_active =
        (fe_session e \<noteq> None \<and> (case fe_session e of None \<Rightarrow> False | Some s \<Rightarrow> fs_is_logged_on s))\<rparr>"

section \<open>The router\<close>

record FixRouter =
  fr_engine :: FixEngine
  fr_orders_routed :: u64
  fr_orders_rejected :: u64
  fr_avg_fill_latency_ns :: u64
  fr_total_fill_latency_ns :: u64

definition fr_new :: "FixEngine \<Rightarrow> FixRouter" where
  "fr_new e =
     \<lparr>fr_engine = e, fr_orders_routed = 0, fr_orders_rejected = 0, fr_avg_fill_latency_ns = 0,
      fr_total_fill_latency_ns = 0\<rparr>"

definition fr_route_order :: "FixMessage \<Rightarrow> FixRouter \<Rightarrow> FixRouter \<times> unit fix_result" where
  "fr_route_order msg r =
     (if \<not> fe_is_running (fr_engine r) then (r, Inl SessionNotActive)
      else case fe_encode msg (replicate 4096 0) (fr_engine r) of
             (e, Inl err, _) \<Rightarrow> (r\<lparr>fr_engine := e\<rparr>, Inl err)
           | (e, Inr _, _) \<Rightarrow>
               (r\<lparr>fr_engine := e, fr_orders_routed := fr_orders_routed r + 1\<rparr>, Inr ()))"

definition fr_record_fill :: "u64 \<Rightarrow> FixRouter \<Rightarrow> FixRouter" where
  "fr_record_fill latency_ns r =
     (let total = fr_total_fill_latency_ns r;
          r = r\<lparr>fr_total_fill_latency_ns := total + latency_ns\<rparr>;
          count = fr_orders_routed r
      in if 0 < count then r\<lparr>fr_avg_fill_latency_ns := (total + latency_ns) div count\<rparr> else r)"

definition fr_record_rejection :: "FixRouter \<Rightarrow> FixRouter" where
  "fr_record_rejection r = r\<lparr>fr_orders_rejected := fr_orders_rejected r + 1\<rparr>"

section \<open>The counters of the engine\<close>

datatype fe_op =
    FeCreate SessionConfig
  | FeEncode FixMessage "u8 list"
  | FeDecode "u8 list"
  | FeStart u64
  | FeStop

fun fe_exec :: "fe_op \<Rightarrow> FixEngine \<Rightarrow> FixEngine" where
  "fe_exec (FeCreate cfg) e = fe_create_session cfg e"
| "fe_exec (FeEncode msg buffer) e = fst (fe_encode msg buffer e)"
| "fe_exec (FeDecode buffer) e = fst (fe_decode buffer e)"
| "fe_exec (FeStart now) e = fe_start now e"
| "fe_exec FeStop e = fe_stop e"

definition fe_counted :: "FixEngine \<Rightarrow> bool" where
  "fe_counted e \<longleftrightarrow>
     fe_messages_processed e = fc_messages_encoded (fe_codec e) + fc_messages_decoded (fe_codec e) \<and>
     fe_encode_errors e + fe_decode_errors e = fc_parse_errors (fe_codec e)"

lemma fc_encode_counts:
  "fc_encode c msg b = (c', r, b') \<Longrightarrow>
   c' = (case r of Inl _ \<Rightarrow> fc_error c | Inr _ \<Rightarrow> c\<lparr>fc_messages_encoded := fc_messages_encoded c + 1\<rparr>)"
  by (auto simp: fc_encode_def Let_def split: prod.splits sum.splits if_splits)

lemma fc_decode_counts:
  "fc_decode c b = (c', r) \<Longrightarrow>
   c' = (case r of Inl _ \<Rightarrow> fc_error c | Inr _ \<Rightarrow> c\<lparr>fc_messages_decoded := fc_messages_decoded c + 1\<rparr>)"
  by (auto simp: fc_decode_def Let_def split: prod.splits sum.splits if_splits)

lemma fe_counted_exec: "fe_counted e \<Longrightarrow> fe_counted (fe_exec op e)"
  by (cases op)
     (auto simp: fe_counted_def fe_create_session_def fe_encode_def fe_decode_def fe_start_def fe_stop_def
       fc_error_def algebra_simps dest!: fc_encode_counts fc_decode_counts split: prod.splits sum.splits)

interpretation engine: guarded_system fe_exec "\<lambda>op e. True" fe_counted
  by unfold_locales (rule fe_counted_exec)

text \<open>
  The engine and its codec always agree on how many messages went through and how many failed; a
  stopped engine refuses every message without counting it.
\<close>

lemma engine_counters_agree: "fe_counted (run fe_exec ops fe_new)"
  by (rule engine.run_inv) (simp_all add: fe_counted_def fe_new_def fc_new_def)

lemma stopped_engine_refuses:
  "fe_encode msg b (fe_stop e) = (fe_stop e, Inl SessionNotActive, b)"
  "fe_decode b (fe_stop e) = (fe_stop e, Inl SessionNotActive)"
  by (simp_all add: fe_encode_def fe_decode_def fe_stop_def)

section \<open>What a session writes\<close>

lemma put_bytes_ok:
  "pos + length bs \<le> length buffer \<Longrightarrow>
   put_bytes bs pos buffer = (Inr (pos + length bs), write_at pos bs buffer)"
proof (induction bs arbitrary: pos buffer)
  case Nil
  then show ?case by (simp add: write_at_def)
next
  case (Cons b bs)
  then show ?case
    using write_at_append [of pos "[b]" bs buffer] by (simp add: write_at_single)
qed

lemma put_bytes_full:
  "pos \<le> length buffer \<Longrightarrow> length buffer < pos + length bs \<Longrightarrow>
   fst (put_bytes bs pos buffer) = Inl BufferTooSmall"
  by (induction bs arbitrary: pos buffer) auto

definition sent_items :: "fix_item list \<Rightarrow> fix_item list" where
  "sent_items xs = filter (\<lambda>x. fst x \<noteq> as_u32 BodyLength) xs"

lemma put_items_ok:
  "pos + length (wire (sent_items xs)) \<le> length buffer \<Longrightarrow>
   put_items xs pos buffer =
     (Inr (pos + length (wire (sent_items xs))), write_at pos (wire (sent_items xs)) buffer)"
proof (induction xs arbitrary: pos buffer)
  case Nil
  then show ?case by (simp add: sent_items_def write_at_def)
next
  case (Cons x xs)
  obtain t v where x: "x = (t, v)" by (cases x)
  have w: "decimal (unat t) @ [61] @ v @ [1] = wire_field (t, v)"
    by (simp add: wire_field_def SOH_def)
  show ?case
  proof (cases "t = as_u32 BodyLength")
    case True
    with Cons x show ?thesis by (simp add: sent_items_def)
  next
    case False
    with Cons.prems x have len: "pos + length (wire_field (t, v)) + length (wire (sent_items xs)) \<le> length buffer"
      by (simp add: sent_items_def)
    then have "write_at (pos + length (wire_field (t, v))) (wire (sent_items xs)) (write_at pos (wire_field (t, v)) buffer) =
        write_at pos (wire_field (t, v) @ wire (sent_items xs)) buffer"
      by (rule write_at_append)
    with False x w len Cons.IH [of "pos + length (wire_field (t, v))" "write_at pos (wire_field (t, v)) buffer"]
    show ?thesis by (simp add: put_bytes_ok sent_items_def add.assoc)
  qed
qed

lemma put_items_full:
  "pos \<le> length buffer \<Longrightarrow> length buffer < pos + length (wire (sent_items xs)) \<Longrightarrow>
   fst (put_items xs pos buffer) = Inl BufferTooSmall"
proof (induction xs arbitrary: pos buffer)
  case Nil
  then show ?case by (simp add: sent_items_def)
next
  case (Cons x xs)
  obtain t v where x: "x = (t, v)" by (cases x)
  have w: "decimal (unat t) @ [61] @ v @ [1] = wire_field (t, v)"
    by (simp add: wire_field_def SOH_def)
  show ?case
  proof (cases "t = as_u32 BodyLength \<or> length buffer < pos + length (wire_field (t, v))")
    case True
    with Cons x w put_bytes_full [of pos buffer "wire_field (t, v)"] show ?thesis
      by (auto simp: sent_items_def split: prod.splits)
  next
    case False
    with Cons.prems x w Cons.IH [of "pos + length (wire_field (t, v))" "write_at pos (wire_field (t, v)) buffer"]
    show ?thesis by (simp add: put_bytes_ok sent_items_def)
  qed
qed

lemma length_decimal: "n < 10 ^ k \<Longrightarrow> 0 < k \<Longrightarrow> length (decimal n) \<le> k"
proof (induction k arbitrary: n)
  case (Suc k)
  show ?case
  proof (cases "n < 10")
    case True
    then show ?thesis by (simp add: decimal.simps [of n])
  next
    case False
    with Suc.prems have "0 < k" by (cases k) auto
    moreover have "n div 10 < 10 ^ k" using Suc.prems(1) by (simp add: div_less_iff_less_mult mult.commute)
    ultimately show ?thesis using False Suc.IH [of "n div 10"] by (simp add: decimal.simps [of n])
  qed
qed simp

section \<open>Heartbeats between two sessions\<close>

text \<open>
  One heartbeat: the first session writes it, the codec decodes the written bytes, the second
  session processes the message. \<open>None\<close> is a failure at any point.
\<close>

definition deliver_heartbeat ::
    "u8 list \<Rightarrow> clock \<Rightarrow> FixSession \<times> FixSession \<Rightarrow> (FixSession \<times> FixSession) option" where
  "deliver_heartbeat buffer clk p =
     (case fs_send_heartbeat (clk 0) buffer None (fst p) of
        (s, Inl _, _) \<Rightarrow> None
      | (s, Inr n, buffer) \<Rightarrow>
          (case snd (fc_decode fc_new (take n buffer)) of
             Inl _ \<Rightarrow> None
           | Inr m \<Rightarrow>
               (case fs_process_message (after 1 clk) m (snd p) of
                  (Inl _, _) \<Rightarrow> None
                | (Inr _, r) \<Rightarrow> Some (s, r))))"

fun deliver_heartbeats ::
    "u8 list \<Rightarrow> clock list \<Rightarrow> FixSession \<times> FixSession \<Rightarrow> (FixSession \<times> FixSession) option" where
  "deliver_heartbeats buffer [] p = Some p"
| "deliver_heartbeats buffer (clk # clks) p =
     Option.bind (deliver_heartbeat buffer clk p) (deliver_heartbeats buffer clks)"

text \<open>Component ids as the configuration has them: 32 bytes, none of them the delimiter.\<close>

definition comp_ids_ok :: "SessionConfig \<Rightarrow> bool" where
  "comp_ids_ok cfg \<longleftrightarrow>
     length (sc_sender_comp_id cfg) = 32 \<and> SOH \<notin> set (sc_sender_comp_id cfg) \<and>
     length (sc_target_comp_id cfg) = 32 \<and> SOH \<notin> set (sc_target_comp_id cfg)"

definition heartbeat_items :: "SessionConfig \<Rightarrow> u64 \<Rightarrow> fix_item list" where
  "heartbeat_items cfg seq = sent_items (fs_header cfg [48] seq)"

lemma heartbeat_items_eq:
  "heartbeat_items cfg seq =
     [(8, [70, 73, 88, 46, 52, 46, 52]), (35, [48]), (49, sc_sender_comp_id cfg),
      (56, sc_target_comp_id cfg), (34, decimal (unat seq)), (52, fs_get_sending_time)]"
  by (simp add: heartbeat_items_def sent_items_def fs_header_def)

lemma heartbeat_fits: "comp_ids_ok cfg \<Longrightarrow> length (wire (heartbeat_items cfg seq)) \<le> 136"
  using length_decimal [of "unat seq" 20] unat_u64_less [of seq]
  by (simp add: heartbeat_items_eq wire_field_def decimal.simps [of 8] decimal.simps [of 35]
      decimal.simps [of 49] decimal.simps [of 56] decimal.simps [of 34] decimal.simps [of 52]
      decimal.simps [of 3] decimal.simps [of 4] decimal.simps [of 5] comp_ids_ok_def fs_get_sending_time_def)

lemma heartbeat_items_ok: "comp_ids_ok cfg \<Longrightarrow> list_all item_ok (heartbeat_items cfg seq)"
  by (simp add: heartbeat_items_eq item_ok_def comp_ids_ok_def fs_get_sending_time_def)
     (simp add: SOH_def)

lemma heartbeat_decoded:
  "msg_seq (decoded (heartbeat_items cfg seq)) = Some seq"
  "fm_get_msg_type (decoded (heartbeat_items cfg seq)) = Some [48]"
proof -
  have "msg_seq (decoded (heartbeat_items cfg seq)) = Some (of_nat (unat seq))"
    using unat_u64_less [of seq] by (intro msg_seq_decoded) (simp_all add: heartbeat_items_eq)
  then show "msg_seq (decoded (heartbeat_items cfg seq)) = Some seq" by simp
  show "fm_get_msg_type (decoded (heartbeat_items cfg seq)) = Some [48]"
    by (simp add: fm_get_msg_type_def msg_type_decoded heartbeat_items_eq)
qed

text \<open>The session after a heartbeat, before its statistics count the message as sent.\<close>

definition heartbeat_begun :: "u64 \<Rightarrow> FixSession \<Rightarrow> FixSession" where
  "heartbeat_begun now s =
     (fs_update_stats (\<lambda>t. t\<lparr>st_heartbeats_sent := st_heartbeats_sent t + 1\<rparr>)
        (s\<lparr>fs_outgoing_seq_num := fs_outgoing_seq_num s + 1\<rparr>))\<lparr>fs_last_heartbeat_ns := now\<rparr>"

lemma fs_send_heartbeat_eq:
  "fs_send_heartbeat now buffer None s =
     fs_encode_message (fs_header (fs_config s) [48] (fs_outgoing_seq_num s)) buffer (heartbeat_begun now s)"
  by (simp add: fs_send_heartbeat_def fs_get_and_increment_seq_def heartbeat_begun_def Let_def)

lemma deliver_heartbeat_eq:
  assumes "comp_ids_ok (fs_config s)" and "136 \<le> length buffer" and "fs_is_running r"
  shows "\<exists>s'. deliver_heartbeat buffer clk (s, r) =
      Some (s', fs_handle_heartbeat (clk 2)
                  (fs_check_sequence (fs_outgoing_seq_num s) (fs_note_message (clk 1) r))) \<and>
    fs_config s' = fs_config s \<and> fs_outgoing_seq_num s' = fs_outgoing_seq_num s + 1"
proof -
  let ?xs = "heartbeat_items (fs_config s) (fs_outgoing_seq_num s)"
  let ?s' = "fs_update_stats (\<lambda>t. t\<lparr>st_messages_sent := st_messages_sent t + 1\<rparr>) (heartbeat_begun (clk 0) s)"
  have fits: "length (wire ?xs) \<le> length buffer" using heartbeat_fits assms(1,2) order_trans by blast
  then have "put_items (fs_header (fs_config s) [48] (fs_outgoing_seq_num s)) 0 buffer =
      (Inr (length (wire ?xs)), write_at 0 (wire ?xs) buffer)"
    using put_items_ok [of 0 "fs_header (fs_config s) [48] (fs_outgoing_seq_num s)" buffer]
    by (simp add: heartbeat_items_def)
  then have sent: "fs_send_heartbeat (clk 0) buffer None s =
      (?s', Inr (length (wire ?xs)), write_at 0 (wire ?xs) buffer)"
    by (simp add: fs_send_heartbeat_eq fs_encode_message_def)
  have bytes: "take (length (wire ?xs)) (write_at 0 (wire ?xs) buffer) = wire ?xs"
    using fits take_write_at [of 0 "wire ?xs" buffer] by simp
  have dec: "snd (fc_decode fc_new (wire ?xs)) = Inr (decoded ?xs)"
    using heartbeat_items_ok [OF assms(1)] by (subst fc_decode_eq) (simp_all add: heartbeat_items_eq)
  have proc: "fs_process_message (after 1 clk) (decoded ?xs) r =
      (Inr (), fs_handle_heartbeat (clk 2)
                  (fs_check_sequence (fs_outgoing_seq_num s) (fs_note_message (clk 1) r)))"
    using fs_process_seq [OF assms(3) heartbeat_decoded(1)]
    by (simp add: heartbeat_decoded fs_dispatch_def numeral_2_eq_2)
  show ?thesis
    by (rule exI [of _ ?s']) (simp add: deliver_heartbeat_def sent bytes dec proc [simplified] heartbeat_begun_def)
qed

definition heard :: "FixSession \<Rightarrow> u64" where
  "heard r = st_heartbeats_received (fs_stats r)"

text \<open>Two sessions in step: the number sent next is the number expected next.\<close>

definition in_step :: "FixSession \<times> FixSession \<Rightarrow> bool" where
  "in_step p \<longleftrightarrow>
     fs_outgoing_seq_num (fst p) = fs_incoming_seq_num (snd p) \<and> fs_is_running (snd p) \<and>
     comp_ids_ok (fs_config (fst p))"

lemma deliver_in_step:
  assumes "in_step (s, r)" and "136 \<le> length buffer"
  shows "\<exists>s' r'. deliver_heartbeat buffer clk (s, r) = Some (s', r') \<and> in_step (s', r') \<and>
    fs_incoming_seq_num r' = fs_incoming_seq_num r + 1 \<and> heard r' = heard r + 1 \<and>
    fs_state r' = fs_state r \<and> st_sequence_gaps (fs_stats r') = st_sequence_gaps (fs_stats r)"
proof -
  obtain s' where d: "deliver_heartbeat buffer clk (s, r) =
      Some (s', fs_handle_heartbeat (clk 2)
                  (fs_check_sequence (fs_outgoing_seq_num s) (fs_note_message (clk 1) r)))"
    and s': "fs_config s' = fs_config s" "fs_outgoing_seq_num s' = fs_outgoing_seq_num s + 1"
    using deliver_heartbeat_eq [of s buffer r clk] assms by (auto simp: in_step_def)
  show ?thesis
    by (rule exI [of _ s'], rule exI, rule conjI, rule d)
       (use assms(1) s' in \<open>simp add: in_step_def fs_handle_heartbeat_def fs_check_sequence_def
          fs_validate_sequence_def heard_def Let_def\<close>)
qed

text \<open>
  C20: Heartbeats get through. Between two sessions in step (the receiver runs and expects the sender's
  next number, and the sender's names are 32 bytes without a delimiter) and with a buffer of at least 136
  bytes, any number of heartbeats, whatever their clock readings, is written by the session, decoded and
  processed without error; each one advances the expected number and the count of heartbeats received by
  one, the two sessions stay in step, and no gap is reported.
\<close>

theorem heartbeats_delivered:
  assumes "in_step (s, r)" and "136 \<le> length buffer"
  shows "\<exists>s' r'. deliver_heartbeats buffer clks (s, r) = Some (s', r') \<and> in_step (s', r') \<and>
    fs_incoming_seq_num r' = fs_incoming_seq_num r + of_nat (length clks) \<and>
    heard r' = heard r + of_nat (length clks) \<and> fs_state r' = fs_state r \<and>
    st_sequence_gaps (fs_stats r') = st_sequence_gaps (fs_stats r)"
  using assms(1)
proof (induction clks arbitrary: s r)
  case Nil
  then show ?case by simp
next
  case (Cons clk clks)
  obtain s1 r1 where 1: "deliver_heartbeat buffer clk (s, r) = Some (s1, r1)" "in_step (s1, r1)"
    "fs_incoming_seq_num r1 = fs_incoming_seq_num r + 1" "heard r1 = heard r + 1"
    "fs_state r1 = fs_state r" "st_sequence_gaps (fs_stats r1) = st_sequence_gaps (fs_stats r)"
    using deliver_in_step [OF Cons.prems assms(2)] by blast
  from Cons.IH [OF 1(2)] show ?case by (auto simp: 1 algebra_simps)
qed

theorem heartbeats_delivered_witness:
  "\<exists>s' r'. deliver_heartbeats (replicate 200 0) [\<lambda>_. 1, \<lambda>_. 2, \<lambda>_. 3]
      (fs_new sc_default, fs_start 0 (fs_new sc_default)) = Some (s', r') \<and> heard r' = 3"
proof -
  have "in_step (fs_new sc_default, fs_start 0 (fs_new sc_default))"
    by (simp add: in_step_def comp_ids_ok_def sc_default_def fs_new_def fs_start_def Let_def SOH_def)
  from heartbeats_delivered [OF this, of "replicate 200 0" "[\<lambda>_. 1, \<lambda>_. 2, \<lambda>_. 3]"]
  show ?thesis by (auto simp: heard_def fs_start_def fs_new_def st_new_def Let_def)
qed

text \<open>
  A heartbeat that does not fit into its buffer is refused, but its sequence number is spent: the
  next heartbeat that is delivered arrives one number late, and the receiver opens a resend request
  for the message that was never sent.
\<close>

lemma failed_send_opens_gap:
  assumes "in_step (s, r)" and "fs_wf r" and "fs_incoming_seq_num r \<noteq> u64_MAX"
    and "length small < length (wire (heartbeat_items (fs_config s) (fs_outgoing_seq_num s)))"
    and "136 \<le> length buffer"
    and "s1 = fst (fs_send_heartbeat now small None s)"
  shows "fst (snd (fs_send_heartbeat now small None s)) = Inl BufferTooSmall \<and>
    (\<exists>s2 r2. deliver_heartbeat buffer clk (s1, r) = Some (s2, r2) \<and>
       fs_get_state r2 = ResendRequested \<and> fs_pending_resend r2 \<and>
       fs_resend_begin_seq r2 = fs_incoming_seq_num r \<and> fs_resend_end_seq r2 = fs_incoming_seq_num r)"
proof -
  let ?h = "fs_header (fs_config s) [48] (fs_outgoing_seq_num s)"
  have "fst (put_items ?h 0 small) = Inl BufferTooSmall"
    using assms(4) put_items_full [of 0 small ?h] by (simp add: heartbeat_items_def)
  then obtain b where "fs_send_heartbeat now small None s = (heartbeat_begun now s, Inl BufferTooSmall, b)"
    by (cases "put_items ?h 0 small") (auto simp: fs_send_heartbeat_eq fs_encode_message_def)
  then have sent: "fst (snd (fs_send_heartbeat now small None s)) = Inl BufferTooSmall"
    and s1: "s1 = heartbeat_begun now s" using assms(6) by simp_all
  have out: "fs_outgoing_seq_num s1 = fs_incoming_seq_num r + 1" "fs_config s1 = fs_config s"
    using assms(1) by (simp_all add: s1 heartbeat_begun_def in_step_def)
  have less: "fs_incoming_seq_num r < fs_incoming_seq_num r + 1"
    using assms(3) unat_u64_less [of "fs_incoming_seq_num r"]
    by (simp add: word_less_nat_alt unat_word_ariths word_unat_eq_iff)
  obtain s2 where d: "deliver_heartbeat buffer clk (s1, r) =
      Some (s2, fs_handle_heartbeat (clk 2)
                  (fs_check_sequence (fs_outgoing_seq_num s1) (fs_note_message (clk 1) r)))"
    using deliver_heartbeat_eq [of s1 buffer r clk] assms(1,5) out by (auto simp: in_step_def)
  have "fs_last_received_seq r + 1 = fs_incoming_seq_num r" using assms(2) by (simp add: fs_wf_def)
  with less have "\<exists>s2 r2. deliver_heartbeat buffer clk (s1, r) = Some (s2, r2) \<and>
       fs_get_state r2 = ResendRequested \<and> fs_pending_resend r2 \<and>
       fs_resend_begin_seq r2 = fs_incoming_seq_num r \<and> fs_resend_end_seq r2 = fs_incoming_seq_num r"
    unfolding d out(1)
    by (auto simp: fs_handle_heartbeat_def fs_check_sequence_def fs_validate_sequence_def
         fs_request_resend_def Let_def fs_get_state_def state_roundtrip [of ResendRequested, simplified])
  with sent show ?thesis by blast
qed

section \<open>Logons that cannot be read\<close>

lemma decode_field_stray_delimiter:
  "61 \<notin> set d \<Longrightarrow> decode_field (pre @ SOH # d @ 61 # rest) m (length pre) i from to = Inl InvalidTagFormat"
  using find_byte_eq [of 61 "SOH # d" pre rest] slice_append [of pre "SOH # d" "61 # rest"]
  by (simp add: decode_field_def parse_uint_eq)

lemma decode_stray_delimiter:
  assumes "list_all item_ok xs" and "length xs < 64" and "61 \<notin> set d"
  shows "snd (fc_decode c (wire xs @ SOH # d @ 61 # rest)) = Inl InvalidTagFormat"
proof -
  let ?b = "wire xs @ SOH # d @ 61 # rest"
  have len: "length (fm_fields (absorbed xs 0 0 (fm_new ?b))) = 64"
    using assms(2) by (simp add: fields_absorbed)
  have "decode_loop ?b (fm_new ?b) 0 0 0 0 =
      decode_loop ?b (absorbed xs 0 0 (fm_new ?b)) (length (wire xs)) (length xs) (body_from xs 0 0) (body_to xs 0 0)"
    using decode_loop_prefix [of xs 0 "fm_new ?b" "[]" "SOH # d @ 61 # rest" 0 0] assms(1,2) by simp
  also have "\<dots> = Inl InvalidTagFormat"
    using assms(2,3) len by (subst decode_loop.simps) (simp add: decode_field_stray_delimiter)
  finally show ?thesis by (simp add: fc_decode_def)
qed

definition logon_fields :: "SessionConfig \<Rightarrow> u64 \<Rightarrow> fix_item list" where
  "logon_fields cfg seq = fs_header cfg [65] seq @
     [(as_u32 EncryptMethod, [sc_encrypt_method cfg]),
      (as_u32 HeartBtInt, decimal (unat (sc_heartbeat_interval_sec cfg)))] @
     (if sc_reset_on_logon cfg then [(141, [89])] else [])"

definition logon_items :: "SessionConfig \<Rightarrow> u64 \<Rightarrow> fix_item list" where
  "logon_items cfg seq = sent_items (logon_fields cfg seq)"

lemma fs_send_logon_eq:
  "\<exists>s'. fs_send_logon buffer s = fs_encode_message (logon_fields (fs_config s) (fs_outgoing_seq_num s)) buffer s'"
  by (auto simp: fs_send_logon_def fs_get_and_increment_seq_def logon_fields_def Let_def)

lemma logon_items_eq:
  "logon_items cfg seq =
     [(8, [70, 73, 88, 46, 52, 46, 52]), (35, [65]), (49, sc_sender_comp_id cfg),
      (56, sc_target_comp_id cfg), (34, decimal (unat seq)), (52, fs_get_sending_time),
      (98, [sc_encrypt_method cfg]), (108, decimal (unat (sc_heartbeat_interval_sec cfg)))] @
     (if sc_reset_on_logon cfg then [(141, [89])] else [])"
  by (simp add: logon_items_def logon_fields_def sent_items_def fs_header_def)

lemma length_tag: "n < 1000 \<Longrightarrow> length (decimal n) \<le> 3"
  using length_decimal [of n 3] by simp

lemma logon_fits: "comp_ids_ok cfg \<Longrightarrow> length (wire (logon_items cfg seq)) \<le> 256"
  using length_decimal [of "unat seq" 20] unat_u64_less [of seq]
    length_decimal [of "unat (sc_heartbeat_interval_sec cfg)" 10]
    unsigned_less [of "sc_heartbeat_interval_sec cfg", where ?'a = nat]
    length_tag [of 8] length_tag [of 35] length_tag [of 49] length_tag [of 56] length_tag [of 34]
    length_tag [of 52] length_tag [of 98] length_tag [of 108] length_tag [of 141]
  by (simp add: logon_items_eq wire_field_def comp_ids_ok_def fs_get_sending_time_def)

text \<open>
  The logon of a session configured with encryption method 1 cannot be decoded. The method is
  written as a raw byte, and that byte is the delimiter.
\<close>

lemma encrypted_logon_unreadable:
  assumes "comp_ids_ok (fs_config s)" and "sc_encrypt_method (fs_config s) = 1"
    and "256 \<le> length buffer"
  shows "\<exists>s' n b. fs_send_logon buffer s = (s', Inr n, b) \<and>
    snd (fc_decode c (take n b)) = Inl InvalidTagFormat"
proof -
  define cfg where "cfg = fs_config s"
  define w where "w = wire (logon_items cfg (fs_outgoing_seq_num s))"
  define xs :: "fix_item list" where "xs = [(8, [70, 73, 88, 46, 52, 46, 52]), (35, [65]), (49, sc_sender_comp_id cfg),
      (56, sc_target_comp_id cfg), (34, decimal (unat (fs_outgoing_seq_num s))), (52, fs_get_sending_time),
      (98, [])]"
  have fits: "length w \<le> length buffer"
    using logon_fits [of cfg] assms(1,3) order_trans by (auto simp: w_def cfg_def)
  then obtain s' where sent: "fs_send_logon buffer s = (s', Inr (length w), write_at 0 w buffer)"
    using fs_send_logon_eq [of buffer s] put_items_ok [of 0 "logon_fields cfg (fs_outgoing_seq_num s)" buffer]
    by (auto simp: fs_encode_message_def logon_items_def w_def cfg_def)
  have bytes: "take (length w) (write_at 0 w buffer) = w"
    using fits take_write_at [of 0 w buffer] by simp
  obtain rest where "w = wire xs @ SOH # decimal 108 @ 61 # rest"
    using assms(2) by (auto simp: w_def xs_def logon_items_eq wire_field_def cfg_def SOH_def)
  moreover have "list_all item_ok xs"
    using assms(1) by (simp add: xs_def item_ok_def comp_ids_ok_def cfg_def fs_get_sending_time_def)
      (simp add: SOH_def)
  ultimately have "snd (fc_decode c w) = Inl InvalidTagFormat"
    using decode_stray_delimiter [of xs "decimal 108" c rest] by (simp add: xs_def)
  with sent bytes show ?thesis by auto
qed

end
