(* ===== verification/Dependency_Graph.thy ===== *)
theory Dependency_Graph
  imports Machine
begin

text \<open>
  The dependency graph of the event processors (\<open>src/src/disruptor/sequencer.rs\<close>,
  \<open>DependencyGraph\<close>): the test whether an edge closes a cycle and the topological sort, both by
  depth-first search with marks.

  The recursive searches carry fuel, one unit per level of recursion, and the public operations
  start them with one unit more than there are nodes; \<open>None\<close> is an access outside the marks, which
  panics. That the fuel is never exhausted on a graph built by the operations is part of the
  theorems.
\<close>

section \<open>The graph\<close>

record DependencyGraph =
  dg_dependencies :: "nat list list"
  dg_node_count :: nat
  dg_is_running :: bool

definition dg_new :: "nat \<Rightarrow> DependencyGraph" where
  "dg_new node_count =
     \<lparr>dg_dependencies = replicate node_count [], dg_node_count = node_count, dg_is_running = True\<rparr>"

definition dg_add_dependency :: "nat \<Rightarrow> nat \<Rightarrow> DependencyGraph \<Rightarrow> DependencyGraph" where
  "dg_add_dependency node depends_on g =
     (if node < dg_node_count g \<and> depends_on < dg_node_count g
      then g\<lparr>dg_dependencies := (dg_dependencies g)[node := dg_dependencies g ! node @ [depends_on]]\<rparr>
      else g)"

definition dg_clear_dependencies :: "nat \<Rightarrow> DependencyGraph \<Rightarrow> DependencyGraph" where
  "dg_clear_dependencies node g =
     (if node < dg_node_count g then g\<lparr>dg_dependencies := (dg_dependencies g)[node := []]\<rparr> else g)"

definition dg_get_dependencies :: "DependencyGraph \<Rightarrow> nat \<Rightarrow> nat list" where
  "dg_get_dependencies g node = (if node < dg_node_count g then dg_dependencies g ! node else [])"

definition dg_stop :: "DependencyGraph \<Rightarrow> DependencyGraph" where
  "dg_stop g = g\<lparr>dg_is_running := False\<rparr>"

section \<open>Searching\<close>

fun has_path :: "nat \<Rightarrow> nat list list \<Rightarrow> nat \<Rightarrow> nat \<Rightarrow> bool list \<Rightarrow> (bool \<times> bool list) option"
  and has_path_any :: "nat \<Rightarrow> nat list list \<Rightarrow> nat list \<Rightarrow> nat \<Rightarrow> bool list \<Rightarrow> (bool \<times> bool list) option"
  where
  "has_path 0 deps from to visited = None"
| "has_path (Suc n) deps from to visited =
     (if from = to then Some (True, visited)
      else if length visited \<le> from then None
      else if visited ! from then Some (False, visited)
      else has_path_any n deps (deps ! from) to (visited[from := True]))"
| "has_path_any n deps [] to visited = Some (False, visited)"
| "has_path_any n deps (dep # ds) to visited =
     (case has_path n deps dep to visited of
        None \<Rightarrow> None
      | Some (True, visited) \<Rightarrow> Some (True, visited)
      | Some (False, visited) \<Rightarrow> has_path_any n deps ds to visited)"

definition dg_would_create_cycle :: "DependencyGraph \<Rightarrow> nat \<Rightarrow> nat \<Rightarrow> bool option" where
  "dg_would_create_cycle g from to =
     (if from = to then Some True
      else map_option fst
             (has_path (dg_node_count g + 1) (dg_dependencies g) to from (replicate (dg_node_count g) False)))"

type_synonym marks = "bool list \<times> bool list \<times> nat list"

fun visit :: "nat \<Rightarrow> nat list list \<Rightarrow> nat \<Rightarrow> marks \<Rightarrow> (bool \<times> marks) option"
  and visit_all :: "nat \<Rightarrow> nat list list \<Rightarrow> nat list \<Rightarrow> marks \<Rightarrow> (bool \<times> marks) option"
  where
  "visit 0 deps node s = None"
| "visit (Suc n) deps node (visited, temp_mark, result) =
     (if length temp_mark \<le> node then None
      else if temp_mark ! node then Some (False, visited, temp_mark, result)
      else if visited ! node then Some (True, visited, temp_mark, result)
      else case visit_all n deps (deps ! node) (visited, temp_mark[node := True], result) of
             None \<Rightarrow> None
           | Some (False, s) \<Rightarrow> Some (False, s)
           | Some (True, visited, temp_mark, result) \<Rightarrow>
               Some (True, visited[node := True], temp_mark[node := False], result @ [node]))"
| "visit_all n deps [] s = Some (True, s)"
| "visit_all n deps (dep # ds) s =
     (case visit n deps dep s of
        None \<Rightarrow> None
      | Some (False, s) \<Rightarrow> Some (False, s)
      | Some (True, s) \<Rightarrow> visit_all n deps ds s)"

fun topological_loop :: "nat \<Rightarrow> nat list list \<Rightarrow> nat list \<Rightarrow> marks \<Rightarrow> (bool \<times> marks) option" where
  "topological_loop n deps [] s = Some (True, s)"
| "topological_loop n deps (i # is) (visited, temp_mark, result) =
     (if \<not> visited ! i
      then case visit n deps i (visited, temp_mark, result) of
             None \<Rightarrow> None
           | Some (False, s) \<Rightarrow> Some (False, s)
           | Some (True, s) \<Rightarrow> topological_loop n deps is s
      else topological_loop n deps is (visited, temp_mark, result))"

text \<open>The outer option is the panic, the inner one the source's \<open>Option\<close>.\<close>

definition dg_topological_sort :: "DependencyGraph \<Rightarrow> nat list option option" where
  "dg_topological_sort g =
     map_option (\<lambda>(ok, visited, temp_mark, result). if ok then Some (rev result) else None)
       (topological_loop (dg_node_count g + 1) (dg_dependencies g) [0..<dg_node_count g]
          (replicate (dg_node_count g) False, replicate (dg_node_count g) False, []))"

section \<open>Paths\<close>

definition edges :: "nat list list \<Rightarrow> (nat \<times> nat) set" where
  "edges deps = {(u, v). u < length deps \<and> v \<in> set (deps ! u)}"

definition deps_wf :: "nat list list \<Rightarrow> bool" where
  "deps_wf deps \<longleftrightarrow> (\<forall>ds \<in> set deps. \<forall>d \<in> set ds. d < length deps)"

definition dg_wf :: "DependencyGraph \<Rightarrow> bool" where
  "dg_wf g \<longleftrightarrow> length (dg_dependencies g) = dg_node_count g \<and> deps_wf (dg_dependencies g)"

abbreviation dg_edges :: "DependencyGraph \<Rightarrow> (nat \<times> nat) set" where
  "dg_edges g \<equiv> edges (dg_dependencies g)"

lemma deps_wfD: "deps_wf deps \<Longrightarrow> u < length deps \<Longrightarrow> d \<in> set (deps ! u) \<Longrightarrow> d < length deps"
  by (auto simp: deps_wf_def)

lemma edges_iff: "(u, v) \<in> edges deps \<longleftrightarrow> u < length deps \<and> v \<in> set (deps ! u)"
  by (simp add: edges_def)

text \<open>The indices that are marked.\<close>

definition marked :: "bool list \<Rightarrow> nat set" where
  "marked v = {i. i < length v \<and> v ! i}"

lemma marked_update: "i < length v \<Longrightarrow> marked (v[i := b]) = (if b then insert i (marked v) else marked v - {i})"
  by (auto simp: marked_def nth_list_update)

lemma marked_replicate [simp]: "marked (replicate n False) = {}"
  by (auto simp: marked_def)

lemma marked_subset: "marked v \<subseteq> {..<length v}"
  by (auto simp: marked_def)

lemma finite_marked [simp]: "finite (marked v)"
  by (rule finite_subset [OF marked_subset]) simp

section \<open>The search for a path\<close>

text \<open>
  A search that fails has marked everything it could reach: all marks it added are closed under
  the edges, and the target is not among them.
\<close>

definition swept :: "nat list list \<Rightarrow> nat \<Rightarrow> bool list \<Rightarrow> bool list \<Rightarrow> bool" where
  "swept deps to v v' \<longleftrightarrow>
     length v' = length v \<and> marked v \<subseteq> marked v' \<and>
     (\<forall>x \<in> marked v' - marked v. x \<noteq> to \<and> set (deps ! x) \<subseteq> marked v')"

lemma swept_refl: "swept deps to v v"
  by (simp add: swept_def)

lemma swept_trans: "swept deps to v1 v2 \<Longrightarrow> swept deps to v2 v3 \<Longrightarrow> swept deps to v1 v3"
  unfolding swept_def by (auto; blast)

lemma has_path_sound:
  "length deps = length visited \<Longrightarrow> has_path n deps from to visited = Some (b, v') \<Longrightarrow>
     (b \<longrightarrow> (from, to) \<in> (edges deps)\<^sup>*) \<and>
     (\<not> b \<longrightarrow> from \<noteq> to \<and> from \<in> marked v' \<and> swept deps to visited v') \<and> length v' = length visited"
  "length deps = length visited \<Longrightarrow> has_path_any n deps ds to visited = Some (b, v') \<Longrightarrow>
     (b \<longrightarrow> (\<exists>d \<in> set ds. (d, to) \<in> (edges deps)\<^sup>*)) \<and>
     (\<not> b \<longrightarrow> set ds \<subseteq> marked v' \<and> to \<notin> set ds \<and> swept deps to visited v') \<and> length v' = length visited"
proof (induction n deps "from" to visited and n deps ds to visited
    arbitrary: b v' and b v' rule: has_path_has_path_any.induct)
  case (1 deps "from" to visited)
  then show ?case by simp
next
  case (2 n deps "from" to visited)
  show ?case
  proof (cases "from = to \<or> length visited \<le> from \<or> visited ! from")
    case True
    with 2(3) show ?thesis by (auto simp: marked_def swept_refl split: if_splits)
  next
    case False
    let ?v = "visited[from := True]"
    have any: "has_path_any n deps (deps ! from) to ?v = Some (b, v')" using False 2(3) by simp
    have IH: "(b \<longrightarrow> (\<exists>d \<in> set (deps ! from). (d, to) \<in> (edges deps)\<^sup>*)) \<and>
      (\<not> b \<longrightarrow> set (deps ! from) \<subseteq> marked v' \<and> to \<notin> set (deps ! from) \<and> swept deps to ?v v') \<and>
      length v' = length ?v"
      using 2(1) [OF _ _ _ _ any] False 2(2) by simp
    have mv: "marked ?v = insert from (marked visited)" using False by (simp add: marked_update)
    show ?thesis
    proof (intro conjI impI)
      assume b
      with IH obtain d where "d \<in> set (deps ! from)" "(d, to) \<in> (edges deps)\<^sup>*" by blast
      moreover have "(from, d) \<in> edges deps" using calculation(1) False 2(2) by (simp add: edges_iff)
      ultimately show "(from, to) \<in> (edges deps)\<^sup>*" by simp
    next
      assume "\<not> b"
      with IH have s: "swept deps to ?v v'" "set (deps ! from) \<subseteq> marked v'" by auto
      then show "from \<in> marked v'" using mv by (auto simp: swept_def)
      show "from \<noteq> to" using False by simp
      show "swept deps to visited v'" using s mv False by (auto simp: swept_def)
    next
      show "length v' = length visited" using IH by simp
    qed
  qed
next
  case (3 n deps to visited)
  then show ?case by (simp add: swept_refl)
next
  case (4 n deps dep ds to visited)
  from 4(4) obtain b1 v1 where h: "has_path n deps dep to visited = Some (b1, v1)"
    by (auto split: option.splits)
  note IH1 = 4(1) [OF 4(3) h]
  show ?case
  proof (cases b1)
    case True
    with h 4(4) IH1 show ?thesis by auto
  next
    case False
    then have len: "length deps = length v1" using IH1 4(3) by simp
    from False h 4(4) have rest: "has_path_any n deps ds to v1 = Some (b, v')" by simp
    note IH2 = 4(2) [OF h _ _ len rest]
    from False IH1 have s1: "dep \<noteq> to" "dep \<in> marked v1" "swept deps to visited v1" by auto
    show ?thesis
    proof (intro conjI impI)
      assume b
      with IH2 False show "\<exists>d \<in> set (dep # ds). (d, to) \<in> (edges deps)\<^sup>*" by auto
    next
      assume "\<not> b"
      with IH2 False have s2: "set ds \<subseteq> marked v'" "to \<notin> set ds" "swept deps to v1 v'" by auto
      then show "set (dep # ds) \<subseteq> marked v'" using s1(2) by (auto simp: swept_def)
      show "to \<notin> set (dep # ds)" using s1(1) s2(2) by auto
      show "swept deps to visited v'" using swept_trans [OF s1(3) s2(3)] .
    next
      show "length v' = length visited" using IH2 IH1 False by auto
    qed
  qed
qed

definition unmarked :: "bool list \<Rightarrow> nat" where
  "unmarked v = card ({..<length v} - marked v)"

lemma unmarked_mark: "i < length v \<Longrightarrow> \<not> v ! i \<Longrightarrow> Suc (unmarked (v[i := True])) = unmarked v"
proof -
  assume i: "i < length v" "\<not> v ! i"
  then have eq: "{..<length v} - marked (v[i := True]) = ({..<length v} - marked v) - {i}"
    by (auto simp: marked_update)
  have "i \<in> {..<length v} - marked v" using i by (auto simp: marked_def)
  then show ?thesis
    using card_Suc_Diff1 [of "{..<length v} - marked v" i] by (simp add: unmarked_def eq)
qed

lemma unmarked_mono: "length v' = length v \<Longrightarrow> marked v \<subseteq> marked v' \<Longrightarrow> unmarked v' \<le> unmarked v"
  unfolding unmarked_def by (intro card_mono) auto

lemma has_path_enough_fuel:
  "deps_wf deps \<Longrightarrow> length deps = length visited \<Longrightarrow> from < length deps \<Longrightarrow> unmarked visited < n \<Longrightarrow>
     has_path n deps from to visited \<noteq> None"
  "deps_wf deps \<Longrightarrow> length deps = length visited \<Longrightarrow> set ds \<subseteq> {..<length deps} \<Longrightarrow> unmarked visited < n \<Longrightarrow>
     has_path_any n deps ds to visited \<noteq> None"
proof (induction n deps "from" to visited and n deps ds to visited rule: has_path_has_path_any.induct)
  case (2 n deps "from" to visited)
  show ?case
  proof (cases "from = to \<or> visited ! from")
    case False
    then have "unmarked (visited[from := True]) < n" using 2 unmarked_mark [of "from" visited] by simp
    moreover have "set (deps ! from) \<subseteq> {..<length deps}" using 2 deps_wfD by blast
    ultimately show ?thesis using 2 False by simp
  qed (use 2 in auto)
next
  case (4 n deps dep ds to visited)
  then obtain b v where h: "has_path n deps dep to visited = Some (b, v)" by force
  show ?case
  proof (cases b)
    case False
    with has_path_sound(1) [OF 4(4) h] have "length v = length visited" "marked visited \<subseteq> marked v"
      by (auto simp: swept_def)
    with 4 h False unmarked_mono [of v visited] show ?thesis by simp
  qed (simp add: h)
qed simp_all

lemma has_path_exact:
  assumes "deps_wf deps" and "from < length deps"
  shows "map_option fst (has_path (length deps + 1) deps from to (replicate (length deps) False)) =
    Some ((from, to) \<in> (edges deps)\<^sup>*)"
proof -
  let ?v = "replicate (length deps) False"
  have "unmarked ?v \<le> length deps" by (simp add: unmarked_def)
  then have "has_path (length deps + 1) deps from to ?v \<noteq> None"
    using has_path_enough_fuel(1) [of deps ?v "from" "length deps + 1" to] assms by simp
  then obtain b v where h: "has_path (length deps + 1) deps from to ?v = Some (b, v)" by force
  have sound: "(b \<longrightarrow> (from, to) \<in> (edges deps)\<^sup>*) \<and> (\<not> b \<longrightarrow> from \<in> marked v \<and> from \<noteq> to \<and> swept deps to ?v v)"
    using has_path_sound(1) [OF _ h] by auto
  have "(from, to) \<notin> (edges deps)\<^sup>*" if "\<not> b"
  proof
    assume "(from, to) \<in> (edges deps)\<^sup>*"
    then have "to \<in> marked v"
      by (induction rule: rtrancl_induct) (use that sound in \<open>auto simp: swept_def edges_iff\<close>)
    with that sound show False by (auto simp: swept_def)
  qed
  with sound h show ?thesis by auto
qed

lemma would_create_cycle_eq:
  "dg_wf g \<Longrightarrow> to < dg_node_count g \<Longrightarrow> dg_would_create_cycle g from to = Some ((to, from) \<in> (dg_edges g)\<^sup>*)"
  using has_path_exact [of "dg_dependencies g" to "from"]
  by (auto simp: dg_would_create_cycle_def dg_wf_def)

text \<open>
  C7: The cycle test is exact. On a graph whose edges stay inside it, asking whether an edge between
  two nodes would close a cycle always returns, and the answer is yes exactly when there already is a
  path back, which is when the graph with the edge added has a cycle through it.
\<close>

theorem cycle_test_exact:
  assumes "dg_wf g" and "to < dg_node_count g"
  shows "dg_would_create_cycle g from to = Some ((to, from) \<in> (dg_edges g)\<^sup>*)"
  using assms by (rule would_create_cycle_eq)

lemma dg_wf_new: "dg_wf (dg_new n)"
  by (auto simp: dg_wf_def dg_new_def deps_wf_def)

lemma deps_wf_update:
  "deps_wf deps \<Longrightarrow> \<forall>d \<in> set ds. d < length deps \<Longrightarrow> deps_wf (deps[i := ds])"
  using set_update_subset_insert [of deps i ds] by (auto simp: deps_wf_def)

lemma dg_wf_add: "dg_wf g \<Longrightarrow> dg_wf (dg_add_dependency a b g)"
  using deps_wfD [of "dg_dependencies g" a]
  by (auto simp: dg_wf_def dg_add_dependency_def intro!: deps_wf_update)

lemma dg_wf_clear: "dg_wf g \<Longrightarrow> dg_wf (dg_clear_dependencies a g)"
  by (auto simp: dg_wf_def dg_clear_dependencies_def intro!: deps_wf_update)

theorem cycle_test_exact_witness:
  "dg_would_create_cycle (dg_add_dependency 1 0 (dg_new 3)) 0 1 =
     Some ((1, 0) \<in> (dg_edges (dg_add_dependency 1 0 (dg_new 3)))\<^sup>*)"
  by (rule cycle_test_exact) (simp_all add: dg_wf_add dg_wf_new, simp add: dg_add_dependency_def dg_new_def)

section \<open>The topological sort\<close>

text \<open>Every node comes after all nodes it depends on.\<close>

definition sorted_by_deps :: "nat list list \<Rightarrow> nat list \<Rightarrow> bool" where
  "sorted_by_deps deps r \<longleftrightarrow> (\<forall>i < length r. set (deps ! (r ! i)) \<subseteq> set (take i r))"

lemma sorted_by_deps_snoc:
  "sorted_by_deps deps (r @ [x]) \<longleftrightarrow> sorted_by_deps deps r \<and> set (deps ! x) \<subseteq> set r"
  by (auto simp: sorted_by_deps_def nth_append less_Suc_eq)

text \<open>
  The marks between two visits: the result lists the visited nodes once each, after their
  dependencies; no node is visited and on the current path at once.
\<close>

definition marks_wf :: "nat list list \<Rightarrow> marks \<Rightarrow> bool" where
  "marks_wf deps s = (case s of (visited, temp, result) \<Rightarrow>
     length visited = length deps \<and> length temp = length deps \<and>
     set result = marked visited \<and> distinct result \<and> sorted_by_deps deps result \<and>
     marked visited \<inter> marked temp = {})"

text \<open>What a successful visit does: the path marks are as before, and more nodes are visited.\<close>

definition advanced :: "nat list list \<Rightarrow> marks \<Rightarrow> marks \<Rightarrow> bool" where
  "advanced deps s s' \<longleftrightarrow>
     marks_wf deps s' \<and> marked (fst s) \<subseteq> marked (fst s') \<and> marked (fst (snd s')) = marked (fst (snd s))"

lemma advanced_refl: "marks_wf deps s \<Longrightarrow> advanced deps s s"
  by (simp add: advanced_def)

lemma advanced_trans: "advanced deps s1 s2 \<Longrightarrow> advanced deps s2 s3 \<Longrightarrow> advanced deps s1 s3"
  by (auto simp: advanced_def)

lemma advanced_visit:
  assumes "marks_wf deps (v, t, r)" and "node < length deps" and "\<not> t ! node" and "\<not> v ! node"
    and "advanced deps (v, t[node := True], r) (v', t', r')" and "set (deps ! node) \<subseteq> marked v'"
  shows "advanced deps (v, t, r) (v'[node := True], t'[node := False], r' @ [node]) \<and>
    node \<in> marked (v'[node := True])"
proof -
  have len: "length v = length deps" "length t = length deps" using assms(1) by (auto simp: marks_wf_def)
  have wf': "marks_wf deps (v', t', r')" and mt: "marked t' = insert node (marked t)" and mv: "marked v \<subseteq> marked v'"
    using assms(2,5) len by (auto simp: advanced_def marked_update)
  have len': "length v' = length deps" "length t' = length deps" using wf' by (auto simp: marks_wf_def)
  have nt: "node \<notin> marked t" using assms(3) by (auto simp: marked_def)
  have nv: "node \<notin> marked v'" using wf' mt by (auto simp: marks_wf_def)
  have r': "set r' = marked v'" "distinct r'" "sorted_by_deps deps r'" "marked v' \<inter> marked t' = {}"
    using wf' by (auto simp: marks_wf_def)
  have "marks_wf deps (v'[node := True], t'[node := False], r' @ [node])"
    using r' nv mt nt assms(2,6) len'
    by (auto simp: marks_wf_def marked_update sorted_by_deps_snoc)
  then show ?thesis
    using mv mt nt assms(2) len' by (auto simp: advanced_def marked_update)
qed

text \<open>Going down from a node that is not yet marked.\<close>

lemma descend:
  assumes "marks_wf deps (v, t, r)" and "node < length deps"
    and "\<forall>x \<in> marked (fst (snd (v, t, r))). (x, node) \<in> (edges deps)\<^sup>+" and "deps_wf deps"
    and "\<not> v ! node"
  shows "marks_wf deps (v, t[node := True], r)" and "set (deps ! node) \<subseteq> {..<length deps}"
    and "\<forall>x \<in> marked (fst (snd (v, t[node := True], r))). \<forall>d \<in> set (deps ! node). (x, d) \<in> (edges deps)\<^sup>+"
proof -
  have "length t = length deps" using assms(1) by (auto simp: marks_wf_def)
  then have mt: "marked (t[node := True]) = insert node (marked t)" using assms(2) by (simp add: marked_update)
  have "node \<notin> marked v" using assms(5) by (auto simp: marked_def)
  then show "marks_wf deps (v, t[node := True], r)" using assms(1) mt by (auto simp: marks_wf_def)
  show "set (deps ! node) \<subseteq> {..<length deps}" using assms(2,4) deps_wfD by blast
  have "(node, d) \<in> edges deps" if "d \<in> set (deps ! node)" for d using that assms(2) by (simp add: edges_iff)
  then show "\<forall>x \<in> marked (fst (snd (v, t[node := True], r))). \<forall>d \<in> set (deps ! node). (x, d) \<in> (edges deps)\<^sup>+"
    using assms(3) mt by (auto intro: trancl_into_trancl)
qed

text \<open>
  A visit either finds a cycle or advances and visits its node. The nodes of the current path all
  lead to the node visited, so running into one of them closes a cycle.
\<close>

lemma visit_sound:
  "marks_wf deps s \<Longrightarrow> node < length deps \<Longrightarrow> \<forall>x \<in> marked (fst (snd s)). (x, node) \<in> (edges deps)\<^sup>+ \<Longrightarrow>
     deps_wf deps \<Longrightarrow> visit n deps node s = Some (b, s') \<Longrightarrow>
     (b \<longrightarrow> advanced deps s s' \<and> node \<in> marked (fst s')) \<and> (\<not> b \<longrightarrow> \<not> acyclic (edges deps))"
  "marks_wf deps s \<Longrightarrow> set ds \<subseteq> {..<length deps} \<Longrightarrow>
     \<forall>x \<in> marked (fst (snd s)). \<forall>d \<in> set ds. (x, d) \<in> (edges deps)\<^sup>+ \<Longrightarrow>
     deps_wf deps \<Longrightarrow> visit_all n deps ds s = Some (b, s') \<Longrightarrow>
     (b \<longrightarrow> advanced deps s s' \<and> set ds \<subseteq> marked (fst s')) \<and> (\<not> b \<longrightarrow> \<not> acyclic (edges deps))"
proof (induction n deps node s and n deps ds s arbitrary: b s' and b s' rule: visit_visit_all.induct)
  case (1 deps node s)
  then show ?case by simp
next
  case (2 n deps node v t r)
  show ?case
  proof (cases "length t \<le> node \<or> t ! node \<or> v ! node")
    case True
    moreover have "node < length v" "node < length t" using 2(2,3) by (auto simp: marks_wf_def)
    ultimately show ?thesis
      using 2(2,4,6) advanced_refl [OF 2(2)] by (auto simp: marked_def acyclic_def split: if_splits)
  next
    case False
    let ?s = "(v, t[node := True], r)"
    from False 2(6) obtain b1 v1 t1 r1 where a: "visit_all n deps (deps ! node) ?s = Some (b1, v1, t1, r1)"
      by (auto split: option.splits)
    from False have nv: "\<not> v ! node" by simp
    note down = descend [OF 2(2-5) nv]
    have IH: "(b1 \<longrightarrow> advanced deps ?s (v1, t1, r1) \<and> set (deps ! node) \<subseteq> marked v1) \<and>
        (\<not> b1 \<longrightarrow> \<not> acyclic (edges deps))"
      using 2(1) [OF _ _ _ down 2(5) a] False by simp
    show ?thesis
      using False a 2(6) IH advanced_visit [OF 2(2) 2(3)] by (cases b1) auto
  qed
next
  case (3 n deps s)
  then show ?case by (simp add: advanced_refl)
next
  case (4 n deps dep ds s)
  from 4(7) obtain b1 s1 where h: "visit n deps dep s = Some (b1, s1)" by (auto split: option.splits)
  have IH1: "(b1 \<longrightarrow> advanced deps s s1 \<and> dep \<in> marked (fst s1)) \<and> (\<not> b1 \<longrightarrow> \<not> acyclic (edges deps))"
    using 4(1) [OF 4(3) _ _ 4(6) h] 4(4,5) by simp
  show ?case
  proof (cases b1)
    case True
    with IH1 have adv: "advanced deps s s1" "dep \<in> marked (fst s1)" by auto
    then have "marks_wf deps s1" "marked (fst (snd s1)) = marked (fst (snd s))" by (auto simp: advanced_def)
    then have "(b \<longrightarrow> advanced deps s1 s' \<and> set ds \<subseteq> marked (fst s')) \<and> (\<not> b \<longrightarrow> \<not> acyclic (edges deps))"
      using 4(2) [OF h _ _ _ _ _ 4(6)] True 4(4,5,7) h by simp
    with adv advanced_trans [OF adv(1)] show ?thesis by (auto simp: advanced_def)
  next
    case False
    with h 4(7) IH1 show ?thesis by auto
  qed
qed

definition open_nodes :: "marks \<Rightarrow> nat" where
  "open_nodes s = card ({..<length (fst s)} - marked (fst s) - marked (fst (snd s)))"

lemma open_nodes_advanced:
  "marks_wf deps s \<Longrightarrow> advanced deps s s' \<Longrightarrow> open_nodes s' \<le> open_nodes s"
  unfolding open_nodes_def by (intro card_mono) (auto simp: advanced_def marks_wf_def split: prod.splits)

lemma open_nodes_mark:
  "node < length v \<Longrightarrow> node < length t \<Longrightarrow> \<not> v ! node \<Longrightarrow> \<not> t ! node \<Longrightarrow>
   Suc (open_nodes (v, t[node := True], r)) = open_nodes (v, t, r)"
proof -
  assume a: "node < length v" "node < length t" "\<not> v ! node" "\<not> t ! node"
  let ?A = "{..<length v} - marked v - marked t"
  have "node \<in> ?A" using a by (auto simp: marked_def)
  moreover have "{..<length v} - marked v - marked (t[node := True]) = ?A - {node}"
    using a by (auto simp: marked_update)
  ultimately show ?thesis using card_Suc_Diff1 [of ?A node] by (simp add: open_nodes_def)
qed

lemma visit_enough_fuel:
  "marks_wf deps s \<Longrightarrow> node < length deps \<Longrightarrow> \<forall>x \<in> marked (fst (snd s)). (x, node) \<in> (edges deps)\<^sup>+ \<Longrightarrow>
     deps_wf deps \<Longrightarrow> open_nodes s < n \<Longrightarrow> visit n deps node s \<noteq> None"
  "marks_wf deps s \<Longrightarrow> set ds \<subseteq> {..<length deps} \<Longrightarrow>
     \<forall>x \<in> marked (fst (snd s)). \<forall>d \<in> set ds. (x, d) \<in> (edges deps)\<^sup>+ \<Longrightarrow>
     deps_wf deps \<Longrightarrow> open_nodes s < n \<Longrightarrow> visit_all n deps ds s \<noteq> None"
proof (induction n deps node s and n deps ds s rule: visit_visit_all.induct)
  case (2 n deps node v t r)
  have len: "node < length v" "node < length t" "length t = length deps" using 2(2,3) by (auto simp: marks_wf_def)
  show ?case
  proof (cases "t ! node \<or> v ! node")
    case True
    with len show ?thesis by auto
  next
    case False
    let ?s = "(v, t[node := True], r)"
    from False have nv: "\<not> v ! node" by simp
    note down = descend [OF 2(2-5) nv]
    have "open_nodes ?s < n" using 2(6) open_nodes_mark [of node v t r] len False by simp
    then have "visit_all n deps (deps ! node) ?s \<noteq> None"
      using 2(1) [OF _ _ _ down 2(5)] len False by simp
    with len False show ?thesis by (auto split: bool.splits)
  qed
next
  case (4 n deps dep ds s)
  then obtain b s1 where h: "visit n deps dep s = Some (b, s1)" by force
  show ?case
  proof (cases b)
    case True
    have "advanced deps s s1" using visit_sound(1) [OF 4(3) _ _ 4(6) h] 4(4,5) True by simp
    moreover from this have "marks_wf deps s1" "marked (fst (snd s1)) = marked (fst (snd s))"
      by (auto simp: advanced_def)
    ultimately show ?thesis
      using 4 h True open_nodes_advanced [OF 4(3), of s1] by simp
  qed (simp add: h)
qed simp_all

lemma topological_loop_sound:
  "marks_wf deps s \<Longrightarrow> marked (fst (snd s)) = {} \<Longrightarrow> set is \<subseteq> {..<length deps} \<Longrightarrow> deps_wf deps \<Longrightarrow>
   \<exists>b s'. topological_loop (length deps + 1) deps is s = Some (b, s') \<and>
     (b \<longrightarrow> advanced deps s s' \<and> set is \<subseteq> marked (fst s')) \<and> (\<not> b \<longrightarrow> \<not> acyclic (edges deps))"
proof (induction "is" arbitrary: s)
  case Nil
  then show ?case by (auto simp: advanced_refl)
next
  case (Cons i "is")
  obtain v t r where s: "s = (v, t, r)" by (cases s)
  have len: "length v = length deps" using Cons.prems(1) s by (simp add: marks_wf_def)
  show ?case
  proof (cases "v ! i")
    case True
    then have "i \<in> marked v" using Cons.prems(3) len by (auto simp: marked_def)
    moreover from Cons.IH [OF Cons.prems(1,2) _ Cons.prems(4)] Cons.prems(3) obtain b s' where
      "topological_loop (length deps + 1) deps is s = Some (b, s')"
      "b \<longrightarrow> advanced deps s s' \<and> set is \<subseteq> marked (fst s')" "\<not> b \<longrightarrow> \<not> acyclic (edges deps)" by auto
    ultimately show ?thesis using True s by (intro exI [of _ b] exI [of _ s']) (auto simp: advanced_def)
  next
    case False
    have "open_nodes s \<le> card {..<length deps}" unfolding open_nodes_def by (intro card_mono) (auto simp: s len)
    then have "visit (length deps + 1) deps i s \<noteq> None"
      using visit_enough_fuel(1) [of deps s i] Cons.prems by simp
    then obtain b1 s1 where h: "visit (length deps + 1) deps i s = Some (b1, s1)" by force
    have h': "(b1 \<longrightarrow> advanced deps s s1 \<and> i \<in> marked (fst s1)) \<and> (\<not> b1 \<longrightarrow> \<not> acyclic (edges deps))"
      using visit_sound(1) [OF Cons.prems(1) _ _ Cons.prems(4) h] Cons.prems(2,3) by simp
    show ?thesis
    proof (cases b1)
      case True
      with h' have adv: "advanced deps s s1" "i \<in> marked (fst s1)" by auto
      then have "marks_wf deps s1" "marked (fst (snd s1)) = {}" using Cons.prems(2) by (auto simp: advanced_def)
      from Cons.IH [OF this _ Cons.prems(4)] Cons.prems(3) obtain b s' where
        "topological_loop (length deps + 1) deps is s1 = Some (b, s')"
        "b \<longrightarrow> advanced deps s1 s' \<and> set is \<subseteq> marked (fst s')" "\<not> b \<longrightarrow> \<not> acyclic (edges deps)" by auto
      with h True False s adv advanced_trans [OF adv(1), of s'] show ?thesis
        by (intro exI [of _ b] exI [of _ s']) (auto simp: advanced_def)
    next
      case b1: False
      with h False s h' show ?thesis by auto
    qed
  qed
qed

lemma sorted_by_deps_before:
  assumes "sorted_by_deps deps r" and "distinct r" and "i < length r" and "j < length r"
    and "(r ! i, r ! j) \<in> edges deps"
  shows "j < i"
proof -
  have "r ! j \<in> set (take i r)" using assms by (auto simp: sorted_by_deps_def edges_iff)
  then obtain k where "k < i" "k < length r" "r ! k = r ! j" by (auto simp: in_set_conv_nth)
  with assms(2,4) show ?thesis by (simp add: nth_eq_iff_index_eq)
qed

lemma sorted_by_deps_acyclic:
  assumes "sorted_by_deps deps r" and "distinct r" and "set r = {..<length deps}" and "deps_wf deps"
  shows "acyclic (edges deps)"
proof -
  define pos where "pos u = (THE i. i < length r \<and> r ! i = u)" for u
  have pos: "pos (r ! i) = i" if "i < length r" for i
    unfolding pos_def using that assms(2) by (intro the_equality) (auto simp: nth_eq_iff_index_eq)
  have edge: "pos v < pos u" if "(u, v) \<in> edges deps" for u v
  proof -
    have "u \<in> set r" "v \<in> set r" using that assms(3,4) deps_wfD by (auto simp: edges_iff)
    then obtain i j where "i < length r" "r ! i = u" "j < length r" "r ! j = v" by (auto simp: in_set_conv_nth)
    with sorted_by_deps_before [OF assms(1,2)] that pos show ?thesis by metis
  qed
  have "pos v < pos u" if "(u, v) \<in> (edges deps)\<^sup>+" for u v
    using that by (induction rule: trancl_induct) (auto dest: edge)
  then show ?thesis by (auto simp: acyclic_def)
qed

text \<open>An order of all nodes in which every edge points forward.\<close>

definition forward_order :: "DependencyGraph \<Rightarrow> nat list \<Rightarrow> bool" where
  "forward_order g ord \<longleftrightarrow>
     distinct ord \<and> set ord = {..<dg_node_count g} \<and>
     (\<forall>i < length ord. \<forall>j < length ord. (ord ! i, ord ! j) \<in> dg_edges g \<longrightarrow> i < j)"

lemma topological_sort_cases:
  assumes "dg_wf g"
  shows "if acyclic (dg_edges g) then \<exists>ord. dg_topological_sort g = Some (Some ord) \<and> forward_order g ord
    else dg_topological_sort g = Some None"
proof -
  let ?deps = "dg_dependencies g" and ?n = "dg_node_count g"
  let ?s = "(replicate ?n False, replicate ?n False, []) :: marks"
  have n: "length ?deps = ?n" and wf: "deps_wf ?deps" using assms by (auto simp: dg_wf_def)
  have "marks_wf ?deps ?s" using n by (simp add: marks_wf_def sorted_by_deps_def)
  from topological_loop_sound [OF this _ _ wf, of "[0..<?n]"] n obtain b v t r where
    loop: "topological_loop (?n + 1) ?deps [0..<?n] ?s = Some (b, v, t, r)"
    and ok: "b \<longrightarrow> advanced ?deps ?s (v, t, r) \<and> {0..<?n} \<subseteq> marked v"
    and bad: "\<not> b \<longrightarrow> \<not> acyclic (edges ?deps)"
    by (auto simp: atLeast0LessThan)
  show ?thesis
  proof (cases b)
    case True
    with ok have r: "set r = marked v" "distinct r" "sorted_by_deps ?deps r" "length v = ?n"
      using n by (auto simp: advanced_def marks_wf_def)
    moreover have "marked v = {..<?n}" using True ok r(4) marked_subset [of v] by auto
    moreover have "i < j" if "i < length r" "j < length r" "(rev r ! i, rev r ! j) \<in> edges ?deps" for i j
    proof -
      have "length r - Suc j < length r - Suc i"
        by (rule sorted_by_deps_before [OF r(3,2)]) (use that in \<open>auto simp: rev_nth\<close>)
      then show ?thesis by linarith
    qed
    ultimately have "forward_order g (rev r)" "acyclic (edges ?deps)"
      using sorted_by_deps_acyclic [of ?deps r] wf n by (auto simp: forward_order_def)
    with loop True show ?thesis by (simp add: dg_topological_sort_def)
  qed (use loop bad in \<open>simp add: dg_topological_sort_def\<close>)
qed

text \<open>
  C10: The topological sort always returns. On a graph without cycles it lists every node exactly once,
  with each node before everything it depends on, because the finished order is reversed at the end; the
  unit test of the sort expects the opposite, dependencies first. On any other graph it reports a cycle.
\<close>

theorem topological_sort_exact:
  assumes "dg_wf g"
  shows "(acyclic (dg_edges g) \<longrightarrow> (\<exists>ord. dg_topological_sort g = Some (Some ord) \<and> forward_order g ord)) \<and>
    (\<not> acyclic (dg_edges g) \<longrightarrow> dg_topological_sort g = Some None)"
  using topological_sort_cases [OF assms] by (auto split: if_splits)

section \<open>Edges added after the test\<close>

definition dg_add_checked :: "nat \<times> nat \<Rightarrow> DependencyGraph \<Rightarrow> DependencyGraph" where
  "dg_add_checked e g =
     (if dg_would_create_cycle g (fst e) (snd e) = Some False
      then dg_add_dependency (fst e) (snd e) g else g)"

lemma edges_add: "a < length deps \<Longrightarrow> edges (deps[a := deps ! a @ [b]]) = insert (a, b) (edges deps)"
  by (auto simp: edges_def nth_list_update split: if_splits)

lemma dg_edges_add:
  "dg_wf g \<Longrightarrow> dg_edges (dg_add_dependency a b g) =
     (if a < dg_node_count g \<and> b < dg_node_count g then insert (a, b) (dg_edges g) else dg_edges g)"
  by (auto simp: dg_add_dependency_def dg_wf_def edges_add)

lemma dg_edges_new: "dg_edges (dg_new n) = {}"
  by (auto simp: edges_def dg_new_def)

lemma dg_node_counts [simp]:
  "dg_node_count (dg_add_dependency a b g) = dg_node_count g" "dg_node_count (dg_new n) = n"
  by (simp_all add: dg_add_dependency_def dg_new_def)

theorem topological_sort_exact_witness:
  "(\<exists>ord. dg_topological_sort (dg_add_dependency 0 1 (dg_new 2)) = Some (Some ord) \<and>
      forward_order (dg_add_dependency 0 1 (dg_new 2)) ord) \<and>
   dg_topological_sort (dg_add_dependency 1 0 (dg_add_dependency 0 1 (dg_new 2))) = Some None"
proof -
  let ?g = "dg_add_dependency 0 1 (dg_new 2)"
  have wf: "dg_wf ?g" "dg_wf (dg_add_dependency 1 0 ?g)" by (simp_all add: dg_wf_add dg_wf_new)
  have "dg_edges ?g = {(0, 1)}" by (simp add: dg_edges_add dg_wf_new dg_edges_new)
  moreover have "dg_edges (dg_add_dependency 1 0 ?g) = {(1, 0), (0, 1)}"
    by (subst dg_edges_add [OF wf(1)]) (simp add: dg_edges_add dg_wf_new dg_edges_new)
  moreover have "acyclic ({} :: (nat \<times> nat) set)" by (simp add: acyclic_def)
  then have "acyclic {(0, 1 :: nat)}" by (auto simp: acyclic_insert)
  moreover have "\<not> acyclic {(1, 0), (0, 1 :: nat)}" by (auto simp: acyclic_insert)
  ultimately show ?thesis
    using topological_sort_exact [OF wf(1)] topological_sort_exact [OF wf(2)] by simp
qed

definition dg_ordered :: "DependencyGraph \<Rightarrow> bool" where
  "dg_ordered g \<longleftrightarrow> dg_wf g \<and> acyclic (dg_edges g)"

lemma dg_ordered_add: "dg_ordered g \<Longrightarrow> dg_ordered (dg_add_checked e g)"
proof -
  assume o: "dg_ordered g"
  show ?thesis
  proof (cases "dg_would_create_cycle g (fst e) (snd e) = Some False \<and> snd e < dg_node_count g")
    case True
    then have "(snd e, fst e) \<notin> (dg_edges g)\<^sup>*"
      using would_create_cycle_eq [of g "snd e" "fst e"] o by (simp add: dg_ordered_def)
    with o True show ?thesis
      by (cases e) (auto simp: dg_add_checked_def dg_ordered_def dg_wf_add dg_edges_add acyclic_insert)
  qed (use o in \<open>auto simp: dg_add_checked_def dg_ordered_def dg_add_dependency_def\<close>)
qed

interpretation checked_graph: guarded_system dg_add_checked "\<lambda>e g. True" dg_ordered
  by unfold_locales (rule dg_ordered_add)

text \<open>
  A graph built edge by edge, where each edge is added only when the cycle test allows it, can
  always be sorted: the sort succeeds and every edge points forward in the result.
\<close>

lemma checked_graph_sorts:
  "\<exists>ord. dg_topological_sort (run dg_add_checked es (dg_new n)) = Some (Some ord) \<and>
     forward_order (run dg_add_checked es (dg_new n)) ord"
proof -
  have "permitted dg_add_checked (\<lambda>e g. True) es (dg_new n)" by simp
  moreover have "dg_ordered (dg_new n)"
    by (simp add: dg_ordered_def dg_wf_new dg_edges_new acyclic_def)
  ultimately have "dg_ordered (run dg_add_checked es (dg_new n))" by (rule checked_graph.run_inv [rotated])
  then show ?thesis using topological_sort_cases by (auto simp: dg_ordered_def)
qed

end
