(* ===== verification/Ring_Buffer.thy ===== *)
theory Ring_Buffer
  imports Machine
begin

text \<open>
  The ring buffer of the disruptor (\<open>src/src/disruptor/ring_buffer.rs\<close>): slots addressed by a masked
  sequence number, a cursor, a gate for consumers and the queries on them.

  The default event is an argument. A slot is created with an \<open>i64\<close> sequence of its index minus
  one and \<open>is_available\<close> compares the stored \<open>u64\<close> with an \<open>i64\<close>, which does not compile; the model
  stores the 64 bits and compares them as signed numbers, as the initial value minus one asks for.
  The mask \<open>(1 << 63) as u64\<close> in \<open>clear\<close> overflows its \<open>i32\<close> literal and is read as the top bit.
\<close>

unbundle bit_operations_syntax

section \<open>Slots and buffer\<close>

record RingBufferConfig =
  rbc_size :: u64
  rbc_bounds_checking :: bool

definition rbc_default :: RingBufferConfig where
  "rbc_default = \<lparr>rbc_size = 1024, rbc_bounds_checking = True\<rparr>"

record 'e RingSlot =
  sl_event :: 'e
  sl_sequence :: u64

definition sl_new :: "'e \<Rightarrow> u64 \<Rightarrow> 'e RingSlot" where
  "sl_new dflt sequence = \<lparr>sl_event = dflt, sl_sequence = sequence\<rparr>"

record 'e RingBuffer =
  ring_slots :: "'e RingSlot list"
  ring_size :: u64
  ring_mask :: u64
  ring_gate_sequence :: u64
  ring_cursor :: u64
  ring_bounds_checking :: bool

text \<open>\<open>None\<close> is the failed assertion on the size.\<close>

definition ring_new :: "'e \<Rightarrow> u64 \<Rightarrow> 'e RingBuffer option" where
  "ring_new dflt sz =
     (if 0 < sz \<and> sz AND (sz - 1) = 0
      then Some \<lparr>ring_slots = map (\<lambda>i. sl_new dflt (of_nat i - 1)) [0..<unat sz], ring_size = sz,
                 ring_mask = sz - 1, ring_gate_sequence = 0, ring_cursor = 0, ring_bounds_checking = True\<rparr>
      else None)"

definition ring_with_config :: "'e \<Rightarrow> RingBufferConfig \<Rightarrow> 'e RingBuffer option" where
  "ring_with_config dflt config =
     map_option (\<lambda>rb. rb\<lparr>ring_bounds_checking := rbc_bounds_checking config\<rparr>) (ring_new dflt (rbc_size config))"

definition ring_calculate_index :: "'e RingBuffer \<Rightarrow> u64 \<Rightarrow> nat" where
  "ring_calculate_index rb sequence = unat (sequence AND ring_mask rb)"

definition ring_get :: "'e RingBuffer \<Rightarrow> u64 \<Rightarrow> 'e" where
  "ring_get rb sequence = sl_event (ring_slots rb ! ring_calculate_index rb sequence)"

text \<open>Writing through the mutable reference that \<open>get_mut\<close> returns.\<close>

definition ring_modify :: "u64 \<Rightarrow> ('e \<Rightarrow> 'e) \<Rightarrow> 'e RingBuffer \<Rightarrow> 'e RingBuffer" where
  "ring_modify sequence f rb =
     (let index = ring_calculate_index rb sequence; slot = ring_slots rb ! index
      in rb\<lparr>ring_slots := (ring_slots rb)[index := slot\<lparr>sl_event := f (sl_event slot)\<rparr>]\<rparr>)"

definition ring_get_range :: "'e RingBuffer \<Rightarrow> u64 \<Rightarrow> nat \<Rightarrow> 'e list" where
  "ring_get_range rb start_seq n = map (\<lambda>i. ring_get rb (start_seq + of_nat i)) [0..<n]"

definition ring_is_available :: "'e RingBuffer \<Rightarrow> u64 \<Rightarrow> bool" where
  "ring_is_available rb sequence =
     (sint sequence \<le> sint (sl_sequence (ring_slots rb ! ring_calculate_index rb sequence)))"

function ring_highest_loop :: "'e RingBuffer \<Rightarrow> u64 \<Rightarrow> u64 \<Rightarrow> u64" where
  "ring_highest_loop rb cursor available =
     (if available < cursor
      then if \<not> ring_is_available rb (available + 1) then available
           else ring_highest_loop rb cursor (available + 1)
      else available)"
  by pat_completeness auto
termination
proof (relation "measure (\<lambda>(rb, cursor, available). unat cursor - unat available)")
  fix rb :: "'e RingBuffer" and cursor available :: u64
  assume "available < cursor"
  then show "((rb, cursor, available + 1), rb, cursor, available)
      \<in> measure (\<lambda>(rb, cursor, available). unat cursor - unat available)"
    using unat_u64_less [of cursor] by (simp add: word_less_nat_alt unat_word_ariths)
qed simp

declare ring_highest_loop.simps [simp del]

definition ring_get_highest_available :: "'e RingBuffer \<Rightarrow> u64 \<Rightarrow> u64" where
  "ring_get_highest_available rb dependent_seq =
     (let cursor = ring_cursor rb
      in if cursor \<le> dependent_seq then dependent_seq else ring_highest_loop rb cursor dependent_seq)"

definition ring_has_available_events :: "'e RingBuffer \<Rightarrow> u64 \<Rightarrow> bool" where
  "ring_has_available_events rb consumer_seq = (consumer_seq < ring_cursor rb)"

definition ring_set_cursor :: "u64 \<Rightarrow> 'e RingBuffer \<Rightarrow> 'e RingBuffer" where
  "ring_set_cursor cursor rb = rb\<lparr>ring_cursor := cursor\<rparr>"

definition ring_update_gate_sequence :: "u64 list \<Rightarrow> 'e RingBuffer \<Rightarrow> 'e RingBuffer" where
  "ring_update_gate_sequence consumer_sequences rb =
     (if consumer_sequences = [] then rb
      else rb\<lparr>ring_gate_sequence := Min (set consumer_sequences)\<rparr>)"

definition ring_remaining_capacity :: "'e RingBuffer \<Rightarrow> u64" where
  "ring_remaining_capacity rb =
     (let cursor = ring_cursor rb; gate = ring_gate_sequence rb;
          used = (if gate \<le> cursor then cursor - gate else 0)
      in u64_sat_sub (ring_size rb) used)"

definition ring_is_full :: "'e RingBuffer \<Rightarrow> bool" where
  "ring_is_full rb = (ring_remaining_capacity rb = 0)"

definition ring_is_empty :: "'e RingBuffer \<Rightarrow> bool" where
  "ring_is_empty rb = (ring_cursor rb \<le> ring_gate_sequence rb)"

definition ring_utilization :: "'e RingBuffer \<Rightarrow> u8" where
  "ring_utilization rb =
     (let used = ring_size rb - ring_remaining_capacity rb
      in ucast ((used * 100) div ring_size rb))"

definition ring_clear :: "'e \<Rightarrow> 'e RingBuffer \<Rightarrow> 'e RingBuffer" where
  "ring_clear dflt rb =
     rb\<lparr>ring_slots := map (\<lambda>slot. slot\<lparr>sl_event := dflt,
                                     sl_sequence := sl_sequence slot AND NOT (push_bit 63 1)\<rparr>) (ring_slots rb),
        ring_cursor := 0, ring_gate_sequence := 0\<rparr>"

record RingBufferStats =
  rbs_size :: u64
  rbs_cursor :: u64
  rbs_gate_sequence :: u64
  rbs_remaining_capacity :: u64
  rbs_utilization :: u8

definition ring_get_stats :: "'e RingBuffer \<Rightarrow> RingBufferStats" where
  "ring_get_stats rb =
     \<lparr>rbs_size = ring_size rb, rbs_cursor = ring_cursor rb, rbs_gate_sequence = ring_gate_sequence rb,
      rbs_remaining_capacity = ring_remaining_capacity rb, rbs_utilization = ring_utilization rb\<rparr>"

section \<open>Powers of two\<close>

lemma nat_power_of_two: "0 < n \<Longrightarrow> n AND (n - 1) = (0 :: nat) \<Longrightarrow> \<exists>k. n = 2 ^ k"
proof (induction n rule: less_induct)
  case (less n)
  show ?case
  proof (cases "even n")
    case True
    then obtain m where m: "n = 2 * m" by blast
    with less.prems have "0 < m" by simp
    then have "(n - 1) div 2 = m - 1" "n div 2 = m" using m by simp_all
    then have "m AND (m - 1) = 0" using less.prems(2) and_rec [of n "n - 1"] by simp
    with less.IH [of m] \<open>0 < m\<close> m obtain k where "m = 2 ^ k" by auto
    then have "n = 2 ^ Suc k" using m by simp
    then show ?thesis by blast
  next
    case False
    then obtain m where m: "n = 2 * m + 1" by (blast elim: oddE)
    then have "n AND (n - 1) = 2 * m" using and_rec [of n "n - 1"] by simp
    with less.prems(2) m have "n = 2 ^ 0" by simp
    then show ?thesis by blast
  qed
qed

lemma unat_2p: "k < 64 \<Longrightarrow> unat (2 ^ k :: u64) = 2 ^ k"
proof -
  assume "k < 64"
  then have "(2 :: nat) ^ k < 2 ^ 64" by (intro power_strict_increasing) auto
  then have "unat (of_nat (2 ^ k) :: u64) = 2 ^ k" by (simp only: unat_of_nat) simp
  then show ?thesis by simp
qed

lemma u64_power_of_two:
  assumes "0 < sz" and "sz AND (sz - 1) = (0 :: u64)"
  shows "\<exists>k < 64. sz = 2 ^ k"
proof -
  have pos: "0 < unat sz" using assms(1) by (simp add: word_less_nat_alt)
  have one: "1 \<le> sz" using assms(1) by (simp add: word_le_nat_alt word_less_nat_alt)
  have "unat sz AND (unat sz - 1) = unat (sz AND (sz - 1))"
    using one by (simp add: unsigned_and_eq unat_sub)
  then have "unat sz AND (unat sz - 1) = 0" using assms(2) by simp
  with pos obtain k where k: "unat sz = 2 ^ k" using nat_power_of_two by blast
  moreover have "(2 :: nat) ^ k < 2 ^ 64" using k unat_u64_less [of sz] by simp
  then have "k < 64" by (simp only: power_strict_increasing_iff)
  moreover have "sz = of_nat (unat sz)" by simp
  ultimately show ?thesis by (metis of_nat_numeral of_nat_power)
qed

lemma mask_index: "k < 64 \<Longrightarrow> unat (seq AND (2 ^ k - 1) :: u64) = unat seq mod 2 ^ k"
proof -
  assume "k < 64"
  have "seq AND (2 ^ k - 1) = take_bit k seq" by (simp add: take_bit_eq_mask mask_eq_exp_minus_1)
  with \<open>k < 64\<close> show ?thesis by (simp add: take_bit_eq_mod unat_mod unat_2p)
qed

section \<open>Buffers\<close>

definition ring_wf :: "'e RingBuffer \<Rightarrow> bool" where
  "ring_wf rb \<longleftrightarrow>
     0 < unat (ring_size rb) \<and> ring_mask rb = ring_size rb - 1 \<and> ring_size rb AND ring_mask rb = 0 \<and>
     length (ring_slots rb) = unat (ring_size rb)"

lemma ring_wf_new: "ring_new dflt sz = Some rb \<Longrightarrow> ring_wf rb \<and> ring_size rb = sz"
  by (auto simp: ring_new_def ring_wf_def word_less_nat_alt split: if_splits)

lemma ring_index_eq: "ring_wf rb \<Longrightarrow> ring_calculate_index rb seq = unat seq mod unat (ring_size rb)"
proof -
  assume wf: "ring_wf rb"
  then obtain k where "k < 64" "ring_size rb = 2 ^ k"
    using u64_power_of_two [of "ring_size rb"] by (auto simp: ring_wf_def word_less_nat_alt)
  then show ?thesis using wf mask_index [of k seq] unat_2p [of k] by (simp add: ring_calculate_index_def ring_wf_def)
qed

lemma ring_index_less: "ring_wf rb \<Longrightarrow> ring_calculate_index rb seq < length (ring_slots rb)"
  by (simp add: ring_index_eq) (simp add: ring_wf_def)

text \<open>
  Masking is taking the remainder. In every buffer that \<open>new\<close> accepts, the index of a sequence
  number computed with the mask is its remainder modulo the size, and lies inside the slots.
\<close>

lemma masked_index_is_modulo:
  assumes "ring_new dflt sz = Some rb"
  shows "ring_calculate_index rb seq = unat seq mod unat sz \<and>
    ring_calculate_index rb seq < length (ring_slots rb)"
  using ring_wf_new [OF assms] ring_index_eq [of rb seq] ring_index_less [of rb seq] by simp

section \<open>Availability\<close>

datatype 'e ring_op =
    RbModify u64 "'e \<Rightarrow> 'e"
  | RbSetCursor u64
  | RbUpdateGate "u64 list"

fun ring_exec :: "'e ring_op \<Rightarrow> 'e RingBuffer \<Rightarrow> 'e RingBuffer" where
  "ring_exec (RbModify seq f) rb = ring_modify seq f rb"
| "ring_exec (RbSetCursor c) rb = ring_set_cursor c rb"
| "ring_exec (RbUpdateGate cs) rb = ring_update_gate_sequence cs rb"

text \<open>The sequence numbers of the slots, as \<open>new\<close> sets them.\<close>

definition initial_sequences :: "'e RingBuffer \<Rightarrow> bool" where
  "initial_sequences rb \<longleftrightarrow>
     ring_wf rb \<and> (\<forall>i < length (ring_slots rb). sl_sequence (ring_slots rb ! i) = of_nat i - 1)"

lemma ring_modify_simps [simp]:
  "ring_size (ring_modify seq f rb) = ring_size rb" "ring_mask (ring_modify seq f rb) = ring_mask rb"
  "ring_cursor (ring_modify seq f rb) = ring_cursor rb" "length (ring_slots (ring_modify seq f rb)) = length (ring_slots rb)"
  "ring_wf (ring_modify seq f rb) = ring_wf rb" "ring_calculate_index (ring_modify seq f rb) s = ring_calculate_index rb s"
  by (simp_all add: ring_modify_def ring_wf_def ring_calculate_index_def Let_def)

lemma ring_modify_slot:
  "ring_wf rb \<Longrightarrow> ring_slots (ring_modify seq f rb) ! i =
     (if i = ring_calculate_index rb seq
      then (ring_slots rb ! i)\<lparr>sl_event := f (sl_event (ring_slots rb ! i))\<rparr> else ring_slots rb ! i)"
  using ring_index_less [of rb seq] by (simp add: ring_modify_def Let_def nth_list_update)

lemma initial_sequences_exec: "initial_sequences rb \<Longrightarrow> initial_sequences (ring_exec op rb)"
  by (cases op)
     (auto simp: initial_sequences_def ring_modify_slot ring_set_cursor_def ring_update_gate_sequence_def ring_wf_def)

interpretation ring: guarded_system ring_exec "\<lambda>op rb. True" initial_sequences
  by unfold_locales (rule initial_sequences_exec)

lemma initial_sequences_new: "ring_new dflt sz = Some rb \<Longrightarrow> initial_sequences rb"
proof -
  assume new: "ring_new dflt sz = Some rb"
  then have "ring_slots rb = map (\<lambda>i. sl_new dflt (of_nat i - 1)) [0..<unat sz]"
    by (auto simp: ring_new_def split: if_splits)
  with ring_wf_new [OF new] show ?thesis by (auto simp: initial_sequences_def sl_new_def)
qed

lemma sint_pred: "i < 2 ^ 63 \<Longrightarrow> sint (of_nat i - 1 :: u64) = int i - 1"
proof -
  assume "i < 2 ^ 63"
  then have "sint (word_of_int (int i - 1) :: i64) = int i - 1"
    by (intro sint_word_of_int_i64) (auto simp flip: of_nat_less_iff)
  then show ?thesis by simp
qed

lemma not_available:
  assumes "initial_sequences rb" and "unat seq < 2 ^ 63"
  shows "\<not> ring_is_available rb seq"
proof -
  let ?i = "ring_calculate_index rb seq"
  have wf: "ring_wf rb" using assms(1) by (simp add: initial_sequences_def)
  have i: "?i \<le> unat seq" "?i < length (ring_slots rb)"
    using wf by (simp_all add: ring_index_eq) (simp add: ring_wf_def)
  then have "sl_sequence (ring_slots rb ! ?i) = of_nat ?i - 1"
    using assms(1) by (simp add: initial_sequences_def)
  moreover have "sint seq = int (unat seq)" using assms(2) by (rule sint_eq_unat)
  moreover have "sint (of_nat ?i - 1 :: u64) = int ?i - 1" using i(1) assms(2) by (intro sint_pred) simp
  moreover have "int ?i \<le> int (unat seq)" using i(1) by (simp only: of_nat_le_iff)
  ultimately show ?thesis by (simp add: ring_is_available_def)
qed

text \<open>
  A ring buffer never reports an event as available. Writing events, moving the cursor and
  updating the gate leave the sequence numbers of the slots as they were created, so the test fails
  for every sequence number below \<open>2 ^ 63\<close>, and a consumer that asks for the highest available sequence
  gets its own position back, however far the cursor has moved.
\<close>

lemma nothing_ever_available:
  assumes "ring_new dflt sz = Some rb0" and "rb = run ring_exec ops rb0" and "unat seq + 1 < 2 ^ 63"
  shows "\<not> ring_is_available rb seq \<and> ring_get_highest_available rb seq = seq"
proof -
  have init: "initial_sequences rb"
    unfolding assms(2) by (rule ring.run_inv) (simp_all add: initial_sequences_new [OF assms(1)])
  moreover have "unat (seq + 1) < 2 ^ 63" using assms(3) by (simp add: unat_word_ariths)
  ultimately have "\<not> ring_is_available rb (seq + 1)" by (rule not_available)
  then have "ring_highest_loop rb (ring_cursor rb) seq = seq" by (simp add: ring_highest_loop.simps)
  with not_available [OF init, of seq] assms(3) show ?thesis by (simp add: ring_get_highest_available_def Let_def)
qed

text \<open>
  Clearing masks the top bit of every sequence number, which turns the minus one of the first slot
  into the largest number: from then on every sequence that falls on that slot is available.
\<close>

lemma clear_opens_first_slot:
  assumes "ring_new dflt sz = Some rb" and "unat seq mod unat sz = 0"
  shows "ring_is_available (ring_clear dflt rb) seq"
proof -
  have wf: "ring_wf rb" "ring_size rb = sz" and init: "initial_sequences rb"
    using ring_wf_new [OF assms(1)] initial_sequences_new [OF assms(1)] by auto
  have "ring_calculate_index (ring_clear dflt rb) seq = 0"
    using ring_index_eq [OF wf(1), of seq] wf(2) assms(2) by (simp add: ring_calculate_index_def ring_clear_def)
  moreover have "0 < length (ring_slots rb)" using wf by (simp add: ring_wf_def)
  moreover from this have "sl_sequence (ring_slots rb ! 0) = - 1" using init by (simp add: initial_sequences_def)
  moreover have "(- 1 :: u64) AND NOT (push_bit 63 1) = i64_MAX" by (simp add: i64_MAX_def)
  ultimately show ?thesis
    using sint_i64_le [of seq] by (simp add: ring_is_available_def ring_clear_def)
qed

end
