(* ===== verification/Sequencing.thy ===== *)
theory Sequencing
  imports Machine
begin

text \<open>
  The sequencer and its barriers (\<open>src/src/disruptor/sequencer.rs\<close>).

  A barrier holds a pointer to the cursor of its sequencer; its operations take what they read
  there. \<open>wait_for\<close> is a loop that watches the cursor and the alert flag, which other threads change:
  it is run on the list of the values it observes, round by round, and \<open>None\<close> means that it is
  still waiting when the list ends.
\<close>

section \<open>Barriers\<close>

datatype WaitStrategy = BusySpin | AdaptiveSpin | Yielding | Blocking | Timeout u64

datatype BarrierError = Alerted | NotAvailable | TimedOut | InvalidState

record SequenceBarrier =
  sb_dependencies :: "u64 list"
  sb_alerted :: bool
  sb_wait_strategy :: WaitStrategy
  sb_spin_threshold :: u32
  sb_current_spins :: u32

definition sb_new :: "WaitStrategy \<Rightarrow> SequenceBarrier" where
  "sb_new strategy =
     \<lparr>sb_dependencies = [], sb_alerted = False, sb_wait_strategy = strategy, sb_spin_threshold = 100,
      sb_current_spins = 0\<rparr>"

definition sb_add_dependency :: "u64 \<Rightarrow> SequenceBarrier \<Rightarrow> SequenceBarrier" where
  "sb_add_dependency seq b = b\<lparr>sb_dependencies := sb_dependencies b @ [seq]\<rparr>"

definition sb_clear_dependencies :: "SequenceBarrier \<Rightarrow> SequenceBarrier" where
  "sb_clear_dependencies b = b\<lparr>sb_dependencies := []\<rparr>"

definition sb_alert :: "SequenceBarrier \<Rightarrow> SequenceBarrier" where
  "sb_alert b = b\<lparr>sb_alerted := True\<rparr>"

definition sb_reset_alert :: "SequenceBarrier \<Rightarrow> SequenceBarrier" where
  "sb_reset_alert b = b\<lparr>sb_alerted := False\<rparr>"

definition sb_set_spin_threshold :: "u32 \<Rightarrow> SequenceBarrier \<Rightarrow> SequenceBarrier" where
  "sb_set_spin_threshold t b = b\<lparr>sb_spin_threshold := t\<rparr>"

text \<open>The smallest of the cursor and the dependencies.\<close>

definition sb_available :: "u64 list \<Rightarrow> u64 \<Rightarrow> u64" where
  "sb_available deps cursor = fold (\<lambda>dep available. if dep < available then dep else available) deps cursor"

definition sb_try_wait_for :: "SequenceBarrier \<Rightarrow> u64 \<Rightarrow> u64 \<Rightarrow> BarrierError + u64" where
  "sb_try_wait_for b cursor sequence =
     (if sb_alerted b then Inl Alerted
      else let available = sb_available (sb_dependencies b) cursor
           in if sequence \<le> available then Inr available else Inl NotAvailable)"

text \<open>
  One round per observation: the alert flag, then the cursor. The spin counter is increased once
  per round, and once more by the adaptive strategy.
\<close>

fun sb_wait_loop ::
    "SequenceBarrier \<Rightarrow> u64 \<Rightarrow> u32 \<Rightarrow> (bool \<times> u64) list \<Rightarrow> ((BarrierError + u64) \<times> SequenceBarrier) option"
  where
  "sb_wait_loop b sequence spins [] = None"
| "sb_wait_loop b sequence spins ((alerted, cursor) # obs) =
     (if alerted then Some (Inl Alerted, b)
      else
        let available = sb_available (sb_dependencies b) cursor
        in if sequence \<le> available then Some (Inr available, b\<lparr>sb_current_spins := 0\<rparr>)
           else
             let spins = (case sb_wait_strategy b of AdaptiveSpin \<Rightarrow> spins + 1 | _ \<Rightarrow> spins)
             in case sb_wait_strategy b of
                  Timeout _ \<Rightarrow>
                    if 1000 < spins then Some (Inl TimedOut, b)
                    else sb_wait_loop (b\<lparr>sb_current_spins := spins + 1\<rparr>) sequence (spins + 1) obs
                | _ \<Rightarrow> sb_wait_loop (b\<lparr>sb_current_spins := spins + 1\<rparr>) sequence (spins + 1) obs)"

definition sb_wait_for ::
    "SequenceBarrier \<Rightarrow> u64 \<Rightarrow> (bool \<times> u64) list \<Rightarrow> ((BarrierError + u64) \<times> SequenceBarrier) option" where
  "sb_wait_for b sequence obs =
     (if sb_alerted b then Some (Inl Alerted, b) else sb_wait_loop b sequence 0 obs)"

lemma sb_available_ge: "x \<le> sb_available deps cursor \<longleftrightarrow> x \<le> cursor \<and> (\<forall>d \<in> set deps. x \<le> d)"
proof (induction deps arbitrary: cursor)
  case (Cons d deps)
  have "sb_available (d # deps) cursor = sb_available deps (if d < cursor then d else cursor)"
    by (simp add: sb_available_def)
  with Cons [of "if d < cursor then d else cursor"] show ?case by (auto simp: not_less)
qed (simp add: sb_available_def)

lemma sb_wait_loop_never:
  "\<exists>d \<in> set (sb_dependencies b). d < sequence \<Longrightarrow> \<forall>x \<in> set obs. \<not> fst x \<Longrightarrow>
   \<forall>t. sb_wait_strategy b \<noteq> Timeout t \<Longrightarrow> sb_wait_loop b sequence spins obs = None"
proof (induction obs arbitrary: b spins)
  case (Cons x obs)
  obtain c where x: "x = (False, c)" using Cons.prems(2) by (cases x) auto
  have "\<not> sequence \<le> sb_available (sb_dependencies b) c" using Cons.prems(1) by (force simp: sb_available_ge)
  with x Cons show ?case by (auto simp: Let_def split: WaitStrategy.split)
qed simp

text \<open>
  A barrier with a dependency behind the awaited sequence waits forever: the dependency is a
  number copied when it was added, so however long the loop runs and however far the cursor moves,
  it does not return unless it is alerted or its strategy times out.
\<close>

lemma stale_dependency_blocks:
  assumes "dep < sequence" and "\<forall>x \<in> set obs. \<not> fst x" and "\<not> sb_alerted b"
    and "\<forall>t. sb_wait_strategy b \<noteq> Timeout t"
  shows "sb_wait_for (sb_add_dependency dep b) sequence obs = None"
  using assms sb_wait_loop_never [of "sb_add_dependency dep b" sequence obs 0]
  by (simp add: sb_wait_for_def sb_add_dependency_def)

lemma sb_wait_loop_returns:
  "length pre \<le> 1000 \<or> (\<forall>t. sb_wait_strategy b \<noteq> Timeout t) \<Longrightarrow>
   unat spins + length pre \<le> 1000 \<or> (\<forall>t. sb_wait_strategy b \<noteq> Timeout t) \<Longrightarrow>
   \<forall>x \<in> set pre. \<not> fst x \<Longrightarrow> sequence \<le> sb_available (sb_dependencies b) c \<Longrightarrow>
   \<exists>a b'. sb_wait_loop b sequence spins (pre @ (False, c) # post) = Some (Inr a, b') \<and> sequence \<le> a"
proof (induction pre arbitrary: b spins)
  case Nil
  then show ?case by simp
next
  case (Cons x pre)
  obtain d where x: "x = (False, d)" using Cons.prems(3) by (cases x) auto
  show ?case
  proof (cases "sequence \<le> sb_available (sb_dependencies b) d")
    case True
    with x show ?thesis by simp
  next
    case False
    let ?spins = "case sb_wait_strategy b of AdaptiveSpin \<Rightarrow> spins + 1 | _ \<Rightarrow> spins"
    let ?b = "b\<lparr>sb_current_spins := ?spins + 1\<rparr>"
    have bound: "unat spins \<le> 1000 \<and> unat (spins + 1) + length pre \<le> 1000"
      if "sb_wait_strategy b = Timeout t" for t
      using Cons.prems(2) that by (auto simp: unat_word_ariths)
    have IH: "\<exists>a b'. sb_wait_loop ?b sequence (?spins + 1) (pre @ (False, c) # post) = Some (Inr a, b') \<and> sequence \<le> a"
      using Cons.prems bound by (intro Cons.IH) (auto split: WaitStrategy.split)
    have "sb_wait_loop b sequence spins ((x # pre) @ (False, c) # post) =
        sb_wait_loop ?b sequence (?spins + 1) (pre @ (False, c) # post)"
      using x False bound by (auto simp: Let_def word_less_nat_alt split: WaitStrategy.split)
    with IH show ?thesis by simp
  qed
qed

text \<open>
  A wait ends when its sequence is published. If the barrier is not alerted before the round in
  which the cursor and all dependencies have reached the awaited sequence, \<open>wait_for\<close> returns a
  sequence that is at least the awaited one, whatever was observed in the rounds before. Under the
  timeout strategy this holds when that round is among the first 1001.
\<close>

lemma wait_ends_when_published:
  assumes "\<not> sb_alerted b" and "\<forall>x \<in> set pre. \<not> fst x" and "sequence \<le> c"
    and "\<forall>d \<in> set (sb_dependencies b). sequence \<le> d"
    and "length pre \<le> 1000 \<or> (\<forall>t. sb_wait_strategy b \<noteq> Timeout t)"
  shows "\<exists>a b'. sb_wait_for b sequence (pre @ (False, c) # post) = Some (Inr a, b') \<and> sequence \<le> a"
  using assms sb_wait_loop_returns [of pre b 0 sequence c post]
  by (auto simp: sb_wait_for_def sb_available_ge)

lemma sb_timeout_returns:
  "sb_wait_strategy b = Timeout t \<Longrightarrow> unat spins \<le> 1001 \<Longrightarrow> 1002 \<le> unat spins + length obs \<Longrightarrow>
   sb_wait_loop b sequence spins obs \<noteq> None"
proof (induction obs arbitrary: b spins)
  case Nil
  then show ?case by simp
next
  case (Cons x obs)
  obtain al c where x: "x = (al, c)" by (cases x)
  show ?case
  proof (cases "al \<or> sequence \<le> sb_available (sb_dependencies b) c \<or> 1000 < spins")
    case False
    then have "unat (spins + 1) = unat spins + 1" "unat spins \<le> 1000"
      by (auto simp: word_less_nat_alt unat_word_ariths)
    with Cons False x show ?thesis by (simp add: Let_def)
  qed (use Cons x in \<open>auto simp: Let_def\<close>)
qed

text \<open>
  With the timeout strategy every wait ends after at most 1002 rounds, whatever happens to the
  cursor; the configured timeout in nanoseconds plays no part.
\<close>

lemma timeout_wait_terminates:
  assumes "sb_wait_strategy b = Timeout t" and "1002 \<le> length obs"
  shows "sb_wait_for b sequence obs \<noteq> None"
  using assms sb_timeout_returns [of b t 0 obs] by (simp add: sb_wait_for_def)

section \<open>The sequencer\<close>

record Sequencer =
  sq_cursor :: u64
  sq_next_sequence :: u64
  sq_buffer_mask :: u64
  sq_wait_strategy :: WaitStrategy
  sq_is_running :: bool
  sq_pending_count :: u64
  sq_total_published :: u64
  sq_backpressure_events :: u64

definition sq_new :: "WaitStrategy \<Rightarrow> Sequencer" where
  "sq_new strategy =
     \<lparr>sq_cursor = 0, sq_next_sequence = 1, sq_buffer_mask = 1023, sq_wait_strategy = strategy,
      sq_is_running = False, sq_pending_count = 0, sq_total_published = 0, sq_backpressure_events = 0\<rparr>"

definition sq_set_buffer_mask :: "u64 \<Rightarrow> Sequencer \<Rightarrow> Sequencer" where
  "sq_set_buffer_mask m s = s\<lparr>sq_buffer_mask := m\<rparr>"

definition sq_start :: "Sequencer \<Rightarrow> Sequencer" where
  "sq_start s = s\<lparr>sq_is_running := True\<rparr>"

definition sq_stop :: "Sequencer \<Rightarrow> Sequencer" where
  "sq_stop s = s\<lparr>sq_is_running := False\<rparr>"

text \<open>\<open>None\<close> is the source's \<open>Err(())\<close>.\<close>

definition sq_next :: "u64 \<Rightarrow> Sequencer \<Rightarrow> u64 option \<times> Sequencer" where
  "sq_next batch_size s =
     (if \<not> sq_is_running s then (None, s)
      else (Some (sq_next_sequence s),
            s\<lparr>sq_next_sequence := sq_next_sequence s + batch_size,
              sq_pending_count := sq_pending_count s + batch_size\<rparr>))"

definition sq_try_next :: "u64 \<Rightarrow> Sequencer \<Rightarrow> u64 option \<times> Sequencer" where
  "sq_try_next batch_size s =
     (if \<not> sq_is_running s then (None, s)
      else if sq_buffer_mask s < sq_pending_count s
      then (None, s\<lparr>sq_backpressure_events := sq_backpressure_events s + 1\<rparr>)
      else (Some (sq_next_sequence s),
            s\<lparr>sq_next_sequence := sq_next_sequence s + batch_size,
              sq_pending_count := sq_pending_count s + batch_size\<rparr>))"

definition sq_publish :: "u64 \<Rightarrow> Sequencer \<Rightarrow> Sequencer" where
  "sq_publish sequence s =
     (let s = s\<lparr>sq_cursor := sequence\<rparr>;
          pending = sq_pending_count s;
          s = s\<lparr>sq_pending_count := pending - 1\<rparr>;
          s = (if 0 < pending then s\<lparr>sq_pending_count := pending - 1\<rparr> else s)
      in s\<lparr>sq_total_published := sq_total_published s + 1\<rparr>)"

definition sq_get_available_sequence :: "Sequencer \<Rightarrow> u64 \<Rightarrow> u64" where
  "sq_get_available_sequence s dependent_seq =
     (let cursor = sq_cursor s in if dependent_seq < cursor then cursor else dependent_seq)"

definition sq_create_barrier :: "Sequencer \<Rightarrow> SequenceBarrier" where
  "sq_create_barrier s = sb_new (sq_wait_strategy s)"

record SequencerStats =
  sqs_cursor :: u64
  sqs_next_sequence :: u64
  sqs_pending_count :: u64
  sqs_total_published :: u64
  sqs_backpressure_events :: u64
  sqs_is_running :: bool

definition sq_get_stats :: "Sequencer \<Rightarrow> SequencerStats" where
  "sq_get_stats s =
     \<lparr>sqs_cursor = sq_cursor s, sqs_next_sequence = sq_next_sequence s,
      sqs_pending_count = sq_pending_count s, sqs_total_published = sq_total_published s,
      sqs_backpressure_events = sq_backpressure_events s, sqs_is_running = sq_is_running s\<rparr>"

lemma sq_publish_simps [simp]:
  "sq_cursor (sq_publish n s) = n" "sq_next_sequence (sq_publish n s) = sq_next_sequence s"
  "sq_pending_count (sq_publish n s) = sq_pending_count s - 1"
  "sq_is_running (sq_publish n s) = sq_is_running s" "sq_buffer_mask (sq_publish n s) = sq_buffer_mask s"
  "sq_total_published (sq_publish n s) = sq_total_published s + 1"
  by (simp_all add: sq_publish_def Let_def)

text \<open>
  With two producers the cursor runs ahead of what was published and then back. After two
  claims, publishing the second sequence first makes a consumer see both as available although the
  first has not been published, and publishing the first one then takes the second back.
\<close>

lemma out_of_order_publish:
  assumes "sq_next 1 s = (Some a, s1)" and "sq_next 1 s1 = (Some b, s2)" and "a \<noteq> u64_MAX"
  shows "a < b \<and> sb_try_wait_for (sq_create_barrier s2) (sq_cursor (sq_publish b s2)) a = Inr b \<and>
    sq_cursor (sq_publish a (sq_publish b s2)) = a"
proof -
  have "b = a + 1" using assms(1,2) by (auto simp: sq_next_def split: if_splits)
  moreover have "a < a + 1"
    using assms(3) unat_u64_less [of a] by (simp add: word_less_nat_alt unat_word_ariths word_unat_eq_iff)
  ultimately show ?thesis
    by (simp add: sb_try_wait_for_def sq_create_barrier_def sb_new_def sb_available_def Let_def)
qed

end
