(* ===== verification/Event_Disruptor.thy ===== *)
theory Event_Disruptor
  imports Ring_Buffer Sequencing
begin

text \<open>
  The disruptor (\<open>src/src/disruptor/mod.rs\<close>): a ring buffer and a sequencer behind one interface for
  publishing events, with the event types of the pipeline.

  The statistics are plain fields incremented through a shared reference, which does not compile; the
  model increments them. \<open>stop\<close> spins while the ring buffer reports events; \<open>None\<close> is a state in
  which it spins for as long as nobody else changes the cursors.
\<close>

section \<open>Data\<close>

record DisruptorConfig =
  dcf_buffer_size :: u64
  dcf_producer_count :: u64
  dcf_consumer_count :: u64
  dcf_wait_strategy :: WaitStrategy

definition dcf_default :: DisruptorConfig where
  "dcf_default =
     \<lparr>dcf_buffer_size = 1024, dcf_producer_count = 1, dcf_consumer_count = 4,
      dcf_wait_strategy = AdaptiveSpin\<rparr>"

record DisruptorStats =
  ds_events_published :: u64
  ds_events_consumed :: u64
  ds_consumer_lag :: u64
  ds_backpressure_events :: u64
  ds_total_spins :: u64
  ds_total_yields :: u64

definition ds_new :: DisruptorStats where
  "ds_new =
     \<lparr>ds_events_published = 0, ds_events_consumed = 0, ds_consumer_lag = 0, ds_backpressure_events = 0,
      ds_total_spins = 0, ds_total_yields = 0\<rparr>"

record 'e Disruptor =
  dp_ring_buffer :: "'e RingBuffer"
  dp_sequencer :: Sequencer
  dp_is_running :: bool
  dp_stats :: DisruptorStats
  dp_shutdown_requested :: bool

record MarketDataEvent =
  mde_symbol_hash :: u64
  mde_bid_price :: u64
  mde_ask_price :: u64
  mde_bid_size :: u64
  mde_ask_size :: u64
  mde_timestamp_ns :: u64
  mde_venue_id :: u32
  mde_sequence :: u64
  mde_flags :: u32

definition mde_default :: MarketDataEvent where
  "mde_default =
     \<lparr>mde_symbol_hash = 0, mde_bid_price = 0, mde_ask_price = 0, mde_bid_size = 0, mde_ask_size = 0,
      mde_timestamp_ns = 0, mde_venue_id = 0, mde_sequence = 0, mde_flags = 0\<rparr>"

record OrderEvent =
  oe_client_order_id :: u64
  oe_symbol_hash :: u64
  oe_side :: u8
  oe_order_type :: u8
  oe_price :: u64
  oe_quantity :: u64
  oe_timestamp_ns :: u64
  oe_venue_id :: u32
  oe_sequence :: u64

record FillEvent =
  fie_order_id :: u64
  fie_fill_id :: u64
  fie_fill_price :: u64
  fie_fill_qty :: u64
  fie_timestamp_ns :: u64
  fie_venue_id :: u32
  fie_sequence :: u64
  fie_commission :: u64

section \<open>Operations\<close>

definition dp_new :: "'e \<Rightarrow> DisruptorConfig \<Rightarrow> 'e Disruptor option" where
  "dp_new dflt config =
     map_option (\<lambda>rb. \<lparr>dp_ring_buffer = rb, dp_sequencer = sq_new (dcf_wait_strategy config),
                       dp_is_running = False, dp_stats = ds_new, dp_shutdown_requested = False\<rparr>)
       (ring_new dflt (dcf_buffer_size config))"

definition dp_start :: "'e Disruptor \<Rightarrow> 'e Disruptor" where
  "dp_start d =
     d\<lparr>dp_is_running := True, dp_shutdown_requested := False, dp_sequencer := sq_start (dp_sequencer d)\<rparr>"

definition dp_stop :: "'e Disruptor \<Rightarrow> 'e Disruptor option" where
  "dp_stop d =
     (let d = d\<lparr>dp_shutdown_requested := True\<rparr>
      in if ring_has_available_events (dp_ring_buffer d) (sq_cursor (dp_sequencer d)) then None
         else Some (d\<lparr>dp_is_running := False, dp_sequencer := sq_stop (dp_sequencer d)\<rparr>))"

definition dp_count_published :: "'e Disruptor \<Rightarrow> 'e Disruptor" where
  "dp_count_published d =
     d\<lparr>dp_stats := (dp_stats d)\<lparr>ds_events_published := ds_events_published (dp_stats d) + 1\<rparr>\<rparr>"

definition dp_publish :: "('e \<Rightarrow> 'e) \<Rightarrow> 'e Disruptor \<Rightarrow> u64 option \<times> 'e Disruptor" where
  "dp_publish event_factory d =
     (if \<not> dp_is_running d then (None, d)
      else case sq_next 1 (dp_sequencer d) of
             (None, sq) \<Rightarrow> (None, d\<lparr>dp_sequencer := sq\<rparr>)
           | (Some seq, sq) \<Rightarrow>
               (Some seq,
                dp_count_published
                  (d\<lparr>dp_ring_buffer := ring_modify seq event_factory (dp_ring_buffer d),
                     dp_sequencer := sq_publish seq sq\<rparr>)))"

definition dp_try_publish :: "('e \<Rightarrow> 'e) \<Rightarrow> 'e Disruptor \<Rightarrow> u64 option \<times> 'e Disruptor" where
  "dp_try_publish event_factory d =
     (if \<not> dp_is_running d then (None, d)
      else case sq_try_next 1 (dp_sequencer d) of
             (Some seq, sq) \<Rightarrow>
               (Some seq,
                dp_count_published
                  (d\<lparr>dp_ring_buffer := ring_modify seq event_factory (dp_ring_buffer d),
                     dp_sequencer := sq_publish seq sq\<rparr>))
           | (None, sq) \<Rightarrow>
               (None, d\<lparr>dp_sequencer := sq,
                        dp_stats := (dp_stats d)\<lparr>ds_backpressure_events := ds_backpressure_events (dp_stats d) + 1\<rparr>\<rparr>))"

definition dp_calculate_lag :: "'e Disruptor \<Rightarrow> u64 \<Rightarrow> u64" where
  "dp_calculate_lag d consumer_seq =
     (let cursor = sq_cursor (dp_sequencer d)
      in if consumer_seq \<le> cursor then cursor - consumer_seq else 0)"

definition dp_get_stats :: "'e Disruptor \<Rightarrow> DisruptorStats" where
  "dp_get_stats d = (dp_stats d)\<lparr>ds_consumer_lag := dp_calculate_lag d 0\<rparr>"

definition dp_record_consumption :: "u64 \<Rightarrow> 'e Disruptor \<Rightarrow> 'e Disruptor" where
  "dp_record_consumption n d =
     d\<lparr>dp_stats := (dp_stats d)\<lparr>ds_events_consumed := ds_events_consumed (dp_stats d) + n\<rparr>\<rparr>"

definition dp_record_wait_metrics :: "u64 \<Rightarrow> u64 \<Rightarrow> 'e Disruptor \<Rightarrow> 'e Disruptor" where
  "dp_record_wait_metrics spins yields d =
     d\<lparr>dp_stats := (dp_stats d)\<lparr>ds_total_spins := ds_total_spins (dp_stats d) + spins,
                                  ds_total_yields := ds_total_yields (dp_stats d) + yields\<rparr>\<rparr>"

section \<open>One producer\<close>

definition dp_put :: "'e \<Rightarrow> 'e Disruptor \<Rightarrow> 'e Disruptor" where
  "dp_put e d = snd (dp_publish (\<lambda>_. e) d)"

text \<open>
  The disruptor after the events \<open>es\<close>: a slot holds the last event whose sequence number falls on
  it, and the sequencer stands at the number of events.
\<close>

definition holds :: "'e list \<Rightarrow> 'e Disruptor \<Rightarrow> bool" where
  "holds es d \<longleftrightarrow>
     ring_wf (dp_ring_buffer d) \<and> dp_is_running d \<and> sq_is_running (dp_sequencer d) \<and>
     sq_cursor (dp_sequencer d) = of_nat (length es) \<and>
     sq_next_sequence (dp_sequencer d) = of_nat (length es) + 1 \<and>
     sq_pending_count (dp_sequencer d) = 0 \<and>
     (\<forall>k j. j < length es \<and> length es \<le> j + unat (ring_size (dp_ring_buffer d)) \<and>
        unat k mod unat (ring_size (dp_ring_buffer d)) = (j + 1) mod unat (ring_size (dp_ring_buffer d)) \<longrightarrow>
        ring_get (dp_ring_buffer d) k = es ! j)"

lemma ring_get_modify:
  "ring_wf rb \<Longrightarrow> ring_get (ring_modify seq f rb) k =
     (if ring_calculate_index rb k = ring_calculate_index rb seq then f (ring_get rb k) else ring_get rb k)"
  by (simp add: ring_get_def ring_modify_slot)

lemma window_mod:
  fixes n :: nat
  assumes "j < m" and "m \<le> j + n" and "(j + 1) mod n = (m + 1) mod n"
  shows "j + n = m"
proof -
  have "n dvd (m + 1) - (j + 1)" using assms by (metis mod_eq_dvd_iff_nat add_le_mono1 less_imp_le_nat)
  then have "n dvd m - j" by simp
  with assms(1,2) show ?thesis by (auto dest: dvd_imp_le)
qed

lemma holds_put:
  assumes "holds es d" and "length es + 1 < 2 ^ 64"
  shows "holds (es @ [e]) (dp_put e d)"
proof -
  let ?rb = "dp_ring_buffer d" and ?n = "unat (ring_size (dp_ring_buffer d))" and ?m = "length es"
  let ?seq = "of_nat ?m + 1 :: u64"
  have wf: "ring_wf ?rb" and old: "\<And>k j. j < ?m \<Longrightarrow> ?m \<le> j + ?n \<Longrightarrow> unat k mod ?n = (j + 1) mod ?n \<Longrightarrow> ring_get ?rb k = es ! j"
    using assms(1) unfolding holds_def by blast+
  have seq: "unat ?seq = ?m + 1" using assms(2) by (simp add: unat_word_ariths unat_of_nat)
  have put: "dp_put e d = dp_count_published
      (d\<lparr>dp_ring_buffer := ring_modify ?seq (\<lambda>_. e) ?rb,
         dp_sequencer := sq_publish ?seq (snd (sq_next 1 (dp_sequencer d)))\<rparr>)"
    using assms(1) by (simp add: dp_put_def dp_publish_def sq_next_def holds_def)
  have "ring_get (ring_modify ?seq (\<lambda>_. e) ?rb) k = (es @ [e]) ! j"
    if j: "j < ?m + 1" "?m + 1 \<le> j + ?n" "unat k mod ?n = (j + 1) mod ?n" for k j
  proof (cases "j = ?m")
    case True
    with j seq wf show ?thesis by (simp add: ring_get_modify ring_index_eq)
  next
    case False
    with j have "(j + 1) mod ?n \<noteq> (?m + 1) mod ?n" using window_mod [of j ?m ?n] by auto
    with False j seq wf old [of j k] show ?thesis by (simp add: ring_get_modify ring_index_eq nth_append)
  qed
  then show ?thesis
    using assms(1) by (simp add: holds_def put dp_count_published_def sq_next_def algebra_simps)
qed

lemma holds_run: "holds es d \<Longrightarrow> length es + length fs < 2 ^ 64 \<Longrightarrow> holds (es @ fs) (run dp_put fs d)"
proof (induction fs arbitrary: es d)
  case (Cons f fs)
  then have "holds (es @ [f]) (dp_put f d)" by (intro holds_put) simp_all
  from Cons.IH [OF this] Cons.prems show ?case by simp
qed simp

lemma holds_new: "dp_new dflt config = Some d \<Longrightarrow> holds [] (dp_start d)"
  using ring_wf_new by (fastforce simp: dp_new_def dp_start_def holds_def sq_new_def sq_start_def)

lemma dp_run_size: "ring_size (dp_ring_buffer (run dp_put es d)) = ring_size (dp_ring_buffer d)"
  by (induction es arbitrary: d)
     (auto simp: dp_put_def dp_publish_def dp_count_published_def split: prod.splits option.splits)

lemma dp_new_size: "dp_new dflt config = Some d \<Longrightarrow> ring_size (dp_ring_buffer (dp_start d)) = dcf_buffer_size config"
  by (auto simp: dp_new_def dp_start_def ring_new_def split: if_splits)

text \<open>
  C11: A single producer's events can be read back until they are overwritten. After a new disruptor
  has published the events \<open>es\<close>, the last \<open>size\<close> of them are found under their sequence numbers, which
  count from one; the cursor is the number of events and nothing is pending.
\<close>

theorem published_events_readable:
  assumes "dp_new dflt config = Some d" and "length es < 2 ^ 64"
    and "d' = run dp_put es (dp_start d)"
    and "j < length es" and "length es \<le> j + unat (dcf_buffer_size config)"
  shows "ring_get (dp_ring_buffer d') (of_nat j + 1) = es ! j \<and>
    sq_cursor (dp_sequencer d') = of_nat (length es) \<and> sq_pending_count (dp_sequencer d') = 0"
proof -
  have h: "holds es d'" using holds_run [OF holds_new [OF assms(1)], of es] assms(2,3) by simp
  have "ring_size (dp_ring_buffer d') = dcf_buffer_size config"
    using dp_new_size [OF assms(1)] by (simp add: assms(3) dp_run_size)
  moreover have "unat (of_nat j + 1 :: u64) = j + 1"
    using assms(2,4) by (simp add: unat_word_ariths unat_of_nat)
  ultimately show ?thesis using h assms(4,5) unfolding holds_def by auto
qed

theorem published_events_readable_witness:
  "\<exists>d. dp_new (0 :: nat) (dcf_default\<lparr>dcf_buffer_size := 2\<rparr>) = Some d \<and>
     ring_get (dp_ring_buffer (run dp_put [11, 12, 13] (dp_start d))) 2 = 12"
proof -
  obtain d where d: "dp_new (0 :: nat) (dcf_default\<lparr>dcf_buffer_size := 2\<rparr>) = Some d"
    by (auto simp: dp_new_def ring_new_def)
  have "ring_get (dp_ring_buffer (run dp_put [11, 12, 13] (dp_start d))) (of_nat 1 + 1) = [11, 12, 13] ! 1 \<and>
      sq_cursor (dp_sequencer (run dp_put [11, 12, 13] (dp_start d))) = of_nat (length [11, 12, 13 :: nat]) \<and>
      sq_pending_count (dp_sequencer (run dp_put [11, 12, 13] (dp_start d))) = 0"
    by (rule published_events_readable [OF d _ refl]) simp_all
  with d show ?thesis by simp
qed

text \<open>
  Nothing holds the producer back. When one event more than the buffer has slots is published, all
  of them are accepted and the first one is gone, whether a consumer has read it or not: its
  sequence number then yields the last event.
\<close>

lemma unread_event_overwritten:
  assumes "dp_new dflt config = Some d" and "length es = unat (dcf_buffer_size config) + 1"
    and "length es < 2 ^ 64" and "d' = run dp_put es (dp_start d)"
  shows "ring_get (dp_ring_buffer d') 1 = last es \<and> sq_total_published (dp_sequencer d') = of_nat (length es)"
proof -
  have h: "holds es d'" using holds_run [OF holds_new [OF assms(1)], of es] assms(3,4) by simp
  have "ring_size (dp_ring_buffer d') = dcf_buffer_size config"
    using dp_new_size [OF assms(1)] by (simp add: assms(4) dp_run_size)
  moreover from this h have "0 < unat (dcf_buffer_size config)" by (auto simp: holds_def ring_wf_def)
  moreover have "unat (1 :: u64) mod n = (n + 1) mod n" for n :: nat
    by (simp only: mod_add_self1 unsigned_1)
  moreover have "unat (dcf_buffer_size config) < length es" using assms(2) by simp
  moreover have "length es \<le> unat (dcf_buffer_size config) + unat (dcf_buffer_size config)"
    using assms(2) calculation(2) by simp
  ultimately have first: "ring_get (dp_ring_buffer d') 1 = es ! unat (dcf_buffer_size config)"
    using h unfolding holds_def by metis
  have "sq_total_published (dp_sequencer (run dp_put fs d0)) =
      sq_total_published (dp_sequencer d0) + of_nat (length fs)" if "holds gs d0" "length gs + length fs < 2 ^ 64"
    for gs fs and d0 :: "'a Disruptor"
    using that
  proof (induction fs arbitrary: d0 gs)
    case (Cons f fs)
    have "sq_total_published (dp_sequencer (dp_put f d0)) = sq_total_published (dp_sequencer d0) + 1"
      using Cons.prems(1) by (simp add: holds_def dp_put_def dp_publish_def sq_next_def dp_count_published_def)
    moreover have "holds (gs @ [f]) (dp_put f d0)" using Cons.prems by (intro holds_put) simp_all
    ultimately show ?case using Cons.IH [of "gs @ [f]" "dp_put f d0"] Cons.prems(2) by (simp add: algebra_simps)
  qed simp
  from this [OF holds_new [OF assms(1)], of es] assms(3)
  have "sq_total_published (dp_sequencer d') = sq_total_published (dp_sequencer (dp_start d)) + of_nat (length es)"
    by (simp add: assms(4))
  moreover have "sq_total_published (dp_sequencer (dp_start d)) = 0"
    using assms(1) by (auto simp: dp_new_def dp_start_def sq_start_def sq_new_def)
  moreover have "last es = es ! unat (dcf_buffer_size config)"
    using assms(2) last_conv_nth [of es] by (cases "es = []") simp_all
  ultimately show ?thesis using first by simp
qed

section \<open>Stopping\<close>

datatype 'e dp_op =
    DpStart
  | DpPublish "'e \<Rightarrow> 'e"
  | DpTryPublish "'e \<Rightarrow> 'e"
  | DpConsumed u64
  | DpWaited u64 u64

fun dp_exec :: "'e dp_op \<Rightarrow> 'e Disruptor \<Rightarrow> 'e Disruptor" where
  "dp_exec DpStart d = dp_start d"
| "dp_exec (DpPublish f) d = snd (dp_publish f d)"
| "dp_exec (DpTryPublish f) d = snd (dp_try_publish f d)"
| "dp_exec (DpConsumed n) d = dp_record_consumption n d"
| "dp_exec (DpWaited s y) d = dp_record_wait_metrics s y d"

interpretation disruptor: framed_system dp_exec "\<lambda>d. ring_cursor (dp_ring_buffer d)"
proof
  fix op and d :: "'e Disruptor"
  show "ring_cursor (dp_ring_buffer (dp_exec op d)) = ring_cursor (dp_ring_buffer d)"
    by (cases op)
       (auto simp: dp_start_def dp_publish_def dp_try_publish_def dp_count_published_def
         dp_record_consumption_def dp_record_wait_metrics_def split: prod.splits option.splits)
qed

text \<open>
  Stopping does not drain. The disruptor never moves the cursor of its ring buffer, which is the
  one \<open>stop\<close> compares with the published position, so in every state reached by starting, publishing
  and recording consumption \<open>stop\<close> returns at once, whatever consumers have left to read.
\<close>

lemma stop_does_not_drain:
  assumes "dp_new dflt config = Some d"
  shows "\<exists>d'. dp_stop (run dp_exec ops d) = Some d' \<and> \<not> dp_is_running d'"
proof -
  have "ring_cursor (dp_ring_buffer d) = 0" using assms by (auto simp: dp_new_def ring_new_def split: if_splits)
  then have "ring_cursor (dp_ring_buffer (run dp_exec ops d)) = 0" by (simp add: disruptor.run_part)
  then show ?thesis by (simp add: dp_stop_def ring_has_available_events_def)
qed

end
