(* ===== verification/Conditional_Orders.thy ===== *)
theory Conditional_Orders
  imports Machine
begin

text \<open>
  Conditional orders (\<open>src/src/execution/conditional.rs\<close>): conditions on the market, expressions
  over them in a fixed pool of nodes, and the router that executes an order once its expression holds.

  The evaluation of a node follows the indices of its children and carries fuel; \<open>None\<close> is an
  evaluation that has not returned. Two units are enough for every expression the builders make,
  and \<open>evaluate\<close> starts with seventeen. The router writes its pool through a shared reference and
  through a field \<open>orders.orders\<close> that does not exist, neither of which compiles; the model writes the
  pool. The executor callback is the list of the child orders it is called with, each with the id of
  its conditional order.
\<close>

unbundle bit_operations_syntax

section \<open>Conditions\<close>

datatype ConditionType =
    CvdGreaterThan i64
  | CvdLessThan i64
  | SpreadLessThan u64
  | SpreadGreaterThan u64
  | PriceAbove u64
  | PriceBelow u64
  | ImbalanceAbove u32
  | ImbalanceBelow u32
  | VolatilityBelow u32
  | VolatilityAbove u32
  | MicropriceDriftAbove i32
  | MicropriceDriftBelow i32
  | FlagSet u8

datatype LogicalOp = LogicalAnd | LogicalOr | LogicalNot

record MarketContext =
  mx_current_price :: u64
  mx_spread_micros :: u64
  mx_cvd :: i64
  mx_imbalance_ratio :: u32
  mx_volatility_scaled :: u32
  mx_microprice_drift_scaled :: i32
  mx_flags :: u64
  mx_timestamp_ns :: u64

definition mx_default :: MarketContext where
  "mx_default =
     \<lparr>mx_current_price = 0, mx_spread_micros = 0, mx_cvd = 0, mx_imbalance_ratio = 0,
      mx_volatility_scaled = 0, mx_microprice_drift_scaled = 0, mx_flags = 0, mx_timestamp_ns = 0\<rparr>"

text \<open>A shift by 64 or more takes its distance modulo 64, as it does without overflow checks.\<close>

fun eval_condition :: "ConditionType \<Rightarrow> MarketContext \<Rightarrow> bool" where
  "eval_condition (CvdGreaterThan t) ctx = (sint t < sint (mx_cvd ctx))"
| "eval_condition (CvdLessThan t) ctx = (sint (mx_cvd ctx) < sint t)"
| "eval_condition (SpreadLessThan t) ctx = (mx_spread_micros ctx < t)"
| "eval_condition (SpreadGreaterThan t) ctx = (t < mx_spread_micros ctx)"
| "eval_condition (PriceAbove t) ctx = (t < mx_current_price ctx)"
| "eval_condition (PriceBelow t) ctx = (mx_current_price ctx < t)"
| "eval_condition (ImbalanceAbove t) ctx = (t < mx_imbalance_ratio ctx)"
| "eval_condition (ImbalanceBelow t) ctx = (mx_imbalance_ratio ctx < t)"
| "eval_condition (VolatilityBelow t) ctx = (mx_volatility_scaled ctx < t)"
| "eval_condition (VolatilityAbove t) ctx = (t < mx_volatility_scaled ctx)"
| "eval_condition (MicropriceDriftAbove t) ctx = (sint t < sint (mx_microprice_drift_scaled ctx))"
| "eval_condition (MicropriceDriftBelow t) ctx = (sint (mx_microprice_drift_scaled ctx) < sint t)"
| "eval_condition (FlagSet flag_id) ctx = (mx_flags ctx AND push_bit (unat flag_id mod 64) 1 \<noteq> 0)"

section \<open>Expressions\<close>

record ConditionNode =
  cn_condition :: ConditionType
  cn_operator :: LogicalOp
  cn_left_child :: "nat option"
  cn_right_child :: "nat option"

record ConditionalExpression =
  ce_conditions :: "ConditionNode option list"
  ce_condition_count :: nat
  ce_root_index :: nat

definition ce_new :: ConditionalExpression where
  "ce_new = \<lparr>ce_conditions = replicate 16 None, ce_condition_count = 0, ce_root_index = 0\<rparr>"

definition leaf :: "ConditionType \<Rightarrow> LogicalOp \<Rightarrow> ConditionNode" where
  "leaf cond op =
     \<lparr>cn_condition = cond, cn_operator = op, cn_left_child = None, cn_right_child = None\<rparr>"

definition ce_with_condition :: "ConditionType \<Rightarrow> ConditionalExpression \<Rightarrow> ConditionalExpression" where
  "ce_with_condition cond e =
     (if ce_condition_count e < 16
      then e\<lparr>ce_conditions := (ce_conditions e)[ce_condition_count e := Some (leaf cond LogicalAnd)],
             ce_root_index := ce_condition_count e,
             ce_condition_count := ce_condition_count e + 1\<rparr>
      else e)"

text \<open>\<open>and\<close> and \<open>or\<close> differ in the operator they set.\<close>

definition ce_chain :: "LogicalOp \<Rightarrow> ConditionType \<Rightarrow> ConditionalExpression \<Rightarrow> ConditionalExpression" where
  "ce_chain op cond e =
     (if ce_condition_count e < 16 \<and> 0 < ce_condition_count e
      then
        let parent_idx = ce_root_index e;
            new_idx = ce_condition_count e;
            pool = (case ce_conditions e ! parent_idx of
                      Some parent \<Rightarrow>
                        (ce_conditions e)[parent_idx := Some (parent\<lparr>cn_operator := op, cn_right_child := Some new_idx\<rparr>)]
                    | None \<Rightarrow> ce_conditions e)
        in e\<lparr>ce_conditions := pool[new_idx := Some (leaf cond op)],
             ce_condition_count := ce_condition_count e + 1\<rparr>
      else e)"

definition ce_and :: "ConditionType \<Rightarrow> ConditionalExpression \<Rightarrow> ConditionalExpression" where
  "ce_and cond e = ce_chain LogicalAnd cond e"

definition ce_or :: "ConditionType \<Rightarrow> ConditionalExpression \<Rightarrow> ConditionalExpression" where
  "ce_or cond e = ce_chain LogicalOr cond e"

fun evaluate_node :: "nat \<Rightarrow> ConditionNode option list \<Rightarrow> nat \<Rightarrow> MarketContext \<Rightarrow> bool option" where
  "evaluate_node 0 pool node_idx ctx = None"
| "evaluate_node (Suc n) pool node_idx ctx =
     (case pool ! node_idx of
        None \<Rightarrow> Some False
      | Some node \<Rightarrow>
          let result = eval_condition (cn_condition node) ctx
          in case cn_operator node of
               LogicalAnd \<Rightarrow>
                 if \<not> result then Some False
                 else (case cn_right_child node of
                         Some right \<Rightarrow> map_option (\<lambda>r. result \<and> r) (evaluate_node n pool right ctx)
                       | None \<Rightarrow> Some result)
             | LogicalOr \<Rightarrow>
                 if result then Some True
                 else (case cn_right_child node of
                         Some right \<Rightarrow> map_option (\<lambda>r. result \<or> r) (evaluate_node n pool right ctx)
                       | None \<Rightarrow> Some result)
             | LogicalNot \<Rightarrow> Some (\<not> result))"

definition ce_evaluate :: "ConditionalExpression \<Rightarrow> MarketContext \<Rightarrow> bool option" where
  "ce_evaluate e ctx =
     (if ce_condition_count e = 0 then Some True
      else evaluate_node 17 (ce_conditions e) (ce_root_index e) ctx)"

section \<open>What a chain evaluates to\<close>

text \<open>A chain of \<open>and\<close> and \<open>or\<close> on a first condition.\<close>

definition chain :: "ConditionType \<Rightarrow> (LogicalOp \<times> ConditionType) list \<Rightarrow> ConditionalExpression" where
  "chain c xs = fold (\<lambda>(op, d). ce_chain op d) xs (ce_with_condition c ce_new)"

fun combine :: "LogicalOp \<Rightarrow> bool \<Rightarrow> bool \<Rightarrow> bool" where
  "combine LogicalAnd a b = (a \<and> b)"
| "combine LogicalOr a b = (a \<or> b)"
| "combine LogicalNot a b = (\<not> a)"

text \<open>
  The pool after a chain: the first node points at the last one, with the last operator; the nodes
  in between are unreachable.
\<close>

definition chained :: "ConditionType \<Rightarrow> (LogicalOp \<times> ConditionType) list \<Rightarrow> ConditionalExpression \<Rightarrow> bool" where
  "chained c xs e \<longleftrightarrow>
     length (ce_conditions e) = 16 \<and> ce_root_index e = 0 \<and> ce_condition_count e = length xs + 1 \<and>
     ce_conditions e ! 0 =
       Some \<lparr>cn_condition = c, cn_operator = (if xs = [] then LogicalAnd else fst (last xs)),
             cn_left_child = None, cn_right_child = (if xs = [] then None else Some (length xs))\<rparr> \<and>
     (xs \<noteq> [] \<longrightarrow> ce_conditions e ! length xs = Some (leaf (snd (last xs)) (fst (last xs))))"

lemma chained_snoc:
  assumes "chained c xs e" and "length xs < 15"
  shows "chained c (xs @ [(op, d)]) (ce_chain op d e)"
  using assms by (simp add: chained_def ce_chain_def Let_def nth_list_update)

lemma chained_chain: "length xs < 16 \<Longrightarrow> chained c xs (chain c xs)"
proof (induction xs rule: rev_induct)
  case Nil
  then show ?case by (simp add: chained_def chain_def ce_with_condition_def ce_new_def leaf_def)
next
  case (snoc x xs)
  then show ?case using chained_snoc [of c xs "chain c xs"] by (cases x) (simp add: chain_def)
qed

text \<open>
  Only the last link of a chain counts. However many conditions are chained with \<open>and\<close> and \<open>or\<close>, the
  expression evaluates to the first condition combined with the last one by the last operator: every
  link overwrites the one before it, and the conditions in between are never looked at.
\<close>

lemma chain_keeps_ends_only:
  assumes "length xs < 15" and "op \<noteq> LogicalNot"
  shows "ce_evaluate (chain c (xs @ [(op, d)])) ctx =
    Some (combine op (eval_condition c ctx) (eval_condition d ctx))"
proof -
  let ?e = "chain c (xs @ [(op, d)])"
  have "chained c (xs @ [(op, d)]) ?e" using assms(1) by (intro chained_chain) simp
  then have "ce_condition_count ?e \<noteq> 0" "ce_root_index ?e = 0"
    "ce_conditions ?e ! 0 = Some \<lparr>cn_condition = c, cn_operator = op, cn_left_child = None,
       cn_right_child = Some (Suc (length xs))\<rparr>"
    "ce_conditions ?e ! Suc (length xs) = Some (leaf d op)"
    by (auto simp: chained_def)
  then show ?thesis
    using assms(2) by (cases op) (simp_all add: ce_evaluate_def eval_nat_numeral leaf_def Let_def)
qed

text \<open>One condition, or none, means what it says.\<close>

lemma single_condition:
  "ce_evaluate ce_new ctx = Some True"
  "ce_evaluate (ce_with_condition c ce_new) ctx = Some (eval_condition c ctx)"
  by (simp_all add: ce_evaluate_def ce_new_def ce_with_condition_def eval_nat_numeral leaf_def Let_def)

lemma flag_alias: "eval_condition (FlagSet 64) ctx = eval_condition (FlagSet 0) ctx"
  by simp

text \<open>The expressions a client can build.\<close>

inductive built :: "ConditionalExpression \<Rightarrow> bool" where
  built_new: "built ce_new"
| built_with: "built e \<Longrightarrow> built (ce_with_condition c e)"
| built_and: "built e \<Longrightarrow> built (ce_and c e)"
| built_or: "built e \<Longrightarrow> built (ce_or c e)"

text \<open>Children come after their parents, inside the used part of the pool.\<close>

definition node_ok :: "nat \<Rightarrow> nat \<Rightarrow> ConditionNode option \<Rightarrow> bool" where
  "node_ok n i x = (case x of
     None \<Rightarrow> True
   | Some node \<Rightarrow> (case cn_right_child node of None \<Rightarrow> True | Some j \<Rightarrow> i < j \<and> j < n))"

definition pool_wf :: "ConditionalExpression \<Rightarrow> bool" where
  "pool_wf e \<longleftrightarrow>
     length (ce_conditions e) = 16 \<and> ce_condition_count e \<le> 16 \<and>
     (0 < ce_condition_count e \<longrightarrow> ce_root_index e < ce_condition_count e) \<and>
     (\<forall>i < 16. node_ok (ce_condition_count e) i (ce_conditions e ! i))"

lemma node_ok_Suc: "node_ok n i x \<Longrightarrow> node_ok (Suc n) i x"
  by (auto simp: node_ok_def split: option.splits)

lemma node_ok_leaf [simp]: "node_ok n i (Some (leaf c op))"
  by (simp add: node_ok_def leaf_def)

lemma pool_wf_with: "pool_wf e \<Longrightarrow> pool_wf (ce_with_condition c e)"
  by (simp add: pool_wf_def ce_with_condition_def nth_list_update node_ok_Suc)

lemma node_ok_link [simp]: "node_ok n i (Some (node\<lparr>cn_operator := op, cn_right_child := Some j\<rparr>)) = (i < j \<and> j < n)"
  by (simp add: node_ok_def)

lemma pool_wf_chain: "pool_wf e \<Longrightarrow> pool_wf (ce_chain op c e)"
  unfolding pool_wf_def ce_chain_def Let_def
  by (cases "ce_conditions e ! ce_root_index e") (auto simp: nth_list_update node_ok_Suc)

lemma pool_wf_built: "built e \<Longrightarrow> pool_wf e"
  by (induction rule: built.induct)
     (simp_all add: pool_wf_with pool_wf_chain ce_and_def ce_or_def, simp add: pool_wf_def ce_new_def node_ok_def)

lemma evaluate_node_returns: "pool_wf e \<Longrightarrow> i < 16 \<Longrightarrow> 16 < n + i \<Longrightarrow> evaluate_node n (ce_conditions e) i ctx \<noteq> None"
proof (induction n arbitrary: i)
  case (Suc n)
  show ?case
  proof (cases "ce_conditions e ! i")
    case (Some node)
    have "evaluate_node n (ce_conditions e) j ctx \<noteq> None" if "cn_right_child node = Some j" for j
    proof -
      have "i < j \<and> j < ce_condition_count e" "ce_condition_count e \<le> 16"
        using Suc.prems(1,2) Some that by (auto simp: pool_wf_def node_ok_def dest: spec [of _ i])
      then show ?thesis using Suc by (intro Suc.IH) auto
    qed
    with Some show ?thesis by (auto simp: Let_def split: LogicalOp.splits option.splits)
  qed simp
qed simp

text \<open>
  Evaluation always ends: for every expression a client can build, in every market, the
  evaluation returns a truth value, within sixteen levels of recursion.
\<close>

lemma evaluation_returns:
  assumes "built e"
  shows "\<exists>b. ce_evaluate e ctx = Some b"
proof -
  have "pool_wf e" using assms by (rule pool_wf_built)
  then have "0 < ce_condition_count e \<Longrightarrow> evaluate_node 17 (ce_conditions e) (ce_root_index e) ctx \<noteq> None"
    by (intro evaluate_node_returns) (auto simp: pool_wf_def)
  then show ?thesis by (cases "ce_condition_count e = 0") (auto simp: ce_evaluate_def)
qed

section \<open>The router\<close>

datatype TimeInForce = ImmediateOrCancel | FillOrKill | GoodTillCancelled | GoodTillDate u64

record ChildOrder =
  cho_is_buy :: bool
  cho_quantity :: u64
  cho_limit_price_micros :: u64
  cho_tif :: TimeInForce
  cho_venue_id :: u8

record ConditionalOrder =
  cdo_id :: u64
  cdo_expression :: ConditionalExpression
  cdo_child_order :: ChildOrder
  cdo_executed :: bool
  cdo_cancelled :: bool
  cdo_expiration_ns :: u64

record ConditionalOrderRouter =
  cor_orders :: "ConditionalOrder option list"
  cor_order_count :: u64
  cor_executions :: u64
  cor_rejections :: u64
  cor_enabled :: bool

definition cor_new :: ConditionalOrderRouter where
  "cor_new =
     \<lparr>cor_orders = replicate 64 None, cor_order_count = 0, cor_executions = 0, cor_rejections = 0,
      cor_enabled = True\<rparr>"

definition cor_add_order ::
    "ConditionalExpression \<Rightarrow> ChildOrder \<Rightarrow> u64 \<Rightarrow> ConditionalOrderRouter
     \<Rightarrow> u64 option \<times> ConditionalOrderRouter" where
  "cor_add_order expr child expiration_ns r =
     (if \<not> cor_enabled r then (None, r)
      else
        let n = cor_order_count r
        in if 64 \<le> n then (None, r)
           else
             let i = n + 1;
                 ord = \<lparr>cdo_id = i, cdo_expression = expr, cdo_child_order = child, cdo_executed = False,
                        cdo_cancelled = False, cdo_expiration_ns = expiration_ns\<rparr>
             in (Some i, r\<lparr>cor_orders := (cor_orders r)[unat n := Some ord], cor_order_count := i\<rparr>))"

type_synonym executed = "(u64 \<times> ChildOrder) list"

definition cor_check ::
    "MarketContext \<Rightarrow> nat \<Rightarrow> ConditionalOrderRouter \<times> executed \<Rightarrow> ConditionalOrderRouter \<times> executed" where
  "cor_check ctx i s =
     (case s of (r, fired) \<Rightarrow>
       case cor_orders r ! i of
         None \<Rightarrow> (r, fired)
       | Some ord \<Rightarrow>
           if cdo_executed ord \<or> cdo_cancelled ord then (r, fired)
           else if cdo_expiration_ns ord < mx_timestamp_ns ctx \<and> 0 < cdo_expiration_ns ord
           then (r\<lparr>cor_orders := (cor_orders r)[i := Some (ord\<lparr>cdo_cancelled := True\<rparr>)],
                   cor_rejections := cor_rejections r + 1\<rparr>, fired)
           else if ce_evaluate (cdo_expression ord) ctx = Some True
           then (r\<lparr>cor_orders := (cor_orders r)[i := Some (ord\<lparr>cdo_executed := True\<rparr>)],
                   cor_executions := cor_executions r + 1\<rparr>, fired @ [(cdo_id ord, cdo_child_order ord)])
           else (r, fired))"

definition cor_evaluate_and_execute ::
    "MarketContext \<Rightarrow> ConditionalOrderRouter \<Rightarrow> ConditionalOrderRouter \<times> executed" where
  "cor_evaluate_and_execute ctx r =
     (if \<not> cor_enabled r then (r, [])
      else fold (cor_check ctx) [0..<unat (cor_order_count r)] (r, []))"

text \<open>The number the source returns is the length of the list.\<close>

definition cor_cancel_order :: "u64 \<Rightarrow> ConditionalOrderRouter \<Rightarrow> bool \<times> ConditionalOrderRouter" where
  "cor_cancel_order i r =
     (if i = 0 \<or> 64 < i then (False, r)
      else case cor_orders r ! (unat i - 1) of
             None \<Rightarrow> (False, r)
           | Some ord \<Rightarrow>
               if \<not> cdo_executed ord
               then (True, r\<lparr>cor_orders := (cor_orders r)[unat i - 1 := Some (ord\<lparr>cdo_cancelled := True\<rparr>)]\<rparr>)
               else (False, r))"

definition live :: "ConditionalOrder \<Rightarrow> bool" where
  "live ord \<longleftrightarrow> \<not> cdo_executed ord \<and> \<not> cdo_cancelled ord"

definition cor_get_active_count :: "ConditionalOrderRouter \<Rightarrow> nat" where
  "cor_get_active_count r =
     length (filter (\<lambda>x. case x of None \<Rightarrow> False | Some ord \<Rightarrow> live ord)
               (take (unat (cor_order_count r)) (cor_orders r)))"

definition cor_enable :: "ConditionalOrderRouter \<Rightarrow> ConditionalOrderRouter" where
  "cor_enable r = r\<lparr>cor_enabled := True\<rparr>"

definition cor_disable :: "ConditionalOrderRouter \<Rightarrow> ConditionalOrderRouter" where
  "cor_disable r = r\<lparr>cor_enabled := False\<rparr>"

definition cor_clear :: "ConditionalOrderRouter \<Rightarrow> ConditionalOrderRouter" where
  "cor_clear r = r\<lparr>cor_orders := replicate 64 None, cor_order_count := 0\<rparr>"

section \<open>Which orders are executed\<close>

definition expired :: "MarketContext \<Rightarrow> ConditionalOrder \<Rightarrow> bool" where
  "expired ctx ord \<longleftrightarrow> 0 < cdo_expiration_ns ord \<and> cdo_expiration_ns ord < mx_timestamp_ns ctx"

definition due :: "MarketContext \<Rightarrow> ConditionalOrder option \<Rightarrow> bool" where
  "due ctx x = (case x of
     None \<Rightarrow> False
   | Some ord \<Rightarrow> live ord \<and> \<not> expired ctx ord \<and> ce_evaluate (cdo_expression ord) ctx = Some True)"

definition ticket :: "ConditionalOrder option \<Rightarrow> u64 \<times> ChildOrder" where
  "ticket x = (cdo_id (the x), cdo_child_order (the x))"

text \<open>What a check does to its slot, and to nothing else.\<close>

definition checked_slot :: "MarketContext \<Rightarrow> ConditionalOrder option \<Rightarrow> ConditionalOrder option" where
  "checked_slot ctx x = (case x of
     None \<Rightarrow> None
   | Some ord \<Rightarrow> Some (if due ctx x then ord\<lparr>cdo_executed := True\<rparr>
                       else if live ord \<and> expired ctx ord then ord\<lparr>cdo_cancelled := True\<rparr> else ord))"

lemma unchanged_slot: "xs ! i = x \<Longrightarrow> xs = xs[i := x]"
  by auto

lemma cor_check_eq:
  assumes "i < length (cor_orders r)"
  shows "cor_orders (fst (cor_check ctx i (r, fired))) = (cor_orders r)[i := checked_slot ctx (cor_orders r ! i)]"
    and "snd (cor_check ctx i (r, fired)) =
      fired @ (if due ctx (cor_orders r ! i) then [ticket (cor_orders r ! i)] else [])"
    and "cor_executions (fst (cor_check ctx i (r, fired))) =
      cor_executions r + (if due ctx (cor_orders r ! i) then 1 else 0)"
    and "cor_order_count (fst (cor_check ctx i (r, fired))) = cor_order_count r"
    and "cor_enabled (fst (cor_check ctx i (r, fired))) = cor_enabled r"
  using assms
  by (auto intro!: unchanged_slot simp: cor_check_def checked_slot_def due_def live_def expired_def ticket_def split: option.splits)

lemma cor_checks_log:
  "distinct is \<Longrightarrow> set is \<subseteq> {..<length (cor_orders r)} \<Longrightarrow>
   snd (fold (cor_check ctx) is (r, fired)) =
     fired @ map (\<lambda>i. ticket (cor_orders r ! i)) (filter (\<lambda>i. due ctx (cor_orders r ! i)) is)"
proof (induction "is" arbitrary: r fired)
  case (Cons i "is")
  obtain r' fired' where c: "cor_check ctx i (r, fired) = (r', fired')" by (cases "cor_check ctx i (r, fired)")
  note eqs = cor_check_eq [of i r ctx fired, unfolded c]
  have other: "cor_orders r' ! j = cor_orders r ! j" if "j \<in> set is" for j
  proof -
    have "i \<noteq> j" using that Cons.prems(1) by auto
    with Cons.prems eqs(1) show ?thesis by auto
  qed
  then have same: "map (\<lambda>i. ticket (cor_orders r' ! i)) (filter (\<lambda>i. due ctx (cor_orders r' ! i)) is) =
      map (\<lambda>i. ticket (cor_orders r ! i)) (filter (\<lambda>i. due ctx (cor_orders r ! i)) is)"
    by (auto cong: filter_cong)
  show ?case
    using Cons.prems Cons.IH [of r' fired'] eqs(1,2) c same by auto
qed simp

definition cor_wf :: "ConditionalOrderRouter \<Rightarrow> bool" where
  "cor_wf r \<longleftrightarrow>
     length (cor_orders r) = 64 \<and> unat (cor_order_count r) \<le> 64 \<and>
     (\<forall>i < 64. \<forall>ord. cor_orders r ! i = Some ord \<longrightarrow> i < unat (cor_order_count r) \<and> cdo_id ord = of_nat i + 1)"

text \<open>
  An evaluation executes exactly the orders that are due: those neither executed nor cancelled
  before, not expired, and whose expression holds in the given market. They are executed in the order
  of their ids, once each, with the child order they were added with; a disabled router executes none.
\<close>

lemma due_orders_executed:
  assumes "cor_wf r"
  shows "snd (cor_evaluate_and_execute ctx r) =
    (if cor_enabled r
     then map ticket (filter (due ctx) (take (unat (cor_order_count r)) (cor_orders r))) else [])"
proof -
  let ?n = "unat (cor_order_count r)"
  have n: "?n \<le> length (cor_orders r)" using assms by (simp add: cor_wf_def)
  then have "take ?n (cor_orders r) = map (\<lambda>i. cor_orders r ! i) [0..<?n]"
    by (intro nth_equalityI) auto
  then have "map ticket (filter (due ctx) (take ?n (cor_orders r))) =
      map (\<lambda>i. ticket (cor_orders r ! i)) (filter (\<lambda>i. due ctx (cor_orders r ! i)) [0..<?n])"
    by (simp add: filter_map comp_def)
  moreover have "set [0..<?n] \<subseteq> {..<length (cor_orders r)}" using n by auto
  then have "snd (fold (cor_check ctx) [0..<?n] (r, [])) =
      map (\<lambda>i. ticket (cor_orders r ! i)) (filter (\<lambda>i. due ctx (cor_orders r ! i)) [0..<?n])"
    using cor_checks_log [of "[0..<?n]" r ctx "[]"] by simp
  ultimately show ?thesis by (simp add: cor_evaluate_and_execute_def)
qed

definition a_child :: ChildOrder where
  "a_child = \<lparr>cho_is_buy = True, cho_quantity = 5, cho_limit_price_micros = 0, cho_tif = FillOrKill, cho_venue_id = 1\<rparr>"

lemma cor_wf_new: "cor_wf cor_new"
  by (simp add: cor_wf_def cor_new_def)

text \<open>Adding to a well-formed router fills the next free slot and numbers it.\<close>

lemma cor_wf_add:
  assumes wf: "cor_wf r"
  shows "cor_wf (snd (cor_add_order e c x r))"
proof (cases "cor_enabled r \<and> cor_order_count r < 64")
  case True
  then have n: "unat (cor_order_count r) < 64" by (simp add: word_less_nat_alt)
  then have "unat (cor_order_count r + 1) = unat (cor_order_count r) + 1"
    by (simp add: unat_word_ariths)
  with wf n True show ?thesis
    by (auto simp: cor_wf_def cor_add_order_def Let_def nth_list_update not_less [symmetric] less_SucI)
next
  case False
  with wf show ?thesis by (auto simp: cor_add_order_def Let_def not_less [symmetric])
qed

lemma first_slot: "take (Suc 0) ((replicate 64 None)[0 := x]) = [x]"
  by (simp add: numeral_eq_Suc)

section \<open>No order is executed twice\<close>

datatype RouterOp =
    OpAdd ConditionalExpression ChildOrder u64
  | OpEvaluate MarketContext
  | OpCancel u64
  | OpEnable
  | OpDisable

fun router_op :: "RouterOp \<Rightarrow> ConditionalOrderRouter \<times> executed \<Rightarrow> ConditionalOrderRouter \<times> executed" where
  "router_op (OpAdd e c x) (r, log) = (snd (cor_add_order e c x r), log)"
| "router_op (OpEvaluate ctx) (r, log) =
     (let (r', fired) = cor_evaluate_and_execute ctx r in (r', log @ fired))"
| "router_op (OpCancel i) (r, log) = (snd (cor_cancel_order i r), log)"
| "router_op OpEnable (r, log) = (cor_enable r, log)"
| "router_op OpDisable (r, log) = (cor_disable r, log)"

text \<open>Every order in the log sits in its slot with its executed flag set.\<close>

definition marked :: "ConditionalOrder option list \<Rightarrow> u64 \<Rightarrow> bool" where
  "marked pool n \<longleftrightarrow> (\<exists>i < 64. n = of_nat i + 1 \<and> (\<exists>ord. pool ! i = Some ord \<and> cdo_executed ord))"

definition logged :: "ConditionalOrderRouter \<times> executed \<Rightarrow> bool" where
  "logged s \<longleftrightarrow> (case s of (r, log) \<Rightarrow>
     cor_wf r \<and> distinct (map fst log) \<and> cor_executions r = of_nat (length log) \<and>
     (\<forall>x \<in> set log. marked (cor_orders r) (fst x)))"

lemma marked_slot_update:
  assumes "marked pool n" and "length pool = 64" and "pool ! i = Some ord" and "cdo_executed ord \<Longrightarrow> cdo_executed ord'"
  shows "marked (pool[i := Some ord']) n"
proof -
  obtain j b where "j < 64" "n = of_nat j + 1" "pool ! j = Some b" "cdo_executed b"
    using assms(1) by (auto simp: marked_def)
  with assms show ?thesis unfolding marked_def by (intro exI [of _ j]) (cases "i = j", auto)
qed

lemma marked_new: "i < 64 \<Longrightarrow> length pool = 64 \<Longrightarrow> cdo_executed ord \<Longrightarrow> marked (pool[i := Some ord]) (of_nat i + 1)"
  by (auto simp: marked_def)

lemma slot_id_inj: "i < 64 \<Longrightarrow> j < 64 \<Longrightarrow> (of_nat i + 1 :: u64) = of_nat j + 1 \<Longrightarrow> i = j"
  by (auto simp: word_of_nat_eq_iff take_bit_nat_eq_self)

lemma cor_wf_slot:
  assumes "cor_wf r" and "i < 64" and "cor_orders r ! i = Some ord" and "cdo_id ord' = cdo_id ord"
  shows "cor_wf (r\<lparr>cor_orders := (cor_orders r)[i := Some ord']\<rparr>)"
  using assms by (auto simp: cor_wf_def nth_list_update)

lemma cor_wf_counters [simp]:
  "cor_wf (r\<lparr>cor_executions := n\<rparr>) = cor_wf r" "cor_wf (r\<lparr>cor_rejections := n\<rparr>) = cor_wf r"
  "cor_wf (r\<lparr>cor_enabled := b\<rparr>) = cor_wf r"
  by (simp_all add: cor_wf_def)

lemma cor_check_logged:
  assumes inv: "logged (r, log)" and i: "i < 64"
  shows "logged (cor_check ctx i (r, log))"
proof (cases "cor_orders r ! i")
  case None
  with inv show ?thesis by (simp add: cor_check_def)
next
  case (Some ord)
  have wf: "cor_wf r" and len: "length (cor_orders r) = 64" using inv by (auto simp: logged_def cor_wf_def)
  have oid: "cdo_id ord = of_nat i + 1" using wf i Some by (auto simp: cor_wf_def)
  have new: "cdo_id ord \<notin> fst ` set log" if "\<not> cdo_executed ord"
  proof
    assume "cdo_id ord \<in> fst ` set log"
    then obtain j where "j < 64" "cdo_id ord = of_nat j + 1" "\<exists>b. cor_orders r ! j = Some b \<and> cdo_executed b"
      using inv by (auto simp: logged_def marked_def)
    with oid i Some that show False using slot_id_inj [of i j] by auto
  qed
  show ?thesis
    using inv i len Some wf new oid
    by (auto simp: cor_check_def logged_def cor_wf_slot intro: marked_slot_update marked_new)
qed

lemma cor_checks_logged: "logged s \<Longrightarrow> set is \<subseteq> {..<64} \<Longrightarrow> logged (fold (cor_check ctx) is s)"
proof (induction "is" arbitrary: s)
  case (Cons i "is")
  then have "logged (cor_check ctx i s)" using cor_check_logged [of "fst s" "snd s" i ctx] by simp
  with Cons show ?case by simp
qed simp

lemma cor_check_prefix: "cor_check ctx i (r, a @ b) = apsnd (append a) (cor_check ctx i (r, b))"
  by (simp add: cor_check_def split: option.splits)

lemma cor_checks_prefix:
  "fold (cor_check ctx) is (r, a @ b) = apsnd (append a) (fold (cor_check ctx) is (r, b))"
proof (induction "is" arbitrary: r b)
  case (Cons i "is")
  then show ?case by (cases "cor_check ctx i (r, b)") (simp add: cor_check_prefix)
qed simp

lemma evaluate_logged:
  assumes "logged (r, log)"
  shows "logged (router_op (OpEvaluate ctx) (r, log))"
proof (cases "cor_enabled r")
  case True
  have "unat (cor_order_count r) \<le> 64" using assms by (simp add: logged_def cor_wf_def)
  then have "set [0..<unat (cor_order_count r)] \<subseteq> {..<64}" by auto
  from cor_checks_logged [OF assms this, of ctx] True show ?thesis
    using cor_checks_prefix [of ctx "[0..<unat (cor_order_count r)]" r log "[]"]
    by (simp add: cor_evaluate_and_execute_def apsnd_def map_prod_def Let_def split_def)
next
  case False
  with assms show ?thesis by (simp add: cor_evaluate_and_execute_def)
qed

lemma add_logged:
  assumes inv: "logged (r, log)"
  shows "logged (router_op (OpAdd e c x) (r, log))"
proof -
  let ?n = "unat (cor_order_count r)"
  have old: "i < ?n" if "i < 64" "cor_orders r ! i = Some ord" for i ord
    using inv that by (auto simp: logged_def cor_wf_def)
  have "cor_wf (snd (cor_add_order e c x r))" using inv cor_wf_add by (simp add: logged_def)
  moreover have "cor_orders (snd (cor_add_order e c x r)) ! i = Some ord"
    if "i < 64" "cor_orders r ! i = Some ord" for i ord
    using old [OF that] that by (simp add: cor_add_order_def Let_def)
  moreover have "cor_executions (snd (cor_add_order e c x r)) = cor_executions r"
    by (simp add: cor_add_order_def Let_def)
  ultimately show ?thesis using inv by (fastforce simp: logged_def marked_def)
qed

lemma cancel_logged:
  assumes inv: "logged (r, log)"
  shows "logged (router_op (OpCancel i) (r, log))"
proof (cases "i = 0 \<or> 64 < i \<or> cor_orders r ! (unat i - 1) = None")
  case True
  with inv show ?thesis by (auto simp: cor_cancel_order_def)
next
  case False
  then obtain ord where ord: "cor_orders r ! (unat i - 1) = Some ord" by auto
  have i: "unat i - 1 < 64" using False by (auto simp: word_less_nat_alt)
  have "cor_wf r" "length (cor_orders r) = 64" using inv by (auto simp: logged_def cor_wf_def)
  with inv i ord False show ?thesis
    by (auto simp: cor_cancel_order_def logged_def cor_wf_slot intro: marked_slot_update)
qed

lemma router_op_logged: "logged s \<Longrightarrow> logged (router_op op s)"
  by (cases s; cases op)
     (auto simp: evaluate_logged add_logged cancel_logged simp del: router_op.simps(1-3),
      auto simp: logged_def cor_enable_def cor_disable_def)

interpretation router: guarded_system router_op "\<lambda>op s. True" logged
  by unfold_locales (rule router_op_logged)

text \<open>
  C9: No conditional order is executed twice. Through any sequence of additions, evaluations,
  cancellations and switching on and off, the ids of the executed orders are pairwise different, so at
  most sixty-four child orders are ever sent, and the execution counter is their number.
\<close>

theorem executed_at_most_once:
  "case run router_op ops (cor_new, []) of (r, log) \<Rightarrow>
     distinct (map fst log) \<and> length log \<le> 64 \<and> cor_executions r = of_nat (length log)"
proof -
  have "logged (run router_op ops (cor_new, []))"
    by (rule router.run_inv) (simp add: logged_def cor_wf_new, simp add: cor_new_def, simp)
  then show ?thesis
  proof (cases "run router_op ops (cor_new, [])")
    case (Pair r log)
    with \<open>logged _\<close> have inv: "logged (r, log)" by simp
    have "fst ` set log \<subseteq> (\<lambda>i. of_nat i + 1) ` {..<64}" using inv by (fastforce simp: logged_def marked_def)
    then have "card (fst ` set log) \<le> 64" using surj_card_le [of "{..<64::nat}"] by simp
    moreover have "card (fst ` set log) = length log"
      using inv distinct_card [of "map fst log"] by (simp add: logged_def)
    ultimately show ?thesis using inv Pair by (simp add: logged_def)
  qed
qed

text \<open>A full pool refuses every further order, whatever was executed or cancelled in it.\<close>

lemma full_pool_refuses: "64 \<le> cor_order_count r \<Longrightarrow> cor_add_order e c x r = (None, r)"
  by (simp add: cor_add_order_def)

end
