(* ===== verification/Trailing_Stop.thy ===== *)
theory Trailing_Stop
  imports Machine
begin

text \<open>
  The trailing stop (\<open>src/src/execution/trailing_stop.rs\<close>): the stop price of a long or short
  position follows the best price at a distance in basis points or, when it is larger, a distance
  taken from the average true range.

  The source computes the distance in 128 bits and casts it to 64 in one branch only, which does not
  compile; the model casts in both. The time \<open>update_price\<close> reads is the duration from a first
  \<open>Instant::now()\<close> to an earlier argument read after it, which saturates at zero.
\<close>

section \<open>The engine\<close>

record TrailingStopEngine =
  ts_best_price :: u64
  ts_stop_price :: u64
  ts_trailing_distance_bps :: u64
  ts_atr_multiplier :: u64
  ts_current_atr :: u64
  ts_is_long :: bool
  ts_triggered :: bool
  ts_last_update_ns :: u64
  ts_min_update_interval_ns :: u64
  ts_triggered_price :: u64

definition calculate_stop_price :: "u64 \<Rightarrow> u64 \<Rightarrow> u64 \<Rightarrow> bool \<Rightarrow> u64" where
  "calculate_stop_price price trailing_bps atr_value is_long =
     (let fixed_distance = unat price * unat trailing_bps div 10000;
          atr_distance = unat atr_value * 2 div 1000;
          total_distance = of_nat (if 0 < atr_value then max fixed_distance atr_distance else fixed_distance)
      in if is_long then u64_sat_sub price total_distance else u64_sat_add price total_distance)"

definition ts_new :: "u64 \<Rightarrow> u64 \<Rightarrow> u64 \<Rightarrow> bool \<Rightarrow> u64 \<Rightarrow> TrailingStopEngine" where
  "ts_new initial_price trailing_distance_bps atr_multiplier is_long min_update_interval_ms =
     \<lparr>ts_best_price = initial_price,
      ts_stop_price = calculate_stop_price initial_price trailing_distance_bps 0 is_long,
      ts_trailing_distance_bps = trailing_distance_bps, ts_atr_multiplier = atr_multiplier,
      ts_current_atr = 0, ts_is_long = is_long, ts_triggered = False, ts_last_update_ns = 0,
      ts_min_update_interval_ns = min_update_interval_ms * 1000000, ts_triggered_price = 0\<rparr>"

definition ts_crossed :: "bool \<Rightarrow> u64 \<Rightarrow> u64 \<Rightarrow> bool" where
  "ts_crossed is_long stop_price current_price \<longleftrightarrow>
     (if is_long then current_price \<le> stop_price else stop_price \<le> current_price \<and> 0 < stop_price)"

definition ts_check_trigger :: "u64 \<Rightarrow> TrailingStopEngine \<Rightarrow> bool \<times> TrailingStopEngine" where
  "ts_check_trigger current_price s =
     (if ts_triggered s then (True, s)
      else if ts_crossed (ts_is_long s) (ts_stop_price s) current_price
      then (True, s\<lparr>ts_triggered := True, ts_triggered_price := current_price\<rparr>)
      else (False, s))"

text \<open>The stop moves in the favourable direction only.\<close>

definition ts_favourable :: "bool \<Rightarrow> u64 \<Rightarrow> u64 \<Rightarrow> bool" where
  "ts_favourable is_long new current \<longleftrightarrow> (if is_long then current < new else new < current \<and> 0 < new)"

definition ts_update_price_at :: "u64 \<Rightarrow> u64 \<Rightarrow> TrailingStopEngine \<Rightarrow> bool \<times> TrailingStopEngine" where
  "ts_update_price_at now_ns new_price s =
     (if u64_sat_sub now_ns (ts_last_update_ns s) < ts_min_update_interval_ns s
      then (False, snd (ts_check_trigger new_price s))
      else if ts_favourable (ts_is_long s) new_price (ts_best_price s)
      then
        let s' = s\<lparr>ts_best_price := new_price\<rparr>;
            new_stop = calculate_stop_price new_price (ts_trailing_distance_bps s) (ts_current_atr s) (ts_is_long s)
        in if ts_favourable (ts_is_long s) new_stop (ts_stop_price s)
           then (True, s'\<lparr>ts_stop_price := new_stop, ts_last_update_ns := now_ns\<rparr>)
           else (False, snd (ts_check_trigger new_price s'))
      else (False, snd (ts_check_trigger new_price s)))"

definition ts_now_ns :: u64 where
  "ts_now_ns = 0"

definition ts_update_price :: "u64 \<Rightarrow> TrailingStopEngine \<Rightarrow> bool \<times> TrailingStopEngine" where
  "ts_update_price new_price s = ts_update_price_at ts_now_ns new_price s"

definition ts_update_atr :: "u64 \<Rightarrow> TrailingStopEngine \<Rightarrow> TrailingStopEngine" where
  "ts_update_atr new_atr s =
     (let s' = s\<lparr>ts_current_atr := new_atr\<rparr>;
          new_stop = calculate_stop_price (ts_best_price s) (ts_trailing_distance_bps s) new_atr (ts_is_long s)
      in if ts_favourable (ts_is_long s) new_stop (ts_stop_price s) then s'\<lparr>ts_stop_price := new_stop\<rparr> else s')"

definition ts_update_trailing_distance :: "u64 \<Rightarrow> TrailingStopEngine \<Rightarrow> TrailingStopEngine" where
  "ts_update_trailing_distance new_distance_bps s =
     s\<lparr>ts_trailing_distance_bps := new_distance_bps,
       ts_stop_price :=
         calculate_stop_price (ts_best_price s) new_distance_bps (ts_current_atr s) (ts_is_long s)\<rparr>"

definition ts_reset :: "u64 \<Rightarrow> TrailingStopEngine \<Rightarrow> TrailingStopEngine" where
  "ts_reset new_initial_price s =
     s\<lparr>ts_best_price := new_initial_price,
       ts_stop_price := calculate_stop_price new_initial_price (ts_trailing_distance_bps s)
                          (ts_current_atr s) (ts_is_long s),
       ts_triggered := False, ts_triggered_price := 0, ts_last_update_ns := 0\<rparr>"

section \<open>The ratchet\<close>

datatype StopOp = StopPrice u64 | StopAtr u64

fun stop_op :: "StopOp \<Rightarrow> TrailingStopEngine \<Rightarrow> TrailingStopEngine" where
  "stop_op (StopPrice p) s = snd (ts_update_price p s)"
| "stop_op (StopAtr a) s = ts_update_atr a s"

text \<open>At least as tight, with the position and the trigger kept.\<close>

definition tighter :: "TrailingStopEngine \<Rightarrow> TrailingStopEngine \<Rightarrow> bool" where
  "tighter s s' \<longleftrightarrow>
     ts_is_long s' = ts_is_long s \<and>
     (if ts_is_long s then ts_stop_price s \<le> ts_stop_price s' else ts_stop_price s' \<le> ts_stop_price s) \<and>
     (ts_triggered s \<longrightarrow> ts_triggered s' \<and> ts_triggered_price s' = ts_triggered_price s)"

lemma tighter_refl: "tighter s s"
  by (simp add: tighter_def)

lemma tighter_trans: "tighter s t \<Longrightarrow> tighter t u \<Longrightarrow> tighter s u"
  by (auto simp: tighter_def split: if_splits)

lemma tighter_check_trigger: "tighter s t \<Longrightarrow> tighter s (snd (ts_check_trigger p t))"
  by (simp add: tighter_def ts_check_trigger_def)

lemma tighter_update_price: "tighter s (snd (ts_update_price_at now p s))"
  unfolding ts_update_price_at_def Let_def
  by (auto intro!: tighter_check_trigger simp: tighter_refl) (auto simp: tighter_def ts_favourable_def split: if_splits)

lemma tighter_stop_op: "tighter s (stop_op op s)"
  by (cases op)
     (simp_all add: tighter_update_price ts_update_price_def,
      auto simp: ts_update_atr_def Let_def tighter_def ts_favourable_def)

interpretation trailing: guarded_system stop_op "\<lambda>op s. True" "tighter s" for s
  by unfold_locales (rule tighter_trans, assumption, rule tighter_stop_op)

text \<open>
  C31: A trailing stop is a ratchet. Through any sequence of price and range updates the stop of a long
  position never falls and that of a short position never rises, the position keeps its direction, and a
  stop that has been triggered stays triggered at the price that triggered it.
\<close>

theorem stop_never_loosens:
  "let s' = run stop_op ops s
   in ts_is_long s' = ts_is_long s \<and>
      (if ts_is_long s then ts_stop_price s \<le> ts_stop_price s' else ts_stop_price s' \<le> ts_stop_price s) \<and>
      (ts_triggered s \<longrightarrow> ts_triggered s' \<and> ts_triggered_price s' = ts_triggered_price s)"
  using trailing.run_inv [of s s ops] tighter_refl [of s] by (simp add: tighter_def Let_def)

theorem stop_never_loosens_witness:
  "50000 \<le> ts_stop_price (run stop_op [StopPrice 60000, StopAtr 7, StopPrice 10] (ts_new 50000 0 0 True 0))"
  using stop_never_loosens [of "[StopPrice 60000, StopAtr 7, StopPrice 10]" "ts_new 50000 0 0 True 0"]
  by (simp add: Let_def ts_new_def calculate_stop_price_def u64_sat_sub_def del: run_simps)

text \<open>Changing the distance is no part of the ratchet: it can move a stop away from the price.\<close>

lemma wider_distance_loosens:
  "ts_stop_price (ts_new 10000 50 0 True 0) = 9950"
  "ts_stop_price (ts_update_trailing_distance 500 (ts_new 10000 50 0 True 0)) = 9500"
  by (simp_all add: ts_new_def ts_update_trailing_distance_def calculate_stop_price_def u64_sat_sub_def)

section \<open>A stop with an update interval does not trail\<close>

definition fixed_stop :: "TrailingStopEngine \<Rightarrow> u64 list \<Rightarrow> TrailingStopEngine" where
  "fixed_stop s ps = (case find (ts_crossed (ts_is_long s) (ts_stop_price s)) ps of
     None \<Rightarrow> s | Some p \<Rightarrow> if ts_triggered s then s else s\<lparr>ts_triggered := True, ts_triggered_price := p\<rparr>)"

lemma update_price_waits:
  "0 < ts_min_update_interval_ns s \<Longrightarrow> ts_update_price p s = (False, snd (ts_check_trigger p s))"
  by (simp add: ts_update_price_def ts_update_price_at_def ts_now_ns_def u64_sat_sub_def word_gt_0)

text \<open>
  With a positive update interval the stop never trails. Whatever prices arrive, the engine is a
  fixed stop: best price and stop price stay as they were, no update is reported, and all that happens is
  that the first price to reach the stop triggers it and is recorded.
\<close>

lemma interval_freezes_stop:
  assumes "0 < ts_min_update_interval_ns s"
  shows "run stop_op (map StopPrice ps) s = fixed_stop s ps \<and>
    ts_stop_price (run stop_op (map StopPrice ps) s) = ts_stop_price s \<and>
    ts_best_price (run stop_op (map StopPrice ps) s) = ts_best_price s"
  using assms
proof (induction ps arbitrary: s)
  case Nil
  then show ?case by (simp add: fixed_stop_def)
next
  case (Cons p ps)
  have "0 < ts_min_update_interval_ns (snd (ts_check_trigger p s))"
    using Cons.prems by (simp add: ts_check_trigger_def)
  from Cons.IH [OF this] show ?case
    using update_price_waits [OF Cons.prems, of p]
    by (auto simp: ts_check_trigger_def fixed_stop_def split: option.splits)
qed

section \<open>A stop without an interval\<close>

lemma distance_le: "b \<le> 10000 \<Longrightarrow> p * b div 10000 \<le> (p :: nat)"
  by (metis div_le_mono div_mult_self_is_m mult_le_mono2 zero_less_numeral)

lemma distance_mono:
  assumes "b \<le> 10000" and "p \<le> (q :: nat)"
  shows "p - p * b div 10000 \<le> q - q * b div 10000"
proof -
  have "q * b \<le> p * b + (q - p) * 10000"
    using assms by (metis add_mult_distrib le_add_diff_inverse mult_le_mono2 nat_add_left_cancel_le)
  then have "q * b div 10000 \<le> (p * b + (q - p) * 10000) div 10000" by (rule div_le_mono)
  also have "\<dots> = p * b div 10000 + (q - p)" by simp
  finally show ?thesis using distance_le [OF assms(1), of p] assms(2) by linarith
qed

lemma unat_stop_price_long:
  assumes "b \<le> 10000"
  shows "unat (calculate_stop_price p b 0 True) = unat p - unat p * unat b div 10000"
proof -
  have "unat b \<le> 10000" using assms by (simp add: word_le_nat_alt)
  then have le: "unat p * unat b div 10000 \<le> unat p" by (rule distance_le)
  then have "unat (of_nat (unat p * unat b div 10000) :: u64) = unat p * unat b div 10000"
    using unat_u64_less [of p] by (simp add: unat_of_nat)
  with le show ?thesis
    by (simp add: calculate_stop_price_def u64_sat_sub_def word_less_nat_alt unat_sub_if_size)
qed

lemma stop_price_mono:
  assumes "b \<le> 10000" and "p \<le> q"
  shows "calculate_stop_price p b 0 True \<le> calculate_stop_price q b 0 True"
  using assms distance_mono [of "unat b" "unat p" "unat q"]
  by (simp add: word_le_nat_alt unat_stop_price_long)

text \<open>What the engine keeps when nothing delays its updates.\<close>

definition trailing_state :: "u64 \<Rightarrow> u64 \<Rightarrow> TrailingStopEngine \<Rightarrow> bool" where
  "trailing_state b p s \<longleftrightarrow>
     ts_is_long s \<and> ts_min_update_interval_ns s = 0 \<and> ts_current_atr s = 0 \<and> ts_trailing_distance_bps s = b \<and>
     ts_best_price s = p \<and> ts_stop_price s = calculate_stop_price p b 0 True"

lemma trailing_state_price:
  assumes b: "b \<le> 10000" and inv: "trailing_state b p s"
  shows "trailing_state b (max p q) (snd (ts_update_price q s))"
proof (cases "p < q")
  case True
  then have "calculate_stop_price p b 0 True \<le> calculate_stop_price q b 0 True"
    using b by (simp add: stop_price_mono)
  with True inv show ?thesis
    by (auto simp: trailing_state_def ts_update_price_def ts_update_price_at_def ts_check_trigger_def
        ts_favourable_def Let_def max_def)
next
  case False
  with inv show ?thesis
    by (auto simp: trailing_state_def ts_update_price_def ts_update_price_at_def ts_check_trigger_def
        ts_favourable_def Let_def max_def)
qed

text \<open>
  Without an update interval a long stop follows the highest price: after any sequence of prices the
  best price is the maximum of the initial price and the prices seen, and the stop is at the configured
  distance, at most the whole price, below that maximum.
\<close>

lemma stop_follows_maximum:
  assumes "b \<le> 10000"
  shows "let s = run stop_op (map StopPrice ps) (ts_new p\<^sub>0 b m True 0)
    in ts_best_price s = fold max ps p\<^sub>0 \<and>
       unat (ts_stop_price s) = unat (fold max ps p\<^sub>0) - unat (fold max ps p\<^sub>0) * unat b div 10000"
proof -
  have "trailing_state b (fold max ps p) (run stop_op (map StopPrice ps) s)" if "trailing_state b p s" for p s
    using that
  proof (induction ps arbitrary: p s)
    case (Cons q ps)
    then show ?case using trailing_state_price [OF assms Cons.prems, of q] by (simp add: max.commute)
  qed simp
  moreover have "trailing_state b p\<^sub>0 (ts_new p\<^sub>0 b m True 0)" by (simp add: trailing_state_def ts_new_def)
  ultimately have "trailing_state b (fold max ps p\<^sub>0) (run stop_op (map StopPrice ps) (ts_new p\<^sub>0 b m True 0))" by blast
  then show ?thesis using assms by (simp add: trailing_state_def unat_stop_price_long Let_def)
qed

end
