(* ===== verification/Pegged_Order.thy ===== *)
theory Pegged_Order
  imports Machine
begin

text \<open>
  Pegged orders (\<open>src/src/execution/pegged_order.rs\<close>): the price of the order is a reference price of
  the market plus an offset, rounded down to the tick and limited to a maximal distance on the
  aggressive side. The signed offset is the word of its two's complement.
\<close>

section \<open>The engine\<close>

datatype PegType = PegMid | PegPrimary | PegSecondary | PegFixedOffset

datatype PegSide = PegBuy | PegSell

record PeggedOrderConfig =
  pc_peg_type :: PegType
  pc_side :: PegSide
  pc_offset_micros :: i64
  pc_max_offset_micros :: u64
  pc_tick_size_micros :: u64
  pc_maintain_queue_priority :: bool

record PeggedOrderEngine =
  pe_mid_price :: u64
  pe_best_bid :: u64
  pe_best_ask :: u64
  pe_peg_price :: u64
  pe_last_quoted_price :: u64
  pe_quantity :: u64
  pe_requote_count :: u64
  pe_is_active :: bool
  pe_config :: PeggedOrderConfig
  pe_price_version :: u64

definition peg_reference :: "u64 \<Rightarrow> u64 \<Rightarrow> u64 \<Rightarrow> PeggedOrderConfig \<Rightarrow> u64" where
  "peg_reference mid bid ask config =
     (case pc_peg_type config of
        PegMid \<Rightarrow> mid
      | PegPrimary \<Rightarrow> (case pc_side config of PegBuy \<Rightarrow> bid | PegSell \<Rightarrow> ask)
      | PegSecondary \<Rightarrow> (case pc_side config of PegBuy \<Rightarrow> ask | PegSell \<Rightarrow> bid)
      | PegFixedOffset \<Rightarrow> mid)"

definition calculate_peg_price :: "u64 \<Rightarrow> u64 \<Rightarrow> u64 \<Rightarrow> PeggedOrderConfig \<Rightarrow> u64" where
  "calculate_peg_price mid bid ask config =
     (let reference = peg_reference mid bid ask config;
          offset = pc_offset_micros config;
          adjusted = (if 0 \<le> sint offset then u64_sat_add reference offset
                      else u64_sat_sub reference (- offset));
          tick = pc_tick_size_micros config
      in if 0 < tick then adjusted div tick * tick else adjusted)"

definition pe_new :: "PeggedOrderConfig \<Rightarrow> u64 \<Rightarrow> u64 \<Rightarrow> PeggedOrderEngine" where
  "pe_new config initial_mid quantity =
     (let initial_price = calculate_peg_price initial_mid initial_mid initial_mid config
      in \<lparr>pe_mid_price = initial_mid, pe_best_bid = initial_mid, pe_best_ask = initial_mid,
          pe_peg_price = initial_price, pe_last_quoted_price = initial_price, pe_quantity = quantity,
          pe_requote_count = 0, pe_is_active = True, pe_config = config, pe_price_version = 1\<rparr>)"

definition apply_max_offset_constraint :: "PeggedOrderConfig \<Rightarrow> u64 \<Rightarrow> u64 \<Rightarrow> u64" where
  "apply_max_offset_constraint config peg_price reference =
     (case pc_side config of
        PegBuy \<Rightarrow> min peg_price (u64_sat_add reference (pc_max_offset_micros config))
      | PegSell \<Rightarrow> max peg_price (u64_sat_sub reference (pc_max_offset_micros config)))"

text \<open>The mid price the engine takes, if it takes the update at all. The sum of two prices wraps.\<close>

definition market_mid :: "u64 \<Rightarrow> u64 \<Rightarrow> u64 option" where
  "market_mid bid ask =
     (if ask \<le> bid \<and> 0 < ask then None
      else if 0 < bid \<and> 0 < ask then Some ((bid + ask) div 2)
      else if 0 < bid then Some bid
      else if 0 < ask then Some ask
      else None)"

definition pe_update_market :: "u64 \<Rightarrow> u64 \<Rightarrow> PeggedOrderEngine \<Rightarrow> bool \<times> PeggedOrderEngine" where
  "pe_update_market bid ask e =
     (if \<not> pe_is_active e then (False, e)
      else case market_mid bid ask of
        None \<Rightarrow> (False, e)
      | Some mid \<Rightarrow>
          let e = e\<lparr>pe_best_bid := bid, pe_best_ask := ask, pe_mid_price := mid\<rparr>;
              new_peg = calculate_peg_price mid bid ask (pe_config e);
              current_ref = peg_reference mid bid ask (pe_config e);
              constrained_peg = apply_max_offset_constraint (pe_config e) new_peg current_ref
          in if constrained_peg \<noteq> pe_peg_price e
             then
               let e = e\<lparr>pe_peg_price := constrained_peg, pe_price_version := pe_price_version e + 1\<rparr>
               in if constrained_peg \<noteq> pe_last_quoted_price e
                  then (True, e\<lparr>pe_requote_count := pe_requote_count e + 1\<rparr>)
                  else (False, e)
             else (False, e))"

definition pe_confirm_quote :: "u64 \<Rightarrow> PeggedOrderEngine \<Rightarrow> PeggedOrderEngine" where
  "pe_confirm_quote quoted_price e = e\<lparr>pe_last_quoted_price := quoted_price\<rparr>"

definition pe_activate :: "PeggedOrderEngine \<Rightarrow> PeggedOrderEngine" where
  "pe_activate e = e\<lparr>pe_is_active := True\<rparr>"

definition pe_deactivate :: "PeggedOrderEngine \<Rightarrow> PeggedOrderEngine" where
  "pe_deactivate e = e\<lparr>pe_is_active := False\<rparr>"

definition pe_update_offset :: "i64 \<Rightarrow> PeggedOrderEngine \<Rightarrow> PeggedOrderEngine" where
  "pe_update_offset new_offset_micros e =
     snd (pe_update_market (pe_best_bid e) (pe_best_ask e)
       (e\<lparr>pe_config := (pe_config e)\<lparr>pc_offset_micros := new_offset_micros\<rparr>\<rparr>))"

definition pe_calculate_queue_score :: "PeggedOrderEngine \<Rightarrow> u8" where
  "pe_calculate_queue_score e =
     (let peg = pe_peg_price e; bid = pe_best_bid e; ask = pe_best_ask e
      in if bid = 0 \<or> ask = 0 then 50
         else case pc_side (pe_config e) of
           PegBuy \<Rightarrow>
             if peg \<le> bid then 100
             else if ask \<le> peg then 0
             else
               let spread = ask - bid; distance_from_bid = peg - bid
               in if 0 < spread then ucast (100 - distance_from_bid * 100 div spread) else 50
         | PegSell \<Rightarrow>
             if ask \<le> peg then 100
             else if peg \<le> bid then 0
             else
               let spread = ask - bid; distance_from_ask = ask - peg
               in if 0 < spread then ucast (distance_from_ask * 100 div spread) else 50)"

definition pe_check_adverse_fill_risk :: "PeggedOrderEngine \<Rightarrow> bool" where
  "pe_check_adverse_fill_risk e =
     (let threshold = pe_mid_price e div 200
      in case pc_side (pe_config e) of
           PegBuy \<Rightarrow> threshold < u64_sat_sub (pe_peg_price e) (pe_mid_price e)
         | PegSell \<Rightarrow> threshold < u64_sat_sub (pe_mid_price e) (pe_peg_price e))"

section \<open>The quoted price\<close>

text \<open>The price an accepted update leads to.\<close>

definition peg_target :: "PeggedOrderConfig \<Rightarrow> u64 \<Rightarrow> u64 \<Rightarrow> u64 \<Rightarrow> u64" where
  "peg_target config mid bid ask =
     apply_max_offset_constraint config (calculate_peg_price mid bid ask config) (peg_reference mid bid ask config)"

text \<open>
  An update with a usable book sets the peg price to the target for exactly that book; it asks for a new
  quote just when that price is new and is not what was last quoted. A crossed or empty book, or an
  inactive engine, changes nothing.
\<close>

lemma pe_update_market_eq:
  "pe_update_market bid ask e =
    (if pe_is_active e \<and> market_mid bid ask \<noteq> None
     then
       let mid = the (market_mid bid ask);
           peg = peg_target (pe_config e) mid bid ask;
           moved = (peg \<noteq> pe_peg_price e);
           requote = (moved \<and> peg \<noteq> pe_last_quoted_price e)
       in (requote, e\<lparr>pe_best_bid := bid, pe_best_ask := ask, pe_mid_price := mid, pe_peg_price := peg,
             pe_price_version := pe_price_version e + (if moved then 1 else 0),
             pe_requote_count := pe_requote_count e + (if requote then 1 else 0)\<rparr>)
     else (False, e))"
  by (cases "market_mid bid ask")
     (auto simp: pe_update_market_def peg_target_def Let_def)

lemma accepted_update_pegs:
  "pe_is_active e \<Longrightarrow> market_mid bid ask = Some mid \<Longrightarrow>
   pe_peg_price (snd (pe_update_market bid ask e)) = peg_target (pe_config e) mid bid ask"
  by (simp add: pe_update_market_eq Let_def)

lemma floor_to_tick_le: "a div t * t \<le> (a :: u64)"
proof -
  have "unat (a div t * t) \<le> unat (a div t) * unat t" by (simp add: unat_word_ariths)
  also have "\<dots> \<le> unat a" by (simp add: unat_div div_times_less_eq_dividend)
  finally show ?thesis by (simp add: word_le_nat_alt)
qed

lemma calculate_peg_price_le:
  "calculate_peg_price mid bid ask c \<le>
     (if 0 \<le> sint (pc_offset_micros c) then u64_sat_add (peg_reference mid bid ask c) (pc_offset_micros c)
      else u64_sat_sub (peg_reference mid bid ask c) (- pc_offset_micros c))"
  by (simp add: calculate_peg_price_def Let_def floor_to_tick_le)

lemma u64_sat_sub_le: "u64_sat_sub a b \<le> a"
  by (auto simp: u64_sat_sub_def word_le_nat_alt word_less_nat_alt unat_sub_if_size)

lemma uint_sat_add: "uint (u64_sat_add a b) = min (2 ^ 64 - 1) (uint a + uint b)"
proof -
  have "int (unat (u64_sat_add a b)) = int (min (2 ^ 64 - 1) (unat a + unat b))" by (simp only: unat_u64_sat_add) simp
  then show ?thesis by (simp add: of_nat_min)
qed

lemma uint_sat_sub: "uint (u64_sat_sub a b) = max 0 (uint a - uint b)"
proof -
  have "int (unat (u64_sat_sub a b)) = int (unat a - unat b)" by (simp only: unat_u64_sat_sub)
  also have "\<dots> = max 0 (int (unat a) - int (unat b))" by linarith
  finally show ?thesis by simp
qed

lemma floor_to_tick_gt: "0 < t \<Longrightarrow> uint a < uint (a div t * t) + uint t" for a :: u64
proof -
  assume t: "0 < t"
  then have t': "0 < unat t" by (simp add: word_less_nat_alt)
  have "unat a div unat t * unat t < 2 ^ 64"
    using le_less_trans [OF div_times_less_eq_dividend unat_u64_less [of a]] by simp
  then have "unat (a div t * t) = unat a div unat t * unat t"
    by (subst unat_mult_u64) (simp_all add: unat_div)
  moreover have "unat a < unat a div unat t * unat t + unat t"
    using t' by (metis add.commute add_less_cancel_left div_mult_mod_eq mod_less_divisor)
  ultimately have "int (unat a) < int (unat (a div t * t) + unat t)" by (simp only: of_nat_less_iff)
  then show ?thesis by simp
qed

text \<open>The price wanted: the reference and the offset, within the range of prices; and the limit on it.\<close>

definition wanted_price :: "u64 \<Rightarrow> i64 \<Rightarrow> int" where
  "wanted_price ref offset = max 0 (min (2 ^ 64 - 1) (uint ref + sint offset))"

definition limited_price :: "PeggedOrderConfig \<Rightarrow> u64 \<Rightarrow> int" where
  "limited_price c ref =
     (case pc_side c of
        PegBuy \<Rightarrow> min (wanted_price ref (pc_offset_micros c)) (uint ref + uint (pc_max_offset_micros c))
      | PegSell \<Rightarrow> max (wanted_price ref (pc_offset_micros c)) (uint ref - uint (pc_max_offset_micros c)))"

lemma adjusted_is_wanted:
  "uint (if 0 \<le> sint k then u64_sat_add ref k else u64_sat_sub ref (- k)) = wanted_price ref k"
proof (cases "0 \<le> sint k")
  case True
  then have "uint k = sint k" using unat_i64_unsigned_abs [of k] by (simp add: i64_unsigned_abs_def)
  with True show ?thesis by (simp add: wanted_price_def uint_sat_add max_def)
next
  case False
  then have "uint (- k) = - sint k" using unat_i64_unsigned_abs [of k] by (simp add: i64_unsigned_abs_def)
  with False uint_lt2p [of ref] show ?thesis
    by (simp add: wanted_price_def uint_sat_sub max_def)
qed

lemma calculate_peg_price_near:
  fixes c mid bid ask
  defines "want \<equiv> wanted_price (peg_reference mid bid ask c) (pc_offset_micros c)"
  shows "uint (calculate_peg_price mid bid ask c) \<le> want"
    and "want < uint (calculate_peg_price mid bid ask c) + max 1 (uint (pc_tick_size_micros c))"
proof -
  let ?t = "pc_tick_size_micros c"
  define a where "a = (if 0 \<le> sint (pc_offset_micros c) then u64_sat_add (peg_reference mid bid ask c) (pc_offset_micros c)
      else u64_sat_sub (peg_reference mid bid ask c) (- pc_offset_micros c))"
  have want: "want = uint a" unfolding want_def a_def by (rule adjusted_is_wanted [symmetric])
  have peg: "calculate_peg_price mid bid ask c = (if 0 < ?t then a div ?t * ?t else a)"
    by (simp add: calculate_peg_price_def a_def Let_def)
  have "uint (a div ?t * ?t) \<le> uint a" using floor_to_tick_le [of a ?t] by (simp add: word_le_def)
  then show "uint (calculate_peg_price mid bid ask c) \<le> want" unfolding peg want by simp
  have "uint a < uint (a div ?t * ?t) + max 1 (uint ?t)" if "0 < ?t" using floor_to_tick_gt [OF that, of a] by linarith
  moreover have "(0 :: int) < max 1 x" for x by simp
  ultimately show "want < uint (calculate_peg_price mid bid ask c) + max 1 (uint ?t)" unfolding peg want by simp
qed

lemma peg_target_near:
  fixes c mid bid ask
  defines "ref \<equiv> peg_reference mid bid ask c"
  shows "uint (peg_target c mid bid ask) \<le> limited_price c ref"
    and "limited_price c ref < uint (peg_target c mid bid ask) + max 1 (uint (pc_tick_size_micros c))"
proof -
  let ?p = "calculate_peg_price mid bid ask c" and ?m = "pc_max_offset_micros c"
  note near = calculate_peg_price_near [of mid bid ask c, folded ref_def]
  have min: "uint (min a b) = min (uint a) (uint b)" for a b :: u64
    by (auto simp: min_def word_le_def)
  have max: "uint (max a b) = max (uint a) (uint b)" for a b :: u64
    by (auto simp: max_def word_le_def)
  have range: "0 \<le> wanted_price ref (pc_offset_micros c)" "wanted_price ref (pc_offset_micros c) \<le> 2 ^ 64 - 1"
    by (auto simp: wanted_price_def)
  have target: "uint (peg_target c mid bid ask) =
      (case pc_side c of PegBuy \<Rightarrow> min (uint ?p) (min (2 ^ 64 - 1) (uint ref + uint ?m))
       | PegSell \<Rightarrow> max (uint ?p) (max 0 (uint ref - uint ?m)))"
    by (simp add: peg_target_def apply_max_offset_constraint_def min max ref_def [symmetric] uint_sat_add uint_sat_sub
        split: PegSide.split)
  show "uint (peg_target c mid bid ask) \<le> limited_price c ref"
    unfolding target limited_price_def using near range by (cases "pc_side c") auto
  show "limited_price c ref < uint (peg_target c mid bid ask) + max 1 (uint (pc_tick_size_micros c))"
    unfolding target limited_price_def using near range by (cases "pc_side c") auto
qed

text \<open>
  C33: A pegged order is quoted where it is meant to be. After every accepted update the quoted price is at
  most one tick below, and never above, its reference plus its offset, clamped to the range of prices and
  limited towards the market: a buy at the maximum offset above the reference, a sell at the maximum offset
  below it. In particular a buy is at most the maximum offset above its reference, and a sell, rounding
  included, at most the maximum offset below it; away from the market there is no limit. An update that is
  not accepted (the engine is inactive, or the book is crossed or empty) leaves everything as it was. This
  holds for every offset, tick size and market.
\<close>

theorem peg_tracks_target:
  "case (if pe_is_active e then market_mid bid ask else None) of
     None \<Rightarrow> pe_update_market bid ask e = (False, e)
   | Some mid \<Rightarrow>
       let c = pe_config e; ref = peg_reference mid bid ask c;
           peg = uint (pe_peg_price (snd (pe_update_market bid ask e)))
       in peg \<le> limited_price c ref \<and>
          limited_price c ref < peg + max 1 (uint (pc_tick_size_micros c)) \<and>
          (case pc_side c of
             PegBuy \<Rightarrow> peg \<le> uint ref + uint (pc_max_offset_micros c)
           | PegSell \<Rightarrow> uint ref - uint (pc_max_offset_micros c) \<le> peg)"
proof (cases "if pe_is_active e then market_mid bid ask else None")
  case None
  then show ?thesis by (auto simp: pe_update_market_eq)
next
  case (Some mid)
  then have acc: "pe_is_active e" "market_mid bid ask = Some mid" by (auto split: if_splits)
  let ?c = "pe_config e"
  have "uint r - uint m \<le> uint (max a (u64_sat_sub r m))" for a r m
  proof -
    have "uint r - uint m \<le> uint (u64_sat_sub r m)" by (simp add: uint_sat_sub)
    also have "\<dots> \<le> uint (max a (u64_sat_sub r m))" by (simp add: word_le_def [symmetric])
    finally show ?thesis .
  qed
  then have "uint (peg_reference mid bid ask ?c) - uint (pc_max_offset_micros ?c) \<le> uint (peg_target ?c mid bid ask)"
    if "pc_side ?c = PegSell" using that by (simp add: peg_target_def apply_max_offset_constraint_def)
  moreover have "uint (peg_target ?c mid bid ask) \<le> uint (peg_reference mid bid ask ?c) + uint (pc_max_offset_micros ?c)"
    if "pc_side ?c = PegBuy" using peg_target_near(1) [where c = ?c and mid = mid and bid = bid and ask = ask] that
    by (simp add: limited_price_def)
  ultimately show ?thesis
    using peg_target_near [where c = ?c and mid = mid and bid = bid and ask = ask]
    by (simp add: Some accepted_update_pegs [OF acc] Let_def split: PegSide.split)
qed

definition peg_example :: PeggedOrderEngine where
  "peg_example = pe_new \<lparr>pc_peg_type = PegMid, pc_side = PegBuy, pc_offset_micros = 500, pc_max_offset_micros = 150,
     pc_tick_size_micros = 100, pc_maintain_queue_priority = True\<rparr> 50000 10"

text \<open>The limit is applied after the rounding, so the limited price need not be on a tick.\<close>

lemma limited_peg_off_tick: "pe_peg_price (snd (pe_update_market 49000 51000 peg_example)) = 50150"
  by (simp add: peg_example_def pe_new_def Let_def market_mid_def peg_reference_def u64_sat_add_def
      pe_update_market_def calculate_peg_price_def apply_max_offset_constraint_def min_def)

section \<open>The queue score\<close>

lemma unat_share_le:
  assumes "d \<le> s"
  shows "unat (d * 100 div s :: u64) \<le> 100"
proof (cases "s = 0")
  case True
  with assms show ?thesis by simp
next
  case False
  then have pos: "0 < unat s" by (simp add: unat_gt_0)
  have "unat (d * 100) \<le> unat d * 100" by (simp add: unat_word_ariths)
  also have "\<dots> \<le> unat s * 100" using assms by (simp add: word_le_nat_alt)
  finally have "unat (d * 100) div unat s \<le> unat s * 100 div unat s" by (rule div_le_mono)
  then show ?thesis using pos by (simp add: unat_div)
qed

lemma hundred_minus_share:
  assumes "d \<le> s"
  shows "unat (ucast (100 - d * 100 div s :: u64) :: u8) = 100 - unat (d * 100 div s)"
    and "unat (ucast (d * 100 div s :: u64) :: u8) = unat (d * 100 div s)"
  using unat_share_le [OF assms]
  by (simp_all add: unsigned_ucast_eq word_le_nat_alt unat_sub_if_size take_bit_nat_eq_self)

text \<open>
  The queue score is a percentage: it is at most one hundred for every book, side and peg price, also
  where the product of the distance and one hundred wraps around in 64 bits.
\<close>

lemma queue_score_percentage: "pe_calculate_queue_score e \<le> 100"
proof -
  have "pe_peg_price e - pe_best_bid e \<le> pe_best_ask e - pe_best_bid e"
    if "pe_best_bid e < pe_peg_price e" "pe_peg_price e < pe_best_ask e"
    using that by (simp add: word_le_nat_alt word_less_nat_alt unat_sub_if_size)
  moreover have "pe_best_ask e - pe_peg_price e \<le> pe_best_ask e - pe_best_bid e"
    if "pe_best_bid e < pe_peg_price e" "pe_peg_price e < pe_best_ask e"
    using that by (simp add: word_le_nat_alt word_less_nat_alt unat_sub_if_size)
  ultimately show ?thesis
    using unat_share_le hundred_minus_share
    by (auto simp: pe_calculate_queue_score_def Let_def word_le_nat_alt not_le word_less_nat_alt
        simp del: left_diff_distrib_numeral split: PegSide.splits)
qed

text \<open>
  Inside the spread the score of a sell falls towards the ask, and only at the ask it jumps to one
  hundred: the side-specific scores point the same way for both sides.
\<close>

lemma sell_score_inverted:
  assumes "pc_side (pe_config e) = PegSell" and "pe_best_bid e = 1000" and "pe_best_ask e = 1100"
  shows "pe_calculate_queue_score (e\<lparr>pe_peg_price := 1010\<rparr>) = 90"
    and "pe_calculate_queue_score (e\<lparr>pe_peg_price := 1090\<rparr>) = 10"
    and "pe_calculate_queue_score (e\<lparr>pe_peg_price := 1100\<rparr>) = 100"
  using assms by (simp_all add: pe_calculate_queue_score_def Let_def)

text \<open>A positive offset raises the price of a sell too, which makes it more passive.\<close>

lemma positive_offset_raises_sell:
  "calculate_peg_price 1000 990 1010
     \<lparr>pc_peg_type = PegPrimary, pc_side = PegSell, pc_offset_micros = 5, pc_max_offset_micros = 9,
      pc_tick_size_micros = 1, pc_maintain_queue_priority = True\<rparr> = 1015"
  by (simp add: calculate_peg_price_def peg_reference_def u64_sat_add_def)

text \<open>An offset set while the order is inactive takes effect with the next market update only.\<close>

lemma inactive_offset_deferred:
  "\<not> pe_is_active e \<Longrightarrow> pe_peg_price (pe_update_offset off e) = pe_peg_price e"
  by (simp add: pe_update_offset_def pe_update_market_def)

end
