(* ===== verification/Bit_Stream.thy ===== *)
theory Bit_Stream
  imports Bytes
begin

text \<open>
  Bit streams of the tick database (\<open>src/src/tickdb/compression.rs\<close> and
  \<open>src/src/tickdb/xor_encoding.rs\<close>): two bit writers, a bit reader, and the counts of leading and
  trailing zeros. The two Gorilla compressors hold a buffer and a bit position and have the same
  \<open>write_bit\<close>, \<open>write_bits\<close> and padding, which are modelled once here; \<open>BitWriter\<close> of the block
  compressor collects a byte before it stores it.

  The abstract stream is the list of the bits written, the first one first. Both writers append to
  it, so they produce the same bytes, and the reader takes from its front.
\<close>

unbundle bit_operations_syntax

section \<open>Counting zeros\<close>

definition u64_leading_zeros :: "u64 \<Rightarrow> nat" where
  "u64_leading_zeros x = length (takeWhile (\<lambda>k. \<not> bit x k) (rev [0..<64]))"

definition u64_trailing_zeros :: "u64 \<Rightarrow> nat" where
  "u64_trailing_zeros x = length (takeWhile (\<lambda>k. \<not> bit x k) [0..<64])"

lemma bit_above: "unat x < 2 ^ n \<Longrightarrow> n \<le> k \<Longrightarrow> \<not> bit x k"
proof -
  assume "unat x < 2 ^ n" "n \<le> k"
  then have "unat x < 2 ^ k" by (meson less_le_trans one_le_numeral power_increasing)
  then have "\<not> bit (unat x) k" by (simp add: bit_iff_odd)
  then show "\<not> bit x k" by (metis bit_imp_le_length bit_unsigned_iff possible_bit_nat)
qed

lemma leading_zeros_ge:
  assumes "\<And>k. 64 - n \<le> k \<Longrightarrow> \<not> bit x k" and "n \<le> 64"
  shows "n \<le> u64_leading_zeros x"
proof -
  have "rev [0..<64] = rev [64 - n..<64] @ rev [0..<64 - n]"
    using upt_add_eq_append [of 0 "64 - n" n] assms(2) by (simp flip: rev_append)
  then have "u64_leading_zeros x = n + length (takeWhile (\<lambda>k. \<not> bit x k) (rev [0..<64 - n]))"
    using assms takeWhile_append2 [of "rev [64 - n..<64]" "\<lambda>k. \<not> bit x k" "rev [0..<64 - n]"]
    by (simp only: u64_leading_zeros_def) simp
  then show ?thesis by simp
qed

text \<open>The counts of zeros in terms of the highest and the lowest bit set.\<close>

lemma leading_zeros_eq:
  assumes "bit x k" and "\<And>j. k < j \<Longrightarrow> \<not> bit x j"
  shows "u64_leading_zeros x = 63 - k"
proof -
  have "k < 64" using assms(1) bit_imp_le_length by fastforce
  then have "[0..<64] = [0..<k] @ k # [Suc k..<64]"
    using upt_add_eq_append [of 0 k "64 - k"] by (simp add: upt_conv_Cons)
  then have "rev [0..<64] = rev [Suc k..<64] @ k # rev [0..<k]"
    by (metis (no_types, lifting) append.assoc append_Cons append_Nil rev.simps(2) rev_append)
  then have "u64_leading_zeros x = length (rev [Suc k..<64] @ takeWhile (\<lambda>k. \<not> bit x k) (k # rev [0..<k]))"
    using assms(2) unfolding u64_leading_zeros_def by (subst takeWhile_append2 [symmetric]) auto
  with assms(1) \<open>k < 64\<close> show ?thesis by simp
qed

lemma trailing_zeros_eq:
  assumes "bit x k" and "\<And>j. j < k \<Longrightarrow> \<not> bit x j"
  shows "u64_trailing_zeros x = k"
proof -
  have "k < 64" using assms(1) bit_imp_le_length by fastforce
  then have "[0..<64] = [0..<k] @ k # [Suc k..<64]"
    using upt_add_eq_append [of 0 k "64 - k"] by (simp add: upt_conv_Cons)
  then have "u64_trailing_zeros x = length ([0..<k] @ takeWhile (\<lambda>k. \<not> bit x k) (k # [Suc k..<64]))"
    using assms(2) unfolding u64_trailing_zeros_def by (subst takeWhile_append2 [symmetric]) auto
  with assms(1) show ?thesis by simp
qed

lemma set_bits_range:
  assumes "(x :: u64) \<noteq> 0"
  obtains lo hi where "bit x lo" "\<And>j. j < lo \<Longrightarrow> \<not> bit x j" "bit x hi" "\<And>j. hi < j \<Longrightarrow> \<not> bit x j" "lo \<le> hi" "hi < 64"
proof -
  let ?S = "{k. bit x k}"
  have fin: "finite ?S" by (rule finite_subset [of _ "{..<64}"]) (auto dest: bit_imp_le_length)
  have ne: "?S \<noteq> {}" using assms by (auto simp: bit_eq_iff)
  have "bit x (Min ?S)" "bit x (Max ?S)" using Min_in [OF fin ne] Max_in [OF fin ne] by auto
  moreover have "\<not> bit x j" if "j < Min ?S" for j using that Min_le [OF fin, of j] by (auto simp: not_le [symmetric])
  moreover have "\<not> bit x j" if "Max ?S < j" for j using that Max_ge [OF fin, of j] by (auto simp: not_le [symmetric])
  moreover have "Min ?S \<le> Max ?S" using Max_ge [OF fin] \<open>bit x (Min ?S)\<close> by simp
  moreover have "Max ?S < 64" using bit_imp_le_length [of x "Max ?S"] \<open>bit x (Max ?S)\<close> by simp
  ultimately show thesis using that [of "Min ?S" "Max ?S"] by blast
qed

text \<open>Shifting a value whose high bits are empty moves both counts.\<close>

lemma shifted_bit:
  assumes "\<And>j. hi < j \<Longrightarrow> \<not> bit x j" and "hi + n < 64"
  shows "bit (push_bit n x :: u64) k = (n \<le> k \<and> bit x (k - n))"
proof -
  have "k < 64" if "n \<le> k" "bit x (k - n)"
  proof (rule ccontr)
    assume "\<not> k < 64"
    then have "hi < k - n" using assms(2) by linarith
    with that assms(1) show False by blast
  qed
  then show ?thesis by (auto simp: bit_simps)
qed

lemma shifted_zeros:
  assumes "x \<noteq> 0" and "unat x < 2 ^ (64 - n)"
  shows "u64_leading_zeros x = u64_leading_zeros (push_bit n x) + n"
    and "u64_trailing_zeros (push_bit n x) = u64_trailing_zeros x + n"
    and "drop_bit (u64_trailing_zeros x + n) (push_bit n x) = drop_bit (u64_trailing_zeros x) x"
    and "u64_leading_zeros x + u64_trailing_zeros x < 64"
proof -
  obtain lo hi where lo: "bit x lo" "\<And>j. j < lo \<Longrightarrow> \<not> bit x j" and hi: "bit x hi" "\<And>j. hi < j \<Longrightarrow> \<not> bit x j"
    and le: "lo \<le> hi" and small: "hi < 64"
    using set_bits_range [OF assms(1)] by metis
  have n: "hi + n < 64" using bit_above [OF assms(2), of hi] hi(1) by (metis less_diff_conv not_le)
  note bits = shifted_bit [OF hi(2) n]
  show "u64_leading_zeros x = u64_leading_zeros (push_bit n x) + n"
    using leading_zeros_eq [OF hi] leading_zeros_eq [of "push_bit n x" "hi + n"] hi n by (simp add: bits)
  show t: "u64_trailing_zeros (push_bit n x) = u64_trailing_zeros x + n"
    using trailing_zeros_eq [OF lo] trailing_zeros_eq [of "push_bit n x" "lo + n"] lo by (simp add: bits)
  show "drop_bit (u64_trailing_zeros x + n) (push_bit n x) = drop_bit (u64_trailing_zeros x) x"
    by (rule bit_word_eqI) (simp add: bits bit_drop_bit_eq algebra_simps)
  show "u64_leading_zeros x + u64_trailing_zeros x < 64"
    using leading_zeros_eq [OF hi] trailing_zeros_eq [OF lo] le small by simp
qed

section \<open>Bits and bytes\<close>

lemma desc_Suc: "map f (rev [0..<Suc n]) = map (\<lambda>k. f (Suc k)) (rev [0..<n]) @ [f 0]"
  by (simp add: upt_conv_Cons rev_map comp_def flip: map_Suc_upt del: upt_Suc)

definition byte_bits :: "u8 \<Rightarrow> bool list" where
  "byte_bits b = map (bit b) (rev [0..<8])"

definition stream_bits :: "u8 list \<Rightarrow> bool list" where
  "stream_bits bs = concat (map byte_bits bs)"

text \<open>The lowest \<open>n\<close> bits of a value, the highest one first.\<close>

definition low_bits :: "u64 \<Rightarrow> nat \<Rightarrow> bool list" where
  "low_bits v n = map (bit v) (rev [0..<n])"

lemma length_byte_bits [simp]: "length (byte_bits b) = 8"
  by (simp add: byte_bits_def)

lemma length_low_bits [simp]: "length (low_bits v n) = n"
  by (simp add: low_bits_def)

lemma length_stream_bits [simp]: "length (stream_bits bs) = 8 * length bs"
  by (induction bs) (simp_all add: stream_bits_def)

lemma stream_bits_append [simp]: "stream_bits (xs @ ys) = stream_bits xs @ stream_bits ys"
  by (simp add: stream_bits_def)

lemma nth_byte_bits: "i < 8 \<Longrightarrow> byte_bits b ! i = bit b (7 - i)"
  by (simp add: byte_bits_def rev_nth)

lemma nth_stream_bits: "i < 8 * length bs \<Longrightarrow> stream_bits bs ! i = bit (bs ! (i div 8)) (7 - i mod 8)"
proof (induction bs arbitrary: i)
  case (Cons b bs)
  show ?case
  proof (cases "i < 8")
    case True
    then show ?thesis by (simp add: stream_bits_def nth_append nth_byte_bits)
  next
    case False
    then have "stream_bits (b # bs) ! i = stream_bits bs ! (i - 8)"
      by (simp add: stream_bits_def nth_append)
    also have "\<dots> = bit (bs ! ((i - 8) div 8)) (7 - (i - 8) mod 8)" using Cons False by simp
    finally show ?thesis using False by (simp add: le_div_geq le_mod_geq)
  qed
qed simp

text \<open>Equal streams of whole bytes are equal bytes.\<close>

lemma byte_bits_inject: "byte_bits a = byte_bits b \<Longrightarrow> a = b"
proof (rule bit_word_eqI)
  fix n assume eq: "byte_bits a = byte_bits b" and "n < LENGTH(8)"
  then have "byte_bits a ! (7 - n) = byte_bits b ! (7 - n)" "n < 8" by simp_all
  then show "bit a n = bit b n" by (simp add: nth_byte_bits)
qed

lemma stream_bits_inject: "stream_bits xs = stream_bits ys \<Longrightarrow> xs = ys"
proof (induction xs arbitrary: ys)
  case Nil
  then have "8 * length ys = length (stream_bits [])" by (metis length_stream_bits)
  then show ?case by simp
next
  case (Cons x xs)
  then have "8 * length ys = 8 * length (x # xs)" by (metis length_stream_bits)
  then obtain y ys' where ys: "ys = y # ys'" by (cases ys) auto
  with Cons.prems have "byte_bits x = byte_bits y" "stream_bits xs = stream_bits ys'"
    by (simp_all add: stream_bits_def append_eq_append_conv)
  with Cons.IH ys show ?case by (simp add: byte_bits_inject)
qed

section \<open>The writer of the Gorilla compressors\<close>

record BitBuffer =
  bb_buffer :: "u8 list"
  bb_bit_position :: nat

definition bb_new :: BitBuffer where
  "bb_new = \<lparr>bb_buffer = [], bb_bit_position = 0\<rparr>"

definition bb_write_bit :: "u8 \<Rightarrow> BitBuffer \<Rightarrow> BitBuffer" where
  "bb_write_bit b w =
     (let buffer = (if bb_bit_position w mod 8 = 0 then bb_buffer w @ [0] else bb_buffer w);
          byte_idx = bb_bit_position w div 8;
          bit_idx = 7 - bb_bit_position w mod 8
      in \<lparr>bb_buffer = buffer[byte_idx := buffer ! byte_idx OR push_bit bit_idx b],
          bb_bit_position = bb_bit_position w + 1\<rparr>)"

definition bb_write_bits :: "u64 \<Rightarrow> nat \<Rightarrow> BitBuffer \<Rightarrow> BitBuffer" where
  "bb_write_bits value num_bits w =
     fold (\<lambda>i. bb_write_bit (ucast (drop_bit i value AND 1))) (rev [0..<num_bits]) w"

function bb_pad :: "BitBuffer \<Rightarrow> BitBuffer" where
  "bb_pad w = (if bb_bit_position w mod 8 \<noteq> 0 then bb_pad (bb_write_bit 0 w) else w)"
  by auto
termination
proof (relation "measure (\<lambda>w. (8 - bb_bit_position w mod 8) mod 8)")
  fix w :: BitBuffer
  assume "bb_bit_position w mod 8 \<noteq> 0"
  then show "(bb_write_bit 0 w, w) \<in> measure (\<lambda>w. (8 - bb_bit_position w mod 8) mod 8)"
    by (auto simp: bb_write_bit_def Let_def mod_Suc)
qed simp

declare bb_pad.simps [simp del]

definition bb_finalize :: "BitBuffer \<Rightarrow> u8 list" where
  "bb_finalize w = bb_buffer (bb_pad w)"

text \<open>The buffer holds the bits written, padded with zeros to a whole number of bytes.\<close>

definition bb_holds :: "bool list \<Rightarrow> BitBuffer \<Rightarrow> bool" where
  "bb_holds bits w \<longleftrightarrow>
     bb_bit_position w = length bits \<and> length (bb_buffer w) = (length bits + 7) div 8 \<and>
     (\<forall>i < 8 * length (bb_buffer w). stream_bits (bb_buffer w) ! i = (i < length bits \<and> bits ! i))"

lemma bb_holds_new: "bb_holds [] bb_new"
  by (simp add: bb_holds_def bb_new_def)

lemma bit_set_in_byte:
  "k < 8 \<Longrightarrow> m < 8 \<Longrightarrow> bit (a OR push_bit k (of_bool b) :: u8) m = (bit a m \<or> m = k \<and> b)"
  by (auto simp: bit_simps)

lemma bytes_needed:
  assumes "0 < n mod 8"
  shows "(n + 7) div 8 = (n + 8) div (8 :: nat)"
proof -
  have "n + 7 = (n mod 8 + 7) + n div 8 * 8" by simp
  then have "(n + 7) div 8 = n div 8 + (n mod 8 + 7) div 8" by (metis div_mult_self1 zero_neq_numeral)
  moreover have "(n mod 8 + 7) div 8 = 1" using assms by (intro div_nat_eqI) auto
  ultimately show ?thesis by simp
qed

lemma same_byte:
  assumes "i div 8 = n div 8" and "7 - i mod 8 = 7 - n mod 8"
  shows "i = (n :: nat)"
proof -
  have "i mod 8 < 8" "n mod 8 < 8" by simp_all
  with assms(2) have "i mod 8 = n mod 8" by linarith
  with assms(1) show ?thesis by (metis div_mult_mod_eq)
qed

lemma bb_holds_write_bit:
  assumes inv: "bb_holds bits w"
  shows "bb_holds (bits @ [b]) (bb_write_bit (of_bool b) w)"
proof -
  let ?n = "length bits"
  define buf where "buf = (if ?n mod 8 = 0 then bb_buffer w @ [0] else bb_buffer w)"
  have len: "length buf = (?n + 8) div 8"
    using inv bytes_needed [of ?n] by (auto simp: bb_holds_def buf_def)
  have old: "bit (buf ! (i div 8)) (7 - i mod 8) = (i < ?n \<and> bits ! i)" if "i < 8 * length buf" for i
  proof (cases "i < 8 * length (bb_buffer w)")
    case True
    then have "buf ! (i div 8) = bb_buffer w ! (i div 8)" by (auto simp: buf_def nth_append)
    with True inv show ?thesis by (simp add: bb_holds_def nth_stream_bits)
  next
    case False
    then have "i div 8 = length (bb_buffer w)" "?n \<le> i" "buf = bb_buffer w @ [0]"
      using that inv by (auto simp: buf_def bb_holds_def split: if_splits)
    then show ?thesis by (simp add: nth_append)
  qed
  define buf' where "buf' = buf[?n div 8 := buf ! (?n div 8) OR push_bit (7 - ?n mod 8) (of_bool b)]"
  have upd: "bit (buf' ! (i div 8)) (7 - i mod 8) = (i < Suc ?n \<and> (bits @ [b]) ! i)" if "i < 8 * length buf" for i
  proof (cases "i div 8 = ?n div 8")
    case True
    have "7 - i mod 8 = 7 - ?n mod 8 \<longleftrightarrow> i = ?n"
      using True same_byte by blast
    with True that old [OF that] show ?thesis
      by (auto simp: buf'_def bit_set_in_byte nth_append less_Suc_eq simp del: bit_or_iff)
  next
    case False
    with old [OF that] show ?thesis by (auto simp: buf'_def nth_append less_Suc_eq)
  qed
  have "bb_write_bit (of_bool b) w = \<lparr>bb_buffer = buf', bb_bit_position = Suc ?n\<rparr>"
    using inv by (simp add: bb_write_bit_def bb_holds_def buf_def buf'_def Let_def)
  then show ?thesis
    using len upd by (simp add: bb_holds_def buf'_def nth_stream_bits)
qed

lemma low_bit: "ucast (drop_bit i v AND 1 :: u64) = (of_bool (bit v i) :: u8)"
  by (rule bit_word_eqI) (auto simp: bit_simps)

lemma bb_holds_write_bits:
  assumes "bb_holds bits w"
  shows "bb_holds (bits @ low_bits v n) (bb_write_bits v n w)"
proof -
  have "bb_holds (bits @ map (bit v) ks) (fold (\<lambda>i. bb_write_bit (ucast (drop_bit i v AND 1))) ks w)" for ks
    using assms
  proof (induction ks arbitrary: bits w)
    case (Cons k ks)
    then show ?case using Cons.IH [OF bb_holds_write_bit [OF Cons.prems, of "bit v k"]] by (simp add: low_bit)
  qed simp
  then show ?thesis by (simp add: bb_write_bits_def low_bits_def)
qed

text \<open>Closing a stream pads it with zeros to a whole number of bytes.\<close>

definition padding :: "nat \<Rightarrow> bool list" where
  "padding n = replicate ((8 - n mod 8) mod 8) False"

lemma bb_holds_pad: "bb_holds bits w \<Longrightarrow> bb_holds (bits @ padding (length bits)) (bb_pad w)"
proof (induction w arbitrary: bits rule: bb_pad.induct)
  case (1 w)
  have pos: "bb_bit_position w = length bits" using "1.prems" by (simp add: bb_holds_def)
  show ?case
  proof (cases "length bits mod 8 = 0")
    case True
    with "1.prems" pos show ?thesis by (simp add: bb_pad.simps [of w] padding_def)
  next
    case False
    have "bb_holds (bits @ [False]) (bb_write_bit 0 w)"
      using bb_holds_write_bit [OF "1.prems", of False] by simp
    from "1.IH" [OF _ this] False pos
    have "bb_holds (bits @ False # padding (Suc (length bits))) (bb_pad (bb_write_bit 0 w))" by simp
    moreover have "False # padding (Suc (length bits)) = padding (length bits)"
      using False by (auto simp: padding_def mod_Suc Suc_diff_Suc simp flip: replicate_Suc)
    ultimately show ?thesis using False pos by (simp add: bb_pad.simps [of w])
  qed
qed

lemma round_up: "n + (8 - n mod 8) = 8 * (n div 8 + 1 :: nat)"
proof -
  have "n mod 8 \<le> 8" by (simp add: less_imp_le)
  then have "n + (8 - n mod 8) = (n div 8 * 8 + n mod 8) + (8 - n mod 8)" by simp
  also have "\<dots> = 8 * (n div 8 + 1)" using \<open>n mod 8 \<le> 8\<close> by (simp only: add.assoc le_add_diff_inverse) simp
  finally show ?thesis .
qed

lemma padded_length: "8 dvd length bits + length (padding (length bits))"
proof (cases "length bits mod 8 = 0")
  case False
  have "length bits + (8 - length bits mod 8) = 8 * (length bits div 8 + 1)" by (rule round_up)
  with False show ?thesis by (simp add: padding_def)
qed (auto simp: padding_def)

lemma bb_finalize_bits:
  assumes "bb_holds bits w"
  shows "stream_bits (bb_finalize w) = bits @ padding (length bits)"
proof -
  let ?b = "bits @ padding (length bits)"
  have inv: "bb_holds ?b (bb_pad w)" using assms by (rule bb_holds_pad)
  obtain q where q: "length ?b = 8 * q" using padded_length [of bits] by (auto elim: dvdE)
  then have len: "length (bb_buffer (bb_pad w)) = q" using inv by (simp add: bb_holds_def)
  show ?thesis
  proof (rule nth_equalityI)
    show "length (stream_bits (bb_finalize w)) = length ?b" using q len by (simp add: bb_finalize_def)
    show "stream_bits (bb_finalize w) ! i = ?b ! i" if "i < length (stream_bits (bb_finalize w))" for i
      using that inv q len unfolding bb_finalize_def bb_holds_def by (simp only: length_stream_bits) simp
  qed
qed

section \<open>The writer of the block compressor\<close>

record BitWriter =
  bw_buffer :: "u8 list"
  bw_bit_position :: nat
  bw_current_byte :: u8

definition bw_new :: BitWriter where
  "bw_new = \<lparr>bw_buffer = [], bw_bit_position = 0, bw_current_byte = 0\<rparr>"

definition bw_write_bit :: "u8 \<Rightarrow> BitWriter \<Rightarrow> BitWriter" where
  "bw_write_bit b w =
     (let current_byte = push_bit 1 (bw_current_byte w) OR b;
          bit_position = bw_bit_position w + 1
      in if bit_position = 8
         then \<lparr>bw_buffer = bw_buffer w @ [current_byte], bw_bit_position = 0, bw_current_byte = 0\<rparr>
         else w\<lparr>bw_bit_position := bit_position, bw_current_byte := current_byte\<rparr>)"

definition bw_write_bits :: "u64 \<Rightarrow> nat \<Rightarrow> BitWriter \<Rightarrow> BitWriter" where
  "bw_write_bits value num_bits w =
     fold (\<lambda>i. bw_write_bit (ucast (drop_bit i value AND 1))) (rev [0..<num_bits]) w"

definition bw_write_u64 :: "u64 \<Rightarrow> BitWriter \<Rightarrow> BitWriter" where
  "bw_write_u64 value w = fold (\<lambda>i. bw_write_bit (ucast (drop_bit (63 - i) value AND 1))) [0..<64] w"

definition bw_finalize :: "BitWriter \<Rightarrow> u8 list" where
  "bw_finalize w =
     (if 0 < bw_bit_position w
      then bw_buffer w @ [push_bit (8 - bw_bit_position w) (bw_current_byte w)]
      else bw_buffer w)"

text \<open>The stored bytes, followed by the low bits of the byte in progress.\<close>

definition bw_holds :: "bool list \<Rightarrow> BitWriter \<Rightarrow> bool" where
  "bw_holds bits w \<longleftrightarrow>
     bw_bit_position w < 8 \<and> bits = stream_bits (bw_buffer w) @ drop (8 - bw_bit_position w) (byte_bits (bw_current_byte w)) \<and>
     (\<forall>i \<ge> bw_bit_position w. \<not> bit (bw_current_byte w) i)"

lemma drop_byte_bits: "n \<le> 8 \<Longrightarrow> drop (8 - n) (byte_bits b) = map (bit b) (rev [0..<n])"
  by (intro nth_equalityI) (auto simp: nth_byte_bits rev_nth)

lemma bit_shift_in:
  "bit (push_bit 1 b OR of_bool x :: 'a :: len word) i \<longleftrightarrow> (if i = 0 then x else i < LENGTH('a) \<and> bit b (i - 1))"
  unfolding bit_or_iff bit_push_bit_iff by (auto simp: bit_simps)

lemma shift_in_bits:
  "n < 8 \<Longrightarrow> map (bit (push_bit 1 b OR of_bool x :: u8)) (rev [0..<Suc n]) = map (bit b) (rev [0..<n]) @ [x]"
  unfolding desc_Suc bit_shift_in by auto

lemma bw_holds_new: "bw_holds [] bw_new"
  by (simp add: bw_holds_def bw_new_def stream_bits_def)

lemma bw_holds_write_bit:
  assumes inv: "bw_holds bits w"
  shows "bw_holds (bits @ [x]) (bw_write_bit (of_bool x) w)"
proof -
  let ?n = "bw_bit_position w" and ?b = "push_bit 1 (bw_current_byte w) OR of_bool x :: u8"
  have n: "?n < 8" and bits: "bits = stream_bits (bw_buffer w) @ map (bit (bw_current_byte w)) (rev [0..<?n])"
    and high: "\<forall>i \<ge> ?n. \<not> bit (bw_current_byte w) i"
    using inv drop_byte_bits [of ?n] by (auto simp: bw_holds_def)
  then have new: "bits @ [x] = stream_bits (bw_buffer w) @ map (bit ?b) (rev [0..<Suc ?n])"
    using shift_in_bits [OF n, of "bw_current_byte w" x] by simp
  show ?thesis
  proof (cases "Suc ?n = 8")
    case True
    with new show ?thesis
      by (simp add: bw_holds_def bw_write_bit_def Let_def stream_bits_def byte_bits_def)
  next
    case False
    with n have "Suc ?n < 8" by simp
    moreover have "\<not> bit ?b i" if "Suc ?n \<le> i" for i using that high unfolding bit_shift_in by auto
    ultimately show ?thesis
      using new False drop_byte_bits [of "Suc ?n" ?b] by (simp add: bw_holds_def bw_write_bit_def Let_def)
  qed
qed

lemma bw_holds_fold:
  assumes "bw_holds bits w"
  shows "bw_holds (bits @ map (\<lambda>k. bit v (f k)) ks)
    (fold (\<lambda>i. bw_write_bit (ucast (drop_bit (f i) v AND 1 :: u64))) ks w)"
  using assms
proof (induction ks arbitrary: bits w)
  case (Cons k ks)
  then show ?case using Cons.IH [OF bw_holds_write_bit [OF Cons.prems, of "bit v (f k)"]] by (simp add: low_bit)
qed simp

lemma bw_holds_write_bits: "bw_holds bits w \<Longrightarrow> bw_holds (bits @ low_bits v n) (bw_write_bits v n w)"
  using bw_holds_fold [of bits w v "\<lambda>i. i" "rev [0..<n]"] by (simp add: bw_write_bits_def low_bits_def)

lemma bw_holds_write_u64: "bw_holds bits w \<Longrightarrow> bw_holds (bits @ low_bits v 64) (bw_write_u64 v w)"
proof -
  have "map (\<lambda>k. bit v (63 - k)) [0..<64] = low_bits v 64"
    by (intro nth_equalityI) (auto simp: low_bits_def rev_nth)
  then show "bw_holds bits w \<Longrightarrow> ?thesis"
    using bw_holds_fold [of bits w v "\<lambda>i. 63 - i" "[0..<64]"] by (simp add: bw_write_u64_def)
qed

lemma bw_finalize_bits:
  assumes inv: "bw_holds bits w"
  shows "stream_bits (bw_finalize w) = bits @ padding (length bits)"
proof -
  let ?n = "bw_bit_position w" and ?c = "bw_current_byte w"
  have n: "?n < 8" and bits: "bits = stream_bits (bw_buffer w) @ map (bit ?c) (rev [0..<?n])"
    and high: "\<forall>i \<ge> ?n. \<not> bit ?c i"
    using inv drop_byte_bits [of ?n] by (auto simp: bw_holds_def)
  have len: "length bits mod 8 = ?n" using bits n by simp
  show ?thesis
  proof (cases "?n = 0")
    case True
    with bits len show ?thesis by (simp add: bw_finalize_def padding_def)
  next
    case False
    have "byte_bits (push_bit (8 - ?n) ?c) = map (bit ?c) (rev [0..<?n]) @ replicate (8 - ?n) False"
      using n high by (intro nth_equalityI) (auto simp: nth_byte_bits nth_append rev_nth bit_simps)
    with False bits len n show ?thesis
      by (simp add: bw_finalize_def padding_def stream_bits_def)
  qed
qed

text \<open>Both writers, given the same bits, end with the same bytes.\<close>

lemma writers_agree: "bb_holds bits v \<Longrightarrow> bw_holds bits w \<Longrightarrow> bb_finalize v = bw_finalize w"
  by (rule stream_bits_inject) (simp add: bb_finalize_bits bw_finalize_bits)

section \<open>The reader\<close>

record BitReader =
  br_data :: "u8 list"
  br_bit_position :: nat

definition br_new :: "u8 list \<Rightarrow> BitReader" where
  "br_new data = \<lparr>br_data = data, br_bit_position = 0\<rparr>"

definition br_read_bit :: "BitReader \<Rightarrow> u8 option \<times> BitReader" where
  "br_read_bit r =
     (if length (br_data r) * 8 \<le> br_bit_position r then (None, r)
      else
        let byte_idx = br_bit_position r div 8;
            bit_idx = 7 - br_bit_position r mod 8
        in (Some (drop_bit bit_idx (br_data r ! byte_idx) AND 1),
            r\<lparr>br_bit_position := br_bit_position r + 1\<rparr>))"

fun br_read_loop :: "nat \<Rightarrow> u64 \<Rightarrow> BitReader \<Rightarrow> u64 option \<times> BitReader" where
  "br_read_loop 0 v r = (Some v, r)"
| "br_read_loop (Suc n) v r =
     (case br_read_bit r of
        (None, r) \<Rightarrow> (None, r)
      | (Some b, r) \<Rightarrow> br_read_loop n (push_bit 1 v OR ucast b) r)"

definition br_read_bits :: "nat \<Rightarrow> BitReader \<Rightarrow> u64 option \<times> BitReader" where
  "br_read_bits num_bits r = br_read_loop num_bits 0 r"

definition br_rest :: "BitReader \<Rightarrow> bool list" where
  "br_rest r = drop (br_bit_position r) (stream_bits (br_data r))"

lemma br_rest_new [simp]: "br_rest (br_new data) = stream_bits data"
  by (simp add: br_rest_def br_new_def)

lemma br_read_bit_rest:
  assumes "br_rest r = b # bs"
  obtains r' where "br_read_bit r = (Some (of_bool b), r')" and "br_rest r' = bs"
proof -
  let ?i = "br_bit_position r"
  have i: "?i < 8 * length (br_data r)"
    using assms by (metis br_rest_def drop_eq_Nil length_stream_bits linorder_not_le list.discI)
  have b: "b = stream_bits (br_data r) ! ?i"
    using assms i by (metis br_rest_def hd_drop_conv_nth length_stream_bits list.sel(1))
  have "drop_bit (7 - ?i mod 8) (br_data r ! (?i div 8)) AND 1 = (of_bool b :: u8)"
    using nth_stream_bits [OF i] b by (intro bit_word_eqI) (auto simp: bit_simps)
  then have "br_read_bit r = (Some (of_bool b), r\<lparr>br_bit_position := ?i + 1\<rparr>)"
    using i by (simp add: br_read_bit_def Let_def)
  moreover have "br_rest (r\<lparr>br_bit_position := ?i + 1\<rparr>) = bs"
    using assms by (metis BitReader.select_convs(1) BitReader.surjective BitReader.update_convs(2)
        BitReader.select_convs(2) br_rest_def drop_Suc drop_tl list.sel(3) Suc_eq_plus1)
  ultimately show thesis by (rule that)
qed

definition bits_value :: "u64 \<Rightarrow> bool list \<Rightarrow> u64" where
  "bits_value v bs = foldl (\<lambda>v b. push_bit 1 v OR of_bool b) v bs"

lemma br_read_loop_rest:
  "br_rest r = xs @ ys \<Longrightarrow> length xs = n \<Longrightarrow>
   \<exists>r'. br_read_loop n v r = (Some (bits_value v xs), r') \<and> br_rest r' = ys"
proof (induction n arbitrary: v r xs)
  case (Suc n)
  then obtain x xs' where xs: "xs = x # xs'" by (cases xs) auto
  with Suc.prems obtain r' where r': "br_read_bit r = (Some (of_bool x), r')" "br_rest r' = xs' @ ys"
    by (auto elim: br_read_bit_rest)
  have "ucast (of_bool x :: u8) = (of_bool x :: u64)" by simp
  with r' Suc.IH [of r' xs' "push_bit 1 v OR of_bool x"] Suc.prems xs show ?case
    by (simp add: bits_value_def)
qed (simp add: bits_value_def)

lemma low_bits_Suc: "low_bits v (Suc n) = low_bits (drop_bit 1 v) n @ [bit v 0]"
  by (simp add: low_bits_def desc_Suc bit_drop_bit_eq comp_def del: upt_Suc)

lemma bits_value_low_bits: "n \<le> 64 \<Longrightarrow> bits_value 0 (low_bits v n) = take_bit n v"
proof (induction n arbitrary: v)
  case (Suc n)
  then have "bits_value 0 (low_bits v (Suc n)) = push_bit 1 (take_bit n (drop_bit 1 v)) OR of_bool (bit v 0)"
    by (simp add: low_bits_Suc bits_value_def)
  also have "\<dots> = take_bit (Suc n) v"
  proof (rule bit_word_eqI)
    fix k assume "k < LENGTH(64)"
    then show "bit (push_bit 1 (take_bit n (drop_bit 1 v)) OR of_bool (bit v 0)) k = bit (take_bit (Suc n) v) k"
      unfolding bit_shift_in by (cases k) (auto simp: bit_simps)
  qed
  finally show ?case .
qed (simp add: low_bits_def bits_value_def)

lemma br_read_bits_low:
  assumes "br_rest r = low_bits v n @ ys" and "n \<le> 64"
  obtains r' where "br_read_bits n r = (Some (take_bit n v), r')" and "br_rest r' = ys"
  using br_read_loop_rest [OF assms(1), of n 0] assms(2) by (auto simp: br_read_bits_def bits_value_low_bits)

end
