(* ===== verification/Tick_Compression.thy ===== *)
theory Tick_Compression
  imports Bit_Stream
begin

text \<open>
  The Gorilla compressors of the tick database (\<open>src/src/tickdb/compression.rs\<close>): delta-of-delta coding
  of timestamps with its decoder, XOR coding of prices and sizes (for which the source has no decoder),
  and the compressor of whole ticks.

  A floating-point value is its bit pattern: the compressors use nothing else of it. The source mixes
  32 and 64 bit counts (\<open>leading_zeros(..).min(MAX_LEADING_ZEROS)\<close>, \<open>write_bits(leading, 5)\<close>) without a
  cast, which does not compile; the counts are natural numbers here and are written as 64-bit values.
  The estimated compression ratio is a floating-point quotient and is left out.
\<close>

unbundle bit_operations_syntax

section \<open>Timestamps\<close>

definition MAX_LEADING_ZEROS :: nat where
  "MAX_LEADING_ZEROS = 31"

record GorillaTimestampCompressor =
  gt_prev_timestamp :: u64
  gt_prev_delta :: i64
  gt_first :: bool
  gt_out :: BitBuffer

definition gt_new :: GorillaTimestampCompressor where
  "gt_new = \<lparr>gt_prev_timestamp = 0, gt_prev_delta = 0, gt_first = True, gt_out = bb_new\<rparr>"

definition gt_write_dod :: "i64 \<Rightarrow> BitBuffer \<Rightarrow> BitBuffer" where
  "gt_write_dod dod w =
     (if dod = 0 then bb_write_bit 0 w
      else
        let w = bb_write_bit 1 w
        in if sint (i64_abs dod) < 32
           then bb_write_bits (dod AND 31) 5 (bb_write_bits 0 2 w)
           else
             let abs_dod = i64_unsigned_abs dod;
                 leading = min (u64_leading_zeros (abs_dod OR 1)) MAX_LEADING_ZEROS;
                 significant_bits = 64 - leading
             in if sint (i64_abs dod) < 1024
                then bb_write_bits abs_dod significant_bits (bb_write_bits (of_nat leading) 5 (bb_write_bits 1 2 w))
                else bb_write_bits abs_dod significant_bits
                       (bb_write_bits (of_nat (significant_bits - 1)) 10
                         (bb_write_bits (of_nat leading) 5 (bb_write_bit 1 w))))"

definition gt_add_timestamp :: "u64 \<Rightarrow> GorillaTimestampCompressor \<Rightarrow> GorillaTimestampCompressor" where
  "gt_add_timestamp timestamp g =
     (if gt_first g
      then g\<lparr>gt_prev_timestamp := timestamp, gt_out := bb_write_bits timestamp 64 (gt_out g), gt_first := False\<rparr>
      else
        let delta = timestamp - gt_prev_timestamp g;
            dod = delta - gt_prev_delta g
        in g\<lparr>gt_out := gt_write_dod dod (gt_out g), gt_prev_delta := delta, gt_prev_timestamp := timestamp\<rparr>)"

definition gt_finalize :: "GorillaTimestampCompressor \<Rightarrow> u8 list" where
  "gt_finalize g = bb_finalize (gt_out g)"

definition gt_reset :: "GorillaTimestampCompressor \<Rightarrow> GorillaTimestampCompressor" where
  "gt_reset g = gt_new"

record CompressionStats =
  cs_values_encoded :: nat
  cs_compressed_bytes :: nat
  cs_bits_used :: nat

definition gt_stats :: "GorillaTimestampCompressor \<Rightarrow> CompressionStats" where
  "gt_stats g =
     \<lparr>cs_values_encoded = (if gt_first g then 0 else 1),
      cs_compressed_bytes = length (bb_buffer (gt_out g)), cs_bits_used = bb_bit_position (gt_out g)\<rparr>"

section \<open>The decoder of timestamps\<close>

record TimestampDecompressor =
  td_reader :: BitReader
  td_prev_timestamp :: u64
  td_prev_delta :: i64
  td_first :: bool

definition td_new :: "u8 list \<Rightarrow> TimestampDecompressor" where
  "td_new data =
     \<lparr>td_reader = br_new data, td_prev_timestamp = 0, td_prev_delta = 0, td_first = True\<rparr>"

definition sign_extend5 :: "i64 \<Rightarrow> i64" where
  "sign_extend5 val = (if val AND 16 \<noteq> 0 then val OR NOT 31 else val)"

definition td_read_dod :: "BitReader \<Rightarrow> i64 option \<times> BitReader" where
  "td_read_dod r =
     (case br_read_bits 2 r of
        (None, r) \<Rightarrow> (None, r)
      | (Some mode, r) \<Rightarrow>
          if mode = 0
          then map_prod (map_option sign_extend5) id (br_read_bits 5 r)
          else if mode = 1
          then (case br_read_bits 5 r of
                  (None, r) \<Rightarrow> (None, r)
                | (Some leading, r) \<Rightarrow> br_read_bits (unat (64 - leading)) r)
          else (case br_read_bits 5 r of
                  (None, r) \<Rightarrow> (None, r)
                | (Some leading, r) \<Rightarrow>
                    (case br_read_bits 10 r of
                       (None, r) \<Rightarrow> (None, r)
                     | (Some len, r) \<Rightarrow> br_read_bits (unat (len + 1)) r)))"

definition td_next :: "TimestampDecompressor \<Rightarrow> u64 option \<times> TimestampDecompressor" where
  "td_next d =
     (if td_first d
      then (case br_read_bits 64 (td_reader d) of
              (None, r) \<Rightarrow> (None, d\<lparr>td_reader := r\<rparr>)
            | (Some t, r) \<Rightarrow> (Some t, d\<lparr>td_reader := r, td_prev_timestamp := t, td_first := False\<rparr>))
      else (case br_read_bit (td_reader d) of
              (None, r) \<Rightarrow> (None, d\<lparr>td_reader := r\<rparr>)
            | (Some b, r) \<Rightarrow>
                if b = 0
                then let t = td_prev_timestamp d + td_prev_delta d
                     in (Some t, d\<lparr>td_reader := r, td_prev_timestamp := t\<rparr>)
                else (case td_read_dod r of
                        (None, r) \<Rightarrow> (None, d\<lparr>td_reader := r\<rparr>)
                      | (Some dod, r) \<Rightarrow>
                          let t = td_prev_timestamp d + dod
                          in (Some t, d\<lparr>td_reader := r, td_prev_delta := dod, td_prev_timestamp := t\<rparr>))))"

text \<open>The first \<open>n\<close> timestamps, if there are that many.\<close>

fun td_take :: "nat \<Rightarrow> TimestampDecompressor \<Rightarrow> u64 list option" where
  "td_take 0 d = Some []"
| "td_take (Suc n) d = (case td_next d of
     (None, d) \<Rightarrow> None | (Some t, d) \<Rightarrow> map_option (Cons t) (td_take n d))"

definition compress_timestamps :: "u64 list \<Rightarrow> u8 list" where
  "compress_timestamps ts = gt_finalize (fold gt_add_timestamp ts gt_new)"

definition decompress_timestamps :: "nat \<Rightarrow> u8 list \<Rightarrow> u64 list option" where
  "decompress_timestamps n data = td_take n (td_new data)"

section \<open>The code of a timestamp\<close>

definition dod_code :: "i64 \<Rightarrow> bool list" where
  "dod_code dod =
     (if dod = 0 then [False]
      else if sint (i64_abs dod) < 32 then True # low_bits 0 2 @ low_bits (dod AND 31) 5
      else
        let abs_dod = i64_unsigned_abs dod;
            leading = min (u64_leading_zeros (abs_dod OR 1)) MAX_LEADING_ZEROS
        in if sint (i64_abs dod) < 1024
           then True # low_bits 1 2 @ low_bits (of_nat leading) 5 @ low_bits abs_dod (64 - leading)
           else True # True # low_bits (of_nat leading) 5 @ low_bits (of_nat (64 - leading - 1)) 10 @
                  low_bits abs_dod (64 - leading))"

lemma bb_holds_one: "bb_holds bits w \<Longrightarrow> bb_holds (bits @ [True]) (bb_write_bit 1 w)"
  using bb_holds_write_bit [of bits w True] by simp

lemma bb_holds_zero: "bb_holds bits w \<Longrightarrow> bb_holds (bits @ [False]) (bb_write_bit 0 w)"
  using bb_holds_write_bit [of bits w False] by simp

lemma bb_holds_appends:
  assumes "bb_holds bits w"
  shows "bb_holds (bits @ True # low_bits a i) (bb_write_bits a i (bb_write_bit 1 w))"
  using bb_holds_write_bits [OF bb_holds_one [OF assms]] by simp

lemma gt_write_dod_bits:
  assumes "bb_holds bits w"
  shows "bb_holds (bits @ dod_code dod) (gt_write_dod dod w)"
  using bb_holds_one [OF assms, THEN bb_holds_one, THEN bb_holds_write_bits, THEN bb_holds_write_bits, THEN bb_holds_write_bits]
    bb_holds_appends [OF assms, THEN bb_holds_write_bits] bb_holds_zero [OF assms]
    bb_holds_appends [OF assms, THEN bb_holds_write_bits, THEN bb_holds_write_bits]
  by (simp add: gt_write_dod_def dod_code_def Let_def)

text \<open>The codes of a series after its first timestamp.\<close>

fun series_code :: "u64 \<Rightarrow> i64 \<Rightarrow> u64 list \<Rightarrow> bool list" where
  "series_code t p [] = []"
| "series_code t p (u # us) = dod_code (u - t - p) @ series_code u (u - t) us"

lemma gt_series:
  "\<not> gt_first g \<Longrightarrow> bb_holds bits (gt_out g) \<Longrightarrow>
   bb_holds (bits @ series_code (gt_prev_timestamp g) (gt_prev_delta g) ts) (gt_out (fold gt_add_timestamp ts g))"
proof (induction ts arbitrary: g bits)
  case (Cons t ts)
  let ?g = "gt_add_timestamp t g"
  have "bb_holds (bits @ dod_code (t - gt_prev_timestamp g - gt_prev_delta g)) (gt_out ?g)"
    "gt_prev_timestamp ?g = t" "gt_prev_delta ?g = t - gt_prev_timestamp g" "\<not> gt_first ?g"
    using Cons.prems gt_write_dod_bits [OF Cons.prems(2)] by (simp_all add: gt_add_timestamp_def Let_def)
  then show ?case
    using Cons.IH [of ?g "bits @ dod_code (t - gt_prev_timestamp g - gt_prev_delta g)"] by simp
qed simp

lemma compress_timestamps_bits:
  "\<exists>n. stream_bits (compress_timestamps (t # ts)) = low_bits t 64 @ series_code t 0 ts @ replicate n False"
proof -
  let ?g = "gt_add_timestamp t gt_new"
  have "bb_holds (low_bits t 64) (gt_out ?g)" "gt_prev_timestamp ?g = t" "gt_prev_delta ?g = 0" "\<not> gt_first ?g"
    using bb_holds_write_bits [OF bb_holds_new, of t 64] by (simp_all add: gt_add_timestamp_def gt_new_def)
  then have "bb_holds (low_bits t 64 @ series_code t 0 ts) (gt_out (fold gt_add_timestamp ts ?g))"
    using gt_series [of ?g] by simp
  from bb_finalize_bits [OF this] show ?thesis
    by (auto simp: compress_timestamps_def gt_finalize_def padding_def)
qed

section \<open>What is read back\<close>

definition decodable :: "i64 \<Rightarrow> bool" where
  "decodable dod \<longleftrightarrow> - 16 \<le> sint dod \<and> sint dod < 16 \<or> 32 \<le> sint dod \<and> sint dod < 1024"

lemma sign_extend5_small:
  assumes "- 16 \<le> sint dod" and "sint dod < 16"
  shows "sign_extend5 (take_bit 5 (dod AND 31)) = dod"
proof -
  have "sint dod \<in> {-16..15}" using assms by simp
  then have "sint dod \<in> set [-16..15]" by (simp only: set_upto)
  then obtain k where k: "dod = word_of_int k" "k \<in> set [-16..15]"
    by (intro that [of "sint dod"]) (simp, assumption)
  have "\<forall>k \<in> set [-16..15]. sign_extend5 (take_bit 5 ((word_of_int k :: i64) AND 31)) = word_of_int k"
    by (simp add: sign_extend5_def upto_rec1 mask_eq_exp_minus_1)
  with k show ?thesis by blast
qed

lemma leading_capped:
  assumes "0 \<le> sint x" and "sint x < 1024"
  shows "min (u64_leading_zeros (x OR 1)) MAX_LEADING_ZEROS = 31"
proof -
  have "int (unat x) < 1024" using assms unat_eq_sint [of x] by linarith
  then have "unat x < 1024" by linarith
  then have "unat x < 2 ^ 33" by simp
  then have "\<not> bit (x OR 1) k" if "33 \<le> k" for k using bit_above [of x 33 k] that by (auto simp: bit_simps)
  then have "31 \<le> u64_leading_zeros (x OR 1)" by (intro leading_zeros_ge) auto
  then show ?thesis by (simp add: MAX_LEADING_ZEROS_def)
qed

lemma take_bit_leading: "take_bit 5 (31 :: u64) = 31" "take_bit 2 (0 :: u64) = 0" "take_bit 2 (1 :: u64) = 1"
  by simp_all

lemma td_read_dod_code:
  assumes rest: "br_rest r = dod_code dod @ ys" and dod: "dod \<noteq> 0" "decodable dod"
  obtains r\<^sub>1 r\<^sub>2 where "br_read_bit r = (Some 1, r\<^sub>1)" and "td_read_dod r\<^sub>1 = (Some dod, r\<^sub>2)" and "br_rest r\<^sub>2 = ys"
proof (cases "sint dod < 16")
  case True
  with dod have small: "- 16 \<le> sint dod" by (simp add: decodable_def)
  have "sint (i64_abs dod) < 32" using True small by (auto simp: sint_i64_abs)
  then have "br_rest r = True # low_bits 0 2 @ low_bits (dod AND 31) 5 @ ys"
    using rest dod by (simp add: dod_code_def)
  then obtain r\<^sub>1 where r\<^sub>1: "br_read_bit r = (Some 1, r\<^sub>1)" "br_rest r\<^sub>1 = low_bits 0 2 @ low_bits (dod AND 31) 5 @ ys"
    by (metis br_read_bit_rest of_bool_eq(2))
  obtain r\<^sub>3 where r\<^sub>3: "br_read_bits 2 r\<^sub>1 = (Some 0, r\<^sub>3)" "br_rest r\<^sub>3 = low_bits (dod AND 31) 5 @ ys"
    using r\<^sub>1(2) by (rule br_read_bits_low) simp_all
  obtain r\<^sub>2 where "br_read_bits 5 r\<^sub>3 = (Some (take_bit 5 (dod AND 31)), r\<^sub>2)" "br_rest r\<^sub>2 = ys"
    using r\<^sub>3(2) by (rule br_read_bits_low) simp_all
  then show thesis
    using r\<^sub>1 r\<^sub>3 sign_extend5_small [OF small True]
    by (intro that, simp, simp add: td_read_dod_def, simp)
next
  case False
  with dod have range: "32 \<le> sint dod" "sint dod < 1024" by (auto simp: decodable_def)
  then have "int (unat dod) < 1024" using unat_eq_sint [of dod] by linarith
  then have "unat dod < 1024" by linarith
  then have "unat dod < 2 ^ 33" by simp
  then have val: "take_bit 33 dod = dod" using bit_above [of dod 33] by (intro bit_word_eqI) (auto simp: bit_simps, meson not_less)
  have "br_rest r = True # low_bits 1 2 @ low_bits 31 5 @ low_bits dod 33 @ ys"
    using rest dod range leading_capped [of dod] by (simp add: dod_code_def i64_abs_def i64_unsigned_abs_def Let_def)
  then obtain r\<^sub>1 where r\<^sub>1: "br_read_bit r = (Some 1, r\<^sub>1)" "br_rest r\<^sub>1 = low_bits 1 2 @ low_bits 31 5 @ low_bits dod 33 @ ys"
    by (metis br_read_bit_rest of_bool_eq(2))
  obtain r\<^sub>3 where r\<^sub>3: "br_read_bits 2 r\<^sub>1 = (Some 1, r\<^sub>3)" "br_rest r\<^sub>3 = low_bits 31 5 @ low_bits dod 33 @ ys"
    using r\<^sub>1(2) by (rule br_read_bits_low) simp_all
  obtain r\<^sub>4 where r\<^sub>4: "br_read_bits 5 r\<^sub>3 = (Some 31, r\<^sub>4)" "br_rest r\<^sub>4 = low_bits dod 33 @ ys"
    using r\<^sub>3(2) by (rule br_read_bits_low) simp_all
  obtain r\<^sub>2 where "br_read_bits 33 r\<^sub>4 = (Some dod, r\<^sub>2)" "br_rest r\<^sub>2 = ys"
    using r\<^sub>4(2) by (rule br_read_bits_low) (simp_all add: val)
  then show thesis using r\<^sub>1 r\<^sub>3 r\<^sub>4 by (intro that, simp, simp add: td_read_dod_def, simp)
qed

text \<open>A decoder past its first timestamp, at the given timestamp and interval.\<close>

definition td_at :: "u64 \<Rightarrow> i64 \<Rightarrow> bool list \<Rightarrow> TimestampDecompressor \<Rightarrow> bool" where
  "td_at t p bits d \<longleftrightarrow>
     \<not> td_first d \<and> td_prev_timestamp d = t \<and> td_prev_delta d = p \<and> br_rest (td_reader d) = bits"

lemma td_next_code:
  assumes "td_at t p (dod_code dod @ ys) d" and "decodable dod"
  defines "q \<equiv> if dod = 0 then p else dod"
  obtains d' where "td_next d = (Some (t + q), d')" and "td_at (t + q) q ys d'"
proof (cases "dod = 0")
  case True
  then have "br_rest (td_reader d) = False # ys" using assms(1) by (simp add: td_at_def dod_code_def)
  then obtain r where "br_read_bit (td_reader d) = (Some 0, r)" "br_rest r = ys" by (metis br_read_bit_rest of_bool_eq(1))
  then show thesis using assms(1) True by (intro that, simp add: td_next_def td_at_def q_def Let_def, simp add: td_at_def q_def)
next
  case False
  with assms obtain r\<^sub>1 r\<^sub>2 where "br_read_bit (td_reader d) = (Some 1, r\<^sub>1)" "td_read_dod r\<^sub>1 = (Some dod, r\<^sub>2)" "br_rest r\<^sub>2 = ys"
    by (metis td_at_def td_read_dod_code)
  then show thesis using assms(1) False by (intro that, simp add: td_next_def td_at_def q_def Let_def, simp add: td_at_def q_def)
qed

text \<open>The series that survive: the interval changes only from zero, to one that is decodable.\<close>

fun lossless :: "u64 \<Rightarrow> i64 \<Rightarrow> u64 list \<Rightarrow> bool" where
  "lossless t p [] = True"
| "lossless t p (u # us) = ((u - t = p \<or> p = 0 \<and> decodable (u - t)) \<and> lossless u (u - t) us)"

fun last_delta :: "u64 \<Rightarrow> i64 \<Rightarrow> u64 list \<Rightarrow> i64" where
  "last_delta t p [] = p"
| "last_delta t p (u # us) = last_delta u (u - t) us"

lemma td_series:
  "td_at t p (series_code t p ts @ ys) d \<Longrightarrow> lossless t p ts \<Longrightarrow>
   \<exists>d'. td_at (last (t # ts)) (last_delta t p ts) ys d' \<and>
     (\<forall>m. td_take (length ts + m) d = map_option (append ts) (td_take m d'))"
proof (induction ts arbitrary: t p d)
  case Nil
  then show ?case by (auto simp: option.map_ident)
next
  case (Cons u us)
  let ?dod = "u - t - p"
  have "decodable ?dod" "(if ?dod = 0 then p else ?dod) = u - t" "t + (u - t) = u"
    using Cons.prems(2) by (auto simp: decodable_def)
  then obtain d\<^sub>1 where d\<^sub>1: "td_next d = (Some u, d\<^sub>1)" "td_at u (u - t) (series_code u (u - t) us @ ys) d\<^sub>1"
    using Cons.prems(1) td_next_code [of t p ?dod "series_code u (u - t) us @ ys" d] by auto
  with Cons.IH [OF d\<^sub>1(2)] Cons.prems(2) obtain d' where
    "td_at (last (u # us)) (last_delta u (u - t) us) ys d'"
    "\<forall>m. td_take (length us + m) d\<^sub>1 = map_option (append us) (td_take m d')"
    by auto
  with d\<^sub>1 show ?case by (intro exI [of _ d']) (auto simp: option.map_comp comp_def)
qed

lemma td_next_first:
  assumes "stream_bits data = low_bits t 64 @ ys"
  obtains d where "td_next (td_new data) = (Some t, d)" and "td_at t 0 ys d"
proof -
  obtain r where "br_read_bits 64 (br_new data) = (Some t, r)" "br_rest r = ys"
    using br_read_bits_low [of "br_new data" t 64 ys] assms by (auto simp: take_bit_word_eq_self)
  then show thesis by (intro that, simp add: td_next_def td_new_def, simp add: td_at_def)
qed

text \<open>
  C30: Compressed timestamps are read back exactly, for every series whose interval changes only from zero
  to an interval between \<open>-16\<close> and \<open>15\<close> or between \<open>32\<close> and \<open>1023\<close>, and so in particular for every series
  with a constant interval in that range, whatever its length and its first timestamp.
\<close>

theorem timestamps_roundtrip:
  assumes "lossless t 0 ts"
  shows "decompress_timestamps (Suc (length ts)) (compress_timestamps (t # ts)) = Some (t # ts)"
proof -
  obtain n where "stream_bits (compress_timestamps (t # ts)) = low_bits t 64 @ series_code t 0 ts @ replicate n False"
    using compress_timestamps_bits by blast
  then obtain d where d: "td_next (td_new (compress_timestamps (t # ts))) = (Some t, d)"
      "td_at t 0 (series_code t 0 ts @ replicate n False) d"
    by (rule td_next_first)
  from td_series [OF d(2) assms] have "td_take (length ts) d = Some ts"
    by (metis add_0_right option.map(2) td_take.simps(1) append_Nil2)
  with d(1) show ?thesis by (simp add: decompress_timestamps_def)
qed

theorem timestamps_roundtrip_witness:
  "decompress_timestamps 4 (compress_timestamps [1000, 1005, 1010, 1015]) = Some [1000, 1005, 1010, 1015]"
proof -
  have "lossless 1000 0 [1005, 1010, 1015]" by (simp add: decodable_def)
  from timestamps_roundtrip [OF this] show ?thesis by (simp add: eval_nat_numeral)
qed

text \<open>
  A change of the interval is not read back. When a series that is read back exactly, with a last
  interval other than zero, is continued by one timestamp at a new interval, the decoder returns that
  timestamp too early by exactly the previous interval: it takes the difference of the intervals for the
  interval itself.
\<close>

lemma interval_change_lost:
  assumes "lossless t 0 ts" and "last_delta t 0 ts \<noteq> 0"
    and "decodable (v - last (t # ts) - last_delta t 0 ts)" and "v - last (t # ts) \<noteq> last_delta t 0 ts"
  shows "decompress_timestamps (length ts + 2) (compress_timestamps (t # ts @ [v])) =
           Some (t # ts @ [v - last_delta t 0 ts]) \<and> v - last_delta t 0 ts \<noteq> v"
proof -
  let ?l = "last (t # ts)" and ?p = "last_delta t 0 ts"
  have code: "series_code t p (ts @ [v]) = series_code t p ts @ dod_code (v - last (t # ts) - last_delta t p ts)" for p
    by (induction ts arbitrary: t p) auto
  obtain n where "stream_bits (compress_timestamps (t # ts @ [v])) =
      low_bits t 64 @ series_code t 0 ts @ dod_code (v - ?l - ?p) @ replicate n False"
    using compress_timestamps_bits [of t "ts @ [v]"] by (auto simp: code)
  then obtain d where d: "td_next (td_new (compress_timestamps (t # ts @ [v]))) = (Some t, d)"
      "td_at t 0 (series_code t 0 ts @ dod_code (v - ?l - ?p) @ replicate n False) d"
    by (rule td_next_first)
  from td_series [OF d(2) assms(1)] obtain d' where
    d': "td_at ?l ?p (dod_code (v - ?l - ?p) @ replicate n False) d'"
      "td_take (length ts + 1) d = map_option (append ts) (td_take 1 d')" by blast
  have "v - ?l - ?p \<noteq> 0" using assms(4) by simp
  then obtain d'' where "td_next d' = (Some (?l + (v - ?l - ?p)), d'')"
    using td_next_code [OF d'(1) assms(3)] by auto
  then have "td_take (Suc (length ts)) d = Some (ts @ [v - ?p])" using d'(2) by (simp add: numeral_eq_Suc algebra_simps)
  then show ?thesis using d(1) assms(2) by (simp add: decompress_timestamps_def)
qed

text \<open>Even a constant interval is not read back between sixteen and thirty-one.\<close>

lemma sixteen_reads_negative: "sign_extend5 (take_bit 5 ((20 :: i64) AND 31)) = - 12"
  by (simp add: sign_extend5_def)

section \<open>Prices and sizes\<close>

record GorillaFloatCompressor =
  gf_prev_value :: u64
  gf_first :: bool
  gf_out :: BitBuffer

definition gf_new :: GorillaFloatCompressor where
  "gf_new = \<lparr>gf_prev_value = 0, gf_first = True, gf_out = bb_new\<rparr>"

definition gf_write_xor :: "u64 \<Rightarrow> BitBuffer \<Rightarrow> BitBuffer" where
  "gf_write_xor x w =
     (if x = 0 then bb_write_bit 0 w
      else
        let leading = u64_leading_zeros x;
            trailing = u64_trailing_zeros x;
            significant_bits = 64 - leading - trailing
        in bb_write_bits (drop_bit trailing x) significant_bits
             (bb_write_bits (of_nat significant_bits) 6
               (bb_write_bits (of_nat leading) 5 (bb_write_bit 1 w))))"

definition gf_add_value :: "u64 \<Rightarrow> GorillaFloatCompressor \<Rightarrow> GorillaFloatCompressor" where
  "gf_add_value value_bits g =
     (if gf_first g
      then g\<lparr>gf_prev_value := value_bits, gf_out := bb_write_bits value_bits 64 (gf_out g), gf_first := False\<rparr>
      else g\<lparr>gf_out := gf_write_xor (value_bits XOR gf_prev_value g) (gf_out g), gf_prev_value := value_bits\<rparr>)"

definition gf_finalize :: "GorillaFloatCompressor \<Rightarrow> u8 list" where
  "gf_finalize g = bb_finalize (gf_out g)"

definition gf_reset :: "GorillaFloatCompressor \<Rightarrow> GorillaFloatCompressor" where
  "gf_reset g = gf_new"

definition gf_stats :: "GorillaFloatCompressor \<Rightarrow> CompressionStats" where
  "gf_stats g =
     \<lparr>cs_values_encoded = (if gf_first g then 0 else 1),
      cs_compressed_bytes = length (bb_buffer (gf_out g)), cs_bits_used = bb_bit_position (gf_out g)\<rparr>"

definition compress_values :: "u64 list \<Rightarrow> u8 list" where
  "compress_values vs = gf_finalize (fold gf_add_value vs gf_new)"

lemma bb_write_bits_cong:
  "(\<And>i. i < n \<Longrightarrow> bit v i = bit v' i) \<Longrightarrow> bb_write_bits v n w = bb_write_bits v' n w"
  unfolding bb_write_bits_def by (intro fold_cong) (auto simp: low_bit)

lemma leading_code_wraps: "i < 5 \<Longrightarrow> bit (of_nat (m + 32) :: u64) i = bit (of_nat m :: u64) i"
proof -
  assume "i < 5"
  then have "bit (m + 32) i = bit m i"
    using bit_take_bit_iff [of 5 "m + 32" i] bit_take_bit_iff [of 5 m i] by (simp add: take_bit_eq_mod)
  then show ?thesis by (simp add: bit_of_nat_iff del: of_nat_add)
qed

lemma gf_write_xor_collides:
  assumes "x \<noteq> 0" and "x < 2 ^ 32"
  shows "gf_write_xor (push_bit 32 x) w = gf_write_xor x w" and "push_bit 32 x \<noteq> x"
proof -
  have "unat x < 2 ^ (64 - 32)" using assms(2) by (simp add: word_less_nat_alt)
  note shift = shifted_zeros [OF assms(1) this]
  show "push_bit 32 x \<noteq> x" using shift(2) by auto
  have "push_bit 32 x \<noteq> 0"
  proof
    assume "push_bit 32 x = 0"
    then have "u64_trailing_zeros (push_bit 32 x) = 64" by (simp add: u64_trailing_zeros_def takeWhile_eq_all_conv [THEN iffD2])
    then show False using shift(1,2,4) by simp
  qed
  moreover have "bb_write_bits (of_nat (u64_leading_zeros x)) 5 v =
      bb_write_bits (of_nat (u64_leading_zeros (push_bit 32 x))) 5 v" for v
    using leading_code_wraps [of _ "u64_leading_zeros (push_bit 32 x)"] by (intro bb_write_bits_cong) (simp add: shift(1))
  moreover have "64 - u64_leading_zeros (push_bit 32 x) - u64_trailing_zeros (push_bit 32 x) =
      64 - u64_leading_zeros x - u64_trailing_zeros x"
    using shift(1,2,4) by simp
  ultimately show "gf_write_xor (push_bit 32 x) w = gf_write_xor x w"
    using assms(1) shift(2,3) by (simp add: gf_write_xor_def Let_def)
qed

text \<open>
  Compressed prices cannot be told apart. The count of leading zeros is stored in five bits only, so
  after any prices a change of the low half of the bit pattern and the same change of its high half are
  stored as the same bytes, although the two series end in different prices.
\<close>

lemma prices_collide:
  assumes "x \<noteq> 0" and "x < 2 ^ 32"
  shows "compress_values (vs @ [v, v XOR x]) = compress_values (vs @ [v, v XOR push_bit 32 x]) \<and>
    v XOR x \<noteq> v XOR push_bit 32 x"
proof -
  let ?g = "fold gf_add_value (vs @ [v]) gf_new"
  have g: "\<not> gf_first ?g" "gf_prev_value ?g = v" by (simp_all add: gf_add_value_def)
  have out: "gf_out (gf_add_value (v XOR y) g) = gf_write_xor y (gf_out g)"
    if "\<not> gf_first g" "gf_prev_value g = v" for g y
  proof -
    have "(v XOR y) XOR v = y" by (rule bit_word_eqI) (auto simp: bit_simps)
    with that show ?thesis by (simp add: gf_add_value_def)
  qed
  from out [OF g] have "compress_values (vs @ [v, v XOR y]) = bb_finalize (gf_write_xor y (gf_out ?g))" for y
    by (simp add: compress_values_def gf_finalize_def)
  moreover have "v XOR x \<noteq> v XOR push_bit 32 x"
  proof
    assume "v XOR x = v XOR push_bit 32 x"
    then have "v XOR (v XOR x) = v XOR (v XOR push_bit 32 x)" by simp
    then show False using gf_write_xor_collides(2) [OF assms] by (simp flip: xor.assoc)
  qed
  ultimately show ?thesis using gf_write_xor_collides(1) [OF assms] by simp
qed

section \<open>Whole ticks\<close>

record TickCompressor =
  tc_timestamp_compressor :: GorillaTimestampCompressor
  tc_price_compressor :: GorillaFloatCompressor
  tc_size_compressor :: GorillaFloatCompressor
  tc_ticks_compressed :: u64

record TickCompressedData =
  tcd_timestamps :: "u8 list"
  tcd_prices :: "u8 list"
  tcd_sizes :: "u8 list"
  tcd_ticks_count :: u64

definition tc_new :: TickCompressor where
  "tc_new =
     \<lparr>tc_timestamp_compressor = gt_new, tc_price_compressor = gf_new, tc_size_compressor = gf_new,
      tc_ticks_compressed = 0\<rparr>"

definition tc_add_tick :: "u64 \<times> u64 \<times> u64 \<Rightarrow> TickCompressor \<Rightarrow> TickCompressor" where
  "tc_add_tick tick c =
     (case tick of (timestamp, price, amount) \<Rightarrow>
       \<lparr>tc_timestamp_compressor = gt_add_timestamp timestamp (tc_timestamp_compressor c),
        tc_price_compressor = gf_add_value price (tc_price_compressor c),
        tc_size_compressor = gf_add_value amount (tc_size_compressor c),
        tc_ticks_compressed = tc_ticks_compressed c + 1\<rparr>)"

definition tc_finalize :: "TickCompressor \<Rightarrow> TickCompressedData" where
  "tc_finalize c =
     \<lparr>tcd_timestamps = gt_finalize (tc_timestamp_compressor c),
      tcd_prices = gf_finalize (tc_price_compressor c),
      tcd_sizes = gf_finalize (tc_size_compressor c),
      tcd_ticks_count = tc_ticks_compressed c\<rparr>"

definition tc_reset :: "TickCompressor \<Rightarrow> TickCompressor" where
  "tc_reset c =
     \<lparr>tc_timestamp_compressor = gt_reset (tc_timestamp_compressor c),
      tc_price_compressor = gf_reset (tc_price_compressor c),
      tc_size_compressor = gf_reset (tc_size_compressor c), tc_ticks_compressed = 0\<rparr>"

text \<open>The three columns of the ticks are compressed independently of each other.\<close>

lemma tick_columns:
  "tc_finalize (fold tc_add_tick ticks tc_new) =
     \<lparr>tcd_timestamps = compress_timestamps (map fst ticks),
      tcd_prices = compress_values (map (fst \<circ> snd) ticks),
      tcd_sizes = compress_values (map (snd \<circ> snd) ticks),
      tcd_ticks_count = of_nat (length ticks)\<rparr>"
proof -
  have "fold tc_add_tick ticks c =
      \<lparr>tc_timestamp_compressor = fold gt_add_timestamp (map fst ticks) (tc_timestamp_compressor c),
       tc_price_compressor = fold gf_add_value (map (fst \<circ> snd) ticks) (tc_price_compressor c),
       tc_size_compressor = fold gf_add_value (map (snd \<circ> snd) ticks) (tc_size_compressor c),
       tc_ticks_compressed = tc_ticks_compressed c + of_nat (length ticks)\<rparr>" for c
    by (induction ticks arbitrary: c) (simp_all add: tc_add_tick_def split_def)
  then show ?thesis
    by (simp add: tc_finalize_def tc_new_def compress_timestamps_def compress_values_def)
qed

end
