(* ===== verification/Xor_Encoding.thy ===== *)
theory Xor_Encoding
  imports Bit_Stream
begin

text \<open>
  XOR compression of prices and sizes (\<open>src/src/tickdb/xor_encoding.rs\<close>): the block compressor and its
  decompressor, the streaming compressor with its fixed buffer, and the four-lane compressor. Values
  are bit patterns. The counts of leading and significant bits are bytes in the source; they never
  exceed 64 and are natural numbers here.
\<close>

unbundle bit_operations_syntax

section \<open>The block compressor\<close>

record CompressedBlock =
  blk_first_value :: u64
  blk_leading_zeros :: nat
  blk_significant_bits :: nat
  blk_data :: "u8 list"
  blk_value_count :: nat

record XorBlockCompressor =
  xb_block_size :: nat
  xb_values :: "u64 list"
  xb_compressed_blocks :: "CompressedBlock list"
  xb_prev_value :: u64
  xb_first :: bool

definition xb_new :: "nat \<Rightarrow> XorBlockCompressor" where
  "xb_new block_size =
     \<lparr>xb_block_size = block_size, xb_values = [], xb_compressed_blocks = [], xb_prev_value = 0, xb_first = True\<rparr>"

definition xb_default :: XorBlockCompressor where
  "xb_default = xb_new 256"

text \<open>The smallest count of leading zeros and the largest count of significant bits of a block.\<close>

fun xb_layout :: "u64 \<Rightarrow> u64 list \<Rightarrow> nat \<times> nat \<Rightarrow> nat \<times> nat" where
  "xb_layout prev [] (min_leading, max_sig_bits) = (min_leading, max_sig_bits)"
| "xb_layout prev (cur # vs) (min_leading, max_sig_bits) =
     (let x = prev XOR cur
      in xb_layout cur vs
           (if x \<noteq> 0
            then (min min_leading (u64_leading_zeros x),
                  max max_sig_bits (64 - u64_leading_zeros x - u64_trailing_zeros x))
            else (min_leading, max_sig_bits)))"

fun xb_write_values :: "nat \<Rightarrow> nat \<Rightarrow> u64 \<Rightarrow> u64 list \<Rightarrow> BitWriter \<Rightarrow> BitWriter" where
  "xb_write_values leading_zeros significant_bits prev [] w = w"
| "xb_write_values leading_zeros significant_bits prev (cur # vs) w =
     (let x = prev XOR cur;
          w = (if 0 < significant_bits
               then bw_write_bits (drop_bit (64 - leading_zeros - significant_bits) x) significant_bits w
               else w)
      in xb_write_values leading_zeros significant_bits cur vs w)"

definition xb_block :: "u64 list \<Rightarrow> CompressedBlock" where
  "xb_block vs =
     (let first_value = hd vs;
          (leading, sig) = xb_layout first_value (tl vs) (64, 0);
          writer = xb_write_values leading sig first_value (tl vs) (bw_write_u64 first_value bw_new)
      in \<lparr>blk_first_value = first_value, blk_leading_zeros = leading, blk_significant_bits = sig,
          blk_data = bw_finalize writer, blk_value_count = length vs\<rparr>)"

definition xb_compress_block :: "XorBlockCompressor \<Rightarrow> XorBlockCompressor" where
  "xb_compress_block c =
     (if xb_values c = [] then c
      else c\<lparr>xb_compressed_blocks := xb_compressed_blocks c @ [xb_block (xb_values c)], xb_values := []\<rparr>)"

definition xb_add_value :: "u64 \<Rightarrow> XorBlockCompressor \<Rightarrow> XorBlockCompressor" where
  "xb_add_value value_bits c =
     (let c = c\<lparr>xb_values := xb_values c @ [value_bits]\<rparr>
      in if xb_block_size c \<le> length (xb_values c) then xb_compress_block c else c)"

definition xb_finalize :: "XorBlockCompressor \<Rightarrow> CompressedBlock list" where
  "xb_finalize c = xb_compressed_blocks (if xb_values c \<noteq> [] then xb_compress_block c else c)"

definition xb_reset :: "XorBlockCompressor \<Rightarrow> XorBlockCompressor" where
  "xb_reset c = c\<lparr>xb_values := [], xb_compressed_blocks := [], xb_prev_value := 0, xb_first := True\<rparr>"

record XorCompressionStats =
  xcs_values_processed :: nat
  xcs_uncompressed_bytes :: nat
  xcs_compressed_bytes :: nat
  xcs_blocks_created :: nat

definition xb_stats :: "XorBlockCompressor \<Rightarrow> XorCompressionStats" where
  "xb_stats c =
     (let values_processed = length (xb_values c) + sum_list (map blk_value_count (xb_compressed_blocks c))
      in \<lparr>xcs_values_processed = values_processed, xcs_uncompressed_bytes = values_processed * 8,
          xcs_compressed_bytes = sum_list (map (\<lambda>b. length (blk_data b) + 16) (xb_compressed_blocks c)),
          xcs_blocks_created = length (xb_compressed_blocks c)\<rparr>)"

section \<open>The decompressor\<close>

record XorBlockDecompressor =
  xd_blocks :: "CompressedBlock list"
  xd_current_block_idx :: nat
  xd_current_value_idx :: nat
  xd_prev_value :: u64

definition xd_new :: "CompressedBlock list \<Rightarrow> XorBlockDecompressor" where
  "xd_new blocks =
     \<lparr>xd_blocks = blocks, xd_current_block_idx = 0, xd_current_value_idx = 0, xd_prev_value = 0\<rparr>"

text \<open>The XOR read from the block is the constant zero, a placeholder in the source.\<close>

function xd_next :: "XorBlockDecompressor \<Rightarrow> u64 option \<times> XorBlockDecompressor" where
  "xd_next d =
     (if length (xd_blocks d) \<le> xd_current_block_idx d then (None, d)
      else
        let block = xd_blocks d ! xd_current_block_idx d
        in if xd_current_value_idx d = 0
           then (Some (blk_first_value block),
                 d\<lparr>xd_prev_value := blk_first_value block, xd_current_value_idx := xd_current_value_idx d + 1\<rparr>)
           else if blk_value_count block \<le> xd_current_value_idx d
           then xd_next (d\<lparr>xd_current_block_idx := xd_current_block_idx d + 1, xd_current_value_idx := 0\<rparr>)
           else
             let x = 0;
                 value_bits = xd_prev_value d XOR x
             in (Some value_bits,
                 d\<lparr>xd_prev_value := value_bits, xd_current_value_idx := xd_current_value_idx d + 1\<rparr>))"
  by auto
termination
  by (relation "measure (\<lambda>d. length (xd_blocks d) - xd_current_block_idx d)") auto

declare xd_next.simps [simp del]

definition xd_reset :: "XorBlockDecompressor \<Rightarrow> XorBlockDecompressor" where
  "xd_reset d = d\<lparr>xd_current_block_idx := 0, xd_current_value_idx := 0, xd_prev_value := 0\<rparr>"

text \<open>At most \<open>n\<close> values, up to the end.\<close>

fun xd_take :: "nat \<Rightarrow> XorBlockDecompressor \<Rightarrow> u64 list" where
  "xd_take 0 d = []"
| "xd_take (Suc n) d = (case xd_next d of (None, d) \<Rightarrow> [] | (Some v, d) \<Rightarrow> v # xd_take n d)"

section \<open>What the decompressor returns\<close>

definition repeat_first :: "CompressedBlock \<Rightarrow> u64 list" where
  "repeat_first b = replicate (blk_value_count b) (blk_first_value b)"

text \<open>The values still to come.\<close>

definition xd_rest :: "XorBlockDecompressor \<Rightarrow> u64 list" where
  "xd_rest d =
     (if length (xd_blocks d) \<le> xd_current_block_idx d then []
      else if xd_current_value_idx d = 0
      then concat (map repeat_first (drop (xd_current_block_idx d) (xd_blocks d)))
      else replicate (blk_value_count (xd_blocks d ! xd_current_block_idx d) - xd_current_value_idx d) (xd_prev_value d) @
        concat (map repeat_first (drop (Suc (xd_current_block_idx d)) (xd_blocks d))))"

lemma xd_next_rest:
  "\<forall>b \<in> set (xd_blocks d). 0 < blk_value_count b \<Longrightarrow>
   (case xd_rest d of
      [] \<Rightarrow> fst (xd_next d) = None
    | v # vs \<Rightarrow> fst (xd_next d) = Some v \<and> xd_rest (snd (xd_next d)) = vs \<and> xd_blocks (snd (xd_next d)) = xd_blocks d)"
proof (induction d rule: xd_next.induct)
  case (1 d)
  let ?i = "xd_current_block_idx d" and ?j = "xd_current_value_idx d"
  let ?b = "xd_blocks d ! ?i"
  show ?case
  proof (cases "length (xd_blocks d) \<le> ?i")
    case True
    then show ?thesis by (simp add: xd_next.simps [of d] xd_rest_def)
  next
    case False
    then have pos: "0 < blk_value_count ?b" using "1.prems" by simp
    have here: "drop ?i (xd_blocks d) = ?b # drop (Suc ?i) (xd_blocks d)"
      using False by (simp add: Cons_nth_drop_Suc)
    consider "?j = 0" | "0 < ?j" "blk_value_count ?b \<le> ?j" | "0 < ?j" "?j < blk_value_count ?b" by linarith
    then show ?thesis
    proof cases
      case 1
      have "repeat_first ?b = blk_first_value ?b # replicate (blk_value_count ?b - 1) (blk_first_value ?b)"
        using pos by (cases "blk_value_count ?b") (simp_all add: repeat_first_def)
      with 1 False here show ?thesis by (simp add: xd_next.simps [of d] xd_rest_def Let_def)
    next
      case 2
      let ?d = "d\<lparr>xd_current_block_idx := ?i + 1, xd_current_value_idx := 0\<rparr>"
      have "xd_next d = xd_next ?d" using 2 False by (simp add: xd_next.simps [of d] Let_def)
      moreover have "xd_rest d = xd_rest ?d" using 2 False by (simp add: xd_rest_def)
      ultimately show ?thesis using "1.IH" [OF False refl] 2 "1.prems" by (simp split: list.splits)
    next
      case 3
      then have "replicate (blk_value_count ?b - ?j) (xd_prev_value d) =
          xd_prev_value d # replicate (blk_value_count ?b - Suc ?j) (xd_prev_value d)"
        by (metis Suc_diff_Suc replicate_Suc)
      with 3 False show ?thesis by (simp add: xd_next.simps [of d] xd_rest_def Let_def)
    qed
  qed
qed

lemma xd_take_rest: "\<forall>b \<in> set (xd_blocks d). 0 < blk_value_count b \<Longrightarrow> xd_take n d = take n (xd_rest d)"
proof (induction n arbitrary: d)
  case (Suc n)
  show ?case
    using xd_next_rest [OF Suc.prems] Suc.IH [of "snd (xd_next d)"] Suc.prems
    by (cases "xd_next d"; cases "xd_rest d") auto
qed simp

text \<open>The values of a series in blocks of \<open>n\<close>.\<close>

function blocks_of :: "nat \<Rightarrow> u64 list \<Rightarrow> u64 list list" where
  "blocks_of n vs = (if vs = [] then [] else take (max 1 n) vs # blocks_of n (drop (max 1 n) vs))"
  by auto
termination
  by (relation "measure (\<lambda>(n, vs). length vs)") auto

declare blocks_of.simps [simp del]

definition compress_blocks :: "nat \<Rightarrow> u64 list \<Rightarrow> CompressedBlock list" where
  "compress_blocks n vs = xb_finalize (fold xb_add_value vs (xb_new n))"

lemma compress_blocks_state:
  "length (xb_values c) < max 1 (xb_block_size c) \<Longrightarrow>
   xb_finalize (fold xb_add_value vs c) =
     xb_compressed_blocks c @ map xb_block (blocks_of (xb_block_size c) (xb_values c @ vs))"
proof (induction vs arbitrary: c)
  case Nil
  then have "max 1 (xb_block_size c) = Suc (max 1 (xb_block_size c) - 1)" by simp
  with Nil show ?case
    by (auto simp: xb_finalize_def xb_compress_block_def blocks_of.simps)
next
  case (Cons v vs)
  show ?case
  proof (cases "xb_block_size c \<le> Suc (length (xb_values c))")
    case True
    then have n: "max 1 (xb_block_size c) = Suc (length (xb_values c))" using Cons.prems by auto
    then have "blocks_of (xb_block_size c) (xb_values c @ v # vs) =
        (xb_values c @ [v]) # blocks_of (xb_block_size c) vs"
      by (subst blocks_of.simps) simp
    with True Cons.IH [of "xb_add_value v c"] show ?thesis
      by (simp add: xb_add_value_def xb_compress_block_def Let_def)
  next
    case False
    then show ?thesis using Cons.IH [of "xb_add_value v c"] by (simp add: xb_add_value_def Let_def)
  qed
qed

lemma compress_blocks_eq: "compress_blocks n vs = map xb_block (blocks_of n vs)"
  using compress_blocks_state [of "xb_new n" vs] by (simp add: compress_blocks_def xb_new_def)

lemma blocks_of_nonempty: "b \<in> set (blocks_of n vs) \<Longrightarrow> b \<noteq> []"
proof (induction n vs rule: blocks_of.induct)
  case (1 n vs)
  then show ?case by (subst (asm) (2) blocks_of.simps) (auto split: if_splits)
qed

lemma concat_blocks_of: "concat (blocks_of n vs) = vs"
proof (induction n vs rule: blocks_of.induct)
  case (1 n vs)
  then show ?case by (subst blocks_of.simps) simp
qed

definition all_equal :: "u64 list \<Rightarrow> bool" where
  "all_equal vs \<longleftrightarrow> (\<forall>v \<in> set vs. v = hd vs)"

lemma repeat_block: "vs \<noteq> [] \<Longrightarrow> repeat_first (xb_block vs) = replicate (length vs) (hd vs)"
  by (simp add: repeat_first_def xb_block_def Let_def split_def)

lemma replicate_hd_iff: "replicate (length vs) (hd vs) = vs \<longleftrightarrow> all_equal vs"
proof
  assume eq: "replicate (length vs) (hd vs) = vs"
  have "set vs \<subseteq> {hd vs}" by (subst eq [symmetric]) auto
  then show "all_equal vs" by (auto simp: all_equal_def)
next
  assume "all_equal vs"
  then show "replicate (length vs) (hd vs) = vs" unfolding all_equal_def by (intro replicate_length_same)
qed

lemma map_replicate_iff:
  "map (\<lambda>b. replicate (length b) (hd b)) bs = bs \<longleftrightarrow> list_all all_equal bs"
  by (induction bs) (simp_all add: replicate_hd_iff)

lemma concat_eq_iff:
  "length xss = length yss \<Longrightarrow> (\<And>i. i < length xss \<Longrightarrow> length (xss ! i) = length (yss ! i)) \<Longrightarrow>
   concat xss = concat yss \<longleftrightarrow> xss = yss"
proof (induction xss yss rule: list_induct2)
  case (Cons xs xss ys yss)
  have "length xs = length ys" using Cons.prems [of 0] by simp
  moreover have "concat xss = concat yss \<longleftrightarrow> xss = yss" using Cons.prems [of "Suc _"] by (intro Cons.IH) simp
  ultimately show ?case by simp
qed simp

text \<open>
  The block decompressor repeats the first value of each block. Reading back a compressed series gives
  as many values as went in, but every block is its first value over and over, so the series is read back
  exactly if and only if all values of each block are equal.
\<close>

lemma decompressor_repeats_first:
  "let read_back = xd_take (length vs) (xd_new (compress_blocks n vs))
   in read_back = concat (map (\<lambda>b. replicate (length b) (hd b)) (blocks_of n vs)) \<and>
      (read_back = vs \<longleftrightarrow> list_all all_equal (blocks_of n vs))"
proof -
  let ?bs = "blocks_of n vs" and ?f = "\<lambda>b. replicate (length b) (hd b :: u64)"
  let ?d = "xd_new (compress_blocks n vs)"
  have "\<forall>b \<in> set (xd_blocks ?d). 0 < blk_value_count b"
    using blocks_of_nonempty by (auto simp: xd_new_def compress_blocks_eq xb_block_def Let_def split_def)
  moreover have "xd_rest ?d = concat (map ?f ?bs)"
    using blocks_of_nonempty
    by (auto simp: xd_rest_def xd_new_def compress_blocks_eq comp_def repeat_block intro!: arg_cong [of _ _ concat])
  moreover have "length (concat (map ?f ?bs)) = length vs"
    using concat_blocks_of [of n vs] by (metis (no_types, lifting) length_concat length_replicate map_map comp_def map_eq_conv)
  ultimately have read_back: "xd_take (length vs) ?d = concat (map ?f ?bs)" by (simp add: xd_take_rest)
  have "concat (map ?f ?bs) = vs \<longleftrightarrow> concat (map ?f ?bs) = concat ?bs" by (simp add: concat_blocks_of)
  also have "\<dots> \<longleftrightarrow> map ?f ?bs = ?bs" by (rule concat_eq_iff) simp_all
  also have "\<dots> \<longleftrightarrow> list_all all_equal ?bs"
    by (rule map_replicate_iff)
  finally show ?thesis using read_back by (simp add: Let_def)
qed

text \<open>The shift of the block layout stays within the word.\<close>

lemma zeros_within: "x \<noteq> 0 \<Longrightarrow> u64_leading_zeros x + (64 - u64_leading_zeros x - u64_trailing_zeros x) \<le> 64"
  using shifted_zeros(4) [of x 0] unat_u64_less [of x] by simp

lemma xb_layout_within:
  "l + m \<le> 64 \<Longrightarrow> xb_layout prev vs (l, m) = (l', m') \<Longrightarrow> l' + m' \<le> 64"
proof (induction vs arbitrary: prev l m)
  case (Cons v vs)
  let ?x = "prev XOR v"
  show ?case
  proof (cases "?x = 0")
    case True
    with Cons show ?thesis by simp
  next
    case False
    then have "min l (u64_leading_zeros ?x) + max m (64 - u64_leading_zeros ?x - u64_trailing_zeros ?x) \<le> 64"
      using zeros_within [OF False] Cons.prems(1) by linarith
    from Cons.IH [OF this] False Cons.prems(2) show ?thesis by (simp add: Let_def)
  qed
qed simp

section \<open>The streaming compressor\<close>

record StreamingXorCompressor =
  sx_buffer :: "u8 list"
  sx_write_pos :: nat
  sx_prev_value :: u64
  sx_first :: bool
  sx_leading_zeros :: nat
  sx_significant_bits :: nat

definition sx_new :: StreamingXorCompressor where
  "sx_new =
     \<lparr>sx_buffer = replicate 65536 0, sx_write_pos = 0, sx_prev_value = 0, sx_first = True,
      sx_leading_zeros = 64, sx_significant_bits = 0\<rparr>"

text \<open>The bytes of a value that is not zero: the count of significant bits, then these bits.\<close>

definition sig_bytes :: "u64 \<Rightarrow> nat \<Rightarrow> u8 list" where
  "sig_bytes shifted sig_bits = map (\<lambda>i. ucast (drop_bit (i * 8) shifted)) [0..<(sig_bits + 7) div 8]"

definition sx_add_value :: "u64 \<Rightarrow> StreamingXorCompressor \<Rightarrow> bool \<times> StreamingXorCompressor" where
  "sx_add_value value_bits c =
     (if sx_first c
      then
        if length (sx_buffer c) < sx_write_pos c + 8 then (False, c)
        else (True, c\<lparr>sx_buffer := write_at (sx_write_pos c) (to_le_bytes value_bits) (sx_buffer c),
                      sx_write_pos := sx_write_pos c + 8, sx_prev_value := value_bits, sx_first := False\<rparr>)
      else
        let x = sx_prev_value c XOR value_bits
        in if x = 0
           then
             if length (sx_buffer c) < sx_write_pos c + 1 then (False, c)
             else (True, c\<lparr>sx_buffer := (sx_buffer c)[sx_write_pos c := 0],
                           sx_write_pos := sx_write_pos c + 1, sx_prev_value := value_bits\<rparr>)
           else
             let leading = u64_leading_zeros x;
                 trailing = u64_trailing_zeros x;
                 sig_bits = 64 - leading - trailing;
                 c = c\<lparr>sx_leading_zeros := min (sx_leading_zeros c) leading,
                       sx_significant_bits := max (sx_significant_bits c) sig_bits\<rparr>;
                 required_space = 1 + (sig_bits + 7) div 8
             in if length (sx_buffer c) < sx_write_pos c + required_space then (False, c)
                else (True, c\<lparr>sx_buffer := write_at (sx_write_pos c + 1) (sig_bytes (drop_bit trailing x) sig_bits)
                                ((sx_buffer c)[sx_write_pos c := of_nat sig_bits]),
                              sx_write_pos := sx_write_pos c + required_space, sx_prev_value := value_bits\<rparr>))"

definition sx_get_data :: "StreamingXorCompressor \<Rightarrow> u8 list" where
  "sx_get_data c = take (sx_write_pos c) (sx_buffer c)"

definition sx_reset :: "StreamingXorCompressor \<Rightarrow> StreamingXorCompressor" where
  "sx_reset c =
     c\<lparr>sx_write_pos := 0, sx_prev_value := 0, sx_first := True, sx_leading_zeros := 64, sx_significant_bits := 0\<rparr>"

section \<open>The four-lane compressor\<close>

record SimdXorCompressor =
  quad_buffer :: "u64 list"
  quad_pos :: nat
  quad_output :: "u8 list"

definition quad_new :: SimdXorCompressor where
  "quad_new = \<lparr>quad_buffer = replicate 4 0, quad_pos = 0, quad_output = []\<rparr>"

definition quad_push :: "u64 \<Rightarrow> u8 list \<Rightarrow> u8 list" where
  "quad_push x output =
     (if x = 0 then output @ [0]
      else
        let leading = u64_leading_zeros x;
            trailing = u64_trailing_zeros x;
            sig_bits = 64 - leading - trailing
        in output @ [of_nat sig_bits] @ sig_bytes (drop_bit trailing x) sig_bits)"

definition quad_process_quad ::
    "u64 list \<Rightarrow> u64 list \<Rightarrow> SimdXorCompressor \<Rightarrow> u64 list \<times> SimdXorCompressor" where
  "quad_process_quad vs prev q = (vs, q\<lparr>quad_output := fold quad_push (map2 (XOR) prev vs) (quad_output q)\<rparr>)"

definition quad_add_value :: "u64 \<Rightarrow> SimdXorCompressor \<Rightarrow> SimdXorCompressor" where
  "quad_add_value v q =
     (let q = q\<lparr>quad_buffer := (quad_buffer q)[quad_pos q := v], quad_pos := quad_pos q + 1\<rparr>
      in if quad_pos q = 4 then q\<lparr>quad_pos := 0\<rparr> else q)"

section \<open>What a stream holds\<close>

text \<open>The bytes of one value in a stream, for both compressors.\<close>

definition xor_record :: "u64 \<Rightarrow> u8 list" where
  "xor_record x = quad_push x []"

lemma quad_push_eq: "quad_push x output = output @ xor_record x"
  by (simp add: xor_record_def quad_push_def Let_def)

definition sx_wf :: "StreamingXorCompressor \<Rightarrow> bool" where
  "sx_wf c \<longleftrightarrow> length (sx_buffer c) = 65536 \<and> sx_write_pos c \<le> 65536"

definition sx_record :: "u64 \<Rightarrow> StreamingXorCompressor \<Rightarrow> u8 list" where
  "sx_record v c = (if sx_first c then to_le_bytes v else xor_record (sx_prev_value c XOR v))"

lemma length_sig_bytes [simp]: "length (sig_bytes x n) = (n + 7) div 8"
  by (simp add: sig_bytes_def)

lemma write_at_Cons:
  "i + Suc (length ys) \<le> length xs \<Longrightarrow> write_at (i + 1) ys (xs[i := y]) = write_at i (y # ys) xs"
  by (simp add: write_at_def take_Suc_conv_app_nth)

text \<open>A call that succeeds appends the record of its value to the data; one that fails leaves the data.\<close>

lemma sx_add_value_first:
  assumes "sx_wf c" and "sx_first c"
  shows "sx_add_value v c =
    (if sx_write_pos c + 8 \<le> 65536
     then (True, c\<lparr>sx_buffer := write_at (sx_write_pos c) (sx_record v c) (sx_buffer c),
             sx_write_pos := sx_write_pos c + length (sx_record v c), sx_prev_value := v, sx_first := False\<rparr>)
     else (False, c))"
  using assms by (simp add: sx_add_value_def sx_record_def sx_wf_def not_less)

lemma sx_add_value_later:
  assumes "sx_wf c" and "\<not> sx_first c"
  obtains l m where "sx_add_value v c =
    (if sx_write_pos c + length (sx_record v c) \<le> 65536
     then (True, c\<lparr>sx_buffer := write_at (sx_write_pos c) (sx_record v c) (sx_buffer c),
             sx_write_pos := sx_write_pos c + length (sx_record v c), sx_prev_value := v,
             sx_leading_zeros := l, sx_significant_bits := m\<rparr>)
     else (False, c\<lparr>sx_leading_zeros := l, sx_significant_bits := m\<rparr>))"
proof (cases "sx_prev_value c XOR v = 0")
  case True
  with assms show thesis
    by (intro that [where l = "sx_leading_zeros c" and m = "sx_significant_bits c"])
      (auto simp: sx_add_value_def sx_record_def sx_wf_def xor_record_def quad_push_def write_at_single Let_def)
next
  case False
  let ?x = "sx_prev_value c XOR v"
  let ?l = "u64_leading_zeros ?x" and ?s = "64 - u64_leading_zeros ?x - u64_trailing_zeros ?x"
  let ?ys = "sig_bytes (drop_bit (u64_trailing_zeros ?x) ?x) ?s"
  have rec: "sx_record v c = of_nat ?s # ?ys"
    using False assms(2) by (simp add: sx_record_def xor_record_def quad_push_def Let_def)
  have len: "length (sx_record v c) = 1 + (?s + 7) div 8" by (simp add: rec)
  show thesis
  proof (rule that [where l = "min (sx_leading_zeros c) ?l" and m = "max (sx_significant_bits c) ?s"], goal_cases)
    case 1
    have "write_at (sx_write_pos c + 1) ?ys ((sx_buffer c)[sx_write_pos c := of_nat ?s]) =
        write_at (sx_write_pos c) (sx_record v c) (sx_buffer c)"
      if "sx_write_pos c + length (sx_record v c) \<le> 65536"
      using that assms(1) unfolding rec by (intro write_at_Cons) (simp add: sx_wf_def)
    then show ?case
      using assms False len by (auto simp: sx_add_value_def sx_wf_def Let_def not_less)
  qed
qed

lemma sx_add_value_data:
  assumes wf: "sx_wf c"
  shows "sx_wf (snd (sx_add_value v c))"
    and "fst (sx_add_value v c) = (length (sx_get_data c) + length (sx_record v c) \<le> 65536)"
    and "sx_get_data (snd (sx_add_value v c)) =
      sx_get_data c @ (if fst (sx_add_value v c) then sx_record v c else [])"
    and "fst (sx_add_value v c) \<Longrightarrow>
      sx_prev_value (snd (sx_add_value v c)) = v \<and> \<not> sx_first (snd (sx_add_value v c))"
proof -
  have size8: "sx_first c \<Longrightarrow> length (sx_record v c) = 8" by (simp add: sx_record_def)
  have "length (sx_get_data c) = sx_write_pos c" using wf by (simp add: sx_get_data_def sx_wf_def)
  note facts = this wf size8 take_write_at [of "sx_write_pos c" "sx_record v c" "sx_buffer c"]
  consider "sx_first c" | "\<not> sx_first c" by blast
  then have "sx_wf (snd (sx_add_value v c)) \<and>
      fst (sx_add_value v c) = (length (sx_get_data c) + length (sx_record v c) \<le> 65536) \<and>
      sx_get_data (snd (sx_add_value v c)) =
        sx_get_data c @ (if fst (sx_add_value v c) then sx_record v c else []) \<and>
      (fst (sx_add_value v c) \<longrightarrow>
        sx_prev_value (snd (sx_add_value v c)) = v \<and> \<not> sx_first (snd (sx_add_value v c)))"
  proof cases
    case 1
    then show ?thesis
      using facts sx_add_value_first [OF wf 1, of v]
      by (simp add: sx_wf_def sx_get_data_def)
  next
    case 2
    obtain l m where "sx_add_value v c =
      (if sx_write_pos c + length (sx_record v c) \<le> 65536
       then (True, c\<lparr>sx_buffer := write_at (sx_write_pos c) (sx_record v c) (sx_buffer c),
               sx_write_pos := sx_write_pos c + length (sx_record v c), sx_prev_value := v,
               sx_leading_zeros := l, sx_significant_bits := m\<rparr>)
       else (False, c\<lparr>sx_leading_zeros := l, sx_significant_bits := m\<rparr>))"
      using sx_add_value_later [OF wf 2] by blast
    with 2 facts show ?thesis by (simp add: sx_wf_def sx_get_data_def)
  qed
  then show "sx_wf (snd (sx_add_value v c))"
    and "fst (sx_add_value v c) = (length (sx_get_data c) + length (sx_record v c) \<le> 65536)"
    and "sx_get_data (snd (sx_add_value v c)) =
      sx_get_data c @ (if fst (sx_add_value v c) then sx_record v c else [])"
    and "fst (sx_add_value v c) \<Longrightarrow>
      sx_prev_value (snd (sx_add_value v c)) = v \<and> \<not> sx_first (snd (sx_add_value v c))"
    by blast+
qed

text \<open>
  The stream loses the position of a change. Where the significant bits of a change lie in the word
  is not stored, so after any value a change and the same change shifted to the left by any number of
  empty bits add the same bytes to the stream, although they lead to different values.
\<close>

lemma stream_collides:
  assumes "sx_wf c" and "\<not> sx_first c" and "sx_prev_value c = v"
    and "x \<noteq> 0" and "unat x < 2 ^ (64 - n)" and "0 < n"
  shows "fst (sx_add_value (v XOR x) c) = fst (sx_add_value (v XOR push_bit n x) c) \<and>
    sx_get_data (snd (sx_add_value (v XOR x) c)) = sx_get_data (snd (sx_add_value (v XOR push_bit n x) c)) \<and>
    v XOR x \<noteq> v XOR push_bit n x"
proof -
  note shift = shifted_zeros [OF assms(4,5)]
  have undo: "v XOR (v XOR y) = y" for y :: u64 by (rule bit_word_eqI) (auto simp: bit_simps)
  have ne: "push_bit n x \<noteq> 0"
  proof
    assume "push_bit n x = 0"
    then have "u64_trailing_zeros (push_bit n x) = 64"
      by (simp add: u64_trailing_zeros_def takeWhile_eq_all_conv [THEN iffD2])
    with shift(1,2,4) show False by (simp add: u64_leading_zeros_def)
  qed
  have "push_bit n x \<noteq> x" using shift(2) assms(6) by auto
  then have "v XOR x \<noteq> v XOR push_bit n x" using undo by metis
  moreover have "64 - u64_leading_zeros (push_bit n x) - u64_trailing_zeros (push_bit n x) =
      64 - u64_leading_zeros x - u64_trailing_zeros x"
    using shift(1,2,4) by simp
  then have "xor_record (push_bit n x) = xor_record x"
    using ne assms(4) shift(2,3) by (simp add: xor_record_def quad_push_def Let_def)
  then have "sx_record (v XOR push_bit n x) c = sx_record (v XOR x) c"
    using assms(2,3) by (simp add: sx_record_def undo)
  ultimately show ?thesis using sx_add_value_data [OF assms(1)] by simp
qed

text \<open>Both compressors write the same record, and the four-lane one never writes what is added to it.\<close>

lemma quad_writes_records:
  "quad_output (snd (quad_process_quad vs prev q)) = quad_output q @ concat (map xor_record (map2 (XOR) prev vs))"
proof -
  have "fold quad_push xs out = out @ concat (map xor_record xs)" for xs out
    by (induction xs arbitrary: out) (simp_all add: quad_push_eq)
  then show ?thesis by (simp add: quad_process_quad_def)
qed

lemma added_values_never_written: "quad_output (fold quad_add_value vs q) = quad_output q"
  by (induction vs arbitrary: q) (simp_all add: quad_add_value_def Let_def)

end
