(* ===== verification/Order_Book.thy ===== *)
theory Order_Book
  imports Price_Map Bytes
begin

text \<open>
  The order book (\<open>src/src/orderbook/price_level.rs\<close>, \<open>book.rs\<close> and \<open>mod.rs\<close>, with the types of
  \<open>src/src/market_data/types.rs\<close>): price levels, the two sides, the book with its sequence number, the
  manager of all books and the actor of one book.

  Prices and quantities are fixed-point \<open>i64\<close>. The levels of a side are a \<open>BTreeMap\<close>, hence the sorted
  association list of \<open>Price_Map\<close>. Left out: \<open>has_valid_quotes\<close>, which calls a method the sides do not
  have; the hash of a level, which writes through a shared reference; and the spread in basis points,
  which is floating-point.
\<close>

section \<open>Symbols and levels\<close>

type_synonym SymbolId = "u8 list"

definition symbol_from_str :: "u8 list \<Rightarrow> SymbolId" where
  "symbol_from_str s = take 16 s @ replicate (16 - length s) 0"

definition symbol_as_str :: "SymbolId \<Rightarrow> u8 list" where
  "symbol_as_str symbol =
     (let name = takeWhile (\<lambda>b. b \<noteq> 0) symbol
      in if utf8_valid name then name else [])"

record Level =
  lv_price :: i64
  lv_quantity :: i64
  lv_order_count :: u32

record PriceLevel =
  pl_price :: i64
  pl_quantity :: i64
  pl_order_count :: u32

definition pl_new :: "i64 \<Rightarrow> i64 \<Rightarrow> u32 \<Rightarrow> PriceLevel" where
  "pl_new price quantity order_count =
     \<lparr>pl_price = price, pl_quantity = quantity, pl_order_count = order_count\<rparr>"

definition pl_empty :: "i64 \<Rightarrow> PriceLevel" where
  "pl_empty price = pl_new price 0 0"

definition pl_is_empty :: "PriceLevel \<Rightarrow> bool" where
  "pl_is_empty l \<longleftrightarrow> pl_quantity l = 0"

definition pl_has_volume :: "PriceLevel \<Rightarrow> bool" where
  "pl_has_volume l \<longleftrightarrow> 0 < sint (pl_quantity l)"

definition pl_update_quantity :: "i64 \<Rightarrow> u32 \<Rightarrow> PriceLevel \<Rightarrow> PriceLevel" where
  "pl_update_quantity new_quantity new_order_count l =
     l\<lparr>pl_quantity := new_quantity, pl_order_count := new_order_count\<rparr>"

datatype LevelError = QuantityOverflow | RemoveTooMuch

definition pl_add_quantity :: "i64 \<Rightarrow> PriceLevel \<Rightarrow> LevelError + PriceLevel" where
  "pl_add_quantity delta l =
     (if - (2 ^ 63) \<le> sint (pl_quantity l) + sint delta \<and> sint (pl_quantity l) + sint delta < 2 ^ 63
      then Inr (l\<lparr>pl_quantity := pl_quantity l + delta, pl_order_count := pl_order_count l + 1\<rparr>)
      else Inl QuantityOverflow)"

definition pl_remove_quantity :: "i64 \<Rightarrow> PriceLevel \<Rightarrow> LevelError + PriceLevel" where
  "pl_remove_quantity delta l =
     (if sint (pl_quantity l) < sint delta then Inl RemoveTooMuch
      else
        let l = l\<lparr>pl_quantity := pl_quantity l - delta\<rparr>
        in Inr (l\<lparr>pl_order_count := (if pl_is_empty l then 0
                                      else if pl_order_count l = 0 then 0 else pl_order_count l - 1)\<rparr>))"

definition pl_clear :: "PriceLevel \<Rightarrow> PriceLevel" where
  "pl_clear l = l\<lparr>pl_quantity := 0, pl_order_count := 0\<rparr>"

section \<open>One side\<close>

record OrderBookSide =
  bs_levels :: "PriceLevel price_map"
  bs_cached_volume :: i64
  bs_is_bid :: bool

definition bs_new :: "bool \<Rightarrow> OrderBookSide" where
  "bs_new is_bid = \<lparr>bs_levels = [], bs_cached_volume = 0, bs_is_bid = is_bid\<rparr>"

definition bs_best :: "OrderBookSide \<Rightarrow> PriceLevel option" where
  "bs_best s =
     (if bs_levels s = [] then None
      else Some (snd (if bs_is_bid s then last (bs_levels s) else hd (bs_levels s))))"

definition bs_best_price :: "OrderBookSide \<Rightarrow> i64 option" where
  "bs_best_price s = map_option pl_price (bs_best s)"

definition bs_best_quantity :: "OrderBookSide \<Rightarrow> i64 option" where
  "bs_best_quantity s = map_option pl_quantity (bs_best s)"

definition bs_get :: "i64 \<Rightarrow> OrderBookSide \<Rightarrow> PriceLevel option" where
  "bs_get price s = bt_get (bs_levels s) price"

definition side_volume :: "PriceLevel price_map \<Rightarrow> i64" where
  "side_volume m = fold (\<lambda>(k, l) total. i64_sat_add total (pl_quantity l)) m 0"

definition bs_update_cached_volume :: "OrderBookSide \<Rightarrow> OrderBookSide" where
  "bs_update_cached_volume s = s\<lparr>bs_cached_volume := side_volume (bs_levels s)\<rparr>"

definition bs_upsert :: "i64 \<Rightarrow> i64 \<Rightarrow> u32 \<Rightarrow> OrderBookSide \<Rightarrow> OrderBookSide" where
  "bs_upsert price quantity order_count s =
     bs_update_cached_volume
       (if quantity = 0 then s\<lparr>bs_levels := bt_del price (bs_levels s)\<rparr>
        else s\<lparr>bs_levels := bt_put price (pl_new price quantity order_count) (bs_levels s)\<rparr>)"

definition bs_apply_delta :: "Level list \<Rightarrow> OrderBookSide \<Rightarrow> OrderBookSide" where
  "bs_apply_delta levels s =
     fold (\<lambda>l. bs_upsert (lv_price l) (lv_quantity l) (lv_order_count l)) levels s"

definition bs_remove :: "i64 \<Rightarrow> OrderBookSide \<Rightarrow> OrderBookSide" where
  "bs_remove price s = bs_update_cached_volume (s\<lparr>bs_levels := bt_del price (bs_levels s)\<rparr>)"

definition bs_clear :: "OrderBookSide \<Rightarrow> OrderBookSide" where
  "bs_clear s = s\<lparr>bs_levels := [], bs_cached_volume := 0\<rparr>"

definition bs_len :: "OrderBookSide \<Rightarrow> nat" where
  "bs_len s = length (bs_levels s)"

definition level_of :: "PriceLevel \<Rightarrow> Level" where
  "level_of l = \<lparr>lv_price = pl_price l, lv_quantity = pl_quantity l, lv_order_count = pl_order_count l\<rparr>"

definition bs_iter_best_first :: "OrderBookSide \<Rightarrow> PriceLevel list" where
  "bs_iter_best_first s = (if bs_is_bid s then rev (map snd (bs_levels s)) else map snd (bs_levels s))"

definition bs_top_n :: "nat \<Rightarrow> OrderBookSide \<Rightarrow> Level list" where
  "bs_top_n n s =
     (if bs_is_bid s then map (level_of \<circ> snd) (take n (rev (bs_levels s)))
      else map (level_of \<circ> snd) (take n (bs_levels s)))"

section \<open>The book\<close>

record OrderBook =
  ob_symbol :: SymbolId
  ob_bids :: OrderBookSide
  ob_asks :: OrderBookSide
  ob_last_update_id :: u64
  ob_timestamp_ns :: i64
  ob_sequence :: u64
  ob_is_initialized :: bool

record OrderBookDelta =
  od_symbol :: SymbolId
  od_sequence :: u64
  od_bids :: "Level list"
  od_asks :: "Level list"
  od_timestamp_ns :: i64
  od_is_snapshot :: bool

record OrderBookSnapshot =
  os_symbol :: SymbolId
  os_last_update_id :: u64
  os_bids :: "Level list"
  os_asks :: "Level list"

definition ob_new :: "SymbolId \<Rightarrow> OrderBook" where
  "ob_new symbol =
     \<lparr>ob_symbol = symbol, ob_bids = bs_new True, ob_asks = bs_new False, ob_last_update_id = 0,
      ob_timestamp_ns = 0, ob_sequence = 0, ob_is_initialized = False\<rparr>"

definition ob_from_snapshot :: "OrderBookSnapshot \<Rightarrow> OrderBook" where
  "ob_from_snapshot snapshot =
     (let book = (ob_new (os_symbol snapshot))\<lparr>ob_last_update_id := os_last_update_id snapshot\<rparr>
      in book\<lparr>ob_bids := bs_apply_delta (os_bids snapshot) (ob_bids book),
              ob_asks := bs_apply_delta (os_asks snapshot) (ob_asks book), ob_is_initialized := True\<rparr>)"

text \<open>The result of \<open>apply_delta\<close> is \<open>Ok\<close> in every branch, so the operation returns the book only.\<close>

definition ob_apply_delta :: "OrderBookDelta \<Rightarrow> OrderBook \<Rightarrow> OrderBook" where
  "ob_apply_delta delta b =
     (if ob_is_initialized b \<and> od_sequence delta \<le> ob_sequence b then b
      else b\<lparr>ob_bids := bs_apply_delta (od_bids delta) (ob_bids b),
             ob_asks := bs_apply_delta (od_asks delta) (ob_asks b),
             ob_last_update_id := od_sequence delta, ob_sequence := od_sequence delta,
             ob_timestamp_ns := od_timestamp_ns delta, ob_is_initialized := True\<rparr>)"

definition ob_best_bid :: "OrderBook \<Rightarrow> i64 option" where
  "ob_best_bid b = bs_best_price (ob_bids b)"

definition ob_best_ask :: "OrderBook \<Rightarrow> i64 option" where
  "ob_best_ask b = bs_best_price (ob_asks b)"

definition ob_mid_price :: "OrderBook \<Rightarrow> i64 option" where
  "ob_mid_price b =
     (case (ob_best_bid b, ob_best_ask b) of
        (Some bid, Some ask) \<Rightarrow> Some (i64_div (bid + ask) 2) | _ \<Rightarrow> None)"

definition ob_spread :: "OrderBook \<Rightarrow> i64 option" where
  "ob_spread b =
     (case (ob_best_bid b, ob_best_ask b) of
        (Some bid, Some ask) \<Rightarrow>
          if - (2 ^ 63) \<le> sint ask - sint bid \<and> sint ask - sint bid < 2 ^ 63 then Some (ask - bid) else None
      | _ \<Rightarrow> None)"

definition ob_snapshot :: "nat \<Rightarrow> OrderBook \<Rightarrow> OrderBookSnapshot" where
  "ob_snapshot depth b =
     \<lparr>os_symbol = ob_symbol b, os_last_update_id = ob_last_update_id b,
      os_bids = bs_top_n depth (ob_bids b), os_asks = bs_top_n depth (ob_asks b)\<rparr>"

definition ob_reset :: "OrderBook \<Rightarrow> OrderBook" where
  "ob_reset b =
     b\<lparr>ob_bids := bs_clear (ob_bids b), ob_asks := bs_clear (ob_asks b), ob_is_initialized := False,
       ob_sequence := 0\<rparr>"

section \<open>The manager and the actor\<close>

type_synonym OrderBookManager = "SymbolId \<rightharpoonup> OrderBook"

definition obm_book :: "SymbolId \<Rightarrow> OrderBookManager \<Rightarrow> OrderBook" where
  "obm_book symbol m = (case m symbol of Some b \<Rightarrow> b | None \<Rightarrow> ob_new symbol)"

definition obm_get_or_create :: "SymbolId \<Rightarrow> OrderBookManager \<Rightarrow> OrderBook \<times> OrderBookManager" where
  "obm_get_or_create symbol m = (let b = obm_book symbol m in (b, m(symbol \<mapsto> b)))"

definition obm_apply_delta :: "OrderBookDelta \<Rightarrow> OrderBookManager \<Rightarrow> OrderBookManager" where
  "obm_apply_delta delta m = m(od_symbol delta \<mapsto> ob_apply_delta delta (obm_book (od_symbol delta) m))"

definition obm_apply_snapshot :: "OrderBookSnapshot \<Rightarrow> OrderBookManager \<Rightarrow> OrderBookManager" where
  "obm_apply_snapshot snapshot m = (let b = ob_from_snapshot snapshot in m(ob_symbol b \<mapsto> b))"

definition obm_get_best_bid :: "SymbolId \<Rightarrow> OrderBookManager \<Rightarrow> i64 option" where
  "obm_get_best_bid symbol m = Option.bind (m symbol) ob_best_bid"

definition obm_get_best_ask :: "SymbolId \<Rightarrow> OrderBookManager \<Rightarrow> i64 option" where
  "obm_get_best_ask symbol m = Option.bind (m symbol) ob_best_ask"

definition obm_remove_book :: "SymbolId \<Rightarrow> OrderBookManager \<Rightarrow> OrderBook option \<times> OrderBookManager" where
  "obm_remove_book symbol m = (m symbol, m(symbol := None))"

datatype OrderBookCommand =
    ApplyDelta OrderBookDelta
  | ApplySnapshot OrderBookSnapshot
  | GetBook SymbolId
  | ResetBook SymbolId
  | Subscribe SymbolId u64
  | Unsubscribe SymbolId u64

datatype OrderBookResponse =
    DeltaApplied SymbolId u64
  | SnapshotApplied SymbolId
  | BookState OrderBook
  | QuoteUpdate SymbolId "i64 option" "i64 option" i64

record OrderBookActor =
  oa_symbol :: SymbolId
  oa_book :: OrderBook
  oa_subscribers :: "u64 list"

definition oa_new :: "SymbolId \<Rightarrow> OrderBookActor" where
  "oa_new symbol = \<lparr>oa_symbol = symbol, oa_book = ob_new symbol, oa_subscribers = []\<rparr>"

fun oa_process :: "OrderBookCommand \<Rightarrow> OrderBookActor \<Rightarrow> OrderBookResponse option \<times> OrderBookActor" where
  "oa_process (ApplyDelta delta) a =
     (Some (DeltaApplied (oa_symbol a) (od_sequence delta)), a\<lparr>oa_book := ob_apply_delta delta (oa_book a)\<rparr>)"
| "oa_process (ApplySnapshot snapshot) a =
     (Some (SnapshotApplied (oa_symbol a)), a\<lparr>oa_book := ob_from_snapshot snapshot\<rparr>)"
| "oa_process (GetBook s) a = (Some (BookState (oa_book a)), a)"
| "oa_process (ResetBook s) a =
     (let b = ob_reset (oa_book a) in (Some (BookState b), a\<lparr>oa_book := b\<rparr>))"
| "oa_process (Subscribe s channel_id) a =
     (None, if channel_id \<in> set (oa_subscribers a) then a
            else a\<lparr>oa_subscribers := oa_subscribers a @ [channel_id]\<rparr>)"
| "oa_process (Unsubscribe s channel_id) a =
     (None, a\<lparr>oa_subscribers := filter (\<lambda>i. i \<noteq> channel_id) (oa_subscribers a)\<rparr>)"

definition oa_notify_quote_update :: "OrderBookActor \<Rightarrow> OrderBookResponse option" where
  "oa_notify_quote_update a =
     (if oa_subscribers a = [] then None
      else Some (QuoteUpdate (oa_symbol a) (ob_best_bid (oa_book a)) (ob_best_ask (oa_book a))
                   (ob_timestamp_ns (oa_book a))))"

section \<open>The sides\<close>

text \<open>Every level is stored under its own price, none is empty, and the cached volume is up to date.\<close>

definition bs_ok :: "OrderBookSide \<Rightarrow> bool" where
  "bs_ok s \<longleftrightarrow>
     bt_sorted (bs_levels s) \<and> bs_cached_volume s = side_volume (bs_levels s) \<and>
     (\<forall>(k, l) \<in> set (bs_levels s). pl_price l = k \<and> pl_quantity l \<noteq> 0)"

lemma bs_ok_new: "bs_ok (bs_new is_bid)"
  by (simp add: bs_ok_def bs_new_def side_volume_def)

lemma bs_ok_clear: "bs_ok (bs_clear s)"
  by (simp add: bs_ok_def bs_clear_def side_volume_def)

lemma set_bt_put_subset: "set (bt_put k v m) \<subseteq> insert (k, v) (set m)"
  by (induction k v m rule: bt_put.induct) auto

lemma bs_ok_remove: "bs_ok s \<Longrightarrow> bs_ok (bs_remove price s)"
  using set_bt_del_subset [of price "bs_levels s"]
  by (auto simp: bs_ok_def bs_remove_def bs_update_cached_volume_def bt_sorted_del)

lemma bs_ok_upsert: "bs_ok s \<Longrightarrow> bs_ok (bs_upsert price quantity order_count s)"
  using set_bt_del_subset [of price "bs_levels s"]
    set_bt_put_subset [of price "pl_new price quantity order_count" "bs_levels s"]
  by (auto simp: bs_ok_def bs_upsert_def bs_update_cached_volume_def bt_sorted_del bt_sorted_put pl_new_def)

lemma bs_is_bid_upsert [simp]: "bs_is_bid (bs_upsert price quantity order_count s) = bs_is_bid s"
  by (simp add: bs_upsert_def bs_update_cached_volume_def)

text \<open>The specification: a map from prices to quantities and order counts.\<close>

type_synonym quotes = "i64 \<rightharpoonup> i64 \<times> u32"

definition quoted :: "OrderBookSide \<Rightarrow> quotes" where
  "quoted s = (\<lambda>p. map_option (\<lambda>l. (pl_quantity l, pl_order_count l)) (bs_get p s))"

definition quote :: "Level \<Rightarrow> quotes \<Rightarrow> quotes" where
  "quote l m = (if lv_quantity l = 0 then m(lv_price l := None) else m(lv_price l \<mapsto> (lv_quantity l, lv_order_count l)))"

abbreviation upsert_level :: "Level \<Rightarrow> OrderBookSide \<Rightarrow> OrderBookSide" where
  "upsert_level l \<equiv> bs_upsert (lv_price l) (lv_quantity l) (lv_order_count l)"

lemma quoted_upsert: "bs_ok s \<Longrightarrow> quoted (upsert_level l s) = quote l (quoted s)"
  by (rule ext)
    (simp add: quoted_def quote_def bs_get_def bs_upsert_def bs_update_cached_volume_def bs_ok_def
      bt.get_put bt.get_del pl_new_def)

interpretation side: refined_system upsert_level "\<lambda>l s. True" bs_ok quote quoted
  by unfold_locales (simp_all add: bs_ok_upsert quoted_upsert)

lemma bs_apply_delta_run: "bs_apply_delta ls s = run upsert_level ls s"
  by (simp add: bs_apply_delta_def run_def)

lemma bs_ok_apply_delta: "bs_ok s \<Longrightarrow> bs_ok (bs_apply_delta ls s)"
  by (simp add: bs_apply_delta_run side.run_inv)

lemma bs_is_bid_apply_delta [simp]: "bs_is_bid (bs_apply_delta ls s) = bs_is_bid s"
  unfolding bs_apply_delta_def by (induction ls arbitrary: s) simp_all

text \<open>Every operation that changes a side, and the entries it makes for a price: the last entry counts.\<close>

datatype side_op = SideDelta "Level list" | SideUpsert i64 i64 u32 | SideRemove i64 | SideClear

fun side_apply :: "side_op \<Rightarrow> OrderBookSide \<Rightarrow> OrderBookSide" where
  "side_apply (SideDelta ls) s = bs_apply_delta ls s"
| "side_apply (SideUpsert price quantity order_count) s = bs_upsert price quantity order_count s"
| "side_apply (SideRemove price) s = bs_remove price s"
| "side_apply SideClear s = bs_clear s"

fun entries_at :: "i64 \<Rightarrow> side_op \<Rightarrow> (i64 \<times> u32) list" where
  "entries_at p (SideDelta ls) = map (\<lambda>l. (lv_quantity l, lv_order_count l)) (filter (\<lambda>l. lv_price l = p) ls)"
| "entries_at p (SideUpsert price quantity order_count) = (if price = p then [(quantity, order_count)] else [])"
| "entries_at p (SideRemove price) = (if price = p then [(0, 0)] else [])"
| "entries_at p SideClear = [(0, 0)]"

definition last_entry :: "(i64 \<times> u32) list \<Rightarrow> (i64 \<times> u32) option" where
  "last_entry es = (if es = [] \<or> fst (last es) = 0 then None else Some (last es))"

lemma quoted_remove: "bs_ok s \<Longrightarrow> quoted (bs_remove price s) = (quoted s)(price := None)"
  by (rule ext) (simp add: quoted_def bs_get_def bs_remove_def bs_update_cached_volume_def bs_ok_def bt.get_del)

lemma quoted_clear: "quoted (bs_clear s) = Map.empty"
  by (simp add: quoted_def bs_get_def bs_clear_def)

lemma fold_quote_at:
  "fold quote ls m p =
     (case filter (\<lambda>l. lv_price l = p) ls of [] \<Rightarrow> m p
      | _ \<Rightarrow> last_entry (entries_at p (SideDelta ls)))"
  by (induction ls rule: rev_induct) (auto simp: quote_def last_entry_def split: list.splits)

lemma quoted_side_apply:
  assumes "bs_ok s"
  shows "quoted (side_apply a s) p = (if entries_at p a = [] then quoted s p else last_entry (entries_at p a))"
proof (cases a)
  case (SideDelta ls)
  have "quoted (bs_apply_delta ls s) = fold quote ls (quoted s)"
    using side.run_abs [OF assms] by (simp add: bs_apply_delta_run run_def [of quote])
  then show ?thesis by (auto simp: SideDelta fold_quote_at filter_empty_conv split: list.splits)
next
  case (SideUpsert price quantity order_count)
  then show ?thesis
    using quoted_upsert [OF assms, of "\<lparr>lv_price = price, lv_quantity = quantity, lv_order_count = order_count\<rparr>"]
    by (auto simp: quote_def last_entry_def)
qed (use assms in \<open>auto simp: quoted_remove quoted_clear last_entry_def\<close>)

lemma bs_ok_side_apply: "bs_ok s \<Longrightarrow> bs_ok (side_apply a s)"
  by (cases a) (simp_all add: bs_ok_apply_delta bs_ok_upsert bs_ok_remove bs_ok_clear)

interpretation any_side: guarded_system side_apply "\<lambda>a s. True" bs_ok
  by unfold_locales (rule bs_ok_side_apply)

text \<open>
  C6: A side of the book is a map from prices to quotes. After any sequence of deltas, single updates,
  removals and clearings of a new side, its levels are sorted by price, each under its own price and none
  empty, with the cached volume up to date; and what the side quotes at a price is the last entry made for
  that price by any of them, where an entry with quantity zero, a removal and a clearing quote nothing.
\<close>

theorem side_refines_quotes:
  "let s = run side_apply ops (bs_new is_bid)
   in bs_ok s \<and> (\<forall>p. quoted s p = last_entry (concat (map (entries_at p) ops)))"
proof -
  have "bs_ok (run side_apply ops (bs_new is_bid))" for ops
    using any_side.run_inv [OF bs_ok_new] by simp
  moreover have "quoted (run side_apply ops (bs_new is_bid)) p = last_entry (concat (map (entries_at p) ops))" for p
  proof (induction ops rule: rev_induct)
    case Nil
    then show ?case by (simp add: quoted_def bs_get_def bs_new_def last_entry_def run_def)
  next
    case (snoc a ops)
    then show ?case
      using quoted_side_apply [OF calculation, of a ops p] by (auto simp: run_def last_entry_def)
  qed
  ultimately show ?thesis by (simp add: Let_def)
qed

section \<open>The best price\<close>

lemma bt_hd_least: "bt_sorted m \<Longrightarrow> e \<in> set m \<Longrightarrow> sint (fst (hd m)) \<le> sint (fst e)"
  by (cases m) (auto simp: bt_sorted_def)

lemma bt_last_greatest: "bt_sorted m \<Longrightarrow> e \<in> set m \<Longrightarrow> sint (fst e) \<le> sint (fst (last m))"
proof (induction m)
  case (Cons x m)
  then show ?case
    using last_in_set [of m] by (cases x) (force dest: less_imp_le)
qed simp

lemma bs_best_entry:
  assumes "bs_ok s" and "bs_levels s \<noteq> []"
  defines "e \<equiv> if bs_is_bid s then last (bs_levels s) else hd (bs_levels s)"
  shows "bs_best s = Some (snd e)" and "bs_best_price s = Some (fst e)" and "bs_get (fst e) s = Some (snd e)"
    and "k \<in> fst ` set (bs_levels s) \<Longrightarrow>
      if bs_is_bid s then sint k \<le> sint (fst e) else sint (fst e) \<le> sint k"
proof -
  have e: "e \<in> set (bs_levels s)" using assms(2) by (simp add: e_def)
  then show "bs_best s = Some (snd e)" "bs_best_price s = Some (fst e)"
    using assms(1,2) by (auto simp: bs_best_price_def bs_best_def e_def bs_ok_def)
  show "bs_get (fst e) s = Some (snd e)"
    using assms(1) e bt.mem_entries [of "bs_levels s" "fst e" "snd e"] by (simp add: bs_get_def bs_ok_def)
  show "k \<in> fst ` set (bs_levels s) \<Longrightarrow>
      if bs_is_bid s then sint k \<le> sint (fst e) else sint (fst e) \<le> sint k"
    using assms(1) bt_hd_least bt_last_greatest by (auto simp: bs_ok_def e_def)
qed

lemma bs_get_dom: "bs_get k s \<noteq> None \<longleftrightarrow> k \<in> fst ` set (bs_levels s)"
  by (simp add: bs_get_def bt_get_map_of map_of_eq_None_iff)

text \<open>
  The top of the book is the best price. After any updates, the best bid is the highest price quoted on
  the bid side and the best ask the lowest one on the ask side, with the quantity quoted there; a side has
  no best price just when nothing is quoted on it.
\<close>

lemma best_price_exact:
  "let s = bs_apply_delta ls (bs_new is_bid)
   in case bs_best_price s of
        None \<Rightarrow> quoted s = Map.empty
      | Some p \<Rightarrow> map_option fst (quoted s p) = bs_best_quantity s \<and> p \<in> dom (quoted s) \<and>
          (\<forall>k. k \<in> dom (quoted s) \<longrightarrow> (if is_bid then sint k \<le> sint p else sint p \<le> sint k))"
proof -
  define s where "s = bs_apply_delta ls (bs_new is_bid)"
  have ok: "bs_ok s" and bid: "bs_is_bid s = is_bid"
    by (simp_all add: s_def bs_ok_apply_delta bs_ok_new) (simp add: bs_new_def)
  have dom: "dom (quoted s) = fst ` set (bs_levels s)"
    using bs_get_dom by (auto simp: quoted_def dom_def)
  show ?thesis
  proof (cases "bs_levels s = []")
    case True
    then have "bs_best_price s = None" "quoted s = Map.empty"
      by (simp_all add: bs_best_price_def bs_best_def quoted_def bs_get_def)
    then show ?thesis by (simp add: Let_def flip: s_def)
  next
    case False
    define e where "e = (if bs_is_bid s then last (bs_levels s) else hd (bs_levels s))"
    note best = bs_best_entry [OF ok False, folded e_def]
    have "fst e \<in> dom (quoted s)" using False by (simp add: dom e_def)
    moreover have "map_option fst (quoted s (fst e)) = bs_best_quantity s"
      using best(1,3) by (simp add: quoted_def bs_best_quantity_def)
    moreover have "\<forall>k. k \<in> dom (quoted s) \<longrightarrow> (if is_bid then sint k \<le> sint (fst e) else sint (fst e) \<le> sint k)"
      using best(4) bid dom by auto
    ultimately show ?thesis using best(2) by (simp add: Let_def flip: s_def)
  qed
qed

section \<open>Snapshots\<close>

lemma bt_sorted_ext:
  assumes "bt_sorted m" and "bt_sorted n" and "map_of m = map_of n"
  shows "m = n"
proof -
  have keys: "sorted_wrt (<) (map (sint \<circ> fst) xs)" if "bt_sorted xs" for xs :: "(i64 \<times> 'a) list"
    using that by (simp add: bt_sorted_def sorted_wrt_map)
  have same: "set m = set n"
    using assms by (simp add: map_of_inject_set bt_sorted_distinct)
  have "inj_on (sint \<circ> fst) (set m)"
    using bt_sorted_distinct [OF assms(1)] signed_word_eqI
    by (fastforce simp: inj_on_def distinct_map)
  then show ?thesis
    using keys [OF assms(1)] keys [OF assms(2)] same
    by (intro map_sorted_distinct_set_unique [of "sint \<circ> fst"]) (simp_all add: strict_sorted_iff)
qed

text \<open>A whole book: both sides in order.\<close>

definition ob_ok :: "OrderBook \<Rightarrow> bool" where
  "ob_ok b \<longleftrightarrow> bs_ok (ob_bids b) \<and> bs_is_bid (ob_bids b) \<and> bs_ok (ob_asks b) \<and> \<not> bs_is_bid (ob_asks b)"

lemma ob_ok_new: "ob_ok (ob_new symbol)"
  by (simp add: ob_ok_def ob_new_def bs_ok_new) (simp add: bs_new_def)

lemma ob_ok_apply_delta: "ob_ok b \<Longrightarrow> ob_ok (ob_apply_delta delta b)"
  by (simp add: ob_ok_def ob_apply_delta_def bs_ok_apply_delta)

lemma ob_ok_from_snapshot: "ob_ok (ob_from_snapshot snapshot)"
  using ob_ok_new [of "os_symbol snapshot"]
  by (simp add: ob_ok_def ob_from_snapshot_def bs_ok_apply_delta Let_def)

lemma ob_ok_reset: "ob_ok b \<Longrightarrow> ob_ok (ob_reset b)"
  by (simp add: ob_ok_def ob_reset_def bs_ok_clear) (simp add: bs_clear_def)

text \<open>Inserting the levels of a side, in any order without repeated prices, rebuilds its quotes.\<close>

lemma fold_quote_levels:
  "distinct (map fst es) \<Longrightarrow> \<forall>(k, l) \<in> set es. pl_price l = k \<and> pl_quantity l \<noteq> 0 \<Longrightarrow>
   fold quote (map (level_of \<circ> snd) es) m =
     m ++ (map_option (\<lambda>l. (pl_quantity l, pl_order_count l)) \<circ> map_of es)"
proof (induction es arbitrary: m)
  case Nil
  then show ?case by (simp add: map_add_def comp_def)
next
  case (Cons e es)
  have "map_of es (fst e) = None" using Cons.prems(1) by (simp add: map_of_eq_None_iff)
  with Cons show ?case
    by (cases e) (auto simp: quote_def level_of_def map_add_def fun_eq_iff split: option.splits)
qed

lemma level_own_price: "bs_ok s \<Longrightarrow> map_of (bs_levels s) k = Some l \<Longrightarrow> pl_price l = k"
  by (auto simp: bs_ok_def dest!: map_of_SomeD)

lemma quoted_inject:
  assumes "bs_ok s" and "bs_ok t" and "bs_is_bid s = bs_is_bid t" and "quoted s = quoted t"
  shows "s = t"
proof -
  have "map_of (bs_levels s) k = map_of (bs_levels t) k" for k
  proof -
    have eq: "map_option (\<lambda>l. (pl_quantity l, pl_order_count l)) (map_of (bs_levels s) k) =
        map_option (\<lambda>l. (pl_quantity l, pl_order_count l)) (map_of (bs_levels t) k)"
      using fun_cong [OF assms(4), of k] by (simp add: quoted_def bs_get_def bt_get_map_of)
    show ?thesis
    proof (cases "map_of (bs_levels s) k")
      case None
      with eq show ?thesis by (cases "map_of (bs_levels t) k") simp_all
    next
      case (Some l)
      with eq obtain l' where t: "map_of (bs_levels t) k = Some l'"
        "pl_quantity l' = pl_quantity l" "pl_order_count l' = pl_order_count l"
        by (cases "map_of (bs_levels t) k") auto
      have "l = l'"
        using t level_own_price [OF assms(1) Some] level_own_price [OF assms(2) t(1)]
        by (intro PriceLevel.equality) simp_all
      with Some t show ?thesis by simp
    qed
  qed
  then have "map_of (bs_levels s) = map_of (bs_levels t)" by (rule ext)
  moreover have "bt_sorted (bs_levels s)" "bt_sorted (bs_levels t)" using assms(1,2) by (simp_all add: bs_ok_def)
  ultimately have levels: "bs_levels s = bs_levels t" by (intro bt_sorted_ext)
  moreover have "bs_cached_volume s = bs_cached_volume t" using assms(1,2) levels by (simp add: bs_ok_def)
  ultimately show ?thesis using assms(3) by (intro OrderBookSide.equality) simp_all
qed

lemma map_of_rev: "distinct (map fst xs) \<Longrightarrow> map_of (rev xs) = map_of xs"
  by (simp add: map_of_inject_set flip: rev_map)

lemma side_roundtrip:
  assumes "bs_ok s" and "bs_len s \<le> n"
  shows "bs_apply_delta (bs_top_n n s) (bs_new (bs_is_bid s)) = s"
proof (rule quoted_inject)
  let ?es = "if bs_is_bid s then rev (bs_levels s) else bs_levels s"
  have top: "bs_top_n n s = map (level_of \<circ> snd) ?es" using assms(2) by (simp add: bs_top_n_def bs_len_def)
  have "distinct (map fst ?es)" using assms(1) bt_sorted_distinct by (auto simp: bs_ok_def rev_map [symmetric])
  moreover have "\<forall>(k, l) \<in> set ?es. pl_price l = k \<and> pl_quantity l \<noteq> 0" using assms(1) by (auto simp: bs_ok_def)
  moreover have "map_of ?es = map_of (bs_levels s)"
    using assms(1) map_of_rev [of "bs_levels s"] by (auto simp: bs_ok_def bt_sorted_distinct)
  ultimately have "fold quote (bs_top_n n s) Map.empty = quoted s"
    using fold_quote_levels [of ?es Map.empty]
    by (simp add: top quoted_def bs_get_def bt_get_map_of comp_def)
  moreover have "quoted (bs_new b) = Map.empty" for b by (simp add: quoted_def bs_get_def bs_new_def)
  ultimately show "quoted (bs_apply_delta (bs_top_n n s) (bs_new (bs_is_bid s))) = quoted s"
    using side.run_abs [OF bs_ok_new] by (simp add: bs_apply_delta_run run_def [of quote])
qed (use assms in \<open>simp_all add: bs_ok_apply_delta bs_ok_new\<close>, simp add: bs_new_def)

text \<open>
  C21: What a full snapshot restores. When a book whose sides are in order is saved with all its levels and
  loaded again, the loaded book is the saved one with the same symbol, update id and sides, but its sequence
  number and its timestamp are zero, and it counts as initialized.
\<close>

theorem snapshot_roundtrip:
  assumes "ob_ok b" and "bs_len (ob_bids b) \<le> depth" and "bs_len (ob_asks b) \<le> depth"
  shows "ob_from_snapshot (ob_snapshot depth b) =
    b\<lparr>ob_sequence := 0, ob_timestamp_ns := 0, ob_is_initialized := True\<rparr>"
  using assms side_roundtrip [of "ob_bids b" depth] side_roundtrip [of "ob_asks b" depth]
  by (simp add: ob_from_snapshot_def ob_snapshot_def ob_new_def ob_ok_def Let_def)

definition a_delta :: OrderBookDelta where
  "a_delta = \<lparr>od_symbol = [], od_sequence = 7, od_bids = [\<lparr>lv_price = 5, lv_quantity = 2, lv_order_count = 1\<rparr>],
     od_asks = [], od_timestamp_ns = 0, od_is_snapshot = False\<rparr>"

lemma a_delta_len:
  "bs_len (ob_bids (ob_apply_delta a_delta (ob_new []))) = 1" "bs_len (ob_asks (ob_apply_delta a_delta (ob_new []))) = 0"
  by (simp_all add: ob_apply_delta_def a_delta_def ob_new_def bs_len_def bs_apply_delta_def bs_upsert_def
      bs_update_cached_volume_def bs_new_def)

theorem snapshot_roundtrip_witness:
  "ob_from_snapshot (ob_snapshot 1 (ob_apply_delta a_delta (ob_new []))) =
   (ob_apply_delta a_delta (ob_new []))\<lparr>ob_sequence := 0, ob_timestamp_ns := 0, ob_is_initialized := True\<rparr>"
  by (rule snapshot_roundtrip) (simp_all add: a_delta_len ob_ok_apply_delta ob_ok_new)

text \<open>
  After a snapshot stale updates are applied. Loading a snapshot leaves the sequence number of the book
  at zero, so a delta older than the snapshot is not recognised as old: its levels overwrite the newer ones
  of the snapshot and the update id of the book goes backwards.
\<close>

lemma stale_delta_applied:
  assumes "0 < od_sequence d" and "od_sequence d < os_last_update_id snapshot"
  shows "let b = ob_from_snapshot snapshot; b' = ob_apply_delta d b
    in ob_bids b' = bs_apply_delta (od_bids d) (ob_bids b) \<and>
       ob_asks b' = bs_apply_delta (od_asks d) (ob_asks b) \<and>
       ob_last_update_id b' < ob_last_update_id b"
  using assms by (simp add: ob_from_snapshot_def ob_new_def ob_apply_delta_def Let_def not_le)

section \<open>Sequences of deltas\<close>

lemma ob_sequence_mono: "ob_is_initialized b \<Longrightarrow>
   ob_is_initialized (ob_apply_delta d b) \<and> ob_sequence b \<le> ob_sequence (ob_apply_delta d b) \<and>
   od_sequence d \<le> ob_sequence (ob_apply_delta d b)"
  by (auto simp: ob_apply_delta_def not_le)

lemma ob_sequence_covers:
  "ob_is_initialized b \<Longrightarrow>
   ob_is_initialized (fold ob_apply_delta ds b) \<and> ob_sequence b \<le> ob_sequence (fold ob_apply_delta ds b) \<and>
   (\<forall>d \<in> set ds. od_sequence d \<le> ob_sequence (fold ob_apply_delta ds b))"
proof (induction ds arbitrary: b)
  case (Cons d ds)
  then show ?case using ob_sequence_mono [of b d] Cons.IH [of "ob_apply_delta d b"] by force
qed simp

lemma old_deltas_ignored:
  "ob_is_initialized b \<Longrightarrow> \<forall>d \<in> set ds. od_sequence d \<le> ob_sequence b \<Longrightarrow> fold ob_apply_delta ds b = b"
  by (induction ds) (simp_all add: ob_apply_delta_def)

text \<open>
  Redelivery is harmless. Once an initialized book has processed a list of deltas, delivering any of them
  again, in any order and any number of times, leaves the book exactly as it is.
\<close>

lemma redelivery_harmless:
  assumes "ob_is_initialized b" and "set es \<subseteq> set ds"
  shows "fold ob_apply_delta es (fold ob_apply_delta ds b) = fold ob_apply_delta ds b"
  using ob_sequence_covers [OF assms(1), of ds] assms(2) by (intro old_deltas_ignored) auto

text \<open>A gap in the sequence is not noticed: a delta with any higher number is applied.\<close>

lemma gap_not_detected:
  "ob_sequence b < od_sequence d \<Longrightarrow> ob_bids (ob_apply_delta d b) = bs_apply_delta (od_bids d) (ob_bids b)"
  by (auto simp: ob_apply_delta_def)

section \<open>Many books\<close>

text \<open>
  The manager keeps the books apart. After any deltas for any symbols, the book of a symbol is what the
  deltas of that symbol alone make of its earlier book, or of a new one; the books of symbols without
  deltas are untouched.
\<close>

lemma manager_routes_by_symbol:
  "fold obm_apply_delta ds m symbol =
    (let own = filter (\<lambda>d. od_symbol d = symbol) ds
     in if own = [] then m symbol else Some (fold ob_apply_delta own (obm_book symbol m)))"
proof (induction ds arbitrary: m)
  case (Cons d ds)
  show ?case
  proof (cases "od_symbol d = symbol")
    case True
    then have "obm_book symbol (obm_apply_delta d m) = ob_apply_delta d (obm_book symbol m)"
      "obm_apply_delta d m symbol = Some (ob_apply_delta d (obm_book symbol m))"
      by (auto simp: obm_apply_delta_def obm_book_def)
    with True Cons.IH [of "obm_apply_delta d m"] show ?thesis by (auto simp: Let_def)
  next
    case False
    then have "obm_apply_delta d m symbol = m symbol" by (simp add: obm_apply_delta_def)
    moreover from this have "obm_book symbol (obm_apply_delta d m) = obm_book symbol m" by (simp add: obm_book_def)
    ultimately show ?thesis using False Cons.IH [of "obm_apply_delta d m"] by (simp add: Let_def)
  qed
qed simp

text \<open>The actor of a symbol does not look at the symbol of a delta or a snapshot.\<close>

lemma actor_ignores_symbol:
  "oa_book (snd (oa_process (ApplyDelta d) a)) = oa_book (snd (oa_process (ApplyDelta (d\<lparr>od_symbol := x\<rparr>)) a))"
  "ob_symbol (oa_book (snd (oa_process (ApplySnapshot snapshot) a))) = os_symbol snapshot"
  by (simp_all add: ob_apply_delta_def ob_from_snapshot_def ob_new_def Let_def)

section \<open>Levels and symbols\<close>

text \<open>Removing what was added restores the quantity, and the order count unless it wrapped.\<close>

lemma add_remove_quantity:
  assumes "pl_add_quantity delta l = Inr l'" and "pl_quantity l \<noteq> 0" and "0 \<le> sint (pl_quantity l)"
    and "pl_order_count l + 1 \<noteq> 0"
  shows "pl_remove_quantity delta l' = Inr l"
  using assms
  by (auto simp: pl_add_quantity_def pl_remove_quantity_def pl_is_empty_def sint_add_i64 split: if_splits)

lemma symbol_roundtrip:
  assumes "length s \<le> 16" and "0 \<notin> set s" and "utf8_valid s"
  shows "symbol_as_str (symbol_from_str s) = s"
proof -
  have "takeWhile (\<lambda>b. b \<noteq> 0) (s @ replicate (16 - length s) 0) = s"
    using assms(2) by (subst takeWhile_append2) (auto simp: takeWhile_eq_Nil_iff)
  with assms show ?thesis by (simp add: symbol_as_str_def symbol_from_str_def)
qed

end
