(* ===== verification/Book_Checksum.thy ===== *)
theory Book_Checksum
  imports Bytes "HOL-Library.Multiset"
begin

text \<open>
  Checksums of the order book (\<open>src/src/orderbook/checksum.rs\<close>): the table-driven CRC-32, its incremental
  form, the XOR checksum over price levels and the validator that asks for a resynchronisation. The
  reference is CRC-32 by its polynomial, one bit at a time.
\<close>

unbundle bit_operations_syntax

section \<open>CRC-32 by table\<close>

definition CRC32_TABLE :: "u32 list" where
  "CRC32_TABLE =
     [0x00000000, 0x77073096, 0xee0e612c, 0x990951ba, 0x076dc419, 0x706af48f, 0xe963a535, 0x9e6495a3,
      0x0edb8832, 0x79dcb8a4, 0xe0d5e91e, 0x97d2d988, 0x09b64c2b, 0x7eb17cbd, 0xe7b82d07, 0x90bf1d91,
      0x1db71064, 0x6ab020f2, 0xf3b97148, 0x84be41de, 0x1adad47d, 0x6ddde4eb, 0xf4d4b551, 0x83d385c7,
      0x136c9856, 0x646ba8c0, 0xfd62f97a, 0x8a65c9ec, 0x14015c4f, 0x63066cd9, 0xfa0f3d63, 0x8d080df5,
      0x3b6e20c8, 0x4c69105e, 0xd56041e4, 0xa2677172, 0x3c03e4d1, 0x4b04d447, 0xd20d85fd, 0xa50ab56b,
      0x35b5a8fa, 0x42b2986c, 0xdedbfb96, 0xa9dca900, 0x37d83cf3, 0x40df0c65, 0xd9d65dfd, 0xaed16d6b,
      0x26d930ac, 0x51de003a, 0xc8d75180, 0xbfd06116, 0x21b4f4b5, 0x56b3c423, 0xcfba9599, 0xb8bda50f,
      0x2802b89e, 0x5f058808, 0xc60cd9b2, 0xb10be924, 0x2f6f7c87, 0x58684c11, 0xc1611dab, 0xb6662d3d,
      0x76dc4190, 0x01db7106, 0x98d220bc, 0xefd5102a, 0x71b18589, 0x06b6b51f, 0x9fbfe4a5, 0xe8b8d433,
      0x7807c9a2, 0x0f00f934, 0x9609a88e, 0xe10e9818, 0x7f6a0dbb, 0x086d3d2d, 0x91646c97, 0xe6635c01,
      0x6b6b51f4, 0x1c6c6162, 0x856530d8, 0xf262004e, 0x6c0695ed, 0x1b01a57b, 0x8208f4c1, 0xf50fc457,
      0x65b0d9c6, 0x12b7e950, 0x8bbeb8ea, 0xfcb9887c, 0x62dd1ddf, 0x15da2d49, 0x8cd37cf3, 0xfbd44c65,
      0x4db26158, 0x3ab551ce, 0xa3bc0074, 0xd4bb30e2, 0x4adfa541, 0x3dd895d7, 0xa4d1c46d, 0xd3d6f4fb,
      0x4369e96a, 0x346ed9fc, 0xad678846, 0xda60b8d0, 0x44042d73, 0x33031de5, 0xaa0a4c5f, 0xdd0d7cc9,
      0x5005713c, 0x270241aa, 0xbe0b1010, 0xc90c2086, 0x5768b525, 0x206f85b3, 0xb966d409, 0xce61e49f,
      0x5edef90e, 0x29d9c998, 0xb0d09822, 0xc7d7a8b4, 0x59b33d17, 0x2eb40d81, 0xb7bd5c3b, 0xc0ba6cad,
      0xedb88320, 0x9abfb3b6, 0x03b6e20c, 0x74b1d29a, 0xead54739, 0x9dd277af, 0x04db2615, 0x73dc1683,
      0xe3630b12, 0x94643b84, 0x0d6d6a3e, 0x7a6a5aa8, 0xe40ecf0b, 0x9309ff9d, 0x0a00ae27, 0x7d079eb1,
      0xf00f9344, 0x8708a3d2, 0x1e01f268, 0x6906c2fe, 0xf76253fd, 0x8065636b, 0x196c36d1, 0x6e6b0647,
      0xfed41b76, 0x89d32be0, 0x10da7a5a, 0x67dd4acc, 0xf9b9df6f, 0x8ebeeff9, 0x17b7be43, 0x60b08ed5,
      0xd6d6a3e8, 0xa1d1937e, 0x38d8c2c4, 0x4fdff252, 0xd1bb67f1, 0xa6bc5767, 0x3fb506dd, 0x48b2364b,
      0xd80d2bda, 0xaf0a1b4c, 0x36034af6, 0x41047a60, 0xdf60efc3, 0xa867df55, 0x316e8eef, 0x4669be79,
      0xcb61b38c, 0xbc66831a, 0x256fd2a0, 0x5268e236, 0xcc0c7795, 0xbb0b4703, 0x220216b9, 0x5505262f,
      0xc5ba3bbe, 0xb2bd0b28, 0x2bb45a92, 0x5cb36a04, 0xc2d7ffa7, 0xb5d0cf31, 0x2cd99e8b, 0x5bdeae1d,
      0x9b64c2b0, 0xec63f226, 0x756aa39c, 0x026d930a, 0x9c0906a9, 0xeb0e363f, 0x72076785, 0x05005713,
      0x95bf4a82, 0xe2b87a14, 0x7bb12bae, 0x0cb61b38, 0x92d28e9b, 0xe5d5be0d, 0x7cdcefb7, 0x0bdbdf21,
      0x86d3d2d4, 0xf1d4e242, 0x68ddb3f8, 0x1fda836e, 0x81be16cd, 0xf6b9265b, 0x6fb077e1, 0x18b74777,
      0x88085ae6, 0xff0f6a70, 0x66063bca, 0x11010b5c, 0x8f659eff, 0xf862ae69, 0x616bffd3, 0x166ccf45,
      0xa00ae278, 0xd70dd2ee, 0x4e048354, 0x3903b3c2, 0xa7672661, 0xd06016f7, 0x4969474d, 0x3e6e77db,
      0xaed16a4a, 0xd9d65adc, 0x40df0b66, 0x37d83bf0, 0xa9bcae53, 0xdebb9ec5, 0x47b2cf7f, 0x30b5ffe9,
      0xbdbdf21c, 0xcabac28a, 0x53b39330, 0x24b4a3a6, 0xbad03605, 0xcdd706b3, 0x54de5729, 0x23d967bf,
      0xb3667a2e, 0xc4614ab8, 0x5d681b02, 0x2a6f2b94, 0xb40bbe37, 0xc30c8ea1, 0x5a05df1b, 0x2d02ef8d]"

definition crc_update :: "u8 \<Rightarrow> u32 \<Rightarrow> u32" where
  "crc_update byte crc = CRC32_TABLE ! unat ((crc XOR ucast byte) AND 0xFF) XOR drop_bit 8 crc"

definition crc32_fast :: "u8 list \<Rightarrow> u32" where
  "crc32_fast data = fold crc_update data 0xFFFFFFFF XOR 0xFFFFFFFF"

record IncrementalCrc32 =
  ic_current_crc :: u32
  ic_update_count :: u64
  ic_is_active :: bool

definition ic_new :: IncrementalCrc32 where
  "ic_new = \<lparr>ic_current_crc = 0xFFFFFFFF, ic_update_count = 0, ic_is_active = True\<rparr>"

definition ic_update :: "u8 list \<Rightarrow> IncrementalCrc32 \<Rightarrow> IncrementalCrc32" where
  "ic_update data c =
     c\<lparr>ic_current_crc := fold crc_update data (ic_current_crc c), ic_update_count := ic_update_count c + 1\<rparr>"

definition ic_finalize :: "IncrementalCrc32 \<Rightarrow> u32" where
  "ic_finalize c = ic_current_crc c XOR 0xFFFFFFFF"

definition ic_reset :: "IncrementalCrc32 \<Rightarrow> IncrementalCrc32" where
  "ic_reset c = c\<lparr>ic_current_crc := 0xFFFFFFFF, ic_update_count := 0\<rparr>"

section \<open>CRC-32 by polynomial\<close>

definition crc_bit :: "u32 \<Rightarrow> u32" where
  "crc_bit c = drop_bit 1 c XOR (if bit c 0 then 0xEDB88320 else 0)"

definition crc_byte :: "u8 \<Rightarrow> u32 \<Rightarrow> u32" where
  "crc_byte byte crc = (crc_bit ^^ 8) (crc XOR ucast byte)"

definition crc32 :: "u8 list \<Rightarrow> u32" where
  "crc32 data = fold crc_byte data 0xFFFFFFFF XOR 0xFFFFFFFF"

text \<open>The entries of the table that are not those of the polynomial.\<close>

definition wrong_entries :: "nat list" where
  "wrong_entries = [42, 43, 44, 45, 46, 47, 148, 149, 150, 151, 245]"

lemma crc_bit_xor: "crc_bit (a XOR b) = crc_bit a XOR crc_bit b"
  by (rule bit_word_eqI) (auto simp: crc_bit_def bit_simps)

lemma crc_bits_xor: "(crc_bit ^^ n) (a XOR b) = (crc_bit ^^ n) a XOR (crc_bit ^^ n) b"
  by (induction n) (simp_all add: crc_bit_xor)

definition crc_entry :: "nat \<Rightarrow> u32" where
  "crc_entry i = (crc_bit ^^ 8) (of_nat i)"

lemma crc_entry_add:
  assumes "i < 2 ^ k"
  shows "crc_entry (i + 2 ^ k) = crc_entry i XOR crc_entry (2 ^ k)"
proof -
  have "\<not> bit i k" using assms by (simp add: bit_iff_odd)
  then have "(of_nat i :: u32) AND of_nat (2 ^ k) = 0"
    by (intro bit_word_eqI) (auto simp: bit_simps)
  then have "(of_nat (i + 2 ^ k) :: u32) = of_nat i XOR of_nat (2 ^ k)"
    by (simp only: of_nat_add disjunctive_add_eq_xor)
  then show ?thesis by (simp only: crc_entry_def crc_bits_xor)
qed

text \<open>The table of the polynomial doubles: each half is the one before it, shifted by one entry.\<close>

definition crc_entries :: "nat \<Rightarrow> u32 list" where
  "crc_entries n = map crc_entry [0..<n]"

lemma crc_entries_double:
  "crc_entries (2 ^ Suc k) = crc_entries (2 ^ k) @ map (\<lambda>x. x XOR crc_entry (2 ^ k)) (crc_entries (2 ^ k))"
proof -
  have "[0..<2 ^ Suc k] = [0..<2 ^ k] @ map (\<lambda>i. i + 2 ^ k) [0..<2 ^ k]"
    using upt_add_eq_append [of 0 "2 ^ k" "2 ^ k"] by (simp add: map_add_upt mult_2)
  then show ?thesis by (simp add: crc_entries_def crc_entry_add comp_def)
qed

lemma eight_times: "(f ^^ 8) x = f (f (f (f (f (f (f (f x)))))))"
  by (simp add: eval_nat_numeral)

lemma crc_entries_basis:
  "crc_entry 1 = 0x77073096" "crc_entry 2 = 0xee0e612c" "crc_entry 4 = 0x076dc419" "crc_entry 8 = 0x0edb8832"
  "crc_entry 16 = 0x1db71064" "crc_entry 32 = 0x3b6e20c8" "crc_entry 64 = 0x76dc4190" "crc_entry 128 = 0xedb88320"
  by (simp_all add: crc_entry_def eight_times crc_bit_def)

lemma crc_entries_2: "crc_entries 2 = [0, 0x77073096]"
  using crc_entries_basis(1)
  by (simp add: crc_entries_def numeral_2_eq_2) (simp add: crc_entry_def eight_times crc_bit_def)

lemma crc_entries_4: "crc_entries 4 = [0x00000000, 0x77073096, 0xee0e612c, 0x990951ba]"
  using crc_entries_double [of 1] by (simp add: crc_entries_2 crc_entries_basis)

lemma crc_entries_8: "crc_entries 8 = [0x00000000, 0x77073096, 0xee0e612c, 0x990951ba, 0x076dc419, 0x706af48f, 0xe963a535, 0x9e6495a3]"
  using crc_entries_double [of 2] by (simp add: crc_entries_4 crc_entries_basis)

lemma crc_entries_16:
  "crc_entries 16 =
    [0x00000000, 0x77073096, 0xee0e612c, 0x990951ba, 0x076dc419, 0x706af48f, 0xe963a535, 0x9e6495a3,
     0x0edb8832, 0x79dcb8a4, 0xe0d5e91e, 0x97d2d988, 0x09b64c2b, 0x7eb17cbd, 0xe7b82d07, 0x90bf1d91]"
  using crc_entries_double [of 3] by (simp add: crc_entries_8 crc_entries_basis)

lemma crc_entries_32:
  "crc_entries 32 =
    [0x00000000, 0x77073096, 0xee0e612c, 0x990951ba, 0x076dc419, 0x706af48f, 0xe963a535, 0x9e6495a3,
     0x0edb8832, 0x79dcb8a4, 0xe0d5e91e, 0x97d2d988, 0x09b64c2b, 0x7eb17cbd, 0xe7b82d07, 0x90bf1d91,
     0x1db71064, 0x6ab020f2, 0xf3b97148, 0x84be41de, 0x1adad47d, 0x6ddde4eb, 0xf4d4b551, 0x83d385c7,
     0x136c9856, 0x646ba8c0, 0xfd62f97a, 0x8a65c9ec, 0x14015c4f, 0x63066cd9, 0xfa0f3d63, 0x8d080df5]"
  using crc_entries_double [of 4] by (simp add: crc_entries_16 crc_entries_basis)

lemma crc_entries_64:
  "crc_entries 64 =
    [0x00000000, 0x77073096, 0xee0e612c, 0x990951ba, 0x076dc419, 0x706af48f, 0xe963a535, 0x9e6495a3,
     0x0edb8832, 0x79dcb8a4, 0xe0d5e91e, 0x97d2d988, 0x09b64c2b, 0x7eb17cbd, 0xe7b82d07, 0x90bf1d91,
     0x1db71064, 0x6ab020f2, 0xf3b97148, 0x84be41de, 0x1adad47d, 0x6ddde4eb, 0xf4d4b551, 0x83d385c7,
     0x136c9856, 0x646ba8c0, 0xfd62f97a, 0x8a65c9ec, 0x14015c4f, 0x63066cd9, 0xfa0f3d63, 0x8d080df5,
     0x3b6e20c8, 0x4c69105e, 0xd56041e4, 0xa2677172, 0x3c03e4d1, 0x4b04d447, 0xd20d85fd, 0xa50ab56b,
     0x35b5a8fa, 0x42b2986c, 0xdbbbc9d6, 0xacbcf940, 0x32d86ce3, 0x45df5c75, 0xdcd60dcf, 0xabd13d59,
     0x26d930ac, 0x51de003a, 0xc8d75180, 0xbfd06116, 0x21b4f4b5, 0x56b3c423, 0xcfba9599, 0xb8bda50f,
     0x2802b89e, 0x5f058808, 0xc60cd9b2, 0xb10be924, 0x2f6f7c87, 0x58684c11, 0xc1611dab, 0xb6662d3d]"
  using crc_entries_double [of 5] by (simp add: crc_entries_32 crc_entries_basis)

lemma crc_entries_128:
  "crc_entries 128 =
    [0x00000000, 0x77073096, 0xee0e612c, 0x990951ba, 0x076dc419, 0x706af48f, 0xe963a535, 0x9e6495a3,
     0x0edb8832, 0x79dcb8a4, 0xe0d5e91e, 0x97d2d988, 0x09b64c2b, 0x7eb17cbd, 0xe7b82d07, 0x90bf1d91,
     0x1db71064, 0x6ab020f2, 0xf3b97148, 0x84be41de, 0x1adad47d, 0x6ddde4eb, 0xf4d4b551, 0x83d385c7,
     0x136c9856, 0x646ba8c0, 0xfd62f97a, 0x8a65c9ec, 0x14015c4f, 0x63066cd9, 0xfa0f3d63, 0x8d080df5,
     0x3b6e20c8, 0x4c69105e, 0xd56041e4, 0xa2677172, 0x3c03e4d1, 0x4b04d447, 0xd20d85fd, 0xa50ab56b,
     0x35b5a8fa, 0x42b2986c, 0xdbbbc9d6, 0xacbcf940, 0x32d86ce3, 0x45df5c75, 0xdcd60dcf, 0xabd13d59,
     0x26d930ac, 0x51de003a, 0xc8d75180, 0xbfd06116, 0x21b4f4b5, 0x56b3c423, 0xcfba9599, 0xb8bda50f,
     0x2802b89e, 0x5f058808, 0xc60cd9b2, 0xb10be924, 0x2f6f7c87, 0x58684c11, 0xc1611dab, 0xb6662d3d,
     0x76dc4190, 0x01db7106, 0x98d220bc, 0xefd5102a, 0x71b18589, 0x06b6b51f, 0x9fbfe4a5, 0xe8b8d433,
     0x7807c9a2, 0x0f00f934, 0x9609a88e, 0xe10e9818, 0x7f6a0dbb, 0x086d3d2d, 0x91646c97, 0xe6635c01,
     0x6b6b51f4, 0x1c6c6162, 0x856530d8, 0xf262004e, 0x6c0695ed, 0x1b01a57b, 0x8208f4c1, 0xf50fc457,
     0x65b0d9c6, 0x12b7e950, 0x8bbeb8ea, 0xfcb9887c, 0x62dd1ddf, 0x15da2d49, 0x8cd37cf3, 0xfbd44c65,
     0x4db26158, 0x3ab551ce, 0xa3bc0074, 0xd4bb30e2, 0x4adfa541, 0x3dd895d7, 0xa4d1c46d, 0xd3d6f4fb,
     0x4369e96a, 0x346ed9fc, 0xad678846, 0xda60b8d0, 0x44042d73, 0x33031de5, 0xaa0a4c5f, 0xdd0d7cc9,
     0x5005713c, 0x270241aa, 0xbe0b1010, 0xc90c2086, 0x5768b525, 0x206f85b3, 0xb966d409, 0xce61e49f,
     0x5edef90e, 0x29d9c998, 0xb0d09822, 0xc7d7a8b4, 0x59b33d17, 0x2eb40d81, 0xb7bd5c3b, 0xc0ba6cad]"
  using crc_entries_double [of 6] by (simp add: crc_entries_64 crc_entries_basis)

lemma crc_entries_256:
  "crc_entries 256 =
    [0x00000000, 0x77073096, 0xee0e612c, 0x990951ba, 0x076dc419, 0x706af48f, 0xe963a535, 0x9e6495a3,
     0x0edb8832, 0x79dcb8a4, 0xe0d5e91e, 0x97d2d988, 0x09b64c2b, 0x7eb17cbd, 0xe7b82d07, 0x90bf1d91,
     0x1db71064, 0x6ab020f2, 0xf3b97148, 0x84be41de, 0x1adad47d, 0x6ddde4eb, 0xf4d4b551, 0x83d385c7,
     0x136c9856, 0x646ba8c0, 0xfd62f97a, 0x8a65c9ec, 0x14015c4f, 0x63066cd9, 0xfa0f3d63, 0x8d080df5,
     0x3b6e20c8, 0x4c69105e, 0xd56041e4, 0xa2677172, 0x3c03e4d1, 0x4b04d447, 0xd20d85fd, 0xa50ab56b,
     0x35b5a8fa, 0x42b2986c, 0xdbbbc9d6, 0xacbcf940, 0x32d86ce3, 0x45df5c75, 0xdcd60dcf, 0xabd13d59,
     0x26d930ac, 0x51de003a, 0xc8d75180, 0xbfd06116, 0x21b4f4b5, 0x56b3c423, 0xcfba9599, 0xb8bda50f,
     0x2802b89e, 0x5f058808, 0xc60cd9b2, 0xb10be924, 0x2f6f7c87, 0x58684c11, 0xc1611dab, 0xb6662d3d,
     0x76dc4190, 0x01db7106, 0x98d220bc, 0xefd5102a, 0x71b18589, 0x06b6b51f, 0x9fbfe4a5, 0xe8b8d433,
     0x7807c9a2, 0x0f00f934, 0x9609a88e, 0xe10e9818, 0x7f6a0dbb, 0x086d3d2d, 0x91646c97, 0xe6635c01,
     0x6b6b51f4, 0x1c6c6162, 0x856530d8, 0xf262004e, 0x6c0695ed, 0x1b01a57b, 0x8208f4c1, 0xf50fc457,
     0x65b0d9c6, 0x12b7e950, 0x8bbeb8ea, 0xfcb9887c, 0x62dd1ddf, 0x15da2d49, 0x8cd37cf3, 0xfbd44c65,
     0x4db26158, 0x3ab551ce, 0xa3bc0074, 0xd4bb30e2, 0x4adfa541, 0x3dd895d7, 0xa4d1c46d, 0xd3d6f4fb,
     0x4369e96a, 0x346ed9fc, 0xad678846, 0xda60b8d0, 0x44042d73, 0x33031de5, 0xaa0a4c5f, 0xdd0d7cc9,
     0x5005713c, 0x270241aa, 0xbe0b1010, 0xc90c2086, 0x5768b525, 0x206f85b3, 0xb966d409, 0xce61e49f,
     0x5edef90e, 0x29d9c998, 0xb0d09822, 0xc7d7a8b4, 0x59b33d17, 0x2eb40d81, 0xb7bd5c3b, 0xc0ba6cad,
     0xedb88320, 0x9abfb3b6, 0x03b6e20c, 0x74b1d29a, 0xead54739, 0x9dd277af, 0x04db2615, 0x73dc1683,
     0xe3630b12, 0x94643b84, 0x0d6d6a3e, 0x7a6a5aa8, 0xe40ecf0b, 0x9309ff9d, 0x0a00ae27, 0x7d079eb1,
     0xf00f9344, 0x8708a3d2, 0x1e01f268, 0x6906c2fe, 0xf762575d, 0x806567cb, 0x196c3671, 0x6e6b06e7,
     0xfed41b76, 0x89d32be0, 0x10da7a5a, 0x67dd4acc, 0xf9b9df6f, 0x8ebeeff9, 0x17b7be43, 0x60b08ed5,
     0xd6d6a3e8, 0xa1d1937e, 0x38d8c2c4, 0x4fdff252, 0xd1bb67f1, 0xa6bc5767, 0x3fb506dd, 0x48b2364b,
     0xd80d2bda, 0xaf0a1b4c, 0x36034af6, 0x41047a60, 0xdf60efc3, 0xa867df55, 0x316e8eef, 0x4669be79,
     0xcb61b38c, 0xbc66831a, 0x256fd2a0, 0x5268e236, 0xcc0c7795, 0xbb0b4703, 0x220216b9, 0x5505262f,
     0xc5ba3bbe, 0xb2bd0b28, 0x2bb45a92, 0x5cb36a04, 0xc2d7ffa7, 0xb5d0cf31, 0x2cd99e8b, 0x5bdeae1d,
     0x9b64c2b0, 0xec63f226, 0x756aa39c, 0x026d930a, 0x9c0906a9, 0xeb0e363f, 0x72076785, 0x05005713,
     0x95bf4a82, 0xe2b87a14, 0x7bb12bae, 0x0cb61b38, 0x92d28e9b, 0xe5d5be0d, 0x7cdcefb7, 0x0bdbdf21,
     0x86d3d2d4, 0xf1d4e242, 0x68ddb3f8, 0x1fda836e, 0x81be16cd, 0xf6b9265b, 0x6fb077e1, 0x18b74777,
     0x88085ae6, 0xff0f6a70, 0x66063bca, 0x11010b5c, 0x8f659eff, 0xf862ae69, 0x616bffd3, 0x166ccf45,
     0xa00ae278, 0xd70dd2ee, 0x4e048354, 0x3903b3c2, 0xa7672661, 0xd06016f7, 0x4969474d, 0x3e6e77db,
     0xaed16a4a, 0xd9d65adc, 0x40df0b66, 0x37d83bf0, 0xa9bcae53, 0xdebb9ec5, 0x47b2cf7f, 0x30b5ffe9,
     0xbdbdf21c, 0xcabac28a, 0x53b39330, 0x24b4a3a6, 0xbad03605, 0xcdd70693, 0x54de5729, 0x23d967bf,
     0xb3667a2e, 0xc4614ab8, 0x5d681b02, 0x2a6f2b94, 0xb40bbe37, 0xc30c8ea1, 0x5a05df1b, 0x2d02ef8d]"
  using crc_entries_double [of 7] by (simp add: crc_entries_128 crc_entries_basis)

fun differing :: "nat \<Rightarrow> 'a list \<Rightarrow> 'a list \<Rightarrow> nat list" where
  "differing i (x # xs) (y # ys) = (if x = y then differing (i + 1) xs ys else i # differing (i + 1) xs ys)"
| "differing i xs ys = []"

lemma set_differing:
  "length xs = length ys \<Longrightarrow> set (differing i xs ys) = (\<lambda>k. i + k) ` {k. k < length xs \<and> xs ! k \<noteq> ys ! k}"
proof (induction i xs ys rule: differing.induct)
  case (1 i x xs y ys)
  have "{k. k < Suc n \<and> P k} = (if P 0 then {0} else {}) \<union> Suc ` {k. k < n \<and> P (Suc k)}" for n P
    by (auto simp: image_iff) (metis gr0_conv_Suc not_gr_zero Suc_less_eq)+
  from this [of "length xs" "\<lambda>k. (x # xs) ! k \<noteq> (y # ys) ! k"] 1 show ?case
    by (auto simp: image_image)
qed auto

lemma length_table: "length CRC32_TABLE = 256"
  by (simp add: CRC32_TABLE_def)

text \<open>Eleven entries of the table are not those of the polynomial.\<close>

lemma differing_entries: "differing 0 CRC32_TABLE (crc_entries 256) = wrong_entries"
  by (simp add: CRC32_TABLE_def crc_entries_256 wrong_entries_def)

lemma table_entry:
  assumes "i < 256"
  shows "CRC32_TABLE ! i = crc_entry i \<longleftrightarrow> i \<notin> set wrong_entries"
proof -
  have "length CRC32_TABLE = length (crc_entries 256)" by (simp add: length_table crc_entries_def)
  from set_differing [OF this, of 0] assms show ?thesis
    by (simp add: differing_entries length_table) (simp add: crc_entries_def)
qed

section \<open>When the table computes CRC-32\<close>

lemma crc_bits_shift: "n \<le> 8 \<Longrightarrow> (\<And>k. k < 8 \<Longrightarrow> \<not> bit c k) \<Longrightarrow> (crc_bit ^^ n) c = drop_bit n c"
proof (induction n)
  case (Suc n)
  then have "(crc_bit ^^ Suc n) c = crc_bit (drop_bit n c)" "\<not> bit (drop_bit n c) 0" by (auto simp: bit_simps)
  moreover from this(2) have "crc_bit (drop_bit n c) = drop_bit (Suc n) c" by (simp add: crc_bit_def)
  ultimately show ?case by metis
qed simp

text \<open>Eight steps of the polynomial are one look-up of the right entry.\<close>

lemma crc_byte_entry: "crc_byte b crc = crc_entry (unat ((crc XOR ucast b) AND 0xFF)) XOR drop_bit 8 crc"
proof -
  let ?c = "crc XOR ucast b"
  have low: "?c AND 0xFF = take_bit 8 ?c" by (simp add: take_bit_eq_mask mask_numeral)
  have split: "?c = take_bit 8 ?c XOR push_bit 8 (drop_bit 8 crc)"
    by (rule bit_word_eqI) (auto simp: bit_simps dest: bit_imp_le_length [of b, simplified])
  have "(crc_bit ^^ 8) (push_bit 8 (drop_bit 8 crc)) = drop_bit 8 (push_bit 8 (drop_bit 8 crc))"
    by (rule crc_bits_shift) (auto simp: bit_simps)
  also have "\<dots> = drop_bit 8 crc"
    by (rule bit_word_eqI) (auto simp: bit_simps dest: bit_imp_le_length)
  finally show ?thesis
    unfolding crc_byte_def crc_entry_def low by (subst split, subst crc_bits_xor) simp
qed

definition table_index :: "u8 \<Rightarrow> u32 \<Rightarrow> nat" where
  "table_index b crc = unat ((crc XOR ucast b) AND 0xFF)"

lemma table_index_less: "table_index b crc < 256"
proof -
  have "(crc XOR ucast b) AND 0xFF \<le> 0xFF" by (rule word_and_le1)
  then show ?thesis by (simp add: table_index_def word_le_nat_alt)
qed

lemma crc_update_iff: "crc_update b crc = crc_byte b crc \<longleftrightarrow> table_index b crc \<notin> set wrong_entries"
proof -
  have cancel: "x XOR z = y XOR z \<longleftrightarrow> x = y" for x y z :: u32
    by (metis xor.assoc xor.right_neutral xor_self_eq)
  show ?thesis
    using table_entry [OF table_index_less, of b crc]
    by (simp add: crc_update_def crc_byte_entry cancel flip: table_index_def)
qed

text \<open>The messages whose CRC-32 never looks up a wrong entry.\<close>

fun table_clean :: "u8 list \<Rightarrow> u32 \<Rightarrow> bool" where
  "table_clean [] crc = True"
| "table_clean (b # bs) crc = (table_index b crc \<notin> set wrong_entries \<and> table_clean bs (crc_byte b crc))"

lemma clean_fold: "table_clean data crc \<Longrightarrow> fold crc_update data crc = fold crc_byte data crc"
proof (induction data arbitrary: crc)
  case (Cons b data)
  then have "crc_update b crc = crc_byte b crc" by (simp add: crc_update_iff)
  with Cons show ?case by simp
qed simp

text \<open>
  The table-driven checksum is CRC-32 on every message that does not meet one of the eleven wrong
  entries of its table: there it equals the checksum by the polynomial, one bit at a time, whatever the
  length of the message.
\<close>

lemma crc_table_agrees:
  assumes "table_clean data 0xFFFFFFFF"
  shows "crc32_fast data = crc32 data"
  using assms by (simp add: crc32_fast_def crc32_def clean_fold)

text \<open>
  The table has exactly eleven wrong entries, and they matter: on a message of one byte the table gives
  CRC-32 if and only if the byte does not select one of them, so eleven of the 256 one-byte messages get a
  wrong checksum.
\<close>

lemma crc_one_byte:
  "(crc32_fast [b] = crc32 [b] \<longleftrightarrow> table_index b 0xFFFFFFFF \<notin> set wrong_entries) \<and>
   (\<forall>i. i < 256 \<longrightarrow> (CRC32_TABLE ! i = crc_entry i \<longleftrightarrow> i \<notin> set wrong_entries))"
proof -
  have cancel: "x XOR z = y XOR z \<longleftrightarrow> x = y" for x y z :: u32
    by (metis xor.assoc xor.right_neutral xor_self_eq)
  show ?thesis
    by (simp add: crc32_fast_def crc32_def cancel crc_update_iff table_entry)
qed

section \<open>The incremental checksum\<close>

text \<open>
  The incremental checksum is the one-shot checksum: fed in any number of pieces, of any sizes, it ends
  with the checksum of all the bytes in one message.
\<close>

lemma incremental_is_one_shot:
  "ic_finalize (fold ic_update chunks ic_new) = crc32_fast (concat chunks)"
proof -
  have "ic_current_crc (fold ic_update chunks c) = fold crc_update (concat chunks) (ic_current_crc c)" for c
    by (induction chunks arbitrary: c) (simp_all add: ic_update_def)
  then show ?thesis by (simp add: ic_finalize_def crc32_fast_def ic_new_def)
qed

section \<open>The checksum over price levels\<close>

definition half_xor :: "i64 \<times> i64 \<Rightarrow> u32" where
  "half_xor level =
     (case level of (price, qty) \<Rightarrow>
        (ucast (drop_bit 32 price) XOR ucast (price AND 0xFFFFFFFF)) XOR
        (ucast (drop_bit 32 qty) XOR ucast (qty AND 0xFFFFFFFF)))"

definition compute_from_levels :: "(i64 \<times> i64) list \<Rightarrow> (i64 \<times> i64) list \<Rightarrow> u32" where
  "compute_from_levels bids asks =
     fold (\<lambda>i xor_sum.
             let xor_sum = (if i < length bids then xor_sum XOR half_xor (bids ! i) else xor_sum)
             in if i < length asks then xor_sum XOR half_xor (asks ! i) else xor_sum)
       [0..<max (length bids) (length asks)] 0"

lemma xor_fold: "fold (\<lambda>x acc. acc XOR x) xs a = a XOR (fold (\<lambda>x acc. acc XOR x) xs 0 :: u32)"
proof (induction xs arbitrary: a)
  case (Cons x xs)
  from Cons.IH [of "a XOR x"] Cons.IH [of x] show ?case by (simp add: xor.assoc)
qed simp

definition xor_levels :: "(i64 \<times> i64) list \<Rightarrow> u32" where
  "xor_levels xs = fold (\<lambda>x acc. acc XOR half_xor x) xs 0"

lemma xor_levels_Cons: "xor_levels (x # xs) = half_xor x XOR xor_levels xs"
  using xor_fold [of "map half_xor xs" "half_xor x"] by (simp add: xor_levels_def fold_map comp_def)

lemma xor_levels_append: "xor_levels (xs @ ys) = xor_levels xs XOR xor_levels ys"
  by (induction xs) (simp_all add: xor_levels_Cons xor.assoc, simp add: xor_levels_def)

lemma xor_levels_mset: "mset xs = mset ys \<Longrightarrow> xor_levels xs = xor_levels ys"
proof (induction xs arbitrary: ys)
  case (Cons x xs)
  then obtain as bs where ys: "ys = as @ x # bs" by (metis list.set_intros(1) set_mset_mset split_list)
  with Cons have "xor_levels xs = xor_levels (as @ bs)" by simp
  then show ?case by (simp add: ys xor_levels_append xor_levels_Cons xor.left_commute)
qed simp

lemma compute_from_levels_eq: "compute_from_levels bids asks = xor_levels bids XOR xor_levels asks"
proof -
  let ?step = "\<lambda>i s. let s = (if i < length bids then s XOR half_xor (bids ! i) else s)
      in if i < length asks then s XOR half_xor (asks ! i) else s"
  have "fold ?step [0..<n] 0 = xor_levels (take n bids) XOR xor_levels (take n asks)" for n
  proof (induction n)
    case (Suc n)
    have "xor_levels (take (Suc n) xs) = xor_levels (take n xs) XOR (if n < length xs then half_xor (xs ! n) else 0)" for xs
      by (cases "n < length xs")
        (simp_all add: take_Suc_conv_app_nth xor_levels_append xor_levels_Cons, simp add: xor_levels_def)
    with Suc show ?case by (simp add: Let_def ac_simps)
  qed (simp add: xor_levels_def)
  then show ?thesis by (simp add: compute_from_levels_def)
qed

text \<open>
  The checksum over price levels is blind to most corruption: it depends only on the multiset of all
  levels. Reordering the levels, moving a level from the bids to the asks or swapping the sides altogether
  leaves it unchanged, and a level that appears twice cancels itself.
\<close>

lemma level_checksum_blind:
  assumes "mset (bids @ asks) = mset (bids' @ asks')"
  shows "compute_from_levels bids asks = compute_from_levels bids' asks' \<and>
    compute_from_levels (x # x # bids) asks = compute_from_levels bids asks"
proof -
  have "xor_levels (bids @ asks) = xor_levels (bids' @ asks')" using assms by (rule xor_levels_mset)
  then show ?thesis
    by (simp add: compute_from_levels_eq xor_levels_append xor_levels_Cons flip: xor.assoc)
qed

section \<open>The validator\<close>

record ChecksumValidator =
  cv_expected_checksum :: u32
  cv_computed_checksum :: u32
  cv_running_crc :: IncrementalCrc32
  cv_mismatch_count :: u64
  cv_validation_count :: u64
  cv_last_valid_seq :: u64
  cv_corruption_detected :: bool

record ValidationResult =
  vr_is_valid :: bool
  vr_expected :: u32
  vr_computed :: u32
  vr_sequence :: u64
  vr_should_resync :: bool

definition cv_new :: ChecksumValidator where
  "cv_new =
     \<lparr>cv_expected_checksum = 0, cv_computed_checksum = 0, cv_running_crc = ic_new, cv_mismatch_count = 0,
      cv_validation_count = 0, cv_last_valid_seq = 0, cv_corruption_detected = False\<rparr>"

definition cv_set_expected :: "u32 \<Rightarrow> ChecksumValidator \<Rightarrow> ChecksumValidator" where
  "cv_set_expected checksum v = v\<lparr>cv_expected_checksum := checksum\<rparr>"

definition cv_validate :: "u32 \<Rightarrow> u64 \<Rightarrow> ChecksumValidator \<Rightarrow> ValidationResult \<times> ChecksumValidator" where
  "cv_validate computed sequence v =
     (let expected = cv_expected_checksum v;
          v = v\<lparr>cv_computed_checksum := computed, cv_validation_count := cv_validation_count v + 1\<rparr>
      in if computed = expected
         then (\<lparr>vr_is_valid = True, vr_expected = expected, vr_computed = computed, vr_sequence = sequence,
                vr_should_resync = False\<rparr>, v\<lparr>cv_last_valid_seq := sequence\<rparr>)
         else
           let v = v\<lparr>cv_mismatch_count := cv_mismatch_count v + 1, cv_corruption_detected := True\<rparr>;
               should_resync = (2 \<le> cv_mismatch_count v \<or> cv_last_valid_seq v + 100 < sequence)
           in (\<lparr>vr_is_valid = False, vr_expected = expected, vr_computed = computed, vr_sequence = sequence,
                vr_should_resync = should_resync\<rparr>, v))"

definition be_bytes :: "i64 \<Rightarrow> u8 list" where
  "be_bytes x = map (\<lambda>k. ucast (drop_bit k x AND 0xFF)) [56, 48, 40, 32, 24, 16, 8, 0]"

definition cv_update_running :: "i64 \<Rightarrow> i64 \<Rightarrow> ChecksumValidator \<Rightarrow> ChecksumValidator" where
  "cv_update_running price quantity v =
     v\<lparr>cv_running_crc := ic_update (be_bytes price @ be_bytes quantity) (cv_running_crc v)\<rparr>"

definition cv_get_running_checksum :: "ChecksumValidator \<Rightarrow> u32" where
  "cv_get_running_checksum v = ic_finalize (cv_running_crc v)"

definition cv_reset_running :: "ChecksumValidator \<Rightarrow> ChecksumValidator" where
  "cv_reset_running v = v\<lparr>cv_running_crc := ic_reset (cv_running_crc v)\<rparr>"

definition cv_clear_corruption :: "ChecksumValidator \<Rightarrow> ChecksumValidator" where
  "cv_clear_corruption v = v\<lparr>cv_corruption_detected := False, cv_mismatch_count := 0\<rparr>"

text \<open>The first mismatch in time asks for nothing; the second one, however much later, does.\<close>

lemma first_mismatch_tolerated:
  assumes "computed \<noteq> cv_expected_checksum v" and "cv_mismatch_count v = 0"
  shows "vr_should_resync (fst (cv_validate computed sequence v)) = (cv_last_valid_seq v + 100 < sequence)"
    and "cv_mismatch_count (snd (cv_validate computed sequence v)) = 1"
proof -
  have "\<not> (2 :: u64) \<le> 1" by (simp add: word_le_nat_alt)
  with assms show "vr_should_resync (fst (cv_validate computed sequence v)) = (cv_last_valid_seq v + 100 < sequence)"
    and "cv_mismatch_count (snd (cv_validate computed sequence v)) = 1"
    by (simp_all add: cv_validate_def Let_def)
qed

text \<open>
  Two mismatches always ask for a resynchronisation. Once a validator has counted a mismatch, however
  many valid checksums come in between, the next mismatch is reported invalid with the request to
  resynchronise, and the corruption flag is set.
\<close>

fun cv_run :: "(u32 \<times> u64) list \<Rightarrow> ChecksumValidator \<Rightarrow> ChecksumValidator" where
  "cv_run [] v = v"
| "cv_run ((expected, sequence) # xs) v =
     cv_run xs (snd (cv_validate expected sequence (cv_set_expected expected v)))"

lemma valid_keeps_count:
  "cv_mismatch_count (cv_run xs v) = cv_mismatch_count v"
  by (induction xs v rule: cv_run.induct) (simp_all add: cv_validate_def cv_set_expected_def Let_def)

lemma second_mismatch_resyncs:
  assumes "cv_mismatch_count v = 0" and "c \<noteq> cv_expected_checksum v" and "d \<noteq> e"
  shows "let v' = cv_run xs (snd (cv_validate c s v));
             (r, v'') = cv_validate d t (cv_set_expected e v')
         in \<not> vr_is_valid r \<and> vr_should_resync r \<and> cv_corruption_detected v''"
proof -
  have "cv_mismatch_count (cv_run xs (snd (cv_validate c s v))) = 1"
    using assms(1,2) first_mismatch_tolerated(2) by (simp add: valid_keeps_count)
  then show ?thesis using assms(3) by (simp add: cv_validate_def cv_set_expected_def Let_def)
qed

end
