(* ===== verification/Snapshot_Store.thy ===== *)
theory Snapshot_Store
  imports Machine
begin

text \<open>
  Packed snapshots of the order book and the ring of 256 of them
  (\<open>src/src/orderbook/snapshot_manager.rs\<close>). \<open>store\<close> writes the ring through a shared reference and uses
  the snapshot after it was moved, neither of which compiles; the model writes the ring. The slices of
  the levels are taken from raw pointers, so the counts must stay within the arrays.
\<close>

unbundle bit_operations_syntax

section \<open>A snapshot\<close>

definition MAX_LEVELS :: nat where
  "MAX_LEVELS = 50000"

record PackedLevel =
  pk_price :: i64
  pk_quantity :: i64
  pk_order_count :: u32

definition pk_empty :: PackedLevel where
  "pk_empty = \<lparr>pk_price = 0, pk_quantity = 0, pk_order_count = 0\<rparr>"

record PackedSnapshot =
  ps_symbol_id :: u64
  ps_sequence :: u64
  ps_timestamp_ns :: u64
  ps_bid_count :: u32
  ps_ask_count :: u32
  ps_valid :: bool
  ps_checksum :: u32
  ps_bid_levels :: "PackedLevel list"
  ps_ask_levels :: "PackedLevel list"

definition ps_empty :: PackedSnapshot where
  "ps_empty =
     \<lparr>ps_symbol_id = 0, ps_sequence = 0, ps_timestamp_ns = 0, ps_bid_count = 0, ps_ask_count = 0,
      ps_valid = False, ps_checksum = 0, ps_bid_levels = replicate MAX_LEVELS pk_empty,
      ps_ask_levels = replicate MAX_LEVELS pk_empty\<rparr>"

definition ps_bids :: "PackedSnapshot \<Rightarrow> PackedLevel list" where
  "ps_bids s = take (unat (ps_bid_count s)) (ps_bid_levels s)"

definition ps_asks :: "PackedSnapshot \<Rightarrow> PackedLevel list" where
  "ps_asks s = take (unat (ps_ask_count s)) (ps_ask_levels s)"

definition ps_set_bid :: "nat \<Rightarrow> PackedLevel \<Rightarrow> PackedSnapshot \<Rightarrow> bool \<times> PackedSnapshot" where
  "ps_set_bid idx level s =
     (if idx < MAX_LEVELS
      then (True, s\<lparr>ps_bid_levels := (ps_bid_levels s)[idx := level],
                    ps_bid_count := (if unat (ps_bid_count s) \<le> idx then of_nat (idx + 1) else ps_bid_count s)\<rparr>)
      else (False, s))"

definition ps_set_ask :: "nat \<Rightarrow> PackedLevel \<Rightarrow> PackedSnapshot \<Rightarrow> bool \<times> PackedSnapshot" where
  "ps_set_ask idx level s =
     (if idx < MAX_LEVELS
      then (True, s\<lparr>ps_ask_levels := (ps_ask_levels s)[idx := level],
                    ps_ask_count := (if unat (ps_ask_count s) \<le> idx then of_nat (idx + 1) else ps_ask_count s)\<rparr>)
      else (False, s))"

definition ps_best_bid :: "PackedSnapshot \<Rightarrow> PackedLevel option" where
  "ps_best_bid s = (if 0 < ps_bid_count s then Some (ps_bid_levels s ! 0) else None)"

definition ps_best_ask :: "PackedSnapshot \<Rightarrow> PackedLevel option" where
  "ps_best_ask s = (if 0 < ps_ask_count s then Some (ps_ask_levels s ! 0) else None)"

definition ps_mid_price :: "PackedSnapshot \<Rightarrow> i64 option" where
  "ps_mid_price s =
     (case (ps_best_bid s, ps_best_ask s) of
        (Some bid, Some ask) \<Rightarrow> Some (i64_div (pk_price bid + pk_price ask) 2) | _ \<Rightarrow> None)"

definition ps_spread :: "PackedSnapshot \<Rightarrow> i64 option" where
  "ps_spread s =
     (case (ps_best_bid s, ps_best_ask s) of
        (Some bid, Some ask) \<Rightarrow> Some (pk_price ask - pk_price bid) | _ \<Rightarrow> None)"

text \<open>The counts stay within the arrays, so the slices do.\<close>

definition ps_wf :: "PackedSnapshot \<Rightarrow> bool" where
  "ps_wf s \<longleftrightarrow>
     length (ps_bid_levels s) = MAX_LEVELS \<and> unat (ps_bid_count s) \<le> MAX_LEVELS \<and>
     length (ps_ask_levels s) = MAX_LEVELS \<and> unat (ps_ask_count s) \<le> MAX_LEVELS"

lemma ps_wf_empty: "ps_wf ps_empty"
  by (simp add: ps_wf_def ps_empty_def)

lemma ps_wf_set: "ps_wf s \<Longrightarrow> ps_wf (snd (ps_set_bid idx level s))" "ps_wf s \<Longrightarrow> ps_wf (snd (ps_set_ask idx level s))"
proof -
  have "idx < 50000 \<Longrightarrow> unat (of_nat (idx + 1) :: u32) = idx + 1" by (simp only: unat_of_nat) simp
  then show "ps_wf s \<Longrightarrow> ps_wf (snd (ps_set_bid idx level s))" "ps_wf s \<Longrightarrow> ps_wf (snd (ps_set_ask idx level s))"
    by (auto simp: ps_wf_def ps_set_bid_def ps_set_ask_def MAX_LEVELS_def simp del: of_nat_add)
qed

text \<open>Setting a deep level first makes the untouched top level the best one, at price zero.\<close>

lemma deep_level_exposes_empty:
  "map_option pk_price (ps_best_bid (snd (ps_set_bid 1 level ps_empty))) = Some 0"
  by (simp add: ps_best_bid_def ps_set_bid_def ps_empty_def MAX_LEVELS_def pk_empty_def)

section \<open>The manager\<close>

record SnapshotManager =
  snm_snapshots :: "PackedSnapshot list"
  snm_write_idx :: u64
  snm_total_stored :: u64
  snm_last_sequences :: "u64 list"
  snm_memory_pressure :: bool

definition snm_new :: SnapshotManager where
  "snm_new =
     \<lparr>snm_snapshots = replicate 256 ps_empty, snm_write_idx = 0, snm_total_stored = 0,
      snm_last_sequences = replicate 1024 0, snm_memory_pressure = False\<rparr>"

definition hash_symbol :: "u64 \<Rightarrow> nat" where
  "hash_symbol symbol_id = unat (drop_bit 32 (symbol_id * 0x9e3779b97f4a7c15) AND 0x3FF)"

definition snm_store :: "PackedSnapshot \<Rightarrow> SnapshotManager \<Rightarrow> u64 \<times> SnapshotManager" where
  "snm_store snapshot m =
     (let snapshot = snapshot\<lparr>ps_valid := True\<rparr>;
          idx = snm_write_idx m mod 256
      in (idx,
          m\<lparr>snm_write_idx := snm_write_idx m + 1,
            snm_snapshots := (snm_snapshots m)[unat idx := snapshot],
            snm_last_sequences := (snm_last_sequences m)[hash_symbol (ps_symbol_id snapshot) := ps_sequence snapshot],
            snm_total_stored := snm_total_stored m + 1\<rparr>))"

definition snm_get_latest :: "u64 \<Rightarrow> SnapshotManager \<Rightarrow> PackedSnapshot option" where
  "snm_get_latest symbol_id m =
     find (\<lambda>snap. ps_valid snap \<and> ps_symbol_id snap = symbol_id)
       (map (\<lambda>i. snm_snapshots m ! unat ((snm_write_idx m - 1 - of_nat i) AND 0xFF)) [0..<256])"

definition snm_get_by_sequence :: "u64 \<Rightarrow> u64 \<Rightarrow> SnapshotManager \<Rightarrow> PackedSnapshot option" where
  "snm_get_by_sequence symbol_id sequence m =
     find (\<lambda>snap. ps_valid snap \<and> ps_symbol_id snap = symbol_id \<and> ps_sequence snap = sequence) (snm_snapshots m)"

record GapInfo =
  gi_expected :: u64
  gi_last_seen :: u64
  gi_gap_size :: u64
  gi_has_gap :: bool

definition gap_info :: "u64 \<Rightarrow> u64 \<Rightarrow> GapInfo" where
  "gap_info expected_seq last_seq =
     (let has_gap = (expected_seq \<noteq> last_seq + 1 \<and> last_seq < expected_seq)
      in \<lparr>gi_expected = expected_seq, gi_last_seen = last_seq,
          gi_gap_size = (if has_gap then u64_sat_sub (u64_sat_sub expected_seq last_seq) 1 else 0),
          gi_has_gap = has_gap\<rparr>)"

definition snm_detect_gap :: "u64 \<Rightarrow> u64 \<Rightarrow> SnapshotManager \<Rightarrow> GapInfo" where
  "snm_detect_gap symbol_id expected_seq m = gap_info expected_seq (snm_last_sequences m ! hash_symbol symbol_id)"

record SnapshotStats =
  ss_total_stored :: u64
  ss_valid_snapshots :: u64
  ss_avg_bid_levels :: u64
  ss_avg_ask_levels :: u64
  ss_memory_pressure :: bool

definition snm_get_stats :: "SnapshotManager \<Rightarrow> SnapshotStats" where
  "snm_get_stats m =
     (let valid = filter ps_valid (snm_snapshots m);
          valid_count = of_nat (length valid);
          total_bids = sum_list (map (\<lambda>s. ucast (ps_bid_count s)) valid);
          total_asks = sum_list (map (\<lambda>s. ucast (ps_ask_count s)) valid)
      in \<lparr>ss_total_stored = snm_total_stored m, ss_valid_snapshots = valid_count,
          ss_avg_bid_levels = (if 0 < valid_count then total_bids div valid_count else 0),
          ss_avg_ask_levels = (if 0 < valid_count then total_asks div valid_count else 0),
          ss_memory_pressure = snm_memory_pressure m\<rparr>)"

definition snm_compact :: "SnapshotManager \<Rightarrow> u64 \<times> SnapshotManager" where
  "snm_compact m = (snm_total_stored m, m\<lparr>snm_total_stored := 0\<rparr>)"

section \<open>What the ring holds\<close>

definition store_all :: "PackedSnapshot list \<Rightarrow> SnapshotManager" where
  "store_all ss = fold (\<lambda>s m. snd (snm_store s m)) ss snm_new"

definition marked_valid :: "PackedSnapshot \<Rightarrow> PackedSnapshot" where
  "marked_valid s = s\<lparr>ps_valid := True\<rparr>"

lemma low_byte: "unat ((w :: u64) AND 0xFF) = unat w mod 256"
proof -
  have "w AND 0xFF = take_bit 8 w" by (simp add: take_bit_eq_mask mask_numeral)
  then show ?thesis by (simp add: take_bit_eq_mod unat_mod)
qed

lemma of_nat_mod_256: "unat (of_nat n :: u64) mod 256 = n mod 256"
  by (simp add: unat_of_nat mod_mod_cancel)

lemma ring_index:
  assumes "i < 256"
  shows "unat ((of_nat n - 1 - of_nat i :: u64) AND 0xFF) = (n + 255 - i) mod 256"
proof -
  let ?w = "of_nat n - 1 - of_nat i :: u64"
  have "?w + 256 = of_nat (n + 255 - i)" using assms by (simp add: of_nat_diff)
  then have "unat (?w + 256) mod 256 = (n + 255 - i) mod 256" by (simp only: of_nat_mod_256)
  moreover have "unat (w + 256 :: u64) mod 256 = unat w mod 256" for w
    by (simp add: unat_word_ariths mod_mod_cancel)
  ultimately show ?thesis by (simp only: low_byte)
qed

text \<open>After any stores, the last 256 of them are in the ring, and the rest of the ring is invalid.\<close>

definition ring_holds :: "PackedSnapshot list \<Rightarrow> SnapshotManager \<Rightarrow> bool" where
  "ring_holds ss m \<longleftrightarrow>
     length (snm_snapshots m) = 256 \<and> snm_write_idx m = of_nat (length ss) \<and>
     (\<forall>j < length ss. length ss \<le> j + 256 \<longrightarrow> snm_snapshots m ! (j mod 256) = marked_valid (ss ! j)) \<and>
     (\<forall>k < 256. length ss \<le> k \<longrightarrow> \<not> ps_valid (snm_snapshots m ! k))"

lemma different_slots: "j < n \<Longrightarrow> n < j + 256 \<Longrightarrow> j mod 256 \<noteq> n mod (256 :: nat)"
proof
  assume "j < n" "n < j + 256" "j mod 256 = n mod 256"
  then have "256 dvd n - j" by (metis mod_eq_dvd_iff_nat less_imp_le)
  with \<open>j < n\<close> \<open>n < j + 256\<close> show False by (auto dest: dvd_imp_le)
qed

lemma ring_holds_new: "ring_holds [] snm_new"
  by (simp add: ring_holds_def snm_new_def ps_empty_def)

lemma ring_holds_store:
  assumes h: "ring_holds ss m"
  shows "ring_holds (ss @ [s]) (snd (snm_store s m))"
proof -
  let ?n = "length ss"
  have idx: "unat (snm_write_idx m mod 256) = ?n mod 256"
    using h by (simp add: ring_holds_def unat_mod of_nat_mod_256)
  have snaps: "snm_snapshots (snd (snm_store s m)) = (snm_snapshots m)[?n mod 256 := marked_valid s]"
    by (simp add: snm_store_def Let_def idx marked_valid_def)
  have "snm_snapshots (snd (snm_store s m)) ! (j mod 256) = marked_valid ((ss @ [s]) ! j)"
    if "j < Suc ?n" "Suc ?n \<le> j + 256" for j
  proof (cases "j = ?n")
    case True
    with h show ?thesis by (simp add: snaps ring_holds_def)
  next
    case False
    then have "j < ?n" "j mod 256 \<noteq> ?n mod 256" using that different_slots [of j ?n] by auto
    with h that show ?thesis by (simp add: snaps ring_holds_def nth_append)
  qed
  moreover have "\<not> ps_valid (snm_snapshots (snd (snm_store s m)) ! k)" if "k < 256" "Suc ?n \<le> k" for k
    using h that by (simp add: snaps ring_holds_def)
  moreover have "snm_write_idx (snd (snm_store s m)) = of_nat (Suc ?n)"
    using h by (simp add: snm_store_def Let_def ring_holds_def)
  ultimately show ?thesis using h by (simp add: ring_holds_def snaps)
qed

lemma ring_holds_store_all: "ring_holds ss (store_all ss)"
  by (induction ss rule: rev_induct) (simp_all add: store_all_def ring_holds_new ring_holds_store)

lemma find_append: "find P (xs @ ys) = (case find P xs of Some x \<Rightarrow> Some x | None \<Rightarrow> find P ys)"
  by (induction xs) auto

text \<open>
  The ring returns the newest snapshot. After any number of stores, the latest snapshot of a symbol is
  the one stored last for it, marked valid, as long as it is among the last 256 stored; otherwise there is
  none.
\<close>

lemma latest_snapshot_exact:
  "snm_get_latest symbol_id (store_all ss) =
     find (\<lambda>s. ps_symbol_id s = symbol_id) (map marked_valid (take 256 (rev ss)))"
proof -
  let ?n = "length ss" and ?m = "store_all ss"
  let ?P = "\<lambda>snap. ps_valid snap \<and> ps_symbol_id snap = symbol_id"
  define slot where "slot i = snm_snapshots ?m ! ((?n + 255 - i) mod 256)" for i
  have h: "ring_holds ss ?m" by (rule ring_holds_store_all)
  have "map (\<lambda>i. snm_snapshots ?m ! unat ((snm_write_idx ?m - 1 - of_nat i) AND 0xFF)) [0..<256] = map slot [0..<256]"
    using h ring_index [of _ ?n] by (simp add: ring_holds_def slot_def)
  then have get: "snm_get_latest symbol_id ?m = find ?P (map slot [0..<256])"
    unfolding snm_get_latest_def by (simp only:)
  define k where "k = min ?n 256"
  have "slot i = marked_valid (rev ss ! i)" if "i < k" for i
  proof -
    let ?j = "?n - 1 - i"
    have "?n + 255 - i = ?j + 256" "?j < ?n" "?n \<le> ?j + 256" using that by (auto simp: k_def)
    moreover have "(?j + 256) mod 256 = ?j mod 256" by simp
    ultimately have "slot i = marked_valid (ss ! ?j)" using h unfolding slot_def ring_holds_def by metis
    with that show ?thesis by (simp add: rev_nth k_def)
  qed
  then have new: "map slot [0..<k] = map marked_valid (take 256 (rev ss))"
    by (intro nth_equalityI) (auto simp: k_def)
  have "\<not> ps_valid (slot i)" if "k \<le> i" "i < 256" for i
  proof -
    have "?n \<le> i" "(?n + 255 - i) mod 256 = ?n + 255 - i" using that by (auto simp: k_def)
    then show ?thesis using h that by (simp add: slot_def ring_holds_def)
  qed
  then have old: "find ?P (map slot [k..<256]) = None" by (auto simp: find_None_iff)
  have "[0..<256] = [0..<k] @ [k..<256]" using upt_add_eq_append [of 0 k "256 - k"] by (simp add: k_def)
  then have "snm_get_latest symbol_id ?m = find ?P (map marked_valid (take 256 (rev ss)))"
    using get old by (simp only: map_append find_append new) (simp split: option.splits)
  moreover have "find ?P (map marked_valid xs) = find (\<lambda>s. ps_symbol_id s = symbol_id) (map marked_valid xs)" for xs
    by (induction xs) (simp_all add: marked_valid_def)
  ultimately show ?thesis by simp
qed

section \<open>Gaps\<close>

lemma hash_symbol_less: "hash_symbol i < 1024"
proof -
  have "drop_bit 32 (i * 0x9e3779b97f4a7c15) AND 0x3FF \<le> 0x3FF" by (rule word_and_le1)
  then show ?thesis by (simp add: hash_symbol_def word_le_nat_alt)
qed

text \<open>
  Gaps are detected per bucket, not per symbol. What a gap check compares with is the sequence number of
  the snapshot stored last for any symbol that shares the bucket of the hash, or zero; the snapshots of two
  symbols in one bucket hide or feign each other's gaps.
\<close>

lemma gap_per_bucket:
  "snm_detect_gap symbol_id expected (store_all ss) =
     gap_info expected
       (case find (\<lambda>s. hash_symbol (ps_symbol_id s) = hash_symbol symbol_id) (rev ss) of
          Some s \<Rightarrow> ps_sequence s | None \<Rightarrow> 0)"
proof -
  have "length (snm_last_sequences (store_all ss)) = 1024 \<and>
      snm_last_sequences (store_all ss) ! hash_symbol symbol_id =
        (case find (\<lambda>s. hash_symbol (ps_symbol_id s) = hash_symbol symbol_id) (rev ss) of
           Some s \<Rightarrow> ps_sequence s | None \<Rightarrow> 0)"
  proof (induction ss rule: rev_induct)
    case Nil
    then show ?case by (simp add: store_all_def snm_new_def hash_symbol_less)
  next
    case (snoc s ss)
    then show ?case
      using hash_symbol_less [of "ps_symbol_id s"]
      by (auto simp: store_all_def snm_store_def Let_def nth_list_update)
  qed
  then show ?thesis by (simp add: snm_detect_gap_def)
qed

text \<open>Symbols 2 and 445 share a bucket: a snapshot of one hides the gap of the other.\<close>

text \<open>Compaction forgets the count and keeps the snapshots.\<close>

lemma compaction_clears_nothing: "snm_get_latest symbol_id (snd (snm_compact m)) = snm_get_latest symbol_id m"
  by (simp add: snm_compact_def snm_get_latest_def)

end
