(* ===== verification/Venue.thy ===== *)
theory Venue
  imports Machine
begin

text \<open>
  Venues of the gateway (\<open>src/src/gateway/venue.rs\<close>) and the shared parts of the gateway module
  (\<open>src/src/gateway/mod.rs\<close>): orders and responses, routing decisions, the common part of a venue
  adapter, and the connection pool.

  The trait \<open>VenueAdapter\<close> has no implementation in the repository. An adapter is a record of its
  methods, which read and change the state of the outside world, a type variable. The channel of
  gateway events is a bounded queue of the crate \<open>crossbeam_channel\<close>: sending is a parameter, a
  function that changes the world, or gives \<open>None\<close> when the call blocks for ever.
\<close>

section \<open>Configuration and routing decisions\<close>

datatype VenueType = CEX | DEX | MarketMaker | DarkPool

definition venue_type_str :: "VenueType \<Rightarrow> string" where
  "venue_type_str t = (case t of CEX \<Rightarrow> ''CEX'' | DEX \<Rightarrow> ''DEX'' | MarketMaker \<Rightarrow> ''MM'' | DarkPool \<Rightarrow> ''DARK'')"

record ConnectionConfig =
  cc_venue_id :: u32
  cc_venue_type :: VenueType
  cc_ws_endpoint :: "u8 list"
  cc_rest_endpoint :: "u8 list"
  cc_api_key :: "u8 list"
  cc_api_secret :: "u8 list"
  cc_connect_timeout_ms :: u32
  cc_heartbeat_interval_ms :: u32
  cc_reconnect_delay_ms :: u32
  cc_max_reconnect_attempts :: u32
  cc_rate_limit_enabled :: bool
  cc_max_orders_per_second :: u32

definition cc_default :: ConnectionConfig where
  "cc_default =
     \<lparr>cc_venue_id = 0, cc_venue_type = CEX, cc_ws_endpoint = replicate 256 0,
      cc_rest_endpoint = replicate 256 0, cc_api_key = replicate 128 0, cc_api_secret = replicate 256 0,
      cc_connect_timeout_ms = 5000, cc_heartbeat_interval_ms = 30000, cc_reconnect_delay_ms = 1000,
      cc_max_reconnect_attempts = 10, cc_rate_limit_enabled = True, cc_max_orders_per_second = 100\<rparr>"

record OrderRoutingDecision =
  ord_venue_id :: u32
  ord_expected_latency_ns :: u64
  ord_available_liquidity :: u64
  ord_score :: u32
  ord_is_failover :: bool

text \<open>The bands of the latency are the same for a decision and for the routing score of a venue.\<close>

definition latency_band :: "u64 \<Rightarrow> u32" where
  "latency_band latency_ns =
     (if latency_ns < 1000000 then 100 else if latency_ns < 5000000 then 80
      else if latency_ns < 10000000 then 60 else 40)"

definition ord_new :: "u32 \<Rightarrow> u64 \<Rightarrow> u64 \<Rightarrow> OrderRoutingDecision" where
  "ord_new venue_id expected_latency_ns available_liquidity =
     (let latency_score = latency_band expected_latency_ns;
          liquidity_score =
            (if 1000000000 < available_liquidity then 100 else if 100000000 < available_liquidity then 80
             else if 10000000 < available_liquidity then 60 else 40)
      in \<lparr>ord_venue_id = venue_id, ord_expected_latency_ns = expected_latency_ns,
          ord_available_liquidity = available_liquidity,
          ord_score = (latency_score + liquidity_score) div 2, ord_is_failover = False\<rparr>)"

definition u32_sat_sub :: "u32 \<Rightarrow> u32 \<Rightarrow> u32" where
  "u32_sat_sub a b = (if a < b then 0 else a - b)"

definition ord_as_failover :: "OrderRoutingDecision \<Rightarrow> OrderRoutingDecision" where
  "ord_as_failover d = d\<lparr>ord_is_failover := True, ord_score := u32_sat_sub (ord_score d) 20\<rparr>"

section \<open>Orders, responses and errors\<close>

datatype VenueError =
    NotConnected | ConnectionFailed | AuthenticationFailed | RateLimited | InvalidRequest | Timeout
  | ProtocolError | InsufficientBalance | OrderRejected | SymbolNotFound | InternalError

definition venue_error_code :: "VenueError \<Rightarrow> u32" where
  "venue_error_code e =
     (case e of NotConnected \<Rightarrow> 1 | ConnectionFailed \<Rightarrow> 2 | AuthenticationFailed \<Rightarrow> 3 | RateLimited \<Rightarrow> 4
      | InvalidRequest \<Rightarrow> 5 | Timeout \<Rightarrow> 6 | ProtocolError \<Rightarrow> 7 | InsufficientBalance \<Rightarrow> 8
      | OrderRejected \<Rightarrow> 9 | SymbolNotFound \<Rightarrow> 10 | InternalError \<Rightarrow> 99)"

record OrderRequest =
  or_client_order_id :: u64
  or_symbol_hash :: u64
  or_side :: u8
  or_order_type :: u8
  or_price :: u64
  or_quantity :: u64
  or_time_in_force :: u8
  or_timestamp_ns :: u64

definition or_new :: "u64 \<Rightarrow> u64 \<Rightarrow> u8 \<Rightarrow> u8 \<Rightarrow> u64 \<Rightarrow> u64 \<Rightarrow> u8 \<Rightarrow> OrderRequest" where
  "or_new client_order_id symbol_hash side order_type price quantity time_in_force =
     \<lparr>or_client_order_id = client_order_id, or_symbol_hash = symbol_hash, or_side = side,
      or_order_type = order_type, or_price = price, or_quantity = quantity,
      or_time_in_force = time_in_force, or_timestamp_ns = 0\<rparr>"

record OrderResponse =
  op_order_id :: u64
  op_client_order_id :: u64
  op_status :: u8
  op_avg_fill_price :: u64
  op_filled_qty :: u64
  op_remaining_qty :: u64
  op_timestamp_ns :: u64
  op_error_code :: u32

definition op_is_filled :: "OrderResponse \<Rightarrow> bool" where
  "op_is_filled r \<longleftrightarrow> op_status r = 2"

definition op_is_rejected :: "OrderResponse \<Rightarrow> bool" where
  "op_is_rejected r \<longleftrightarrow> op_status r = 4 \<or> op_error_code r \<noteq> 0"

record CancelResponse =
  cr_order_id :: u64
  cr_client_order_id :: u64
  cr_success :: bool
  cr_canceled_qty :: u64
  cr_timestamp_ns :: u64
  cr_error_code :: u32

record LiquidityInfo =
  li_best_bid :: u64
  li_best_ask :: u64
  li_bid_size :: u64
  li_ask_size :: u64
  li_spread :: u64
  li_mid_price :: u64
  li_timestamp_ns :: u64

definition li_empty :: LiquidityInfo where
  "li_empty =
     \<lparr>li_best_bid = 0, li_best_ask = 0, li_bid_size = 0, li_ask_size = 0, li_spread = 0,
      li_mid_price = 0, li_timestamp_ns = 0\<rparr>"

definition li_is_valid :: "LiquidityInfo \<Rightarrow> bool" where
  "li_is_valid l \<longleftrightarrow> 0 < li_best_bid l \<and> 0 < li_best_ask l \<and> li_best_bid l < li_best_ask l"

record VenueStats =
  vt_orders_submitted :: u64
  vt_orders_filled :: u64
  vt_orders_rejected :: u64
  vt_orders_canceled :: u64
  vt_avg_latency_ns :: u64
  vt_last_heartbeat_ns :: u64
  vt_uptime_seconds :: u64
  vt_error_count :: u64

definition vt_new :: VenueStats where
  "vt_new =
     \<lparr>vt_orders_submitted = 0, vt_orders_filled = 0, vt_orders_rejected = 0, vt_orders_canceled = 0,
      vt_avg_latency_ns = 0, vt_last_heartbeat_ns = 0, vt_uptime_seconds = 0, vt_error_count = 0\<rparr>"

section \<open>Adapters\<close>

text \<open>The methods of \<open>VenueAdapter\<close> that the gateway calls, over the state \<open>'w\<close> of the world.\<close>

type_synonym 'a venue_result = "VenueError + 'a"

record 'w VenueAdapter =
  va_venue_id :: u32
  va_connect :: "'w \<Rightarrow> unit venue_result \<times> 'w"
  va_disconnect :: "'w \<Rightarrow> unit venue_result \<times> 'w"
  va_is_connected :: "'w \<Rightarrow> bool"
  va_submit_order :: "OrderRequest \<Rightarrow> 'w \<Rightarrow> OrderResponse venue_result \<times> 'w"
  va_cancel_order :: "u64 \<Rightarrow> 'w \<Rightarrow> CancelResponse venue_result \<times> 'w"
  va_get_liquidity :: "u64 \<Rightarrow> 'w \<Rightarrow> LiquidityInfo"

text \<open>The common part of the adapters.\<close>

record BaseVenueAdapter =
  ba_venue_id :: u32
  ba_venue_type :: VenueType
  ba_connected :: bool
  ba_last_latency_ns :: u64
  ba_orders_submitted :: u64
  ba_connection_start_ns :: u64

definition ba_new :: "u32 \<Rightarrow> VenueType \<Rightarrow> BaseVenueAdapter" where
  "ba_new venue_id venue_type =
     \<lparr>ba_venue_id = venue_id, ba_venue_type = venue_type, ba_connected = False, ba_last_latency_ns = 0,
      ba_orders_submitted = 0, ba_connection_start_ns = 0\<rparr>"

definition ba_set_connected :: "u64 \<Rightarrow> bool \<Rightarrow> BaseVenueAdapter \<Rightarrow> BaseVenueAdapter" where
  "ba_set_connected now connected b =
     (let b = b\<lparr>ba_connected := connected\<rparr>
      in if connected then b\<lparr>ba_connection_start_ns := now\<rparr> else b)"

definition ba_update_latency :: "u64 \<Rightarrow> BaseVenueAdapter \<Rightarrow> BaseVenueAdapter" where
  "ba_update_latency latency_ns b = b\<lparr>ba_last_latency_ns := latency_ns\<rparr>"

definition ba_increment_orders_submitted :: "BaseVenueAdapter \<Rightarrow> BaseVenueAdapter" where
  "ba_increment_orders_submitted b = b\<lparr>ba_orders_submitted := ba_orders_submitted b + 1\<rparr>"

definition ba_get_uptime_seconds :: "u64 \<Rightarrow> BaseVenueAdapter \<Rightarrow> u64" where
  "ba_get_uptime_seconds now b =
     (let start = ba_connection_start_ns b
      in if start = 0 then 0 else u64_sat_sub now start div 1000000000)"

section \<open>The connection pool\<close>

record ConnectionPool =
  cpool_max_connections_per_venue :: u64
  cpool_active_connections :: u64
  cpool_is_running :: bool
  cpool_connection_errors :: u64
  cpool_reconnection_attempts :: u64

definition cpool_new :: "u64 \<Rightarrow> ConnectionPool" where
  "cpool_new max_connections_per_venue =
     \<lparr>cpool_max_connections_per_venue = max_connections_per_venue, cpool_active_connections = 0,
      cpool_is_running = True, cpool_connection_errors = 0, cpool_reconnection_attempts = 0\<rparr>"

definition cpool_try_acquire :: "ConnectionPool \<Rightarrow> bool \<times> ConnectionPool" where
  "cpool_try_acquire p =
     (if \<not> cpool_is_running p then (False, p)
      else let current = cpool_active_connections p
           in if cpool_max_connections_per_venue p * 10 \<le> current then (False, p)
              else (True, p\<lparr>cpool_active_connections := cpool_active_connections p + 1\<rparr>))"

definition cpool_release :: "ConnectionPool \<Rightarrow> ConnectionPool" where
  "cpool_release p = p\<lparr>cpool_active_connections := cpool_active_connections p - 1\<rparr>"

definition cpool_record_error :: "ConnectionPool \<Rightarrow> ConnectionPool" where
  "cpool_record_error p = p\<lparr>cpool_connection_errors := cpool_connection_errors p + 1\<rparr>"

definition cpool_record_reconnect :: "ConnectionPool \<Rightarrow> ConnectionPool" where
  "cpool_record_reconnect p = p\<lparr>cpool_reconnection_attempts := cpool_reconnection_attempts p + 1\<rparr>"

definition cpool_stop :: "ConnectionPool \<Rightarrow> ConnectionPool" where
  "cpool_stop p = p\<lparr>cpool_is_running := False\<rparr>"

record ConnectionPoolStats =
  pst_active_connections :: u64
  pst_max_connections :: u64
  pst_connection_errors :: u64
  pst_reconnection_attempts :: u64
  pst_is_running :: bool

definition cpool_get_stats :: "ConnectionPool \<Rightarrow> ConnectionPoolStats" where
  "cpool_get_stats p =
     \<lparr>pst_active_connections = cpool_active_connections p,
      pst_max_connections = cpool_max_connections_per_venue p * 10,
      pst_connection_errors = cpool_connection_errors p,
      pst_reconnection_attempts = cpool_reconnection_attempts p, pst_is_running = cpool_is_running p\<rparr>"

section \<open>Events\<close>

datatype DisconnectReason = NetworkError | AuthFailed | RateLimit | GracefulShutdown | TimedOut | ProtocolFault

datatype GatewayEvent =
    VenueConnected u32 u64
  | VenueDisconnected u32 DisconnectReason
  | OrderRouted u64 u32
  | FillReceived u64 u64 u64
  | MarketDataUpdate u32 u64
  | LatencyMeasurement u32 u64
  | GatewayError u32 u32

type_synonym 'w sender = "GatewayEvent \<Rightarrow> 'w \<Rightarrow> 'w option"

section \<open>The pool as a counter\<close>

datatype pool_op = PoolAcquire | PoolRelease | PoolError | PoolReconnect

fun pool_exec :: "pool_op \<Rightarrow> ConnectionPool \<Rightarrow> ConnectionPool" where
  "pool_exec PoolAcquire p = snd (cpool_try_acquire p)"
| "pool_exec PoolRelease p = cpool_release p"
| "pool_exec PoolError p = cpool_record_error p"
| "pool_exec PoolReconnect p = cpool_record_reconnect p"

text \<open>Releases are only called by holders, so never on an empty pool.\<close>

fun pool_allowed :: "pool_op \<Rightarrow> ConnectionPool \<Rightarrow> bool" where
  "pool_allowed PoolRelease p \<longleftrightarrow> 0 < cpool_active_connections p"
| "pool_allowed _ p \<longleftrightarrow> True"

definition pool_within :: "u64 \<Rightarrow> ConnectionPool \<Rightarrow> bool" where
  "pool_within n p \<longleftrightarrow> cpool_max_connections_per_venue p = n \<and> cpool_active_connections p \<le> n * 10"

lemma word_less_Suc_le: "(a :: u64) < b \<Longrightarrow> a + 1 \<le> b"
  by (rule inc_le)

lemma word_pred_le: "0 < (a :: u64) \<Longrightarrow> a \<le> b \<Longrightarrow> a - 1 \<le> b"
  using unat_minus_one [of a] by (auto simp: word_le_nat_alt)

interpretation pool: guarded_system pool_exec pool_allowed "pool_within n" for n
proof unfold_locales
  fix p a
  assume "pool_within n p" "pool_allowed a p"
  then show "pool_within n (pool_exec a p)"
    by (cases a) (auto simp: pool_within_def cpool_try_acquire_def cpool_release_def cpool_record_error_def
        cpool_record_reconnect_def word_less_Suc_le word_pred_le not_le)
qed

lemma pool_limit_holds:
  assumes "permitted pool_exec pool_allowed ops (cpool_new n)"
  shows "cpool_active_connections (run pool_exec ops (cpool_new n)) \<le> n * 10"
  using pool.run_inv [of n "cpool_new n", OF _ assms] by (simp add: pool_within_def cpool_new_def)

text \<open>A release without an acquisition leaves the counter at its maximum, and the pool gives out no
  connection any more.\<close>

lemma stray_release_closes_pool:
  "n * 10 \<noteq> (0 :: u64) \<Longrightarrow> \<not> fst (cpool_try_acquire (cpool_release (cpool_new n)))"
  by (simp add: cpool_try_acquire_def cpool_release_def cpool_new_def)

end
