(* ===== verification/Gateway_Manager.thy ===== *)
theory Gateway_Manager
  imports Venue
begin

text \<open>
  The gateway manager and its load balancer (\<open>src/src/gateway/manager.rs\<close>).

  \<open>update_venue_status\<close> and \<open>set_primary_venue\<close> write through a shared reference and
  \<open>ok_or_else|| ...\<close> lacks a parenthesis: they do not compile, and the model has the intended
  effect. A method of the manager that sends an event gives \<open>None\<close> when the channel blocks for ever.
  Counts of venues are natural numbers, at most \<open>MAX_VENUES\<close>.
\<close>

section \<open>Venue status\<close>

definition MAX_VENUES :: nat where
  "MAX_VENUES = 32"

datatype FailoverPolicy = Immediate | Delayed u32 | StrictPrimary | RoundRobin

definition fp_default :: FailoverPolicy where
  "fp_default = Immediate"

record VenueStatus =
  vs_venue_id :: u32
  vs_is_connected :: bool
  vs_latency_ns :: u64
  vs_liquidity_score :: u32
  vs_health_score :: u8
  vs_is_primary :: bool
  vs_is_failover :: bool
  vs_last_update_ns :: u64

definition vs_new :: "u32 \<Rightarrow> VenueStatus" where
  "vs_new venue_id =
     \<lparr>vs_venue_id = venue_id, vs_is_connected = False, vs_latency_ns = u64_MAX, vs_liquidity_score = 0,
      vs_health_score = 0, vs_is_primary = False, vs_is_failover = False, vs_last_update_ns = 0\<rparr>"

text \<open>The test for a venue that may be used, and the score it is chosen by; \<open>u32\<close> arithmetic.\<close>

definition vs_healthy :: "VenueStatus \<Rightarrow> bool" where
  "vs_healthy s \<longleftrightarrow> vs_is_connected s \<and> \<not> vs_health_score s < 50"

definition calculate_routing_score :: "VenueStatus \<Rightarrow> u32" where
  "calculate_routing_score s =
     (if \<not> vs_is_connected s \<or> vs_health_score s < 50 then 0
      else let latency_factor = latency_band (vs_latency_ns s);
               health_factor = ucast (vs_health_score s);
               liquidity_factor = vs_liquidity_score s
           in (latency_factor * 3 + health_factor * 2 + liquidity_factor) div 6)"

section \<open>The load balancer\<close>

record LoadBalancer =
  lb_venue_statuses :: "VenueStatus list"
  lb_active_count :: nat
  lb_primary_venue_id :: u64
  lb_rr_index :: nat
  lb_failover_policy :: FailoverPolicy
  lb_routing_decisions :: u64
  lb_failover_count :: u64

definition lb_new :: "FailoverPolicy \<Rightarrow> LoadBalancer" where
  "lb_new failover_policy =
     \<lparr>lb_venue_statuses = replicate MAX_VENUES (vs_new 0), lb_active_count = 0,
      lb_primary_venue_id = u64_MAX, lb_rr_index = 0, lb_failover_policy = failover_policy,
      lb_routing_decisions = 0, lb_failover_count = 0\<rparr>"

definition lb_update_venue_status :: "VenueStatus \<Rightarrow> LoadBalancer \<Rightarrow> LoadBalancer" where
  "lb_update_venue_status status lb =
     (let idx = unat (vs_venue_id status)
      in if idx < MAX_VENUES then lb\<lparr>lb_venue_statuses := (lb_venue_statuses lb)[idx := status]\<rparr> else lb)"

definition lb_set_primary_venue :: "u32 \<Rightarrow> LoadBalancer \<Rightarrow> LoadBalancer" where
  "lb_set_primary_venue venue_id lb =
     (let lb = lb\<lparr>lb_primary_venue_id := ucast venue_id\<rparr>;
          idx = unat venue_id
      in if idx < MAX_VENUES
         then lb\<lparr>lb_venue_statuses :=
                   (lb_venue_statuses lb)[idx := (lb_venue_statuses lb ! idx)\<lparr>vs_is_primary := True\<rparr>]\<rparr>
         else lb)"

text \<open>The loop that looks for the best score among the statuses the filter leaves.\<close>

definition lb_better :: "VenueStatus \<Rightarrow> u32 \<times> VenueStatus option \<Rightarrow> u32 \<times> VenueStatus option" where
  "lb_better status b =
     (let score = calculate_routing_score status
      in if fst b < score then (score, Some status) else b)"

definition lb_best_of :: "(VenueStatus \<Rightarrow> bool) \<Rightarrow> VenueStatus list \<Rightarrow> VenueStatus option" where
  "lb_best_of ok statuses = snd (fold (\<lambda>s b. if ok s then lb_better s b else b) statuses (0, None))"

definition lb_decision :: "VenueStatus \<Rightarrow> OrderRoutingDecision" where
  "lb_decision v = ord_new (vs_venue_id v) (vs_latency_ns v) (ucast (vs_liquidity_score v))"

definition lb_select_best_venue :: "u64 \<Rightarrow> LoadBalancer \<Rightarrow> OrderRoutingDecision option \<times> LoadBalancer" where
  "lb_select_best_venue symbol_hash lb =
     (if lb_active_count lb = 0 then (None, lb)
      else case lb_best_of vs_healthy (lb_venue_statuses lb) of
             None \<Rightarrow> (None, lb)
           | Some v \<Rightarrow> (Some (lb_decision v), lb\<lparr>lb_routing_decisions := lb_routing_decisions lb + 1\<rparr>))"

definition lb_select_round_robin :: "LoadBalancer \<Rightarrow> OrderRoutingDecision option \<times> LoadBalancer" where
  "lb_select_round_robin lb =
     (if lb_active_count lb = 0 then (None, lb)
      else let start = lb_rr_index lb
           in case find (\<lambda>idx. vs_healthy (lb_venue_statuses lb ! idx))
                     (map (\<lambda>checked. (start + checked) mod MAX_VENUES) [0..<MAX_VENUES]) of
                None \<Rightarrow> (None, lb)
              | Some idx \<Rightarrow>
                  (Some (lb_decision (lb_venue_statuses lb ! idx)),
                   lb\<lparr>lb_rr_index := (idx + 1) mod MAX_VENUES,
                      lb_routing_decisions := lb_routing_decisions lb + 1\<rparr>))"

definition lb_get_failover_venue :: "u32 \<Rightarrow> LoadBalancer \<Rightarrow> OrderRoutingDecision option \<times> LoadBalancer" where
  "lb_get_failover_venue failed_venue_id lb =
     (let lb = lb\<lparr>lb_failover_count := lb_failover_count lb + 1\<rparr>
      in case lb_failover_policy lb of
           StrictPrimary \<Rightarrow> (None, lb)
         | RoundRobin \<Rightarrow> (case lb_select_round_robin lb of (d, lb) \<Rightarrow> (map_option ord_as_failover d, lb))
         | _ \<Rightarrow>
             (map_option (\<lambda>v. ord_as_failover (lb_decision v))
                (lb_best_of (\<lambda>s. vs_healthy s \<and> vs_venue_id s \<noteq> failed_venue_id) (lb_venue_statuses lb)),
              lb))"

definition lb_get_healthy_venues :: "LoadBalancer \<Rightarrow> VenueStatus list" where
  "lb_get_healthy_venues lb = filter vs_healthy (lb_venue_statuses lb)"

record LoadBalancerStats =
  lbs_active_venues :: nat
  lbs_routing_decisions :: u64
  lbs_failover_count :: u64
  lbs_primary_venue_id :: u32

definition lb_get_stats :: "LoadBalancer \<Rightarrow> LoadBalancerStats" where
  "lb_get_stats lb =
     \<lparr>lbs_active_venues = lb_active_count lb, lbs_routing_decisions = lb_routing_decisions lb,
      lbs_failover_count = lb_failover_count lb, lbs_primary_venue_id = ucast (lb_primary_venue_id lb)\<rparr>"

definition lb_update_active_count :: "LoadBalancer \<Rightarrow> LoadBalancer" where
  "lb_update_active_count lb =
     lb\<lparr>lb_active_count := length (filter vs_healthy (lb_venue_statuses lb))\<rparr>"

section \<open>The manager\<close>

record 'w GatewayManager =
  gm_connection_pool :: ConnectionPool
  gm_load_balancer :: LoadBalancer
  gm_event_channel :: "'w sender"
  gm_venues :: "'w VenueAdapter list"
  gm_is_running :: bool
  gm_orders_routed :: u64
  gm_fills_received :: u64
  gm_error_count :: u64

definition gm_new :: "'w sender \<Rightarrow> u64 \<Rightarrow> FailoverPolicy \<Rightarrow> 'w GatewayManager" where
  "gm_new send max_connections_per_venue failover_policy =
     \<lparr>gm_connection_pool = cpool_new max_connections_per_venue, gm_load_balancer = lb_new failover_policy,
      gm_event_channel = send, gm_venues = [], gm_is_running = False, gm_orders_routed = 0,
      gm_fills_received = 0, gm_error_count = 0\<rparr>"

definition gm_set_status :: "VenueStatus \<Rightarrow> 'w GatewayManager \<Rightarrow> 'w GatewayManager" where
  "gm_set_status status g =
     g\<lparr>gm_load_balancer := lb_update_venue_status status (gm_load_balancer g)\<rparr>"

definition gm_register_venue ::
    "'w VenueAdapter \<Rightarrow> 'w GatewayManager \<Rightarrow> unit venue_result \<times> 'w GatewayManager" where
  "gm_register_venue venue g =
     (if MAX_VENUES \<le> length (gm_venues g) then (Inl InternalError, g)
      else let g = gm_set_status (vs_new (va_venue_id venue)) g
           in (Inr (), g\<lparr>gm_venues := gm_venues g @ [venue]\<rparr>))"

definition gm_count_active :: "'w GatewayManager \<Rightarrow> 'w GatewayManager" where
  "gm_count_active g = g\<lparr>gm_load_balancer := lb_update_active_count (gm_load_balancer g)\<rparr>"

text \<open>One round of the loop of \<open>connect_all\<close>; \<open>now\<close> is the time read in it.\<close>

definition gm_connect ::
    "u64 \<Rightarrow> 'w VenueAdapter \<Rightarrow> 'w GatewayManager \<times> 'w \<Rightarrow> ('w GatewayManager \<times> 'w) option" where
  "gm_connect now venue s =
     (case s of (g, w) \<Rightarrow>
       case va_connect venue w of
         (Inr _, w) \<Rightarrow>
           let status = (vs_new (va_venue_id venue))
                 \<lparr>vs_is_connected := True, vs_health_score := 100, vs_last_update_ns := now\<rparr>;
               g = gm_set_status status g
           in map_option (\<lambda>w. (g, w)) (gm_event_channel g (VenueConnected (va_venue_id venue) now) w)
       | (Inl e, w) \<Rightarrow>
           let g = g\<lparr>gm_error_count := gm_error_count g + 1\<rparr>
           in map_option (\<lambda>w. (g, w))
                (gm_event_channel g (GatewayError (va_venue_id venue) (venue_error_code e)) w))"

fun gm_each ::
    "(u64 \<Rightarrow> 'w VenueAdapter \<Rightarrow> 's \<Rightarrow> 's option) \<Rightarrow> clock \<Rightarrow> 'w VenueAdapter list \<Rightarrow> 's \<Rightarrow> 's option" where
  "gm_each f clk [] s = Some s"
| "gm_each f clk (v # vs) s = Option.bind (f (clk 0) v s) (gm_each f (after 1 clk) vs)"

definition gm_connect_all ::
    "clock \<Rightarrow> 'w GatewayManager \<times> 'w \<Rightarrow> (unit venue_result \<times> 'w GatewayManager \<times> 'w) option" where
  "gm_connect_all clk s =
     (if \<not> cpool_is_running (gm_connection_pool (fst s)) then Some (Inl NotConnected, s)
      else map_option (\<lambda>(g, w). (Inr (), gm_count_active g, w)) (gm_each gm_connect clk (gm_venues (fst s)) s))"

definition gm_disconnect ::
    "u64 \<Rightarrow> 'w VenueAdapter \<Rightarrow> 'w GatewayManager \<times> 'w \<Rightarrow> ('w GatewayManager \<times> 'w) option" where
  "gm_disconnect now venue s =
     (case s of (g, w) \<Rightarrow>
       let w = snd (va_disconnect venue w);
           g = gm_set_status ((vs_new (va_venue_id venue))\<lparr>vs_last_update_ns := now\<rparr>) g
       in map_option (\<lambda>w. (g, w)) (gm_event_channel g (VenueDisconnected (va_venue_id venue) GracefulShutdown) w))"

definition gm_disconnect_all :: "clock \<Rightarrow> 'w GatewayManager \<times> 'w \<Rightarrow> ('w GatewayManager \<times> 'w) option" where
  "gm_disconnect_all clk s =
     map_option (\<lambda>(g, w). (gm_count_active g, w)) (gm_each gm_disconnect clk (gm_venues (fst s)) s)"

definition gm_find_venue :: "u32 \<Rightarrow> 'w GatewayManager \<Rightarrow> 'w VenueAdapter option" where
  "gm_find_venue venue_id g = find (\<lambda>v. va_venue_id v = venue_id) (gm_venues g)"

type_synonym 'w routed = "(OrderResponse venue_result \<times> 'w GatewayManager \<times> 'w) option"

definition gm_route_order :: "OrderRequest \<Rightarrow> 'w GatewayManager \<times> 'w \<Rightarrow> 'w routed" where
  "gm_route_order order s =
     (case s of (g, w) \<Rightarrow>
       case lb_select_best_venue (or_symbol_hash order) (gm_load_balancer g) of
         (None, lb) \<Rightarrow> Some (Inl NotConnected, g\<lparr>gm_load_balancer := lb\<rparr>, w)
       | (Some decision, lb) \<Rightarrow>
           let g = g\<lparr>gm_load_balancer := lb\<rparr>
           in case gm_find_venue (ord_venue_id decision) g of
                None \<Rightarrow> Some (Inl NotConnected, g, w)
              | Some venue \<Rightarrow>
                  let g = g\<lparr>gm_orders_routed := gm_orders_routed g + 1\<rparr>
                  in case va_submit_order venue order w of
                       (Inl e, w) \<Rightarrow> Some (Inl e, g, w)
                     | (Inr response, w) \<Rightarrow>
                         map_option (\<lambda>w. (Inr response, g, w))
                           (gm_event_channel g (OrderRouted (or_client_order_id order) (ord_venue_id decision)) w))"

definition gm_choose ::
    "OrderRequest \<Rightarrow> nat \<Rightarrow> LoadBalancer \<Rightarrow> OrderRoutingDecision option \<times> LoadBalancer" where
  "gm_choose order attempt_count lb =
     (if attempt_count = 0 then lb_select_best_venue (or_symbol_hash order) lb
      else lb_get_failover_venue 0 lb)"

definition gm_failure :: "OrderResponse venue_result \<Rightarrow> VenueError option" where
  "gm_failure r =
     (case r of Inl e \<Rightarrow> Some e
      | Inr response \<Rightarrow> if op_is_rejected response then Some OrderRejected else None)"

text \<open>
  The loop of \<open>route_order_with_failover\<close>, entered with the number of attempts made and the last error.
  A decision that names an unknown venue, or none, ends it; so does the third failed attempt.
\<close>

function gm_attempts ::
    "OrderRequest \<Rightarrow> nat \<Rightarrow> VenueError option \<Rightarrow> 'w GatewayManager \<times> 'w \<Rightarrow> 'w routed" where
  "gm_attempts order attempt_count last_error s =
     (case s of (g, w) \<Rightarrow>
       case gm_choose order attempt_count (gm_load_balancer g) of
         (None, lb) \<Rightarrow>
           Some (Inl (case last_error of None \<Rightarrow> NotConnected | Some e \<Rightarrow> e), g\<lparr>gm_load_balancer := lb\<rparr>, w)
       | (Some decision, lb) \<Rightarrow>
           let g = g\<lparr>gm_load_balancer := lb\<rparr>
           in case gm_find_venue (ord_venue_id decision) g of
                None \<Rightarrow> Some (Inl NotConnected, g, w)
              | Some venue \<Rightarrow>
                  case va_submit_order venue order w of
                    (r, w) \<Rightarrow>
                      case gm_failure r of
                        None \<Rightarrow>
                          let g = g\<lparr>gm_orders_routed := gm_orders_routed g + 1\<rparr>
                          in map_option (\<lambda>w. (r, g, w))
                               (gm_event_channel g
                                 (OrderRouted (or_client_order_id order) (ord_venue_id decision)) w)
                      | Some e \<Rightarrow>
                          if 3 \<le> attempt_count + 1
                          then Some (Inl e, g\<lparr>gm_error_count := gm_error_count g + 1\<rparr>, w)
                          else gm_attempts order (attempt_count + 1) (Some e) (g, w))"
  by pat_completeness auto

termination
  by (relation "measure (\<lambda>(_, attempt_count, _). 3 - attempt_count)") auto

declare gm_attempts.simps [simp del]

definition gm_route_order_with_failover :: "OrderRequest \<Rightarrow> 'w GatewayManager \<times> 'w \<Rightarrow> 'w routed" where
  "gm_route_order_with_failover order s = gm_attempts order 0 None s"

definition gm_cancel_order ::
    "u32 \<Rightarrow> u64 \<Rightarrow> 'w GatewayManager \<times> 'w \<Rightarrow> CancelResponse venue_result \<times> 'w" where
  "gm_cancel_order venue_id order_id s =
     (case gm_find_venue venue_id (fst s) of
        None \<Rightarrow> (Inl NotConnected, snd s)
      | Some venue \<Rightarrow> va_cancel_order venue order_id (snd s))"

record AggregatedLiquidity =
  al_best_bid :: u64
  al_best_ask :: u64
  al_total_bid_size :: u64
  al_total_ask_size :: u64
  al_spread :: u64
  al_mid_price :: u64
  al_venue_count :: u32
  al_timestamp_ns :: u64

text \<open>The running bests, sizes and count over one venue's liquidity.\<close>

definition al_step ::
    "LiquidityInfo \<Rightarrow> u64 \<times> u64 \<times> u64 \<times> u64 \<times> u32 \<Rightarrow> u64 \<times> u64 \<times> u64 \<times> u64 \<times> u32" where
  "al_step liq a =
     (case a of (best_bid, best_ask, total_bid_size, total_ask_size, venue_count) \<Rightarrow>
        if li_is_valid liq
        then (if best_bid < li_best_bid liq then li_best_bid liq else best_bid,
              if li_best_ask liq < best_ask then li_best_ask liq else best_ask,
              total_bid_size + li_bid_size liq, total_ask_size + li_ask_size liq, venue_count + 1)
        else a)"

definition gm_get_aggregated_liquidity ::
    "u64 \<Rightarrow> u64 \<Rightarrow> 'w GatewayManager \<times> 'w \<Rightarrow> AggregatedLiquidity" where
  "gm_get_aggregated_liquidity now symbol_hash s =
     (case fold (\<lambda>v. if va_is_connected v (snd s) then al_step (va_get_liquidity v symbol_hash (snd s)) else id)
             (gm_venues (fst s)) (0, u64_MAX, 0, 0, 0) of
        (best_bid, best_ask, total_bid_size, total_ask_size, venue_count) \<Rightarrow>
          \<lparr>al_best_bid = best_bid, al_best_ask = best_ask, al_total_bid_size = total_bid_size,
           al_total_ask_size = total_ask_size,
           al_spread = (if best_bid < best_ask then best_ask - best_bid else 0),
           al_mid_price = (if 0 < best_bid \<and> best_ask < u64_MAX then (best_bid + best_ask) div 2 else 0),
           al_venue_count = venue_count, al_timestamp_ns = now\<rparr>)"

definition gm_start :: "'w GatewayManager \<Rightarrow> 'w GatewayManager" where
  "gm_start g = g\<lparr>gm_is_running := True, gm_connection_pool := cpool_stop (gm_connection_pool g)\<rparr>"

definition gm_stop :: "clock \<Rightarrow> 'w GatewayManager \<times> 'w \<Rightarrow> ('w GatewayManager \<times> 'w) option" where
  "gm_stop clk s =
     map_option (\<lambda>(g, w). (g\<lparr>gm_connection_pool := cpool_stop (gm_connection_pool g)\<rparr>, w))
       (gm_disconnect_all clk ((fst s)\<lparr>gm_is_running := False\<rparr>, snd s))"

record GatewayManagerStats =
  gms_venues_registered :: nat
  gms_orders_routed :: u64
  gms_fills_received :: u64
  gms_error_count :: u64
  gms_is_running :: bool
  gms_lb_stats :: LoadBalancerStats
  gms_pool_stats :: ConnectionPoolStats

definition gm_get_stats :: "'w GatewayManager \<Rightarrow> GatewayManagerStats" where
  "gm_get_stats g =
     \<lparr>gms_venues_registered = length (gm_venues g), gms_orders_routed = gm_orders_routed g,
      gms_fills_received = gm_fills_received g, gms_error_count = gm_error_count g,
      gms_is_running = gm_is_running g, gms_lb_stats = lb_get_stats (gm_load_balancer g),
      gms_pool_stats = cpool_get_stats (gm_connection_pool g)\<rparr>"

section \<open>The best venue\<close>

lemma lb_better_simps [simp]:
  "fst (lb_better s b) = max (fst b) (calculate_routing_score s)"
  "snd (lb_better s b) = (if fst b < calculate_routing_score s then Some s else snd b)"
  by (auto simp: lb_better_def Let_def max_def)

text \<open>What the loop has found: the first status with the best positive score.\<close>

definition lb_scan :: "(VenueStatus \<Rightarrow> bool) \<Rightarrow> VenueStatus list \<Rightarrow> u32 \<times> VenueStatus option" where
  "lb_scan ok ss = fold (\<lambda>s b. if ok s then lb_better s b else b) ss (0, None)"

lemma lb_scan_simps [simp]:
  "lb_scan ok [] = (0, None)"
  "lb_scan ok (ss @ [s]) = (if ok s then lb_better s (lb_scan ok ss) else lb_scan ok ss)"
  by (simp_all add: lb_scan_def)

lemma lb_scan_best:
  "(case snd (lb_scan ok ss) of
      None \<Rightarrow> fst (lb_scan ok ss) = 0
    | Some v \<Rightarrow> v \<in> set ss \<and> ok v \<and> fst (lb_scan ok ss) = calculate_routing_score v \<and>
        0 < calculate_routing_score v) \<and>
   (\<forall>s \<in> set ss. ok s \<longrightarrow> calculate_routing_score s \<le> fst (lb_scan ok ss))"
proof (induction ss rule: rev_induct)
  case (snoc s ss)
  then show ?case
    by (cases "ok s"; cases "fst (lb_scan ok ss) < calculate_routing_score s")
      (auto split: option.splits simp: max_def not_less word_neq_0_conv intro: order_trans)
qed simp

lemma lb_best_of_scan: "lb_best_of ok ss = snd (lb_scan ok ss)"
  by (simp add: lb_best_of_def lb_scan_def)

lemma lb_best_of_Some:
  "lb_best_of ok ss = Some v \<Longrightarrow>
     v \<in> set ss \<and> ok v \<and> 0 < calculate_routing_score v \<and>
     (\<forall>s \<in> set ss. ok s \<longrightarrow> calculate_routing_score s \<le> calculate_routing_score v)"
  using lb_scan_best [of ok ss] by (auto simp: lb_best_of_scan)

lemma lb_best_of_None:
  "lb_best_of ok ss = None \<longleftrightarrow> (\<forall>s \<in> set ss. ok s \<longrightarrow> calculate_routing_score s = 0)"
  using lb_scan_best [of ok ss] by (auto simp: lb_best_of_scan split: option.splits)

text \<open>
  C35: The load balancer picks the best venue. Its decision is made from a connected venue with a
  health of at least fifty whose routing score no other such venue exceeds; it makes none exactly
  when no venue was counted as active or all such venues have score zero.
\<close>

theorem best_venue_optimal:
  "case fst (lb_select_best_venue h lb) of
     None \<Rightarrow> lb_active_count lb = 0 \<or>
       (\<forall>s \<in> set (lb_venue_statuses lb). vs_healthy s \<longrightarrow> calculate_routing_score s = 0)
   | Some d \<Rightarrow> lb_active_count lb \<noteq> 0 \<and> (\<exists>v \<in> set (lb_venue_statuses lb). d = lb_decision v \<and>
       vs_healthy v \<and> 0 < calculate_routing_score v \<and>
       (\<forall>s \<in> set (lb_venue_statuses lb).
          vs_healthy s \<longrightarrow> calculate_routing_score s \<le> calculate_routing_score v))"
proof (cases "lb_active_count lb = 0")
  case False
  then show ?thesis
  proof (cases "lb_best_of vs_healthy (lb_venue_statuses lb)")
    case None
    with False lb_best_of_None [THEN iffD1, OF None] show ?thesis by (simp add: lb_select_best_venue_def)
  next
    case (Some v)
    with False lb_best_of_Some [OF Some] show ?thesis by (auto simp: lb_select_best_venue_def)
  qed
qed (simp add: lb_select_best_venue_def)

definition example_status :: "u32 \<Rightarrow> u8 \<Rightarrow> VenueStatus" where
  "example_status i health = (vs_new i)\<lparr>vs_is_connected := True, vs_health_score := health\<rparr>"

definition example_balancer :: LoadBalancer where
  "example_balancer =
     (lb_new Immediate)\<lparr>lb_venue_statuses := [example_status 1 60, example_status 2 90, example_status 3 40],
        lb_active_count := 2\<rparr>"

theorem best_venue_optimal_witness:
  "fst (lb_select_best_venue 7 example_balancer) = Some (lb_decision (example_status 2 90)) \<and>
   calculate_routing_score (example_status 1 60) \<le> calculate_routing_score (example_status 2 90)"
proof -
  have "vs_healthy (example_status 1 60)" "vs_healthy (example_status 2 90)" "\<not> vs_healthy (example_status 3 40)"
    by (simp_all add: example_status_def vs_healthy_def vs_new_def)
  moreover have choice: "fst (lb_select_best_venue 7 example_balancer) = Some (lb_decision (example_status 2 90))"
    by (simp add: lb_select_best_venue_def example_balancer_def lb_best_of_def lb_better_def vs_healthy_def
        calculate_routing_score_def example_status_def vs_new_def lb_new_def latency_band_def Let_def)
  moreover have "lb_decision (example_status 1 60) \<noteq> lb_decision (example_status 2 90)"
    by (simp add: lb_decision_def ord_new_def example_status_def vs_new_def Let_def)
  ultimately show ?thesis
    using best_venue_optimal [of example_balancer 7] by (auto simp: example_balancer_def)
qed

text \<open>The score is computed in 32 bits: with enough liquidity it wraps to zero.\<close>

lemma deep_liquidity_scores_zero:
  "calculate_routing_score
     ((vs_new 1)\<lparr>vs_is_connected := True, vs_health_score := 100, vs_latency_ns := 0,
       vs_liquidity_score := 4294966796\<rparr>) = 0"
  by (simp add: calculate_routing_score_def vs_new_def latency_band_def)

text \<open>A status alone does not make a venue selectable: only \<open>connect_all\<close> and \<open>disconnect_all\<close> count
  the active venues.\<close>

lemma reported_venue_not_selected:
  "fst (lb_select_best_venue h (lb_update_venue_status status (lb_new policy))) = None"
  by (simp add: lb_select_best_venue_def lb_update_venue_status_def lb_new_def Let_def)

section \<open>Failover\<close>

lemma lb_scan_stricter:
  assumes "\<And>s. ok' s \<Longrightarrow> ok s"
  shows "fst (lb_scan ok' ss) \<le> fst (lb_scan ok ss) \<and>
    (\<forall>v. snd (lb_scan ok ss) = Some v \<longrightarrow> ok' v \<longrightarrow> lb_scan ok' ss = lb_scan ok ss)"
proof (induction ss rule: rev_induct)
  case (snoc s ss)
  note bounds = lb_scan_best [of ok ss]
  from snoc show ?case
    by (cases "ok s"; cases "ok' s") (auto simp: assms max_def lb_better_def Let_def split: if_splits)
qed simp

lemma lb_best_of_stricter:
  assumes "lb_best_of ok ss = Some v" and "ok' v" and "\<And>s. ok' s \<Longrightarrow> ok s"
  shows "lb_best_of ok' ss = Some v"
  using lb_scan_stricter [of ok' ok ss, OF assms(3)] assms(1,2) by (simp add: lb_best_of_scan)

text \<open>
  The failed venue is always taken to be venue 0. When the best venue is any other one, the failover
  of the policies that look for the next best venue chooses the same venue again.
\<close>

lemma failover_repeats_best:
  assumes "lb_best_of vs_healthy (lb_venue_statuses lb) = Some v" and "vs_venue_id v \<noteq> 0"
    and "lb_failover_policy lb \<notin> {StrictPrimary, RoundRobin}"
  shows "fst (lb_get_failover_venue 0 lb) = Some (ord_as_failover (lb_decision v))"
  using lb_best_of_stricter [OF assms(1), of "\<lambda>s. vs_healthy s \<and> vs_venue_id s \<noteq> 0"]
    lb_best_of_Some [OF assms(1)] assms(2,3)
  by (cases "lb_failover_policy lb") (simp_all add: lb_get_failover_venue_def)

text \<open>
  What a routing with failover may do: it submits the order at most three times, and the counter of
  routed orders goes up exactly when an accepted response is returned. The number of submissions is
  any measure of the world that every adapter raises by one and the event channel leaves alone.
\<close>

definition counts_submissions :: "('w \<Rightarrow> nat) \<Rightarrow> 'w GatewayManager \<Rightarrow> bool" where
  "counts_submissions sub g \<longleftrightarrow>
     (\<forall>v \<in> set (gm_venues g). \<forall>ord w. sub (snd (va_submit_order v ord w)) = Suc (sub w)) \<and>
     (\<forall>e w w'. gm_event_channel g e w = Some w' \<longrightarrow> sub w' = sub w)"

lemma counts_submissions_cong [simp]:
  "counts_submissions sub (g\<lparr>gm_load_balancer := lb\<rparr>) = counts_submissions sub g"
  "counts_submissions sub (g\<lparr>gm_error_count := n\<rparr>) = counts_submissions sub g"
  "counts_submissions sub (g\<lparr>gm_orders_routed := n\<rparr>) = counts_submissions sub g"
  by (simp_all add: counts_submissions_def)

definition routed_within :: "('w \<Rightarrow> nat) \<Rightarrow> nat \<Rightarrow> 'w GatewayManager \<times> 'w \<Rightarrow> 'w routed \<Rightarrow> bool" where
  "routed_within sub n s out =
     (case out of None \<Rightarrow> True
      | Some (r, g', w') \<Rightarrow>
          sub w' \<le> sub (snd s) + n \<and>
          (case r of
             Inl e \<Rightarrow> gm_orders_routed g' = gm_orders_routed (fst s)
           | Inr response \<Rightarrow> \<not> op_is_rejected response \<and> sub (snd s) < sub w' \<and>
               gm_orders_routed g' = gm_orders_routed (fst s) + 1))"

lemma routed_within_later:
  assumes "routed_within sub n (g', w') out" and "gm_orders_routed g' = gm_orders_routed g"
    and "sub w' = Suc (sub w)"
  shows "routed_within sub (Suc n) (g, w) out"
  using assms by (auto simp: routed_within_def split: option.splits sum.splits)

lemma gm_find_venue_mem: "gm_find_venue i g = Some v \<Longrightarrow> v \<in> set (gm_venues g)"
  by (auto simp: gm_find_venue_def find_Some_iff)

text \<open>A round that submits the order to a venue.\<close>

lemma gm_attempts_round:
  assumes "gm_choose order n (gm_load_balancer g) = (Some d, lb)"
    and "gm_find_venue (ord_venue_id d) (g\<lparr>gm_load_balancer := lb\<rparr>) = Some v"
    and "va_submit_order v order w = (r, w')"
  shows "gm_attempts order n last_error (g, w) =
    (let g = g\<lparr>gm_load_balancer := lb\<rparr>
     in case gm_failure r of
          None \<Rightarrow> map_option (\<lambda>w. (r, g\<lparr>gm_orders_routed := gm_orders_routed g + 1\<rparr>, w))
                    (gm_event_channel g (OrderRouted (or_client_order_id order) (ord_venue_id d)) w')
        | Some e \<Rightarrow> if 3 \<le> n + 1 then Some (Inl e, g\<lparr>gm_error_count := gm_error_count g + 1\<rparr>, w')
                    else gm_attempts order (n + 1) (Some e) (g, w'))"
  using assms by (subst gm_attempts.simps) (simp add: Let_def split: option.splits)

lemma gm_attempts_none:
  assumes "gm_choose order n (gm_load_balancer g) = (d, lb)"
    and "d = None \<or> gm_find_venue (ord_venue_id (the d)) (g\<lparr>gm_load_balancer := lb\<rparr>) = None"
  shows "\<exists>e. gm_attempts order n last_error (g, w) = Some (Inl e, g\<lparr>gm_load_balancer := lb\<rparr>, w)"
  using assms by (subst gm_attempts.simps) (auto simp: Let_def split: option.splits)

lemma gm_attempts_returns:
  "(\<And>e w. gm_event_channel (fst s) e w \<noteq> None) \<Longrightarrow> n < 3 \<Longrightarrow>
     gm_attempts order n last_error s \<noteq> None"
proof (induction "3 - n" arbitrary: n last_error s)
  case (Suc k)
  obtain g w where s: "s = (g, w)" by (cases s)
  obtain d lb where choice: "gm_choose order n (gm_load_balancer g) = (d, lb)"
    by (cases "gm_choose order n (gm_load_balancer g)")
  let ?g = "g\<lparr>gm_load_balancer := lb\<rparr>"
  show ?case
  proof (cases "d = None \<or> gm_find_venue (ord_venue_id (the d)) ?g = None")
    case True
    then show ?thesis using gm_attempts_none [OF choice, of last_error w] by (auto simp: s)
  next
    case False
    then obtain dec v where d: "d = Some dec" and v: "gm_find_venue (ord_venue_id dec) ?g = Some v" by auto
    obtain r w' where sub: "va_submit_order v order w = (r, w')" by (cases "va_submit_order v order w")
    have "gm_attempts order (n + 1) (Some e) (?g, w') \<noteq> None" if "n < 2" for e
      by (rule Suc.hyps(1)) (use that Suc.hyps(2) Suc.prems(1) in \<open>auto simp: s\<close>)
    then show ?thesis
      using Suc.prems by (auto simp: s gm_attempts_round [OF choice [unfolded d] v sub] Let_def split: option.splits)
  qed
qed simp

lemma gm_failure_None: "gm_failure r = None \<Longrightarrow> \<exists>response. r = Inr response \<and> \<not> op_is_rejected response"
  by (auto simp: gm_failure_def split: sum.splits if_splits)

lemma submitted_once:
  assumes "counts_submissions sub g" and "gm_find_venue i (g\<lparr>gm_load_balancer := lb\<rparr>) = Some v"
    and "va_submit_order v order w = (r, w')"
  shows "sub w' = Suc (sub w)"
proof -
  have "sub (snd (va_submit_order v order w)) = Suc (sub w)"
    using assms(1) gm_find_venue_mem [OF assms(2)] by (simp add: counts_submissions_def)
  then show ?thesis by (simp add: assms(3))
qed

lemma gm_attempts_within:
  "counts_submissions sub (fst s) \<Longrightarrow> n < 3 \<Longrightarrow>
     routed_within sub (3 - n) s (gm_attempts order n last_error s)"
proof (induction "3 - n" arbitrary: n last_error s)
  case (Suc k)
  obtain g w where s: "s = (g, w)" by (cases s)
  obtain d lb where choice: "gm_choose order n (gm_load_balancer g) = (d, lb)"
    by (cases "gm_choose order n (gm_load_balancer g)")
  let ?g = "g\<lparr>gm_load_balancer := lb\<rparr>"
  show ?case
  proof (cases "d = None \<or> gm_find_venue (ord_venue_id (the d)) ?g = None")
    case True
    then obtain e where "gm_attempts order n last_error (g, w) = Some (Inl e, ?g, w)"
      using gm_attempts_none [OF choice] by blast
    then show ?thesis by (simp add: s routed_within_def)
  next
    case False
    then obtain dec v where d: "d = Some dec" and v: "gm_find_venue (ord_venue_id dec) ?g = Some v" by auto
    obtain r w' where sub: "va_submit_order v order w = (r, w')" by (cases "va_submit_order v order w")
    note round = gm_attempts_round [OF choice [unfolded d] v sub]
    have cs: "counts_submissions sub g" using Suc.prems(1) by (simp add: s)
    have w': "sub w' = Suc (sub w)" by (rule submitted_once [OF cs v sub])
    show ?thesis
    proof (cases "gm_failure r")
      case None
      with gm_failure_None [OF None] cs w' Suc.prems(2) show ?thesis
        by (auto simp: s round routed_within_def counts_submissions_def split: option.splits)
    next
      case (Some e)
      have k: "3 - (n + 1) = k" "3 - n = Suc k" using Suc.hyps(2) by simp_all
      have "routed_within sub (3 - (n + 1)) (?g, w') (gm_attempts order (n + 1) (Some e) (?g, w'))" if "n < 2"
        by (rule Suc.hyps(1)) (use that Suc.hyps(2) cs in auto)
      then have later: "routed_within sub (Suc k) (g, w) (gm_attempts order (n + 1) (Some e) (?g, w'))"
        if "n < 2"
        using that w' unfolding k(1) by (intro routed_within_later [of sub k ?g w' _ g w]) simp_all
      show ?thesis
      proof (cases "n < 2")
        case True
        with later Some show ?thesis by (simp add: s round k(2))
      qed (use Some Suc.prems(2) w' in \<open>simp add: s round routed_within_def\<close>)
    qed
  qed
qed simp

text \<open>
  C36: Routing with failover submits an order at most three times. It returns an accepted response, after
  at least one submission and counting one routed order, or an error that counts none; and it returns
  as long as the event channel does not block.
\<close>

theorem failover_is_bounded:
  assumes "counts_submissions sub g"
    and "\<And>e w. gm_event_channel g e w \<noteq> None"
  shows "\<exists>r g' w'. gm_route_order_with_failover order (g, w) = Some (r, g', w') \<and> sub w' \<le> sub w + 3 \<and>
    (case r of
       Inl e \<Rightarrow> gm_orders_routed g' = gm_orders_routed g
     | Inr response \<Rightarrow> \<not> op_is_rejected response \<and> sub w < sub w' \<and>
         gm_orders_routed g' = gm_orders_routed g + 1)"
proof -
  obtain r g' w' where out: "gm_route_order_with_failover order (g, w) = Some (r, g', w')"
    using gm_attempts_returns [of "(g, w)" 0 order None] assms(2)
    by (auto simp: gm_route_order_with_failover_def)
  then show ?thesis
    using gm_attempts_within [of sub "(g, w)" 0 order None] assms(1)
    by (cases r) (simp_all add: gm_route_order_with_failover_def routed_within_def)
qed

text \<open>A world that records the submissions: every venue refuses, and the channel takes every event.\<close>

definition refusing :: "u32 \<Rightarrow> u32 list VenueAdapter" where
  "refusing i =
     \<lparr>va_venue_id = i, va_connect = (\<lambda>w. (Inr (), w)), va_disconnect = (\<lambda>w. (Inr (), w)),
      va_is_connected = (\<lambda>w. True), va_submit_order = (\<lambda>ord w. (Inl Timeout, w @ [i])),
      va_cancel_order = (\<lambda>ord w. (Inl Timeout, w)), va_get_liquidity = (\<lambda>h w. li_empty)\<rparr>"

definition refusing_manager :: "u32 list \<Rightarrow> u32 list GatewayManager" where
  "refusing_manager ids =
     (let g = fold (\<lambda>i g. snd (gm_register_venue (refusing i) g)) ids (gm_new (\<lambda>e w. Some w) 1 Immediate)
      in fst (snd (the (gm_connect_all (\<lambda>i. 0) (g, [])))))"

theorem failover_is_bounded_witness:
  "\<exists>r g' w'. gm_route_order_with_failover (or_new 1 7 1 1 100 5 0) (refusing_manager [1, 2], []) = Some (r, g', w') \<and>
    length w' \<le> 3 \<and>
    (case r of
       Inl e \<Rightarrow> gm_orders_routed g' = gm_orders_routed (refusing_manager [1, 2])
     | Inr response \<Rightarrow> \<not> op_is_rejected response \<and> 0 < length w' \<and>
         gm_orders_routed g' = gm_orders_routed (refusing_manager [1, 2]) + 1)"
proof -
  have "counts_submissions length (refusing_manager [1, 2])"
    by (simp add: refusing_manager_def refusing_def counts_submissions_def gm_new_def gm_register_venue_def
        gm_connect_all_def gm_connect_def gm_count_active_def gm_set_status_def cpool_new_def MAX_VENUES_def)
  moreover have "gm_event_channel (refusing_manager [1, 2]) e w \<noteq> None" for e w
    by (simp add: refusing_manager_def refusing_def gm_new_def gm_register_venue_def
        gm_connect_all_def gm_connect_def gm_count_active_def gm_set_status_def cpool_new_def MAX_VENUES_def)
  ultimately show ?thesis
    using failover_is_bounded [of length "refusing_manager [1, 2]" "or_new 1 7 1 1 100 5 0" "[]"] by (simp cong: sum.case_cong)
qed

text \<open>
  As long as the best venue is not venue 0 and fails every submission, all three attempts go to it,
  however many other healthy venues there are.
\<close>

lemma lb_failover_frame:
  "lb_venue_statuses (snd (lb_get_failover_venue i lb)) = lb_venue_statuses lb"
  "lb_failover_policy (snd (lb_get_failover_venue i lb)) = lb_failover_policy lb"
  by (cases "lb_failover_policy lb";
      auto simp: lb_get_failover_venue_def lb_select_round_robin_def Let_def split: option.splits)+

lemma ord_venue_id_decision [simp]:
  "ord_venue_id (lb_decision v) = vs_venue_id v" "ord_venue_id (ord_as_failover d) = ord_venue_id d"
  by (simp_all add: lb_decision_def ord_new_def ord_as_failover_def Let_def)

lemma gm_choose_repeats:
  assumes best: "lb_best_of vs_healthy (lb_venue_statuses lb) = Some v" "vs_venue_id v \<noteq> 0"
    and policy: "lb_failover_policy lb \<notin> {StrictPrimary, RoundRobin}"
    and active: "n = 0 \<longrightarrow> lb_active_count lb \<noteq> 0"
  shows "\<exists>d lb'. gm_choose order n lb = (Some d, lb') \<and> ord_venue_id d = vs_venue_id v \<and>
    lb_venue_statuses lb' = lb_venue_statuses lb \<and> lb_failover_policy lb' = lb_failover_policy lb"
proof (cases "n = 0")
  case True
  with best active show ?thesis by (simp add: gm_choose_def lb_select_best_venue_def)
next
  case False
  obtain x lb' where x: "lb_get_failover_venue 0 lb = (x, lb')" by (cases "lb_get_failover_venue 0 lb")
  with False lb_failover_frame [of 0 lb] failover_repeats_best [OF best policy] show ?thesis
    by (simp add: gm_choose_def)
qed

lemma gm_find_venue_frame [simp]: "gm_find_venue i (g\<lparr>gm_load_balancer := lb\<rparr>) = gm_find_venue i g"
  by (simp add: gm_find_venue_def)

lemma failing_venue_keeps_all_attempts:
  assumes best: "lb_best_of vs_healthy (lb_venue_statuses (gm_load_balancer g)) = Some v" "vs_venue_id v \<noteq> 0"
    and policy: "lb_failover_policy (gm_load_balancer g) \<notin> {StrictPrimary, RoundRobin}"
    and "lb_active_count (gm_load_balancer g) \<noteq> 0"
    and venue: "gm_find_venue (vs_venue_id v) g = Some a" "\<And>w. va_submit_order a order w = (Inl e, f w)"
  shows "\<exists>g'. gm_route_order_with_failover order (g, w) = Some (Inl e, g', f (f (f w)))"
proof -
  have round: "gm_attempts order n last_error (g', w) =
      (if 3 \<le> n + 1 then Some (Inl e, (g'\<lparr>gm_load_balancer := lb\<rparr>)\<lparr>gm_error_count := gm_error_count g' + 1\<rparr>, f w)
       else gm_attempts order (n + 1) (Some e) (g'\<lparr>gm_load_balancer := lb\<rparr>, f w))"
    if "gm_choose order n (gm_load_balancer g') = (Some d, lb)" "ord_venue_id d = vs_venue_id v"
      "gm_venues g' = gm_venues g" for n d lb g' last_error w
    using gm_attempts_round [OF that(1), of a w "Inl e" "f w" last_error] that venue
    by (simp add: gm_find_venue_def gm_failure_def Let_def)
  obtain d1 l1 where 1: "gm_choose order 0 (gm_load_balancer g) = (Some d1, l1)" "ord_venue_id d1 = vs_venue_id v"
    "lb_venue_statuses l1 = lb_venue_statuses (gm_load_balancer g)"
    "lb_failover_policy l1 = lb_failover_policy (gm_load_balancer g)"
    using gm_choose_repeats [OF best policy, of 0 order] assms(4) by blast
  obtain d2 l2 where 2: "gm_choose order 1 l1 = (Some d2, l2)" "ord_venue_id d2 = vs_venue_id v"
    "lb_venue_statuses l2 = lb_venue_statuses l1" "lb_failover_policy l2 = lb_failover_policy l1"
    using gm_choose_repeats [of l1 v 1 order] best policy 1(3,4) by auto
  obtain d3 l3 where 3: "gm_choose order 2 l2 = (Some d3, l3)" "ord_venue_id d3 = vs_venue_id v"
    using gm_choose_repeats [of l2 v 2 order] best policy 1(3,4) 2(3,4) by auto
  show ?thesis
    unfolding gm_route_order_with_failover_def
    using round [of 0 g d1 l1 None w] round [of 1 "g\<lparr>gm_load_balancer := l1\<rparr>" d2 l2 "Some e" "f w"]
      round [of 2 "g\<lparr>gm_load_balancer := l2\<rparr>" d3 l3 "Some e" "f (f w)"] 1 2 3 by (simp add: numeral_2_eq_2)
qed

section \<open>A started manager\<close>

text \<open>The operations of the manager. \<open>None\<close> is a manager that has blocked for ever.\<close>

datatype 'w GatewayOp =
    GmRegister "'w VenueAdapter"
  | GmConnectAll clock
  | GmDisconnectAll clock
  | GmRoute OrderRequest
  | GmFailover OrderRequest
  | GmCancel u32 u64
  | GmStart
  | GmStop clock

fun gateway_op :: "'w GatewayOp \<Rightarrow> ('w GatewayManager \<times> 'w) option \<Rightarrow> ('w GatewayManager \<times> 'w) option" where
  "gateway_op a None = None"
| "gateway_op (GmRegister v) (Some (g, w)) = Some (snd (gm_register_venue v g), w)"
| "gateway_op (GmConnectAll clk) (Some s) = map_option snd (gm_connect_all clk s)"
| "gateway_op (GmDisconnectAll clk) (Some s) = gm_disconnect_all clk s"
| "gateway_op (GmRoute ord) (Some s) = map_option snd (gm_route_order ord s)"
| "gateway_op (GmFailover ord) (Some s) = map_option snd (gm_route_order_with_failover ord s)"
| "gateway_op (GmCancel i k) (Some s) = Some (fst s, snd (gm_cancel_order i k s))"
| "gateway_op GmStart (Some (g, w)) = Some (gm_start g, w)"
| "gateway_op (GmStop clk) (Some s) = gm_stop clk s"

definition pool_closed :: "('w GatewayManager \<times> 'w) option \<Rightarrow> bool" where
  "pool_closed s = (case s of None \<Rightarrow> True | Some (g, w) \<Rightarrow> \<not> cpool_is_running (gm_connection_pool g))"

lemma gm_each_keeps:
  assumes "\<And>now v s s'. f now v s = Some s' \<Longrightarrow> P s \<Longrightarrow> P s'"
  shows "gm_each f clk vs s = Some s' \<Longrightarrow> P s \<Longrightarrow> P s'"
proof (induction vs arbitrary: clk s)
  case (Cons v vs)
  then obtain s1 where "f (clk 0) v s = Some s1" "gm_each f (after 1 clk) vs s1 = Some s'"
    by (auto simp: bind_eq_Some_conv)
  with Cons assms show ?case by blast
qed simp

lemma gm_attempts_pool:
  "gm_attempts order n last_error s = Some (r, g', w') \<Longrightarrow>
     gm_connection_pool g' = gm_connection_pool (fst s)"
proof (induction order n last_error s arbitrary: r g' w' rule: gm_attempts.induct)
  case (1 order n last_error s)
  obtain g w where s: "s = (g, w)" by (cases s)
  obtain d lb where choice: "gm_choose order n (gm_load_balancer g) = (d, lb)"
    by (cases "gm_choose order n (gm_load_balancer g)")
  let ?g = "g\<lparr>gm_load_balancer := lb\<rparr>"
  show ?case
  proof (cases "d = None \<or> gm_find_venue (ord_venue_id (the d)) ?g = None")
    case True
    then show ?thesis using gm_attempts_none [OF choice, of last_error w] 1(2) by (auto simp: s)
  next
    case False
    then obtain dec v where d: "d = Some dec" and v: "gm_find_venue (ord_venue_id dec) ?g = Some v" by auto
    obtain r w'' where sub: "va_submit_order v order w = (r, w'')" by (cases "va_submit_order v order w")
    show ?thesis
    proof (cases "\<exists>e. gm_failure r = Some e \<and> n < 2")
      case True
      then obtain e where e: "gm_failure r = Some e" "n < 2" by blast
      then show ?thesis
        using 1(1) [OF s [symmetric] choice [symmetric] d refl v sub [symmetric] e(1)] 1(2)
        by (auto simp: s gm_attempts_round [OF choice [unfolded d] v sub])
    next
      case False
      then show ?thesis
        using 1(2) by (auto simp: s gm_attempts_round [OF choice [unfolded d] v sub] Let_def
            split: option.splits if_splits)
    qed
  qed
qed

lemma pool_closed_op: "pool_closed s \<Longrightarrow> pool_closed (gateway_op a s)"
proof (induction a s rule: gateway_op.induct)
  case (3 clk s)
  then show ?case by (cases s) (simp add: pool_closed_def gm_connect_all_def)
next
  case (4 clk s)
  have "gm_each gm_disconnect clk vs s = Some s' \<Longrightarrow> pool_closed (Some s) \<Longrightarrow> pool_closed (Some s')" for vs s'
    by (rule gm_each_keeps [where P = "\<lambda>s. pool_closed (Some s)"])
      (auto simp: gm_disconnect_def pool_closed_def gm_set_status_def Let_def)
  with 4 show ?case
    by (auto simp: gm_disconnect_all_def gm_count_active_def pool_closed_def split: option.splits)
next
  case (5 ord s)
  then show ?case
    by (cases s) (auto simp: gm_route_order_def pool_closed_def Let_def split: option.splits sum.splits prod.splits)
next
  case (6 ord s)
  then show ?case
    by (cases s) (auto simp: gm_route_order_with_failover_def pool_closed_def split: option.splits dest: gm_attempts_pool)
next
  case (9 clk s)
  then show ?case
    by (auto simp: gm_stop_def pool_closed_def cpool_stop_def split: option.splits)
qed (auto simp: pool_closed_def gm_register_venue_def gm_set_status_def gm_start_def cpool_stop_def Let_def)

interpretation started: latched_system gateway_op "\<lambda>a. True" pool_closed
  by unfold_locales (rule pool_closed_op)

text \<open>
  A manager that has been started can never connect its venues. Starting stops the connection pool and
  nothing restarts it: whatever is done after a start, stops and further starts included,
  \<open>connect_all\<close> answers that the manager is not connected and changes nothing.
\<close>

lemma started_manager_never_connects:
  assumes "run gateway_op ops (Some (gm_start g, w)) = Some s"
  shows "gm_connect_all clk s = Some (Inl NotConnected, s)"
proof -
  have "pool_closed (run gateway_op ops (Some (gm_start g, w)))"
    by (rule started.run_latch) (simp_all add: pool_closed_def gm_start_def cpool_stop_def list.pred_True)
  with assms show ?thesis by (cases s) (simp add: pool_closed_def gm_connect_all_def)
qed

end
