(* ===== verification/Resilience.thy ===== *)
theory Resilience
  imports Machine
begin

text \<open>
  Network resilience (\<open>src/src/network/resilience_mod.rs\<close>): the circuit breaker in front of the exchange
  connections, the rotation of API keys, the health of a connection and the manager that joins them.

  A \<open>Duration\<close> is its number of nanoseconds, a natural number. Each mutex guards one cell and is not
  reentrant: a method that locks a mutex it already holds never returns, which is the value \<open>None\<close>.
  \<open>add_key\<close> uses a key after moving it, and a count is compared with a value of another width; these
  places do not compile and are read as the intended copies and comparisons.
\<close>

section \<open>The circuit breaker\<close>

datatype ConnectionHealth = Healthy | Degraded | Unhealthy | Disconnected

datatype CircuitState = Closed | Open | HalfOpen

record NetBreakerConfig =
  nbc_failure_threshold :: u32
  nbc_success_threshold :: u32
  nbc_open_timeout :: nat
  nbc_sliding_window_size :: u64

definition nbc_default :: NetBreakerConfig where
  "nbc_default =
     \<lparr>nbc_failure_threshold = 5, nbc_success_threshold = 2, nbc_open_timeout = 30000000000,
      nbc_sliding_window_size = 10\<rparr>"

record NetBreakerStats =
  nbs_times_opened :: u64
  nbs_times_closed :: u64
  nbs_total_failures :: u64
  nbs_total_successes :: u64
  nbs_requests_rejected :: u64

record NetBreaker =
  nb_state :: CircuitState
  nb_state_changed_at :: u64
  nb_failure_count :: u64
  nb_success_count :: u64
  nb_config :: NetBreakerConfig
  nb_stats :: NetBreakerStats

definition nb_new :: "u64 \<Rightarrow> NetBreakerConfig \<Rightarrow> NetBreaker" where
  "nb_new now config =
     \<lparr>nb_state = Closed, nb_state_changed_at = now, nb_failure_count = 0, nb_success_count = 0,
      nb_config = config,
      nb_stats = \<lparr>nbs_times_opened = 0, nbs_times_closed = 0, nbs_total_failures = 0,
                  nbs_total_successes = 0, nbs_requests_rejected = 0\<rparr>\<rparr>"

definition nb_count :: "(NetBreakerStats \<Rightarrow> NetBreakerStats) \<Rightarrow> NetBreaker \<Rightarrow> NetBreaker" where
  "nb_count f b = b\<lparr>nb_stats := f (nb_stats b)\<rparr>"

text \<open>The time is read only while the breaker is open.\<close>

definition nb_allow_request :: "u64 \<Rightarrow> NetBreaker \<Rightarrow> bool \<times> NetBreaker" where
  "nb_allow_request now b =
     (case nb_state b of
        Closed \<Rightarrow> (True, b)
      | Open \<Rightarrow>
          let elapsed = u64_sat_sub now (nb_state_changed_at b)
          in if of_nat (nbc_open_timeout (nb_config b)) \<le> elapsed
             then (True, b\<lparr>nb_state := HalfOpen, nb_success_count := 0\<rparr>)
             else (False, nb_count (\<lambda>t. t\<lparr>nbs_requests_rejected := nbs_requests_rejected t + 1\<rparr>) b)
      | HalfOpen \<Rightarrow> (True, b))"

definition nb_record_success :: "u64 \<Rightarrow> NetBreaker \<Rightarrow> NetBreaker" where
  "nb_record_success now b =
     (let b = nb_count (\<lambda>t. t\<lparr>nbs_total_successes := nbs_total_successes t + 1\<rparr>) b
      in case nb_state b of
           HalfOpen \<Rightarrow>
             let successes = nb_success_count b + 1;
                 b = b\<lparr>nb_success_count := successes\<rparr>
             in if ucast (nbc_success_threshold (nb_config b)) \<le> successes
                then nb_count (\<lambda>t. t\<lparr>nbs_times_closed := nbs_times_closed t + 1\<rparr>)
                       (b\<lparr>nb_state := Closed, nb_failure_count := 0, nb_state_changed_at := now\<rparr>)
                else b
         | Closed \<Rightarrow> b\<lparr>nb_failure_count := 0\<rparr>
         | Open \<Rightarrow> b)"

definition nb_open :: "u64 \<Rightarrow> NetBreaker \<Rightarrow> NetBreaker" where
  "nb_open now b =
     nb_count (\<lambda>t. t\<lparr>nbs_times_opened := nbs_times_opened t + 1\<rparr>)
       (b\<lparr>nb_state := Open, nb_state_changed_at := now\<rparr>)"

definition nb_record_failure :: "u64 \<Rightarrow> NetBreaker \<Rightarrow> NetBreaker" where
  "nb_record_failure now b =
     (let b = nb_count (\<lambda>t. t\<lparr>nbs_total_failures := nbs_total_failures t + 1\<rparr>) b
      in case nb_state b of
           Closed \<Rightarrow>
             let failures = nb_failure_count b + 1;
                 b = b\<lparr>nb_failure_count := failures\<rparr>
             in if ucast (nbc_failure_threshold (nb_config b)) \<le> failures then nb_open now b else b
         | HalfOpen \<Rightarrow> nb_open now b
         | Open \<Rightarrow> b)"

definition nb_force_open :: "u64 \<Rightarrow> NetBreaker \<Rightarrow> NetBreaker" where
  "nb_force_open now b = nb_open now b"

definition nb_force_close :: "u64 \<Rightarrow> NetBreaker \<Rightarrow> NetBreaker" where
  "nb_force_close now b =
     nb_count (\<lambda>t. t\<lparr>nbs_times_closed := nbs_times_closed t + 1\<rparr>)
       (b\<lparr>nb_state := Closed, nb_failure_count := 0, nb_state_changed_at := now\<rparr>)"

section \<open>Rotation of API keys\<close>

record ApiKey =
  ak_id :: string
  ak_api_key :: string
  ak_secret_key :: string
  ak_created_at :: u64
  ak_last_rotated :: u64

record KeyHealth =
  kh_success_count :: u32
  kh_failure_count :: u32
  kh_last_used :: u64
  kh_is_blocked :: bool
  kh_block_until :: u64

record RotatorStats =
  rst_rotations_performed :: u64
  rst_keys_blocked :: u64
  rst_fallback_activations :: u64

record ApiKeyRotator =
  kr_active_key_index :: nat
  kr_keys :: "ApiKey list"
  kr_key_health :: "string \<rightharpoonup> KeyHealth"
  kr_rotation_enabled :: bool
  kr_stats :: RotatorStats

definition kr_new :: ApiKeyRotator where
  "kr_new =
     \<lparr>kr_active_key_index = 0, kr_keys = [], kr_key_health = Map.empty, kr_rotation_enabled = True,
      kr_stats = \<lparr>rst_rotations_performed = 0, rst_keys_blocked = 0, rst_fallback_activations = 0\<rparr>\<rparr>"

definition kr_add_key :: "clock \<Rightarrow> string \<Rightarrow> string \<Rightarrow> string \<Rightarrow> ApiKeyRotator \<Rightarrow> ApiKeyRotator" where
  "kr_add_key clk i api_key secret_key r =
     r\<lparr>kr_keys := kr_keys r @
          [\<lparr>ak_id = i, ak_api_key = api_key, ak_secret_key = secret_key, ak_created_at = clk 0,
            ak_last_rotated = clk 1\<rparr>],
       kr_key_health := (kr_key_health r)
          (i \<mapsto> \<lparr>kh_success_count = 0, kh_failure_count = 0, kh_last_used = 0, kh_is_blocked = False,
                 kh_block_until = 0\<rparr>)\<rparr>"

definition kr_get_active_key :: "ApiKeyRotator \<Rightarrow> (string \<times> string \<times> string) option" where
  "kr_get_active_key r =
     (let index = kr_active_key_index r
      in if length (kr_keys r) \<le> index then None
         else let key = kr_keys r ! index in Some (ak_id key, ak_api_key key, ak_secret_key key))"

definition kr_record_success :: "u64 \<Rightarrow> ApiKeyRotator \<Rightarrow> ApiKeyRotator" where
  "kr_record_success now r =
     (case kr_get_active_key r of
        None \<Rightarrow> r
      | Some (i, _, _) \<Rightarrow>
          (case kr_key_health r i of
             None \<Rightarrow> r
           | Some h \<Rightarrow>
               r\<lparr>kr_key_health := (kr_key_health r)
                   (i \<mapsto> h\<lparr>kh_success_count := kh_success_count h + 1, kh_last_used := now\<rparr>)\<rparr>))"

text \<open>
  \<open>rotate_key\<close>. The loop visits the keys from \<open>next\<close> on, once round; the time read in its \<open>i\<close>-th round is
  \<open>clk i\<close>. \<open>held\<close> says that the caller already holds the lock of the key health.
\<close>

definition kr_usable :: "(string \<rightharpoonup> KeyHealth) \<Rightarrow> u64 \<Rightarrow> ApiKey \<Rightarrow> bool" where
  "kr_usable health now key =
     (case health (ak_id key) of None \<Rightarrow> False | Some h \<Rightarrow> \<not> kh_is_blocked h \<or> kh_block_until h < now)"

definition kr_next :: "clock \<Rightarrow> ApiKeyRotator \<Rightarrow> nat" where
  "kr_next clk r =
     (let n = length (kr_keys r); start = (kr_active_key_index r + 1) mod n
      in case find (\<lambda>i. kr_usable (kr_key_health r) (clk i) (kr_keys r ! ((start + i) mod n))) [0..<n] of
           Some i \<Rightarrow> (start + i) mod n
         | None \<Rightarrow> start)"

definition kr_rotate :: "bool \<Rightarrow> clock \<Rightarrow> ApiKeyRotator \<Rightarrow> (bool \<times> ApiKeyRotator) option" where
  "kr_rotate held clk r =
     (if \<not> kr_rotation_enabled r then Some (False, r)
      else if length (kr_keys r) \<le> 1 then Some (False, r)
      else if held then None
      else let t = kr_stats r
           in Some (True, r\<lparr>kr_active_key_index := kr_next clk r,
                            kr_stats := t\<lparr>rst_rotations_performed := rst_rotations_performed t + 1\<rparr>\<rparr>))"

definition kr_rotate_key :: "clock \<Rightarrow> ApiKeyRotator \<Rightarrow> (bool \<times> ApiKeyRotator) option" where
  "kr_rotate_key clk r = kr_rotate False clk r"

definition kr_record_failure :: "clock \<Rightarrow> ApiKeyRotator \<Rightarrow> ApiKeyRotator option" where
  "kr_record_failure clk r =
     (case kr_get_active_key r of
        None \<Rightarrow> Some r
      | Some (i, _, _) \<Rightarrow>
          (case kr_key_health r i of
             None \<Rightarrow> Some r
           | Some h \<Rightarrow>
               let h = h\<lparr>kh_failure_count := kh_failure_count h + 1, kh_last_used := clk 0\<rparr>
               in if kh_failure_count h < 10 then Some (r\<lparr>kr_key_health := (kr_key_health r)(i \<mapsto> h)\<rparr>)
                  else let h = h\<lparr>kh_is_blocked := True, kh_block_until := clk 1 + 300000000000\<rparr>;
                           t = kr_stats r;
                           r = r\<lparr>kr_key_health := (kr_key_health r)(i \<mapsto> h),
                                 kr_stats := t\<lparr>rst_keys_blocked := rst_keys_blocked t + 1\<rparr>\<rparr>
                       in map_option snd (kr_rotate True (after 2 clk) r)))"

definition kr_set_rotation_enabled :: "bool \<Rightarrow> ApiKeyRotator \<Rightarrow> ApiKeyRotator" where
  "kr_set_rotation_enabled enabled r = r\<lparr>kr_rotation_enabled := enabled\<rparr>"

definition kr_key_count :: "ApiKeyRotator \<Rightarrow> nat" where
  "kr_key_count r = length (kr_keys r)"

section \<open>Health of a connection and the manager\<close>

record ConnectionHealthMonitor =
  hm_last_heartbeat :: u64
  hm_consecutive_failures :: u64
  hm_check_interval :: nat
  hm_failure_threshold :: u64

definition hm_new :: "u64 \<Rightarrow> nat \<Rightarrow> u64 \<Rightarrow> ConnectionHealthMonitor" where
  "hm_new now check_interval failure_threshold =
     \<lparr>hm_last_heartbeat = now, hm_consecutive_failures = 0, hm_check_interval = check_interval,
      hm_failure_threshold = failure_threshold\<rparr>"

definition hm_record_heartbeat :: "u64 \<Rightarrow> ConnectionHealthMonitor \<Rightarrow> ConnectionHealthMonitor" where
  "hm_record_heartbeat now m = m\<lparr>hm_last_heartbeat := now, hm_consecutive_failures := 0\<rparr>"

definition hm_record_failure :: "ConnectionHealthMonitor \<Rightarrow> ConnectionHealthMonitor" where
  "hm_record_failure m = m\<lparr>hm_consecutive_failures := hm_consecutive_failures m + 1\<rparr>"

definition hm_get_health :: "u64 \<Rightarrow> ConnectionHealthMonitor \<Rightarrow> ConnectionHealth" where
  "hm_get_health now m =
     (if hm_failure_threshold m \<le> hm_consecutive_failures m then Disconnected
      else let elapsed = unat (u64_sat_sub now (hm_last_heartbeat m))
           in if hm_check_interval m * 3 < elapsed then Unhealthy
              else if hm_check_interval m * 2 < elapsed then Degraded
              else Healthy)"

definition hm_needs_reconnect :: "u64 \<Rightarrow> ConnectionHealthMonitor \<Rightarrow> bool" where
  "hm_needs_reconnect now m \<longleftrightarrow> hm_get_health now m \<in> {Unhealthy, Disconnected}"

record ResilienceManager =
  rm_rest_circuit_breaker :: NetBreaker
  rm_ws_circuit_breaker :: NetBreaker
  rm_key_rotator :: ApiKeyRotator
  rm_health_monitor :: ConnectionHealthMonitor

definition rm_new :: "clock \<Rightarrow> ResilienceManager" where
  "rm_new clk =
     \<lparr>rm_rest_circuit_breaker = nb_new (clk 0) nbc_default,
      rm_ws_circuit_breaker = nb_new (clk 1) (nbc_default\<lparr>nbc_failure_threshold := 10\<rparr>),
      rm_key_rotator = kr_new, rm_health_monitor = hm_new (clk 2) 30000000000 5\<rparr>"

definition rm_record_heartbeat :: "u64 \<Rightarrow> ResilienceManager \<Rightarrow> ResilienceManager" where
  "rm_record_heartbeat now m = m\<lparr>rm_health_monitor := hm_record_heartbeat now (rm_health_monitor m)\<rparr>"

definition rm_is_trading_allowed :: "clock \<Rightarrow> ResilienceManager \<Rightarrow> bool \<times> ResilienceManager" where
  "rm_is_trading_allowed clk m =
     (case nb_allow_request (clk 0) (rm_rest_circuit_breaker m) of
        (ok, b) \<Rightarrow> (ok \<and> hm_get_health (clk 1) (rm_health_monitor m) \<noteq> Disconnected,
                    m\<lparr>rm_rest_circuit_breaker := b\<rparr>))"

section \<open>When the breaker opens\<close>

text \<open>The outcome of a request: \<open>True\<close> for a success. The time plays no part in what is opened or closed.\<close>

definition nb_outcome :: "u64 \<times> bool \<Rightarrow> NetBreaker \<Rightarrow> NetBreaker" where
  "nb_outcome o' b = (if snd o' then nb_record_success (fst o') b else nb_record_failure (fst o') b)"

text \<open>The last outcomes that are failures.\<close>

fun failing_suffix :: "bool list \<Rightarrow> nat" where
  "failing_suffix [] = 0"
| "failing_suffix (b # bs) = (if b then 0 else Suc (failing_suffix bs))"

definition failure_run :: "nat \<Rightarrow> bool list \<Rightarrow> bool" where
  "failure_run n bs \<longleftrightarrow> (\<exists>xs ys. bs = xs @ replicate n False @ ys)"

lemma failing_suffix_replicate: "n \<le> failing_suffix bs \<longleftrightarrow> (\<exists>ys. bs = replicate n False @ ys)"
proof (induction bs arbitrary: n)
  case (Cons b bs)
  then show ?case by (cases n) (auto simp: Cons_eq_append_conv)
qed auto

lemma failure_run_snoc:
  assumes "0 < n"
  shows "failure_run n (bs @ [b]) \<longleftrightarrow> failure_run n bs \<or> n \<le> failing_suffix (rev (bs @ [b]))"
proof -
  have "n \<le> failing_suffix (rev (bs @ [b])) \<longleftrightarrow> (\<exists>xs. bs @ [b] = xs @ replicate n False)"
  proof -
    have "rev (bs @ [b]) = replicate n False @ ys \<longleftrightarrow> bs @ [b] = rev ys @ replicate n False" for ys
      by (metis rev_append rev_replicate rev_rev_ident)
    then show ?thesis by (metis failing_suffix_replicate rev_rev_ident)
  qed
  moreover have "failure_run n (bs @ [b]) \<longleftrightarrow>
      failure_run n bs \<or> (\<exists>xs. bs @ [b] = xs @ replicate n False)"
  proof
    assume "failure_run n (bs @ [b])"
    then obtain xs ys where eq: "bs @ [b] = xs @ replicate n False @ ys" by (auto simp: failure_run_def)
    show "failure_run n bs \<or> (\<exists>xs. bs @ [b] = xs @ replicate n False)"
    proof (cases ys rule: rev_cases)
      case (snoc zs z)
      with eq have "bs = xs @ replicate n False @ zs" by simp
      then show ?thesis by (auto simp: failure_run_def)
    qed (use eq in auto)
  next
    assume "failure_run n bs \<or> (\<exists>xs. bs @ [b] = xs @ replicate n False)"
    then show "failure_run n (bs @ [b])"
      by (auto simp: failure_run_def) (metis append.assoc append_Nil2)+
  qed
  ultimately show ?thesis by simp
qed

lemma nb_count_simps [simp]:
  "nb_state (nb_count f b) = nb_state b" "nb_failure_count (nb_count f b) = nb_failure_count b"
  "nb_success_count (nb_count f b) = nb_success_count b" "nb_config (nb_count f b) = nb_config b"
  "nb_state_changed_at (nb_count f b) = nb_state_changed_at b"
  by (simp_all add: nb_count_def)

lemma nb_open_simps [simp]:
  "nb_state (nb_open now b) = Open" "nb_config (nb_open now b) = nb_config b"
  by (simp_all add: nb_open_def)

definition nb_tracks :: "u32 \<Rightarrow> bool list \<Rightarrow> NetBreaker \<Rightarrow> bool" where
  "nb_tracks t bs b \<longleftrightarrow> nbc_failure_threshold (nb_config b) = t \<and>
     (if failure_run (unat t) bs then nb_state b = Open
      else nb_state b = Closed \<and> unat (nb_failure_count b) = failing_suffix (rev bs) \<and>
        failing_suffix (rev bs) < unat t)"

lemma unat_next_failure: "unat (c :: u64) < unat (t :: u32) \<Longrightarrow> unat (c + 1) = Suc (unat c)"
  using unsigned_less [of t, where ?'a = nat] by (subst unat_add_u64) simp_all

lemma nb_tracks_outcome:
  assumes "nb_tracks t bs b" and "0 < t"
  shows "nb_tracks t (bs @ [snd e]) (nb_outcome e b)"
proof -
  have pos: "0 < unat t" using assms(2) by (simp add: word_less_nat_alt)
  note run = failure_run_snoc [OF pos, of bs "snd e"]
  have le: "ucast t \<le> (c :: u64) \<longleftrightarrow> unat t \<le> unat c" for c
    by (simp add: word_le_nat_alt unat_ucast_32_64)
  show ?thesis
  proof (cases "failure_run (unat t) bs")
    case True
    with assms(1) run show ?thesis
      by (simp add: nb_tracks_def nb_outcome_def nb_record_success_def nb_record_failure_def)
  next
    case False
    with assms(1) have b: "nbc_failure_threshold (nb_config b) = t" "nb_state b = Closed"
      "unat (nb_failure_count b) = failing_suffix (rev bs)" "failing_suffix (rev bs) < unat t"
      by (simp_all add: nb_tracks_def)
    with unat_next_failure [of "nb_failure_count b" t] False pos run show ?thesis
      by (auto simp: nb_tracks_def nb_outcome_def nb_record_success_def nb_record_failure_def Let_def le not_le)
  qed
qed

lemma nb_tracks_run: "0 < t \<Longrightarrow> nb_tracks t bs b \<Longrightarrow> nb_tracks t (bs @ map snd es) (run nb_outcome es b)"
proof (induction es arbitrary: bs b)
  case (Cons e es)
  then show ?case using nb_tracks_outcome [OF Cons(3,2), of e] Cons(1) [of "bs @ [snd e]"] by simp
qed simp

text \<open>
  As long as no request is let through to test an open breaker, it is open exactly when its threshold of
  failures in a row has been reached: after any outcomes a new breaker is open if there was a run of that
  many consecutive failures among them, and otherwise it is closed.
\<close>

lemma breaker_opens_exactly:
  assumes "0 < nbc_failure_threshold config"
  shows "nb_state (run nb_outcome es (nb_new now config)) =
    (if failure_run (unat (nbc_failure_threshold config)) (map snd es) then Open else Closed)"
proof -
  have "\<not> failure_run (unat (nbc_failure_threshold config)) []"
    using assms by (simp add: failure_run_def word_less_nat_alt)
  then have "nb_tracks (nbc_failure_threshold config) [] (nb_new now config)"
    using assms by (simp add: nb_tracks_def nb_new_def word_less_nat_alt)
  from nb_tracks_run [OF assms this, of es] show ?thesis by (simp add: nb_tracks_def split: if_splits)
qed

section \<open>Recovery\<close>

lemma open_stays_open: "nb_state b = Open \<Longrightarrow> nb_state (run nb_outcome es b) = Open"
  by (induction es arbitrary: b) (simp_all add: nb_outcome_def nb_record_success_def nb_record_failure_def)

lemma half_open_run:
  assumes "nb_state b = HalfOpen" and "unat (nb_success_count b) + length es = unat (nbc_success_threshold (nb_config b))"
    and "es \<noteq> []"
  shows "nb_state (run nb_outcome es b) = (if list_all snd es then Closed else Open)"
  using assms
proof (induction es arbitrary: b)
  case (Cons e es)
  let ?t = "nbc_success_threshold (nb_config b)"
  have "unat (nb_success_count b) < unat ?t" using Cons.prems(2) by simp
  note nxt = unat_next_failure [OF this]
  have le: "ucast ?t \<le> (c :: u64) \<longleftrightarrow> unat ?t \<le> unat c" for c
    by (simp add: word_le_nat_alt unat_ucast_32_64)
  show ?case
  proof (cases "snd e \<and> es \<noteq> []")
    case True
    let ?b = "nb_outcome e b"
    from True obtain f fs where es: "es = f # fs" by (cases es) auto
    have "nb_state ?b = HalfOpen" "unat (nb_success_count ?b) = Suc (unat (nb_success_count b))"
      "nb_config ?b = nb_config b"
      using True Cons.prems nxt by (simp_all add: es nb_outcome_def nb_record_success_def Let_def le)
    with Cons.IH [of ?b] Cons.prems(2) True show ?thesis by simp
  next
    case False
    show ?thesis
    proof (cases "snd e")
      case True
      with False Cons.prems nxt show ?thesis
        by (simp add: nb_outcome_def nb_record_success_def Let_def le)
    next
      case False
      then have "nb_state (nb_outcome e b) = Open"
        using Cons.prems(1) by (simp add: nb_outcome_def nb_record_failure_def)
      with False show ?thesis by (simp add: open_stays_open)
    qed
  qed
qed simp

text \<open>
  An open breaker recovers only by the required number of successes in a row. The first request it
  admits after the timeout puts it on trial; as many outcomes later as the success threshold says, it is
  closed if all of them were successes, and open again if any was a failure.
\<close>

lemma recovery_needs_successes:
  assumes "nb_state b = Open" and "nb_allow_request now b = (True, b')"
    and "length es = unat (nbc_success_threshold (nb_config b))" and "es \<noteq> []"
  shows "nb_state (run nb_outcome es b') = (if list_all snd es then Closed else Open)"
proof (rule half_open_run)
  have b': "b' = b\<lparr>nb_state := HalfOpen, nb_success_count := 0\<rparr>"
    using assms(1,2) by (simp add: nb_allow_request_def Let_def split: if_splits)
  then show "nb_state b' = HalfOpen"
    "unat (nb_success_count b') + length es = unat (nbc_success_threshold (nb_config b'))"
    using assms(3) by simp_all
qed (rule assms(4))

section \<open>The breaker as an abstract machine\<close>

text \<open>
  Every operation of a breaker, and what a breaker promises: it is shut with so many failures in a row, or
  it tripped at some time, or it is on trial with so many successes. The counts are unbounded.
\<close>

datatype nb_op = NbAllow u64 | NbSuccess u64 | NbFailure u64 | NbForceOpen u64 | NbForceClose u64

fun nb_apply :: "nb_op \<Rightarrow> NetBreaker \<Rightarrow> NetBreaker" where
  "nb_apply (NbAllow now) b = snd (nb_allow_request now b)"
| "nb_apply (NbSuccess now) b = nb_record_success now b"
| "nb_apply (NbFailure now) b = nb_record_failure now b"
| "nb_apply (NbForceOpen now) b = nb_force_open now b"
| "nb_apply (NbForceClose now) b = nb_force_close now b"








lemma nb_config_apply [simp]: "nb_config (nb_apply e b) = nb_config b"
  by (cases e) (auto simp: nb_allow_request_def nb_record_success_def nb_record_failure_def nb_force_open_def
      nb_force_close_def Let_def split: CircuitState.split)








section \<open>Key rotation\<close>

text \<open>
  The tenth failure of an API key never returns when there is a key to change to. Recording it holds the
  lock of the key health while the rotation it starts waits for the same lock.
\<close>

lemma tenth_failure_deadlocks:
  assumes "kr_active_key_index r < length (kr_keys r)" and "1 < length (kr_keys r)"
    and "kr_rotation_enabled r" and "kr_key_health r (ak_id (kr_keys r ! kr_active_key_index r)) = Some h"
    and "kh_failure_count h = 9"
  shows "kr_record_failure clk r = None"
  using assms by (simp add: kr_record_failure_def kr_get_active_key_def kr_rotate_def Let_def)

definition worn_rotator :: ApiKeyRotator where
  "worn_rotator =
     (let r = kr_add_key (\<lambda>i. 0) ''b'' ''y'' ''v'' (kr_add_key (\<lambda>i. 0) ''a'' ''x'' ''u'' kr_new)
      in r\<lparr>kr_key_health := (kr_key_health r)
            (''a'' \<mapsto> \<lparr>kh_success_count = 20, kh_failure_count = 9, kh_last_used = 7,
                       kh_is_blocked = False, kh_block_until = 0\<rparr>)\<rparr>)"

text \<open>
  The key chosen by a rotation: the first usable one after the active key, and when none is usable the
  next one, although the comment says that the current one is kept.
\<close>

lemma rotation_skips_blocked:
  assumes "1 < length (kr_keys r)" and "kr_rotation_enabled r"
  shows "\<exists>r' i. kr_rotate_key clk r = Some (True, r') \<and>
    kr_active_key_index r' = (kr_active_key_index r + 1 + i) mod length (kr_keys r) \<and> i < length (kr_keys r) \<and>
    (let usable = (\<lambda>i. kr_usable (kr_key_health r) (clk i)
                         (kr_keys r ! ((kr_active_key_index r + 1 + i) mod length (kr_keys r))))
     in (usable i \<or> i = 0 \<and> (\<forall>k < length (kr_keys r). \<not> usable k)) \<and> (\<forall>k < i. \<not> usable k))"
proof -
  let ?n = "length (kr_keys r)"
  let ?u = "\<lambda>i. kr_usable (kr_key_health r) (clk i) (kr_keys r ! (((kr_active_key_index r + 1) mod ?n + i) mod ?n))"
  have mods: "((kr_active_key_index r + 1) mod ?n + i) mod ?n = (kr_active_key_index r + 1 + i) mod ?n" for i
    by (simp add: mod_add_left_eq)
  note mods = mods mods [simplified]
  show ?thesis
  proof (cases "find ?u [0..<?n]")
    case None
    then have "\<forall>k < ?n. \<not> ?u k" by (auto simp: find_None_iff)
    with None assms show ?thesis
      by (intro exI [of _ 0] exI) (auto simp: kr_rotate_key_def kr_rotate_def kr_next_def Let_def mods)
  next
    case (Some i)
    then have "i < ?n" "?u i" "\<forall>k < i. \<not> ?u k"
      by (auto simp: find_Some_iff nth_upt)
    with Some assms show ?thesis
      by (auto simp: kr_rotate_key_def kr_rotate_def kr_next_def Let_def mods)
  qed
qed

end
