(* ===== verification/Symbol_Actor.thy ===== *)
theory Symbol_Actor
  imports Machine
begin

text \<open>
  The state of a symbol actor (\<open>src/src/actors/symbol_actor.rs\<close>): local orders, the local book, alpha
  signals and the counters and limits of the actor. A method that reads the clock takes the time it
  reads. The padded cells have no \<open>fetch_sub\<close>, which the pending orders use; the model has the effect.
\<close>

section \<open>Orders, book and signals\<close>

datatype ActorSide = Buy | Sell

datatype OrderType = Limit | Market | IOC | FOK

datatype OrderStatus = Pending | New | PartiallyFilled | Filled | Cancelled | Rejected

record LocalOrder =
  lo_order_id :: u64
  lo_symbol_hash :: u64
  lo_side :: ActorSide
  lo_order_type :: OrderType
  lo_price :: u64
  lo_quantity :: u64
  lo_filled_quantity :: u64
  lo_status :: OrderStatus
  lo_timestamp_ns :: u64

definition lo_new :: "u64 \<Rightarrow> u64 \<Rightarrow> u64 \<Rightarrow> ActorSide \<Rightarrow> OrderType \<Rightarrow> u64 \<Rightarrow> u64 \<Rightarrow> LocalOrder" where
  "lo_new now order_id symbol_hash side order_type price quantity =
     \<lparr>lo_order_id = order_id, lo_symbol_hash = symbol_hash, lo_side = side, lo_order_type = order_type,
      lo_price = price, lo_quantity = quantity, lo_filled_quantity = 0, lo_status = Pending,
      lo_timestamp_ns = now\<rparr>"

definition lo_update_fill :: "u64 \<Rightarrow> LocalOrder \<Rightarrow> LocalOrder" where
  "lo_update_fill fill_qty ord =
     (let ord = ord\<lparr>lo_filled_quantity := lo_filled_quantity ord + fill_qty\<rparr>
      in if lo_quantity ord \<le> lo_filled_quantity ord then ord\<lparr>lo_status := Filled\<rparr>
         else if 0 < lo_filled_quantity ord then ord\<lparr>lo_status := PartiallyFilled\<rparr>
         else ord)"

record OrderBookLevel =
  obl_price :: u64
  obl_quantity :: u64
  obl_order_count :: u32

record LocalOrderBook =
  lob_symbol_hash :: u64
  lob_best_bid :: u64
  lob_best_ask :: u64
  lob_bid_depth :: u64
  lob_ask_depth :: u64
  lob_mid_price :: u64
  lob_spread_bps :: u64
  lob_last_update_ns :: u64

definition lob_new :: "u64 \<Rightarrow> LocalOrderBook" where
  "lob_new symbol_hash =
     \<lparr>lob_symbol_hash = symbol_hash, lob_best_bid = 0, lob_best_ask = 0, lob_bid_depth = 0,
      lob_ask_depth = 0, lob_mid_price = 0, lob_spread_bps = 0, lob_last_update_ns = 0\<rparr>"

definition lob_update :: "u64 \<Rightarrow> u64 \<Rightarrow> u64 \<Rightarrow> u64 \<Rightarrow> u64 \<Rightarrow> LocalOrderBook \<Rightarrow> LocalOrderBook" where
  "lob_update now best_bid best_ask bid_depth ask_depth b =
     (let b = b\<lparr>lob_best_bid := best_bid, lob_best_ask := best_ask, lob_bid_depth := bid_depth,
                lob_ask_depth := ask_depth, lob_mid_price := (best_bid + best_ask) div 2\<rparr>;
          b = (if 0 < lob_mid_price b
               then b\<lparr>lob_spread_bps := ((best_ask - best_bid) * 10000) div lob_mid_price b\<rparr> else b)
      in b\<lparr>lob_last_update_ns := now\<rparr>)"

definition lob_is_valid :: "LocalOrderBook \<Rightarrow> bool" where
  "lob_is_valid b \<longleftrightarrow> 0 < lob_best_bid b \<and> 0 < lob_best_ask b \<and> lob_best_bid b < lob_best_ask b"

datatype AlphaSignalType = Momentum | MeanReversion | Arbitrage | MarketMaking | NoSignal

text \<open>The direction is an \<open>i8\<close>.\<close>

record AlphaSignal =
  as_signal_type :: AlphaSignalType
  as_direction :: u8
  as_strength :: u8
  as_target_price :: u64
  as_expiry_ns :: u64
  as_timestamp_ns :: u64

definition as_new :: "u64 \<Rightarrow> AlphaSignalType \<Rightarrow> u8 \<Rightarrow> u8 \<Rightarrow> u64 \<Rightarrow> AlphaSignal" where
  "as_new now signal_type direction strength target_price =
     \<lparr>as_signal_type = signal_type, as_direction = direction, as_strength = strength,
      as_target_price = target_price, as_expiry_ns = now + 100000000, as_timestamp_ns = now\<rparr>"

definition as_is_valid :: "u64 \<Rightarrow> AlphaSignal \<Rightarrow> bool" where
  "as_is_valid now s \<longleftrightarrow> now < as_expiry_ns s"

section \<open>The actor\<close>

record SymbolActorState =
  sa_symbol_hash :: u64
  sa_name_hash :: u64
  sa_order_book :: u64
  sa_position :: i64
  sa_pending_orders :: u64
  sa_last_signal :: u64
  sa_max_position :: i64
  sa_max_order_size :: u64
  sa_trading_enabled :: bool
  sa_is_active :: bool
  sa_messages_processed :: u64
  sa_last_message_ns :: u64

definition sact_new :: "u64 \<Rightarrow> u64 \<Rightarrow> i64 \<Rightarrow> u64 \<Rightarrow> SymbolActorState" where
  "sact_new symbol_hash name_hash max_position max_order_size =
     \<lparr>sa_symbol_hash = symbol_hash, sa_name_hash = name_hash, sa_order_book = 0, sa_position = 0,
      sa_pending_orders = 0, sa_last_signal = 0, sa_max_position = max_position,
      sa_max_order_size = max_order_size, sa_trading_enabled = True, sa_is_active = True,
      sa_messages_processed = 0, sa_last_message_ns = 0\<rparr>"

definition sact_update_position :: "i64 \<Rightarrow> SymbolActorState \<Rightarrow> SymbolActorState" where
  "sact_update_position delta a = a\<lparr>sa_position := sa_position a + delta\<rparr>"

definition sact_would_exceed_limit :: "i64 \<Rightarrow> SymbolActorState \<Rightarrow> bool" where
  "sact_would_exceed_limit additional a =
     (let new_position = sa_position a + additional in sa_max_position a <s i64_abs new_position)"

definition sact_update_pending_orders :: "i64 \<Rightarrow> SymbolActorState \<Rightarrow> SymbolActorState" where
  "sact_update_pending_orders delta a =
     (let current = sa_pending_orders a
      in if 0 \<le> sint delta then a\<lparr>sa_pending_orders := sa_pending_orders a + delta\<rparr>
         else if - delta \<le> current then a\<lparr>sa_pending_orders := sa_pending_orders a - (- delta)\<rparr>
         else a)"

definition sact_record_message :: "u64 \<Rightarrow> SymbolActorState \<Rightarrow> SymbolActorState" where
  "sact_record_message now a =
     a\<lparr>sa_messages_processed := sa_messages_processed a + 1, sa_last_message_ns := now\<rparr>"

definition sact_enable_trading :: "SymbolActorState \<Rightarrow> SymbolActorState" where
  "sact_enable_trading a = a\<lparr>sa_trading_enabled := True\<rparr>"

definition sact_disable_trading :: "SymbolActorState \<Rightarrow> SymbolActorState" where
  "sact_disable_trading a = a\<lparr>sa_trading_enabled := False\<rparr>"

definition sact_deactivate :: "SymbolActorState \<Rightarrow> SymbolActorState" where
  "sact_deactivate a = a\<lparr>sa_is_active := False, sa_trading_enabled := False\<rparr>"

record SymbolActorStats =
  sas_symbol_hash :: u64
  sas_position :: i64
  sas_pending_orders :: u64
  sas_messages_processed :: u64
  sas_last_message_ns :: u64
  sas_is_active :: bool
  sas_trading_enabled :: bool

definition sact_get_stats :: "SymbolActorState \<Rightarrow> SymbolActorStats" where
  "sact_get_stats a =
     \<lparr>sas_symbol_hash = sa_symbol_hash a, sas_position = sa_position a,
      sas_pending_orders = sa_pending_orders a, sas_messages_processed = sa_messages_processed a,
      sas_last_message_ns = sa_last_message_ns a, sas_is_active = sa_is_active a,
      sas_trading_enabled = sa_trading_enabled a\<rparr>"

datatype SymbolMessage =
    MarketData u64 u64 u64 u64 u64 u64
  | ExecutionReport u64 u64 u64 u64 u64 OrderStatus
  | OrderRequest u64 u64 ActorSide OrderType u64 u64
  | CancelRequest u64 u64
  | AlphaSignalMsg AlphaSignal
  | RiskUpdate i64 u64
  | Heartbeat
  | Shutdown

section \<open>Fills, limits and pending orders\<close>

text \<open>After fills that do not overflow, the order is filled exactly when its quantity is reached.\<close>

lemma lo_fills:
  assumes "unat (lo_filled_quantity ord) + (\<Sum>q\<leftarrow>qs. unat q) < 2 ^ 64"
  shows "unat (lo_filled_quantity (fold lo_update_fill qs ord)) = unat (lo_filled_quantity ord) + (\<Sum>q\<leftarrow>qs. unat q) \<and>
    lo_quantity (fold lo_update_fill qs ord) = lo_quantity ord"
  using assms
proof (induction qs arbitrary: ord)
  case (Cons q qs)
  have "unat (lo_filled_quantity ord + q) = unat (lo_filled_quantity ord) + unat q"
    using Cons.prems by (intro unat_add_u64) simp
  then have "unat (lo_filled_quantity (lo_update_fill q ord)) = unat (lo_filled_quantity ord) + unat q"
    "lo_quantity (lo_update_fill q ord) = lo_quantity ord"
    by (simp_all add: lo_update_fill_def Let_def)
  with Cons.IH [of "lo_update_fill q ord"] Cons.prems show ?case by simp
qed simp

lemma lo_update_fill_status:
  "lo_status ord \<noteq> Filled \<Longrightarrow> lo_status (lo_update_fill q ord) = Filled \<longleftrightarrow>
     lo_quantity (lo_update_fill q ord) \<le> lo_filled_quantity (lo_update_fill q ord)"
  by (simp add: lo_update_fill_def Let_def)

lemma lo_filled_exactly:
  assumes "unat (lo_filled_quantity ord) + (\<Sum>q\<leftarrow>qs @ [q]. unat q) < 2 ^ 64" and "lo_status ord \<noteq> Filled"
    and "unat (lo_filled_quantity ord) + (\<Sum>q\<leftarrow>qs. unat q) < unat (lo_quantity ord)"
  shows "lo_status (fold lo_update_fill (qs @ [q]) ord) = Filled \<longleftrightarrow>
    unat (lo_quantity ord) \<le> unat (lo_filled_quantity ord) + (\<Sum>q\<leftarrow>qs @ [q]. unat q)"
proof -
  have unfilled: "lo_status (fold lo_update_fill ps ord) \<noteq> Filled" if "prefix": "\<exists>rs. qs = ps @ rs" for ps
    using that
  proof (induction ps rule: rev_induct)
    case (snoc p ps)
    then obtain rs where rs: "qs = ps @ p # rs" by auto
    with snoc.IH have "lo_status (fold lo_update_fill ps ord) \<noteq> Filled" by auto
    moreover have "\<not> lo_quantity (fold lo_update_fill (ps @ [p]) ord)
        \<le> lo_filled_quantity (fold lo_update_fill (ps @ [p]) ord)"
      using lo_fills [of ord "ps @ [p]"] assms rs by (simp add: word_le_nat_alt)
    ultimately show ?case using lo_update_fill_status [of "fold lo_update_fill ps ord" p] by simp
  qed (use assms(2) in simp)
  have "lo_status (fold lo_update_fill qs ord) \<noteq> Filled" by (rule unfilled) simp
  then have "lo_status (fold lo_update_fill (qs @ [q]) ord) = Filled \<longleftrightarrow>
      lo_quantity (fold lo_update_fill (qs @ [q]) ord) \<le> lo_filled_quantity (fold lo_update_fill (qs @ [q]) ord)"
    using lo_update_fill_status [of "fold lo_update_fill qs ord" q] by simp
  also have "\<dots> \<longleftrightarrow> unat (lo_quantity ord) \<le> unat (lo_filled_quantity ord) + (\<Sum>q\<leftarrow>qs @ [q]. unat q)"
    using lo_fills [OF assms(1)] by (simp add: word_le_nat_alt)
  finally show ?thesis .
qed

text \<open>The limit test is exact while the position stays within 64 bits; on the overflow to the smallest
  number it lets everything pass.\<close>

lemma limit_test_exact:
  assumes "- (2 ^ 63) < sint (sa_position a) + sint d" and "sint (sa_position a) + sint d < 2 ^ 63"
  shows "sact_would_exceed_limit d a \<longleftrightarrow> sint (sa_max_position a) < \<bar>sint (sa_position a) + sint d\<bar>"
proof -
  have s: "sint (sa_position a + d) = sint (sa_position a) + sint d"
    by (rule sint_add_i64) (use assms in simp_all)
  moreover have "sa_position a + d \<noteq> i64_MIN"
  proof
    assume "sa_position a + d = i64_MIN"
    then have "sint (sa_position a + d) = - (2 ^ 63)" by simp
    with s assms(1) show False by simp
  qed
  ultimately show ?thesis
    by (simp add: sact_would_exceed_limit_def word_sless_alt sint_i64_abs Let_def)
qed

lemma limit_test_overflow:
  "0 \<le> sint (sa_max_position a) \<Longrightarrow> sa_position a + d = i64_MIN \<Longrightarrow> \<not> sact_would_exceed_limit d a"
  by (simp add: sact_would_exceed_limit_def word_sless_alt sint_i64_abs Let_def)

text \<open>The count of pending orders is never taken below zero.\<close>

lemma pending_never_negative:
  assumes "sint d < 0"
  shows "unat (sa_pending_orders (sact_update_pending_orders d a)) \<le> unat (sa_pending_orders a)"
proof (cases "- d \<le> sa_pending_orders a")
  case True
  then have "unat (sa_pending_orders a - (- d)) = unat (sa_pending_orders a) - unat (- d)" by (rule unat_sub)
  with True assms show ?thesis by (simp add: sact_update_pending_orders_def)
qed (use assms in \<open>simp add: sact_update_pending_orders_def Let_def\<close>)

end
