(* ===== verification/Actor_System.thy ===== *)
theory Actor_System
  imports Symbol_Actor "HOL-Library.AList"
begin

text \<open>
  The dispatcher of the actors (\<open>src/src/actors/dispatcher.rs\<close>) and their manager
  (\<open>src/src/actors/mod.rs\<close>).

  The channels are those of the crate \<open>crossbeam_channel\<close>: the state of one is a type variable \<open>'c\<close>, and
  the non-blocking send is a parameter \<open>push\<close> that gives its outcome and the state after it. The hash
  maps are association lists with distinct keys; no result depends on their order. A handle or channel
  is kept in one place only: giving the same \<open>Arc\<close> to two symbols is outside the model.
  The cells of \<open>mod.rs\<close> have no \<open>store\<close> and no \<open>fetch_sub\<close>; the model has their effect.
\<close>

section \<open>Channels\<close>

record Envelope =
  ev_symbol_hash :: u64
  ev_priority :: u8
  ev_timestamp_ns :: u64
  ev_payload_ptr :: u64
  ev_payload_size :: "16 word"
  ev_message_type :: u8

definition ev_new :: "u64 \<Rightarrow> u64 \<Rightarrow> u8 \<Rightarrow> u8 \<Rightarrow> Envelope" where
  "ev_new now symbol_hash priority message_type =
     \<lparr>ev_symbol_hash = symbol_hash, ev_priority = priority, ev_timestamp_ns = now, ev_payload_ptr = 0,
      ev_payload_size = 0, ev_message_type = message_type\<rparr>"

datatype TrySend = SendOk | SendFull | SendDisconnected

type_synonym 'c push = "Envelope \<Rightarrow> 'c \<Rightarrow> TrySend \<times> 'c"

record 'c ActorChannel =
  ac_queue :: 'c
  ac_messages_sent :: u64
  ac_messages_dropped :: u64
  ac_is_active :: bool

definition ac_new :: "'c \<Rightarrow> 'c ActorChannel" where
  "ac_new queue = \<lparr>ac_queue = queue, ac_messages_sent = 0, ac_messages_dropped = 0, ac_is_active = True\<rparr>"

definition ac_try_send :: "'c push \<Rightarrow> Envelope \<Rightarrow> 'c ActorChannel \<Rightarrow> TrySend \<times> 'c ActorChannel" where
  "ac_try_send push envelope c =
     (if \<not> ac_is_active c then (SendDisconnected, c)
      else case push envelope (ac_queue c) of
             (SendOk, q) \<Rightarrow> (SendOk, c\<lparr>ac_queue := q, ac_messages_sent := ac_messages_sent c + 1\<rparr>)
           | (SendFull, q) \<Rightarrow> (SendFull, c\<lparr>ac_queue := q, ac_messages_dropped := ac_messages_dropped c + 1\<rparr>)
           | (SendDisconnected, q) \<Rightarrow> (SendDisconnected, c\<lparr>ac_queue := q, ac_is_active := False\<rparr>))"

definition ac_deactivate :: "'c ActorChannel \<Rightarrow> 'c ActorChannel" where
  "ac_deactivate c = c\<lparr>ac_is_active := False\<rparr>"

record ChannelStats =
  cst_messages_sent :: u64
  cst_messages_dropped :: u64
  cst_is_active :: bool

definition ac_get_stats :: "'c ActorChannel \<Rightarrow> ChannelStats" where
  "ac_get_stats c =
     \<lparr>cst_messages_sent = ac_messages_sent c, cst_messages_dropped = ac_messages_dropped c,
      cst_is_active = ac_is_active c\<rparr>"

section \<open>The dispatcher\<close>

record 'c EventDispatcher =
  ed_channels :: "(u64 \<times> 'c ActorChannel) list"
  ed_total_dispatched :: u64
  ed_total_failed :: u64
  ed_is_active :: bool
  ed_default_channel :: "'c ActorChannel option"

datatype DispatchResult =
    Sent | SentToDefault | ChannelFull | ChannelDisconnected | NoRoute | DefaultFailed | DispatcherInactive

definition ed_new :: "'c EventDispatcher" where
  "ed_new =
     \<lparr>ed_channels = [], ed_total_dispatched = 0, ed_total_failed = 0, ed_is_active = True,
      ed_default_channel = None\<rparr>"

definition ed_register_actor :: "u64 \<Rightarrow> 'c ActorChannel \<Rightarrow> 'c EventDispatcher \<Rightarrow> 'c EventDispatcher" where
  "ed_register_actor symbol_hash channel d = d\<lparr>ed_channels := AList.update symbol_hash channel (ed_channels d)\<rparr>"

definition ed_unregister_actor ::
    "u64 \<Rightarrow> 'c EventDispatcher \<Rightarrow> 'c ActorChannel option \<times> 'c EventDispatcher" where
  "ed_unregister_actor symbol_hash d =
     (map_of (ed_channels d) symbol_hash, d\<lparr>ed_channels := AList.delete symbol_hash (ed_channels d)\<rparr>)"

definition ed_set_default_channel :: "'c ActorChannel \<Rightarrow> 'c EventDispatcher \<Rightarrow> 'c EventDispatcher" where
  "ed_set_default_channel channel d = d\<lparr>ed_default_channel := Some channel\<rparr>"

definition ed_count :: "bool \<Rightarrow> 'c EventDispatcher \<Rightarrow> 'c EventDispatcher" where
  "ed_count ok d =
     (if ok then d\<lparr>ed_total_dispatched := ed_total_dispatched d + 1\<rparr>
      else d\<lparr>ed_total_failed := ed_total_failed d + 1\<rparr>)"

definition ed_dispatch :: "'c push \<Rightarrow> Envelope \<Rightarrow> 'c EventDispatcher \<Rightarrow> DispatchResult \<times> 'c EventDispatcher" where
  "ed_dispatch push envelope d =
     (if \<not> ed_is_active d then (DispatcherInactive, d)
      else case map_of (ed_channels d) (ev_symbol_hash envelope) of
             Some channel \<Rightarrow>
               (case ac_try_send push envelope channel of
                  (r, channel) \<Rightarrow>
                    (case r of SendOk \<Rightarrow> Sent | SendFull \<Rightarrow> ChannelFull | SendDisconnected \<Rightarrow> ChannelDisconnected,
                     ed_count (r = SendOk) (ed_register_actor (ev_symbol_hash envelope) channel d)))
           | None \<Rightarrow>
               (case ed_default_channel d of
                  Some fallback \<Rightarrow>
                    (case ac_try_send push envelope fallback of
                       (r, fallback) \<Rightarrow>
                         (case r of SendOk \<Rightarrow> SentToDefault | _ \<Rightarrow> DefaultFailed,
                          ed_count (r = SendOk) (ed_set_default_channel fallback d)))
                | None \<Rightarrow> (NoRoute, d)))"

definition ed_dispatch_market_data ::
    "'c push \<Rightarrow> u64 \<Rightarrow> u64 \<Rightarrow> u64 \<Rightarrow> u64 \<Rightarrow> u64 \<Rightarrow> u64 \<Rightarrow> 'c EventDispatcher \<Rightarrow> DispatchResult \<times> 'c EventDispatcher" where
  "ed_dispatch_market_data push now symbol_hash bid ask bid_depth ask_depth d =
     ed_dispatch push (ev_new now symbol_hash 100 1) d"

definition ed_dispatch_execution_report ::
    "'c push \<Rightarrow> u64 \<Rightarrow> u64 \<Rightarrow> u64 \<Rightarrow> u64 \<Rightarrow> u64 \<Rightarrow> 'c EventDispatcher \<Rightarrow> DispatchResult \<times> 'c EventDispatcher" where
  "ed_dispatch_execution_report push now symbol_hash order_id fill_qty fill_price d =
     ed_dispatch push (ev_new now symbol_hash 255 2) d"

record BroadcastStats =
  bst_sent :: u64
  bst_failed :: u64

text \<open>The envelope of each channel carries the time \<open>now\<close> reads for its symbol.\<close>

definition ed_broadcast ::
    "'c push \<Rightarrow> (u64 \<Rightarrow> u64) \<Rightarrow> u8 \<Rightarrow> u8 \<Rightarrow> 'c EventDispatcher \<Rightarrow> BroadcastStats \<times> 'c EventDispatcher" where
  "ed_broadcast push now message_type priority d =
     (let sends = map (\<lambda>(h, c). (h, ac_try_send push (ev_new (now h) h priority message_type) c)) (ed_channels d)
      in (\<lparr>bst_sent = of_nat (length (filter (\<lambda>(h, r, c). r = SendOk) sends)),
           bst_failed = of_nat (length (filter (\<lambda>(h, r, c). r \<noteq> SendOk) sends))\<rparr>,
          d\<lparr>ed_channels := map (\<lambda>(h, r, c). (h, c)) sends\<rparr>))"

definition ed_get_channel_stats :: "u64 \<Rightarrow> 'c EventDispatcher \<Rightarrow> ChannelStats option" where
  "ed_get_channel_stats symbol_hash d = map_option ac_get_stats (map_of (ed_channels d) symbol_hash)"

record DispatcherStats =
  dst_total_dispatched :: u64
  dst_total_failed :: u64
  dst_actor_count :: nat
  dst_is_active :: bool

definition ed_get_stats :: "'c EventDispatcher \<Rightarrow> DispatcherStats" where
  "ed_get_stats d =
     \<lparr>dst_total_dispatched = ed_total_dispatched d, dst_total_failed = ed_total_failed d,
      dst_actor_count = length (ed_channels d), dst_is_active = ed_is_active d\<rparr>"

definition ed_activate :: "'c EventDispatcher \<Rightarrow> 'c EventDispatcher" where
  "ed_activate d =
     d\<lparr>ed_is_active := True, ed_channels := map (\<lambda>(h, c). (h, c\<lparr>ac_is_active := True\<rparr>)) (ed_channels d)\<rparr>"

definition ed_deactivate :: "'c EventDispatcher \<Rightarrow> 'c EventDispatcher" where
  "ed_deactivate d =
     d\<lparr>ed_is_active := False, ed_channels := map (\<lambda>(h, c). (h, ac_deactivate c)) (ed_channels d)\<rparr>"

section \<open>Actor handles\<close>

datatype ActorLifecycle = Created | Starting | Running | Stopping | Stopped | Failed

definition lifecycle_code :: "ActorLifecycle \<Rightarrow> u64" where
  "lifecycle_code l =
     (case l of Created \<Rightarrow> 0 | Starting \<Rightarrow> 1 | Running \<Rightarrow> 2 | Stopping \<Rightarrow> 3 | Stopped \<Rightarrow> 4 | Failed \<Rightarrow> 5)"

record ActorConfig =
  acf_cpu_affinity :: i64
  acf_channel_capacity :: u64
  acf_stack_size :: u64
  acf_priority :: u8

definition acf_default :: ActorConfig where
  "acf_default =
     \<lparr>acf_cpu_affinity = - 1, acf_channel_capacity = 4096, acf_stack_size = 2 * 1024 * 1024, acf_priority = 50\<rparr>"

record 'c ActorHandle =
  ah_symbol_hash :: u64
  ah_state :: SymbolActorState
  ah_channel :: "'c ActorChannel"
  ah_lifecycle :: u64
  ah_thread_id :: u64
  ah_messages_processed :: u64
  ah_last_heartbeat_ns :: u64

definition ah_new :: "u64 \<Rightarrow> SymbolActorState \<Rightarrow> 'c ActorChannel \<Rightarrow> 'c ActorHandle" where
  "ah_new symbol_hash state channel =
     \<lparr>ah_symbol_hash = symbol_hash, ah_state = state, ah_channel = channel,
      ah_lifecycle = lifecycle_code Created, ah_thread_id = 0, ah_messages_processed = 0,
      ah_last_heartbeat_ns = 0\<rparr>"

definition ah_set_lifecycle :: "ActorLifecycle \<Rightarrow> 'c ActorHandle \<Rightarrow> 'c ActorHandle" where
  "ah_set_lifecycle l h = h\<lparr>ah_lifecycle := lifecycle_code l\<rparr>"

definition ah_get_lifecycle :: "'c ActorHandle \<Rightarrow> ActorLifecycle" where
  "ah_get_lifecycle h =
     (let v = ah_lifecycle h
      in if v = 0 then Created else if v = 1 then Starting else if v = 2 then Running
         else if v = 3 then Stopping else if v = 4 then Stopped else if v = 5 then Failed else Failed)"

definition ah_record_heartbeat :: "u64 \<Rightarrow> 'c ActorHandle \<Rightarrow> 'c ActorHandle" where
  "ah_record_heartbeat now h = h\<lparr>ah_last_heartbeat_ns := now\<rparr>"

definition ah_is_alive :: "'c ActorHandle \<Rightarrow> bool" where
  "ah_is_alive h \<longleftrightarrow> ah_get_lifecycle h = Running \<or> ah_get_lifecycle h = Starting"

section \<open>The manager\<close>

datatype ActorError = NotFound | AlreadyRunning | AlreadyStopped | ActorChannelFull | ActorDisconnected | CpuAffinityFailed

record 'c ActorManager =
  am_handles :: "(u64 \<times> 'c ActorHandle) list"
  am_total_actors :: u64
  am_active_actors :: u64
  am_is_active :: bool
  am_default_config :: ActorConfig
  am_pool_size :: u64

definition am_new :: "'c ActorManager" where
  "am_new =
     \<lparr>am_handles = [], am_total_actors = 0, am_active_actors = 0, am_is_active = True,
      am_default_config = acf_default, am_pool_size = 100\<rparr>"

text \<open>\<open>bounded\<close> makes the queue of a new channel of a capacity.\<close>

definition am_create_actor ::
    "(u64 \<Rightarrow> 'c) \<Rightarrow> u64 \<Rightarrow> u64 \<Rightarrow> i64 \<Rightarrow> u64 \<Rightarrow> ActorConfig option \<Rightarrow> 'c ActorManager
     \<Rightarrow> 'c ActorHandle \<times> 'c ActorManager" where
  "am_create_actor bounded symbol_hash name_hash max_position max_order_size config m =
     (let cfg = (case config of None \<Rightarrow> am_default_config m | Some c \<Rightarrow> c);
          state = sact_new symbol_hash name_hash max_position max_order_size;
          channel = ac_new (bounded (acf_channel_capacity cfg));
          handle = ah_new symbol_hash state channel
      in (handle,
          m\<lparr>am_handles := AList.update symbol_hash handle (am_handles m),
             am_total_actors := am_total_actors m + 1, am_active_actors := am_active_actors m + 1\<rparr>))"

definition am_remove_actor :: "u64 \<Rightarrow> 'c ActorManager \<Rightarrow> 'c ActorHandle option \<times> 'c ActorManager" where
  "am_remove_actor symbol_hash m =
     (case map_of (am_handles m) symbol_hash of
        None \<Rightarrow> (None, m)
      | Some handle \<Rightarrow>
          (Some ((ah_set_lifecycle Stopped handle)
                  \<lparr>ah_channel := ac_deactivate (ah_channel handle), ah_state := sact_deactivate (ah_state handle)\<rparr>),
           m\<lparr>am_handles := AList.delete symbol_hash (am_handles m), am_active_actors := am_active_actors m - 1\<rparr>))"

definition am_get_actor :: "u64 \<Rightarrow> 'c ActorManager \<Rightarrow> 'c ActorHandle option" where
  "am_get_actor symbol_hash m = map_of (am_handles m) symbol_hash"

definition am_put :: "u64 \<Rightarrow> 'c ActorHandle \<Rightarrow> 'c ActorManager \<Rightarrow> 'c ActorManager" where
  "am_put symbol_hash handle m = m\<lparr>am_handles := AList.update symbol_hash handle (am_handles m)\<rparr>"

definition am_start_actor :: "u64 \<Rightarrow> 'c ActorManager \<Rightarrow> (ActorError + unit) \<times> 'c ActorManager" where
  "am_start_actor symbol_hash m =
     (case map_of (am_handles m) symbol_hash of
        None \<Rightarrow> (Inl NotFound, m)
      | Some handle \<Rightarrow>
          if \<not> ah_is_alive handle
          then (Inr (), am_put symbol_hash (ah_set_lifecycle Running (ah_set_lifecycle Starting handle)) m)
          else (Inl AlreadyRunning, m))"

definition ah_stop :: "'c push \<Rightarrow> u64 \<Rightarrow> u64 \<Rightarrow> 'c ActorHandle \<Rightarrow> 'c ActorHandle" where
  "ah_stop push now symbol_hash handle =
     (let handle = ah_set_lifecycle Stopping handle;
          handle = handle\<lparr>ah_state := sact_disable_trading (ah_state handle)\<rparr>;
          envelope = ev_new now symbol_hash 255 255;
          handle = handle\<lparr>ah_channel := snd (ac_try_send push envelope (ah_channel handle))\<rparr>
      in ah_set_lifecycle Stopped handle)"

definition am_stop_actor ::
    "'c push \<Rightarrow> u64 \<Rightarrow> u64 \<Rightarrow> 'c ActorManager \<Rightarrow> (ActorError + unit) \<times> 'c ActorManager" where
  "am_stop_actor push now symbol_hash m =
     (case map_of (am_handles m) symbol_hash of
        None \<Rightarrow> (Inl NotFound, m)
      | Some handle \<Rightarrow> (Inr (), am_put symbol_hash (ah_stop push now symbol_hash handle) m))"

definition am_stop_all :: "'c push \<Rightarrow> (u64 \<Rightarrow> u64) \<Rightarrow> 'c ActorManager \<Rightarrow> 'c ActorManager" where
  "am_stop_all push now m =
     fold (\<lambda>symbol m. snd (am_stop_actor push (now symbol) symbol m)) (map fst (am_handles m)) m"

definition am_check_health :: "u64 \<Rightarrow> u64 \<Rightarrow> 'c ActorManager \<Rightarrow> u64 list" where
  "am_check_health now timeout_ns m =
     map fst (filter (\<lambda>(symbol, handle).
       ah_is_alive handle \<and> timeout_ns < u64_sat_sub now (ah_last_heartbeat_ns handle)) (am_handles m))"

definition am_set_default_config :: "ActorConfig \<Rightarrow> 'c ActorManager \<Rightarrow> 'c ActorManager" where
  "am_set_default_config config m = m\<lparr>am_default_config := config\<rparr>"

record ActorManagerStats =
  ams_total_actors :: u64
  ams_active_actors :: u64
  ams_is_active :: bool

definition am_get_stats :: "'c ActorManager \<Rightarrow> ActorManagerStats" where
  "am_get_stats m =
     \<lparr>ams_total_actors = am_total_actors m, ams_active_actors = am_active_actors m, ams_is_active = am_is_active m\<rparr>"

definition am_activate :: "'c ActorManager \<Rightarrow> 'c ActorManager" where
  "am_activate m = m\<lparr>am_is_active := True\<rparr>"

definition am_deactivate :: "'c push \<Rightarrow> (u64 \<Rightarrow> u64) \<Rightarrow> 'c ActorManager \<Rightarrow> 'c ActorManager" where
  "am_deactivate push now m = am_stop_all push now (m\<lparr>am_is_active := False\<rparr>)"

section \<open>The memory pool\<close>

record MemoryPool =
  mp_size :: u64
  mp_allocated :: u64
  mp_freed :: u64

definition mp_new :: "u64 \<Rightarrow> MemoryPool" where
  "mp_new sz = \<lparr>mp_size = sz, mp_allocated = 0, mp_freed = 0\<rparr>"

definition mp_allocate :: "MemoryPool \<Rightarrow> bool \<times> MemoryPool" where
  "mp_allocate p =
     (let net = mp_allocated p - mp_freed p
      in if net < mp_size p then (True, p\<lparr>mp_allocated := mp_allocated p + 1\<rparr>) else (False, p))"

definition mp_free :: "MemoryPool \<Rightarrow> MemoryPool" where
  "mp_free p = p\<lparr>mp_freed := mp_freed p + 1\<rparr>"

definition mp_get_usage :: "MemoryPool \<Rightarrow> u64 \<times> u64 \<times> u64" where
  "mp_get_usage p = (mp_size p, mp_allocated p, mp_freed p)"

section \<open>Routing\<close>

lemma ed_count_simps [simp]:
  "ed_channels (ed_count ok d) = ed_channels d" "ed_default_channel (ed_count ok d) = ed_default_channel d"
  "ed_is_active (ed_count ok d) = ed_is_active d"
  by (simp_all add: ed_count_def)

text \<open>
  A message reaches its addressee and nobody else. Dispatching to an active dispatcher leaves the
  channels of all other symbols alone; the channel of the symbol is the one that was sent to, and the
  default channel is used exactly for symbols without one. The dispatched and the failed messages are
  counted by their results, and a message without a route by neither.
\<close>

lemma dispatch_routes_exactly:
  assumes "ed_is_active d" and "ed_dispatch push e d = (r, d')"
  shows "(\<forall>h. h \<noteq> ev_symbol_hash e \<longrightarrow> map_of (ed_channels d') h = map_of (ed_channels d) h) \<and>
    map_of (ed_channels d') (ev_symbol_hash e) =
      map_option (\<lambda>c. snd (ac_try_send push e c)) (map_of (ed_channels d) (ev_symbol_hash e)) \<and>
    ed_default_channel d' =
      (if map_of (ed_channels d) (ev_symbol_hash e) = None
       then map_option (\<lambda>c. snd (ac_try_send push e c)) (ed_default_channel d) else ed_default_channel d) \<and>
    ed_total_dispatched d' = ed_total_dispatched d + (if r \<in> {Sent, SentToDefault} then 1 else 0) \<and>
    ed_total_failed d' = ed_total_failed d +
      (if r \<in> {ChannelFull, ChannelDisconnected, DefaultFailed} then 1 else 0)"
proof (cases "map_of (ed_channels d) (ev_symbol_hash e)")
  case (Some c)
  obtain t c' where "ac_try_send push e c = (t, c')" by (cases "ac_try_send push e c")
  with Some assms show ?thesis
    by (cases t) (auto simp: ed_dispatch_def ed_register_actor_def ed_count_def update_conv')
next
  case None
  note no_channel = None
  show ?thesis
  proof (cases "ed_default_channel d")
    case (Some c)
    obtain t c' where "ac_try_send push e c = (t, c')" by (cases "ac_try_send push e c")
    with no_channel Some assms show ?thesis
      by (cases t) (auto simp: ed_dispatch_def ed_set_default_channel_def ed_count_def)
  qed (use None assms in \<open>auto simp: ed_dispatch_def\<close>)
qed

text \<open>A queue of the given capacity that keeps what it takes, for the witnesses.\<close>

definition list_push :: "nat \<Rightarrow> Envelope list push" where
  "list_push n e q = (if length q < n then (SendOk, q @ [e]) else (SendFull, q))"

text \<open>Reactivating the dispatcher reopens the channels of stopped and removed actors.\<close>

lemma activation_reopens_channels:
  "map_of (ed_channels d) h = Some c \<Longrightarrow>
     map_of (ed_channels (ed_activate d)) h = Some (c\<lparr>ac_is_active := True\<rparr>)"
  by (simp add: ed_activate_def map_of_map)

section \<open>Stopped actors\<close>

text \<open>What the manager and the clients of the handles do to one actor.\<close>

datatype ActorOp = ActorStart | ActorStop u64 | ActorBeat u64 | ActorCreateOther u64 u64 i64 u64

fun actor_op :: "(u64 \<Rightarrow> 'c) \<Rightarrow> 'c push \<Rightarrow> u64 \<Rightarrow> ActorOp \<Rightarrow> 'c ActorManager \<Rightarrow> 'c ActorManager" where
  "actor_op bounded push h ActorStart m = snd (am_start_actor h m)"
| "actor_op bounded push h (ActorStop now) m = snd (am_stop_actor push now h m)"
| "actor_op bounded push h (ActorBeat now) m =
     (case am_get_actor h m of None \<Rightarrow> m | Some a \<Rightarrow> am_put h (ah_record_heartbeat now a) m)"
| "actor_op bounded push h (ActorCreateOther h' n p s) m =
     (if h' = h then m else snd (am_create_actor bounded h' n p s None m))"

definition trading_off :: "u64 \<Rightarrow> 'c ActorManager \<Rightarrow> bool" where
  "trading_off h m \<longleftrightarrow> (\<exists>a. am_get_actor h m = Some a \<and> \<not> sa_trading_enabled (ah_state a))"

lemma am_put_get [simp]: "am_get_actor h (am_put h a m) = Some a"
  by (simp add: am_get_actor_def am_put_def update_conv')

lemma ah_simps [simp]:
  "ah_state (ah_set_lifecycle l a) = ah_state a" "ah_state (ah_record_heartbeat now a) = ah_state a"
  "ah_get_lifecycle (ah_set_lifecycle l a) = l"
  by (cases l; simp add: ah_set_lifecycle_def ah_record_heartbeat_def ah_get_lifecycle_def lifecycle_code_def)+

lemma ah_stop_trading [simp]: "sa_trading_enabled (ah_state (ah_stop push now h a)) = False"
  by (simp add: ah_stop_def sact_disable_trading_def Let_def)

lemma trading_off_op: "trading_off h m \<Longrightarrow> trading_off h (actor_op bounded push h a m)"
proof (induction bounded push h a m rule: actor_op.induct)
  case (1 bounded push h m)
  then show ?case
    by (auto simp: trading_off_def am_start_actor_def am_get_actor_def [symmetric])
next
  case (4 bounded push h h' n p s m)
  then show ?case
    by (auto simp: trading_off_def am_create_actor_def am_get_actor_def update_conv' Let_def)
qed (auto simp: trading_off_def am_stop_actor_def am_get_actor_def [symmetric])

interpretation stopped: latched_system "actor_op bounded push h" "\<lambda>a. True" "trading_off h" for bounded push h
  by unfold_locales (rule trading_off_op)

text \<open>
  C38: A stopped actor can be started again, but it never trades again. Whatever starts, stops and
  heartbeats follow, and whatever other actors are created, the flag that allows it to trade stays
  cleared, while a start makes it look alive.
\<close>

theorem restarted_actor_does_not_trade:
  assumes "am_get_actor h m = Some a"
    and "m' = run (actor_op bounded push h) ops (snd (am_stop_actor push now h m))"
  shows "\<exists>a'. am_get_actor h (snd (am_start_actor h m')) = Some a' \<and> ah_is_alive a' \<and>
    \<not> sa_trading_enabled (ah_state a')"
proof -
  have "trading_off h (snd (am_stop_actor push now h m))"
    using assms(1) by (simp add: trading_off_def am_stop_actor_def am_get_actor_def [symmetric])
  then have "trading_off h m'"
    unfolding assms(2) by (rule stopped.run_latch) (simp add: list.pred_True)
  then show ?thesis
    by (auto simp: trading_off_def am_start_actor_def am_get_actor_def [symmetric] ah_is_alive_def)
qed

theorem restarted_actor_does_not_trade_witness:
  "\<exists>a'. am_get_actor 7 (snd (am_start_actor 7 (run (actor_op (\<lambda>n. []) (list_push 1) 7) [ActorStart, ActorBeat 9]
      (snd (am_stop_actor (list_push 1) 3 7
        (snd (am_create_actor (\<lambda>n. []) 7 1 100 10 None am_new))))))) = Some a' \<and> ah_is_alive a' \<and>
    \<not> sa_trading_enabled (ah_state a')"
  by (rule restarted_actor_does_not_trade [OF _ refl, where a = "ah_new 7 (sact_new 7 1 100 10) (ac_new [])"])
    (simp add: am_get_actor_def am_create_actor_def am_new_def Let_def)

section \<open>Counting actors\<close>

text \<open>The active actors are the registered ones as long as only new symbols are created.\<close>

definition am_counted :: "'c ActorManager \<Rightarrow> bool" where
  "am_counted m \<longleftrightarrow> distinct (map fst (am_handles m)) \<and> am_active_actors m = of_nat (length (am_handles m))"

lemma length_update_new: "h \<notin> fst ` set xs \<Longrightarrow> length (AList.update h x xs) = Suc (length xs)"
  by (induction xs) auto

lemma am_counted_create:
  "am_counted m \<Longrightarrow> am_get_actor h m = None \<Longrightarrow> am_counted (snd (am_create_actor bounded h n p s cfg m))"
  by (simp add: am_counted_def am_create_actor_def am_get_actor_def map_of_eq_None_iff length_update_new
      distinct_update Let_def)

lemma length_delete_old:
  "distinct (map fst xs) \<Longrightarrow> h \<in> fst ` set xs \<Longrightarrow> Suc (length (AList.delete h xs)) = length xs"
  by (induction xs) auto

lemma am_counted_remove: "am_counted m \<Longrightarrow> am_counted (snd (am_remove_actor h m))"
proof (cases "map_of (am_handles m) h")
  case (Some a)
  assume c: "am_counted m"
  have "h \<in> fst ` set (am_handles m)" using map_of_SomeD [OF Some] by force
  with c have "length (am_handles m) = Suc (length (AList.delete h (am_handles m)))"
    by (simp add: am_counted_def length_delete_old)
  with c Some show ?thesis by (simp add: am_counted_def am_remove_actor_def distinct_delete)
qed (simp add: am_remove_actor_def)

text \<open>Creating an actor for a symbol that has one replaces it and counts it twice.\<close>

lemma recreated_actor_counted_twice:
  "let m = snd (am_create_actor bounded h n p s cfg (snd (am_create_actor bounded h n p s cfg am_new)))
   in length (am_handles m) = 1 \<and> am_active_actors m = 2"
  by (simp add: am_create_actor_def am_new_def Let_def)

text \<open>An actor that has just been started and has not sent a heartbeat counts as unhealthy at once.\<close>

lemma fresh_actor_unhealthy:
  assumes "timeout < now"
  shows "am_check_health now timeout
    (snd (am_start_actor h (snd (am_create_actor bounded h n p s cfg am_new)))) = [h]"
  using assms
  by (simp add: am_check_health_def am_start_actor_def am_create_actor_def am_new_def am_put_def ah_is_alive_def
      ah_new_def ah_get_lifecycle_def lifecycle_code_def ah_set_lifecycle_def u64_sat_sub_def Let_def)

section \<open>The pool as a counter\<close>

fun pool_step :: "bool \<Rightarrow> MemoryPool \<Rightarrow> MemoryPool" where
  "pool_step True p = snd (mp_allocate p)"
| "pool_step False p = mp_free p"

definition mp_within :: "MemoryPool \<Rightarrow> bool" where
  "mp_within p \<longleftrightarrow> mp_allocated p - mp_freed p \<le> mp_size p"

text \<open>Only what is allocated is freed.\<close>

interpretation memory: guarded_system pool_step "\<lambda>a p. a \<or> mp_allocated p - mp_freed p \<noteq> 0" mp_within
proof unfold_locales
  fix p :: MemoryPool and a
  assume w: "mp_within p" and ok: "a \<or> mp_allocated p - mp_freed p \<noteq> 0"
  have inc: "mp_allocated p + 1 - mp_freed p = (mp_allocated p - mp_freed p) + 1" by simp
  have dec: "mp_allocated p - (mp_freed p + 1) = (mp_allocated p - mp_freed p) - 1" by simp
  show "mp_within (pool_step a p)"
  proof (cases a)
    case True
    with w show ?thesis by (simp add: mp_within_def mp_allocate_def inc inc_le Let_def)
  next
    case False
    with w ok show ?thesis
      using word_le_sub1 [of "mp_allocated p - mp_freed p"] unat_minus_one [of "mp_allocated p - mp_freed p"]
      by (simp add: mp_within_def mp_free_def dec word_le_nat_alt)
  qed
qed

end
