(* ===== verification/Float64.thy ===== *)
theory Float64
  imports Machine "HOL-Library.Log_Nat"
begin

text \<open>
  Binary floating-point numbers of 64 bits, as the type \<open>f64\<close> of the source has them (IEEE 754,
  rounding to nearest, ties to even). A finite number is a sign and a rational magnitude, which keeps
  the two zeros apart; an operation computes the exact rational result and rounds it once. The theory
  gives the operations the modelled code uses, monotonicity of rounding and its exactness on
  representable numbers. The bits of a \<open>NaN\<close> are not modelled; no modelled code looks at them.
\<close>

section \<open>Rounding\<close>

text \<open>The exponent of the highest bit of a positive rational number.\<close>

definition floor_log2 :: "rat \<Rightarrow> int" where
  "floor_log2 q =
     (case quotient_of q of (a, b) \<Rightarrow>
        let e = int (floorlog 2 (nat a)) - int (floorlog 2 (nat b))
        in if 2 powi e \<le> q then e else e - 1)"

text \<open>The exponent of the last bit a number of this magnitude has: 53 bits, and none below \<open>2 powi - 1074\<close>.\<close>

definition last_bit :: "rat \<Rightarrow> int" where
  "last_bit q = max (floor_log2 q - 52) (- 1074)"

definition round_even :: "rat \<Rightarrow> int" where
  "round_even x =
     (let f = \<lfloor>x\<rfloor>; r = x - of_int f
      in if r < 1 / 2 then f else if 1 / 2 < r then f + 1 else if even f then f else f + 1)"

definition round_mag :: "rat \<Rightarrow> rat" where
  "round_mag q =
     (if q \<le> 0 then 0 else let u = 2 powi last_bit q in of_int (round_even (q / u)) * u)"

definition max_finite_bound :: rat where
  "max_finite_bound = 2 powi 1024"

section \<open>Numbers\<close>

datatype f64 = FNaN | FInf bool | Fin bool rat

definition fval :: "bool \<Rightarrow> rat \<Rightarrow> rat" where
  "fval neg m = (if neg then - m else m)"

definition pack :: "bool \<Rightarrow> rat \<Rightarrow> f64" where
  "pack neg m = (let r = round_mag m in if max_finite_bound \<le> r then FInf neg else Fin neg r)"

text \<open>The number nearest to an exact result; \<open>zero_neg\<close> is the sign of an exact zero.\<close>

definition f64_of :: "bool \<Rightarrow> rat \<Rightarrow> f64" where
  "f64_of zero_neg r = (if r = 0 then Fin zero_neg 0 else pack (r < 0) \<bar>r\<bar>)"

definition f64_lit :: "rat \<Rightarrow> f64" where
  "f64_lit r = f64_of False r"

definition f64_of_nat :: "nat \<Rightarrow> f64" where
  "f64_of_nat n = f64_of False (of_nat n)"

definition f64_of_u64 :: "u64 \<Rightarrow> f64" where
  "f64_of_u64 n = f64_of_nat (unat n)"

definition f64_of_int :: "int \<Rightarrow> f64" where
  "f64_of_int n = f64_of False (of_int n)"

definition f64_of_i64 :: "i64 \<Rightarrow> f64" where
  "f64_of_i64 n = f64_of_int (sint n)"

fun f64_neg :: "f64 \<Rightarrow> f64" where
  "f64_neg FNaN = FNaN"
| "f64_neg (FInf s) = FInf (\<not> s)"
| "f64_neg (Fin s m) = Fin (\<not> s) m"

fun f64_abs :: "f64 \<Rightarrow> f64" where
  "f64_abs FNaN = FNaN"
| "f64_abs (FInf s) = FInf False"
| "f64_abs (Fin s m) = Fin False m"

fun f64_add :: "f64 \<Rightarrow> f64 \<Rightarrow> f64" where
  "f64_add FNaN y = FNaN"
| "f64_add x FNaN = FNaN"
| "f64_add (FInf s) (FInf t) = (if s = t then FInf s else FNaN)"
| "f64_add (FInf s) (Fin t n) = FInf s"
| "f64_add (Fin s m) (FInf t) = FInf t"
| "f64_add (Fin s m) (Fin t n) = f64_of (s \<and> t) (fval s m + fval t n)"

definition f64_sub :: "f64 \<Rightarrow> f64 \<Rightarrow> f64" where
  "f64_sub x y = f64_add x (f64_neg y)"

fun f64_mul :: "f64 \<Rightarrow> f64 \<Rightarrow> f64" where
  "f64_mul FNaN y = FNaN"
| "f64_mul x FNaN = FNaN"
| "f64_mul (FInf s) (FInf t) = FInf (s \<noteq> t)"
| "f64_mul (FInf s) (Fin t n) = (if n = 0 then FNaN else FInf (s \<noteq> t))"
| "f64_mul (Fin s m) (FInf t) = (if m = 0 then FNaN else FInf (s \<noteq> t))"
| "f64_mul (Fin s m) (Fin t n) = pack (s \<noteq> t) (m * n)"

fun f64_div :: "f64 \<Rightarrow> f64 \<Rightarrow> f64" where
  "f64_div FNaN y = FNaN"
| "f64_div x FNaN = FNaN"
| "f64_div (FInf s) (FInf t) = FNaN"
| "f64_div (FInf s) (Fin t n) = FInf (s \<noteq> t)"
| "f64_div (Fin s m) (FInf t) = Fin (s \<noteq> t) 0"
| "f64_div (Fin s m) (Fin t n) =
     (if n = 0 then (if m = 0 then FNaN else FInf (s \<noteq> t)) else pack (s \<noteq> t) (m / n))"

fun f64_less :: "f64 \<Rightarrow> f64 \<Rightarrow> bool" where
  "f64_less FNaN y = False"
| "f64_less x FNaN = False"
| "f64_less (FInf s) (FInf t) = (s \<and> \<not> t)"
| "f64_less (FInf s) (Fin t n) = s"
| "f64_less (Fin s m) (FInf t) = (\<not> t)"
| "f64_less (Fin s m) (Fin t n) = (fval s m < fval t n)"

fun f64_eq :: "f64 \<Rightarrow> f64 \<Rightarrow> bool" where
  "f64_eq (FInf s) (FInf t) = (s = t)"
| "f64_eq (Fin s m) (Fin t n) = (fval s m = fval t n)"
| "f64_eq x y = False"

definition f64_le :: "f64 \<Rightarrow> f64 \<Rightarrow> bool" where
  "f64_le x y \<longleftrightarrow> f64_less x y \<or> f64_eq x y"

text \<open>\<open>f64::min\<close> and \<open>f64::max\<close> return the other operand when one is a \<open>NaN\<close>.\<close>

definition f64_min :: "f64 \<Rightarrow> f64 \<Rightarrow> f64" where
  "f64_min x y = (if x = FNaN then y else if y = FNaN then x else if f64_less y x then y else x)"

definition f64_max :: "f64 \<Rightarrow> f64 \<Rightarrow> f64" where
  "f64_max x y = (if x = FNaN then y else if y = FNaN then x else if f64_less x y then y else x)"

text \<open>The cast \<open>as u64\<close> truncates and saturates, and takes a \<open>NaN\<close> to zero.\<close>

fun f64_to_u64 :: "f64 \<Rightarrow> u64" where
  "f64_to_u64 FNaN = 0"
| "f64_to_u64 (FInf s) = (if s then 0 else u64_MAX)"
| "f64_to_u64 (Fin s m) = (if s then 0 else if 2 ^ 64 \<le> m then u64_MAX else of_nat (nat \<lfloor>m\<rfloor>))"

section \<open>Rounding is monotone\<close>

lemma powi_le_cancel: "(2 powi i \<le> (2 powi j :: rat)) \<longleftrightarrow> i \<le> j"
  using power_int_increasing [of i j "2 :: rat"] power_int_strict_increasing [of j i "2 :: rat"] by force

lemma nat_powi_bounds:
  assumes "0 < a"
  shows "2 powi (int (floorlog 2 (nat a)) - 1) \<le> (of_int a :: rat)"
    and "(of_int a :: rat) < 2 powi int (floorlog 2 (nat a))"
proof -
  have pos: "0 < floorlog 2 (nat a)" using assms by (simp add: floorlog_def)
  have "2 ^ (floorlog 2 (nat a) - 1) \<le> nat a" "nat a < 2 ^ floorlog 2 (nat a)"
    using floorlog_bounds [of "nat a" 2] assms by simp_all
  moreover have "a = int (nat a)" using assms by simp
  ultimately have bounds: "2 ^ (floorlog 2 (nat a) - 1) \<le> a" "a < 2 ^ floorlog 2 (nat a)"
    by (metis of_nat_le_iff of_nat_numeral of_nat_power, metis of_nat_less_iff of_nat_numeral of_nat_power)
  have "(of_int (2 ^ (floorlog 2 (nat a) - 1)) :: rat) \<le> of_int a" using bounds(1) by (simp only: of_int_le_iff)
  with pos show "2 powi (int (floorlog 2 (nat a)) - 1) \<le> (of_int a :: rat)"
    by (simp add: power_int_def nat_diff_distrib)
  have "(of_int a :: rat) < of_int (2 ^ floorlog 2 (nat a))" using bounds(2) by (simp only: of_int_less_iff)
  then show "(of_int a :: rat) < 2 powi int (floorlog 2 (nat a))" by simp
qed

lemma floor_log2_bounds:
  assumes "0 < q"
  shows "2 powi floor_log2 q \<le> q" and "q < 2 powi (floor_log2 q + 1)"
proof -
  obtain a b where ab: "quotient_of q = (a, b)" by (cases "quotient_of q")
  have b: "0 < b" using ab quotient_of_denom_pos by blast
  have q: "q = of_int a / of_int b" using ab quotient_of_div by blast
  have a: "0 < a" using assms b by (simp add: q zero_less_divide_iff)
  define la lb where l: "la = floorlog 2 (nat a)" "lb = floorlog 2 (nat b)"
  define e where e: "e = int la - int lb"
  have A: "2 powi (int la - 1) \<le> (of_int a :: rat)" "(of_int a :: rat) < 2 powi int la"
    using nat_powi_bounds [OF a] by (simp_all only: l)
  have B: "2 powi (int lb - 1) \<le> (of_int b :: rat)" "(of_int b :: rat) < 2 powi int lb"
    using nat_powi_bounds [OF b] by (simp_all only: l)
  have "2 powi (e - 1) * of_int b \<le> (2 :: rat) powi (e - 1) * 2 powi int lb"
    using B(2) by (intro mult_left_mono) simp_all
  also have "\<dots> = 2 powi (int la - 1)" by (subst power_int_add [symmetric]) (simp_all add: e)
  also have "\<dots> \<le> of_int a" by (rule A(1))
  finally have low: "2 powi (e - 1) \<le> q" using b by (simp add: q field_simps)
  have "(of_int a :: rat) < 2 powi int la" by (rule A(2))
  also have "\<dots> = 2 powi (e + 1) * 2 powi (int lb - 1)" by (simp add: e power_int_add [symmetric])
  also have "\<dots> \<le> 2 powi (e + 1) * of_int b" using B(1) by (intro mult_left_mono) simp_all
  finally have high: "q < 2 powi (e + 1)" using b by (simp add: q field_simps)
  have "floor_log2 q = (if 2 powi e \<le> q then e else e - 1)"
    by (simp add: floor_log2_def ab e l Let_def)
  with low high show "2 powi floor_log2 q \<le> q" "q < 2 powi (floor_log2 q + 1)" by simp_all
qed

lemma floor_log2_mono:
  assumes "0 < x" "x \<le> y"
  shows "floor_log2 x \<le> floor_log2 y"
proof -
  have "2 powi floor_log2 x \<le> x" "y < 2 powi (floor_log2 y + 1)"
    using floor_log2_bounds [of x] floor_log2_bounds [of y] assms by simp_all
  with assms(2) have "(2 :: rat) powi floor_log2 x < 2 powi (floor_log2 y + 1)" by simp
  then have "\<not> floor_log2 y + 1 \<le> floor_log2 x" by (simp add: powi_le_cancel not_le [symmetric])
  then show ?thesis by simp
qed

lemma round_even_int [simp]: "round_even (of_int i) = i"
  by (simp add: round_even_def)

lemma round_even_nearest: "\<lfloor>x\<rfloor> \<le> round_even x" "round_even x \<le> \<lfloor>x\<rfloor> + 1"
  by (simp_all add: round_even_def Let_def)

lemma round_even_mono:
  assumes "x \<le> y"
  shows "round_even x \<le> round_even y"
proof (cases "\<lfloor>x\<rfloor> = \<lfloor>y\<rfloor>")
  case True
  with assms show ?thesis by (auto simp: round_even_def Let_def)
next
  case False
  with assms have "\<lfloor>x\<rfloor> + 1 \<le> \<lfloor>y\<rfloor>" using floor_mono [of x y] by simp
  then show ?thesis using round_even_nearest(2) [of x] round_even_nearest(1) [of y] by simp
qed

lemma powi_multiple:
  assumes "k \<le> e"
  shows "\<exists>i. (2 :: rat) powi e = of_int i * 2 powi k"
proof -
  have "(2 :: rat) powi e = 2 powi (e - k) * 2 powi k" by (simp add: power_int_add [symmetric])
  moreover have "(2 :: rat) powi (e - k) = of_int (2 ^ nat (e - k))" using assms by (simp add: power_int_def)
  ultimately show ?thesis by metis
qed

text \<open>A multiple of the last bit is a number: it rounds to itself, and rounding does not cross it.\<close>

lemma round_mag_multiple:
  assumes "0 < q" and "q = of_int i * 2 powi last_bit q"
  shows "round_mag q = q"
proof -
  have "q / 2 powi last_bit q = of_int i" using assms(2) by (simp add: field_simps)
  with assms show ?thesis by (simp add: round_mag_def Let_def)
qed

lemma round_mag_below:
  assumes "0 < q" "q \<le> p" "p = of_int i * 2 powi last_bit q"
  shows "round_mag q \<le> p"
proof -
  let ?u = "2 powi last_bit q :: rat"
  have "q / ?u \<le> of_int i" using assms by (simp add: field_simps)
  then have "round_even (q / ?u) \<le> i" using round_even_mono [of "q / ?u" "of_int i"] by simp
  then have "of_int (round_even (q / ?u)) * ?u \<le> of_int i * ?u" by (simp add: mult_right_mono)
  with assms show ?thesis by (simp add: round_mag_def Let_def)
qed

lemma round_mag_above:
  assumes "0 < q" "p \<le> q" "p = of_int i * 2 powi last_bit q"
  shows "p \<le> round_mag q"
proof -
  let ?u = "2 powi last_bit q :: rat"
  have "of_int i \<le> q / ?u" using assms by (simp add: field_simps)
  then have "i \<le> round_even (q / ?u)" using round_even_mono [of "of_int i" "q / ?u"] by simp
  then have "of_int i * ?u \<le> of_int (round_even (q / ?u)) * ?u" by (simp add: mult_right_mono)
  with assms show ?thesis by (simp add: round_mag_def Let_def)
qed

lemma round_mag_nonneg: "0 \<le> round_mag q"
proof (cases "0 < q")
  case True
  then show ?thesis using round_mag_above [of q 0 0] by simp
qed (simp add: round_mag_def)

lemma round_mag_zero [simp]: "round_mag 0 = 0"
  by (simp add: round_mag_def)

lemma round_mag_mono:
  assumes "x \<le> y"
  shows "round_mag x \<le> round_mag y"
proof (cases "0 < x")
  case False
  then show ?thesis using round_mag_nonneg by (simp add: round_mag_def)
next
  case True
  with assms have y: "0 < y" by simp
  show ?thesis
  proof (cases "last_bit x = last_bit y")
    case True
    have "x / 2 powi last_bit y \<le> y / 2 powi last_bit y" using assms by (simp add: divide_right_mono)
    then have "round_even (x / 2 powi last_bit y) \<le> round_even (y / 2 powi last_bit y)"
      by (rule round_even_mono)
    with \<open>0 < x\<close> y True show ?thesis by (simp add: round_mag_def Let_def mult_right_mono)
  next
    case False
    have "floor_log2 x \<le> floor_log2 y" using floor_log2_mono [OF \<open>0 < x\<close> assms] .
    with False have less: "floor_log2 x < floor_log2 y" "last_bit x \<le> floor_log2 y" "last_bit y \<le> floor_log2 y"
      by (auto simp: last_bit_def max_def split: if_splits)
    let ?p = "2 powi floor_log2 y :: rat"
    have p: "x \<le> ?p" "?p \<le> y"
    proof -
      have "x < 2 powi (floor_log2 x + 1)" using floor_log2_bounds [OF \<open>0 < x\<close>] by simp
      also have "\<dots> \<le> ?p" using less(1) by (simp add: powi_le_cancel)
      finally show "x \<le> ?p" by simp
      show "?p \<le> y" using floor_log2_bounds [OF y] by simp
    qed
    obtain i j where ij: "?p = of_int i * 2 powi last_bit x" "?p = of_int j * 2 powi last_bit y"
      using powi_multiple [OF less(2)] powi_multiple [OF less(3)] by blast
    have "round_mag x \<le> ?p" using \<open>0 < x\<close> p(1) ij(1) by (rule round_mag_below)
    also have "\<dots> \<le> round_mag y" using y p(2) ij(2) by (rule round_mag_above)
    finally show ?thesis .
  qed
qed

text \<open>A number of at most 53 bits whose last one is not below \<open>2 powi - 1074\<close> is exact.\<close>

lemma round_mag_exact:
  assumes "\<bar>i\<bar> \<le> 2 ^ 53" "- 1074 \<le> e" "q = of_int i * 2 powi e" "0 \<le> q"
  shows "round_mag q = q"
proof (cases "q = 0")
  case False
  with assms(4) have q: "0 < q" by simp
  show ?thesis
  proof (cases "\<bar>i\<bar> = 2 ^ 53")
    case True
    have i: "i = 2 ^ 53"
      using True q assms(3) by (auto simp: zero_less_mult_iff power_int_def abs_if split: if_splits)
    have q2: "q = 2 powi (e + 53)" by (simp add: assms(3) i power_int_add)
    have fl: "floor_log2 q = e + 53"
    proof -
      have "(2 :: rat) powi floor_log2 q \<le> 2 powi (e + 53)" "(2 :: rat) powi (e + 53) < 2 powi (floor_log2 q + 1)"
        using floor_log2_bounds [OF q] by (simp_all add: q2)
      then show ?thesis unfolding not_le [symmetric] powi_le_cancel by linarith
    qed
    obtain j where "q = of_int j * 2 powi last_bit q"
      using powi_multiple [of "last_bit q" "e + 53"] fl assms(2) by (auto simp: q2 last_bit_def)
    then show ?thesis by (rule round_mag_multiple [OF q])
  next
    case False
    have "q \<le> of_int \<bar>i\<bar> * 2 powi e" by (simp add: assms(3) mult_right_mono)
    also have "\<dots> < of_int (2 ^ 53) * 2 powi e"
      using False assms(1) by (intro mult_strict_right_mono) (simp_all only: of_int_less_iff, simp_all)
    also have "\<dots> = 2 powi (e + 53)" by (simp add: power_int_add)
    finally have "(2 :: rat) powi floor_log2 q < 2 powi (e + 53)" using floor_log2_bounds [OF q] by simp
    then have "floor_log2 q < e + 53" unfolding not_le [symmetric] powi_le_cancel .
    with assms(2) have "last_bit q \<le> e" by (simp add: last_bit_def)
    from powi_multiple [OF this] obtain j where j: "(2 :: rat) powi e = of_int j * 2 powi last_bit q" by blast
    have "q = of_int (i * j) * 2 powi last_bit q"
      using assms(3) j by (metis of_int_mult mult.assoc)
    then show ?thesis by (rule round_mag_multiple [OF q])
  qed
qed simp

lemma round_mag_of_nat: "n \<le> 2 ^ 53 \<Longrightarrow> round_mag (of_nat n) = of_nat n"
  by (rule round_mag_exact [where i = "int n" and e = 0]) simp_all

text \<open>Rounding of a given number: its highest bit and the nearest integer of last bits are enough.\<close>

lemma floor_log2_eqI:
  assumes "2 powi e \<le> q" "q < 2 powi (e + 1)"
  shows "floor_log2 q = e"
proof -
  have "0 < q" by (rule less_le_trans [OF _ assms(1)]) simp
  from floor_log2_bounds [OF this] assms
  have "(2 :: rat) powi floor_log2 q < 2 powi (e + 1)" "(2 :: rat) powi e < 2 powi (floor_log2 q + 1)"
    by simp_all
  then show ?thesis unfolding not_le [symmetric] powi_le_cancel by linarith
qed

lemma round_even_eqI: "2 * \<bar>x - of_int i\<bar> < 1 \<Longrightarrow> round_even x = i"
proof -
  assume near: "2 * \<bar>x - of_int i\<bar> < 1"
  then consider "\<lfloor>x\<rfloor> = i" | "\<lfloor>x\<rfloor> = i - 1"
    by (cases "of_int i \<le> x") (auto simp: floor_eq_iff abs_if split: if_splits)
  then show ?thesis using near by cases (auto simp: round_even_def Let_def abs_if split: if_splits)
qed

lemma round_mag_eqI:
  assumes "2 powi e \<le> q" "q < 2 powi (e + 1)" "- 1022 \<le> e" "2 * \<bar>q * 2 powi (52 - e) - of_int i\<bar> < 1"
  shows "round_mag q = of_int i * 2 powi (e - 52)"
proof -
  have "0 < q" by (rule less_le_trans [OF _ assms(1)]) simp
  moreover have "last_bit q = e - 52"
    using floor_log2_eqI [OF assms(1,2)] assms(3) by (simp add: last_bit_def)
  moreover have "q / 2 powi (e - 52) = q * 2 powi (52 - e)"
    using power_int_minus [of "2 :: rat" "e - 52"] by (simp add: divide_inverse)
  moreover have "round_even (q * 2 powi (52 - e)) = i" using assms(4) by (rule round_even_eqI)
  ultimately show ?thesis by (simp add: round_mag_def Let_def)
qed

section \<open>Facts the components use\<close>

lemma round_mag_power: "round_mag (2 ^ n) = 2 ^ n"
  by (rule round_mag_exact [where i = 1 and e = "int n"]) simp_all

lemma pack_finite: "m \<le> 2 ^ 200 \<Longrightarrow> pack neg m = Fin neg (round_mag m)"
proof -
  assume "m \<le> 2 ^ 200"
  then have "round_mag m \<le> round_mag (2 ^ 200)" by (rule round_mag_mono)
  also have "(round_mag (2 ^ 200) :: rat) < max_finite_bound" by (simp only: round_mag_power) (simp add: max_finite_bound_def)
  finally show ?thesis by (simp add: pack_def Let_def)
qed

lemma pack_small: "m \<le> 2 ^ 64 \<Longrightarrow> pack neg m = Fin neg (round_mag m)"
  by (rule pack_finite) simp

lemma f64_of_nat_exact: "n \<le> 2 ^ 53 \<Longrightarrow> f64_of_nat n = Fin False (of_nat n)"
proof -
  assume n: "n \<le> 2 ^ 53"
  then have "(of_nat n :: rat) \<le> of_nat (2 ^ 53)" by (simp only: of_nat_le_iff)
  also have "\<dots> \<le> 2 ^ 64" by simp
  finally show ?thesis
    using n by (simp add: f64_of_nat_def f64_of_def pack_small round_mag_of_nat)
qed

lemma f64_of_u64_exact: "unat n \<le> 2 ^ 53 \<Longrightarrow> f64_of_u64 n = Fin False (of_nat (unat n))"
  unfolding f64_of_u64_def by (rule f64_of_nat_exact)

lemma f64_of_u64_zero [simp]: "f64_of_u64 0 = Fin False 0"
  by (simp add: f64_of_u64_def f64_of_nat_exact)

lemma f64_to_u64_pos: "1 \<le> m \<Longrightarrow> 0 < f64_to_u64 (Fin False m)"
proof -
  assume m: "1 \<le> m"
  show ?thesis
  proof (cases "2 ^ 64 \<le> m")
    case False
    have "1 \<le> nat \<lfloor>m\<rfloor>" using m by (simp add: le_nat_iff)
    moreover have "nat \<lfloor>m\<rfloor> < 2 ^ 64" using False m by (simp add: nat_less_iff floor_less_iff)
    ultimately have "unat (of_nat (nat \<lfloor>m\<rfloor>) :: u64) = nat \<lfloor>m\<rfloor>"
      by (simp add: unsigned_of_nat take_bit_nat_eq_self)
    with \<open>1 \<le> nat \<lfloor>m\<rfloor>\<close> False m show ?thesis by (simp add: word_less_nat_alt)
  qed (simp add: u64_MAX_def)
qed

lemma f64_less_irrefl [simp]: "\<not> f64_less x x"
  by (cases x) simp_all

lemma f64_less_trans: "f64_less x y \<Longrightarrow> f64_less y z \<Longrightarrow> f64_less x z"
  by (cases x; cases y; cases z) auto

lemma f64_less_asym: "f64_less x y \<Longrightarrow> \<not> f64_less y x"
  using f64_less_trans by fastforce

text \<open>Every two numbers are comparable, except that a \<open>NaN\<close> compares with nothing.\<close>

lemma f64_trichotomy: "x \<noteq> FNaN \<Longrightarrow> y \<noteq> FNaN \<Longrightarrow> f64_less x y \<or> f64_eq x y \<or> f64_less y x"
  by (cases x; cases y) auto

lemma f64_le_def': "x \<noteq> FNaN \<Longrightarrow> y \<noteq> FNaN \<Longrightarrow> f64_le x y \<longleftrightarrow> \<not> f64_less y x"
  by (cases x; cases y) (auto simp: f64_le_def)

lemma fval_False [simp]: "fval False m = m" and fval_True [simp]: "fval True m = - m"
  by (simp_all add: fval_def)

end
