(* ===== verification/Wash_Trade.thy ===== *)
theory Wash_Trade
  imports Float64
begin

text \<open>
  Detection of wash trades (\<open>src/src/compliance/wash_trade.rs\<close>): the bounded history of fills of each
  symbol, the check of a new fill against the recent ones, and the search for patterns.

  The hash map of trackers is a HOL map, a deque a list with its front first. The callback is called
  with the alert \<open>record_fill\<close> returns and nothing else; its effects are outside of the detector.
\<close>

section \<open>Data\<close>

definition MAX_FILL_HISTORY_PER_SYMBOL :: nat where
  "MAX_FILL_HISTORY_PER_SYMBOL = 1000"

definition WASH_TRADE_WINDOW_MS :: u64 where
  "WASH_TRADE_WINDOW_MS = 300000"

datatype FillSide = BuyFill | SellFill

datatype LiquidityType = Maker | Taker

type_synonym fill_symbol = "u8 list"

record 'venue FillRecord =
  fr_fill_id :: u64
  fr_order_id :: u64
  fr_symbol :: fill_symbol
  fr_venue_id :: 'venue
  fr_side :: FillSide
  fr_price_ticks :: i64
  fr_quantity :: u64
  fr_timestamp_ns :: u64
  fr_liquidity_type :: LiquidityType
  fr_stp_group_id :: "u32 option"
  fr_strategy_id :: u32

datatype WashTradeSeverity = Low | Medium | High | Critical

record 'venue WashTradeAlert =
  wa_alert_id :: u64
  wa_symbol :: fill_symbol
  wa_venue_id :: 'venue
  wa_fill_pair :: "u64 \<times> u64"
  wa_time_diff_ms :: u64
  wa_matched_quantity :: u64
  wa_severity :: WashTradeSeverity
  wa_reason :: string
  wa_timestamp_ns :: u64

datatype WashPattern = SamePriceCrossing | CircularTrading | FlipFlopping | AccountMatching

section \<open>The history of a symbol\<close>

record 'venue SymbolFillTracker =
  ft_symbol :: fill_symbol
  ft_fills :: "'venue FillRecord list"
  ft_max_fills :: nat

definition ft_new :: "fill_symbol \<Rightarrow> nat \<Rightarrow> 'venue SymbolFillTracker" where
  "ft_new symb max_fills = \<lparr>ft_symbol = symb, ft_fills = [], ft_max_fills = max_fills\<rparr>"

definition ft_add_fill :: "'venue FillRecord \<Rightarrow> 'venue SymbolFillTracker \<Rightarrow> 'venue SymbolFillTracker" where
  "ft_add_fill fill t =
     (let t = (if ft_max_fills t \<le> length (ft_fills t) then t\<lparr>ft_fills := tl (ft_fills t)\<rparr> else t)
      in t\<lparr>ft_fills := ft_fills t @ [fill]\<rparr>)"

definition ft_get_recent_fills :: "u64 \<Rightarrow> u64 \<Rightarrow> 'venue SymbolFillTracker \<Rightarrow> 'venue FillRecord list" where
  "ft_get_recent_fills window_ms current_time_ns t =
     (let window_ns = window_ms * 1000000;
          cutoff = u64_sat_sub current_time_ns window_ns
      in filter (\<lambda>f. cutoff \<le> fr_timestamp_ns f) (ft_fills t))"

definition ft_clear_old :: "u64 \<Rightarrow> u64 \<Rightarrow> 'venue SymbolFillTracker \<Rightarrow> 'venue SymbolFillTracker" where
  "ft_clear_old max_age_ms current_time_ns t =
     (let cutoff = u64_sat_sub current_time_ns (max_age_ms * 1000000)
      in t\<lparr>ft_fills := dropWhile (\<lambda>f. fr_timestamp_ns f < cutoff) (ft_fills t)\<rparr>)"

section \<open>The detector\<close>

record 'venue WashTradeDetector =
  wd_symbol_trackers :: "fill_symbol \<rightharpoonup> 'venue SymbolFillTracker"
  wd_alert_counter :: u64
  wd_fills_processed :: u64
  wd_wash_trades_detected :: u64
  wd_enabled :: bool
  wd_max_fill_age_ms :: u64
  wd_min_quantity_ratio :: f64

definition wd_new :: "'venue WashTradeDetector" where
  "wd_new =
     \<lparr>wd_symbol_trackers = Map.empty, wd_alert_counter = 0, wd_fills_processed = 0,
      wd_wash_trades_detected = 0, wd_enabled = True, wd_max_fill_age_ms = WASH_TRADE_WINDOW_MS,
      wd_min_quantity_ratio = f64_lit (8 / 10)\<rparr>"

definition same_stp_group :: "'venue FillRecord \<Rightarrow> 'venue FillRecord \<Rightarrow> bool" where
  "same_stp_group existing_fill new_fill =
     (case (fr_stp_group_id existing_fill, fr_stp_group_id new_fill) of
        (Some a, Some b) \<Rightarrow> a = b | _ \<Rightarrow> False)"

definition qty_ratio :: "'venue FillRecord \<Rightarrow> 'venue FillRecord \<Rightarrow> f64" where
  "qty_ratio existing_fill new_fill =
     f64_min (f64_div (f64_of_u64 (fr_quantity existing_fill)) (f64_of_u64 (fr_quantity new_fill)))
       (f64_div (f64_of_u64 (fr_quantity new_fill)) (f64_of_u64 (fr_quantity existing_fill)))"

text \<open>The body of the loop up to its last \<open>continue\<close>: whether the pair raises an alert.\<close>

definition wash_pair :: "f64 \<Rightarrow> 'venue FillRecord \<Rightarrow> 'venue FillRecord \<Rightarrow> bool" where
  "wash_pair min_quantity_ratio new_fill existing_fill =
     (if fr_fill_id existing_fill = fr_fill_id new_fill then False
      else if fr_side existing_fill = fr_side new_fill then False
      else if fr_venue_id existing_fill \<noteq> fr_venue_id new_fill then False
      else if f64_less (qty_ratio existing_fill new_fill) min_quantity_ratio then False
      else True)"

definition wash_severity :: "bool \<Rightarrow> u64 \<Rightarrow> WashTradeSeverity" where
  "wash_severity same_group time_diff_ms =
     (if same_group then Critical
      else if time_diff_ms < 100 then High
      else if time_diff_ms < 1000 then Medium
      else Low)"

definition wash_reason :: "bool \<Rightarrow> bool \<Rightarrow> u64 \<Rightarrow> string" where
  "wash_reason same_group same_price time_diff_ms =
     (if same_group then ''Same STP group self-match''
      else if same_price then ''Same price crossing''
      else if time_diff_ms < 100 then ''Rapid flip-flop pattern''
      else ''Potential wash trade pattern'')"

definition wash_alert ::
    "u64 \<Rightarrow> u64 \<Rightarrow> 'venue FillRecord \<Rightarrow> 'venue FillRecord \<Rightarrow> 'venue WashTradeAlert" where
  "wash_alert alert_id current_time_ns new_fill existing_fill =
     (let same_group = same_stp_group existing_fill new_fill;
          time_diff_ns = u64_sat_sub current_time_ns (fr_timestamp_ns existing_fill);
          time_diff_ms = time_diff_ns div 1000000
      in \<lparr>wa_alert_id = alert_id, wa_symbol = fr_symbol new_fill, wa_venue_id = fr_venue_id new_fill,
          wa_fill_pair = (fr_fill_id existing_fill, fr_fill_id new_fill), wa_time_diff_ms = time_diff_ms,
          wa_matched_quantity = min (fr_quantity existing_fill) (fr_quantity new_fill),
          wa_severity = wash_severity same_group time_diff_ms,
          wa_reason = wash_reason same_group (fr_price_ticks existing_fill = fr_price_ticks new_fill) time_diff_ms,
          wa_timestamp_ns = current_time_ns\<rparr>)"

definition wd_check_wash_trade ::
    "'venue FillRecord \<Rightarrow> u64 \<Rightarrow> 'venue WashTradeDetector \<Rightarrow> 'venue WashTradeAlert option \<times> 'venue WashTradeDetector"
  where
  "wd_check_wash_trade new_fill current_time_ns d =
     (case wd_symbol_trackers d (fr_symbol new_fill) of
        None \<Rightarrow> (None, d)
      | Some tracker \<Rightarrow>
          (case find (wash_pair (wd_min_quantity_ratio d) new_fill)
                  (ft_get_recent_fills (wd_max_fill_age_ms d) current_time_ns tracker) of
             None \<Rightarrow> (None, d)
           | Some existing_fill \<Rightarrow>
               (Some (wash_alert (wd_alert_counter d) current_time_ns new_fill existing_fill),
                d\<lparr>wd_alert_counter := wd_alert_counter d + 1\<rparr>)))"

definition wd_track :: "'venue FillRecord \<Rightarrow> 'venue WashTradeDetector \<Rightarrow> 'venue WashTradeDetector" where
  "wd_track fill d =
     (let tracker = (case wd_symbol_trackers d (fr_symbol fill) of
                       Some t \<Rightarrow> t | None \<Rightarrow> ft_new (fr_symbol fill) MAX_FILL_HISTORY_PER_SYMBOL)
      in d\<lparr>wd_symbol_trackers := (wd_symbol_trackers d)(fr_symbol fill \<mapsto> ft_add_fill fill tracker)\<rparr>)"

definition wd_record_fill ::
    "'venue FillRecord \<Rightarrow> 'venue WashTradeDetector \<Rightarrow> 'venue WashTradeAlert option \<times> 'venue WashTradeDetector" where
  "wd_record_fill fill d =
     (if \<not> wd_enabled d then (None, d)
      else let d = d\<lparr>wd_fills_processed := wd_fills_processed d + 1\<rparr>;
               d = wd_track fill d
           in case wd_check_wash_trade fill (fr_timestamp_ns fill) d of
                (Some alert, d) \<Rightarrow>
                  (Some alert, d\<lparr>wd_wash_trades_detected := wd_wash_trades_detected d + 1\<rparr>)
              | (None, d) \<Rightarrow> (None, d))"

text \<open>The two searches for patterns; a pair of indices contributes to a count when it qualifies.\<close>

definition fill_gap_ms :: "'venue FillRecord \<Rightarrow> 'venue FillRecord \<Rightarrow> u64" where
  "fill_gap_ms later earlier = u64_sat_sub (fr_timestamp_ns later) (fr_timestamp_ns earlier) div 1000000"

definition count_alternations :: "'venue FillRecord list \<Rightarrow> nat" where
  "count_alternations fills =
     length (filter (\<lambda>i. fr_side (fills ! i) \<noteq> fr_side (fills ! (i - 1)) \<and>
                         fill_gap_ms (fills ! i) (fills ! (i - 1)) < 500)
               [1 ..< min (length fills) 10])"

definition count_same_price :: "u64 \<Rightarrow> 'venue FillRecord list \<Rightarrow> nat" where
  "count_same_price max_age_ms fills =
     length (filter (\<lambda>(i, j). fr_side (fills ! i) \<noteq> fr_side (fills ! j) \<and>
                              fr_price_ticks (fills ! i) = fr_price_ticks (fills ! j) \<and>
                              fill_gap_ms (fills ! j) (fills ! i) < max_age_ms)
               [(i, j). i \<leftarrow> [0 ..< length fills], j \<leftarrow> [i + 1 ..< length fills]])"

definition wd_analyze_patterns :: "fill_symbol \<Rightarrow> 'venue WashTradeDetector \<Rightarrow> WashPattern list" where
  "wd_analyze_patterns symb d =
     (case wd_symbol_trackers d symb of
        None \<Rightarrow> []
      | Some tracker \<Rightarrow>
          let fills = ft_fills tracker
          in if length fills < 3 then []
             else (if 4 \<le> count_alternations fills then [FlipFlopping] else []) @
                  (if 2 \<le> count_same_price (wd_max_fill_age_ms d) fills then [SamePriceCrossing] else []))"

record WashTradeStats =
  wts_fills_processed :: u64
  wts_wash_trades_detected :: u64
  wts_symbols_tracked :: u64

definition wd_get_stats :: "'venue WashTradeDetector \<Rightarrow> WashTradeStats" where
  "wd_get_stats d =
     \<lparr>wts_fills_processed = wd_fills_processed d, wts_wash_trades_detected = wd_wash_trades_detected d,
      wts_symbols_tracked = of_nat (card (dom (wd_symbol_trackers d)))\<rparr>"

definition wd_set_enabled :: "bool \<Rightarrow> 'venue WashTradeDetector \<Rightarrow> 'venue WashTradeDetector" where
  "wd_set_enabled enabled d = d\<lparr>wd_enabled := enabled\<rparr>"

definition wd_cleanup_old_fills :: "u64 \<Rightarrow> 'venue WashTradeDetector \<Rightarrow> 'venue WashTradeDetector" where
  "wd_cleanup_old_fills now d =
     d\<lparr>wd_symbol_trackers := (\<lambda>symb. map_option (ft_clear_old (wd_max_fill_age_ms d * 2) now)
                                     (wd_symbol_trackers d symb))\<rparr>"

definition wd_get_recent_alerts :: "fill_symbol \<Rightarrow> nat \<Rightarrow> 'venue WashTradeDetector \<Rightarrow> 'venue WashTradeAlert list" where
  "wd_get_recent_alerts symb limit d = []"

section \<open>The quantities match within a fifth\<close>

text \<open>Rounding separates every quotient below four fifths from the literal \<open>0.8\<close>.\<close>

lemma round_four_fifths: "round_mag (4 / 5) = 3602879701896397 / 4503599627370496"
  by (simp add: round_mag_eqI [where e = "-1" and i = 7205759403792794])

lemma round_below_four_fifths: "round_mag (4 / 5 - 1 / (5 * 2 ^ 53)) = 7205759403792793 / 9007199254740992"
  by (simp add: round_mag_eqI [where e = "-1" and i = 7205759403792793])

lemma ratio_below_exact:
  assumes "0 < b" "b \<le> 2 ^ 53"
  shows "round_mag (of_nat a / of_nat b) < round_mag (4 / 5) \<longleftrightarrow> 5 * a < 4 * b"
proof
  assume "5 * a < 4 * b"
  then have "(of_nat (5 * a + 1) :: rat) \<le> of_nat (4 * b)" by (simp only: of_nat_le_iff)
  then have "(of_nat a :: rat) / of_nat b \<le> 4 / 5 - 1 / (5 * of_nat b)"
    using assms(1) by (simp add: field_simps)
  also have "\<dots> \<le> 4 / 5 - 1 / (5 * 2 ^ 53)"
  proof -
    have "(of_nat b :: rat) \<le> of_nat (2 ^ 53)" using assms(2) by (simp only: of_nat_le_iff)
    then show ?thesis using assms(1) by (simp add: field_simps)
  qed
  finally have "round_mag (of_nat a / of_nat b) \<le> round_mag (4 / 5 - 1 / (5 * 2 ^ 53))" by (rule round_mag_mono)
  also have "\<dots> < round_mag (4 / 5)" unfolding round_four_fifths round_below_four_fifths by simp
  finally show "round_mag (of_nat a / of_nat b) < round_mag (4 / 5)" .
next
  assume less: "round_mag (of_nat a / of_nat b) < round_mag (4 / 5)"
  show "5 * a < 4 * b"
  proof (rule ccontr)
    assume "\<not> 5 * a < 4 * b"
    then have "(of_nat (4 * b) :: rat) \<le> of_nat (5 * a)" by (simp only: of_nat_le_iff not_less)
    then have "4 / 5 \<le> (of_nat a / of_nat b :: rat)" using assms(1) by (simp add: field_simps)
    from round_mag_mono [OF this] less show False by simp
  qed
qed

definition sized_fill :: "'venue FillRecord \<Rightarrow> bool" where
  "sized_fill f \<longleftrightarrow> unat (fr_quantity f) \<le> 2 ^ 53"

lemma f64_div_nat:
  assumes "0 < b" "a \<le> 2 ^ 53"
  shows "f64_div (Fin False (of_nat a)) (Fin False (of_nat b)) = Fin False (round_mag (of_nat a / of_nat b))"
proof -
  have "(of_nat a :: rat) * 1 \<le> of_nat a * of_nat b" using assms(1) by (intro mult_left_mono) simp_all
  then have "(of_nat a :: rat) / of_nat b \<le> of_nat a" using assms(1) by (simp add: field_simps)
  also have "(of_nat a :: rat) \<le> of_nat (2 ^ 53)" using assms(2) by (simp only: of_nat_le_iff)
  also have "\<dots> \<le> 2 ^ 64" by simp
  finally show ?thesis using assms(1) by (simp add: pack_small)
qed

text \<open>
  A ratio with one empty fill is zero, one of two empty fills is not a number and below nothing. Both agree
  with the comparison of integers.
\<close>

lemma qty_ratio_empty:
  assumes "sized_fill e" "sized_fill f" "fr_quantity e = 0 \<or> fr_quantity f = 0"
  shows "f64_less (qty_ratio e f) (Fin False r) \<longleftrightarrow> \<not> (fr_quantity e = 0 \<and> fr_quantity f = 0) \<and> 0 < r"
proof -
  have zero: "pack False 0 = Fin False 0" using pack_small [of 0 False] by simp
  show ?thesis
    using assms by (auto simp: qty_ratio_def f64_min_def sized_fill_def f64_of_u64_exact zero unat_eq_0 simp del: of_nat_unat)
qed

lemma quantity_match_exact:
  assumes "sized_fill e" "sized_fill f"
  shows "f64_less (qty_ratio e f) (f64_lit (8 / 10)) \<longleftrightarrow>
    5 * min (unat (fr_quantity e)) (unat (fr_quantity f)) < 4 * max (unat (fr_quantity e)) (unat (fr_quantity f))"
proof (cases "fr_quantity e = 0 \<or> fr_quantity f = 0")
  case True
  have lit: "f64_lit (4 / 5) = Fin False (round_mag (4 / 5))"
    by (simp add: f64_lit_def f64_of_def pack_small)
  have "0 < (round_mag (4 / 5) :: rat)"
    using ratio_below_exact [of 1 0] by simp
  with True qty_ratio_empty [OF assms True, of "round_mag (4 / 5)"] show ?thesis
    by (auto simp: lit unat_gt_0 unat_eq_0)
next
  case False
  let ?a = "unat (fr_quantity e)" and ?b = "unat (fr_quantity f)"
  have ab: "0 < ?a" "0 < ?b" "?a \<le> 2 ^ 53" "?b \<le> 2 ^ 53"
    using False assms by (simp_all add: sized_fill_def unat_gt_0)
  have lit: "f64_lit (4 / 5) = Fin False (round_mag (4 / 5))"
    by (simp add: f64_lit_def f64_of_def pack_small)
  have "qty_ratio e f = f64_min (Fin False (round_mag (of_nat ?a / of_nat ?b)))
      (Fin False (round_mag (of_nat ?b / of_nat ?a)))"
    using ab f64_div_nat [of ?b ?a] f64_div_nat [of ?a ?b]
    by (simp add: qty_ratio_def f64_of_u64_exact del: of_nat_unat)
  then have "f64_less (qty_ratio e f) (f64_lit (8 / 10)) \<longleftrightarrow>
      round_mag (of_nat ?a / of_nat ?b) < round_mag (4 / 5) \<or> round_mag (of_nat ?b / of_nat ?a) < round_mag (4 / 5)"
    by (auto simp: lit f64_min_def)
  also have "\<dots> \<longleftrightarrow> 5 * ?a < 4 * ?b \<or> 5 * ?b < 4 * ?a"
    using ab ratio_below_exact [of ?b ?a] ratio_below_exact [of ?a ?b] by simp
  also have "\<dots> \<longleftrightarrow> 5 * min ?a ?b < 4 * max ?a ?b" using ab by (auto simp: min_def max_def)
  finally show ?thesis .
qed

section \<open>Alerts\<close>

text \<open>The last \<open>n\<close> elements of a list, and the bounded history as these.\<close>

definition recent :: "nat \<Rightarrow> 'a list \<Rightarrow> 'a list" where
  "recent n xs = drop (length xs - n) xs"

lemma recent_snoc:
  "0 < n \<Longrightarrow> recent n (xs @ [x]) =
     (if n \<le> length (recent n xs) then tl (recent n xs) else recent n xs) @ [x]"
  by (auto simp: recent_def drop_Suc [symmetric] tl_drop Suc_diff_le)

lemma ft_add_fill_recent:
  assumes "ft_fills t = recent (ft_max_fills t) fs" "0 < ft_max_fills t"
  shows "ft_fills (ft_add_fill f t) = recent (ft_max_fills t) (fs @ [f])"
    and "ft_max_fills (ft_add_fill f t) = ft_max_fills t"
  using assms by (simp_all add: ft_add_fill_def recent_snoc Let_def)

text \<open>The history the detector has of a symbol after it recorded the fills \<open>fs\<close>.\<close>

definition symbol_history :: "fill_symbol \<Rightarrow> 'venue FillRecord list \<Rightarrow> 'venue FillRecord list" where
  "symbol_history symb fs = recent MAX_FILL_HISTORY_PER_SYMBOL (filter (\<lambda>f. fr_symbol f = symb) fs)"

definition wd_tracks :: "'venue FillRecord list \<Rightarrow> 'venue WashTradeDetector \<Rightarrow> bool" where
  "wd_tracks fs d \<longleftrightarrow>
     wd_enabled d \<and> wd_max_fill_age_ms d = WASH_TRADE_WINDOW_MS \<and> wd_min_quantity_ratio d = f64_lit (8 / 10) \<and>
     (\<forall>symb. case wd_symbol_trackers d symb of
        None \<Rightarrow> filter (\<lambda>f. fr_symbol f = symb) fs = []
      | Some t \<Rightarrow> ft_max_fills t = MAX_FILL_HISTORY_PER_SYMBOL \<and> ft_fills t = symbol_history symb fs)"

lemma wd_tracks_new: "wd_tracks [] wd_new"
  by (simp add: wd_tracks_def wd_new_def)

lemma wd_tracks_track:
  assumes "wd_tracks fs d"
  shows "wd_tracks (fs @ [f]) (wd_track f d)"
    and "\<exists>t. wd_symbol_trackers (wd_track f d) (fr_symbol f) = Some t \<and>
           ft_fills t = symbol_history (fr_symbol f) (fs @ [f])"
proof -
  define t where "t = (case wd_symbol_trackers d (fr_symbol f) of
      Some t \<Rightarrow> t | None \<Rightarrow> ft_new (fr_symbol f) MAX_FILL_HISTORY_PER_SYMBOL)"
  have "ft_max_fills t = MAX_FILL_HISTORY_PER_SYMBOL \<and> ft_fills t = symbol_history (fr_symbol f) fs"
    using assms [unfolded wd_tracks_def, THEN conjunct2, THEN conjunct2, THEN conjunct2, rule_format, of "fr_symbol f"]
    by (auto simp: t_def ft_new_def symbol_history_def recent_def split: option.splits)
  then have added: "ft_max_fills (ft_add_fill f t) = MAX_FILL_HISTORY_PER_SYMBOL"
      "ft_fills (ft_add_fill f t) = symbol_history (fr_symbol f) (fs @ [f])"
    using ft_add_fill_recent [of t "filter (\<lambda>g. fr_symbol g = fr_symbol f) fs" f]
    by (simp_all add: symbol_history_def MAX_FILL_HISTORY_PER_SYMBOL_def)
  have map: "wd_symbol_trackers (wd_track f d) = (wd_symbol_trackers d)(fr_symbol f \<mapsto> ft_add_fill f t)"
    by (simp add: wd_track_def t_def Let_def)
  have same: "symbol_history symb (fs @ [f]) = symbol_history symb fs" if "symb \<noteq> fr_symbol f" for symb
    using that by (simp add: symbol_history_def)
  show "wd_tracks (fs @ [f]) (wd_track f d)"
    unfolding wd_tracks_def
  proof (intro conjI allI)
    fix symb
    show "case wd_symbol_trackers (wd_track f d) symb of
        None \<Rightarrow> filter (\<lambda>f. fr_symbol f = symb) (fs @ [f]) = []
      | Some t \<Rightarrow> ft_max_fills t = MAX_FILL_HISTORY_PER_SYMBOL \<and> ft_fills t = symbol_history symb (fs @ [f])"
      using assms added same [of symb] by (auto simp: wd_tracks_def map dest: spec [of _ symb] split: option.splits)
  qed (use assms in \<open>simp_all add: wd_track_def wd_tracks_def Let_def\<close>)
  show "\<exists>t. wd_symbol_trackers (wd_track f d) (fr_symbol f) = Some t \<and>
      ft_fills t = symbol_history (fr_symbol f) (fs @ [f])"
    using added by (simp add: map)
qed

lemma wd_tracks_count: "wd_tracks fs d \<Longrightarrow> wd_tracks fs (d\<lparr>wd_fills_processed := n\<rparr>)"
  by (simp add: wd_tracks_def)

lemma wd_tracks_checked: "wd_tracks fs d \<Longrightarrow> wd_tracks fs (snd (wd_check_wash_trade f now d))"
  by (auto simp: wd_check_wash_trade_def wd_tracks_def split: option.split)

lemma wd_tracks_detected: "wd_tracks fs d \<Longrightarrow> wd_tracks fs (d\<lparr>wd_wash_trades_detected := n\<rparr>)"
  by (simp add: wd_tracks_def)

lemma wd_tracks_record: "wd_tracks fs d \<Longrightarrow> wd_tracks (fs @ [f]) (snd (wd_record_fill f d))"
proof -
  assume d: "wd_tracks fs d"
  let ?d = "wd_track f (d\<lparr>wd_fills_processed := wd_fills_processed d + 1\<rparr>)"
  have checked: "wd_tracks (fs @ [f]) (snd (wd_check_wash_trade f (fr_timestamp_ns f) ?d))"
    by (intro wd_tracks_checked wd_tracks_track(1) wd_tracks_count d)
  obtain r d' where "wd_check_wash_trade f (fr_timestamp_ns f) ?d = (r, d')"
    by (cases "wd_check_wash_trade f (fr_timestamp_ns f) ?d")
  with checked d wd_tracks_detected show ?thesis
    by (cases r) (auto simp: wd_record_fill_def Let_def wd_tracks_def [of fs])
qed

lemma wd_tracks_run: "wd_tracks fs d \<Longrightarrow> wd_tracks (fs @ gs) (run (\<lambda>g d. snd (wd_record_fill g d)) gs d)"
proof (induction gs arbitrary: fs d)
  case (Cons g gs)
  from Cons.IH [OF wd_tracks_record [OF Cons.prems, of g]] show ?case by simp
qed simp

text \<open>Two fills that look like a trade of the bot with itself, in exact arithmetic.\<close>

definition wash_crosses :: "'venue FillRecord \<Rightarrow> 'venue FillRecord \<Rightarrow> bool" where
  "wash_crosses f e \<longleftrightarrow>
     fr_fill_id e \<noteq> fr_fill_id f \<and> fr_side e \<noteq> fr_side f \<and> fr_venue_id e = fr_venue_id f \<and>
     unat (fr_timestamp_ns f) \<le> unat (fr_timestamp_ns e) + 300000000000 \<and>
     4 * max (unat (fr_quantity e)) (unat (fr_quantity f)) \<le> 5 * min (unat (fr_quantity e)) (unat (fr_quantity f))"

lemma find_filter: "find P (filter Q xs) = find (\<lambda>x. Q x \<and> P x) xs"
  by (induction xs) auto

lemma wash_pair_exact:
  assumes "sized_fill e" "sized_fill f"
  shows "u64_sat_sub (fr_timestamp_ns f) (WASH_TRADE_WINDOW_MS * 1000000) \<le> fr_timestamp_ns e \<and>
      wash_pair (f64_lit (8 / 10)) f e \<longleftrightarrow> wash_crosses f e"
proof -
  have "unat (u64_sat_sub (fr_timestamp_ns f) (WASH_TRADE_WINDOW_MS * 1000000)) = unat (fr_timestamp_ns f) - 300000000000"
    by (simp add: u64_simps WASH_TRADE_WINDOW_MS_def)
  then have "u64_sat_sub (fr_timestamp_ns f) (WASH_TRADE_WINDOW_MS * 1000000) \<le> fr_timestamp_ns e \<longleftrightarrow>
      unat (fr_timestamp_ns f) \<le> unat (fr_timestamp_ns e) + 300000000000"
    unfolding word_le_nat_alt by linarith
  then show ?thesis
    unfolding wash_pair_def quantity_match_exact [OF assms] wash_crosses_def by auto
qed

text \<open>
  C13: The detector finds every wash trade of the last 1000 fills, and nothing else. After any fills of
  quantities up to \<open>2 ^ 53\<close>, which floating-point numbers hold exactly, a new fill of such a quantity raises
  an alert exactly when among the last 1000 fills of its symbol there is one of another id on the other side
  of the same venue, at most five minutes old, with quantities within a fifth of each other in exact
  arithmetic (two fills of quantity zero count as equal); and the alert names the oldest of these.
\<close>

theorem wash_alert_exact:
  assumes "list_all sized_fill (fs @ [f])" and "d = run (\<lambda>g d. snd (wd_record_fill g d)) fs wd_new"
  shows "fst (wd_record_fill f d) =
    map_option (wash_alert (wd_alert_counter d) (fr_timestamp_ns f) f)
      (find (wash_crosses f) (symbol_history (fr_symbol f) (fs @ [f])))"
proof -
  have d: "wd_tracks fs d" using wd_tracks_run [OF wd_tracks_new, of fs] by (simp add: assms(2))
  let ?d = "wd_track f (d\<lparr>wd_fills_processed := wd_fills_processed d + 1\<rparr>)"
  obtain t where t: "wd_symbol_trackers ?d (fr_symbol f) = Some t"
      "ft_fills t = symbol_history (fr_symbol f) (fs @ [f])"
    using wd_tracks_track(2) [OF wd_tracks_count [OF d]] by blast
  have "set (symbol_history (fr_symbol f) (fs @ [f])) \<subseteq> set (fs @ [f])"
    unfolding symbol_history_def recent_def by (rule subset_trans [OF set_drop_subset]) auto
  then have "find (\<lambda>e. u64_sat_sub (fr_timestamp_ns f) (WASH_TRADE_WINDOW_MS * 1000000) \<le> fr_timestamp_ns e \<and>
        wash_pair (f64_lit (8 / 10)) f e) (ft_fills t) =
      find (wash_crosses f) (symbol_history (fr_symbol f) (fs @ [f]))"
    unfolding t(2) using assms(1) by (intro find_cong refl wash_pair_exact) (auto simp: list_all_iff)
  moreover have "wd_enabled d" "wd_max_fill_age_ms ?d = WASH_TRADE_WINDOW_MS" "wd_min_quantity_ratio ?d = f64_lit (8 / 10)"
    "wd_alert_counter ?d = wd_alert_counter d"
    using d by (simp_all add: wd_tracks_def wd_track_def Let_def)
  ultimately show ?thesis
    using t(1) by (auto simp: wd_record_fill_def wd_check_wash_trade_def ft_get_recent_fills_def find_filter Let_def
        split: option.split)
qed

definition example_fill :: "u64 \<Rightarrow> FillSide \<Rightarrow> u64 \<Rightarrow> u64 \<Rightarrow> unit FillRecord" where
  "example_fill fill_id side qty ts =
     \<lparr>fr_fill_id = fill_id, fr_order_id = fill_id, fr_symbol = [65, 65], fr_venue_id = (), fr_side = side,
      fr_price_ticks = 15000, fr_quantity = qty, fr_timestamp_ns = ts, fr_liquidity_type = Taker,
      fr_stp_group_id = Some 1, fr_strategy_id = 1\<rparr>"

theorem wash_alert_exact_witness:
  "map_option wa_fill_pair (fst (wd_record_fill (example_fill 3 SellFill 100 1000050000000)
     (run (\<lambda>g d. snd (wd_record_fill g d))
       [example_fill 1 BuyFill 79 1000000000000, example_fill 2 BuyFill 80 1000000000000] wd_new))) = Some (2, 3)"
proof -
  have "list_all sized_fill ([example_fill 1 BuyFill 79 1000000000000, example_fill 2 BuyFill 80 1000000000000] @
      [example_fill 3 SellFill 100 1000050000000])"
    by (simp add: sized_fill_def example_fill_def)
  from wash_alert_exact [OF this refl] show ?thesis
    by (simp add: symbol_history_def recent_def MAX_FILL_HISTORY_PER_SYMBOL_def wash_crosses_def wash_alert_def
        example_fill_def Let_def option.map_comp o_def)
qed

text \<open>Two fills without quantity are a pair: the ratio is not a number, and no comparison with it holds.\<close>

lemma empty_fills_match:
  "fr_quantity e = 0 \<Longrightarrow> fr_quantity f = 0 \<Longrightarrow> \<not> f64_less (qty_ratio e f) r"
  by (simp add: qty_ratio_def f64_min_def)

text \<open>A fill that comes with an earlier time than those before it is compared with all of them.\<close>

lemma late_fill_in_window:
  "fr_timestamp_ns f \<le> fr_timestamp_ns e \<Longrightarrow> e \<in> set (ft_fills t) \<Longrightarrow>
     e \<in> set (ft_get_recent_fills w (fr_timestamp_ns f) t)"
  by (auto simp: ft_get_recent_fills_def u64_sat_sub_def word_le_nat_alt unat_sub_if' Let_def not_less)

text \<open>The number of alerts is the number of wash trades reported.\<close>

lemma alerts_counted:
  "wd_alert_counter d = wd_wash_trades_detected d \<Longrightarrow>
     wd_alert_counter (snd (wd_record_fill f d)) = wd_wash_trades_detected (snd (wd_record_fill f d))"
  by (auto simp: wd_record_fill_def wd_check_wash_trade_def wd_track_def Let_def split: option.split)

end
