(* ===== verification/Compliance.thy ===== *)
theory Compliance
  imports Self_Trade Wash_Trade "HOL-Library.AList"
begin

text \<open>
  The compliance manager (\<open>src/src/compliance/stp_mod.rs\<close>): tags of outbound orders, the check of an order
  by the STP engine of its venue, and the detector of wash trades.

  The engines are shared by reference and changed in place: a change goes to the first entry of the
  venue, the one every lookup finds. \<open>VenueId\<close> is not defined in the repository; its three constants the
  code names are arguments.
\<close>

section \<open>Tags\<close>

datatype ExpirationFlag = Day | Gtc | Ioc | Fok | Session

definition ef_from_u8 :: "u8 \<Rightarrow> ExpirationFlag" where
  "ef_from_u8 val =
     (if val = 0 then Day else if val = 1 then Gtc else if val = 2 then Ioc else if val = 3 then Fok
      else if val = 4 then Session else Day)"

definition ef_to_u8 :: "ExpirationFlag \<Rightarrow> u8" where
  "ef_to_u8 f = (case f of Day \<Rightarrow> 0 | Gtc \<Rightarrow> 1 | Ioc \<Rightarrow> 2 | Fok \<Rightarrow> 3 | Session \<Rightarrow> 4)"

record ComplianceTag =
  ct_stp_group_id :: StpGroupId
  ct_expiration_flag :: ExpirationFlag
  ct_strategy_id :: u32
  ct_compliance_version :: u8

text \<open>\<open>fxhash\<close>: both functions fold the bytes; a string is its bytes.\<close>

definition hash_byte :: "u8 \<Rightarrow> u64 \<Rightarrow> u64" where
  "hash_byte byte hash = xor (word_rotl 5 hash) (ucast byte * 0x517cc1b727220a95)"

definition hash_bytes :: "u8 list \<Rightarrow> u64" where
  "hash_bytes bytes = fold hash_byte bytes 0x517cc1b727220a95"

section \<open>The manager\<close>

datatype 'venue ComplianceViolation =
    SelfTradePrevention StpAction "u64 list"
  | WashTradeDetected "'venue WashTradeAlert"
  | Rejected string

record 'venue ComplianceManager =
  cm_stp_engines :: "('venue \<times> 'venue StpEngine) list"
  cm_wash_detector :: "'venue WashTradeDetector"
  cm_strategy_counter :: u32
  cm_enabled :: bool
  cm_orders_tagged :: u64
  cm_violations_detected :: u64

definition esc_for_venue :: "'venue \<Rightarrow> 'venue \<Rightarrow> 'venue \<Rightarrow> 'venue \<Rightarrow> 'venue ExchangeStpConfig" where
  "esc_for_venue nasdaq nyse binance venue_id =
     (if venue_id = nasdaq then esc_nasdaq nasdaq
      else if venue_id = nyse then esc_nyse nyse
      else if venue_id = binance then esc_binance binance
      else \<lparr>esc_venue_id = venue_id, esc_supported_actions = [CancelAggressive],
            esc_default_action = CancelAggressive, esc_supports_group_ids = True, esc_max_groups = 100\<rparr>)"

definition cmp_new :: "('venue \<Rightarrow> 'venue ExchangeStpConfig) \<Rightarrow> 'venue list \<Rightarrow> 'venue ComplianceManager" where
  "cmp_new for_venue venues =
     \<lparr>cm_stp_engines = map (\<lambda>v. (v, se_new v (esc_default_action (for_venue v)))) venues,
      cm_wash_detector = wd_new, cm_strategy_counter = 1, cm_enabled = True, cm_orders_tagged = 0,
      cm_violations_detected = 0\<rparr>"

definition cm_get_stp_engine :: "'venue \<Rightarrow> 'venue ComplianceManager \<Rightarrow> 'venue StpEngine option" where
  "cm_get_stp_engine venue_id m = map_option snd (find (\<lambda>(v, e). v = venue_id) (cm_stp_engines m))"

definition cm_set_engine :: "'venue \<Rightarrow> 'venue StpEngine \<Rightarrow> 'venue ComplianceManager \<Rightarrow> 'venue ComplianceManager" where
  "cm_set_engine venue_id e m = m\<lparr>cm_stp_engines := AList.update venue_id e (cm_stp_engines m)\<rparr>"

definition cm_generate_stp_group ::
    "u8 list \<Rightarrow> u32 \<Rightarrow> 'venue ComplianceManager \<Rightarrow> StpGroupId \<times> 'venue ComplianceManager" where
  "cm_generate_stp_group strategy_name symbol_hash m =
     (let strategy_id = cm_strategy_counter m;
          name_hash = ucast (hash_bytes strategy_name)
      in (stp_generate strategy_id (name_hash + symbol_hash),
          m\<lparr>cm_strategy_counter := strategy_id + 1\<rparr>))"

definition cm_tag_order ::
    "'venue \<Rightarrow> u32 \<Rightarrow> symbol \<Rightarrow> ExpirationFlag \<Rightarrow> 'venue ComplianceManager \<Rightarrow> ComplianceTag \<times> 'venue ComplianceManager"
  where
  "cm_tag_order venue_id strategy_id symb expiration m =
     (let symbol_hash = ucast (hash_bytes symb)
      in (\<lparr>ct_stp_group_id = stp_generate strategy_id symbol_hash, ct_expiration_flag = expiration,
           ct_strategy_id = strategy_id, ct_compliance_version = 1\<rparr>,
          m\<lparr>cm_orders_tagged := cm_orders_tagged m + 1\<rparr>))"

definition cm_violation :: "'venue ComplianceManager \<Rightarrow> 'venue ComplianceManager" where
  "cm_violation m = m\<lparr>cm_violations_detected := cm_violations_detected m + 1\<rparr>"

definition cm_validate_order ::
    "'venue \<Rightarrow> AggressiveOrder \<Rightarrow> 'venue ComplianceManager \<Rightarrow>
       ('venue ComplianceViolation + unit) \<times> 'venue ComplianceManager" where
  "cm_validate_order venue_id aggressive m =
     (if \<not> cm_enabled m then (Inr (), m)
      else case cm_get_stp_engine venue_id m of
             None \<Rightarrow> (Inr (), m)
           | Some engine \<Rightarrow>
               (case se_check_aggressive_order engine aggressive of
                  (result, engine) \<Rightarrow>
                    let m = cm_set_engine venue_id engine m
                    in case result of
                         Pass \<Rightarrow> (Inr (), m)
                       | Conflict act ids \<Rightarrow> (Inl (SelfTradePrevention act ids), cm_violation m)
                       | Reject reason \<Rightarrow> (Inl (Rejected reason), cm_violation m)))"

definition cm_record_fill ::
    "'venue FillRecord \<Rightarrow> 'venue ComplianceManager \<Rightarrow> 'venue WashTradeAlert option \<times> 'venue ComplianceManager" where
  "cm_record_fill fill m =
     (case wd_record_fill fill (cm_wash_detector m) of (alert, d) \<Rightarrow> (alert, m\<lparr>cm_wash_detector := d\<rparr>))"

definition cm_set_enabled :: "bool \<Rightarrow> 'venue ComplianceManager \<Rightarrow> 'venue ComplianceManager" where
  "cm_set_enabled enabled m =
     (let m = m\<lparr>cm_enabled := enabled\<rparr>;
          m = m\<lparr>cm_wash_detector := wd_set_enabled enabled (cm_wash_detector m)\<rparr>
      in m\<lparr>cm_stp_engines := map (\<lambda>(v, e). (v, se_set_enabled e enabled)) (cm_stp_engines m)\<rparr>)"

record 'venue ComplianceStats =
  cst_orders_tagged :: u64
  cst_violations_detected :: u64
  cst_stp_stats :: "('venue \<times> StpStats) list"
  cst_wash_stats :: WashTradeStats
  cst_is_enabled :: bool

definition cm_get_stats :: "'venue ComplianceManager \<Rightarrow> 'venue ComplianceStats" where
  "cm_get_stats m =
     \<lparr>cst_orders_tagged = cm_orders_tagged m, cst_violations_detected = cm_violations_detected m,
      cst_stp_stats = map (\<lambda>(v, e). (v, se_get_stats e)) (cm_stp_engines m),
      cst_wash_stats = wd_get_stats (cm_wash_detector m), cst_is_enabled = cm_enabled m\<rparr>"

definition cm_register_resting_order ::
    "'venue \<Rightarrow> RestingOrder \<Rightarrow> 'venue ComplianceManager \<Rightarrow> 'venue ComplianceManager" where
  "cm_register_resting_order venue_id ord m =
     (case cm_get_stp_engine venue_id m of
        Some engine \<Rightarrow> cm_set_engine venue_id (se_register_resting_order engine ord) m
      | None \<Rightarrow> m)"

definition cm_remove_resting_order ::
    "'venue \<Rightarrow> symbol \<Rightarrow> u64 \<Rightarrow> 'venue ComplianceManager \<Rightarrow> 'venue ComplianceManager" where
  "cm_remove_resting_order venue_id symb order_id m =
     (case cm_get_stp_engine venue_id m of
        Some engine \<Rightarrow> cm_set_engine venue_id (se_remove_resting_order engine symb order_id) m
      | None \<Rightarrow> m)"

section \<open>The engines of the venues\<close>

text \<open>Looking an engine up and storing it back, as a map.\<close>

definition cm_engines :: "'venue ComplianceManager \<Rightarrow> 'venue \<rightharpoonup> 'venue StpEngine" where
  "cm_engines m = map_of (cm_stp_engines m)"

lemma find_map_of: "map_option snd (find (\<lambda>(k, v). k = x) xs) = map_of xs x"
  by (induction xs) auto

lemma get_engine: "cm_get_stp_engine v m = cm_engines m v"
  by (simp add: cm_get_stp_engine_def cm_engines_def find_map_of)

lemma engines_set [simp]:
  "cm_engines (cm_set_engine v e m) = (cm_engines m)(v \<mapsto> e)"
  "cm_enabled (cm_set_engine v e m) = cm_enabled m"
  by (simp_all add: cm_engines_def cm_set_engine_def AList.update_conv')

lemma engines_violation [simp]:
  "cm_engines (cm_violation m) = cm_engines m" "cm_enabled (cm_violation m) = cm_enabled m"
  by (simp_all add: cm_engines_def cm_violation_def)

lemma engines_set_enabled:
  "cm_engines (cm_set_enabled b m) v = map_option (\<lambda>e. se_set_enabled e b) (cm_engines m v)"
  by (simp add: cm_engines_def cm_set_enabled_def Let_def map_of_map)

lemma engines_new:
  "cm_engines (cmp_new for_venue venues) v =
     (if v \<in> set venues then Some (se_new v (esc_default_action (for_venue v))) else None)"
  by (auto simp: cm_engines_def cmp_new_def map_of_map_restrict restrict_map_def)

section \<open>Runs of the manager\<close>

datatype 'venue cpm_op =
    CmRegister 'venue RestingOrder
  | CmRemove 'venue symbol u64
  | CmValidate 'venue AggressiveOrder
  | CmFill "'venue FillRecord"
  | CmSetEnabled bool
  | CmTag 'venue u32 symbol ExpirationFlag
  | CmGroup "u8 list" u32

fun cpm_exec :: "'venue cpm_op \<Rightarrow> 'venue ComplianceManager \<Rightarrow> 'venue ComplianceManager" where
  "cpm_exec (CmRegister v ord) m = cm_register_resting_order v ord m"
| "cpm_exec (CmRemove v symb x) m = cm_remove_resting_order v symb x m"
| "cpm_exec (CmValidate v a) m = snd (cm_validate_order v a m)"
| "cpm_exec (CmFill f) m = snd (cm_record_fill f m)"
| "cpm_exec (CmSetEnabled b) m = cm_set_enabled b m"
| "cpm_exec (CmTag v strategy symb expiration) m = snd (cm_tag_order v strategy symb expiration m)"
| "cpm_exec (CmGroup name h) m = snd (cm_generate_stp_group name h m)"

text \<open>What an operation of the manager does to the open orders of one venue.\<close>

fun stp_op :: "'venue \<Rightarrow> 'venue cpm_op \<Rightarrow> se_op list" where
  "stp_op v (CmRegister w ord) = (if w = v then [SeRegister ord] else [])"
| "stp_op v (CmRemove w symb x) = (if w = v then [SeRemove symb x] else [])"
| "stp_op v (CmSetEnabled b) = [SeSetEnabled b]"
| "stp_op v _ = []"

text \<open>The client registers an order id once per venue and symbol while it is open.\<close>

fun cm_allowed :: "'venue cpm_op \<Rightarrow> 'venue ComplianceManager \<Rightarrow> bool" where
  "cm_allowed (CmRegister v ord) m =
     (case cm_engines m v of Some e \<Rightarrow> se_allowed (SeRegister ord) e | None \<Rightarrow> True)"
| "cm_allowed _ m = True"

definition cm_inv :: "('venue \<Rightarrow> 'venue ExchangeStpConfig) \<Rightarrow> 'venue ComplianceManager \<Rightarrow> bool" where
  "cm_inv for_venue m \<longleftrightarrow>
     (\<forall>v e. cm_engines m v = Some e \<longrightarrow>
        se_inv e \<and> se_enabled e = cm_enabled m \<and> se_default_action e = esc_default_action (for_venue v))"

lemma run_Nil_id: "run step [] = (\<lambda>s. s)"
  by (simp add: fun_eq_iff)

lemma cmp_inv_new: "cm_inv for_venue (cmp_new for_venue venues)"
  by (simp add: cm_inv_def engines_new) (simp add: cmp_new_def se_new_def)

lemma se_register_frame:
  "se_enabled (se_register_resting_order e ord) = se_enabled e"
  "se_default_action (se_register_resting_order e ord) = se_default_action e"
  by (simp_all add: se_register_resting_order_def Let_def)

lemma se_remove_frame:
  "se_enabled (se_remove_resting_order e symb x) = se_enabled e"
  "se_default_action (se_remove_resting_order e symb x) = se_default_action e"
  by (simp_all add: se_remove_resting_order_def split: option.split)

lemma cm_validate_engines:
  "cm_engines (snd (cm_validate_order v a m)) =
     (if cm_enabled m
      then (case cm_engines m v of None \<Rightarrow> cm_engines m
            | Some e \<Rightarrow> (cm_engines m)(v \<mapsto> snd (se_check_aggressive_order e a)))
      else cm_engines m)"
  and cm_validate_enabled: "cm_enabled (snd (cm_validate_order v a m)) = cm_enabled m"
  by (auto simp: cm_validate_order_def get_engine Let_def split: option.split prod.split StpCheckResult.split)

lemma cm_engines_frame [simp]:
  "cm_engines (snd (cm_record_fill f m)) = cm_engines m"
  "cm_engines (snd (cm_tag_order v s symb x m)) = cm_engines m"
  "cm_engines (snd (cm_generate_stp_group n h m)) = cm_engines m"
  "cm_enabled (snd (cm_record_fill f m)) = cm_enabled m"
  "cm_enabled (snd (cm_tag_order v s symb x m)) = cm_enabled m"
  "cm_enabled (snd (cm_generate_stp_group n h m)) = cm_enabled m"
  "cm_enabled (cm_set_enabled b m) = b"
  by (simp_all add: cm_engines_def cm_record_fill_def cm_tag_order_def cm_generate_stp_group_def
      cm_set_enabled_def Let_def split: prod.split)

interpretation compliance: refined_system cpm_exec cm_allowed "cm_inv for_venue"
  "\<lambda>a. map_option (run book_exec (stp_op v a))" "\<lambda>m. map_option se_book (cm_engines m v)" for for_venue v
proof
  fix m :: "'a ComplianceManager" and a
  assume inv: "cm_inv for_venue m" and ok: "cm_allowed a m"
  note facts = cm_inv_def cm_register_resting_order_def cm_remove_resting_order_def get_engine
    cm_validate_engines cm_validate_enabled engines_set_enabled
  show "cm_inv for_venue (cpm_exec a m)"
  proof (cases a)
    case (CmRegister w ord)
    with inv ok stp_engine.step_inv [of _ "SeRegister ord"] show ?thesis
      by (auto simp: facts se_register_frame split: option.splits)
  next
    case (CmRemove w symb x)
    with inv ok stp_engine.step_inv [of _ "SeRemove symb x"] show ?thesis
      by (auto simp: facts se_remove_frame split: option.splits)
  next
    case (CmValidate w ag)
    with inv ok stp_engine.step_inv [of _ "SeCheck ag"] show ?thesis
      by (auto simp: facts se_check_frame split: option.splits)
  qed (use inv in \<open>auto simp: facts se_set_enabled_def se_inv_def\<close>)
  show "map_option se_book (cm_engines (cpm_exec a m) v) =
      map_option (run book_exec (stp_op v a)) (map_option se_book (cm_engines m v))"
  proof (cases a)
    case (CmRegister w ord)
    with inv ok stp_engine.step_abs [where s = "the (cm_engines m v)" and a = "SeRegister ord"] show ?thesis
      by (auto simp: facts split: option.splits)
  next
    case (CmRemove w symb x)
    with inv ok stp_engine.step_abs [where s = "the (cm_engines m v)" and a = "SeRemove symb x"] show ?thesis
      by (auto simp: facts split: option.splits)
  next
    case (CmValidate w ag)
    then show ?thesis
      by (auto simp: facts se_book_def se_check_frame run_Nil_id option.map_ident split: option.splits)
  next
    case (CmSetEnabled b)
    then show ?thesis
      by (auto simp: facts se_book_def se_set_enabled_def option.map_comp o_def split: option.splits
          intro!: option.map_cong)
  qed (simp_all add: run_Nil_id option.map_ident)
qed

lemma run_stp_ops:
  "run (\<lambda>a. map_option (run book_exec (stp_op v a))) ops (Some b) =
     Some (run book_exec (concat (map (stp_op v) ops)) b)"
  by (induction ops arbitrary: b) (simp_all add: run_append)

text \<open>
  C12: The manager's check is exact, venue by venue. After any calls in which no open order id is
  registered twice at a venue, an order for a known venue is refused exactly when it would trade with open
  orders of its own group there; the refusal names the action of the venue and exactly these orders, and
  the calls for other venues have no influence.
\<close>

theorem compliance_check_exact:
  fixes ops :: "'venue cpm_op list"
  defines "open_orders \<equiv> \<lambda>v. fst (run book_exec (concat (map (stp_op v) ops)) ((\<lambda>_. Map.empty), True))"
  assumes "m = run cpm_exec ops (cmp_new for_venue venues)"
    and "permitted cpm_exec cm_allowed ops (cmp_new for_venue venues)" and "v \<in> set venues" and "cm_enabled m"
  shows "\<exists>ids. distinct ids \<and>
    set ids = {x. \<exists>ord. open_orders v (ao_symbol a) x = Some ord \<and> crosses a ord} \<and>
    fst (cm_validate_order v a m) =
      (if ids = [] then Inr () else Inl (SelfTradePrevention (esc_default_action (for_venue v)) ids))"
proof -
  have "map_option se_book (cm_engines m v) =
      run (\<lambda>a. map_option (run book_exec (stp_op v a))) ops (map_option se_book (cm_engines (cmp_new for_venue venues) v))"
    unfolding assms(2) by (rule compliance.run_abs [OF cmp_inv_new assms(3)])
  also have "\<dots> = Some (run book_exec (concat (map (stp_op v) ops)) ((\<lambda>_. Map.empty), True))"
    using assms(4) by (simp add: engines_new run_stp_ops)
  finally obtain e where e: "cm_engines m v = Some e" "fst (se_book e) = open_orders v"
    by (auto simp: open_orders_def)
  have "cm_inv for_venue m" unfolding assms(2) by (rule compliance.run_inv [OF cmp_inv_new assms(3)])
  with e(1) assms(5) have "se_inv e" "se_enabled e" "se_default_action e = esc_default_action (for_venue v)"
    by (auto simp: cm_inv_def)
  with se_check_exact [of e a] obtain ids where ids: "distinct ids"
    "set ids = {x. \<exists>ord. open_orders v (ao_symbol a) x = Some ord \<and> crosses a ord}"
    "fst (se_check_aggressive_order e a) = (if ids = [] then Pass else Conflict (esc_default_action (for_venue v)) ids)"
    by (auto simp: e(2))
  then show ?thesis
    using assms(5) e(1) by (intro exI [of _ ids]) (auto simp: cm_validate_order_def get_engine Let_def split: prod.split)
qed

definition example_resting :: "u64 \<Rightarrow> i64 \<Rightarrow> RestingOrder" where
  "example_resting x price =
     \<lparr>ro_order_id = x, ro_symbol = [1], ro_side = Sell, ro_price_ticks = price, ro_quantity = 5,
      ro_stp_group_id = StpGroupId 9, ro_timestamp_ns = 0\<rparr>"

definition example_aggressive :: AggressiveOrder where
  "example_aggressive =
     \<lparr>ao_symbol = [1], ao_side = Buy, ao_price_ticks = 95, ao_quantity = 5, ao_stp_group_id = StpGroupId 9,
      ao_is_market = False\<rparr>"

theorem compliance_check_exact_witness:
  "\<exists>ids. set ids = {3} \<and>
     fst (cm_validate_order (2 :: nat) example_aggressive
       (run cpm_exec [CmRegister 1 (example_resting 3 90), CmRegister 2 (example_resting 3 90), CmRemove 1 [1] 3,
           CmRegister 2 (example_resting 4 99)]
         (cmp_new (esc_for_venue 5 6 7) [1, 2]))) =
       Inl (SelfTradePrevention CancelAggressive ids)"
proof -
  let ?ops = "[CmRegister (1 :: nat) (example_resting 3 90), CmRegister 2 (example_resting 3 90), CmRemove 1 [1] 3,
    CmRegister 2 (example_resting 4 99)]"
  note defs = cmp_new_def cm_register_resting_order_def cm_remove_resting_order_def get_engine cm_engines_def
    cm_set_engine_def se_new_def se_register_resting_order_def se_remove_resting_order_def sts_new_def
    sts_add_order_def se_book_def example_resting_def Let_def
  have ok: "permitted cpm_exec cm_allowed ?ops (cmp_new (esc_for_venue 5 6 7) [1, 2])" by (simp add: defs)
  have on: "cm_enabled (run cpm_exec ?ops (cmp_new (esc_for_venue 5 6 7) [1, 2]))" by (simp add: defs)
  have act: "esc_default_action (esc_for_venue 5 6 7 (2 :: nat)) = CancelAggressive" by (simp add: esc_for_venue_def)
  have book: "{x. \<exists>r. fst (run book_exec (concat (map (stp_op 2) ?ops)) ((\<lambda>_. Map.empty), True))
      (ao_symbol example_aggressive) x = Some r \<and> crosses example_aggressive r} = {3}"
    by (auto simp: example_resting_def example_aggressive_def split: if_splits)
  show ?thesis
    using compliance_check_exact [OF refl ok _ on, of 2 example_aggressive] unfolding book act
    by (auto split: if_splits)
qed

section \<open>Groups and gaps\<close>

text \<open>The groups handed out for one strategy name and symbol are all different.\<close>

lemma generated_groups_distinct:
  assumes "cm_strategy_counter m \<noteq> cm_strategy_counter m'"
  shows "fst (cm_generate_stp_group name h m) \<noteq> fst (cm_generate_stp_group name h m')"
  using assms group_id_collisions by (simp add: cm_generate_stp_group_def Let_def)

text \<open>The tag of an order does not depend on the venue, and it is the same for every order of a strategy
  in a symbol.\<close>

lemma tags_agree: "fst (cm_tag_order v s symb x m) = fst (cm_tag_order v' s symb x m')"
  by (simp add: cm_tag_order_def Let_def)

text \<open>A venue without an engine is not checked, and neither is an order that rests since before the checks
  were switched on again.\<close>

lemma unknown_venue_passes: "cm_engines m v = None \<Longrightarrow> fst (cm_validate_order v a m) = Inr ()"
  by (simp add: cm_validate_order_def get_engine)

lemma disabled_orders_unknown:
  assumes "\<not> cm_enabled m" and "cm_inv for_venue m"
  shows "cm_engines (cm_register_resting_order v ord m) = cm_engines m"
  using assms by (auto simp: cm_register_resting_order_def get_engine cm_inv_def se_register_resting_order_def
      split: option.split)

text \<open>Wash trades are not counted as violations.\<close>

lemma fills_are_no_violations: "cm_violations_detected (snd (cm_record_fill f m)) = cm_violations_detected m"
  by (simp add: cm_record_fill_def split: prod.split)

lemma flag_roundtrip: "ef_from_u8 (ef_to_u8 f) = f"
  by (cases f) (simp_all add: ef_from_u8_def ef_to_u8_def)

end
