(* ===== verification/Post_Only.thy ===== *)
theory Post_Only
  imports Float64
begin

text \<open>
  Post-only orders (\<open>src/src/execution/post_only.rs\<close>): the manager that keeps an order from trading at
  once by moving its price away from the other side of the market, the check of resting orders, and the
  builder. The hash map of orders is a HOL map; log output is left out.
\<close>

section \<open>Data\<close>

type_synonym u16 = "16 word"

datatype PostOnlySide = BuyPost | SellPost

definition pos_as_str :: "PostOnlySide \<Rightarrow> string" where
  "pos_as_str s = (case s of BuyPost \<Rightarrow> ''BUY'' | SellPost \<Rightarrow> ''SELL'')"

definition pos_is_buy :: "PostOnlySide \<Rightarrow> bool" where
  "pos_is_buy s \<longleftrightarrow> s = BuyPost"

definition pos_is_sell :: "PostOnlySide \<Rightarrow> bool" where
  "pos_is_sell s \<longleftrightarrow> s = SellPost"

datatype PostOnlyStatus = PoPending | PoSubmitted | PoLiveOnBook | PoCancelled | PoRejected | PoExecuted

datatype ModificationReason = SpreadAvoidance | VolatilityAdjustment | QueuePriority | TickSizeAdjustment

record PostOnlyOrder =
  poo_order_id :: string
  poo_symbol :: string
  poo_side :: PostOnlySide
  poo_intended_price :: i64
  poo_submitted_price :: i64
  poo_quantity :: i64
  poo_best_bid :: i64
  poo_best_ask :: i64
  poo_price_modified :: bool
  poo_modification_reason :: "ModificationReason option"
  poo_submitted_at :: u64
  poo_status :: PostOnlyStatus

record PostOnlyConfig =
  poc_min_spread_bps :: u16
  poc_max_price_adjustment_pct :: f64
  poc_tick_size :: i64
  poc_enable_circuit_breaker :: bool
  poc_volatility_threshold_pct :: f64
  poc_volatility_window_ms :: u64
  poc_spread_staleness_ms :: u64
  poc_auto_cancel_on_fill_risk :: bool

definition poc_default :: PostOnlyConfig where
  "poc_default =
     \<lparr>poc_min_spread_bps = 5, poc_max_price_adjustment_pct = f64_lit (1 / 1000), poc_tick_size = 1,
      poc_enable_circuit_breaker = True, poc_volatility_threshold_pct = f64_lit 2,
      poc_volatility_window_ms = 1000, poc_spread_staleness_ms = 100, poc_auto_cancel_on_fill_risk = True\<rparr>"

record PostOnlyStats =
  pst_total_orders_submitted :: u64
  pst_orders_live_on_book :: u64
  pst_orders_price_adjusted :: u64
  pst_orders_cancelled_pre_fill :: u64
  pst_maker_rebates_earned :: u64
  pst_taker_fees_avoided :: u64
  pst_circuit_breaker_trips :: u64
  pst_spread_violations_prevented :: u64

record PostOnlyManager =
  pom_orders :: "string \<rightharpoonup> PostOnlyOrder"
  pom_best_bid :: i64
  pom_best_ask :: i64
  pom_spread_last_updated :: u64
  pom_spread_staleness_ns :: u64
  pom_stats :: PostOnlyStats
  pom_config :: PostOnlyConfig
  pom_circuit_breaker :: bool

datatype PostOnlyValidationResult =
    PoValid
  | RequiresAdjustment i64 i64 ModificationReason
  | PoCircuitBreakerActive
  | StaleSpreadData
  | SpreadTooTight u16
  | AdjustmentExceedsLimit f64

datatype CancelDecision = NoRisk | FillRiskDetectedButHold | CancelToAvoidTakerExecution

datatype PostOnlyError =
    ErrCircuitBreakerActive
  | ErrStaleMarketData
  | ErrSpreadTooTight u16
  | ErrPriceAdjustmentTooLarge f64
  | ErrOrderNotFound
  | ErrInvalidParameters string

section \<open>The manager\<close>

definition pom_new :: "PostOnlyConfig \<Rightarrow> PostOnlyManager" where
  "pom_new config =
     \<lparr>pom_orders = Map.empty, pom_best_bid = 0, pom_best_ask = 0, pom_spread_last_updated = 0,
      pom_spread_staleness_ns = poc_spread_staleness_ms config * 1000000,
      pom_stats =
        \<lparr>pst_total_orders_submitted = 0, pst_orders_live_on_book = 0, pst_orders_price_adjusted = 0,
         pst_orders_cancelled_pre_fill = 0, pst_maker_rebates_earned = 0, pst_taker_fees_avoided = 0,
         pst_circuit_breaker_trips = 0, pst_spread_violations_prevented = 0\<rparr>,
      pom_config = config, pom_circuit_breaker = False\<rparr>"

definition pom_count :: "(PostOnlyStats \<Rightarrow> PostOnlyStats) \<Rightarrow> PostOnlyManager \<Rightarrow> PostOnlyManager" where
  "pom_count f m = m\<lparr>pom_stats := f (pom_stats m)\<rparr>"

definition pom_update_market_data :: "u64 \<Rightarrow> i64 \<Rightarrow> i64 \<Rightarrow> PostOnlyManager \<Rightarrow> PostOnlyManager" where
  "pom_update_market_data now best_bid best_ask m =
     (if 0 <s best_bid \<and> 0 <s best_ask \<and> best_bid <s best_ask
      then m\<lparr>pom_best_bid := best_bid, pom_best_ask := best_ask, pom_spread_last_updated := now\<rparr>
      else m)"

definition pom_is_spread_data_fresh :: "u64 \<Rightarrow> PostOnlyManager \<Rightarrow> bool" where
  "pom_is_spread_data_fresh now m \<longleftrightarrow> u64_sat_sub now (pom_spread_last_updated m) < pom_spread_staleness_ns m"

definition pom_current_spread_bps :: "PostOnlyManager \<Rightarrow> u16 option" where
  "pom_current_spread_bps m =
     (let bid = pom_best_bid m; ask = pom_best_ask m
      in if bid \<le>s 0 \<or> ask \<le>s 0 \<or> ask \<le>s bid then None
         else let mid = i64_div (bid + ask) 2;
                  spread = ask - bid
              in Some (ucast (spread * 10000 div mid)))"

definition would_cross :: "PostOnlySide \<Rightarrow> i64 \<Rightarrow> i64 \<Rightarrow> i64 \<Rightarrow> bool" where
  "would_cross side price best_bid best_ask =
     (case side of
        BuyPost \<Rightarrow> best_ask \<le>s price \<and> 0 <s best_ask
      | SellPost \<Rightarrow> price \<le>s best_bid \<and> 0 <s best_bid)"

definition adjusted_price :: "PostOnlySide \<Rightarrow> i64 \<Rightarrow> i64 \<Rightarrow> i64 \<Rightarrow> i64" where
  "adjusted_price side tick_size best_bid best_ask =
     (case side of
        BuyPost \<Rightarrow> if 1 \<le>s best_ask - tick_size then best_ask - tick_size else 1
      | SellPost \<Rightarrow> best_bid + tick_size)"

text \<open>The last part of the validation: the crossing test and the tolerance of an adjustment.\<close>

definition adjustment_pct :: "i64 \<Rightarrow> i64 \<Rightarrow> f64" where
  "adjustment_pct price adjusted = f64_div (f64_of_i64 (i64_abs (price - adjusted))) (f64_of_i64 price)"

definition pom_place :: "PostOnlySide \<Rightarrow> i64 \<Rightarrow> PostOnlyManager \<Rightarrow> PostOnlyValidationResult" where
  "pom_place side price m =
     (if would_cross side price (pom_best_bid m) (pom_best_ask m)
      then let adjusted = adjusted_price side (poc_tick_size (pom_config m)) (pom_best_bid m) (pom_best_ask m);
               pct = adjustment_pct price adjusted
           in if f64_less (poc_max_price_adjustment_pct (pom_config m)) pct then AdjustmentExceedsLimit pct
              else RequiresAdjustment price adjusted SpreadAvoidance
      else PoValid)"

definition pom_validate_post_only ::
    "u64 \<Rightarrow> string \<Rightarrow> PostOnlySide \<Rightarrow> i64 \<Rightarrow> i64 \<Rightarrow> PostOnlyManager \<Rightarrow> PostOnlyValidationResult \<times> PostOnlyManager"
  where
  "pom_validate_post_only now symb side price quantity m =
     (if pom_circuit_breaker m then (PoCircuitBreakerActive, m)
      else if \<not> pom_is_spread_data_fresh now m then (StaleSpreadData, m)
      else case pom_current_spread_bps m of
             Some spread_bps \<Rightarrow>
               if spread_bps < poc_min_spread_bps (pom_config m)
               then (SpreadTooTight spread_bps,
                     pom_count (\<lambda>s. s\<lparr>pst_spread_violations_prevented := pst_spread_violations_prevented s + 1\<rparr>) m)
               else (pom_place side price m, m)
           | None \<Rightarrow> (pom_place side price m, m))"

text \<open>The order that is entered; \<open>clk 0\<close> is read by the validation, \<open>clk 1\<close> is the time of submission.\<close>

definition pom_enter ::
    "u64 \<Rightarrow> string \<Rightarrow> string \<Rightarrow> PostOnlySide \<Rightarrow> i64 \<Rightarrow> i64 \<Rightarrow> i64 \<times> bool \<times> ModificationReason option \<Rightarrow>
       PostOnlyManager \<Rightarrow> PostOnlyOrder \<times> PostOnlyManager" where
  "pom_enter now order_id symb side intended_price quantity p m =
     (case p of (submitted_price, price_modified, modification_reason) \<Rightarrow>
        let ord = \<lparr>poo_order_id = order_id, poo_symbol = symb, poo_side = side,
                   poo_intended_price = intended_price, poo_submitted_price = submitted_price,
                   poo_quantity = quantity, poo_best_bid = pom_best_bid m, poo_best_ask = pom_best_ask m,
                   poo_price_modified = price_modified, poo_modification_reason = modification_reason,
                   poo_submitted_at = now, poo_status = PoSubmitted\<rparr>;
            m = m\<lparr>pom_orders := (pom_orders m)(order_id \<mapsto> ord)\<rparr>;
            m = pom_count (\<lambda>s. s\<lparr>pst_total_orders_submitted := pst_total_orders_submitted s + 1\<rparr>) m;
            m = (if price_modified
                 then pom_count (\<lambda>s. s\<lparr>pst_orders_price_adjusted := pst_orders_price_adjusted s + 1\<rparr>) m else m)
        in (ord, m))"

definition pom_submit_post_only ::
    "clock \<Rightarrow> string \<Rightarrow> string \<Rightarrow> PostOnlySide \<Rightarrow> i64 \<Rightarrow> i64 \<Rightarrow> PostOnlyManager \<Rightarrow>
       (PostOnlyError + PostOnlyOrder) \<times> PostOnlyManager" where
  "pom_submit_post_only clk order_id symb side intended_price quantity m =
     (case pom_validate_post_only (clk 0) symb side intended_price quantity m of
        (validation, m) \<Rightarrow>
          let enter = (\<lambda>p. case pom_enter (clk 1) order_id symb side intended_price quantity p m of
                           (ord, m) \<Rightarrow> (Inr ord, m))
          in case validation of
               PoValid \<Rightarrow> enter (intended_price, False, None)
             | RequiresAdjustment original adjusted reason \<Rightarrow> enter (adjusted, True, Some reason)
             | PoCircuitBreakerActive \<Rightarrow> (Inl ErrCircuitBreakerActive, m)
             | StaleSpreadData \<Rightarrow> (Inl ErrStaleMarketData, m)
             | SpreadTooTight spread \<Rightarrow> (Inl (ErrSpreadTooTight spread), m)
             | AdjustmentExceedsLimit pct \<Rightarrow> (Inl (ErrPriceAdjustmentTooLarge pct), m))"

definition fill_risk :: "PostOnlyOrder \<Rightarrow> i64 \<Rightarrow> i64 \<Rightarrow> bool" where
  "fill_risk ord best_bid best_ask =
     (case poo_side ord of
        BuyPost \<Rightarrow> 0 <s best_ask \<and> best_ask \<le>s poo_submitted_price ord
      | SellPost \<Rightarrow> 0 <s best_bid \<and> poo_submitted_price ord \<le>s best_bid)"

definition pom_check_fill_risk_and_cancel ::
    "string \<Rightarrow> PostOnlyManager \<Rightarrow> CancelDecision option \<times> PostOnlyManager" where
  "pom_check_fill_risk_and_cancel order_id m =
     (case pom_orders m order_id of
        None \<Rightarrow> (None, m)
      | Some ord \<Rightarrow>
          if poo_status ord \<noteq> PoLiveOnBook \<and> poo_status ord \<noteq> PoSubmitted then (None, m)
          else let risk = fill_risk ord (pom_best_bid m) (pom_best_ask m)
               in if risk \<and> poc_auto_cancel_on_fill_risk (pom_config m)
                  then (Some CancelToAvoidTakerExecution,
                        pom_count (\<lambda>s. s\<lparr>pst_orders_cancelled_pre_fill := pst_orders_cancelled_pre_fill s + 1\<rparr>) m)
                  else if risk then (Some FillRiskDetectedButHold, m)
                  else (Some NoRisk, m))"

definition pom_trip_circuit_breaker :: "PostOnlyManager \<Rightarrow> PostOnlyManager" where
  "pom_trip_circuit_breaker m =
     (if poc_enable_circuit_breaker (pom_config m)
      then pom_count (\<lambda>s. s\<lparr>pst_circuit_breaker_trips := pst_circuit_breaker_trips s + 1\<rparr>)
             (m\<lparr>pom_circuit_breaker := True\<rparr>)
      else m)"

definition pom_reset_circuit_breaker :: "PostOnlyManager \<Rightarrow> PostOnlyManager" where
  "pom_reset_circuit_breaker m = m\<lparr>pom_circuit_breaker := False\<rparr>"

definition pom_is_circuit_breaker_active :: "PostOnlyManager \<Rightarrow> bool" where
  "pom_is_circuit_breaker_active m = pom_circuit_breaker m"

definition pom_record_maker_rebate :: "u64 \<Rightarrow> PostOnlyManager \<Rightarrow> PostOnlyManager" where
  "pom_record_maker_rebate rebate_amount =
     pom_count (\<lambda>s. s\<lparr>pst_maker_rebates_earned := pst_maker_rebates_earned s + rebate_amount\<rparr>)"

definition pom_record_taker_fee_avoided :: "u64 \<Rightarrow> PostOnlyManager \<Rightarrow> PostOnlyManager" where
  "pom_record_taker_fee_avoided fee_amount =
     pom_count (\<lambda>s. s\<lparr>pst_taker_fees_avoided := pst_taker_fees_avoided s + fee_amount\<rparr>)"

definition pom_update_order_status :: "string \<Rightarrow> PostOnlyStatus \<Rightarrow> PostOnlyManager \<Rightarrow> PostOnlyManager" where
  "pom_update_order_status order_id status m =
     (case pom_orders m order_id of
        None \<Rightarrow> m
      | Some ord \<Rightarrow>
          let m = m\<lparr>pom_orders := (pom_orders m)(order_id \<mapsto> ord\<lparr>poo_status := status\<rparr>)\<rparr>
          in if status = PoLiveOnBook
             then pom_count (\<lambda>s. s\<lparr>pst_orders_live_on_book := pst_orders_live_on_book s + 1\<rparr>) m else m)"

section \<open>The builder\<close>

record PostOnlyOrderBuilder =
  pob_order_id :: "string option"
  pob_symbol :: "string option"
  pob_side :: "PostOnlySide option"
  pob_price :: "i64 option"
  pob_quantity :: "i64 option"

definition pob_new :: PostOnlyOrderBuilder where
  "pob_new = \<lparr>pob_order_id = None, pob_symbol = None, pob_side = None, pob_price = None, pob_quantity = None\<rparr>"

definition pob_build ::
    "clock \<Rightarrow> PostOnlyOrderBuilder \<Rightarrow> PostOnlyManager \<Rightarrow> (PostOnlyError + PostOnlyOrder) \<times> PostOnlyManager" where
  "pob_build clk b m =
     (case pob_order_id b of None \<Rightarrow> (Inl (ErrInvalidParameters ''Missing order_id''), m)
      | Some order_id \<Rightarrow> (case pob_symbol b of None \<Rightarrow> (Inl (ErrInvalidParameters ''Missing symbol''), m)
      | Some symb \<Rightarrow> (case pob_side b of None \<Rightarrow> (Inl (ErrInvalidParameters ''Missing side''), m)
      | Some side \<Rightarrow> (case pob_price b of None \<Rightarrow> (Inl (ErrInvalidParameters ''Missing price''), m)
      | Some price \<Rightarrow> (case pob_quantity b of None \<Rightarrow> (Inl (ErrInvalidParameters ''Missing quantity''), m)
      | Some quantity \<Rightarrow> pom_submit_post_only clk order_id symb side price quantity m)))))"

section \<open>The market kept by the manager\<close>

datatype post_op =
    PomUpdate u64 i64 i64
  | PomSubmit clock string string PostOnlySide i64 i64
  | PomCheck string
  | PomTrip
  | PomReset
  | PomStatus string PostOnlyStatus
  | PomRebate u64
  | PomFee u64

fun post_exec :: "post_op \<Rightarrow> PostOnlyManager \<Rightarrow> PostOnlyManager" where
  "post_exec (PomUpdate now bid ask) m = pom_update_market_data now bid ask m"
| "post_exec (PomSubmit clk x symb side price qty) m = snd (pom_submit_post_only clk x symb side price qty m)"
| "post_exec (PomCheck x) m = snd (pom_check_fill_risk_and_cancel x m)"
| "post_exec PomTrip m = pom_trip_circuit_breaker m"
| "post_exec PomReset m = pom_reset_circuit_breaker m"
| "post_exec (PomStatus x status) m = pom_update_order_status x status m"
| "post_exec (PomRebate n) m = pom_record_maker_rebate n m"
| "post_exec (PomFee n) m = pom_record_taker_fee_avoided n m"

definition market_quoted :: "PostOnlyManager \<Rightarrow> bool" where
  "market_quoted m \<longleftrightarrow> (pom_best_bid m = 0 \<and> pom_best_ask m = 0) \<or>
     (0 < sint (pom_best_bid m) \<and> sint (pom_best_bid m) < sint (pom_best_ask m))"

lemma pom_count_frame [simp]:
  "pom_orders (pom_count f m) = pom_orders m" "pom_best_bid (pom_count f m) = pom_best_bid m"
  "pom_best_ask (pom_count f m) = pom_best_ask m" "pom_config (pom_count f m) = pom_config m"
  "pom_circuit_breaker (pom_count f m) = pom_circuit_breaker m"
  "pom_spread_last_updated (pom_count f m) = pom_spread_last_updated m"
  "pom_spread_staleness_ns (pom_count f m) = pom_spread_staleness_ns m"
  by (simp_all add: pom_count_def)

lemma pom_validate_frame:
  "pom_best_bid (snd (pom_validate_post_only now symb side price qty m)) = pom_best_bid m"
  "pom_best_ask (snd (pom_validate_post_only now symb side price qty m)) = pom_best_ask m"
  "pom_config (snd (pom_validate_post_only now symb side price qty m)) = pom_config m"
  by (simp_all add: pom_validate_post_only_def split: option.split)

lemma pom_enter_frame:
  "pom_best_bid (snd (pom_enter now x symb side price qty p m)) = pom_best_bid m"
  "pom_best_ask (snd (pom_enter now x symb side price qty p m)) = pom_best_ask m"
  "pom_config (snd (pom_enter now x symb side price qty p m)) = pom_config m"
  by (cases p; simp add: pom_enter_def Let_def)+

lemma pom_submit_frame:
  "pom_best_bid (snd (pom_submit_post_only clk x symb side price qty m)) = pom_best_bid m"
  "pom_best_ask (snd (pom_submit_post_only clk x symb side price qty m)) = pom_best_ask m"
  "pom_config (snd (pom_submit_post_only clk x symb side price qty m)) = pom_config m"
  using pom_validate_frame [of "clk 0" symb side price qty m] pom_enter_frame
  by (auto simp: pom_submit_post_only_def Let_def split: prod.splits PostOnlyValidationResult.splits)
    (metis snd_conv)+

lemma pom_market_frame:
  "(pom_best_bid (post_exec a m), pom_best_ask (post_exec a m)) =
     (case a of PomUpdate now bid ask \<Rightarrow>
        if 0 <s bid \<and> 0 <s ask \<and> bid <s ask then (bid, ask) else (pom_best_bid m, pom_best_ask m)
      | _ \<Rightarrow> (pom_best_bid m, pom_best_ask m))"
  "pom_config (post_exec a m) = pom_config m"
  by (cases a; simp add: pom_update_market_data_def pom_submit_frame pom_check_fill_risk_and_cancel_def
      pom_trip_circuit_breaker_def pom_reset_circuit_breaker_def pom_update_order_status_def
      pom_record_maker_rebate_def pom_record_taker_fee_avoided_def Let_def split: option.split)+

interpretation post_market: latched_system post_exec "\<lambda>a. True" market_quoted
proof
  fix m a
  assume "market_quoted m"
  then show "market_quoted (post_exec a m)"
    using pom_market_frame(1) [of a m]
    by (cases a) (auto simp: market_quoted_def word_sless_alt split: if_splits)
qed

interpretation post_config: framed_system post_exec pom_config
  by unfold_locales (rule pom_market_frame(2))

section \<open>Orders never take\<close>

lemma pom_submit_accepted:
  assumes "pom_submit_post_only clk x symb side price qty m = (Inr ord, m')"
  shows "\<not> pom_circuit_breaker m" and "pom_is_spread_data_fresh (clk 0) m"
    and "poo_side ord = side" and "poo_intended_price ord = price" and "poo_status ord = PoSubmitted"
    and "poo_order_id ord = x" and "pom_orders m' x = Some ord"
    and "case pom_place side price m of
           PoValid \<Rightarrow> poo_submitted_price ord = price \<and> \<not> poo_price_modified ord
         | RequiresAdjustment p adjusted r \<Rightarrow> poo_submitted_price ord = adjusted \<and> poo_price_modified ord
         | _ \<Rightarrow> False"
  using assms
  by (auto simp: pom_submit_post_only_def pom_validate_post_only_def pom_enter_def Let_def
      split: if_splits option.splits PostOnlyValidationResult.splits)

lemma adjusted_inside:
  assumes "0 < sint tick" "0 < sint bid" "sint bid < sint ask" "sint ask + sint tick < 2 ^ 63"
  shows "side = BuyPost \<Longrightarrow> sint (adjusted_price side tick bid ask) < sint ask"
    and "side = SellPost \<Longrightarrow> sint bid < sint (adjusted_price side tick bid ask)"
proof -
  have range: "- (2 ^ 63) \<le> sint ask - sint tick \<and> sint ask - sint tick < 2 ^ 63"
    using assms sint_i64_range [of ask] sint_i64_range [of tick] by simp
  have "sint (ask - tick) = sint ask - sint tick" using range by (intro sint_sub_i64) simp_all
  then show "side = BuyPost \<Longrightarrow> sint (adjusted_price side tick bid ask) < sint ask"
    using assms by (simp add: adjusted_price_def word_sle_eq)
  have "sint (bid + tick) = sint bid + sint tick" using assms by (intro sint_add_i64) simp_all
  then show "side = SellPost \<Longrightarrow> sint bid < sint (adjusted_price side tick bid ask)"
    using assms by (simp add: adjusted_price_def)
qed

text \<open>
  C14: A post-only order never takes. Whatever the manager has been through, an order it accepts was
  submitted while the circuit breaker was off and the market data fresh, and at a price that does not meet
  the other side of the market it knows; its price differs from the intended one only when that one would
  have crossed. Ticks are positive and the best ask is a tick below the largest integer.
\<close>

theorem post_only_never_takes:
  assumes "m = run post_exec ops (pom_new config)"
    and "pom_submit_post_only clk x symb side price qty m = (Inr ord, m')"
    and "0 < sint (poc_tick_size config)" and "sint (pom_best_ask m) + sint (poc_tick_size config) < 2 ^ 63"
  shows "\<not> pom_circuit_breaker m \<and> pom_is_spread_data_fresh (clk 0) m \<and>
    \<not> would_cross side (poo_submitted_price ord) (pom_best_bid m) (pom_best_ask m) \<and>
    (poo_price_modified ord \<longleftrightarrow> would_cross side price (pom_best_bid m) (pom_best_ask m)) \<and>
    (\<not> poo_price_modified ord \<longrightarrow> poo_submitted_price ord = price)"
proof -
  have market_quoted: "market_quoted m"
    unfolding assms(1) by (rule post_market.run_latch) (simp_all add: market_quoted_def pom_new_def list.pred_True)
  have config: "pom_config m = config"
    unfolding assms(1) post_config.run_part by (simp add: pom_new_def)
  note accepted = pom_submit_accepted [OF assms(2)]
  show ?thesis
  proof (cases "would_cross side price (pom_best_bid m) (pom_best_ask m)")
    case False
    then show ?thesis using accepted by (simp add: pom_place_def)
  next
    case True
    then have market: "0 < sint (pom_best_bid m)" "sint (pom_best_bid m) < sint (pom_best_ask m)"
      using market_quoted by (auto simp: would_cross_def market_quoted_def split: PostOnlySide.splits)
    from True accepted(8) have modified: "poo_price_modified ord"
      "poo_submitted_price ord = adjusted_price side (poc_tick_size config) (pom_best_bid m) (pom_best_ask m)"
      by (auto simp: pom_place_def config Let_def split: if_splits)
    with adjusted_inside [OF assms(3) market assms(4), of side]
    have "\<not> would_cross side (poo_submitted_price ord) (pom_best_bid m) (pom_best_ask m)"
      by (cases side) (simp_all add: would_cross_def word_sle_eq)
    with True modified accepted show ?thesis by simp
  qed
qed

theorem post_only_never_takes_witness:
  "let m = run post_exec [PomUpdate 5 9900 10100] (pom_new poc_default)
   in \<not> would_cross BuyPost (case fst (pom_submit_post_only (\<lambda>i. 6) ''A'' ''B'' BuyPost 10100 100 m) of
          Inr ord \<Rightarrow> poo_submitted_price ord | Inl e \<Rightarrow> 0) (pom_best_bid m) (pom_best_ask m)"
proof -
  let ?m = "run post_exec [PomUpdate 5 9900 10100] (pom_new poc_default)"
  have "round_mag (1 / 10100) = 3652820608655357 / 36893488147419103232"
    by (simp add: round_mag_eqI [where e = "-14" and i = 7305641217310714])
  moreover have "round_mag (1 / 1000) = 1152921504606847 / 1152921504606846976"
    by (simp add: round_mag_eqI [where e = "-10" and i = 4611686018427388])
  ultimately have less: "\<not> f64_less (f64_lit (1 / 1000)) (adjustment_pct 10100 10099)"
    by (simp add: adjustment_pct_def f64_of_i64_def f64_of_int_def f64_lit_def f64_of_def pack_small i64_abs_def
        round_mag_exact [where i = 10100 and e = 0] round_mag_exact [where i = 1 and e = 0])
  obtain r m' where sub: "pom_submit_post_only (\<lambda>i. 6) ''A'' ''B'' BuyPost 10100 100 ?m = (r, m')"
    by (cases "pom_submit_post_only (\<lambda>i. 6) ''A'' ''B'' BuyPost 10100 100 ?m")
  note defs = pom_submit_post_only_def pom_validate_post_only_def pom_update_market_data_def pom_new_def
    poc_default_def pom_is_spread_data_fresh_def u64_sat_sub_def pom_current_spread_bps_def pom_place_def
    would_cross_def adjusted_price_def word_sless_alt word_sle_eq i64_div_def
  have "\<exists>ord. r = Inr ord"
    using sub less by (auto simp: defs Let_def split: prod.splits)
  then obtain ord where "r = Inr ord" ..
  with sub have "pom_submit_post_only (\<lambda>i. 6) ''A'' ''B'' BuyPost 10100 100 ?m = (Inr ord, m')" by simp
  from post_only_never_takes [OF refl this] show ?thesis
    unfolding Let_def sub \<open>r = Inr ord\<close> by (simp add: defs Let_def)
qed

text \<open>Until the market changes, the order is without risk of a fill.\<close>

lemma submitted_order_no_risk:
  assumes "pom_submit_post_only clk x symb side price qty m = (Inr ord, m')"
    and "\<not> would_cross side (poo_submitted_price ord) (pom_best_bid m) (pom_best_ask m)"
  shows "fst (pom_check_fill_risk_and_cancel x m') = Some NoRisk"
proof -
  have "pom_best_bid m' = pom_best_bid m" "pom_best_ask m' = pom_best_ask m"
    using pom_submit_frame [of clk x symb side price qty m] assms(1) by simp_all
  then show ?thesis
    using pom_submit_accepted [OF assms(1)] assms(2)
    by (cases side) (auto simp: pom_check_fill_risk_and_cancel_def fill_risk_def would_cross_def Let_def)
qed

text \<open>The check only counts: the order stays live, and the next check counts it again.\<close>

lemma check_cancels_nothing:
  "pom_orders (snd (pom_check_fill_risk_and_cancel x m)) = pom_orders m"
  by (simp add: pom_check_fill_risk_and_cancel_def Let_def split: option.split)

text \<open>A crossed market is ignored, so an ask below the price of a resting order raises no risk.\<close>

lemma crossed_market_ignored: "sint ask \<le> sint bid \<Longrightarrow> pom_update_market_data now bid ask m = m"
  by (auto simp: pom_update_market_data_def word_sless_alt)

text \<open>The tolerance does not bind a negative price: the percentage is negative, however far the price moves.\<close>

definition sign_bit :: "f64 \<Rightarrow> bool option" where
  "sign_bit x = (case x of FNaN \<Rightarrow> None | FInf s \<Rightarrow> Some s | Fin s m \<Rightarrow> if 0 \<le> m then Some s else None)"

lemma sign_bit_pack: "sign_bit (pack s m) = Some s"
  using round_mag_nonneg [of m] by (simp add: sign_bit_def pack_def Let_def)

lemma sign_bit_of_int: "sign_bit (f64_of_int n) = Some (n < 0)"
  by (simp add: f64_of_int_def f64_of_def sign_bit_pack) (simp add: sign_bit_def)

lemma sign_bit_div: "sign_bit x = Some s \<Longrightarrow> sign_bit y = Some t \<Longrightarrow> f64_div x y \<noteq> FNaN \<Longrightarrow>
    sign_bit (f64_div x y) = Some (s \<noteq> t)"
  by (cases x; cases y) (auto simp: sign_bit_def pack_def round_mag_nonneg Let_def split: if_splits)

lemma negative_price_unbounded:
  assumes "sint price < 0" "price - adjusted \<noteq> i64_MIN" "0 \<le> r"
  shows "\<not> f64_less (Fin False r) (adjustment_pct price adjusted)"
proof (cases "adjustment_pct price adjusted = FNaN")
  case False
  have "0 \<le> sint (i64_abs (price - adjusted))" using assms(2) by (simp add: sint_i64_abs)
  then have "sign_bit (adjustment_pct price adjusted) = Some True"
    using assms(1) False sign_bit_div [OF sign_bit_of_int sign_bit_of_int]
    by (simp add: adjustment_pct_def f64_of_i64_def)
  with assms(3) show ?thesis
    by (cases "adjustment_pct price adjusted") (auto simp: sign_bit_def split: if_splits)
qed simp

end
