(* ===== verification/Write_Ahead_Log.thy ===== *)
theory Write_Ahead_Log
  imports Machine Book_Checksum
begin

text \<open>
  The write-ahead log (\<open>src/src/event_store/wal.rs\<close>): records of a header and data with a checksum, appended
  to a file and read back one by one.

  A file is its bytes. The header is the C layout of the struct on a little-endian machine, 32 bytes of
  which seven are padding; the padding is whatever the memory holds, a parameter. An operation of the file
  may fail: a \<open>fault\<close> says after how many bytes a write stops. Writing through \<open>&self\<close> and \<open>CachePadded::new\<close> do
  not compile; the model has the intended effect.
\<close>

section \<open>Entries\<close>

record WALEntryHeader =
  weh_entry_type :: u8
  weh_length :: u32
  weh_sequence :: u64
  weh_timestamp_ns :: u64
  weh_checksum :: u32

definition weh_SIZE :: nat where
  "weh_SIZE = 32"

definition weh_new :: "u8 \<Rightarrow> u32 \<Rightarrow> u64 \<Rightarrow> u64 \<Rightarrow> WALEntryHeader" where
  "weh_new entry_type len sequence timestamp_ns =
     \<lparr>weh_entry_type = entry_type, weh_length = len, weh_sequence = sequence,
      weh_timestamp_ns = timestamp_ns, weh_checksum = 0\<rparr>"

text \<open>The checksum, one bit at a time.\<close>

definition wal_crc_bit :: "u32 \<Rightarrow> u32" where
  "wal_crc_bit crc = (if crc AND 1 \<noteq> 0 then drop_bit 1 crc XOR 0xEDB88320 else drop_bit 1 crc)"

definition wal_crc_byte :: "u8 \<Rightarrow> u32 \<Rightarrow> u32" where
  "wal_crc_byte byte crc = (wal_crc_bit ^^ 8) (crc XOR ucast byte)"

definition wal_crc32_fast :: "u8 list \<Rightarrow> u32" where
  "wal_crc32_fast data = NOT (fold wal_crc_byte data 0xFFFFFFFF)"

definition weh_calculate_checksum :: "u8 list \<Rightarrow> WALEntryHeader \<Rightarrow> WALEntryHeader" where
  "weh_calculate_checksum data h = h\<lparr>weh_checksum := wal_crc32_fast data\<rparr>"

definition weh_verify_checksum :: "u8 list \<Rightarrow> WALEntryHeader \<Rightarrow> bool" where
  "weh_verify_checksum data h \<longleftrightarrow> wal_crc32_fast data = weh_checksum h"

datatype WALEntryType =
    MarketData | OrderSubmitted | OrderFilled | OrderCancelled | OrderModified | StateSnapshot | Heartbeat | Custom

definition wet_code :: "WALEntryType \<Rightarrow> u8" where
  "wet_code t =
     (case t of MarketData \<Rightarrow> 0 | OrderSubmitted \<Rightarrow> 1 | OrderFilled \<Rightarrow> 2 | OrderCancelled \<Rightarrow> 3
      | OrderModified \<Rightarrow> 4 | StateSnapshot \<Rightarrow> 5 | Heartbeat \<Rightarrow> 6 | Custom \<Rightarrow> 255)"

definition wet_from_u8 :: "u8 \<Rightarrow> WALEntryType" where
  "wet_from_u8 val =
     (if val = 0 then MarketData else if val = 1 then OrderSubmitted else if val = 2 then OrderFilled
      else if val = 3 then OrderCancelled else if val = 4 then OrderModified else if val = 5 then StateSnapshot
      else if val = 6 then Heartbeat else Custom)"

text \<open>The bytes of a header in memory, and a header read from bytes.\<close>

definition header_bytes :: "(nat \<Rightarrow> u8) \<Rightarrow> WALEntryHeader \<Rightarrow> u8 list" where
  "header_bytes pad h =
     [weh_entry_type h, pad 0, pad 1, pad 2] @ le_bytes 4 (weh_length h) @ le_bytes 8 (weh_sequence h) @
     le_bytes 8 (weh_timestamp_ns h) @ le_bytes 4 (weh_checksum h) @ [pad 3, pad 4, pad 5, pad 6]"

definition read_header :: "u8 list \<Rightarrow> WALEntryHeader" where
  "read_header buf =
     \<lparr>weh_entry_type = buf ! 0, weh_length = from_le_bytes (slice 4 8 buf),
      weh_sequence = from_le_bytes (slice 8 16 buf), weh_timestamp_ns = from_le_bytes (slice 16 24 buf),
      weh_checksum = from_le_bytes (slice 24 28 buf)\<rparr>"

section \<open>The writer\<close>

datatype WALError = NotActive | WriteFailed | SyncFailed | IncompleteHeader | IncompleteData | ChecksumMismatch

type_synonym fault = "nat option"

definition file_write :: "fault \<Rightarrow> u8 list \<Rightarrow> u8 list \<Rightarrow> bool \<times> u8 list" where
  "file_write fault bytes content =
     (case fault of None \<Rightarrow> (True, content @ bytes) | Some j \<Rightarrow> (False, content @ take j bytes))"

record WALWriter =
  ww_file :: "u8 list"
  ww_write_pos :: u64
  ww_sequence :: u64
  ww_is_active :: bool
  ww_buffer_size :: u64
  ww_pending_bytes :: u64
  ww_sync_interval :: u64

text \<open>Opening a file appends to what it holds.\<close>

definition ww_new :: "u8 list \<Rightarrow> u64 \<Rightarrow> u64 \<Rightarrow> WALWriter" where
  "ww_new content buffer_size sync_interval =
     \<lparr>ww_file = content, ww_write_pos = 0, ww_sequence = 0, ww_is_active = True,
      ww_buffer_size = buffer_size, ww_pending_bytes = 0, ww_sync_interval = sync_interval\<rparr>"

definition ww_sync :: "fault \<Rightarrow> WALWriter \<Rightarrow> (WALError + unit) \<times> WALWriter" where
  "ww_sync fault w = (case fault of None \<Rightarrow> (Inr (), w\<lparr>ww_pending_bytes := 0\<rparr>) | Some _ \<Rightarrow> (Inl SyncFailed, w))"

text \<open>The three operations on the file are numbered: the header, the data and the sync.\<close>

definition ww_append ::
    "(nat \<Rightarrow> u8) \<Rightarrow> (nat \<Rightarrow> fault) \<Rightarrow> u64 \<Rightarrow> WALEntryType \<Rightarrow> u8 list \<Rightarrow> WALWriter \<Rightarrow> (WALError + u64) \<times> WALWriter"
  where
  "ww_append pad faults now entry_type data w =
     (if \<not> ww_is_active w then (Inl NotActive, w)
      else
        let sequence = ww_sequence w;
            w = w\<lparr>ww_sequence := sequence + 1\<rparr>;
            header = weh_calculate_checksum data
                       (weh_new (wet_code entry_type) (of_nat (length data)) sequence now)
        in case file_write (faults 0) (header_bytes pad header) (ww_file w) of
             (False, content) \<Rightarrow> (Inl WriteFailed, w\<lparr>ww_file := content\<rparr>)
           | (True, content) \<Rightarrow>
               (case file_write (faults 1) data content of
                  (False, content) \<Rightarrow> (Inl WriteFailed, w\<lparr>ww_file := content\<rparr>)
                | (True, content) \<Rightarrow>
                    let total_bytes = of_nat (weh_SIZE + length data);
                        w = w\<lparr>ww_file := content, ww_write_pos := ww_write_pos w + total_bytes,
                              ww_pending_bytes := ww_pending_bytes w + total_bytes\<rparr>
                    in if ww_sync_interval w \<le> ww_pending_bytes w
                       then (case ww_sync (faults 2) w of
                               (Inl e, w) \<Rightarrow> (Inl e, w) | (Inr _, w) \<Rightarrow> (Inr sequence, w))
                       else (Inr sequence, w)))"

definition ww_write_position :: "WALWriter \<Rightarrow> u64" where
  "ww_write_position w = ww_write_pos w"

definition ww_current_sequence :: "WALWriter \<Rightarrow> u64" where
  "ww_current_sequence w = ww_sequence w"

definition ww_set_active :: "bool \<Rightarrow> WALWriter \<Rightarrow> WALWriter" where
  "ww_set_active active w = w\<lparr>ww_is_active := active\<rparr>"

section \<open>The reader\<close>

record WALEntry =
  wen_header :: WALEntryHeader
  wen_data :: "u8 list"

definition wen_entry_type :: "WALEntry \<Rightarrow> WALEntryType" where
  "wen_entry_type e = wet_from_u8 (weh_entry_type (wen_header e))"

definition wen_sequence :: "WALEntry \<Rightarrow> u64" where
  "wen_sequence e = weh_sequence (wen_header e)"

definition wen_timestamp_ns :: "WALEntry \<Rightarrow> u64" where
  "wen_timestamp_ns e = weh_timestamp_ns (wen_header e)"

record WALReader =
  wr_file :: "u8 list"
  wr_read_pos :: u64
  wr_is_active :: bool

definition wr_new :: "u8 list \<Rightarrow> WALReader" where
  "wr_new content = \<lparr>wr_file = content, wr_read_pos = 0, wr_is_active = True\<rparr>"

text \<open>A read of a regular file returns all bytes asked for that the file has.\<close>

definition wr_read_next :: "WALReader \<Rightarrow> (WALError + WALEntry option) \<times> WALReader" where
  "wr_read_next r =
     (if \<not> wr_is_active r then (Inl NotActive, r)
      else
        let rest = drop (unat (wr_read_pos r)) (wr_file r);
            header_buf = take weh_SIZE rest
        in if header_buf = [] then (Inr None, r)
           else if length header_buf < weh_SIZE then (Inl IncompleteHeader, r)
           else let header = read_header header_buf;
                    len = unat (weh_length header);
                    data = take len (drop weh_SIZE rest)
                in if length data < len then (Inl IncompleteData, r)
                   else if \<not> weh_verify_checksum data header then (Inl ChecksumMismatch, r)
                   else (Inr (Some \<lparr>wen_header = header, wen_data = data\<rparr>),
                         r\<lparr>wr_read_pos := wr_read_pos r + of_nat (weh_SIZE + len)\<rparr>))"

definition wr_rewind :: "WALReader \<Rightarrow> WALReader" where
  "wr_rewind r = r\<lparr>wr_read_pos := 0\<rparr>"

definition wr_set_active :: "bool \<Rightarrow> WALReader \<Rightarrow> WALReader" where
  "wr_set_active active r = r\<lparr>wr_is_active := active\<rparr>"

section \<open>The checksum\<close>

text \<open>It is CRC-32, without the wrong table of the order book.\<close>

lemma wal_crc_bit_eq: "wal_crc_bit = crc_bit"
proof
  fix c :: u32
  have "c AND 1 \<noteq> 0 \<longleftrightarrow> bit c 0" by (simp add: and_one_eq bit_0 odd_iff_mod_2_eq_one)
  then show "wal_crc_bit c = crc_bit c" by (simp add: wal_crc_bit_def crc_bit_def)
qed

lemma wal_crc32_is_crc32: "wal_crc32_fast data = crc32 data"
proof -
  have "wal_crc_byte = crc_byte" by (intro ext) (simp add: wal_crc_byte_def crc_byte_def wal_crc_bit_eq)
  moreover have "NOT x = x XOR 0xFFFFFFFF" for x :: u32
  proof -
    have "(0xFFFFFFFF :: u32) = - 1" by simp
    then show ?thesis by (simp only: bit.xor_one_right)
  qed
  ultimately show ?thesis by (simp add: wal_crc32_fast_def crc32_def)
qed

text \<open>A shift by one bit can be undone: the highest bit tells whether the polynomial was added.\<close>

lemma crc_bit_inj: "crc_bit a = crc_bit b \<Longrightarrow> a = b"
proof -
  assume eq: "crc_bit a = crc_bit b"
  have top: "bit (crc_bit x) 31 \<longleftrightarrow> bit x 0" for x
    using bit_imp_le_length [of x 32] by (auto simp: crc_bit_def bit_simps)
  have low: "bit a 0 = bit b 0" using top [of a] top [of b] eq by simp
  have "bit a n = bit b n" if "n < 32" for n
  proof (cases n)
    case 0
    with low show ?thesis by simp
  next
    case (Suc k)
    have "bit (crc_bit x) k = (bit x (Suc k) \<noteq> (bit x 0 \<and> bit (0xEDB88320 :: u32) k))" for x
      by (simp add: crc_bit_def bit_simps)
    from this [of a] this [of b] eq low Suc show ?thesis by auto
  qed
  then show "a = b" by (intro bit_word_eqI) simp
qed

lemma crc_byte_inj: "crc_byte x a = crc_byte y b \<Longrightarrow> a XOR ucast x = b XOR ucast y"
proof -
  have "(crc_bit ^^ n) a = (crc_bit ^^ n) b \<Longrightarrow> a = b" for n a b
    by (induction n) (auto dest: crc_bit_inj)
  then show "crc_byte x a = crc_byte y b \<Longrightarrow> a XOR ucast x = b XOR ucast y" by (simp add: crc_byte_def)
qed

lemma xor_cancel_right: "a XOR c = b XOR c \<Longrightarrow> a = (b :: u32)"
proof -
  assume "a XOR c = b XOR c"
  then have "(a XOR c) XOR c = (b XOR c) XOR c" by simp
  then show "a = b" by (simp add: xor.assoc)
qed

lemma xor_cancel_left: "c XOR a = c XOR b \<Longrightarrow> a = (b :: u32)"
  by (rule xor_cancel_right [where c = c]) (simp add: xor.commute)

lemma byte_ucast_inj:
  assumes "(ucast a :: u32) = ucast b"
  shows "a = (b :: u8)"
proof (rule bit_word_eqI)
  fix n
  assume n: "n < LENGTH(8)"
  have "bit (ucast a :: u32) n = bit (ucast b :: u32) n" unfolding assms ..
  with n show "bit a n = bit b n" by (simp add: bit_simps)
qed

lemma crc_fold_inj: "fold crc_byte data a = fold crc_byte data b \<Longrightarrow> a = b"
proof (induction data arbitrary: a b)
  case (Cons x data)
  then have "crc_byte x a = crc_byte x b" by simp
  from crc_byte_inj [OF this] show ?case by (rule xor_cancel_right)
qed simp

text \<open>
  C34: The log notices every wrong byte. When one byte of the data of an entry differs from what was
  written, whatever the data and the byte, the checksum of the entry does not fit.
\<close>

theorem wrong_byte_detected:
  assumes "i < length data" and "b \<noteq> data ! i" and "weh_verify_checksum data h"
  shows "\<not> weh_verify_checksum (data[i := b]) h"
proof -
  define c where "c = fold crc_byte (take i data) 0xFFFFFFFF"
  have folds: "fold crc_byte (data[i := x]) 0xFFFFFFFF = fold crc_byte (drop (Suc i) data) (crc_byte x c)" for x
    using assms(1) by (simp add: upd_conv_take_nth_drop c_def)
  have "crc32 (data[i := b]) \<noteq> crc32 (data[i := data ! i])"
  proof
    assume "crc32 (data[i := b]) = crc32 (data[i := data ! i])"
    then have "fold crc_byte (data[i := b]) 0xFFFFFFFF = fold crc_byte (data[i := data ! i]) 0xFFFFFFFF"
      unfolding crc32_def by (rule xor_cancel_right)
    then have "crc_byte b c = crc_byte (data ! i) c" unfolding folds by (rule crc_fold_inj)
    then have "c XOR ucast b = c XOR ucast (data ! i)" by (rule crc_byte_inj)
    then have "(ucast b :: u32) = ucast (data ! i)" by (rule xor_cancel_left)
    then have "b = data ! i" by (rule byte_ucast_inj)
    with assms(2) show False by simp
  qed
  with assms(3) show ?thesis by (simp add: weh_verify_checksum_def wal_crc32_is_crc32)
qed

theorem wrong_byte_detected_witness:
  "\<not> weh_verify_checksum ([1, 2, 3][1 := 7]) (weh_calculate_checksum [1, 2, 3] (weh_new 0 3 0 0))"
  by (rule wrong_byte_detected) (simp, simp, simp add: weh_verify_checksum_def weh_calculate_checksum_def)

section \<open>Reading back\<close>

lemma length_header_bytes [simp]: "length (header_bytes pad h) = weh_SIZE"
  by (simp add: header_bytes_def weh_SIZE_def)

lemma header_bytes_nonempty [simp]: "header_bytes pad h \<noteq> []"
  by (simp add: header_bytes_def)

lemma read_header_bytes: "read_header (header_bytes pad h) = h"
proof -
  have drops: "drop 4 (header_bytes pad h) = le_bytes 4 (weh_length h) @ le_bytes 8 (weh_sequence h) @
      le_bytes 8 (weh_timestamp_ns h) @ le_bytes 4 (weh_checksum h) @ [pad 3, pad 4, pad 5, pad 6]"
    "header_bytes pad h ! 0 = weh_entry_type h"
    by (simp_all add: header_bytes_def)
  have "drop 8 (header_bytes pad h) = drop 4 (drop 4 (header_bytes pad h))"
    "drop 16 (header_bytes pad h) = drop 12 (drop 4 (header_bytes pad h))"
    "drop 24 (header_bytes pad h) = drop 20 (drop 4 (header_bytes pad h))" by simp_all
  then show ?thesis unfolding read_header_def slice_def drops by (simp add: le_roundtrip_word drops)
qed

text \<open>What an append without a fault adds to the file, and the entry a reader then finds.\<close>

record wal_input =
  wi_type :: WALEntryType
  wi_data :: "u8 list"
  wi_now :: u64
  wi_pad :: "nat \<Rightarrow> u8"

definition entry_of :: "u64 \<Rightarrow> wal_input \<Rightarrow> WALEntry" where
  "entry_of sequence i =
     \<lparr>wen_header = weh_calculate_checksum (wi_data i)
        (weh_new (wet_code (wi_type i)) (of_nat (length (wi_data i))) sequence (wi_now i)),
      wen_data = wi_data i\<rparr>"

definition record_bytes :: "u64 \<Rightarrow> wal_input \<Rightarrow> u8 list" where
  "record_bytes sequence i = header_bytes (wi_pad i) (wen_header (entry_of sequence i)) @ wi_data i"

definition append_input :: "wal_input \<Rightarrow> WALWriter \<Rightarrow> WALWriter" where
  "append_input i w = snd (ww_append (wi_pad i) (\<lambda>_. None) (wi_now i) (wi_type i) (wi_data i) w)"

fun log_bytes :: "u64 \<Rightarrow> wal_input list \<Rightarrow> u8 list" where
  "log_bytes sequence [] = []"
| "log_bytes sequence (i # is) = record_bytes sequence i @ log_bytes (sequence + 1) is"

lemma append_input_effect:
  assumes "ww_is_active w"
  shows "ww_file (append_input i w) = ww_file w @ record_bytes (ww_sequence w) i"
    and "ww_sequence (append_input i w) = ww_sequence w + 1" and "ww_is_active (append_input i w)"
  using assms by (simp_all add: append_input_def ww_append_def file_write_def record_bytes_def entry_of_def
      ww_sync_def Let_def)

lemma run_append_input:
  "ww_is_active w \<Longrightarrow> ww_file (run append_input is w) = ww_file w @ log_bytes (ww_sequence w) is"
proof (induction "is" arbitrary: w)
  case (Cons i "is")
  with append_input_effect [OF Cons.prems, of i] show ?case by simp
qed simp

text \<open>The results of the first \<open>n\<close> reads.\<close>

fun wr_reads :: "nat \<Rightarrow> WALReader \<Rightarrow> (WALError + WALEntry option) list" where
  "wr_reads 0 r = []"
| "wr_reads (Suc n) r = (case wr_read_next r of (x, r) \<Rightarrow> x # wr_reads n r)"

lemma read_record:
  assumes "drop (unat (wr_read_pos r)) (wr_file r) = record_bytes sequence i @ rest" and "wr_is_active r"
    and "length (wi_data i) < 2 ^ 32"
  shows "wr_read_next r = (Inr (Some (entry_of sequence i)),
    r\<lparr>wr_read_pos := wr_read_pos r + of_nat (length (record_bytes sequence i))\<rparr>)"
proof -
  have len: "unat (of_nat (length (wi_data i)) :: u32) = length (wi_data i)"
    using assms(3) by (simp add: unsigned_of_nat take_bit_nat_eq_self)
  then show ?thesis
    using assms by (simp add: wr_read_next_def record_bytes_def read_header_bytes Let_def entry_of_def
        weh_calculate_checksum_def weh_verify_checksum_def weh_new_def) (simp add: weh_SIZE_def)
qed

text \<open>A record cut short is reported, and never read as an entry.\<close>

lemma read_torn:
  assumes "drop (unat (wr_read_pos r)) (wr_file r) = take k (record_bytes sequence i)" and "wr_is_active r"
    and "length (wi_data i) < 2 ^ 32" and "k < length (record_bytes sequence i)"
  shows "fst (wr_read_next r) = (if k = 0 then Inr None else if k < weh_SIZE then Inl IncompleteHeader else Inl IncompleteData)"
proof -
  have len: "unat (of_nat (length (wi_data i)) :: u32) = length (wi_data i)"
    using assms(3) by (simp add: unsigned_of_nat take_bit_nat_eq_self)
  have size: "length (record_bytes sequence i) = weh_SIZE + length (wi_data i)" by (simp add: record_bytes_def)
  show ?thesis
  proof (cases "k < weh_SIZE")
    case True
    then show ?thesis using assms by (simp add: wr_read_next_def record_bytes_def Let_def)
  next
    case False
    then have "take k (record_bytes sequence i) =
        header_bytes (wi_pad i) (wen_header (entry_of sequence i)) @ take (k - weh_SIZE) (wi_data i)"
      by (simp add: record_bytes_def)
    moreover have "weh_length (wen_header (entry_of sequence i)) = of_nat (length (wi_data i))"
      by (simp add: entry_of_def weh_calculate_checksum_def weh_new_def)
    ultimately show ?thesis
      using assms False len size by (simp add: wr_read_next_def read_header_bytes Let_def) (auto simp: weh_SIZE_def)
  qed
qed

text \<open>Reading a prefix of the log, entry by entry; the numbers of the entries count up from the first.\<close>

fun entries_of :: "u64 \<Rightarrow> wal_input list \<Rightarrow> WALEntry list" where
  "entries_of sequence [] = []"
| "entries_of sequence (i # is) = entry_of sequence i # entries_of (sequence + 1) is"

text \<open>How many entries of the log the first \<open>k\<close> bytes hold completely.\<close>

fun complete_entries :: "nat \<Rightarrow> wal_input list \<Rightarrow> nat" where
  "complete_entries k [] = 0"
| "complete_entries k (i # is) =
     (if k < weh_SIZE + length (wi_data i) then 0
      else Suc (complete_entries (k - (weh_SIZE + length (wi_data i))) is))"

lemma length_record_bytes: "length (record_bytes sequence i) = weh_SIZE + length (wi_data i)"
  by (simp add: record_bytes_def)

lemma read_prefix:
  assumes "drop (unat (wr_read_pos r)) (wr_file r) = take k (log_bytes sequence is)" and "wr_is_active r"
    and "\<forall>i \<in> set is. length (wi_data i) < 2 ^ 32" and "length (wr_file r) < 2 ^ 64"
    and "unat (wr_read_pos r) \<le> length (wr_file r)"
  shows "\<exists>x. wr_reads (complete_entries k is + 1) r =
      map (\<lambda>e. Inr (Some e)) (take (complete_entries k is) (entries_of sequence is)) @ [x] \<and>
    (\<forall>e. x \<noteq> Inr (Some e)) \<and> (length (log_bytes sequence is) \<le> k \<longrightarrow> x = Inr None)"
  using assms
proof (induction "is" arbitrary: r k sequence)
  case Nil
  then show ?case by (simp add: wr_read_next_def Let_def)
next
  case (Cons i "is")
  note size = length_record_bytes [of sequence i]
  have data: "length (wi_data i) < 2 ^ 32" using Cons.prems(3) by simp
  show ?case
  proof (cases "k < length (record_bytes sequence i)")
    case True
    then have torn: "drop (unat (wr_read_pos r)) (wr_file r) = take k (record_bytes sequence i)"
      using Cons.prems(1) by simp
    obtain x r' where next_read: "wr_read_next r = (x, r')" by (cases "wr_read_next r")
    from read_torn [OF torn Cons.prems(2) data True] next_read True show ?thesis
      by (simp add: size)
  next
    case False
    let ?n = "length (record_bytes sequence i)"
    let ?r = "r\<lparr>wr_read_pos := wr_read_pos r + of_nat ?n\<rparr>"
    have split: "drop (unat (wr_read_pos r)) (wr_file r) =
        record_bytes sequence i @ take (k - ?n) (log_bytes (sequence + 1) is)"
      using Cons.prems(1) False by simp
    have "length (drop (unat (wr_read_pos r)) (wr_file r)) \<ge> ?n" unfolding split by simp
    then have pos: "unat (wr_read_pos r) + ?n \<le> length (wr_file r)" using Cons.prems(5) by simp
    with Cons.prems(4) have n: "unat (of_nat ?n :: u64) = ?n" "unat (wr_read_pos r) + ?n < 2 ^ 64"
      by (simp_all add: unsigned_of_nat take_bit_nat_eq_self)
    then have moved: "unat (wr_read_pos ?r) = unat (wr_read_pos r) + ?n" by (simp add: unat_add_u64)
    have rest: "drop (unat (wr_read_pos ?r)) (wr_file ?r) = take (k - ?n) (log_bytes (sequence + 1) is)"
      unfolding moved using arg_cong [OF split, of "drop ?n"] by (simp add: add.commute)
    from Cons.IH [OF rest] Cons.prems moved pos obtain x where x:
      "wr_reads (complete_entries (k - ?n) is + 1) ?r =
         map (\<lambda>e. Inr (Some e)) (take (complete_entries (k - ?n) is) (entries_of (sequence + 1) is)) @ [x]"
      "\<forall>e. x \<noteq> Inr (Some e)" "length (log_bytes (sequence + 1) is) \<le> k - ?n \<longrightarrow> x = Inr None" by auto
    with False read_record [OF split Cons.prems(2) data] show ?thesis
      by (intro exI [of _ x]) (simp add: size)
  qed
qed

lemma length_entries_of [simp]: "length (entries_of sequence is) = length is"
  by (induction "is" arbitrary: sequence) simp_all

text \<open>
  C15: The log survives a crash. When entries were appended to a new log and only a prefix of the file
  reached the disk, a reader gets back exactly the entries that are complete in the prefix, in order and
  with their sequence numbers from zero, and the read after them returns no entry: at the end of the whole
  log the end of file.
\<close>

theorem log_prefix_readable:
  assumes "content = ww_file (run append_input is (ww_new [] buffer_size sync_interval))"
    and "\<forall>i \<in> set is. length (wi_data i) < 2 ^ 32" and "length content < 2 ^ 64"
  shows "\<exists>x. wr_reads (complete_entries k is + 1) (wr_new (take k content)) =
      map (\<lambda>e. Inr (Some e)) (take (complete_entries k is) (entries_of 0 is)) @ [x] \<and>
    (\<forall>e. x \<noteq> Inr (Some e)) \<and> (length content \<le> k \<longrightarrow> x = Inr None)"
proof -
  have content: "content = log_bytes 0 is"
    unfolding assms(1) by (subst run_append_input) (simp_all add: ww_new_def)
  show ?thesis
    using read_prefix [of "wr_new (take k content)" k 0 "is"] assms(2,3)
    by (simp add: content wr_new_def)
qed

definition example_input :: "u8 list \<Rightarrow> wal_input" where
  "example_input data = \<lparr>wi_type = OrderFilled, wi_data = data, wi_now = 5, wi_pad = (\<lambda>_. 0)\<rparr>"

theorem log_prefix_readable_witness:
  "hd (wr_reads 2 (wr_new (take 40 (ww_file (run append_input [example_input [1, 2], example_input [3]]
     (ww_new [] 0 0)))))) = Inr (Some (entry_of 0 (example_input [1, 2])))"
proof -
  let ?is = "[example_input [1, 2], example_input [3]]"
  have m: "complete_entries 40 ?is = 1" by (simp add: example_input_def weh_SIZE_def)
  have "length (ww_file (run append_input ?is (ww_new [] 0 0))) < 2 ^ 64"
    by (subst run_append_input) (simp_all add: ww_new_def length_record_bytes example_input_def weh_SIZE_def)
  moreover have "\<forall>i \<in> set ?is. length (wi_data i) < 2 ^ 32" by (simp add: example_input_def)
  ultimately have "\<exists>x. wr_reads (complete_entries 40 ?is + 1) (wr_new (take 40 (ww_file (run append_input ?is (ww_new [] 0 0))))) =
      map (\<lambda>e. Inr (Some e)) (take (complete_entries 40 ?is) (entries_of 0 ?is)) @ [x]"
    using log_prefix_readable [OF refl, of ?is 0 0 40] by blast
  then obtain x where "wr_reads 2 (wr_new (take 40 (ww_file (run append_input ?is (ww_new [] 0 0))))) =
      [Inr (Some (entry_of 0 (example_input [1, 2]))), x]"
    unfolding m by (auto simp: numeral_2_eq_2 simp del: wr_reads.simps run_simps)
  then show ?thesis by (simp only: list.sel)
qed

section \<open>What the log does not notice\<close>

text \<open>An append that fails while writing uses up a sequence number and leaves its bytes in the file.\<close>

lemma failed_append:
  assumes "ww_is_active w"
  shows "ww_append pad (\<lambda>k. if k = 0 then Some j else None) now ty data w =
    (Inl WriteFailed, w\<lparr>ww_sequence := ww_sequence w + 1,
       ww_file := ww_file w @ take j (header_bytes pad (wen_header
         (entry_of (ww_sequence w) \<lparr>wi_type = ty, wi_data = data, wi_now = now, wi_pad = pad\<rparr>)))\<rparr>)"
  using assms by (simp add: ww_append_def file_write_def entry_of_def Let_def)

text \<open>The checksum covers the data alone: a header with another type, number and time passes.\<close>

lemma header_not_protected:
  "weh_verify_checksum data (h\<lparr>weh_entry_type := t, weh_sequence := s, weh_timestamp_ns := n\<rparr>) =
     weh_verify_checksum data h"
  by (simp add: weh_verify_checksum_def)

text \<open>A writer that continues a log starts with sequence number zero again.\<close>

lemma reopened_log_repeats:
  "fst (ww_append pad (\<lambda>_. None) now ty data (ww_new content n m)) = Inr 0"
  by (simp add: ww_append_def ww_new_def file_write_def ww_sync_def Let_def)

text \<open>A reader does not get past an entry it cannot read.\<close>

lemma reader_stays: "fst (wr_read_next r) = Inl e \<Longrightarrow> snd (wr_read_next r) = r"
  by (auto simp: wr_read_next_def Let_def split: if_splits)

lemma types_roundtrip: "wet_from_u8 (wet_code t) = t"
  by (cases t) (simp_all add: wet_from_u8_def wet_code_def)

end
