(* ===== verification/Event_Replay.thy ===== *)
theory Event_Replay
  imports Write_Ahead_Log
begin

text \<open>
  Replay of market events (\<open>src/src/event_store/replay.rs\<close>) and the event store that checks sequence numbers,
  feeds the replay and writes the log (\<open>src/src/event_store/mod.rs\<close>).

  \<open>push_event\<close> changes the book through a shared reference, which does not compile; the model has the
  intended effect. The bytes of an event, whose layout Rust does not define, are a parameter. The log
  entry for a gap has a type \<open>SequenceGap\<close> that does not exist; it is an argument.
\<close>

section \<open>Events and the book\<close>

datatype ReplayEventType = RSnapshot | LevelAdd | LevelUpdate | LevelDelete | Trade | SequenceGap

datatype ReplaySide = BidSide | AskSide

record ReplayEvent =
  rv_event_type :: ReplayEventType
  rv_timestamp_ns :: u64
  rv_sequence :: u64
  rv_price :: i64
  rv_quantity :: u64
  rv_side :: ReplaySide
  rv_order_id :: u64

record BookLevel =
  bl_price :: i64
  bl_quantity :: u64
  bl_order_count :: u32

record ReconstructedBook =
  rkb_bids :: "BookLevel list"
  rkb_asks :: "BookLevel list"
  rkb_last_update_ns :: u64
  rkb_sequence :: u64

definition rkb_new :: ReconstructedBook where
  "rkb_new = \<lparr>rkb_bids = [], rkb_asks = [], rkb_last_update_ns = 0, rkb_sequence = 0\<rparr>"

text \<open>Insertion before the first level that is worse, and change of the first level with a price.\<close>

fun insert_level :: "(BookLevel \<Rightarrow> bool) \<Rightarrow> BookLevel \<Rightarrow> BookLevel list \<Rightarrow> BookLevel list" where
  "insert_level worse lv [] = [lv]"
| "insert_level worse lv (l # ls) = (if worse l then lv # l # ls else l # insert_level worse lv ls)"

fun change_level :: "i64 \<Rightarrow> (u64 \<Rightarrow> u64) \<Rightarrow> BookLevel list \<Rightarrow> BookLevel list" where
  "change_level price f [] = []"
| "change_level price f (l # ls) =
     (if bl_price l = price then l\<lparr>bl_quantity := f (bl_quantity l)\<rparr> # ls else l # change_level price f ls)"

definition worse_level :: "ReplaySide \<Rightarrow> i64 \<Rightarrow> BookLevel \<Rightarrow> bool" where
  "worse_level side price l =
     (if side = BidSide then bl_price l <s price else price <s bl_price l)"

definition rkb_apply_levels :: "ReplayEvent \<Rightarrow> BookLevel list \<Rightarrow> BookLevel list" where
  "rkb_apply_levels e levels =
     (let lv = \<lparr>bl_price = rv_price e, bl_quantity = rv_quantity e, bl_order_count = 1\<rparr>
      in case rv_event_type e of
           RSnapshot \<Rightarrow> if 0 < rv_quantity e then [lv] else []
         | LevelAdd \<Rightarrow> insert_level (worse_level (rv_side e) (rv_price e)) lv levels
         | LevelUpdate \<Rightarrow> change_level (rv_price e) (\<lambda>_. rv_quantity e) levels
         | LevelDelete \<Rightarrow> filter (\<lambda>l. bl_price l \<noteq> rv_price e) levels
         | Trade \<Rightarrow> change_level (rv_price e) (\<lambda>q. u64_sat_sub q (rv_quantity e)) levels
         | SequenceGap \<Rightarrow> levels)"

definition rkb_apply_event :: "ReplayEvent \<Rightarrow> ReconstructedBook \<Rightarrow> ReconstructedBook" where
  "rkb_apply_event e b =
     (let b = b\<lparr>rkb_last_update_ns := rv_timestamp_ns e, rkb_sequence := rv_sequence e\<rparr>
      in case rv_side e of
           BidSide \<Rightarrow> b\<lparr>rkb_bids := rkb_apply_levels e (rkb_bids b)\<rparr>
         | AskSide \<Rightarrow> b\<lparr>rkb_asks := rkb_apply_levels e (rkb_asks b)\<rparr>)"

definition first_price :: "BookLevel list \<Rightarrow> i64 option" where
  "first_price ls = (case ls of [] \<Rightarrow> None | l # _ \<Rightarrow> Some (bl_price l))"

definition rkb_best_bid :: "ReconstructedBook \<Rightarrow> i64 option" where
  "rkb_best_bid b = first_price (rkb_bids b)"

definition rkb_best_ask :: "ReconstructedBook \<Rightarrow> i64 option" where
  "rkb_best_ask b = first_price (rkb_asks b)"

definition rkb_mid_price :: "ReconstructedBook \<Rightarrow> i64 option" where
  "rkb_mid_price b =
     (case (rkb_best_bid b, rkb_best_ask b) of
        (Some bid, Some ask) \<Rightarrow> Some (i64_div (bid + ask) 2)
      | (Some bid, None) \<Rightarrow> Some bid
      | (None, Some ask) \<Rightarrow> Some ask
      | (None, None) \<Rightarrow> None)"

definition rkb_spread :: "ReconstructedBook \<Rightarrow> i64 option" where
  "rkb_spread b =
     (case (rkb_best_bid b, rkb_best_ask b) of (Some bid, Some ask) \<Rightarrow> Some (ask - bid) | _ \<Rightarrow> None)"

section \<open>The replay engine\<close>

text \<open>The event buffer and its two indices are allocated and never used; they are left out.\<close>

record ReplayEngine =
  rpe_events_processed :: u64
  rpe_gaps_detected :: u64
  rpe_is_active :: bool
  rpe_current_book :: ReconstructedBook

definition rpe_new :: ReplayEngine where
  "rpe_new =
     \<lparr>rpe_events_processed = 0, rpe_gaps_detected = 0, rpe_is_active = True, rpe_current_book = rkb_new\<rparr>"

definition rpe_apply_event_internal :: "ReplayEvent \<Rightarrow> ReplayEngine \<Rightarrow> ReplayEngine" where
  "rpe_apply_event_internal e g =
     g\<lparr>rpe_current_book := rkb_apply_event e (rpe_current_book g),
       rpe_events_processed := rpe_events_processed g + 1\<rparr>"

definition rpe_push_event :: "ReplayEvent \<Rightarrow> ReplayEngine \<Rightarrow> bool \<times> ReplayEngine" where
  "rpe_push_event e g =
     (if \<not> rpe_is_active g then (False, g)
      else
        let expected_seq = rkb_sequence (rpe_current_book g) + 1;
            g = (if rv_sequence e \<noteq> expected_seq \<and> 0 < rkb_sequence (rpe_current_book g)
                 then rpe_apply_event_internal
                        \<lparr>rv_event_type = SequenceGap, rv_timestamp_ns = rv_timestamp_ns e,
                         rv_sequence = expected_seq, rv_price = 0, rv_quantity = 0, rv_side = BidSide,
                         rv_order_id = 0\<rparr>
                        (g\<lparr>rpe_gaps_detected := rpe_gaps_detected g + 1\<rparr>)
                 else g)
        in (True, rpe_apply_event_internal e g))"

record ReplayResult =
  rr_events_replayed :: nat
  rr_gaps_found :: nat
  rr_elapsed_ns :: u64
  rr_final_sequence :: u64
  rr_success :: bool

definition rr_inactive :: ReplayResult where
  "rr_inactive =
     \<lparr>rr_events_replayed = 0, rr_gaps_found = 0, rr_elapsed_ns = 0, rr_final_sequence = 0, rr_success = False\<rparr>"

text \<open>\<open>elapsed\<close> is the time the replay took.\<close>

definition rpe_replay_events :: "u64 \<Rightarrow> ReplayEvent list \<Rightarrow> ReplayEngine \<Rightarrow> ReplayResult \<times> ReplayEngine" where
  "rpe_replay_events elapsed events g =
     (if \<not> rpe_is_active g then (rr_inactive, g)
      else let g = g\<lparr>rpe_current_book := fold rkb_apply_event events (rpe_current_book g)\<rparr>
           in (\<lparr>rr_events_replayed = length events,
                rr_gaps_found = length (filter (\<lambda>e. rv_event_type e = SequenceGap) events),
                rr_elapsed_ns = elapsed, rr_final_sequence = rkb_sequence (rpe_current_book g), rr_success = True\<rparr>,
               g))"

definition rpe_reset :: "ReplayEngine \<Rightarrow> ReplayEngine" where
  "rpe_reset g = g\<lparr>rpe_current_book := rkb_new, rpe_events_processed := 0, rpe_gaps_detected := 0\<rparr>"

record ReplayStats =
  rps_events_processed :: u64
  rps_gaps_detected :: u64
  rps_current_sequence :: u64
  rps_is_active :: bool

definition rpe_get_stats :: "ReplayEngine \<Rightarrow> ReplayStats" where
  "rpe_get_stats g =
     \<lparr>rps_events_processed = rpe_events_processed g, rps_gaps_detected = rpe_gaps_detected g,
      rps_current_sequence = rkb_sequence (rpe_current_book g), rps_is_active = rpe_is_active g\<rparr>"

definition rpe_set_active :: "bool \<Rightarrow> ReplayEngine \<Rightarrow> ReplayEngine" where
  "rpe_set_active active g = g\<lparr>rpe_is_active := active\<rparr>"

section \<open>The event store\<close>

record SequenceGapInfo =
  sgi_expected_sequence :: u64
  sgi_received_sequence :: u64
  sgi_gap_size :: u64
  sgi_timestamp_ns :: u64
  sgi_snapshot_requested :: bool

record EventStore =
  est_wal_writer :: "WALWriter option"
  est_replay_engine :: ReplayEngine
  est_expected_sequence :: u64
  est_total_gaps :: u64
  est_snapshots_triggered :: u64
  est_is_active :: bool
  est_auto_snapshot_on_gap :: bool

definition est_new :: "u8 list option \<Rightarrow> u64 \<Rightarrow> bool \<Rightarrow> EventStore" where
  "est_new wal_content buffer_size auto_snapshot =
     \<lparr>est_wal_writer = map_option (\<lambda>content. ww_new content buffer_size 4096) wal_content,
      est_replay_engine = rpe_new, est_expected_sequence = 0, est_total_gaps = 0,
      est_snapshots_triggered = 0, est_is_active = True, est_auto_snapshot_on_gap = auto_snapshot\<rparr>"

text \<open>What a write to the log meets: the time, the padding in memory and the faults of the file.\<close>

record wal_env =
  we_now :: u64
  we_pad :: "nat \<Rightarrow> u8"
  we_faults :: "nat \<Rightarrow> fault"

definition est_log :: "wal_env \<Rightarrow> WALEntryType \<Rightarrow> u8 list \<Rightarrow> EventStore \<Rightarrow> EventStore" where
  "est_log env ty data s =
     s\<lparr>est_wal_writer := map_option (\<lambda>w. snd (ww_append (we_pad env) (we_faults env) (we_now env) ty data w))
         (est_wal_writer s)\<rparr>"

definition est_entry_type :: "ReplayEventType \<Rightarrow> WALEntryType" where
  "est_entry_type t =
     (case t of RSnapshot \<Rightarrow> StateSnapshot | LevelAdd \<Rightarrow> OrderModified | LevelUpdate \<Rightarrow> OrderModified
      | LevelDelete \<Rightarrow> OrderModified | Trade \<Rightarrow> OrderFilled | SequenceGap \<Rightarrow> Heartbeat)"

definition est_process_event ::
    "(ReplayEvent \<Rightarrow> u8 list) \<Rightarrow> WALEntryType \<Rightarrow> wal_env \<Rightarrow> ReplayEvent \<Rightarrow> EventStore \<Rightarrow>
       SequenceGapInfo option \<times> EventStore" where
  "est_process_event ev_bytes gap_type env e s =
     (if \<not> est_is_active s then (None, s)
      else
        let expected = est_expected_sequence s
        in if rv_sequence e \<noteq> expected \<and> 0 < expected
           then let gap_size = (if expected < rv_sequence e then rv_sequence e - expected else 0);
                    s = s\<lparr>est_total_gaps := est_total_gaps s + 1\<rparr>;
                    requested = (est_auto_snapshot_on_gap s \<and> 0 < gap_size);
                    s = (if requested
                         then s\<lparr>est_snapshots_triggered := est_snapshots_triggered s + 1\<rparr> else s);
                    s = s\<lparr>est_expected_sequence := rv_sequence e + 1\<rparr>
                in (Some \<lparr>sgi_expected_sequence = expected, sgi_received_sequence = rv_sequence e,
                          sgi_gap_size = gap_size, sgi_timestamp_ns = rv_timestamp_ns e,
                          sgi_snapshot_requested = requested\<rparr>,
                    est_log env gap_type [] s)
           else let s = s\<lparr>est_expected_sequence := rv_sequence e + 1\<rparr>;
                    s = s\<lparr>est_replay_engine := snd (rpe_push_event e (est_replay_engine s))\<rparr>
                in (None, est_log env (est_entry_type (rv_event_type e)) (ev_bytes e) s))"

definition est_get_current_book :: "EventStore \<Rightarrow> ReconstructedBook" where
  "est_get_current_book s = rpe_current_book (est_replay_engine s)"

definition est_request_snapshot :: "EventStore \<Rightarrow> EventStore" where
  "est_request_snapshot s = s\<lparr>est_snapshots_triggered := est_snapshots_triggered s + 1\<rparr>"

record EventStoreStats =
  ess_expected_sequence :: u64
  ess_total_gaps :: u64
  ess_snapshots_triggered :: u64
  ess_events_processed :: u64
  ess_is_active :: bool

definition est_get_stats :: "EventStore \<Rightarrow> EventStoreStats" where
  "est_get_stats s =
     \<lparr>ess_expected_sequence = est_expected_sequence s, ess_total_gaps = est_total_gaps s,
      ess_snapshots_triggered = est_snapshots_triggered s,
      ess_events_processed = rps_events_processed (rpe_get_stats (est_replay_engine s)),
      ess_is_active = est_is_active s\<rparr>"

definition est_sync :: "fault \<Rightarrow> EventStore \<Rightarrow> (WALError + unit) \<times> EventStore" where
  "est_sync fault s =
     (case est_wal_writer s of
        None \<Rightarrow> (Inr (), s)
      | Some w \<Rightarrow> (case ww_sync fault w of (r, w) \<Rightarrow> (r, s\<lparr>est_wal_writer := Some w\<rparr>)))"

definition est_set_active :: "bool \<Rightarrow> EventStore \<Rightarrow> EventStore" where
  "est_set_active active s =
     s\<lparr>est_is_active := active, est_replay_engine := rpe_set_active active (est_replay_engine s),
       est_wal_writer := map_option (ww_set_active active) (est_wal_writer s)\<rparr>"

definition est_reset :: "EventStore \<Rightarrow> EventStore" where
  "est_reset s =
     s\<lparr>est_expected_sequence := 0, est_total_gaps := 0, est_snapshots_triggered := 0,
       est_replay_engine := rpe_reset (est_replay_engine s)\<rparr>"

section \<open>The book as a map\<close>

definition level_quotes :: "BookLevel list \<Rightarrow> i64 \<rightharpoonup> u64" where
  "level_quotes ls = map_of (map (\<lambda>l. (bl_price l, bl_quantity l)) ls)"

definition rkb_levels :: "ReplaySide \<Rightarrow> ReconstructedBook \<Rightarrow> BookLevel list" where
  "rkb_levels side b = (case side of BidSide \<Rightarrow> rkb_bids b | AskSide \<Rightarrow> rkb_asks b)"

definition rkb_quotes :: "ReconstructedBook \<Rightarrow> ReplaySide \<Rightarrow> i64 \<rightharpoonup> u64" where
  "rkb_quotes b side = level_quotes (rkb_levels side b)"

text \<open>What an event says of the quotes of its side.\<close>

definition event_quotes :: "ReplayEvent \<Rightarrow> (i64 \<rightharpoonup> u64) \<Rightarrow> (i64 \<rightharpoonup> u64)" where
  "event_quotes e q =
     (case rv_event_type e of
        RSnapshot \<Rightarrow> if 0 < rv_quantity e then [rv_price e \<mapsto> rv_quantity e] else Map.empty
      | LevelAdd \<Rightarrow> q(rv_price e \<mapsto> rv_quantity e)
      | LevelUpdate \<Rightarrow> q(rv_price e := map_option (\<lambda>_. rv_quantity e) (q (rv_price e)))
      | LevelDelete \<Rightarrow> q(rv_price e := None)
      | Trade \<Rightarrow> q(rv_price e := map_option (\<lambda>x. u64_sat_sub x (rv_quantity e)) (q (rv_price e)))
      | SequenceGap \<Rightarrow> q)"

definition quotes_exec :: "ReplayEvent \<Rightarrow> (ReplaySide \<Rightarrow> i64 \<rightharpoonup> u64) \<Rightarrow> (ReplaySide \<Rightarrow> i64 \<rightharpoonup> u64)" where
  "quotes_exec e q = q(rv_side e := event_quotes e (q (rv_side e)))"

text \<open>Best prices first, and no price twice.\<close>

definition better_price :: "ReplaySide \<Rightarrow> i64 \<Rightarrow> i64 \<Rightarrow> bool" where
  "better_price side p q = (if side = BidSide then sint q < sint p else sint p < sint q)"

definition levels_sorted :: "ReplaySide \<Rightarrow> BookLevel list \<Rightarrow> bool" where
  "levels_sorted side ls = sorted_wrt (better_price side) (map bl_price ls)"

definition rkb_ok :: "ReconstructedBook \<Rightarrow> bool" where
  "rkb_ok b \<longleftrightarrow> (\<forall>side. levels_sorted side (rkb_levels side b))"

text \<open>A feed adds a level only where there is none.\<close>

definition rkb_allowed :: "ReplayEvent \<Rightarrow> ReconstructedBook \<Rightarrow> bool" where
  "rkb_allowed e b \<longleftrightarrow> rv_event_type e = LevelAdd \<longrightarrow> rkb_quotes b (rv_side e) (rv_price e) = None"

lemma sint_inject_i64: "sint p = sint q \<longleftrightarrow> p = (q :: i64)"
  by (metis signed_word_eqI)

lemma better_price_facts:
  "\<not> better_price side p p" "better_price side p q \<Longrightarrow> better_price side q r \<Longrightarrow> better_price side p r"
  "p \<noteq> q \<Longrightarrow> \<not> better_price side p q \<Longrightarrow> better_price side q p"
  using sint_inject_i64 [of p q] by (auto simp: better_price_def split: if_splits)

lemma worse_level_better: "worse_level side p l = better_price side p (bl_price l)"
  by (simp add: worse_level_def better_price_def word_sless_alt)

lemma set_insert_level: "bl_price ` set (insert_level worse lv ls) = insert (bl_price lv) (bl_price ` set ls)"
  by (induction ls) auto

lemma set_change_level: "map bl_price (change_level p f ls) = map bl_price ls"
  by (induction ls) auto

lemma level_quotes_Cons [simp]: "level_quotes (l # ls) = (level_quotes ls)(bl_price l \<mapsto> bl_quantity l)"
  by (simp add: level_quotes_def)

lemma level_quotes_Nil [simp]: "level_quotes [] = Map.empty"
  by (simp add: level_quotes_def)

lemma level_quotes_None: "level_quotes ls p = None \<longleftrightarrow> p \<notin> bl_price ` set ls"
  by (simp add: level_quotes_def map_of_eq_None_iff image_image)

lemma levels_sorted_insert:
  assumes "levels_sorted side ls" "bl_price lv \<notin> bl_price ` set ls"
  shows "levels_sorted side (insert_level (worse_level side (bl_price lv)) lv ls)"
  using assms
proof (induction ls)
  case (Cons l ls)
  then show ?case
    using better_price_facts(3) [of "bl_price lv" "bl_price l" side] set_insert_level
    by (auto simp: levels_sorted_def worse_level_better dest: better_price_facts(2))
qed (simp add: levels_sorted_def)

lemma level_quotes_insert:
  "bl_price lv \<notin> bl_price ` set ls \<Longrightarrow>
     level_quotes (insert_level worse lv ls) = (level_quotes ls)(bl_price lv \<mapsto> bl_quantity lv)"
  by (induction ls) (auto simp: fun_eq_iff)

lemma level_quotes_change:
  "levels_sorted side ls \<Longrightarrow>
     level_quotes (change_level p f ls) = (level_quotes ls)(p := map_option f (level_quotes ls p))"
  by (induction ls) (auto simp: levels_sorted_def fun_eq_iff)

lemma level_quotes_filter:
  "level_quotes (filter (\<lambda>l. bl_price l \<noteq> p) ls) = (level_quotes ls)(p := None)"
  by (induction ls) (auto simp: fun_eq_iff)

lemma levels_sorted_filter: "levels_sorted side ls \<Longrightarrow> levels_sorted side (filter P ls)"
  unfolding levels_sorted_def by (induction ls) auto

lemma apply_levels_refines:
  assumes "levels_sorted (rv_side e) ls"
    and "rv_event_type e = LevelAdd \<longrightarrow> level_quotes ls (rv_price e) = None"
  shows "levels_sorted (rv_side e) (rkb_apply_levels e ls)"
    and "level_quotes (rkb_apply_levels e ls) = event_quotes e (level_quotes ls)"
proof -
  have fresh: "rv_price e \<notin> bl_price ` set ls" if "rv_event_type e = LevelAdd"
    using assms(2) that by (simp add: level_quotes_None)
  show "levels_sorted (rv_side e) (rkb_apply_levels e ls)"
    using assms(1) fresh levels_sorted_insert [OF assms(1), of "\<lparr>bl_price = rv_price e, bl_quantity = rv_quantity e, bl_order_count = 1\<rparr>"]
    by (cases "rv_event_type e")
      (simp_all add: rkb_apply_levels_def levels_sorted_filter, simp_all add: levels_sorted_def set_change_level)
  show "level_quotes (rkb_apply_levels e ls) = event_quotes e (level_quotes ls)"
    using fresh assms(1)
    by (cases "rv_event_type e")
      (simp_all add: rkb_apply_levels_def event_quotes_def level_quotes_insert level_quotes_change level_quotes_filter)
qed

lemma rkb_levels_apply:
  "rkb_levels side (rkb_apply_event e b) =
     (if side = rv_side e then rkb_apply_levels e (rkb_levels side b) else rkb_levels side b)"
  by (cases side; cases "rv_side e") (simp_all add: rkb_levels_def rkb_apply_event_def)

interpretation replay: refined_system rkb_apply_event rkb_allowed rkb_ok quotes_exec rkb_quotes
proof
  fix b e
  assume ok: "rkb_ok b" and allowed: "rkb_allowed e b"
  then have pre: "levels_sorted (rv_side e) (rkb_levels (rv_side e) b)"
    "rv_event_type e = LevelAdd \<longrightarrow> level_quotes (rkb_levels (rv_side e) b) (rv_price e) = None"
    by (simp_all add: rkb_ok_def rkb_allowed_def rkb_quotes_def)
  show "rkb_ok (rkb_apply_event e b)"
    using ok apply_levels_refines(1) [OF pre] by (simp add: rkb_ok_def rkb_levels_apply)
  show "rkb_quotes (rkb_apply_event e b) = quotes_exec e (rkb_quotes b)"
    using apply_levels_refines(2) [OF pre] by (auto simp: rkb_quotes_def quotes_exec_def rkb_levels_apply)
qed

section \<open>Replayed books\<close>

lemma better_price_asym: "better_price side p q \<Longrightarrow> \<not> better_price side q p"
  by (simp add: better_price_def split: if_splits)

lemma first_price_best:
  assumes "levels_sorted side ls"
  shows "first_price ls = Some p \<longleftrightarrow>
    level_quotes ls p \<noteq> None \<and> (\<forall>q. level_quotes ls q \<noteq> None \<longrightarrow> \<not> better_price side q p)"
proof (cases ls)
  case (Cons l ks)
  have best: "better_price side (bl_price l) q" if "q \<in> bl_price ` set ks" for q
    using assms that by (auto simp: Cons levels_sorted_def)
  have quoted: "level_quotes ls q \<noteq> None \<longleftrightarrow> q = bl_price l \<or> q \<in> bl_price ` set ks" for q
    by (simp only: level_quotes_None Cons) auto
  have "(p = bl_price l \<or> p \<in> bl_price ` set ks) \<and>
      (\<forall>q. q = bl_price l \<or> q \<in> bl_price ` set ks \<longrightarrow> \<not> better_price side q p) \<longleftrightarrow> p = bl_price l"
    using best better_price_facts(1) better_price_asym by blast
  then show ?thesis unfolding quoted by (auto simp: Cons first_price_def)
qed (simp add: first_price_def)

text \<open>
  C22: Replay is exact. When a level is only added where there is none, the replayed book quotes on each
  side and at each price what the events say, trades and deletions included, and its best bid and ask are
  the highest and the lowest price quoted.
\<close>

theorem replayed_book_exact:
  assumes "b = run rkb_apply_event events rkb_new" and "permitted rkb_apply_event rkb_allowed events rkb_new"
  shows "rkb_quotes b = run quotes_exec events (\<lambda>_. Map.empty) \<and>
    (\<forall>p. rkb_best_bid b = Some p \<longleftrightarrow>
       rkb_quotes b BidSide p \<noteq> None \<and> (\<forall>q. rkb_quotes b BidSide q \<noteq> None \<longrightarrow> sint q \<le> sint p)) \<and>
    (\<forall>p. rkb_best_ask b = Some p \<longleftrightarrow>
       rkb_quotes b AskSide p \<noteq> None \<and> (\<forall>q. rkb_quotes b AskSide q \<noteq> None \<longrightarrow> sint p \<le> sint q))"
proof (intro conjI allI)
  have start: "rkb_ok rkb_new" "rkb_quotes rkb_new = (\<lambda>_. Map.empty)"
    by (auto simp: rkb_ok_def rkb_quotes_def rkb_levels_def rkb_new_def levels_sorted_def split: ReplaySide.split)
  show "rkb_quotes b = run quotes_exec events (\<lambda>_. Map.empty)"
    using replay.run_abs [OF start(1) assms(2)] by (simp add: assms(1) start(2))
  have "rkb_ok b" unfolding assms(1) by (rule replay.run_inv [OF start(1) assms(2)])
  then have sorted: "levels_sorted side (rkb_levels side b)" for side by (simp add: rkb_ok_def)
  fix p
  show "rkb_best_bid b = Some p \<longleftrightarrow>
      rkb_quotes b BidSide p \<noteq> None \<and> (\<forall>q. rkb_quotes b BidSide q \<noteq> None \<longrightarrow> sint q \<le> sint p)"
    using first_price_best [OF sorted, of BidSide p]
    by (simp add: rkb_best_bid_def rkb_levels_def rkb_quotes_def better_price_def not_less)
  show "rkb_best_ask b = Some p \<longleftrightarrow>
      rkb_quotes b AskSide p \<noteq> None \<and> (\<forall>q. rkb_quotes b AskSide q \<noteq> None \<longrightarrow> sint p \<le> sint q)"
    using first_price_best [OF sorted, of AskSide p]
    by (simp add: rkb_best_ask_def rkb_levels_def rkb_quotes_def better_price_def not_less)
qed

definition example_event :: "ReplayEventType \<Rightarrow> u64 \<Rightarrow> i64 \<Rightarrow> u64 \<Rightarrow> ReplayEvent" where
  "example_event t sequence price qty =
     \<lparr>rv_event_type = t, rv_timestamp_ns = 1000, rv_sequence = sequence, rv_price = price,
      rv_quantity = qty, rv_side = BidSide, rv_order_id = 1\<rparr>"

theorem replayed_book_exact_witness:
  "rkb_best_bid (run rkb_apply_event [example_event LevelAdd 1 9999 200, example_event LevelAdd 2 10000 100,
     example_event Trade 3 10000 40] rkb_new) = Some 10000"
proof -
  let ?es = "[example_event LevelAdd 1 9999 200, example_event LevelAdd 2 10000 100, example_event Trade 3 10000 40]"
  have ok: "permitted rkb_apply_event rkb_allowed ?es rkb_new"
    by (simp add: rkb_allowed_def rkb_quotes_def rkb_levels_def rkb_apply_event_def rkb_apply_levels_def rkb_new_def
        example_event_def worse_level_def)
  have "rkb_quotes (run rkb_apply_event ?es rkb_new) BidSide = [9999 \<mapsto> 200, 10000 \<mapsto> 60]"
    using replayed_book_exact [OF refl ok]
    by (simp add: quotes_exec_def event_quotes_def example_event_def u64_sat_sub_def)
  then show ?thesis
    using replayed_book_exact [OF refl ok] by (auto split: if_splits)
qed

lemma apply_after_gap:
  "rkb_apply_event e (rkb_apply_event (e'\<lparr>rv_event_type := SequenceGap\<rparr>) b) = rkb_apply_event e b"
  by (cases "rv_side e"; cases "rv_side e'") (simp_all add: rkb_apply_event_def rkb_apply_levels_def)

lemma push_book:
  assumes "rpe_is_active g"
  shows "rpe_current_book (snd (rpe_push_event e g)) = rkb_apply_event e (rpe_current_book g)"
    and "rpe_is_active (snd (rpe_push_event e g))"
  using assms apply_after_gap [of e "\<lparr>rv_event_type = Trade, rv_timestamp_ns = rv_timestamp_ns e,
      rv_sequence = rkb_sequence (rpe_current_book g) + 1, rv_price = 0, rv_quantity = 0, rv_side = BidSide,
      rv_order_id = 0\<rparr>" "rpe_current_book g"]
  by (simp_all add: rpe_push_event_def rpe_apply_event_internal_def Let_def)

lemma push_run:
  "rpe_is_active g \<Longrightarrow> rpe_current_book (run (\<lambda>e g. snd (rpe_push_event e g)) events g) =
     fold rkb_apply_event events (rpe_current_book g)"
  by (induction events arbitrary: g) (simp_all add: push_book)

text \<open>
  C23: Live and replayed books agree. Feeding events one by one to an active engine, which inserts an event
  for every gap it sees, leaves the same book, time and sequence number as replaying the list of events.
\<close>

theorem live_equals_replay:
  assumes "rpe_is_active g"
  shows "rpe_current_book (run (\<lambda>e g. snd (rpe_push_event e g)) events g) =
    rpe_current_book (snd (rpe_replay_events elapsed events g))"
  using push_run [OF assms] assms by (simp add: rpe_replay_events_def Let_def)

theorem live_equals_replay_witness:
  "rpe_current_book (run (\<lambda>e g. snd (rpe_push_event e g))
     [example_event LevelAdd 1 9999 200, example_event Trade 7 9999 50] rpe_new) =
   rpe_current_book (snd (rpe_replay_events 0 [example_event LevelAdd 1 9999 200, example_event Trade 7 9999 50] rpe_new))"
  by (rule live_equals_replay) (simp add: rpe_new_def)

section \<open>Gaps in the store\<close>

text \<open>The events of a feed that follow the number the store expects; the first one always does.\<close>

fun accepted :: "u64 \<Rightarrow> ReplayEvent list \<Rightarrow> ReplayEvent list" where
  "accepted expected [] = []"
| "accepted expected (e # es) =
     (if rv_sequence e \<noteq> expected \<and> 0 < expected then [] else [e]) @ accepted (rv_sequence e + 1) es"

definition est_feed ::
    "(ReplayEvent \<Rightarrow> u8 list) \<Rightarrow> WALEntryType \<Rightarrow> wal_env \<times> ReplayEvent \<Rightarrow> EventStore \<Rightarrow> EventStore" where
  "est_feed ev_bytes gap_type x s = snd (est_process_event ev_bytes gap_type (fst x) (snd x) s)"

lemma est_feed_step:
  assumes "est_is_active s"
  shows "est_is_active (est_feed ev_bytes gap_type x s)"
    and "est_expected_sequence (est_feed ev_bytes gap_type x s) = rv_sequence (snd x) + 1"
    and "est_replay_engine (est_feed ev_bytes gap_type x s) =
      (if rv_sequence (snd x) \<noteq> est_expected_sequence s \<and> 0 < est_expected_sequence s then est_replay_engine s
       else snd (rpe_push_event (snd x) (est_replay_engine s)))"
    and "est_total_gaps (est_feed ev_bytes gap_type x s) =
      est_total_gaps s +
        (if rv_sequence (snd x) \<noteq> est_expected_sequence s \<and> 0 < est_expected_sequence s then 1 else 0)"
  using assms by (simp_all add: est_feed_def est_process_event_def est_log_def Let_def)

lemma est_feed_run:
  assumes "est_is_active s"
  shows "est_replay_engine (run (est_feed ev_bytes gap_type) xs s) =
      run (\<lambda>e g. snd (rpe_push_event e g)) (accepted (est_expected_sequence s) (map snd xs)) (est_replay_engine s) \<and>
    est_total_gaps (run (est_feed ev_bytes gap_type) xs s) =
      est_total_gaps s + of_nat (length xs) - of_nat (length (accepted (est_expected_sequence s) (map snd xs)))"
  using assms
proof (induction xs arbitrary: s)
  case (Cons x xs)
  note step = est_feed_step [OF Cons.prems, of ev_bytes gap_type x]
  show ?case using Cons.IH [OF step(1)] by (simp add: step run_append)
qed simp

text \<open>
  C24: The store keeps the book of the events in sequence. Whatever happens to the log, after any feed the
  current book is the replay of the events that had the number expected, each other event is counted as a
  gap, and it does not reach the book.
\<close>

theorem store_book_exact:
  "est_get_current_book (run (est_feed ev_bytes gap_type) xs (est_new content buffer_size auto)) =
     fold rkb_apply_event (accepted 0 (map snd xs)) rkb_new \<and>
   est_total_gaps (run (est_feed ev_bytes gap_type) xs (est_new content buffer_size auto)) =
     of_nat (length xs) - of_nat (length (accepted 0 (map snd xs)))"
proof -
  let ?s = "est_new content buffer_size auto"
  have s: "est_is_active ?s" "est_expected_sequence ?s = 0" "est_replay_engine ?s = rpe_new" "est_total_gaps ?s = 0"
    by (simp_all add: est_new_def)
  show ?thesis
    using est_feed_run [OF s(1), of ev_bytes gap_type xs] push_run [of rpe_new]
    by (simp add: s est_get_current_book_def) (simp add: rpe_new_def)
qed

text \<open>A late event moves the expectation back, so the event that was due next is taken for a gap and lost.\<close>

lemma late_event_loses_next:
  assumes "est_is_active s" "0 < est_expected_sequence s" "rv_sequence (snd x) < est_expected_sequence s"
    and "rv_sequence (snd x) + 1 \<noteq> est_expected_sequence s" and "rv_sequence (snd y) = est_expected_sequence s" "0 < rv_sequence (snd x) + 1"
  shows "est_replay_engine (run (est_feed ev_bytes gap_type) [x, y] s) = est_replay_engine s"
proof -
  note first = est_feed_step [OF assms(1), of ev_bytes gap_type x]
  note second = est_feed_step [OF first(1), of ev_bytes gap_type y]
  show ?thesis using assms by (auto simp: first second)
qed

end
