(* ===== verification/Rate_Limiter.thy ===== *)
theory Rate_Limiter
  imports Float64
begin

text \<open>
  The token bucket that limits requests to an exchange (\<open>src/src/network/rate_limiter.rs\<close>).

  Every call reads the time once, in milliseconds; it is an argument, and \<open>acquire\<close>, which sleeps between
  its attempts, takes one reading per attempt. The compare-and-swap loops are run without interference,
  except for the loop of \<open>refill\<close>, which has a second model in which other threads write the cell.
\<close>

section \<open>The bucket\<close>

record RateLimitConfig =
  rlc_max_tokens :: u64
  rlc_refill_rate :: f64
  rlc_min_interval_ms :: u64

definition rlc_new :: "u64 \<Rightarrow> f64 \<Rightarrow> u64 \<Rightarrow> RateLimitConfig" where
  "rlc_new max_tokens refill_rate min_interval_ms =
     \<lparr>rlc_max_tokens = max_tokens, rlc_refill_rate = refill_rate, rlc_min_interval_ms = min_interval_ms\<rparr>"

definition rlc_binance_standard :: RateLimitConfig where
  "rlc_binance_standard = \<lparr>rlc_max_tokens = 1200, rlc_refill_rate = f64_lit 20, rlc_min_interval_ms = 50\<rparr>"

text \<open>A rate of zero orders divides by zero and panics: \<open>None\<close>.\<close>

definition rlc_binance_orders :: "u64 \<Rightarrow> RateLimitConfig option" where
  "rlc_binance_orders max_orders_per_second =
     (if max_orders_per_second = 0 then None
      else Some \<lparr>rlc_max_tokens = max_orders_per_second * 2,
                 rlc_refill_rate = f64_of_u64 max_orders_per_second,
                 rlc_min_interval_ms = 1000 div max_orders_per_second\<rparr>)"

record TokenBucket =
  tb_tokens :: u64
  tb_last_refill :: u64
  tb_config :: RateLimitConfig
  tb_enabled :: bool
  tb_total_requests :: u64
  tb_total_rejections :: u64

definition tb_new :: "u64 \<Rightarrow> RateLimitConfig \<Rightarrow> TokenBucket" where
  "tb_new now config =
     \<lparr>tb_tokens = rlc_max_tokens config * 1000, tb_last_refill = now, tb_config = config, tb_enabled = True,
      tb_total_requests = 0, tb_total_rejections = 0\<rparr>"

definition tokens_to_add :: "u64 \<Rightarrow> f64 \<Rightarrow> u64" where
  "tokens_to_add elapsed_ms refill_rate =
     f64_to_u64 (f64_mul (f64_div (f64_mul (f64_of_u64 elapsed_ms) refill_rate) (f64_lit 1000)) (f64_lit 1000))"

definition tb_refill :: "u64 \<Rightarrow> TokenBucket \<Rightarrow> TokenBucket" where
  "tb_refill now b =
     (let elapsed_ms = u64_sat_sub now (tb_last_refill b)
      in if elapsed_ms = 0 then b
         else let add = tokens_to_add elapsed_ms (rlc_refill_rate (tb_config b))
              in if add = 0 then b
                 else let max_scaled = rlc_max_tokens (tb_config b) * 1000;
                          new_value = min (tb_tokens b + add) max_scaled
                      in b\<lparr>tb_last_refill := now, tb_tokens := new_value\<rparr>)"

definition tb_reject :: "TokenBucket \<Rightarrow> bool \<times> TokenBucket" where
  "tb_reject b = (False, b\<lparr>tb_total_rejections := tb_total_rejections b + 1\<rparr>)"

definition tb_try_acquire :: "u64 \<Rightarrow> TokenBucket \<Rightarrow> bool \<times> TokenBucket" where
  "tb_try_acquire now b =
     (if \<not> tb_enabled b then (True, b)
      else
        let b = b\<lparr>tb_total_requests := tb_total_requests b + 1\<rparr>;
            b = tb_refill now b
        in if now - tb_last_refill b < rlc_min_interval_ms (tb_config b) then tb_reject b
           else if tb_tokens b < 1000 then tb_reject b
           else (True, b\<lparr>tb_tokens := tb_tokens b - 1000\<rparr>))"

text \<open>The loop of \<open>acquire\<close>, entered with the number of failed attempts; it gives up after 100.\<close>

definition MAX_WAITS :: nat where
  "MAX_WAITS = 100"

function tb_acquire_loop :: "clock \<Rightarrow> nat \<Rightarrow> TokenBucket \<Rightarrow> nat \<times> TokenBucket" where
  "tb_acquire_loop clk wait_count b =
     (case tb_try_acquire (clk wait_count) b of
        (ok, b) \<Rightarrow>
          if ok then (wait_count, b)
          else if MAX_WAITS \<le> wait_count + 1 then (wait_count + 1, b)
          else tb_acquire_loop clk (wait_count + 1) b)"
  by pat_completeness auto

termination
  by (relation "measure (\<lambda>(_, wait_count, _). MAX_WAITS - wait_count)") auto

declare tb_acquire_loop.simps [simp del]

definition tb_acquire :: "clock \<Rightarrow> TokenBucket \<Rightarrow> u64 \<times> TokenBucket" where
  "tb_acquire clk b =
     (case tb_acquire_loop clk 0 b of
        (wait_count, b) \<Rightarrow> (of_nat wait_count * rlc_min_interval_ms (tb_config b), b))"

definition tb_available_tokens :: "TokenBucket \<Rightarrow> f64" where
  "tb_available_tokens b = f64_div (f64_of_u64 (tb_tokens b)) (f64_lit 1000)"

definition tb_set_enabled :: "bool \<Rightarrow> TokenBucket \<Rightarrow> TokenBucket" where
  "tb_set_enabled enabled b = b\<lparr>tb_enabled := enabled\<rparr>"

definition tb_is_enabled :: "TokenBucket \<Rightarrow> bool" where
  "tb_is_enabled b = tb_enabled b"

record RateLimitStats =
  rls_available_tokens :: f64
  rls_max_tokens :: u64
  rls_refill_rate :: f64
  rls_total_requests :: u64
  rls_total_rejections :: u64

definition tb_stats :: "TokenBucket \<Rightarrow> RateLimitStats" where
  "tb_stats b =
     \<lparr>rls_available_tokens = tb_available_tokens b, rls_max_tokens = rlc_max_tokens (tb_config b),
      rls_refill_rate = rlc_refill_rate (tb_config b), rls_total_requests = tb_total_requests b,
      rls_total_rejections = tb_total_rejections b\<rparr>"

definition rls_rejection_rate :: "RateLimitStats \<Rightarrow> f64" where
  "rls_rejection_rate s =
     (if rls_total_requests s = 0 then f64_lit 0
      else f64_mul (f64_div (f64_of_u64 (rls_total_rejections s)) (f64_of_u64 (rls_total_requests s))) (f64_lit 100))"

definition tb_reset :: "u64 \<Rightarrow> TokenBucket \<Rightarrow> TokenBucket" where
  "tb_reset now b = b\<lparr>tb_tokens := rlc_max_tokens (tb_config b) * 1000, tb_last_refill := now\<rparr>"

section \<open>Several buckets\<close>

record RateLimiter =
  rl_request_limiter :: TokenBucket
  rl_order_limiter :: "TokenBucket option"
  rl_raw_order_limiter :: "TokenBucket option"

definition rl_new :: "u64 \<Rightarrow> RateLimitConfig \<Rightarrow> RateLimiter" where
  "rl_new now request_config =
     \<lparr>rl_request_limiter = tb_new now request_config, rl_order_limiter = None, rl_raw_order_limiter = None\<rparr>"

definition rl_with_order_limit :: "u64 \<Rightarrow> RateLimitConfig \<Rightarrow> RateLimiter \<Rightarrow> RateLimiter" where
  "rl_with_order_limit now config l = l\<lparr>rl_order_limiter := Some (tb_new now config)\<rparr>"

definition rl_with_raw_order_limit :: "u64 \<Rightarrow> RateLimitConfig \<Rightarrow> RateLimiter \<Rightarrow> RateLimiter" where
  "rl_with_raw_order_limit now config l = l\<lparr>rl_raw_order_limiter := Some (tb_new now config)\<rparr>"

definition rl_try_acquire_request :: "u64 \<Rightarrow> RateLimiter \<Rightarrow> bool \<times> RateLimiter" where
  "rl_try_acquire_request now l =
     (case tb_try_acquire now (rl_request_limiter l) of (ok, b) \<Rightarrow> (ok, l\<lparr>rl_request_limiter := b\<rparr>))"

definition rl_try_acquire_order :: "u64 \<Rightarrow> RateLimiter \<Rightarrow> bool \<times> RateLimiter" where
  "rl_try_acquire_order now l =
     (case rl_order_limiter l of
        Some b \<Rightarrow> (case tb_try_acquire now b of (ok, b) \<Rightarrow> (ok, l\<lparr>rl_order_limiter := Some b\<rparr>))
      | None \<Rightarrow> (True, l))"

text \<open>One bucket of \<open>acquire_for_order\<close>: an attempt, and \<open>acquire\<close> when it fails.\<close>

definition tb_obtain :: "clock \<Rightarrow> TokenBucket \<Rightarrow> TokenBucket" where
  "tb_obtain clk b =
     (case tb_try_acquire (clk 0) b of (ok, b) \<Rightarrow> if ok then b else snd (tb_acquire (after 1 clk) b))"

definition rl_acquire_for_order :: "clock \<Rightarrow> clock \<Rightarrow> RateLimiter \<Rightarrow> RateLimiter" where
  "rl_acquire_for_order clk clk' l =
     (let l = l\<lparr>rl_request_limiter := tb_obtain clk (rl_request_limiter l)\<rparr>
      in case rl_order_limiter l of
           Some b \<Rightarrow> l\<lparr>rl_order_limiter := Some (tb_obtain clk' b)\<rparr>
         | None \<Rightarrow> l)"

definition rl_set_all :: "bool \<Rightarrow> RateLimiter \<Rightarrow> RateLimiter" where
  "rl_set_all enabled l =
     l\<lparr>rl_request_limiter := tb_set_enabled enabled (rl_request_limiter l),
       rl_order_limiter := map_option (tb_set_enabled enabled) (rl_order_limiter l),
       rl_raw_order_limiter := map_option (tb_set_enabled enabled) (rl_raw_order_limiter l)\<rparr>"

definition rl_disable_all :: "RateLimiter \<Rightarrow> RateLimiter" where
  "rl_disable_all = rl_set_all False"

definition rl_enable_all :: "RateLimiter \<Rightarrow> RateLimiter" where
  "rl_enable_all = rl_set_all True"

section \<open>Capacity\<close>

datatype bucket_op = TbAcquire u64 | TbReset u64 | TbEnable bool

fun bucket_exec :: "bucket_op \<Rightarrow> TokenBucket \<Rightarrow> TokenBucket" where
  "bucket_exec (TbAcquire now) b = snd (tb_try_acquire now b)"
| "bucket_exec (TbReset now) b = tb_reset now b"
| "bucket_exec (TbEnable on) b = tb_set_enabled on b"

definition within_capacity :: "TokenBucket \<Rightarrow> bool" where
  "within_capacity b \<longleftrightarrow> tb_tokens b \<le> rlc_max_tokens (tb_config b) * 1000"

lemma tb_refill_frame [simp]:
  "tb_config (tb_refill now b) = tb_config b" "tb_enabled (tb_refill now b) = tb_enabled b"
  by (simp_all add: tb_refill_def Let_def)

lemma within_capacity_refill: "within_capacity b \<Longrightarrow> within_capacity (tb_refill now b)"
  by (simp add: tb_refill_def within_capacity_def Let_def)

lemma bucket_frame: "tb_config (bucket_exec a b) = tb_config b"
  by (cases a) (simp_all add: tb_try_acquire_def tb_reject_def tb_reset_def tb_set_enabled_def Let_def)

lemma word_minus_le: "(1000 :: u64) \<le> a \<Longrightarrow> a - 1000 \<le> a"
  by (simp add: word_le_nat_alt unat_sub)

interpretation bucket: latched_system bucket_exec "\<lambda>a. True" within_capacity
proof
  fix b a
  assume b: "within_capacity b"
  show "within_capacity (bucket_exec a b)"
  proof (cases a)
    case (TbAcquire now)
    have "within_capacity (tb_refill now (b\<lparr>tb_total_requests := n\<rparr>))" for n
      by (rule within_capacity_refill) (use b in \<open>simp add: within_capacity_def\<close>)
    then show ?thesis
      using b order_trans [OF word_minus_le]
      by (auto simp: TbAcquire tb_try_acquire_def tb_reject_def within_capacity_def Let_def not_less)
  qed (use b in \<open>simp_all add: within_capacity_def tb_reset_def tb_set_enabled_def\<close>)
qed

text \<open>Whatever clocks, resets and requests do, the bucket never holds more than its capacity.\<close>

lemma bucket_within_capacity: "within_capacity (run bucket_exec ops (tb_new now config))"
  by (rule bucket.run_latch) (simp_all add: within_capacity_def tb_new_def list.pred_True)

section \<open>Every request is refused\<close>

text \<open>A refill rate of at least one request per second, and not beyond all bounds.\<close>

definition sane_rate :: "f64 \<Rightarrow> bool" where
  "sane_rate r \<longleftrightarrow> (case r of Fin s q \<Rightarrow> \<not> s \<and> 1 \<le> q \<and> q \<le> 2 ^ 64 | _ \<Rightarrow> False)"

lemma round_thousandth: "round_mag (1 / 1000) = 1152921504606847 / 1152921504606846976"
  by (simp add: round_mag_eqI [where e = "-10" and i = 4611686018427388])

lemma round_thousandth_back: "round_mag (1152921504606847 / 1152921504606846976 * 1000) = 1"
  by (simp add: round_mag_eqI [where e = 0 and i = 4503599627370496])

text \<open>Each millisecond adds at least one thousandth of a token, rounding included.\<close>

lemma tokens_to_add_pos:
  assumes "0 < elapsed_ms" "sane_rate r"
  shows "0 < tokens_to_add elapsed_ms r"
proof -
  obtain q where r: "r = Fin False q" "1 \<le> q" "q \<le> 2 ^ 64"
    using assms(2) by (cases r) (auto simp: sane_rate_def)
  define n where "n = unat elapsed_ms"
  have n: "1 \<le> n" "n \<le> 2 ^ 64"
    using assms(1) unat_u64_less [of elapsed_ms] by (simp_all add: n_def word_less_nat_alt)
  then have "(of_nat n :: rat) \<le> of_nat (2 ^ 64)" by (simp only: of_nat_le_iff)
  then have n': "(of_nat n :: rat) \<le> 2 ^ 64" by simp
  define x where "x = round_mag (of_nat n)"
  have f: "f64_of_u64 elapsed_ms = Fin False x"
    using n n' by (simp add: f64_of_u64_def f64_of_nat_def f64_of_def pack_small n_def [symmetric] x_def)
  have one: "round_mag 1 = 1" using round_mag_power [of 0] by simp
  have x: "1 \<le> x" "x \<le> 2 ^ 64"
    using round_mag_mono [of 1 "of_nat n"] round_mag_mono [OF n'] round_mag_power [of 64] n by (simp_all add: x_def one)
  have xq: "1 \<le> x * q" "x * q \<le> 2 ^ 64 * 2 ^ 64" using x r mult_mono [of 1 x 1 q] mult_mono [of x "2 ^ 64" q "2 ^ 64"] by simp_all
  define y where "y = round_mag (x * q)"
  have y: "1 \<le> y" "y \<le> 2 ^ 128"
    using round_mag_mono [OF xq(1)] round_mag_mono [of "x * q" "2 ^ 128"] xq(2)
    by (simp_all only: y_def one round_mag_power) simp_all
  define z where "z = round_mag (y / 1000)"
  have z: "round_mag (1 / 1000) \<le> z" "z \<le> 2 ^ 128"
    using round_mag_mono [of "1 / 1000" "y / 1000"] round_mag_mono [of "y / 1000" "2 ^ 128"] y
    by (simp_all only: z_def round_mag_power)
  have zt: "1152921504606847 / 1152921504606846976 * 1000 \<le> z * 1000"
    using z(1) unfolding round_thousandth by (rule mult_right_mono) simp
  have w: "1 \<le> round_mag (z * 1000)" using round_mag_mono [OF zt] unfolding round_thousandth_back .
  have lit: "f64_lit 1000 = Fin False 1000"
    using round_mag_exact [of 1000 0 1000] by (simp add: f64_lit_def f64_of_def pack_small)
  have "f64_mul (f64_div (f64_mul (f64_of_u64 elapsed_ms) r) (f64_lit 1000)) (f64_lit 1000) = Fin False (round_mag (z * 1000))"
  proof -
    have "x * q \<le> 2 ^ 200" using xq(2) by simp
    moreover have "y / 1000 \<le> 2 ^ 200" using y by simp
    moreover have "z * 1000 \<le> 2 ^ 200" using z(2) by simp
    ultimately show ?thesis by (simp only: f r(1) lit f64_mul.simps f64_div.simps pack_finite y_def [symmetric] z_def [symmetric])
        (simp add: pack_finite z_def [symmetric] y_def [symmetric])
  qed
  with f64_to_u64_pos [OF w] show ?thesis by (simp only: tokens_to_add_def)
qed

lemma try_acquire_refuses:
  assumes "tb_enabled b" "tb_last_refill b \<le> now" "0 < rlc_min_interval_ms (tb_config b)"
    and "sane_rate (rlc_refill_rate (tb_config b))"
  shows "\<not> fst (tb_try_acquire now b)" and "tb_last_refill (snd (tb_try_acquire now b)) = now"
    and "tb_enabled (snd (tb_try_acquire now b))" and "tb_config (snd (tb_try_acquire now b)) = tb_config b"
proof -
  have last: "tb_last_refill (tb_refill now (b\<lparr>tb_total_requests := n\<rparr>)) = now" for n
  proof (cases "u64_sat_sub now (tb_last_refill b) = 0")
    case True
    with assms(2) show ?thesis by (simp add: tb_refill_def u64_sat_sub_def split: if_splits)
  next
    case False
    then have "tokens_to_add (u64_sat_sub now (tb_last_refill b)) (rlc_refill_rate (tb_config b)) \<noteq> 0"
      using tokens_to_add_pos [OF _ assms(4), of "u64_sat_sub now (tb_last_refill b)"] by (auto simp: word_neq_0_conv)
    with False show ?thesis by (simp add: tb_refill_def Let_def)
  qed
  show "\<not> fst (tb_try_acquire now b)" "tb_last_refill (snd (tb_try_acquire now b)) = now"
    "tb_enabled (snd (tb_try_acquire now b))" "tb_config (snd (tb_try_acquire now b)) = tb_config b"
    using assms last by (simp_all add: tb_try_acquire_def tb_reject_def Let_def)
qed

lemma run_refuses:
  assumes "tb_enabled b" "0 < rlc_min_interval_ms (tb_config b)" "sane_rate (rlc_refill_rate (tb_config b))"
    and "sorted (tb_last_refill b # ts)"
  shows "tb_enabled (run (\<lambda>now b. snd (tb_try_acquire now b)) ts b) \<and>
    tb_config (run (\<lambda>now b. snd (tb_try_acquire now b)) ts b) = tb_config b \<and>
    tb_last_refill (run (\<lambda>now b. snd (tb_try_acquire now b)) ts b) = last (tb_last_refill b # ts)"
  using assms
proof (induction ts arbitrary: b)
  case (Cons t ts)
  then have "tb_last_refill b \<le> t" by simp
  note step = try_acquire_refuses [OF Cons.prems(1) this Cons.prems(2,3)]
  have "sorted (tb_last_refill (snd (tb_try_acquire t b)) # ts)" using Cons.prems(4) step(2) by simp
  with Cons.IH [of "snd (tb_try_acquire t b)"] Cons.prems step show ?case by simp
qed simp

text \<open>
  C32: A rate limiter with a minimum interval refuses every request. With a refill rate of at least one
  request per second and a clock that does not run backwards, a new bucket never grants a token, however
  long it has been idle: every refill resets the time that the minimum interval is measured from.
\<close>

theorem limiter_refuses_everything:
  assumes "0 < rlc_min_interval_ms config" and "sane_rate (rlc_refill_rate config)"
    and "sorted (start # ts @ [now])"
  shows "\<not> fst (tb_try_acquire now (run (\<lambda>t b. snd (tb_try_acquire t b)) ts (tb_new start config)))"
proof -
  have new: "tb_enabled (tb_new start config)" "tb_config (tb_new start config) = config"
    "tb_last_refill (tb_new start config) = start"
    by (simp_all add: tb_new_def)
  have sorted: "sorted (start # ts)" "last (start # ts) \<le> now"
    using assms(3) by (auto simp: sorted_append)
  show ?thesis
    using run_refuses [of "tb_new start config" ts] try_acquire_refuses(1) assms(1,2) sorted by (simp add: new)
qed

theorem limiter_refuses_everything_witness:
  "\<not> fst (tb_try_acquire 60000 (run (\<lambda>t b. snd (tb_try_acquire t b)) [0, 50, 1000] (tb_new 0 rlc_binance_standard)))"
proof (rule limiter_refuses_everything)
  show "sane_rate (rlc_refill_rate rlc_binance_standard)"
    using round_mag_exact [of 20 0 20]
    by (simp add: rlc_binance_standard_def f64_lit_def f64_of_def pack_small sane_rate_def)
qed (simp_all add: rlc_binance_standard_def)

text \<open>\<open>acquire\<close> then waits a hundred times and goes on without a token.\<close>

lemma acquire_goes_on:
  assumes "tb_enabled b" "0 < rlc_min_interval_ms (tb_config b)" "sane_rate (rlc_refill_rate (tb_config b))"
    and "tb_last_refill b \<le> clk n" "\<And>i j. i \<le> j \<Longrightarrow> clk i \<le> clk j" "n < MAX_WAITS"
  shows "fst (tb_acquire_loop clk n b) = MAX_WAITS"
  using assms
proof (induction clk n b rule: tb_acquire_loop.induct)
  case (1 clk n b)
  note step = try_acquire_refuses [OF 1(2) 1(5) 1(3,4)]
  obtain b' where b': "tb_try_acquire (clk n) b = (False, b')"
    using step(1) by (cases "tb_try_acquire (clk n) b") auto
  show ?case
  proof (cases "MAX_WAITS \<le> n + 1")
    case True
    with b' 1(7) show ?thesis by (simp add: tb_acquire_loop.simps [of clk n])
  next
    case False
    have "fst (tb_acquire_loop clk (n + 1) b') = MAX_WAITS"
      using step b' 1(3,4,6) False by (intro 1(1) [OF b' [symmetric] _ False]) simp_all
    with False b' show ?thesis by (simp add: tb_acquire_loop.simps [of clk n])
  qed
qed

section \<open>Two threads refilling\<close>

text \<open>
  The loop of \<open>refill\<close> when other threads write the time of the last refill: \<open>seen i\<close> is the value its
  \<open>i\<close>-th compare-and-swap finds, and \<open>prev\<close> the one read before the loop. The result is the number of failed
  rounds, and \<open>None\<close> when the fuel is used up.
\<close>

fun refill_cas_loop :: "nat \<Rightarrow> clock \<Rightarrow> u64 \<Rightarrow> nat \<Rightarrow> nat option" where
  "refill_cas_loop 0 seen prev i = None"
| "refill_cas_loop (Suc fuel) seen prev i =
     (if seen i = prev then Some i else refill_cas_loop fuel seen prev (i + 1))"

text \<open>A thread that was overtaken once never gets out: \<open>prev\<close> is not read again, and times do not come back.\<close>

lemma overtaken_refill_spins: "(\<And>j. i \<le> j \<Longrightarrow> seen j \<noteq> prev) \<Longrightarrow> refill_cas_loop fuel seen prev i = None"
  by (induction fuel arbitrary: i) simp_all

end
