(* ===== verification/Lifecycle.thy ===== *)
theory Lifecycle
  imports Machine
begin

text \<open>
  The life cycle of the system (\<open>src/src/orchestrator/lifecycle.rs\<close>): the state machine from start to
  termination, and shutdown with and without confirmation. The global instance is not modelled.
\<close>

section \<open>States\<close>

datatype LifecycleState =
    Idle | Initializing | Warmup | HotStandby | Live | Paused | ShuttingDown | Terminated

definition lcs_can_trade :: "LifecycleState \<Rightarrow> bool" where
  "lcs_can_trade s \<longleftrightarrow> s = Live"

definition lcs_is_terminal :: "LifecycleState \<Rightarrow> bool" where
  "lcs_is_terminal s \<longleftrightarrow> s = Terminated"

definition lcs_as_str :: "LifecycleState \<Rightarrow> string" where
  "lcs_as_str s =
     (case s of Idle \<Rightarrow> ''Idle'' | Initializing \<Rightarrow> ''Initializing'' | Warmup \<Rightarrow> ''Warmup''
      | HotStandby \<Rightarrow> ''HotStandby'' | Live \<Rightarrow> ''Live'' | Paused \<Rightarrow> ''Paused''
      | ShuttingDown \<Rightarrow> ''ShuttingDown'' | Terminated \<Rightarrow> ''Terminated'')"

datatype LifecycleError =
    InvalidTransition LifecycleState LifecycleState
  | TerminalState
  | ConfirmationRequired
  | TransitionTimeout

datatype ShutdownConfirm = ConfirmPending | ConfirmConfirmed | ConfirmCancelled

record LifecycleStats =
  lst_state_transitions :: u64
  lst_uptime_ns :: u64
  lst_last_transition_ns :: u64
  lst_current_state :: LifecycleState

record LifecycleManager =
  lm_current_state :: LifecycleState
  lm_start_time :: "u64 option"
  lm_transition_count :: u64
  lm_last_transition_ns :: u64
  lm_shutdown_confirm :: ShutdownConfirm
  lm_force_shutdown :: bool
  lm_pause_enabled :: bool

definition lm_new :: LifecycleManager where
  "lm_new =
     \<lparr>lm_current_state = Idle, lm_start_time = None, lm_transition_count = 0, lm_last_transition_ns = 0,
      lm_shutdown_confirm = ConfirmPending, lm_force_shutdown = False, lm_pause_enabled = True\<rparr>"

section \<open>Operations\<close>

definition valid_transition :: "LifecycleState \<Rightarrow> LifecycleState \<Rightarrow> bool" where
  "valid_transition from to =
     (case (from, to) of
        (Idle, Initializing) \<Rightarrow> True
      | (Initializing, Warmup) \<Rightarrow> True
      | (Warmup, HotStandby) \<Rightarrow> True
      | (HotStandby, Live) \<Rightarrow> True
      | (HotStandby, ShuttingDown) \<Rightarrow> True
      | (Live, Paused) \<Rightarrow> True
      | (Live, ShuttingDown) \<Rightarrow> True
      | (Paused, Live) \<Rightarrow> True
      | (Paused, ShuttingDown) \<Rightarrow> True
      | (ShuttingDown, Terminated) \<Rightarrow> True
      | _ \<Rightarrow> False)"

definition validate_transition :: "LifecycleState \<Rightarrow> LifecycleState \<Rightarrow> LifecycleError + unit" where
  "validate_transition from to = (if valid_transition from to then Inr () else Inl (InvalidTransition from to))"

text \<open>The first clock value is the system time, the second the monotonic time of the start.\<close>

definition lm_transition_to ::
    "clock \<Rightarrow> LifecycleState \<Rightarrow> LifecycleManager \<Rightarrow> (LifecycleError + unit) \<times> LifecycleManager" where
  "lm_transition_to clk target m =
     (let curr_state = lm_current_state m
      in if lcs_is_terminal curr_state then (Inl TerminalState, m)
         else case validate_transition curr_state target of
                Inl e \<Rightarrow> (Inl e, m)
              | Inr _ \<Rightarrow>
                  let m = m\<lparr>lm_transition_count := lm_transition_count m + 1, lm_last_transition_ns := clk 0,
                            lm_current_state := target\<rparr>;
                      m = (if curr_state = Idle then m\<lparr>lm_start_time := Some (clk 1)\<rparr> else m)
                  in (Inr (), m))"

definition lm_request_shutdown :: "clock \<Rightarrow> LifecycleManager \<Rightarrow> (LifecycleError + unit) \<times> LifecycleManager" where
  "lm_request_shutdown clk m =
     (if lcs_is_terminal (lm_current_state m) then (Inl TerminalState, m)
      else if lm_force_shutdown m then lm_transition_to clk ShuttingDown m
      else (Inl ConfirmationRequired, m\<lparr>lm_shutdown_confirm := ConfirmPending\<rparr>))"

definition lm_confirm_shutdown ::
    "clock \<Rightarrow> bool \<Rightarrow> LifecycleManager \<Rightarrow> (LifecycleError + unit) \<times> LifecycleManager" where
  "lm_confirm_shutdown clk confirmed m =
     (let m = m\<lparr>lm_shutdown_confirm := (if confirmed then ConfirmConfirmed else ConfirmCancelled)\<rparr>
      in if confirmed then lm_transition_to clk ShuttingDown m else (Inr (), m))"

definition lm_do_force_shutdown :: "clock \<Rightarrow> LifecycleManager \<Rightarrow> (LifecycleError + unit) \<times> LifecycleManager" where
  "lm_do_force_shutdown clk m = lm_request_shutdown clk (m\<lparr>lm_force_shutdown := True\<rparr>)"

definition lm_pause :: "clock \<Rightarrow> LifecycleManager \<Rightarrow> (LifecycleError + unit) \<times> LifecycleManager" where
  "lm_pause clk m =
     (if \<not> lm_pause_enabled m then (Inl (InvalidTransition (lm_current_state m) Paused), m)
      else lm_transition_to clk Paused m)"

definition lm_resume :: "clock \<Rightarrow> LifecycleManager \<Rightarrow> (LifecycleError + unit) \<times> LifecycleManager" where
  "lm_resume clk m = lm_transition_to clk Live m"

definition lm_can_trade :: "LifecycleManager \<Rightarrow> bool" where
  "lm_can_trade m = lcs_can_trade (lm_current_state m)"

definition lm_is_running :: "LifecycleManager \<Rightarrow> bool" where
  "lm_is_running m \<longleftrightarrow> \<not> lcs_is_terminal (lm_current_state m)"

definition lm_get_stats :: "u64 \<Rightarrow> LifecycleManager \<Rightarrow> LifecycleStats" where
  "lm_get_stats now m =
     \<lparr>lst_state_transitions = lm_transition_count m,
      lst_uptime_ns = (case lm_start_time m of None \<Rightarrow> 0 | Some s \<Rightarrow> u64_sat_sub now s),
      lst_last_transition_ns = lm_last_transition_ns m, lst_current_state = lm_current_state m\<rparr>"

definition lm_set_pause_enabled :: "bool \<Rightarrow> LifecycleManager \<Rightarrow> LifecycleManager" where
  "lm_set_pause_enabled enabled m = m\<lparr>lm_pause_enabled := enabled\<rparr>"

definition lm_reset :: "LifecycleManager \<Rightarrow> LifecycleManager" where
  "lm_reset m =
     m\<lparr>lm_current_state := Idle, lm_start_time := None, lm_shutdown_confirm := ConfirmPending,
       lm_force_shutdown := False, lm_transition_count := 0, lm_last_transition_ns := 0\<rparr>"

section \<open>The states a manager can reach\<close>

datatype lifecycle_op =
    LcTransition clock LifecycleState
  | LcRequest clock
  | LcConfirm clock bool
  | LcForce clock
  | LcPause clock
  | LcResume clock
  | LcSetPause bool

fun lifecycle_exec :: "lifecycle_op \<Rightarrow> LifecycleManager \<Rightarrow> LifecycleManager" where
  "lifecycle_exec (LcTransition clk s) m = snd (lm_transition_to clk s m)"
| "lifecycle_exec (LcRequest clk) m = snd (lm_request_shutdown clk m)"
| "lifecycle_exec (LcConfirm clk b) m = snd (lm_confirm_shutdown clk b m)"
| "lifecycle_exec (LcForce clk) m = snd (lm_do_force_shutdown clk m)"
| "lifecycle_exec (LcPause clk) m = snd (lm_pause clk m)"
| "lifecycle_exec (LcResume clk) m = snd (lm_resume clk m)"
| "lifecycle_exec (LcSetPause b) m = lm_set_pause_enabled b m"

text \<open>The step relation of the states: one step is one valid transition.\<close>

inductive lifecycle_steps :: "LifecycleState \<Rightarrow> LifecycleState \<Rightarrow> bool" where
  refl: "lifecycle_steps s s"
| step: "lifecycle_steps s t \<Longrightarrow> valid_transition t u \<Longrightarrow> lifecycle_steps s u"

inductive_cases from_to: "lifecycle_steps s t"

lemma lifecycle_steps_trans: "lifecycle_steps t u \<Longrightarrow> lifecycle_steps s t \<Longrightarrow> lifecycle_steps s u"
  by (induction rule: lifecycle_steps.induct) (auto intro: lifecycle_steps.intros)

lemma transition_state:
  "lm_current_state (snd (lm_transition_to clk t m)) =
     (if valid_transition (lm_current_state m) t then t else lm_current_state m)"
  by (auto simp: lm_transition_to_def validate_transition_def valid_transition_def lcs_is_terminal_def Let_def
      split: LifecycleState.splits)

lemma exec_steps: "lifecycle_steps (lm_current_state m) (lm_current_state (lifecycle_exec a m))"
  by (cases a)
    (auto simp: transition_state lm_request_shutdown_def lm_confirm_shutdown_def lm_do_force_shutdown_def
      lm_pause_def lm_resume_def lm_set_pause_enabled_def Let_def
      intro: lifecycle_steps.intros)

lemma run_steps: "lifecycle_steps (lm_current_state m) (lm_current_state (run lifecycle_exec ops m))"
proof (induction ops arbitrary: m)
  case (Cons a ops)
  from lifecycle_steps_trans [OF Cons.IH exec_steps] show ?case by simp
qed (simp add: lifecycle_steps.refl)

text \<open>The order of the states: a step leads to a later one, except between live and paused.\<close>

fun lc_rank :: "LifecycleState \<Rightarrow> nat" where
  "lc_rank Idle = 0"
| "lc_rank Initializing = 1"
| "lc_rank Warmup = 2"
| "lc_rank HotStandby = 3"
| "lc_rank Live = 4"
| "lc_rank Paused = 4"
| "lc_rank ShuttingDown = 5"
| "lc_rank Terminated = 6"

lemma valid_transition_rank: "valid_transition s t \<Longrightarrow> lc_rank s \<le> lc_rank t \<and> lc_rank t \<le> lc_rank s + 2"
  by (auto simp: valid_transition_def split: LifecycleState.splits)

lemma steps_rank: "lifecycle_steps s t \<Longrightarrow> lc_rank s \<le> lc_rank t"
  by (induction rule: lifecycle_steps.induct) (auto dest: valid_transition_rank)

text \<open>
  A shutdown is final. Once the manager is shutting down or has terminated, no calls but a reset ever
  let it trade again, and it has left every other state for good.
\<close>

lemma shutdown_is_final:
  assumes "lm_current_state m \<in> {ShuttingDown, Terminated}"
  shows "\<not> lm_can_trade (run lifecycle_exec ops m) \<and>
    lm_current_state (run lifecycle_exec ops m) \<in> {ShuttingDown, Terminated}"
proof -
  have "5 \<le> lc_rank (lm_current_state (run lifecycle_exec ops m))"
    using steps_rank [OF run_steps, of m ops] assms by auto
  then show ?thesis
    by (cases "lm_current_state (run lifecycle_exec ops m)") (auto simp: lm_can_trade_def lcs_can_trade_def)
qed

section \<open>Trading needs the whole start\<close>

text \<open>The states passed through: the trace of a run, the first state first.\<close>

fun lifecycle_trace :: "lifecycle_op list \<Rightarrow> LifecycleManager \<Rightarrow> LifecycleState list" where
  "lifecycle_trace [] m = [lm_current_state m]"
| "lifecycle_trace (a # ops) m = lm_current_state m # lifecycle_trace ops (lifecycle_exec a m)"

lemma exec_rank_step:
  "lc_rank (lm_current_state (lifecycle_exec a m)) = lc_rank (lm_current_state m) \<or>
   valid_transition (lm_current_state m) (lm_current_state (lifecycle_exec a m))"
  by (cases a)
    (auto simp: transition_state lm_request_shutdown_def lm_confirm_shutdown_def lm_do_force_shutdown_def
      lm_pause_def lm_resume_def lm_set_pause_enabled_def Let_def)

lemma trace_passes:
  assumes "lm_can_trade (run lifecycle_exec ops m)" "lc_rank (lm_current_state m) \<le> lc_rank s" "lc_rank s \<le> 3"
  shows "s \<in> set (lifecycle_trace ops m)"
  using assms
proof (induction ops arbitrary: m)
  case Nil
  then show ?case by (cases "lm_current_state m"; cases s) (auto simp: lm_can_trade_def lcs_can_trade_def)
next
  case (Cons a ops)
  let ?m = "lifecycle_exec a m"
  show ?case
  proof (cases "lm_current_state m = s")
    case False
    then have "lc_rank (lm_current_state ?m) \<le> lc_rank s \<or> 5 \<le> lc_rank (lm_current_state ?m)"
      using exec_rank_step [of a m] Cons.prems(2,3)
      by (cases "lm_current_state m"; cases s; cases "lm_current_state ?m") (auto simp: valid_transition_def)
    moreover have "\<not> 5 \<le> lc_rank (lm_current_state ?m)"
    proof
      assume "5 \<le> lc_rank (lm_current_state ?m)"
      then have "5 \<le> lc_rank (lm_current_state (run lifecycle_exec ops ?m))"
        using steps_rank [OF run_steps, of ?m ops] by simp
      with Cons.prems(1) show False by (simp add: lm_can_trade_def lcs_can_trade_def)
    qed
    ultimately show ?thesis using Cons by auto
  qed simp
qed

text \<open>
  C28: Trading needs the whole start. A new manager that may trade, after any calls, has been through
  initialisation, warm-up and hot standby.
\<close>

theorem trading_after_full_start:
  assumes "lm_can_trade (run lifecycle_exec ops lm_new)"
  shows "{Idle, Initializing, Warmup, HotStandby} \<subseteq> set (lifecycle_trace ops lm_new)"
  using trace_passes [OF assms] by (auto simp: lm_new_def)

theorem trading_after_full_start_witness:
  "Warmup \<in> set (lifecycle_trace (map (LcTransition (\<lambda>i. 0)) [Initializing, Warmup, HotStandby, Live]) lm_new)"
proof -
  have "lm_can_trade (run lifecycle_exec (map (LcTransition (\<lambda>i. 0)) [Initializing, Warmup, HotStandby, Live]) lm_new)"
    by (simp add: lm_transition_to_def validate_transition_def valid_transition_def lm_new_def lcs_is_terminal_def
        lm_can_trade_def lcs_can_trade_def)
  from trading_after_full_start [OF this] show ?thesis by blast
qed

section \<open>Shutdown\<close>

text \<open>Before hot standby there is no way to shut down, not even by force.\<close>

lemma early_shutdown_refused:
  assumes "lm_current_state m \<in> {Idle, Initializing, Warmup}"
  shows "fst (lm_do_force_shutdown clk m) = Inl (InvalidTransition (lm_current_state m) ShuttingDown)"
    and "fst (lm_confirm_shutdown clk True m) = Inl (InvalidTransition (lm_current_state m) ShuttingDown)"
  using assms
  by (auto simp: lm_do_force_shutdown_def lm_request_shutdown_def lm_confirm_shutdown_def lm_transition_to_def
      validate_transition_def valid_transition_def lcs_is_terminal_def)

text \<open>A confirmation needs no request: confirming shuts a live system down at once.\<close>

lemma confirmation_without_request:
  "lm_current_state m = Live \<Longrightarrow> lm_current_state (snd (lm_confirm_shutdown clk True m)) = ShuttingDown"
  by (simp add: lm_confirm_shutdown_def transition_state valid_transition_def)

end
