(* ===== verification/Shutdown.thy ===== *)
theory Shutdown
  imports Machine
begin

text \<open>
  Graceful shutdown (\<open>src/src/orchestration/graceful_shutdown.rs\<close>): the phases, their order and the total
  timeout. The four callbacks are functions of the state \<open>'w\<close> of the rest of the program.
\<close>

section \<open>Phases and reasons\<close>

datatype ShutdownPhase =
    PhRunning | StopNewOrders | CancelOrders | FlattenPositions | FlushWal | PersistState | PhComplete

definition phase_to_u8 :: "ShutdownPhase \<Rightarrow> u8" where
  "phase_to_u8 p =
     (case p of PhRunning \<Rightarrow> 0 | StopNewOrders \<Rightarrow> 1 | CancelOrders \<Rightarrow> 2 | FlattenPositions \<Rightarrow> 3
      | FlushWal \<Rightarrow> 4 | PersistState \<Rightarrow> 5 | PhComplete \<Rightarrow> 6)"

datatype ShutdownReason = SigTerm | SigInt | KillSignal | ErrorStop | SystemStop

definition reason_to_u8 :: "ShutdownReason \<Rightarrow> u8" where
  "reason_to_u8 r = (case r of SigTerm \<Rightarrow> 0 | SigInt \<Rightarrow> 1 | KillSignal \<Rightarrow> 2 | ErrorStop \<Rightarrow> 3 | SystemStop \<Rightarrow> 4)"

record GracefulShutdown =
  gsd_phase :: u8
  gsd_initiated :: bool
  gsd_complete :: bool
  gsd_reason :: u8
  gsd_start_time_ns :: u64
  gsd_phase_timeout_ms :: u64
  gsd_total_timeout_ms :: u64
  gsd_orders_cancelled :: u64
  gsd_positions_flattened :: u64
  gsd_wal_records_flushed :: u64

definition gsd_new :: "u64 \<Rightarrow> u64 \<Rightarrow> GracefulShutdown" where
  "gsd_new phase_timeout_ms total_timeout_ms =
     \<lparr>gsd_phase = phase_to_u8 PhRunning, gsd_initiated = False, gsd_complete = False,
      gsd_reason = reason_to_u8 SigTerm, gsd_start_time_ns = 0, gsd_phase_timeout_ms = phase_timeout_ms,
      gsd_total_timeout_ms = total_timeout_ms, gsd_orders_cancelled = 0, gsd_positions_flattened = 0,
      gsd_wal_records_flushed = 0\<rparr>"

definition gsd_initiate :: "u64 \<Rightarrow> ShutdownReason \<Rightarrow> GracefulShutdown \<Rightarrow> bool \<times> GracefulShutdown" where
  "gsd_initiate now reason s =
     (if gsd_initiated s then (False, s)
      else (True, s\<lparr>gsd_initiated := True, gsd_reason := reason_to_u8 reason, gsd_start_time_ns := now,
                    gsd_phase := phase_to_u8 StopNewOrders\<rparr>))"

definition gsd_get_phase :: "GracefulShutdown \<Rightarrow> ShutdownPhase" where
  "gsd_get_phase s =
     (if gsd_phase s = 0 then PhRunning
      else if gsd_phase s = 1 then StopNewOrders
      else if gsd_phase s = 2 then CancelOrders
      else if gsd_phase s = 3 then FlattenPositions
      else if gsd_phase s = 4 then FlushWal
      else if gsd_phase s = 5 then PersistState
      else PhComplete)"

definition gsd_get_reason :: "GracefulShutdown \<Rightarrow> ShutdownReason" where
  "gsd_get_reason s =
     (if gsd_reason s = 0 then SigTerm
      else if gsd_reason s = 1 then SigInt
      else if gsd_reason s = 2 then KillSignal
      else if gsd_reason s = 3 then ErrorStop
      else SystemStop)"

definition gsd_get_elapsed_ms :: "u64 \<Rightarrow> GracefulShutdown \<Rightarrow> u64" where
  "gsd_get_elapsed_ms now s =
     (let start = gsd_start_time_ns s
      in if start = 0 then 0 else (now - start) div 1000000)"

definition gsd_get_remaining_ms :: "u64 \<Rightarrow> GracefulShutdown \<Rightarrow> u64" where
  "gsd_get_remaining_ms now s = u64_sat_sub (gsd_total_timeout_ms s) (gsd_get_elapsed_ms now s)"

definition gsd_force_complete :: "GracefulShutdown \<Rightarrow> GracefulShutdown" where
  "gsd_force_complete s = s\<lparr>gsd_complete := True, gsd_phase := phase_to_u8 PhComplete\<rparr>"

definition gsd_advance_phase :: "u64 \<Rightarrow> GracefulShutdown \<Rightarrow> bool \<times> GracefulShutdown" where
  "gsd_advance_phase now s =
     (let curr_phase = gsd_get_phase s;
          elapsed_ms = gsd_get_elapsed_ms now s
      in if gsd_total_timeout_ms s < elapsed_ms then (False, gsd_force_complete s)
         else case curr_phase of
                PhRunning \<Rightarrow> (True, s)
              | StopNewOrders \<Rightarrow> (True, s\<lparr>gsd_phase := phase_to_u8 CancelOrders\<rparr>)
              | CancelOrders \<Rightarrow> (True, s\<lparr>gsd_phase := phase_to_u8 FlattenPositions\<rparr>)
              | FlattenPositions \<Rightarrow> (True, s\<lparr>gsd_phase := phase_to_u8 FlushWal\<rparr>)
              | FlushWal \<Rightarrow> (True, s\<lparr>gsd_phase := phase_to_u8 PersistState\<rparr>)
              | PersistState \<Rightarrow> (False, s\<lparr>gsd_complete := True, gsd_phase := phase_to_u8 PhComplete\<rparr>)
              | PhComplete \<Rightarrow> (False, s))"

definition gsd_reset :: "GracefulShutdown \<Rightarrow> GracefulShutdown" where
  "gsd_reset s =
     s\<lparr>gsd_phase := phase_to_u8 PhRunning, gsd_initiated := False, gsd_complete := False,
       gsd_reason := reason_to_u8 SigTerm, gsd_start_time_ns := 0, gsd_orders_cancelled := 0,
       gsd_positions_flattened := 0, gsd_wal_records_flushed := 0\<rparr>"

section \<open>The shutdown sequence\<close>

text \<open>
  The four callbacks, and the loop over the phases. The clock is read once per phase: its index is the
  phase the loop is in. The loop ends because every phase leads to a later one.
\<close>

record 'w shutdown_callbacks =
  cancel_orders_fn :: "'w \<Rightarrow> u64 \<times> 'w"
  flatten_positions_fn :: "'w \<Rightarrow> u64 \<times> 'w"
  flush_wal_fn :: "'w \<Rightarrow> u64 \<times> 'w"
  persist_state_fn :: "'w \<Rightarrow> bool \<times> 'w"

lemma get_phase_to_u8 [simp]: "gsd_get_phase (s\<lparr>gsd_phase := phase_to_u8 p\<rparr>) = p"
  by (cases p) (simp_all add: gsd_get_phase_def phase_to_u8_def)

function execute_loop ::
    "clock \<Rightarrow> 'w shutdown_callbacks \<Rightarrow> 'w \<Rightarrow> GracefulShutdown \<Rightarrow> bool \<times> GracefulShutdown \<times> 'w" where
  "execute_loop clk cb w s =
     (case gsd_get_phase s of
        StopNewOrders \<Rightarrow>
          (case gsd_advance_phase (clk 1) s of
             (True, s) \<Rightarrow> execute_loop clk cb w s
           | (False, s) \<Rightarrow> (gsd_complete s, s, w))
      | CancelOrders \<Rightarrow>
          (case cancel_orders_fn cb w of
             (cancelled, w) \<Rightarrow>
               (case gsd_advance_phase (clk 2) (s\<lparr>gsd_orders_cancelled := cancelled\<rparr>) of
                  (True, s) \<Rightarrow> execute_loop clk cb w s
                | (False, s) \<Rightarrow> (gsd_complete s, s, w)))
      | FlattenPositions \<Rightarrow>
          (case flatten_positions_fn cb w of
             (flattened, w) \<Rightarrow>
               (case gsd_advance_phase (clk 3) (s\<lparr>gsd_positions_flattened := flattened\<rparr>) of
                  (True, s) \<Rightarrow> execute_loop clk cb w s
                | (False, s) \<Rightarrow> (gsd_complete s, s, w)))
      | FlushWal \<Rightarrow>
          (case flush_wal_fn cb w of
             (flushed, w) \<Rightarrow>
               (case gsd_advance_phase (clk 4) (s\<lparr>gsd_wal_records_flushed := flushed\<rparr>) of
                  (True, s) \<Rightarrow> execute_loop clk cb w s
                | (False, s) \<Rightarrow> (gsd_complete s, s, w)))
      | PersistState \<Rightarrow>
          (case persist_state_fn cb w of
             (persisted, w) \<Rightarrow>
               (True, s\<lparr>gsd_complete := True, gsd_phase := phase_to_u8 PhComplete\<rparr>, w))
      | PhRunning \<Rightarrow> (gsd_complete s, s, w)
      | PhComplete \<Rightarrow> (gsd_complete s, s, w))"
  by pat_completeness auto

fun phases_left :: "ShutdownPhase \<Rightarrow> nat" where
  "phases_left PhRunning = 0"
| "phases_left StopNewOrders = 5"
| "phases_left CancelOrders = 4"
| "phases_left FlattenPositions = 3"
| "phases_left FlushWal = 2"
| "phases_left PersistState = 1"
| "phases_left PhComplete = 0"

lemma get_phase_counts [simp]:
  "gsd_get_phase (s\<lparr>gsd_orders_cancelled := n\<rparr>) = gsd_get_phase s"
  "gsd_get_phase (s\<lparr>gsd_positions_flattened := n\<rparr>) = gsd_get_phase s"
  "gsd_get_phase (s\<lparr>gsd_wal_records_flushed := n\<rparr>) = gsd_get_phase s"
  by (simp_all add: gsd_get_phase_def)

lemma advance_phases_left:
  "gsd_advance_phase now s = (True, s') \<Longrightarrow> gsd_get_phase s \<noteq> PhRunning \<Longrightarrow>
   phases_left (gsd_get_phase s') < phases_left (gsd_get_phase s)"
  by (auto simp: gsd_advance_phase_def Let_def split: ShutdownPhase.splits if_splits)

termination execute_loop
  by (relation "measure (\<lambda>(clk, cb, w, s). phases_left (gsd_get_phase s))")
    (auto dest!: sym [of _ "gsd_advance_phase _ _"] advance_phases_left)

declare execute_loop.simps [simp del]

definition execute_shutdown ::
    "clock \<Rightarrow> 'w shutdown_callbacks \<Rightarrow> 'w \<Rightarrow> GracefulShutdown \<Rightarrow> bool \<times> GracefulShutdown \<times> 'w" where
  "execute_shutdown clk cb w s = (if \<not> gsd_initiated s then (True, s, w) else execute_loop clk cb w s)"

section \<open>What a shutdown has done\<close>

text \<open>The total timeout has passed.\<close>

definition too_late :: "u64 \<Rightarrow> GracefulShutdown \<Rightarrow> bool" where
  "too_late now s \<longleftrightarrow> gsd_total_timeout_ms s < gsd_get_elapsed_ms now s"

definition shutdown_actions :: "'w shutdown_callbacks \<Rightarrow> ('w \<Rightarrow> 'w) list" where
  "shutdown_actions cb =
     [snd \<circ> cancel_orders_fn cb, snd \<circ> flatten_positions_fn cb, snd \<circ> flush_wal_fn cb, snd \<circ> persist_state_fn cb]"

text \<open>
  The number of phases that end in time before the first one that ends too late, counted from
  \<open>StopNewOrders\<close>, which has no action, to \<open>FlushWal\<close>; the end of phase \<open>i\<close> is read as \<open>clk i\<close>. The actions
  belong to the four phases after \<open>StopNewOrders\<close>, so this is the number of actions that are started.
\<close>

definition phases_in_time :: "clock \<Rightarrow> GracefulShutdown \<Rightarrow> nat" where
  "phases_in_time clk s = length (takeWhile (\<lambda>i. \<not> too_late (clk i) s) [1, 2, 3, 4])"

lemma too_late_cong [simp]:
  "too_late now (s\<lparr>gsd_phase := p\<rparr>) = too_late now s"
  "too_late now (s\<lparr>gsd_orders_cancelled := n\<rparr>) = too_late now s"
  "too_late now (s\<lparr>gsd_positions_flattened := n\<rparr>) = too_late now s"
  "too_late now (s\<lparr>gsd_wal_records_flushed := n\<rparr>) = too_late now s"
  by (simp_all add: too_late_def gsd_get_elapsed_ms_def Let_def)

lemma advance_late: "too_late now s \<Longrightarrow> gsd_advance_phase now s = (False, gsd_force_complete s)"
  by (simp add: gsd_advance_phase_def too_late_def Let_def)

lemma advance_in_time:
  assumes "\<not> too_late now s"
  shows "gsd_get_phase s = StopNewOrders \<Longrightarrow>
      gsd_advance_phase now s = (True, s\<lparr>gsd_phase := phase_to_u8 CancelOrders\<rparr>)"
    and "gsd_get_phase s = CancelOrders \<Longrightarrow>
      gsd_advance_phase now s = (True, s\<lparr>gsd_phase := phase_to_u8 FlattenPositions\<rparr>)"
    and "gsd_get_phase s = FlattenPositions \<Longrightarrow>
      gsd_advance_phase now s = (True, s\<lparr>gsd_phase := phase_to_u8 FlushWal\<rparr>)"
    and "gsd_get_phase s = FlushWal \<Longrightarrow>
      gsd_advance_phase now s = (True, s\<lparr>gsd_phase := phase_to_u8 PersistState\<rparr>)"
  using assms by (simp_all add: gsd_advance_phase_def too_late_def Let_def)

text \<open>What a call of the sequence leaves behind: it is complete, and these actions have run.\<close>

definition ends_with :: "bool \<times> GracefulShutdown \<times> 'w \<Rightarrow> 'w \<Rightarrow> bool" where
  "ends_with r w \<longleftrightarrow> fst r \<and> gsd_complete (fst (snd r)) \<and> gsd_get_phase (fst (snd r)) = PhComplete \<and> snd (snd r) = w"

lemma ends_force [simp]: "ends_with (gsd_complete (gsd_force_complete s), gsd_force_complete s, w) w' \<longleftrightarrow> w = w'"
  by (simp add: ends_with_def gsd_force_complete_def gsd_get_phase_def phase_to_u8_def)

lemma loop_persist:
  "gsd_get_phase s = PersistState \<Longrightarrow> ends_with (execute_loop clk cb w s) (snd (persist_state_fn cb w))"
  by (subst execute_loop.simps) (simp add: ends_with_def gsd_get_phase_def phase_to_u8_def split: prod.split)

lemma loop_flush:
  "gsd_get_phase s = FlushWal \<Longrightarrow> ends_with (execute_loop clk cb w s)
     (let w = snd (flush_wal_fn cb w) in if too_late (clk 4) s then w else snd (persist_state_fn cb w))"
  by (subst execute_loop.simps)
    (auto simp: Let_def advance_late advance_in_time(4) intro: loop_persist split: prod.split)

lemma loop_flatten:
  "gsd_get_phase s = FlattenPositions \<Longrightarrow> ends_with (execute_loop clk cb w s)
     (let w = snd (flatten_positions_fn cb w) in if too_late (clk 3) s then w
      else let w = snd (flush_wal_fn cb w) in if too_late (clk 4) s then w else snd (persist_state_fn cb w))"
  using loop_flush [of "s\<lparr>gsd_positions_flattened := fst (flatten_positions_fn cb w), gsd_phase := phase_to_u8 FlushWal\<rparr>"
      clk cb "snd (flatten_positions_fn cb w)"]
  by (subst execute_loop.simps) (auto simp: Let_def advance_late advance_in_time(3) split: prod.split)

lemma loop_cancel:
  "gsd_get_phase s = CancelOrders \<Longrightarrow> ends_with (execute_loop clk cb w s)
     (let w = snd (cancel_orders_fn cb w) in if too_late (clk 2) s then w
      else let w = snd (flatten_positions_fn cb w) in if too_late (clk 3) s then w
      else let w = snd (flush_wal_fn cb w) in if too_late (clk 4) s then w else snd (persist_state_fn cb w))"
  using loop_flatten [of "s\<lparr>gsd_orders_cancelled := fst (cancel_orders_fn cb w), gsd_phase := phase_to_u8 FlattenPositions\<rparr>"
      clk cb "snd (cancel_orders_fn cb w)"]
  by (subst execute_loop.simps) (auto simp: Let_def advance_late advance_in_time(2) split: prod.split)

lemma loop_stop:
  "gsd_get_phase s = StopNewOrders \<Longrightarrow> ends_with (execute_loop clk cb w s)
     (if too_late (clk 1) s then w
      else let w = snd (cancel_orders_fn cb w) in if too_late (clk 2) s then w
      else let w = snd (flatten_positions_fn cb w) in if too_late (clk 3) s then w
      else let w = snd (flush_wal_fn cb w) in if too_late (clk 4) s then w else snd (persist_state_fn cb w))"
  using loop_cancel [of "s\<lparr>gsd_phase := phase_to_u8 CancelOrders\<rparr>" clk cb w]
  by (subst execute_loop.simps) (auto simp: Let_def advance_late advance_in_time(1))

text \<open>
  C29: A shutdown ends, in order. For any callbacks and any clock, executing an initiated shutdown returns
  true with everything marked complete, and what it has run is exactly the first actions of: cancel the
  orders, flatten the positions, flush the log, persist the state. An action is run exactly when every phase
  before its own, from \<open>StopNewOrders\<close> on, ended within the total timeout; the last one that is run may itself
  end after it.
\<close>

theorem shutdown_runs_prefix:
  assumes "gsd_initiate t0 reason s0 = (True, s)"
  shows "case execute_shutdown clk cb w s of (ok, s', w') \<Rightarrow>
    ok \<and> gsd_complete s' \<and> gsd_get_phase s' = PhComplete \<and>
    w' = fold id (take (phases_in_time clk s) (shutdown_actions cb)) w"
proof -
  have s: "gsd_initiated s" "gsd_get_phase s = StopNewOrders"
    using assms(1) by (auto simp: gsd_initiate_def gsd_get_phase_def phase_to_u8_def split: if_splits)
  have "ends_with (execute_shutdown clk cb w s) (fold id (take (phases_in_time clk s) (shutdown_actions cb)) w)"
    using loop_stop [OF s(2), of clk cb w] s(1)
    by (auto simp: execute_shutdown_def phases_in_time_def shutdown_actions_def Let_def split: if_splits)
  then show ?thesis by (simp add: ends_with_def case_prod_beta)
qed

text \<open>
  A shutdown of 5 s in which flattening ends after 6 s: the positions were flattened, too late, and the log is
  not flushed, nothing is persisted.
\<close>

definition logged_callbacks :: "string list shutdown_callbacks" where
  "logged_callbacks =
     \<lparr>cancel_orders_fn = \<lambda>w. (2, w @ [''cancel'']), flatten_positions_fn = \<lambda>w. (1, w @ [''flatten'']),
      flush_wal_fn = \<lambda>w. (9, w @ [''flush'']), persist_state_fn = \<lambda>w. (True, w @ [''persist''])\<rparr>"

theorem shutdown_runs_prefix_witness:
  "case execute_shutdown (\<lambda>i. if i < 3 then 2 else 6000000001) logged_callbacks []
       (snd (gsd_initiate 1 SigTerm (gsd_new 1000 5000))) of
     (ok, s, w) \<Rightarrow> ok \<and> gsd_complete s \<and> w = [''cancel'', ''flatten'']"
proof -
  have "gsd_initiate 1 SigTerm (gsd_new 1000 5000) = (True, snd (gsd_initiate 1 SigTerm (gsd_new 1000 5000)))"
    by (simp add: gsd_initiate_def gsd_new_def)
  from shutdown_runs_prefix [OF this, of "\<lambda>i. if i < 3 then 2 else 6000000001" logged_callbacks "[]"]
  show ?thesis
    by (simp add: phases_in_time_def too_late_def gsd_get_elapsed_ms_def gsd_initiate_def gsd_new_def
        shutdown_actions_def logged_callbacks_def word_less_nat_alt unat_div case_prod_beta)
qed

section \<open>Further facts\<close>

text \<open>Only one caller initiates a shutdown.\<close>

lemma initiated_once:
  "gsd_initiate t reason s = (True, s') \<Longrightarrow> gsd_initiate t' reason' s' = (False, s')"
  by (auto simp: gsd_initiate_def split: if_splits)

lemma reason_kept:
  "gsd_initiate t reason s = (True, s') \<Longrightarrow> gsd_get_reason s' = reason"
  by (cases reason) (auto simp: gsd_initiate_def gsd_get_reason_def reason_to_u8_def split: if_splits)

text \<open>A clock set back, even by less than a millisecond, counts as a timeout: nothing is run at all.\<close>

lemma clock_set_back_skips_all:
  assumes "gsd_initiate t0 reason s0 = (True, s)" "clk 1 < t0" "gsd_total_timeout_ms s0 < 1000000"
    "t0 < 2 ^ 63"
  shows "too_late (clk 1) s"
proof -
  have "unat (clk 1 - t0) = unat (clk 1) + 2 ^ 64 - unat t0"
    using assms(2) by (simp add: unat_sub_if' word_less_nat_alt word_le_nat_alt)
  moreover have "unat t0 < 2 ^ 63" using assms(4) by (simp add: word_less_nat_alt)
  ultimately have "1000000 \<le> unat (clk 1 - t0) div 1000000" by simp
  moreover have "t0 \<noteq> 0" using assms(2) by auto
  ultimately show ?thesis
    using assms(1,3)
    by (auto simp: gsd_initiate_def too_late_def gsd_get_elapsed_ms_def Let_def word_less_nat_alt unat_div
        split: if_splits)
qed

end
