(* ===== verification/Keyword_Matcher.thy ===== *)
theory Keyword_Matcher
  imports Machine "HOL-Library.Monad_Syntax" "HOL-Library.Sublist"
begin

text \<open>
  The keyword matcher (\<open>src/src/events/keyword_matcher.rs\<close>): an Aho-Corasick automaton in fixed tables, its
  construction and both scans. A read or write outside a table is \<open>None\<close>, as the panic it is, and so is a
  loop that does not end. Strings are lists of bytes.
\<close>

section \<open>Tables\<close>

definition MAX_PATTERNS :: nat where
  "MAX_PATTERNS = 256"

definition ALPHABET_SIZE :: nat where
  "ALPHABET_SIZE = 128"

definition arr_get :: "'a list \<Rightarrow> nat \<Rightarrow> 'a option" where
  "arr_get xs i = (if i < length xs then Some (xs ! i) else None)"

definition arr_set :: "'a list \<Rightarrow> nat \<Rightarrow> 'a \<Rightarrow> 'a list option" where
  "arr_set xs i v = (if i < length xs then Some (xs[i := v]) else None)"

primrec for_each :: "('a \<Rightarrow> 's \<Rightarrow> 's option) \<Rightarrow> 'a list \<Rightarrow> 's \<Rightarrow> 's option" where
  "for_each f [] s = Some s"
| "for_each f (x # xs) s = Option.bind (f x s) (for_each f xs)"

record KeywordMatch =
  km_pattern_idx :: nat
  km_start :: nat
  km_end :: nat
  km_priority :: u8

record AhoCorasickMatcher =
  ahc_transitions :: "16 word list"
  ahc_failure :: "nat list"
  ahc_output :: "nat list"
  ahc_priorities :: "u8 list"
  ahc_state_count :: u64
  ahc_pattern_count :: u64
  ahc_initialized :: bool

definition ahc_new :: AhoCorasickMatcher where
  "ahc_new =
     \<lparr>ahc_transitions = replicate (MAX_PATTERNS * ALPHABET_SIZE) 0, ahc_failure = replicate MAX_PATTERNS 0,
      ahc_output = replicate MAX_PATTERNS MAX_PATTERNS, ahc_priorities = replicate MAX_PATTERNS 0,
      ahc_state_count = 1, ahc_pattern_count = 0, ahc_initialized = False\<rparr>"

section \<open>Construction\<close>

subsection \<open>The trie\<close>

definition clear_row :: "nat \<Rightarrow> 16 word list \<Rightarrow> 16 word list option" where
  "clear_row s tr = for_each (\<lambda>c tr. arr_set tr (s * ALPHABET_SIZE + c) 0) [0..<ALPHABET_SIZE] tr"

definition ahc_insert_byte ::
    "u8 \<Rightarrow> 16 word list \<times> u64 \<times> nat \<Rightarrow> (16 word list \<times> u64 \<times> nat) option" where
  "ahc_insert_byte byte = (\<lambda>(tr, current_state, state).
     if ALPHABET_SIZE \<le> unat byte then Some (tr, current_state, state)
     else do {
       let trans_idx = state * ALPHABET_SIZE + unat byte;
       t \<leftarrow> arr_get tr trans_idx;
       if t = 0 then do {
         tr \<leftarrow> arr_set tr trans_idx (ucast current_state);
         let new_state = unat current_state;
         tr \<leftarrow> clear_row new_state tr;
         Some (tr, current_state + 1, new_state)
       } else Some (tr, current_state, unat t)
     })"

definition ahc_insert_pattern ::
    "nat \<times> u8 list \<times> u8 \<Rightarrow> AhoCorasickMatcher \<times> u64 \<Rightarrow> (AhoCorasickMatcher \<times> u64) option" where
  "ahc_insert_pattern = (\<lambda>(pattern_idx, pattern, priority) (m, current_state). do {
     (tr, current_state, state) \<leftarrow> for_each ahc_insert_byte pattern (ahc_transitions m, current_state, 0);
     let m = m\<lparr>ahc_transitions := tr\<rparr>;
     m \<leftarrow> (if state < MAX_PATTERNS then do {
             out \<leftarrow> arr_set (ahc_output m) state pattern_idx;
             pr \<leftarrow> arr_set (ahc_priorities m) pattern_idx priority;
             Some (m\<lparr>ahc_output := out, ahc_priorities := pr\<rparr>)
           } else Some m);
     Some (m\<lparr>ahc_pattern_count := ahc_pattern_count m + 1\<rparr>, current_state)
   })"

subsection \<open>Failure links\<close>

text \<open>From a state to the first state on its failure path that has a transition, or the root.\<close>

partial_function (option) follow_failure :: "16 word list \<Rightarrow> nat list \<Rightarrow> nat \<Rightarrow> nat \<Rightarrow> nat option" where
  "follow_failure tr failure c state =
     (if state = 0 then Some 0
      else Option.bind (arr_get tr (state * ALPHABET_SIZE + c)) (\<lambda>t.
             if t = 0 then Option.bind (arr_get failure state) (\<lambda>f. follow_failure tr failure c f)
             else Some state))"

definition root_failure :: "nat \<Rightarrow> AhoCorasickMatcher \<Rightarrow> AhoCorasickMatcher option" where
  "root_failure c m = do {
     t \<leftarrow> arr_get (ahc_transitions m) c;
     if t \<noteq> 0 then do {
       failure \<leftarrow> arr_set (ahc_failure m) (unat t) 0;
       Some (m\<lparr>ahc_failure := failure\<rparr>)
     } else Some m
   }"

definition root_queue :: "16 word list \<Rightarrow> nat list" where
  "root_queue tr = map (\<lambda>c. unat (tr ! c)) (filter (\<lambda>c. tr ! c \<noteq> 0) [0..<ALPHABET_SIZE])"

text \<open>One child of the state \<open>r\<close> taken from the queue.\<close>

definition bfs_child ::
    "nat \<Rightarrow> nat \<Rightarrow> nat list \<times> AhoCorasickMatcher \<Rightarrow> (nat list \<times> AhoCorasickMatcher) option" where
  "bfs_child r c = (\<lambda>(queue, m). do {
     t \<leftarrow> arr_get (ahc_transitions m) (r * ALPHABET_SIZE + c);
     let s = unat t;
     if s = 0 then Some (queue, m)
     else do {
       let queue = queue @ [s];
       f \<leftarrow> arr_get (ahc_failure m) r;
       fail \<leftarrow> follow_failure (ahc_transitions m) (ahc_failure m) c f;
       u \<leftarrow> arr_get (ahc_transitions m) (fail * ALPHABET_SIZE + c);
       failure \<leftarrow> arr_set (ahc_failure m) s (if u \<noteq> 0 \<and> unat u \<noteq> s then unat u else 0);
       let m = m\<lparr>ahc_failure := failure\<rparr>;
       o_fail \<leftarrow> arr_get (ahc_output m) (failure ! s);
       if o_fail \<noteq> MAX_PATTERNS then do {
         out \<leftarrow> arr_set (ahc_output m) s o_fail;
         Some (queue, m\<lparr>ahc_output := out\<rparr>)
       } else Some (queue, m)
     }
   })"

partial_function (option) bfs_loop :: "nat \<Rightarrow> nat list \<Rightarrow> AhoCorasickMatcher \<Rightarrow> AhoCorasickMatcher option" where
  "bfs_loop head queue m =
     (if head < length queue
      then Option.bind (for_each (bfs_child (queue ! head)) [0..<ALPHABET_SIZE] (queue, m))
             (\<lambda>r. bfs_loop (head + 1) (fst r) (snd r))
      else Some m)"

definition build_failure_links :: "AhoCorasickMatcher \<Rightarrow> AhoCorasickMatcher option" where
  "build_failure_links m = do {
     m \<leftarrow> for_each root_failure [0..<ALPHABET_SIZE] m;
     bfs_loop 0 (root_queue (ahc_transitions m)) m
   }"

definition ahc_build :: "(u8 list \<times> u8) list \<Rightarrow> AhoCorasickMatcher \<Rightarrow> (bool \<times> AhoCorasickMatcher) option" where
  "ahc_build patterns m =
     (if MAX_PATTERNS < length patterns then Some (False, m)
      else do {
        let m = m\<lparr>ahc_state_count := 1, ahc_pattern_count := 0\<rparr>;
        tr \<leftarrow> clear_row 0 (ahc_transitions m);
        (m, current_state) \<leftarrow>
          for_each ahc_insert_pattern (zip [0..<length patterns] patterns) (m\<lparr>ahc_transitions := tr\<rparr>, 1);
        m \<leftarrow> build_failure_links (m\<lparr>ahc_state_count := current_state\<rparr>);
        Some (True, m\<lparr>ahc_initialized := True\<rparr>)
      })"

section \<open>Scanning\<close>

text \<open>The state after one byte below 128.\<close>

definition scan_step :: "AhoCorasickMatcher \<Rightarrow> nat \<Rightarrow> nat \<Rightarrow> nat option" where
  "scan_step m c state = do {
     state \<leftarrow> follow_failure (ahc_transitions m) (ahc_failure m) c state;
     t \<leftarrow> arr_get (ahc_transitions m) (state * ALPHABET_SIZE + c);
     Some (if t \<noteq> 0 then unat t else state)
   }"

definition scan_byte ::
    "AhoCorasickMatcher \<Rightarrow> nat \<times> u8 \<Rightarrow> nat \<times> nat \<times> KeywordMatch list \<Rightarrow> (nat \<times> nat \<times> KeywordMatch list) option"
  where
  "scan_byte m = (\<lambda>(i, byte) (state, match_count, matches).
     if ALPHABET_SIZE \<le> unat byte then Some (0, match_count, matches)
     else do {
       state \<leftarrow> scan_step m (unat byte) state;
       out \<leftarrow> arr_get (ahc_output m) state;
       if out \<noteq> MAX_PATTERNS \<and> match_count < length matches then do {
         priority \<leftarrow> arr_get (ahc_priorities m) out;
         Some (state, match_count + 1,
               matches[match_count := \<lparr>km_pattern_idx = out, km_start = i - 8, km_end = i + 1, km_priority = priority\<rparr>])
       } else Some (state, match_count, matches)
     })"

definition ahc_scan :: "AhoCorasickMatcher \<Rightarrow> u8 list \<Rightarrow> KeywordMatch list \<Rightarrow> (nat \<times> KeywordMatch list) option" where
  "ahc_scan m txt matches =
     (if \<not> ahc_initialized m then Some (0, matches)
      else map_option snd (for_each (scan_byte m) (zip [0..<length txt] txt) (0, 0, matches)))"

primrec critical_loop :: "AhoCorasickMatcher \<Rightarrow> nat \<Rightarrow> u8 list \<Rightarrow> bool option" where
  "critical_loop m state [] = Some False"
| "critical_loop m state (byte # bytes) =
     (if ALPHABET_SIZE \<le> unat byte then critical_loop m 0 bytes
      else do {
        state \<leftarrow> scan_step m (unat byte) state;
        out \<leftarrow> arr_get (ahc_output m) state;
        if out = MAX_PATTERNS then critical_loop m state bytes
        else do {
          priority \<leftarrow> arr_get (ahc_priorities m) out;
          if 3 \<le> priority then Some True else critical_loop m state bytes
        }
      })"

definition ahc_has_critical :: "AhoCorasickMatcher \<Rightarrow> u8 list \<Rightarrow> bool option" where
  "ahc_has_critical m txt = (if \<not> ahc_initialized m then Some False else critical_loop m 0 txt)"

definition ahc_is_ready :: "AhoCorasickMatcher \<Rightarrow> bool" where
  "ahc_is_ready m = ahc_initialized m"

definition ahc_reset :: "AhoCorasickMatcher \<Rightarrow> AhoCorasickMatcher" where
  "ahc_reset m = m\<lparr>ahc_initialized := False, ahc_state_count := 1, ahc_pattern_count := 0\<rparr>"

section \<open>The builder\<close>

definition byte_string :: "string \<Rightarrow> u8 list" where
  "byte_string s = map (\<lambda>c. of_nat (of_char c)) s"

definition CRITICAL_KEYWORDS :: "(u8 list \<times> u8) list" where
  "CRITICAL_KEYWORDS =
     [(byte_string ''hack'', 3), (byte_string ''exploit'', 3), (byte_string ''breach'', 3),
      (byte_string ''attack'', 3), (byte_string ''delist'', 3), (byte_string ''suspend'', 3),
      (byte_string ''halt'', 3), (byte_string ''emergency'', 3), (byte_string ''crash'', 3),
      (byte_string ''failure'', 3), (byte_string ''upgrade'', 2), (byte_string ''downgrade'', 2),
      (byte_string ''merger'', 2), (byte_string ''acquisition'', 2), (byte_string ''lawsuit'', 2),
      (byte_string ''investigation'', 2), (byte_string ''earnings'', 1), (byte_string ''revenue'', 1),
      (byte_string ''forecast'', 1), (byte_string ''dividend'', 1)]"

text \<open>Lower case of a string, as far as it is ASCII; the rest of Unicode is left to the parameter \<open>lower\<close>.\<close>

type_synonym KeywordMatcherBuilder = "(u8 list \<times> u8) list"

definition add_pattern :: "(u8 list \<Rightarrow> u8 list) \<Rightarrow> u8 list \<Rightarrow> u8 \<Rightarrow> KeywordMatcherBuilder \<Rightarrow> KeywordMatcherBuilder" where
  "add_pattern lower pattern priority patterns =
     (if length patterns < MAX_PATTERNS then patterns @ [(lower pattern, priority)] else patterns)"

definition add_critical_keywords :: "KeywordMatcherBuilder \<Rightarrow> KeywordMatcherBuilder" where
  "add_critical_keywords patterns =
     fold (\<lambda>p patterns. if length patterns < MAX_PATTERNS then patterns @ [p] else patterns) CRITICAL_KEYWORDS patterns"

definition kmb_build :: "KeywordMatcherBuilder \<Rightarrow> AhoCorasickMatcher option" where
  "kmb_build patterns = map_option snd (ahc_build patterns ahc_new)"

end
