(* ===== verification/Keyword_Automaton.thy ===== *)
theory Keyword_Automaton
  imports Keyword_Matcher
begin

text \<open>
  Correctness of the keyword matcher. The states of the trie stand for the words that lead to them;
  failure links lead to the longest proper suffix that has a state, and the output of a state is the
  shortest pattern that its word ends with.
\<close>

declare MAX_PATTERNS_def [simp] ALPHABET_SIZE_def [simp]

section \<open>Suffixes\<close>

text \<open>The longest suffix of a word in a set of words, and the first pattern among its suffixes, shortest first.\<close>

fun longest :: "nat list set \<Rightarrow> nat list \<Rightarrow> nat list" where
  "longest W [] = []"
| "longest W (a # w) = (if a # w \<in> W then a # w else longest W w)"

fun shortest :: "(nat list \<Rightarrow> nat option) \<Rightarrow> nat list \<Rightarrow> nat option" where
  "shortest own [] = None"
| "shortest own (a # w) = (case shortest own w of Some i \<Rightarrow> Some i | None \<Rightarrow> own (a # w))"

definition prefix_closed :: "nat list set \<Rightarrow> bool" where
  "prefix_closed W \<longleftrightarrow> [] \<in> W \<and> (\<forall>w c. w @ [c] \<in> W \<longrightarrow> w \<in> W)"

lemma longest_in: "[] \<in> W \<Longrightarrow> longest W w \<in> W"
  by (induction W w rule: longest.induct) auto

lemma longest_id: "w \<in> W \<Longrightarrow> longest W w = w"
  by (cases w) auto

lemma longest_le: "length (longest W w) \<le> length w"
  by (induction W w rule: longest.induct) auto

lemma longest_snoc: "prefix_closed W \<Longrightarrow> longest W (w @ [c]) = longest W (longest W w @ [c])"
proof (induction W w rule: longest.induct)
  case (2 W a w)
  then have "a # w \<notin> W \<Longrightarrow> a # w @ [c] \<notin> W" by (auto simp: prefix_closed_def dest: spec [of _ "a # w"])
  with 2 show ?case by (cases "a # w \<in> W") auto
qed simp

lemma shortest_longest: "(\<And>w. own w \<noteq> None \<Longrightarrow> w \<in> W) \<Longrightarrow> shortest own (longest W w) = shortest own w"
proof (induction W w rule: longest.induct)
  case (2 W a w)
  then have "a # w \<notin> W \<Longrightarrow> own (a # w) = None" by blast
  with 2 show ?case by (auto split: option.split)
qed simp

section \<open>Loops over tables\<close>

lemma for_each_append: "for_each f (xs @ ys) s = Option.bind (for_each f xs s) (for_each f ys)"
  by (induction xs arbitrary: s) (auto split: Option.bind_split)

lemma for_each_map: "for_each f (map g xs) s = for_each (\<lambda>x. f (g x)) xs s"
  by (induction xs arbitrary: s) (auto split: Option.bind_split)

lemma for_each_upt:
  assumes "P 0 s" and "\<And>i s. i < n \<Longrightarrow> P i s \<Longrightarrow> \<exists>s'. f i s = Some s' \<and> P (Suc i) s'"
  shows "\<exists>s'. for_each f [0..<n] s = Some s' \<and> P n s'"
  using assms(2)
proof (induction n)
  case 0
  then show ?case using assms(1) by simp
next
  case (Suc n)
  then obtain s' where "for_each f [0..<n] s = Some s'" "P n s'" by auto
  moreover from Suc.prems [OF lessI this(2)] obtain s'' where "f n s' = Some s''" "P (Suc n) s''" by auto
  ultimately show ?case by (simp add: for_each_append)
qed

lemma zip_upt: "zip [0..<length xs] xs = map (\<lambda>i. (i, xs ! i)) [0..<length xs]"
  by (auto intro: nth_equalityI)

text \<open>The cell of a state and a byte in the transition table.\<close>

definition child :: "16 word list \<Rightarrow> nat \<Rightarrow> nat \<Rightarrow> nat" where
  "child tr s c = unat (tr ! (s * 128 + c))"

lemma cell_inj: "c < 128 \<Longrightarrow> c' < 128 \<Longrightarrow> s * 128 + c = s' * 128 + c' \<longleftrightarrow> s = s' \<and> c = (c' :: nat)"
proof -
  assume c: "c < 128" "c' < 128"
  have "s = s'" if "s * 128 + c = s' * 128 + c'"
  proof -
    from that have "(s * 128 + c) div 128 = (s' * 128 + c') div 128" by simp
    with c show ?thesis by simp
  qed
  then show ?thesis by auto
qed

lemma cell_less: "s < 256 \<Longrightarrow> c < 128 \<Longrightarrow> s * 128 + c < (32768 :: nat)"
  by simp

definition cleared :: "nat \<Rightarrow> 16 word list \<Rightarrow> nat \<Rightarrow> 16 word list \<Rightarrow> bool" where
  "cleared s tr n tr' \<longleftrightarrow> length tr' = 32768 \<and>
    (\<forall>s' c. c < 128 \<longrightarrow> child tr' s' c = (if s' = s \<and> c < n then 0 else child tr s' c))"

lemma cleared_start: "length tr = 32768 \<Longrightarrow> cleared s tr 0 tr"
  by (simp add: cleared_def)

lemma cleared_step:
  assumes "n < 128" "s < 256" "cleared s tr n tr'"
  shows "\<exists>tr''. arr_set tr' (s * 128 + n) 0 = Some tr'' \<and> cleared s tr (Suc n) tr''"
proof -
  have len: "length tr' = 32768" using assms(3) by (simp add: cleared_def)
  have "child (tr'[s * 128 + n := 0]) s' c = (if s' = s \<and> c < Suc n then 0 else child tr s' c)" if "c < 128" for s' c
    using assms(3) len that cell_inj [of n c s s'] cell_less [OF assms(2,1)] assms(1)
    by (cases "s' = s \<and> c = n") (auto simp: child_def cleared_def nth_list_update less_Suc_eq)
  then have "cleared s tr (Suc n) (tr'[s * 128 + n := 0])"
    unfolding cleared_def by (simp only: length_list_update len) blast
  moreover have "arr_set tr' (s * 128 + n) 0 = Some (tr'[s * 128 + n := 0])"
    unfolding arr_set_def len using cell_less [OF assms(2,1)] by (rule if_P)
  ultimately show ?thesis by blast
qed

lemma clear_row_child:
  assumes "length tr = 32768" "s < 256"
  shows "\<exists>tr'. clear_row s tr = Some tr' \<and> cleared s tr 128 tr'"
  unfolding clear_row_def ALPHABET_SIZE_def
  by (rule for_each_upt [where P = "cleared s tr", OF cleared_start [OF assms(1)] cleared_step [OF _ assms(2)]])

section \<open>The trie\<close>

definition trie :: "nat list list \<Rightarrow> 16 word list \<Rightarrow> bool" where
  "trie ws tr \<longleftrightarrow>
     length tr = 32768 \<and> 0 < length ws \<and> length ws \<le> 256 \<and> ws ! 0 = [] \<and> distinct ws \<and>
     prefix_closed (set ws) \<and> (\<forall>w \<in> set ws. \<forall>c \<in> set w. c < 128) \<and>
     (\<forall>s < length ws. \<forall>c < 128. child tr s c < length ws \<and>
        (if child tr s c = 0 then ws ! s @ [c] \<notin> set ws else ws ! child tr s c = ws ! s @ [c]))"

lemma trie_dims:
  assumes "trie ws tr"
  shows "length tr = 32768" "0 < length ws" "length ws \<le> 256" "ws ! 0 = []" "distinct ws" "prefix_closed (set ws)"
    "[] \<in> set ws"
  using assms nth_mem [of 0 ws] by (auto simp: trie_def)

lemma trie_inj: "trie ws tr \<Longrightarrow> s < length ws \<Longrightarrow> t < length ws \<Longrightarrow> ws ! s = ws ! t \<longleftrightarrow> s = t"
  by (simp add: trie_dims(5) nth_eq_iff_index_eq)

lemma trie_child:
  assumes "trie ws tr" "s < length ws" "c < 128"
  shows "child tr s c < length ws" "child tr s c = 0 \<Longrightarrow> ws ! s @ [c] \<notin> set ws"
    "child tr s c \<noteq> 0 \<Longrightarrow> ws ! child tr s c = ws ! s @ [c]"
  using assms unfolding trie_def by (metis (no_types))+

lemma trie_letters: "trie ws tr \<Longrightarrow> s < length ws \<Longrightarrow> c \<in> set (ws ! s) \<Longrightarrow> c < 128"
  unfolding trie_def using nth_mem by blast

definition word_of :: "u8 list \<Rightarrow> nat list" where
  "word_of p = filter (\<lambda>c. c < 128) (map unat p)"

lemma word_of_simps [simp]:
  "word_of [] = []"
  "word_of (b # p) = (if unat b < 128 then unat b # word_of p else word_of p)"
  by (simp_all add: word_of_def)

lemma insert_new_word:
  assumes "trie ws tr" "s < length ws" "c < 128" "length ws < 256" "child tr s c = 0"
    and "length tr' = 32768"
    and "\<And>s' c'. c' < 128 \<Longrightarrow> child tr' s' c' =
      (if s' = length ws then 0 else if s' = s \<and> c' = c then length ws else child tr s' c')"
  shows "trie (ws @ [ws ! s @ [c]]) tr'"
proof -
  have new: "ws ! s @ [c] \<notin> set ws" using assms(1,2,3,5) by (auto simp: trie_def)
  have "w \<in> insert (ws ! s @ [c]) (set ws)" if "w @ [b] \<in> insert (ws ! s @ [c]) (set ws)" for w b
    using that assms(1,2) by (auto simp: trie_def prefix_closed_def)
  moreover have "ws ! s @ [c] @ [b] \<noteq> ws ! s @ [c]" for b by simp
  moreover have "ws ! s @ [c, b] \<notin> set ws" for b
    using new assms(1) by (auto simp: trie_def prefix_closed_def dest!: spec [of _ "ws ! s @ [c]"])
  moreover have "ws ! s' @ [b] = ws ! s @ [c] \<longleftrightarrow> s' = s \<and> b = c" if "s' < length ws" for s' b
    using that assms(1,2) by (auto simp: trie_def nth_eq_iff_index_eq)
  ultimately show ?thesis
    using assms new unfolding trie_def prefix_closed_def
    by (auto simp: nth_append less_Suc_eq)
qed

lemma insert_byte:
  assumes "trie ws tr" "s < length ws" "unat byte < 128" "length ws < 256"
  shows "\<exists>tr' ws' s'. ahc_insert_byte byte (tr, of_nat (length ws), s) = Some (tr', of_nat (length ws'), s') \<and>
    trie ws' tr' \<and> s' < length ws' \<and> ws' ! s' = ws ! s @ [unat byte] \<and> prefix ws ws' \<and> length ws' \<le> length ws + 1"
proof (cases "child tr s (unat byte) = 0")
  case False
  then have "child tr s (unat byte) < length ws" "ws ! child tr s (unat byte) = ws ! s @ [unat byte]"
    using assms by (auto simp: trie_def)
  moreover have "ahc_insert_byte byte (tr, of_nat (length ws), s) = Some (tr, of_nat (length ws), child tr s (unat byte))"
    using False assms by (auto simp: ahc_insert_byte_def arr_get_def trie_def cell_less child_def unat_eq_0)
  ultimately show ?thesis using assms(1) by (intro exI conjI) auto
next
  case True
  define tr1 where "tr1 = tr[s * 128 + unat byte := ucast (of_nat (length ws) :: u64)]"
  have len: "length tr = 32768" "s < 256" using assms by (auto simp: trie_def)
  have count: "unat (ucast (of_nat (length ws) :: u64) :: 16 word) = length ws" "unat (of_nat (length ws) :: u64) = length ws"
    using assms(4) by (simp_all add: unsigned_ucast_eq unsigned_of_nat take_bit_nat_eq_self)
  have tr1: "length tr1 = 32768"
    "\<And>s' c'. c' < 128 \<Longrightarrow> child tr1 s' c' = (if s' = s \<and> c' = unat byte then length ws else child tr s' c')"
    using assms(3) len count by (auto simp: tr1_def child_def nth_list_update cell_inj cell_less)
  from clear_row_child [OF tr1(1) assms(4)] obtain tr2 where tr2: "clear_row (length ws) tr1 = Some tr2"
      "length tr2 = 32768" "\<And>s' c. c < 128 \<Longrightarrow> child tr2 s' c = (if s' = length ws then 0 else child tr1 s' c)"
    by (auto simp: cleared_def)
  have "trie (ws @ [ws ! s @ [unat byte]]) tr2"
    by (rule insert_new_word [OF assms(1,2,3,4) True tr2(2)]) (simp add: tr2(3) tr1(2))
  moreover have "ahc_insert_byte byte (tr, of_nat (length ws), s) = Some (tr2, of_nat (length ws + 1), length ws)"
    using True assms(3) len tr2(1) count
    by (simp add: ahc_insert_byte_def arr_get_def arr_set_def cell_less child_def unat_eq_0 tr1_def Let_def)
  ultimately show ?thesis by (intro exI [of _ tr2] exI [of _ "ws @ [ws ! s @ [unat byte]]"] exI) auto
qed

lemma insert_bytes:
  assumes "trie ws tr" "s < length ws" "length ws + length p \<le> 256"
  shows "\<exists>tr' ws' s'. for_each ahc_insert_byte p (tr, of_nat (length ws), s) = Some (tr', of_nat (length ws'), s') \<and>
    trie ws' tr' \<and> s' < length ws' \<and> ws' ! s' = ws ! s @ word_of p \<and> prefix ws ws' \<and> length ws' \<le> length ws + length p"
  using assms
proof (induction p arbitrary: ws tr s)
  case Nil
  then show ?case by auto
next
  case (Cons byte p)
  show ?case
  proof (cases "unat byte < 128")
    case False
    then have "ahc_insert_byte byte (tr, of_nat (length ws), s) = Some (tr, of_nat (length ws), s)"
      by (simp add: ahc_insert_byte_def)
    moreover from Cons.IH [OF Cons.prems(1,2)] Cons.prems(3) obtain tr1 ws1 s1 where
      "for_each ahc_insert_byte p (tr, of_nat (length ws), s) = Some (tr1, of_nat (length ws1), s1)" "trie ws1 tr1"
      "s1 < length ws1" "ws1 ! s1 = ws ! s @ word_of p" "prefix ws ws1" "length ws1 \<le> length ws + length p"
      by auto
    ultimately show ?thesis using False by (intro exI [of _ tr1] exI [of _ ws1] exI [of _ s1]) auto
  next
    case True
    from insert_byte [OF Cons.prems(1,2) True] Cons.prems(3) obtain tr1 ws1 s1 where
      1: "ahc_insert_byte byte (tr, of_nat (length ws), s) = Some (tr1, of_nat (length ws1), s1)" "trie ws1 tr1"
        "s1 < length ws1" "ws1 ! s1 = ws ! s @ [unat byte]" "prefix ws ws1" "length ws1 \<le> length ws + 1"
      by auto
    from Cons.IH [OF 1(2,3)] 1(6) Cons.prems(3) obtain tr2 ws2 s2 where
      2: "for_each ahc_insert_byte p (tr1, of_nat (length ws1), s1) = Some (tr2, of_nat (length ws2), s2)"
        "trie ws2 tr2" "s2 < length ws2" "ws2 ! s2 = ws1 ! s1 @ word_of p" "prefix ws1 ws2"
        "length ws2 \<le> length ws1 + length p"
      by auto
    show ?thesis
      using 1 2 True by (intro exI [of _ tr2] exI [of _ ws2] exI [of _ s2]) (auto intro: prefix_order.trans)
  qed
qed

section \<open>All patterns\<close>

text \<open>The index of the last of the first \<open>n\<close> patterns with this word.\<close>

primrec own :: "(u8 list \<times> u8) list \<Rightarrow> nat \<Rightarrow> nat list \<Rightarrow> nat option" where
  "own pats 0 w = None"
| "own pats (Suc n) w = (if word_of (fst (pats ! n)) = w then Some n else own pats n w)"

lemma own_SomeD: "own pats n w = Some i \<Longrightarrow> i < n \<and> word_of (fst (pats ! i)) = w"
  by (induction n) (auto split: if_splits)

lemma own_None: "own pats n w = None \<longleftrightarrow> (\<forall>i < n. word_of (fst (pats ! i)) \<noteq> w)"
  by (induction n) (auto simp: less_Suc_eq)

definition out_code :: "nat option \<Rightarrow> nat" where
  "out_code x = (case x of None \<Rightarrow> 256 | Some i \<Rightarrow> i)"

lemma out_code_simps [simp]: "out_code None = 256" "out_code (Some i) = i"
  by (simp_all add: out_code_def)

definition total_length :: "(u8 list \<times> u8) list \<Rightarrow> nat" where
  "total_length pats = sum_list (map (\<lambda>p. length (fst p)) pats)"

definition inserted ::
    "(u8 list \<times> u8) list \<Rightarrow> nat \<Rightarrow> nat list list \<Rightarrow> AhoCorasickMatcher \<times> u64 \<Rightarrow> bool" where
  "inserted pats n ws = (\<lambda>(m, current_state).
     trie ws (ahc_transitions m) \<and> current_state = of_nat (length ws) \<and>
     length ws \<le> 1 + total_length (take n pats) \<and> length (ahc_failure m) = 256 \<and> (\<forall>s < 256. ahc_failure m ! s = 0) \<and>
     length (ahc_output m) = 256 \<and> length (ahc_priorities m) = 256 \<and>
     (\<forall>s < 256. ahc_output m ! s = out_code (if s < length ws then own pats n (ws ! s) else None)) \<and>
     (\<forall>i < n. word_of (fst (pats ! i)) \<in> set ws \<and> ahc_priorities m ! i = snd (pats ! i)))"

lemma insert_pattern:
  assumes "inserted pats n ws (m, current_state)" "n < length pats" "length pats \<le> 256" "total_length pats < 256"
  shows "\<exists>m' ws'. ahc_insert_pattern (n, pats ! n) (m, current_state) = Some m' \<and> inserted pats (Suc n) ws' m'"
proof -
  obtain p x where p: "pats ! n = (p, x)" by fastforce
  have total: "total_length (take (Suc n) pats) = total_length (take n pats) + length p"
    using assms(2) p by (simp add: total_length_def take_Suc_conv_app_nth)
  have "total_length pats = total_length (take (Suc n) pats) + total_length (drop (Suc n) pats)"
    unfolding total_length_def by (simp del: sum_list_append map_append flip: sum_list_append map_append)
  then have room: "length ws + length p \<le> 256"
    using assms(1,4) total by (simp add: inserted_def)
  have trie: "trie ws (ahc_transitions m)" and count: "current_state = of_nat (length ws)"
    and out: "length (ahc_output m) = 256" "length (ahc_priorities m) = 256"
    and ws: "0 < length ws" "ws ! 0 = []"
    using assms(1) trie_dims [of ws "ahc_transitions m"] by (simp_all add: inserted_def)
  from insert_bytes [OF trie ws(1) room] ws(2) obtain tr' ws' s' where
    ins: "for_each ahc_insert_byte p (ahc_transitions m, of_nat (length ws), 0) = Some (tr', of_nat (length ws'), s')"
      "trie ws' tr'" "s' < length ws'" "ws' ! s' = word_of p" "prefix ws ws'" "length ws' \<le> length ws + length p"
    by auto
  obtain new where new: "ws' = ws @ new" using ins(5) by (auto simp: prefix_def)
  have s': "s' < 256" using trie_dims(3) [OF ins(2)] ins(3) by simp
  have old: "\<And>s. s < 256 \<Longrightarrow> ahc_output m ! s = out_code (if s < length ws then own pats n (ws ! s) else None)"
    "\<And>i. i < n \<Longrightarrow> word_of (fst (pats ! i)) \<in> set ws" "\<And>i. i < n \<Longrightarrow> ahc_priorities m ! i = snd (pats ! i)"
    "length ws \<le> 1 + total_length (take n pats)" "length (ahc_failure m) = 256" "\<forall>s < 256. ahc_failure m ! s = 0"
    using assms(1) by (simp_all add: inserted_def)
  let ?m = "m\<lparr>ahc_transitions := tr', ahc_output := (ahc_output m)[s' := n], ahc_priorities := (ahc_priorities m)[n := x],
    ahc_pattern_count := ahc_pattern_count m + 1\<rparr>"
  have "ahc_insert_pattern (n, pats ! n) (m, current_state) = Some (?m, of_nat (length ws'))"
    using ins(1) s' out assms(2,3) by (simp add: ahc_insert_pattern_def p count arr_set_def)
  moreover have "inserted pats (Suc n) ws' (?m, of_nat (length ws'))"
  proof -
    have fresh: "own pats n (ws' ! s) = None" if "length ws \<le> s" "s < length ws'" for s
    proof (rule ccontr)
      assume "own pats n (ws' ! s) \<noteq> None"
      then obtain i where "own pats n (ws' ! s) = Some i" by blast
      from own_SomeD [OF this] old(2) [of i] have "ws' ! s \<in> set ws" by simp
      then obtain t where t: "t < length ws" "ws' ! t = ws' ! s" by (auto simp: in_set_conv_nth new nth_append)
      then have "t < length ws'" by (simp add: new)
      with t(2) that trie_inj [OF ins(2) this, of s] have "t = s" by simp
      with t(1) that(1) show False by simp
    qed
    have "(ahc_output m)[s' := n] ! s = out_code (if s < length ws' then own pats (Suc n) (ws' ! s) else None)"
      if "s < 256" for s
    proof (cases "s = s'")
      case True
      then show ?thesis using ins(3,4) s' out by (simp add: p)
    next
      case False
      then have "s < length ws' \<Longrightarrow> word_of p \<noteq> ws' ! s"
        using trie_inj [OF ins(2,3), of s] ins(4) by auto
      then show ?thesis
        using False old(1) [OF that] fresh [of s] by (auto simp: p new nth_append)
    qed
    moreover have "word_of (fst (pats ! i)) \<in> set ws' \<and> (ahc_priorities m)[n := x] ! i = snd (pats ! i)" if "i < Suc n" for i
    proof (cases "i = n")
      case True
      then show ?thesis using ins(3,4) out assms(2,3) p nth_mem [of s' ws'] by auto
    qed (use that old(2,3) [of i] in \<open>simp add: new\<close>)
    ultimately show ?thesis
      using ins(2,6) total old(4,5,6) out by (simp add: inserted_def)
  qed
  ultimately show ?thesis by blast
qed

lemma insert_patterns:
  assumes "inserted pats 0 ws s" "length pats \<le> 256" "total_length pats < 256"
  shows "\<exists>s' ws'. for_each ahc_insert_pattern (zip [0..<length pats] pats) s = Some s' \<and> inserted pats (length pats) ws' s'"
proof -
  have "\<exists>s'. for_each (\<lambda>i. ahc_insert_pattern (i, pats ! i)) [0..<length pats] s = Some s' \<and>
      (\<exists>ws'. inserted pats (length pats) ws' s')"
  proof (rule for_each_upt [where P = "\<lambda>n s. \<exists>ws. inserted pats n ws s"])
    show "\<exists>ws. inserted pats 0 ws s" using assms(1) by blast
    fix i s assume "i < length pats" "\<exists>ws. inserted pats i ws s"
    then show "\<exists>s'. ahc_insert_pattern (i, pats ! i) s = Some s' \<and> (\<exists>ws. inserted pats (Suc i) ws s')"
      using insert_pattern [OF _ _ assms(2,3)] by (cases s) blast
  qed
  then show ?thesis by (auto simp: zip_upt for_each_map)
qed

section \<open>Failure links\<close>

definition failure_ok :: "nat list list \<Rightarrow> nat list \<Rightarrow> nat \<Rightarrow> bool" where
  "failure_ok ws F s \<longleftrightarrow> F ! s < length ws \<and> ws ! (F ! s) = longest (set ws) (tl (ws ! s))"

lemma follow_correct:
  assumes trie: "trie ws tr" and "length F = 256" and c: "c < 128"
    and ok: "\<And>t. t < length ws \<Longrightarrow> t \<noteq> 0 \<Longrightarrow> length (ws ! t) \<le> n \<Longrightarrow> failure_ok ws F t"
    and "s < length ws" "length (ws ! s) \<le> n"
  shows "\<exists>t. follow_failure tr F c s = Some t \<and> t < length ws \<and> (child tr t c = 0 \<longrightarrow> t = 0) \<and>
    longest (set ws) (ws ! s @ [c]) = (if child tr t c = 0 then [] else ws ! child tr t c)"
  using assms(5,6)
proof (induction "length (ws ! s)" arbitrary: s rule: less_induct)
  case less
  note dims = trie_dims [OF trie]
  show ?case
  proof (cases "s = 0 \<or> child tr s c \<noteq> 0")
    case True
    have "ws ! s @ [c] \<in> set ws" if "child tr s c \<noteq> 0"
      using trie_child [OF trie less.prems(1) c] that nth_mem [of "child tr s c" ws] by simp
    moreover have "s = 0 \<Longrightarrow> longest (set ws) [c] = (if [c] \<in> set ws then [c] else [])" by simp
    moreover have "follow_failure tr F c s = Some s"
      using True less.prems(1) dims(1,3) c cell_less [of s c]
      by (subst follow_failure.simps) (auto simp: arr_get_def child_def)
    ultimately show ?thesis
      using True trie_child [OF trie less.prems(1) c] less.prems(1) dims(4)
      by (intro exI [of _ s]) (auto simp: longest_id)
  next
    case False
    then have f: "F ! s < length ws" "ws ! (F ! s) = longest (set ws) (tl (ws ! s))"
      using ok [OF less.prems(1) _ less.prems(2)] by (auto simp: failure_ok_def)
    have "ws ! s \<noteq> []" using trie_inj [OF trie less.prems(1) dims(2)] dims(4) False by simp
    then obtain a w where w: "ws ! s = a # w" by (cases "ws ! s") auto
    have shorter: "length (ws ! (F ! s)) < length (ws ! s)" using longest_le [of "set ws" w] f(2) w by simp
    then obtain t where t: "follow_failure tr F c (F ! s) = Some t" "t < length ws" "child tr t c = 0 \<longrightarrow> t = 0"
        "longest (set ws) (ws ! (F ! s) @ [c]) = (if child tr t c = 0 then [] else ws ! child tr t c)"
      using less.hyps [OF shorter f(1)] less.prems(2) by auto
    have "longest (set ws) (ws ! s @ [c]) = longest (set ws) (w @ [c])"
      using trie_child(2) [OF trie less.prems(1) c] False w by simp
    also have "\<dots> = longest (set ws) (ws ! (F ! s) @ [c])"
      using longest_snoc [OF dims(6), of w c] f(2) w by simp
    finally have step: "longest (set ws) (ws ! s @ [c]) = longest (set ws) (ws ! (F ! s) @ [c])" .
    have "follow_failure tr F c s = follow_failure tr F c (F ! s)"
      using False less.prems(1) dims(1,3) c assms(2) cell_less [of s c]
      by (subst follow_failure.simps) (auto simp: arr_get_def child_def unat_eq_0)
    then show ?thesis using t step by (intro exI [of _ t]) simp
  qed
qed

text \<open>
  The search through the trie: which states are in the queue when the children of \<open>queue ! head\<close> below \<open>c\<close>
  have been added, and what the tables say about the states in the queue and outside it.
\<close>

definition parent_of :: "nat list list \<Rightarrow> nat \<Rightarrow> nat \<Rightarrow> bool" where
  "parent_of ws r s \<longleftrightarrow> ws ! r = butlast (ws ! s)"

definition bfs_queue :: "nat list list \<Rightarrow> nat \<Rightarrow> nat \<Rightarrow> nat list \<Rightarrow> bool" where
  "bfs_queue ws head c q \<longleftrightarrow>
     distinct q \<and> (\<forall>s \<in> set q. 0 < s \<and> s < length ws) \<and> sorted (map (\<lambda>s. length (ws ! s)) q) \<and>
     (\<forall>s < length ws. 0 < s \<longrightarrow>
        s \<in> set q \<longleftrightarrow> length (ws ! s) = 1 \<or> (\<exists>r \<in> set (take head q). parent_of ws r s) \<or>
          head < length q \<and> parent_of ws (q ! head) s \<and> last (ws ! s) < c)"

definition bfs_tables :: "nat list list \<Rightarrow> (nat list \<Rightarrow> nat option) \<Rightarrow> nat list \<Rightarrow> nat list \<Rightarrow> nat list \<Rightarrow> bool" where
  "bfs_tables ws ow q F out \<longleftrightarrow>
     length F = 256 \<and> length out = 256 \<and> (\<forall>s \<in> set q. failure_ok ws F s) \<and>
     (\<forall>s < length ws. out ! s = out_code (if s \<in> set q then shortest ow (ws ! s) else ow (ws ! s)))"

text \<open>The states with words no longer than the one at the head are in the queue already.\<close>

lemma bfs_ready:
  assumes trie: "trie ws tr" and q: "bfs_queue ws head c q" and head: "head < length q"
    and "t < length ws" "t \<noteq> 0" "length (ws ! t) \<le> length (ws ! (q ! head))"
  shows "t \<in> set q"
  using assms(4,5,6)
proof (induction "length (ws ! t)" arbitrary: t rule: less_induct)
  case less
  note dims = trie_dims [OF trie]
  have t: "ws ! t \<noteq> []" using trie_inj [OF trie less.prems(1) dims(2)] dims(4) less.prems(2) by simp
  show ?case
  proof (cases "length (ws ! t) = 1")
    case True
    then show ?thesis using q less.prems(1,2) by (simp add: bfs_queue_def)
  next
    case False
    have "butlast (ws ! t) @ [last (ws ! t)] \<in> set ws" using t nth_mem [OF less.prems(1)] by simp
    then have "butlast (ws ! t) \<in> set ws" using dims(6) unfolding prefix_closed_def by blast
    then obtain r where r: "r < length ws" "ws ! r = butlast (ws ! t)" by (auto simp: in_set_conv_nth)
    have "butlast (ws ! t) \<noteq> []" using False t by (cases "ws ! t") auto
    with r dims(4) have "r \<noteq> 0" by (cases "r = 0") simp_all
    moreover have shorter: "length (ws ! r) < length (ws ! t)" using r(2) t by simp
    ultimately have "r \<in> set q" using less.hyps [OF shorter r(1)] less.prems(3) by simp
    then obtain k where k: "k < length q" "q ! k = r" by (auto simp: in_set_conv_nth)
    have "k < head"
    proof (rule ccontr)
      assume "\<not> k < head"
      then have "length (ws ! (q ! head)) \<le> length (ws ! (q ! k))"
        using q k(1) sorted_nth_mono [of "map (\<lambda>s. length (ws ! s)) q" head k] by (simp add: bfs_queue_def)
      with k(2) shorter less.prems(3) show False by simp
    qed
    then have "r \<in> set (take head q)" using k by (auto simp: in_set_conv_nth)
    then show ?thesis using q less.prems(1,2) r(2) unfolding bfs_queue_def parent_of_def by blast
  qed
qed

lemma bfs_queue_head:
  "bfs_queue ws head c q \<Longrightarrow> head < length q \<Longrightarrow> q ! head < length ws \<and> 0 < q ! head"
  using nth_mem [of head q] unfolding bfs_queue_def by blast

lemma bfs_queue_skip:
  assumes trie: "trie ws tr" and q: "bfs_queue ws head c q" and head: "head < length q" and c: "c < 128"
    and "child tr (q ! head) c = 0"
  shows "bfs_queue ws head (Suc c) q"
proof -
  have r: "q ! head < length ws" using bfs_queue_head [OF q head] by simp
  have "\<not> (parent_of ws (q ! head) s \<and> last (ws ! s) = c)" if "s < length ws" "0 < s" for s
  proof
    assume a: "parent_of ws (q ! head) s \<and> last (ws ! s) = c"
    have "ws ! s \<noteq> []" using trie_inj [OF trie that(1) trie_dims(2) [OF trie]] trie_dims(4) [OF trie] that(2) by simp
    with a have "ws ! s = ws ! (q ! head) @ [c]" unfolding parent_of_def by (metis append_butlast_last_id)
    then show False using trie_child(2) [OF trie r c assms(5)] nth_mem [OF that(1)] by simp
  qed
  with q show ?thesis unfolding bfs_queue_def less_Suc_eq by blast
qed

lemma bfs_queue_push:
  assumes trie: "trie ws tr" and q: "bfs_queue ws head c q" and head: "head < length q" and c: "c < 128"
    and s: "s = child tr (q ! head) c" "s \<noteq> 0"
  shows "s \<notin> set q" and "bfs_queue ws head (Suc c) (q @ [s])"
proof -
  let ?r = "q ! head"
  have r: "?r < length ws" "0 < ?r" using bfs_queue_head [OF q head] by simp_all
  have word: "s < length ws" "ws ! s = ws ! ?r @ [c]" using trie_child [OF trie r(1) c] s by simp_all
  have r_word: "ws ! ?r \<noteq> []"
    using trie_inj [OF trie r(1) trie_dims(2) [OF trie]] trie_dims(4) [OF trie] r(2) by simp
  have parent: "parent_of ws t s \<longleftrightarrow> t = ?r" if "t < length ws" for t
    using trie_inj [OF trie that r(1)] by (simp add: parent_of_def word)
  have not_before: "?r \<notin> set (take head q)"
    using q head by (auto simp: bfs_queue_def in_set_conv_nth nth_eq_iff_index_eq)
  have in_range: "t < length ws" if "t \<in> set (take head q)" for t
    using q that by (auto simp: bfs_queue_def dest: in_set_takeD)
  have closure: "t \<in> set q \<longleftrightarrow> length (ws ! t) = 1 \<or> (\<exists>r \<in> set (take head q). parent_of ws r t) \<or>
      parent_of ws ?r t \<and> last (ws ! t) < c" if "t < length ws" "0 < t" for t
    using q head that unfolding bfs_queue_def by blast
  have "\<not> (\<exists>r \<in> set (take head q). parent_of ws r s)" using parent in_range not_before by blast
  then show new: "s \<notin> set q" using closure [OF word(1)] s(2) r_word by (simp add: word(2))
  have "length (ws ! x) \<le> length (ws ! s)" if "x \<in> set q" for x
  proof -
    have before: "length (ws ! t) \<le> length (ws ! ?r)" if "t \<in> set (take head q)" for t
    proof -
      from that obtain k where "k < head" "q ! k = t" by (auto simp: in_set_conv_nth)
      then show ?thesis
        using q head sorted_nth_mono [of "map (\<lambda>s. length (ws ! s)) q" k head] by (simp add: bfs_queue_def)
    qed
    from that q have "x < length ws" "0 < x" by (auto simp: bfs_queue_def)
    from closure [OF this] that
    have "length (ws ! x) = 1 \<or> (\<exists>t \<in> set (take head q). parent_of ws t x) \<or> parent_of ws ?r x" by blast
    then show ?thesis
    proof (elim disjE bexE)
      fix t assume "t \<in> set (take head q)" "parent_of ws t x"
      then show ?thesis using before [of t] by (simp add: parent_of_def word)
    qed (simp_all add: parent_of_def word)
  qed
  then have sorted: "sorted (map (\<lambda>s. length (ws ! s)) (q @ [s]))" using q by (auto simp: sorted_append bfs_queue_def)
  have last: "t = s \<longleftrightarrow> parent_of ws ?r t \<and> last (ws ! t) = c" if "t < length ws" "0 < t" for t
  proof
    assume "parent_of ws ?r t \<and> last (ws ! t) = c"
    moreover have "ws ! t \<noteq> []"
      using trie_inj [OF trie that(1) trie_dims(2) [OF trie]] trie_dims(4) [OF trie] that(2) by simp
    ultimately have "ws ! t = ws ! s" unfolding parent_of_def word by (metis append_butlast_last_id)
    then show "t = s" using trie_inj [OF trie that(1) word(1)] by simp
  qed (simp add: parent_of_def word)
  have "t \<in> set (q @ [s]) \<longleftrightarrow> length (ws ! t) = 1 \<or> (\<exists>r \<in> set (take head (q @ [s])). parent_of ws r t) \<or>
      head < length (q @ [s]) \<and> parent_of ws ((q @ [s]) ! head) t \<and> last (ws ! t) < Suc c" if "t < length ws" "0 < t" for t
    using closure [OF that] last [OF that] head by (auto simp: nth_append less_Suc_eq)
  moreover have "distinct (q @ [s])" "\<forall>x \<in> set (q @ [s]). 0 < x \<and> x < length ws"
    using q new s(2) word(1) by (auto simp: bfs_queue_def)
  ultimately show "bfs_queue ws head (Suc c) (q @ [s])"
    using sorted unfolding bfs_queue_def by blast
qed

definition own_ok :: "nat list list \<Rightarrow> (nat list \<Rightarrow> nat option) \<Rightarrow> bool" where
  "own_ok ws ow \<longleftrightarrow>
     ow [] = None \<and> (\<forall>w. ow w \<noteq> None \<longrightarrow> w \<in> set ws) \<and> (\<forall>w i. ow w = Some i \<longrightarrow> i < 256)"

lemma own_okD:
  assumes "own_ok ws ow"
  shows "ow w \<noteq> None \<Longrightarrow> w \<in> set ws" "ow [] = None" "ow w = Some i \<Longrightarrow> i < 256"
  using assms unfolding own_ok_def by blast+

text \<open>The tables after the child \<open>s\<close> of \<open>r\<close> got its failure link \<open>u\<close>.\<close>

lemma bfs_tables_push:
  assumes trie: "trie ws tr" and q: "bfs_tables ws ow q F out" and s: "s < length ws" "s \<notin> set q" "ws ! s \<noteq> []"
    and u: "u < length ws" "ws ! u = longest (set ws) (tl (ws ! s))" "u = 0 \<or> u \<in> set q"
    and ow: "own_ok ws ow"
    and out': "out' = (if out ! u \<noteq> 256 then out[s := out ! u] else out)"
  shows "bfs_tables ws ow (q @ [s]) (F[s := u]) out'"
proof -
  have s256: "s < 256" using s(1) trie_dims(3) [OF trie] by simp
  have len: "length F = 256" "length out = 256" using q by (simp_all add: bfs_tables_def)
  have "out ! u = out_code (shortest ow (ws ! u))"
    using q u(1,3) own_okD(2) [OF ow] trie_dims(4) [OF trie] by (auto simp: bfs_tables_def)
  also have "shortest ow (ws ! u) = shortest ow (tl (ws ! s))"
    unfolding u(2) by (rule shortest_longest [OF own_okD(1) [OF ow]])
  finally have out_u: "out ! u = out_code (shortest ow (tl (ws ! s)))" .
  have "out ! s = out_code (ow (ws ! s))" using q s by (simp add: bfs_tables_def)
  then have out'_s: "out' ! s = out_code (shortest ow (ws ! s))"
  proof (cases "shortest ow (tl (ws ! s))")
    case None
    then show ?thesis using out_u out' \<open>out ! s = _\<close> s(3) by (cases "ws ! s") auto
  next
    case (Some i)
    have "i < 256"
    proof -
      have "shortest ow w = Some i \<Longrightarrow> \<exists>w. ow w = Some i" for w by (induction w) (auto split: option.splits)
      from this [OF Some] own_okD(3) [OF ow] show ?thesis by blast
    qed
    then show ?thesis using Some out_u out' len s256 s(3) by (cases "ws ! s") auto
  qed
  have "failure_ok ws (F[s := u]) t" if "t \<in> set (q @ [s])" for t
    using that q u(1,2) len s256 s(2) by (cases "t = s") (auto simp: bfs_tables_def failure_ok_def)
  moreover have "out' ! t = out_code (if t \<in> set (q @ [s]) then shortest ow (ws ! t) else ow (ws ! t))"
    if "t < length ws" for t
    using that q out'_s out' by (cases "t = s") (auto simp: bfs_tables_def)
  moreover have "length out' = 256" using out' len by simp
  ultimately show ?thesis using len by (simp add: bfs_tables_def)
qed

definition bfs_state ::
    "nat list list \<Rightarrow> (nat list \<Rightarrow> nat option) \<Rightarrow> AhoCorasickMatcher \<Rightarrow> nat \<Rightarrow> nat \<Rightarrow> nat list \<times> AhoCorasickMatcher \<Rightarrow> bool"
  where
  "bfs_state ws ow m0 head c = (\<lambda>(q, m).
     (\<exists>F out. m = m0\<lparr>ahc_failure := F, ahc_output := out\<rparr> \<and> bfs_tables ws ow q F out) \<and> bfs_queue ws head c q)"

lemma bfs_child_step:
  assumes trie: "trie ws (ahc_transitions m0)"
    and ow: "own_ok ws ow"
    and state: "bfs_state ws ow m0 head c (q, m)" and head: "head < length q" and c: "c < 128"
  shows "\<exists>q' m'. bfs_child (q ! head) c (q, m) = Some (q @ q', m') \<and> bfs_state ws ow m0 head (Suc c) (q @ q', m')"
proof -
  let ?tr = "ahc_transitions m0" and ?r = "q ! head"
  obtain F out where m: "m = m0\<lparr>ahc_failure := F, ahc_output := out\<rparr>" and tables: "bfs_tables ws ow q F out"
    and queue: "bfs_queue ws head c q" using state by (auto simp: bfs_state_def)
  have len: "length F = 256" "length out = 256" using tables by (simp_all add: bfs_tables_def)
  have r: "?r < length ws" "0 < ?r" "?r < 256" 
    using bfs_queue_head [OF queue head] trie_dims(3) [OF trie] by simp_all
  have get: "arr_get ?tr (t * ALPHABET_SIZE + c) = Some (?tr ! (t * 128 + c))" if "t < length ws" for t
    using that trie_dims(1,3) [OF trie] cell_less [of t c] c by (simp add: arr_get_def)
  show ?thesis
  proof (cases "child ?tr ?r c = 0")
    case True
    then have "bfs_child ?r c (q, m) = Some (q, m)"
      using get [OF r(1)] by (simp add: bfs_child_def m child_def Let_def)
    moreover have "bfs_state ws ow m0 head (Suc c) (q, m)"
      using bfs_queue_skip [OF trie queue head c True] tables m by (auto simp: bfs_state_def)
    ultimately show ?thesis by (metis append_Nil2)
  next
    case False
    define s where "s = child ?tr ?r c"
    have word: "s < length ws" "ws ! s = ws ! ?r @ [c]" using trie_child [OF trie r(1) c] False by (simp_all add: s_def)
    have ready: "t \<in> set q" if "t < length ws" "t \<noteq> 0" "length (ws ! t) \<le> length (ws ! ?r)" for t
      by (rule bfs_ready [OF trie queue head that])
    have f: "F ! ?r < length ws" "ws ! (F ! ?r) = longest (set ws) (tl (ws ! ?r))"
      using tables head by (auto simp: bfs_tables_def failure_ok_def)
    have r_word: "ws ! ?r \<noteq> []"
      using trie_inj [OF trie r(1) trie_dims(2) [OF trie]] trie_dims(4) [OF trie] r(2) by simp
    have "length (ws ! (F ! ?r)) \<le> length (ws ! ?r)" using longest_le [of "set ws" "tl (ws ! ?r)"] f(2) by simp
    from follow_correct [OF trie len(1) c _ f(1) this] ready tables obtain t where
      t: "follow_failure ?tr F c (F ! ?r) = Some t" "t < length ws"
        "longest (set ws) (ws ! (F ! ?r) @ [c]) = (if child ?tr t c = 0 then [] else ws ! child ?tr t c)"
      by (auto simp: bfs_tables_def)
    define u where "u = child ?tr t c"
    have tail: "longest (set ws) (tl (ws ! s)) = longest (set ws) (ws ! (F ! ?r) @ [c])"
      using longest_snoc [OF trie_dims(6) [OF trie], of "tl (ws ! ?r)" c] f(2) r_word by (simp add: word)
    have u: "u < length ws" "ws ! u = longest (set ws) (tl (ws ! s))"
      using t trie_child(1) [OF trie t(2) c] trie_dims(4) [OF trie] by (auto simp: u_def tail)
    have shorter: "length (ws ! u) \<le> length (ws ! ?r)"
      using longest_le [of "set ws" "tl (ws ! s)"] u(2) by (simp add: word)
    then have "u \<noteq> s" by (auto simp: word)
    define F' where "F' = F[s := u]"
    define out' where "out' = (if out ! u \<noteq> 256 then out[s := out ! u] else out)"
    have s256: "s < 256" "u < 256" using word(1) u(1) trie_dims(3) [OF trie] by simp_all
    have "bfs_child ?r c (q, m) = Some (q @ [s], m0\<lparr>ahc_failure := F', ahc_output := out'\<rparr>)"
      using get [OF r(1)] get [OF t(2)] t(1) False len s256 r(3) \<open>u \<noteq> s\<close>
      by (simp add: bfs_child_def m s_def [symmetric] child_def [symmetric] u_def [symmetric] Let_def
          arr_get_def [of F] arr_get_def [of out] arr_set_def F'_def out'_def unat_eq_0 [symmetric] del: unat_eq_0)
    moreover have "bfs_tables ws ow (q @ [s]) F' out'" unfolding F'_def
      by (rule bfs_tables_push [OF trie tables word(1) _ _ u _ ow out'_def])
        (use bfs_queue_push(1) [OF trie queue head c s_def] False ready [OF u(1) _ shorter] word(2) u(2)
          in \<open>auto simp: s_def u(1)\<close>)
    moreover have "bfs_queue ws head (Suc c) (q @ [s])"
      by (rule bfs_queue_push(2) [OF trie queue head c s_def]) (use False s_def in simp)
    ultimately show ?thesis
      by (intro exI [of _ "[s]"] exI [of _ "m0\<lparr>ahc_failure := F', ahc_output := out'\<rparr>"]) (auto simp: bfs_state_def)
  qed
qed

lemma bfs_head:
  assumes trie: "trie ws (ahc_transitions m0)"
    and ow: "own_ok ws ow"
    and state: "bfs_state ws ow m0 head 0 (q, m)" and head: "head < length q"
  shows "\<exists>q' m'. for_each (bfs_child (q ! head)) [0..<128] (q, m) = Some (q @ q', m') \<and>
    bfs_state ws ow m0 head 128 (q @ q', m')"
proof -
  have "\<exists>s'. for_each (bfs_child (q ! head)) [0..<128] (q, m) = Some s' \<and>
      (\<exists>q'. fst s' = q @ q' \<and> bfs_state ws ow m0 head 128 s')"
  proof (rule for_each_upt [where P = "\<lambda>c s. \<exists>q'. fst s = q @ q' \<and> bfs_state ws ow m0 head c s"])
    show "\<exists>q'. fst (q, m) = q @ q' \<and> bfs_state ws ow m0 head 0 (q, m)" using state by simp
    fix c s
    assume c: "c < 128" and "\<exists>q'. fst s = q @ q' \<and> bfs_state ws ow m0 head c s"
    then obtain q' m' where s: "s = (q @ q', m')" "bfs_state ws ow m0 head c (q @ q', m')" by (cases s) auto
    have "head < length (q @ q')" "(q @ q') ! head = q ! head" using head by (simp_all add: nth_append)
    with bfs_child_step [OF trie ow s(2) this(1) c] obtain q'' m'' where
      "bfs_child (q ! head) c (q @ q', m') = Some (q @ (q' @ q''), m'')"
      "bfs_state ws ow m0 head (Suc c) (q @ (q' @ q''), m'')" by auto
    then show "\<exists>s'. bfs_child (q ! head) c s = Some s' \<and> (\<exists>q'. fst s' = q @ q' \<and> bfs_state ws ow m0 head (Suc c) s')"
      unfolding s(1) by (intro exI [of _ "(q @ (q' @ q''), m'')"]) auto
  qed
  then show ?thesis by fastforce
qed

lemma bfs_next:
  assumes trie: "trie ws tr" and q: "bfs_queue ws head 128 q" and head: "head < length q"
  shows "bfs_queue ws (Suc head) 0 q"
proof -
  have "last (ws ! s) < 128" if "s < length ws" "0 < s" for s
  proof -
    have "ws ! s \<noteq> []" using trie_inj [OF trie that(1) trie_dims(2) [OF trie]] trie_dims(4) [OF trie] that(2) by simp
    then show ?thesis using trie_letters [OF trie that(1)] last_in_set by blast
  qed
  moreover have "set (take (Suc head) q) = insert (q ! head) (set (take head q))"
    using head by (simp add: take_Suc_conv_app_nth)
  ultimately show ?thesis using q head unfolding bfs_queue_def by (simp only:) blast
qed

lemma bfs_all:
  assumes trie: "trie ws tr" and q: "bfs_queue ws (length q) 0 q" and "t < length ws" "0 < t"
  shows "t \<in> set q"
  using assms(3,4)
proof (induction "length (ws ! t)" arbitrary: t rule: less_induct)
  case less
  have closure: "t \<in> set q \<longleftrightarrow> length (ws ! t) = 1 \<or> (\<exists>r \<in> set q. parent_of ws r t)"
    using q less.prems unfolding bfs_queue_def by simp
  have t: "ws ! t \<noteq> []"
    using trie_inj [OF trie less.prems(1) trie_dims(2) [OF trie]] trie_dims(4) [OF trie] less.prems(2) by simp
  show ?case
  proof (cases "length (ws ! t) = 1")
    case False
    have "butlast (ws ! t) @ [last (ws ! t)] \<in> set ws" using t nth_mem [OF less.prems(1)] by simp
    then have "butlast (ws ! t) \<in> set ws" using trie_dims(6) [OF trie] unfolding prefix_closed_def by blast
    then obtain r where r: "r < length ws" "ws ! r = butlast (ws ! t)" by (auto simp: in_set_conv_nth)
    have "butlast (ws ! t) \<noteq> []" using False t by (cases "ws ! t") auto
    with r trie_dims(4) [OF trie] have "0 < r" by (cases "r = 0") simp_all
    moreover have "length (ws ! r) < length (ws ! t)" using r(2) t by simp
    ultimately have "r \<in> set q" using less.hyps r(1) by blast
    with r(2) show ?thesis using closure unfolding parent_of_def by blast
  qed (simp add: closure)
qed

lemma bfs_queue_bound: "bfs_queue ws head c q \<Longrightarrow> length q \<le> length ws"
proof -
  assume q: "bfs_queue ws head c q"
  then have "set q \<subseteq> {..<length ws}" "distinct q" by (auto simp: bfs_queue_def)
  then have "card (set q) \<le> length ws" using card_mono [of "{..<length ws}" "set q"] by simp
  with \<open>distinct q\<close> show ?thesis by (simp add: distinct_card)
qed

lemma bfs_loop_ok:
  assumes trie: "trie ws (ahc_transitions m0)"
    and ow: "own_ok ws ow"
    and "bfs_state ws ow m0 head 0 (q, m)" "head \<le> length q"
  shows "\<exists>m' q'. bfs_loop head q m = Some m' \<and> bfs_state ws ow m0 (length q') 0 (q', m')"
  using assms(3,4)
proof (induction "length ws - head" arbitrary: head q m rule: less_induct)
  case less
  show ?case
  proof (cases "head < length q")
    case False
    then have "bfs_loop head q m = Some m" by (subst bfs_loop.simps) simp
    moreover have "head = length q" using False less.prems(2) by simp
    ultimately show ?thesis using less.prems(1) by blast
  next
    case True
    from bfs_head [OF trie ow less.prems(1) True] obtain q' m' where
      step: "for_each (bfs_child (q ! head)) [0..<128] (q, m) = Some (q @ q', m')"
        "bfs_state ws ow m0 head 128 (q @ q', m')" by blast
    have longer: "head < length (q @ q')" using True by simp
    have next_state: "bfs_state ws ow m0 (Suc head) 0 (q @ q', m')"
      using step(2) bfs_next [OF trie _ longer] by (auto simp: bfs_state_def)
    have "length q \<le> length ws" using less.prems(1) bfs_queue_bound [of ws head 0 q] by (simp add: bfs_state_def)
    with True have "length ws - Suc head < length ws - head" by simp
    from less.hyps [OF this next_state] True obtain m'' q'' where
      rest: "bfs_loop (Suc head) (q @ q') m' = Some m''" "bfs_state ws ow m0 (length q'') 0 (q'', m'')" by auto
    have "bfs_loop head q m = bfs_loop (Suc head) (q @ q') m'"
      using True step(1) by (subst bfs_loop.simps) (simp only: ALPHABET_SIZE_def bind.bind_lunit if_True fst_conv snd_conv Suc_eq_plus1)
    with rest show ?thesis by auto
  qed
qed

lemma sorted_same_length: "\<forall>s \<in> set q. 0 < s \<and> s < n \<and> f s = (1 :: nat) \<Longrightarrow> sorted (map f q)"
  by (induction q) auto

lemma root_queue_ok:
  assumes trie: "trie ws tr" and n: "n \<le> 128" "128 \<le> n"
    and q: "q = map (child tr 0) (filter (\<lambda>c. child tr 0 c \<noteq> 0) [0..<n])"
  shows "bfs_queue ws 0 0 q" and "\<And>s. s \<in> set q \<Longrightarrow> s < length ws \<and> length (ws ! s) = 1"
proof -
  have word: "child tr 0 c < length ws \<and> ws ! child tr 0 c = [c]" if "c < n" "child tr 0 c \<noteq> 0" for c
    using trie_child(1,3) [OF trie trie_dims(2) [OF trie], of c] that n(1) trie_dims(4) [OF trie] by simp
  have "c = d" if "c < n" "child tr 0 c \<noteq> 0" "d < n" "child tr 0 c = child tr 0 d" for c d
  proof -
    have "[c] = ws ! child tr 0 c" "ws ! child tr 0 d = [d]" using word that by metis+
    then show ?thesis unfolding that(4) by simp
  qed
  then have "inj_on (child tr 0) (set (filter (\<lambda>c. child tr 0 c \<noteq> 0) [0..<n]))"
    by (auto intro!: inj_onI simp del: upt_rec_numeral)
  then have "distinct q" by (simp add: q distinct_map del: upt_rec_numeral)
  have mem: "s \<in> set q \<longleftrightarrow> (\<exists>c < n. child tr 0 c \<noteq> 0 \<and> s = child tr 0 c)" for s by (auto simp: q)
  show in_ws: "s < length ws \<and> length (ws ! s) = 1" if "s \<in> set q" for s
  proof -
    from that obtain c where "c < n" "child tr 0 c \<noteq> 0" "s = child tr 0 c" unfolding mem by blast
    with word [of c] show ?thesis by simp
  qed
  have positive: "0 < s" if "s \<in> set q" for s using that unfolding mem by auto
  have in_q: "s \<in> set q" if "s < length ws" "length (ws ! s) = 1" for s
  proof -
    from that(2) obtain c where c: "ws ! s = [c]" by (auto simp: length_Suc_conv)
    then have c128: "c < 128" using trie_letters [OF trie that(1)] by simp
    have "[c] \<in> set ws" using c nth_mem [OF that(1)] by simp
    then have "child tr 0 c \<noteq> 0"
      using trie_child(2) [OF trie trie_dims(2) [OF trie] c128] trie_dims(4) [OF trie] by auto
    moreover from this word [of c] c128 n(2) have "child tr 0 c < length ws" "ws ! child tr 0 c = ws ! s"
      by (simp_all add: c)
    then have "s = child tr 0 c" using trie_inj [OF trie _ that(1)] by simp
    ultimately show ?thesis unfolding mem using c128 n(2) by (intro exI [of _ c]) simp
  qed
  have "sorted (map (\<lambda>s. length (ws ! s)) q)"
    using sorted_same_length [of q "length ws" "\<lambda>s. length (ws ! s)"] in_ws positive by blast
  moreover have "s \<in> set q \<longleftrightarrow> length (ws ! s) = 1" if "s < length ws" for s
    using in_ws in_q that by blast
  ultimately show "bfs_queue ws 0 0 q" using \<open>distinct q\<close> in_ws positive by (simp add: bfs_queue_def)
qed

end
