(* ===== verification/Keyword_Search.thy ===== *)
theory Keyword_Search
  imports Keyword_Automaton
begin

text \<open>
  What building a matcher gives, and what its scans report: at each position of a text the shortest
  keyword that ends there.
\<close>

section \<open>A built matcher\<close>

definition keywords_fit :: "(u8 list \<times> u8) list \<Rightarrow> bool" where
  "keywords_fit pats \<longleftrightarrow>
     length pats \<le> 256 \<and> total_length pats < 256 \<and> (\<forall>p \<in> set pats. word_of (fst p) \<noteq> [])"

definition automaton :: "(u8 list \<times> u8) list \<Rightarrow> nat list list \<Rightarrow> AhoCorasickMatcher \<Rightarrow> bool" where
  "automaton pats ws m \<longleftrightarrow>
     ahc_initialized m \<and> trie ws (ahc_transitions m) \<and> own_ok ws (own pats (length pats)) \<and>
     length (ahc_failure m) = 256 \<and> length (ahc_output m) = 256 \<and> length (ahc_priorities m) = 256 \<and>
     (\<forall>s < length ws. s \<noteq> 0 \<longrightarrow> failure_ok ws (ahc_failure m) s) \<and>
     (\<forall>s < length ws. ahc_output m ! s = out_code (shortest (own pats (length pats)) (ws ! s))) \<and>
     (\<forall>i < length pats. ahc_priorities m ! i = snd (pats ! i))"

lemma own_ok_inserted:
  assumes "inserted pats (length pats) ws s" "keywords_fit pats"
  shows "own_ok ws (own pats (length pats))"
proof -
  have words: "word_of (fst (pats ! i)) \<in> set ws" "word_of (fst (pats ! i)) \<noteq> []" if "i < length pats" for i
    using assms that by (auto simp: inserted_def keywords_fit_def split: prod.splits)
  have "own pats (length pats) [] = None" using words(2) by (auto simp: own_None)
  moreover have "w \<in> set ws \<and> i < 256" if "own pats (length pats) w = Some i" for w i
    using own_SomeD [OF that] words(1) [of i] assms(2) by (auto simp: keywords_fit_def)
  ultimately show ?thesis unfolding own_ok_def by blast
qed

lemma new_tables:
  "length (ahc_transitions ahc_new) = 32768" "length (ahc_failure ahc_new) = 256" "length (ahc_output ahc_new) = 256"
  "length (ahc_priorities ahc_new) = 256"
  "s < 256 \<Longrightarrow> ahc_failure ahc_new ! s = 0" "s < 256 \<Longrightarrow> ahc_output ahc_new ! s = 256"
proof -
  have n: "MAX_PATTERNS = 256" "MAX_PATTERNS * ALPHABET_SIZE = 32768" by simp_all
  show "length (ahc_transitions ahc_new) = 32768" "length (ahc_failure ahc_new) = 256" "length (ahc_output ahc_new) = 256"
    "length (ahc_priorities ahc_new) = 256"
    unfolding ahc_new_def AhoCorasickMatcher.simps length_replicate by (rule n)+
  show "s < 256 \<Longrightarrow> ahc_failure ahc_new ! s = 0" "s < 256 \<Longrightarrow> ahc_output ahc_new ! s = 256"
    unfolding ahc_new_def AhoCorasickMatcher.simps using n by (metis nth_replicate)+
qed

lemma root_failure_unchanged:
  assumes trie: "trie ws (ahc_transitions m)" and F: "length (ahc_failure m) = 256" "\<forall>s < 256. ahc_failure m ! s = 0"
  shows "for_each root_failure [0..<128] m = Some m"
proof -
  have "\<exists>s'. for_each root_failure [0..<128] m = Some s' \<and> s' = m"
  proof (rule for_each_upt [where P = "\<lambda>_ s. s = m"])
    fix c :: nat and s assume c: "c < 128" and s: "s = m"
    let ?u = "child (ahc_transitions m) 0 c"
    have u: "?u < 256"
      using trie_child(1) [OF trie trie_dims(2) [OF trie] c] trie_dims(3) [OF trie] by simp
    have "(ahc_failure m)[?u := 0] = ahc_failure m" using F u by (metis list_update_id)
    then show "\<exists>s'. root_failure c s = Some s' \<and> s' = m"
      using c u F(1) trie_dims(1) [OF trie]
      by (auto simp: s root_failure_def arr_get_def arr_set_def child_def)
  qed simp
  then show ?thesis by simp
qed

lemma failure_links_ok:
  assumes ins: "inserted pats (length pats) ws (m, current_state)" and fit: "keywords_fit pats"
  shows "\<exists>m'. build_failure_links (m\<lparr>ahc_state_count := x\<rparr>) = Some m' \<and> automaton pats ws (m'\<lparr>ahc_initialized := True\<rparr>)"
proof -
  let ?ow = "own pats (length pats)" and ?m = "m\<lparr>ahc_state_count := x\<rparr>"
  have trie: "trie ws (ahc_transitions m)" and F: "length (ahc_failure m) = 256" "\<forall>s < 256. ahc_failure m ! s = 0"
    and out: "length (ahc_output m) = 256"
      "\<And>s. s < 256 \<Longrightarrow> ahc_output m ! s = out_code (if s < length ws then ?ow (ws ! s) else None)"
    and prio: "length (ahc_priorities m) = 256" "\<And>i. i < length pats \<Longrightarrow> ahc_priorities m ! i = snd (pats ! i)"
    using ins by (simp_all add: inserted_def)
  have ow: "own_ok ws ?ow" by (rule own_ok_inserted [OF ins fit])
  define q where "q = root_queue (ahc_transitions m)"
  have q: "q = map (child (ahc_transitions m) 0) (filter (\<lambda>c. child (ahc_transitions m) 0 c \<noteq> 0) [0..<ALPHABET_SIZE])"
    by (simp add: q_def root_queue_def child_def unat_eq_0 del: ALPHABET_SIZE_def)
  have n: "ALPHABET_SIZE \<le> 128" "128 \<le> ALPHABET_SIZE" by simp_all
  note queue = root_queue_ok [OF trie n q]
  have "bfs_tables ws ?ow q (ahc_failure m) (ahc_output m)"
  proof -
    have "failure_ok ws (ahc_failure m) s \<and> shortest ?ow (ws ! s) = ?ow (ws ! s)" if s: "s \<in> set q" for s
    proof -
      from queue(2) [OF s] obtain c where "ws ! s = [c]" by (auto simp: length_Suc_conv)
      moreover have "ahc_failure m ! s = 0" using queue(2) [OF s] trie_dims(3) [OF trie] F(2) by simp
      ultimately show ?thesis using trie_dims(2,4) [OF trie] by (simp add: failure_ok_def)
    qed
    then show ?thesis using F(1) out trie_dims(3) [OF trie] by (simp add: bfs_tables_def)
  qed
  then have state: "bfs_state ws ?ow ?m 0 0 (q, ?m)"
  proof -
    have "?m = ?m\<lparr>ahc_failure := ahc_failure m, ahc_output := ahc_output m\<rparr>" by simp
    with \<open>bfs_tables _ _ _ _ _\<close> queue(1) show ?thesis unfolding bfs_state_def by blast
  qed
  have trie': "trie ws (ahc_transitions ?m)" using trie by simp
  from bfs_loop_ok [OF trie' ow state] obtain m' q' where
    loop: "bfs_loop 0 q ?m = Some m'" and end_state: "bfs_state ws ?ow ?m (length q') 0 (q', m')" by auto
  have roots: "for_each root_failure [0..<128] ?m = Some ?m" by (rule root_failure_unchanged [OF trie']) (use F in simp_all)
  have links: "build_failure_links ?m = Some m'"
    unfolding build_failure_links_def ALPHABET_SIZE_def roots bind.bind_lunit using loop by (simp add: q_def)
  obtain F' out' where m': "m' = ?m\<lparr>ahc_failure := F', ahc_output := out'\<rparr>" and tables: "bfs_tables ws ?ow q' F' out'"
    and queue': "bfs_queue ws (length q') 0 q'" using end_state by (auto simp: bfs_state_def)
  have all: "s \<in> set q'" if "s < length ws" "0 < s" for s by (rule bfs_all [OF trie queue' that])
  have "out' ! s = out_code (shortest ?ow (ws ! s))" if "s < length ws" for s
    using tables that all [OF that] own_okD(2) [OF ow] trie_dims(4) [OF trie] by (cases "s = 0") (auto simp: bfs_tables_def)
  then have "automaton pats ws (m'\<lparr>ahc_initialized := True\<rparr>)"
    using tables all trie ow prio by (simp add: automaton_def m' bfs_tables_def)
  with links show ?thesis by blast
qed

lemma build_ok:
  assumes "keywords_fit pats"
  shows "\<exists>m ws. ahc_build pats ahc_new = Some (True, m) \<and> automaton pats ws m"
proof -
  let ?m = "ahc_new\<lparr>ahc_state_count := 1, ahc_pattern_count := 0\<rparr>"
  have "(0 :: nat) < 256" by simp
  from clear_row_child [OF new_tables(1) this] obtain tr where
    tr: "clear_row 0 (ahc_transitions ahc_new) = Some tr" "cleared 0 (ahc_transitions ahc_new) 128 tr" by blast
  have "trie [[]] tr"
    using tr(2) by (auto simp: trie_def cleared_def prefix_closed_def)
  then have start: "inserted pats 0 [[]] (?m\<lparr>ahc_transitions := tr\<rparr>, 1)"
    using new_tables by (auto simp: inserted_def total_length_def)
  from insert_patterns [OF start] assms obtain m cs ws where
    ins: "for_each ahc_insert_pattern (zip [0..<length pats] pats) (?m\<lparr>ahc_transitions := tr\<rparr>, 1) = Some (m, cs)"
      "inserted pats (length pats) ws (m, cs)"
    by (auto simp: keywords_fit_def)
  from failure_links_ok [OF ins(2) assms, of cs] obtain m' where
    m': "build_failure_links (m\<lparr>ahc_state_count := cs\<rparr>) = Some m'" "automaton pats ws (m'\<lparr>ahc_initialized := True\<rparr>)"
    by blast
  have "ahc_build pats ahc_new = Some (True, m'\<lparr>ahc_initialized := True\<rparr>)"
    using assms tr(1) ins(1) m'(1) by (simp add: ahc_build_def keywords_fit_def Let_def)
  with m'(2) show ?thesis by blast
qed

section \<open>Scanning\<close>

text \<open>The state a scan is in after the text \<open>u\<close>.\<close>

definition scan_at :: "nat list list \<Rightarrow> nat list \<Rightarrow> nat \<Rightarrow> bool" where
  "scan_at ws u s \<longleftrightarrow> s < length ws \<and> ws ! s = longest (set ws) u"

lemma scan_at_start: "trie ws tr \<Longrightarrow> scan_at ws [] 0"
  using trie_dims [of ws tr] by (simp add: scan_at_def)

lemma scan_step_ok:
  assumes a: "automaton pats ws m" and u: "scan_at ws u s" and c: "c < 128"
  shows "\<exists>s'. scan_step m c s = Some s' \<and> scan_at ws (u @ [c]) s'"
proof -
  let ?tr = "ahc_transitions m"
  have trie: "trie ws ?tr" using a by (simp add: automaton_def)
  have s: "s < length ws" "ws ! s = longest (set ws) u" using u by (simp_all add: scan_at_def)
  from follow_correct [OF trie _ c _ s(1) order_refl, of "ahc_failure m"] a obtain t where
    t: "follow_failure ?tr (ahc_failure m) c s = Some t" "t < length ws" "child ?tr t c = 0 \<longrightarrow> t = 0"
      "longest (set ws) (ws ! s @ [c]) = (if child ?tr t c = 0 then [] else ws ! child ?tr t c)"
    by (auto simp: automaton_def)
  have "longest (set ws) (u @ [c]) = longest (set ws) (ws ! s @ [c])"
    using longest_snoc [OF trie_dims(6) [OF trie]] s(2) by simp
  then have "scan_at ws (u @ [c]) (if child ?tr t c = 0 then t else child ?tr t c)"
    using t(2,3,4) trie_child(1) [OF trie t(2) c] trie_dims(4) [OF trie]
    by (cases "child ?tr t c = 0") (simp_all add: scan_at_def)
  moreover have "scan_step m c s = Some (if child ?tr t c = 0 then t else child ?tr t c)"
    using t(1,2) c trie_dims(1,3) [OF trie] cell_less [of t c]
    by (simp add: scan_step_def arr_get_def child_def unat_eq_0)
  ultimately show ?thesis by blast
qed

lemma suffix_longest: "suffix (longest W w) w"
  by (induction W w rule: longest.induct) (auto intro: suffix_ConsI)

lemma scan_at_other:
  assumes trie: "trie ws tr" and c: "128 \<le> c"
  shows "scan_at ws (u @ [c]) 0"
proof -
  have "longest (set ws) (u @ [c]) = []"
  proof (rule ccontr)
    assume ne: "longest (set ws) (u @ [c]) \<noteq> []"
    obtain v where v: "u @ [c] = v @ longest (set ws) (u @ [c])" using suffix_longest by (auto simp: suffix_def)
    have "last (longest (set ws) (u @ [c])) = last (u @ [c])" by (subst v) (simp only: last_appendR [OF ne])
    then have "c \<in> set (longest (set ws) (u @ [c]))" using last_in_set [OF ne] by simp
    moreover have "longest (set ws) (u @ [c]) \<in> set ws" by (rule longest_in) (rule trie_dims(7) [OF trie])
    moreover have "\<forall>w \<in> set ws. \<forall>c \<in> set w. c < 128" using trie by (simp add: trie_def)
    ultimately show False using c by fastforce
  qed
  then show ?thesis using trie_dims(2,4) [OF trie] by (simp add: scan_at_def)
qed

lemma scan_output:
  assumes a: "automaton pats ws m" and u: "scan_at ws u s"
  shows "arr_get (ahc_output m) s = Some (out_code (shortest (own pats (length pats)) u))"
proof -
  have "shortest (own pats (length pats)) (longest (set ws) u) = shortest (own pats (length pats)) u"
    using a by (intro shortest_longest own_okD(1)) (auto simp: automaton_def)
  then show ?thesis using a u trie_dims(3) [of ws "ahc_transitions m"] by (simp add: automaton_def arr_get_def scan_at_def)
qed

lemma shortest_other: "automaton pats ws m \<Longrightarrow> 128 \<le> c \<Longrightarrow> shortest (own pats (length pats)) (u @ [c]) = None"
proof -
  assume a: "automaton pats ws m" and c: "128 \<le> c"
  then have trie: "trie ws (ahc_transitions m)" by (simp add: automaton_def)
  have at: "scan_at ws (u @ [c]) 0" by (rule scan_at_other [OF trie c])
  have "shortest (own pats (length pats)) (longest (set ws) (u @ [c])) = shortest (own pats (length pats)) (u @ [c])"
    using a by (intro shortest_longest own_okD(1)) (auto simp: automaton_def)
  then show ?thesis using at trie_dims(4) [OF trie] by (simp add: scan_at_def)
qed

lemma shortest_index:
  assumes "shortest ow w = Some i"
  shows "\<exists>v. suffix v w \<and> ow v = Some i"
  using assms
proof (induction w)
  case (Cons a w)
  show ?case
  proof (cases "shortest ow w")
    case None
    with Cons.prems show ?thesis by (intro exI [of _ "a # w"]) simp
  next
    case (Some j)
    with Cons show ?thesis by (auto intro: suffix_ConsI)
  qed
qed simp

lemma keyword_index:
  assumes "automaton pats ws m" "shortest (own pats (length pats)) w = Some k"
  shows "k < length pats" "k < 256"
proof -
  from shortest_index [OF assms(2)] obtain v where v: "own pats (length pats) v = Some k" by blast
  show "k < length pats" using own_SomeD [OF v] by simp
  show "k < 256" using own_okD(3) [of ws "own pats (length pats)" v k] v assms(1) by (simp add: automaton_def)
qed

section \<open>What is reported\<close>

text \<open>The keyword reported at a position: the shortest one that ends there, of equal ones the last in the list.\<close>

definition keyword_ending :: "(u8 list \<times> u8) list \<Rightarrow> u8 list \<Rightarrow> nat \<Rightarrow> nat option" where
  "keyword_ending pats txt i = shortest (own pats (length pats)) (map unat (take (Suc i) txt))"

definition keyword_match :: "(u8 list \<times> u8) list \<Rightarrow> nat \<Rightarrow> nat \<Rightarrow> KeywordMatch" where
  "keyword_match pats i k = \<lparr>km_pattern_idx = k, km_start = i - 8, km_end = i + 1, km_priority = snd (pats ! k)\<rparr>"

fun keyword_reports :: "(u8 list \<times> u8) list \<Rightarrow> u8 list \<Rightarrow> nat \<Rightarrow> KeywordMatch list" where
  "keyword_reports pats txt 0 = []"
| "keyword_reports pats txt (Suc i) = keyword_reports pats txt i @
     (case keyword_ending pats txt i of None \<Rightarrow> [] | Some k \<Rightarrow> [keyword_match pats i k])"

lemma keyword_ending_index:
  "keyword_ending pats txt i = Some k \<Longrightarrow> k < length pats \<and> suffix (word_of (fst (pats ! k))) (map unat (take (Suc i) txt))"
  unfolding keyword_ending_def using shortest_index own_SomeD by blast

lemma scan_byte_ok:
  assumes a: "automaton pats ws m" and i: "i < length txt"
    and u: "scan_at ws (map unat (take i txt)) s" and R: "R = keyword_reports pats txt i"
    and R'_def: "R' = keyword_reports pats txt (Suc i)" and n_def: "n = length matches"
  shows "\<exists>s'. scan_byte m (i, txt ! i) (s, min (length R) n, take n R @ drop (length R) matches) =
    Some (s', min (length R') n, take n R' @ drop (length R') matches) \<and> scan_at ws (map unat (take (Suc i) txt)) s'"
proof -
  have trie: "trie ws (ahc_transitions m)" using a by (simp add: automaton_def)
  have u': "map unat (take (Suc i) txt) = map unat (take i txt) @ [unat (txt ! i)]"
    using i by (simp add: take_Suc_conv_app_nth)
  show ?thesis
  proof (cases "unat (txt ! i) < 128")
    case False
    then have "keyword_ending pats txt i = None"
      using shortest_other [OF a] by (simp add: keyword_ending_def u')
    then have "R' = R" by (simp add: R'_def R)
    with False scan_at_other [OF trie] show ?thesis by (simp add: scan_byte_def n_def u')
  next
    case True
    from scan_step_ok [OF a u True] obtain s' where
      s': "scan_step m (unat (txt ! i)) s = Some s'" "scan_at ws (map unat (take (Suc i) txt)) s'" by (auto simp: u')
    have out: "arr_get (ahc_output m) s' = Some (out_code (keyword_ending pats txt i))"
      using scan_output [OF a s'(2)] by (simp add: keyword_ending_def)
    show ?thesis
    proof (cases "keyword_ending pats txt i")
      case None
      then have "R' = R" by (simp add: R'_def R)
      with None True s' out show ?thesis by (simp add: scan_byte_def n_def)
    next
      case (Some k)
      then have R': "R' = R @ [keyword_match pats i k]" by (simp add: R'_def R)
      have k: "k < length pats" "k < 256"
        using keyword_index [OF a Some [unfolded keyword_ending_def]] by simp_all
      then have prio: "arr_get (ahc_priorities m) k = Some (snd (pats ! k))"
        using a by (simp add: automaton_def arr_get_def)
      show ?thesis
      proof (cases "length R < n")
        case room: True
        then have "drop (length R) matches = matches ! length R # drop (Suc (length R)) matches"
          by (simp add: n_def Cons_nth_drop_Suc)
        then have "(R @ drop (length R) matches)[length R := keyword_match pats i k] =
            R @ keyword_match pats i k # drop (Suc (length R)) matches" by (simp add: list_update_append)
        with room True s' out Some k prio show ?thesis
          by (simp add: scan_byte_def n_def R' keyword_match_def)
      next
        case False
        with True s' out Some k show ?thesis by (simp add: scan_byte_def n_def R')
      qed
    qed
  qed
qed

lemma scan_reports:
  assumes a: "automaton pats ws m"
  shows "ahc_scan m txt matches =
    (let R = keyword_reports pats txt (length txt)
     in Some (min (length R) (length matches), take (length matches) R @ drop (length R) matches))"
proof -
  let ?R = "keyword_reports pats txt" and ?n = "length matches"
  have trie: "trie ws (ahc_transitions m)" using a by (simp add: automaton_def)
  have "\<exists>r. for_each (\<lambda>i. scan_byte m (i, txt ! i)) [0..<length txt] (0, 0, matches) = Some r \<and>
    (\<exists>s. r = (s, min (length (?R (length txt))) ?n, take ?n (?R (length txt)) @ drop (length (?R (length txt))) matches) \<and>
      scan_at ws (map unat (take (length txt) txt)) s)"
  proof (rule for_each_upt [where P = "\<lambda>i r. \<exists>s. r = (s, min (length (?R i)) ?n,
      take ?n (?R i) @ drop (length (?R i)) matches) \<and> scan_at ws (map unat (take i txt)) s"])
    fix i r assume i: "i < length txt" and "\<exists>s. r = (s, min (length (?R i)) ?n,
      take ?n (?R i) @ drop (length (?R i)) matches) \<and> scan_at ws (map unat (take i txt)) s"
    then obtain s where r: "r = (s, min (length (?R i)) ?n, take ?n (?R i) @ drop (length (?R i)) matches)"
      and s: "scan_at ws (map unat (take i txt)) s" by blast
    from scan_byte_ok [OF a i s refl refl refl, of matches] show "\<exists>r'. scan_byte m (i, txt ! i) r = Some r' \<and>
      (\<exists>s. r' = (s, min (length (?R (Suc i))) ?n, take ?n (?R (Suc i)) @ drop (length (?R (Suc i))) matches) \<and>
        scan_at ws (map unat (take (Suc i) txt)) s)"
      unfolding r by blast
  qed (simp add: scan_at_start [OF trie])
  then obtain s where "for_each (\<lambda>i. scan_byte m (i, txt ! i)) [0..<length txt] (0, 0, matches) =
      Some (s, min (length (?R (length txt))) ?n, take ?n (?R (length txt)) @ drop (length (?R (length txt))) matches)"
    by blast
  moreover have "ahc_initialized m" using a by (simp add: automaton_def)
  ultimately show ?thesis by (simp add: ahc_scan_def zip_upt for_each_map Let_def)
qed

lemma critical_loop_ok:
  assumes a: "automaton pats ws m" and "scan_at ws u s"
  shows "critical_loop m s bytes = Some (\<exists>i < length bytes. \<exists>k.
    shortest (own pats (length pats)) (u @ map unat (take (Suc i) bytes)) = Some k \<and> 3 \<le> snd (pats ! k))"
  using assms(2)
proof (induction bytes arbitrary: u s)
  case (Cons byte bytes)
  have trie: "trie ws (ahc_transitions m)" using a by (simp add: automaton_def)
  let ?hit = "\<lambda>u bytes i. \<exists>k. shortest (own pats (length pats)) (u @ map unat (take (Suc i) bytes)) = Some k \<and> 3 \<le> snd (pats ! k)"
  let ?first = "\<exists>k. shortest (own pats (length pats)) (u @ [unat byte]) = Some k \<and> 3 \<le> snd (pats ! k)"
  have split: "(\<exists>i < length (byte # bytes). ?hit u (byte # bytes) i) \<longleftrightarrow>
      ?first \<or> (\<exists>i < length bytes. ?hit (u @ [unat byte]) bytes i)"
    by (simp only: length_Cons less_Suc_eq_0_disj) auto
  show ?case
  proof (cases "unat byte < 128")
    case False
    then have "128 \<le> unat byte" by simp
    from shortest_other [OF a this, of u] Cons.IH [OF scan_at_other [OF trie this], of u]
    show ?thesis using False unfolding split by simp
  next
    case True
    from scan_step_ok [OF a Cons.prems True] obtain s' where
      s': "scan_step m (unat byte) s = Some s'" "scan_at ws (u @ [unat byte]) s'" by blast
    note out = scan_output [OF a s'(2)] and rest = Cons.IH [OF s'(2)]
    show ?thesis
    proof (cases "shortest (own pats (length pats)) (u @ [unat byte])")
      case None
      then show ?thesis using True s'(1) out rest unfolding split by simp
    next
      case (Some k)
      note k = keyword_index [OF a Some]
      then have "arr_get (ahc_priorities m) k = Some (snd (pats ! k))"
        using a by (simp add: automaton_def arr_get_def)
      then show ?thesis using True s'(1) out rest Some k(2) unfolding split by simp
    qed
  qed
qed simp

text \<open>
  C18: A scan reports what it should. For keywords that fit the tables, none of them empty, building
  succeeds, and scanning any text fills the buffer with exactly the reports of the text, in order and as many
  as it has room for: one at each position where a keyword ends, for the shortest keyword that ends there.
\<close>

theorem keyword_scan_exact:
  assumes "keywords_fit pats"
  shows "\<exists>m. ahc_build pats ahc_new = Some (True, m) \<and>
    (\<forall>txt matches. let R = keyword_reports pats txt (length txt)
       in ahc_scan m txt matches =
            Some (min (length R) (length matches), take (length matches) R @ drop (length R) matches))"
proof -
  from build_ok [OF assms] obtain m ws where "ahc_build pats ahc_new = Some (True, m)" "automaton pats ws m" by blast
  then show ?thesis by (auto simp: scan_reports Let_def)
qed

text \<open>A report names a keyword that ends at its position, and there is one whenever a keyword does.\<close>

lemma shortest_None: "shortest ow w = None \<longleftrightarrow> (\<forall>v. suffix v w \<and> v \<noteq> [] \<longrightarrow> ow v = None)"
proof (induction w)
  case (Cons a w)
  have "suffix v (a # w) \<longleftrightarrow> v = a # w \<or> suffix v w" for v by (simp add: suffix_Cons)
  then show ?case using Cons.IH by (cases "shortest ow w") auto
qed simp

lemma keyword_ending_exists:
  assumes "keywords_fit pats" "k < length pats" "suffix (word_of (fst (pats ! k))) (map unat (take (Suc i) txt))"
  shows "keyword_ending pats txt i \<noteq> None"
proof
  assume "keyword_ending pats txt i = None"
  moreover have "word_of (fst (pats ! k)) \<noteq> []" using assms(1,2) by (simp add: keywords_fit_def)
  ultimately have "own pats (length pats) (word_of (fst (pats ! k))) = None"
    using assms(3) by (auto simp: keyword_ending_def shortest_None)
  then show False using assms(2) unfolding own_None by blast
qed

section \<open>Critical keywords\<close>

lemma bex_nth: "(\<exists>x \<in> set xs. P x) \<longleftrightarrow> (\<exists>k < length xs. P (xs ! k))"
  by (metis in_set_conv_nth)

definition suffix_free :: "(u8 list \<times> u8) list \<Rightarrow> bool" where
  "suffix_free pats \<longleftrightarrow>
     (\<forall>i < length pats. \<forall>j < length pats. i \<noteq> j \<longrightarrow> \<not> suffix (word_of (fst (pats ! i))) (word_of (fst (pats ! j))))"

lemma keyword_ending_suffix_free:
  assumes "keywords_fit pats" "suffix_free pats"
  shows "keyword_ending pats txt i = Some k \<longleftrightarrow>
    k < length pats \<and> suffix (word_of (fst (pats ! k))) (map unat (take (Suc i) txt))"
proof
  assume k: "k < length pats \<and> suffix (word_of (fst (pats ! k))) (map unat (take (Suc i) txt))"
  then obtain j where j: "keyword_ending pats txt i = Some j" using keyword_ending_exists [OF assms(1)] by blast
  from keyword_ending_index [OF j] k have "j < length pats"
    "suffix (word_of (fst (pats ! j))) (word_of (fst (pats ! k))) \<or> suffix (word_of (fst (pats ! k))) (word_of (fst (pats ! j)))"
    using suffix_same_cases by blast+
  with k assms(2) have "j = k" unfolding suffix_free_def by blast
  with j show "keyword_ending pats txt i = Some k" by simp
qed (rule keyword_ending_index)

lemma sublist_at_position:
  assumes "x \<noteq> []"
  shows "sublist x (map unat txt) \<longleftrightarrow> (\<exists>i < length txt. suffix x (map unat (take (Suc i) txt)))"
proof
  assume "sublist x (map unat txt)"
  then obtain u where u: "prefix u (map unat txt)" "suffix x u" by (auto simp: sublist_altdef)
  then have "u \<noteq> []" using assms by auto
  moreover have "u = map unat (take (length u) txt)" using u(1) by (metis prefix_def append_eq_conv_conj take_map)
  moreover have "length u \<le> length txt" using prefix_length_le [OF u(1)] by simp
  ultimately show "\<exists>i < length txt. suffix x (map unat (take (Suc i) txt))"
  proof (intro exI [of _ "length u - 1"] conjI)
    have n: "0 < length u" using \<open>u \<noteq> []\<close> by simp
    then show "length u - 1 < length txt" using \<open>length u \<le> length txt\<close> by linarith
    have "Suc (length u - 1) = length u" using n by simp
    then show "suffix x (map unat (take (Suc (length u - 1)) txt))"
      using u(2) \<open>u = map unat (take (length u) txt)\<close> by metis
  qed
next
  assume "\<exists>i < length txt. suffix x (map unat (take (Suc i) txt))"
  then obtain i where i: "suffix x (map unat (take (Suc i) txt))" by blast
  have "prefix (map unat (take (Suc i) txt)) (map unat txt)" by (simp add: take_is_prefix flip: take_map)
  with i show "sublist x (map unat txt)" unfolding sublist_altdef by blast
qed

text \<open>
  C16: No critical keyword is missed, and none is made up. For keywords that fit the tables and none of which
  is the end of another, the matcher calls a text critical exactly when a keyword of priority three or more
  occurs in it.
\<close>

theorem critical_keyword_exact:
  assumes "keywords_fit pats" and "suffix_free pats"
  shows "\<exists>m. ahc_build pats ahc_new = Some (True, m) \<and>
    (\<forall>txt. ahc_has_critical m txt =
       Some (\<exists>p \<in> set pats. 3 \<le> snd p \<and> sublist (word_of (fst p)) (map unat txt)))"
proof -
  from build_ok [OF assms(1)] obtain m ws where m: "ahc_build pats ahc_new = Some (True, m)" "automaton pats ws m" by blast
  have "ahc_has_critical m s = Some (\<exists>p \<in> set pats. 3 \<le> snd p \<and> sublist (word_of (fst p)) (map unat s))" for s
  proof -
    have trie: "trie ws (ahc_transitions m)" and "ahc_initialized m" using m(2) by (simp_all add: automaton_def)
    then have "ahc_has_critical m s = Some (\<exists>i < length s. \<exists>k. keyword_ending pats s i = Some k \<and> 3 \<le> snd (pats ! k))"
      using critical_loop_ok [OF m(2) scan_at_start [OF trie]] by (simp add: ahc_has_critical_def keyword_ending_def)
    also have "(\<exists>i < length s. \<exists>k. keyword_ending pats s i = Some k \<and> 3 \<le> snd (pats ! k)) \<longleftrightarrow>
        (\<exists>k < length pats. 3 \<le> snd (pats ! k) \<and> (\<exists>i < length s. suffix (word_of (fst (pats ! k))) (map unat (take (Suc i) s))))"
      unfolding keyword_ending_suffix_free [OF assms] by blast
    also have "\<dots> \<longleftrightarrow> (\<exists>k < length pats. 3 \<le> snd (pats ! k) \<and> sublist (word_of (fst (pats ! k))) (map unat s))"
    proof -
      have "word_of (fst (pats ! k)) \<noteq> []" if "k < length pats" for k using assms(1) that by (simp add: keywords_fit_def)
      from sublist_at_position [OF this, of _ s] show ?thesis by blast
    qed
    also have "\<dots> \<longleftrightarrow> (\<exists>p \<in> set pats. 3 \<le> snd p \<and> sublist (word_of (fst p)) (map unat s))"
      by (rule bex_nth [symmetric])
    finally show ?thesis .
  qed
  with m(1) show ?thesis by blast
qed

text \<open>The keywords the program is delivered with.\<close>

lemma suffix_freeI:
  assumes "sorted_wrt (\<lambda>v w. \<not> suffix v w \<and> \<not> suffix w v) (map (\<lambda>p. word_of (fst p)) pats)"
  shows "suffix_free pats"
  unfolding suffix_free_def
proof (intro allI impI)
  fix i j assume ij: "i < length pats" "j < length pats" "i \<noteq> j"
  then show "\<not> suffix (word_of (fst (pats ! i))) (word_of (fst (pats ! j)))"
    using assms by (cases "i < j") (auto simp: sorted_wrt_iff_nth_less)
qed

lemma critical_words:
  "map (\<lambda>p. word_of (fst p)) CRITICAL_KEYWORDS = map (map of_char)
     [''hack'', ''exploit'', ''breach'', ''attack'', ''delist'', ''suspend'', ''halt'', ''emergency'', ''crash'',
      ''failure'', ''upgrade'', ''downgrade'', ''merger'', ''acquisition'', ''lawsuit'', ''investigation'',
      ''earnings'', ''revenue'', ''forecast'', ''dividend'']"
  by (simp add: CRITICAL_KEYWORDS_def byte_string_def)

lemma critical_keywords_fit: "keywords_fit CRITICAL_KEYWORDS"
  by (simp add: keywords_fit_def total_length_def CRITICAL_KEYWORDS_def byte_string_def)

lemma critical_keywords_suffix_free: "suffix_free CRITICAL_KEYWORDS"
  by (rule suffix_freeI) (simp add: critical_words suffix_to_prefix)

theorem critical_keyword_exact_witness:
  "\<exists>m. ahc_build CRITICAL_KEYWORDS ahc_new = Some (True, m) \<and>
     ahc_has_critical m (byte_string ''halted'') = Some True \<and> ahc_has_critical m (byte_string ''no'') = Some False"
proof -
  from critical_keyword_exact [OF critical_keywords_fit critical_keywords_suffix_free] obtain m where
    m: "ahc_build CRITICAL_KEYWORDS ahc_new = Some (True, m)"
      "\<And>s. ahc_has_critical m s =
         Some (\<exists>p \<in> set CRITICAL_KEYWORDS. 3 \<le> snd p \<and> sublist (word_of (fst p)) (map unat s))" by blast
  have "(byte_string ''halt'', 3) \<in> set CRITICAL_KEYWORDS" by (simp add: CRITICAL_KEYWORDS_def)
  moreover have "sublist (word_of (byte_string ''halt'')) (map unat (byte_string ''halted''))"
    by (rule prefix_imp_sublist) (simp add: byte_string_def)
  ultimately have "\<exists>p \<in> set CRITICAL_KEYWORDS. 3 \<le> snd p \<and> sublist (word_of (fst p)) (map unat (byte_string ''halted''))"
    by (intro bexI [of _ "(byte_string ''halt'', 3)"]) simp_all
  moreover have "\<forall>w \<in> set (map (\<lambda>p. word_of (fst p)) CRITICAL_KEYWORDS). 4 \<le> length w"
    unfolding critical_words by simp
  then have "\<not> (\<exists>p \<in> set CRITICAL_KEYWORDS. 3 \<le> snd p \<and> sublist (word_of (fst p)) (map unat (byte_string ''no'')))"
    by (auto simp: byte_string_def dest!: sublist_length_le)
  ultimately show ?thesis using m by auto
qed

text \<open>The shorter keyword hides the longer one that ends at the same place.\<close>

theorem keyword_scan_exact_witness:
  "\<exists>m. ahc_build [(byte_string ''crash'', 3), (byte_string ''ash'', 1)] ahc_new = Some (True, m) \<and>
     ahc_scan m (byte_string ''crash'') [\<lparr>km_pattern_idx = 0, km_start = 0, km_end = 0, km_priority = 0\<rparr>] =
       Some (1, [\<lparr>km_pattern_idx = 1, km_start = 0, km_end = 5, km_priority = 1\<rparr>])"
proof -
  let ?pats = "[(byte_string ''crash'', 3), (byte_string ''ash'', 1)]"
  have "keywords_fit ?pats" by (simp add: keywords_fit_def total_length_def byte_string_def)
  moreover have "keyword_reports ?pats (byte_string ''crash'') (Suc (Suc (Suc (Suc (Suc 0))))) =
      [\<lparr>km_pattern_idx = 1, km_start = 0, km_end = 5, km_priority = 1\<rparr>]"
    by (simp add: keyword_ending_def keyword_match_def byte_string_def)
  moreover have "length (byte_string ''crash'') = Suc (Suc (Suc (Suc (Suc 0))))" by (simp add: byte_string_def)
  ultimately show ?thesis using keyword_scan_exact [of ?pats] by (auto simp: Let_def)
qed

end
