(* ===== verification/Volume_Profile.thy ===== *)
theory Volume_Profile
  imports Machine "HOL-Library.Multiset"
begin

text \<open>
  The volume profile (\<open>src/src/market_data/volume_profile.rs\<close>): volumes per price bucket in a table with
  linear probing, the point of control and the value area around it. A bucket size of zero panics, which is
  \<open>None\<close>. Writes through raw pointers are the writes they are; the cells are updated one after the other.
\<close>

section \<open>Data\<close>

definition MAX_PRICE_NODES :: nat where
  "MAX_PRICE_NODES = 8192"

record VolumeNode =
  vn_price_micros :: u64
  vn_volume_scaled :: u64
  vn_buy_volume_scaled :: u64
  vn_sell_volume_scaled :: u64
  vn_trade_count :: u32
  vn_hash :: u32

definition vn_default :: VolumeNode where
  "vn_default = \<lparr>vn_price_micros = 0, vn_volume_scaled = 0, vn_buy_volume_scaled = 0, vn_sell_volume_scaled = 0,
     vn_trade_count = 0, vn_hash = 0\<rparr>"

definition vn_new :: "u64 \<Rightarrow> VolumeNode" where
  "vn_new price_micros = vn_default\<lparr>vn_price_micros := price_micros\<rparr>"

definition vn_add_trade :: "u64 \<Rightarrow> bool \<Rightarrow> VolumeNode \<Rightarrow> VolumeNode" where
  "vn_add_trade volume is_buy n =
     (let vol_scaled = volume * 1000;
          n = n\<lparr>vn_volume_scaled := u64_sat_add (vn_volume_scaled n) vol_scaled\<rparr>;
          n = (if is_buy then n\<lparr>vn_buy_volume_scaled := u64_sat_add (vn_buy_volume_scaled n) vol_scaled\<rparr>
               else n\<lparr>vn_sell_volume_scaled := u64_sat_add (vn_sell_volume_scaled n) vol_scaled\<rparr>)
      in n\<lparr>vn_trade_count := (if vn_trade_count n = - 1 then - 1 else vn_trade_count n + 1)\<rparr>)"

definition vn_clear :: "VolumeNode \<Rightarrow> VolumeNode" where
  "vn_clear n = n\<lparr>vn_volume_scaled := 0, vn_buy_volume_scaled := 0, vn_sell_volume_scaled := 0, vn_trade_count := 0\<rparr>"

record VolumeProfileStats =
  vps_poc_price :: u64
  vps_poc_volume :: u64
  vps_vah_price :: u64
  vps_val_price :: u64
  vps_total_volume :: u64
  vps_node_count :: u64
  vps_value_area_pct :: u32

record VolumeProfileEngine =
  vp_nodes :: "VolumeNode list"
  vp_active_count :: u64
  vp_bucket_size_micros :: u64
  vp_total_volume :: u64
  vp_session_high :: u64
  vp_session_low :: u64
  vp_version :: u64
  vp_value_area_pct :: u32

definition vp_new :: "u64 \<Rightarrow> u32 \<Rightarrow> VolumeProfileEngine" where
  "vp_new bucket_size_micros value_area_pct =
     \<lparr>vp_nodes = replicate MAX_PRICE_NODES vn_default, vp_active_count = 0,
      vp_bucket_size_micros = bucket_size_micros, vp_total_volume = 0, vp_session_high = 0,
      vp_session_low = - 1, vp_version = 0, vp_value_area_pct = value_area_pct\<rparr>"

section \<open>Adding a trade\<close>

text \<open>The probing loop: the node with the price, or the first empty slot met, if any.\<close>

primrec vp_probe :: "VolumeNode list \<Rightarrow> u64 \<Rightarrow> nat \<Rightarrow> nat \<Rightarrow> nat option \<Rightarrow> nat + nat option" where
  "vp_probe nodes bucketed_price 0 idx first_empty = Inr first_empty"
| "vp_probe nodes bucketed_price (Suc n) idx first_empty =
     (let node_price = vn_price_micros (nodes ! idx)
      in if node_price = 0
         then vp_probe nodes bucketed_price n ((idx + 1) mod MAX_PRICE_NODES)
                (case first_empty of None \<Rightarrow> Some idx | Some e \<Rightarrow> Some e)
         else if node_price = bucketed_price then Inl idx
         else vp_probe nodes bucketed_price n ((idx + 1) mod MAX_PRICE_NODES) first_empty)"

definition vp_count_trade :: "u64 \<Rightarrow> VolumeProfileEngine \<Rightarrow> VolumeProfileEngine" where
  "vp_count_trade volume e =
     e\<lparr>vp_total_volume := vp_total_volume e + volume * 1000, vp_version := vp_version e + 1\<rparr>"

definition vp_update_session :: "u64 \<Rightarrow> VolumeProfileEngine \<Rightarrow> VolumeProfileEngine" where
  "vp_update_session price_micros e =
     (let current_high = vp_session_high e;
          current_low = vp_session_low e;
          e = (if current_high < price_micros then e\<lparr>vp_session_high := price_micros\<rparr> else e)
      in if price_micros < current_low then e\<lparr>vp_session_low := price_micros\<rparr> else e)"

definition vp_add_trade :: "u64 \<Rightarrow> u64 \<Rightarrow> bool \<Rightarrow> VolumeProfileEngine \<Rightarrow> VolumeProfileEngine option" where
  "vp_add_trade price_micros volume is_buy e =
     (if vp_bucket_size_micros e = 0 then None
      else
        let bucketed_price = price_micros div vp_bucket_size_micros e * vp_bucket_size_micros e;
            e = vp_update_session price_micros e;
            hash = ucast (bucketed_price div vp_bucket_size_micros e) :: u32
        in case vp_probe (vp_nodes e) bucketed_price MAX_PRICE_NODES (unat hash mod MAX_PRICE_NODES) None of
             Inl idx \<Rightarrow>
               Some (vp_count_trade volume
                 (e\<lparr>vp_nodes := (vp_nodes e)[idx := vn_add_trade volume is_buy (vp_nodes e ! idx)]\<rparr>))
           | Inr (Some insert_idx) \<Rightarrow>
               Some (vp_count_trade volume
                 (e\<lparr>vp_nodes := (vp_nodes e)[insert_idx :=
                      (vn_add_trade volume is_buy (vn_new bucketed_price))\<lparr>vn_hash := hash\<rparr>],
                    vp_active_count := vp_active_count e + 1\<rparr>))
           | Inr None \<Rightarrow> Some e)"

section \<open>Point of control and value area\<close>

definition vp_poc_step :: "VolumeNode \<Rightarrow> u64 \<times> u64 \<Rightarrow> u64 \<times> u64" where
  "vp_poc_step node poc =
     (if 0 < vn_price_micros node \<and> snd poc < vn_volume_scaled node
      then (vn_price_micros node, vn_volume_scaled node) else poc)"

definition vp_calculate_poc :: "VolumeProfileEngine \<Rightarrow> u64 \<times> u64" where
  "vp_calculate_poc e = fold vp_poc_step (vp_nodes e) (0, 0)"

text \<open>The bubble sort: one pass compares and swaps the first \<open>k\<close> neighbours, each pass one fewer.\<close>

fun bubble_pass :: "nat \<Rightarrow> (u64 \<times> u64) list \<Rightarrow> (u64 \<times> u64) list" where
  "bubble_pass (Suc k) (x # y # xs) =
     (if fst y < fst x then y # bubble_pass k (x # xs) else x # bubble_pass k (y # xs))"
| "bubble_pass k xs = xs"

definition bubble_sort :: "(u64 \<times> u64) list \<Rightarrow> (u64 \<times> u64) list" where
  "bubble_sort xs = fold (\<lambda>i. bubble_pass (length xs - (i + 1))) [0..<length xs - 1] xs"

definition vp_price_volumes :: "VolumeProfileEngine \<Rightarrow> (u64 \<times> u64) list" where
  "vp_price_volumes e =
     map (\<lambda>n. (vn_price_micros n, vn_volume_scaled n)) (filter (\<lambda>n. 0 < vn_price_micros n) (vp_nodes e))"

definition vp_poc_idx :: "u64 \<Rightarrow> (u64 \<times> u64) list \<Rightarrow> nat" where
  "vp_poc_idx poc_price pvs =
     (case find (\<lambda>i. fst (pvs ! i) = poc_price) [0..<length pvs] of None \<Rightarrow> 0 | Some i \<Rightarrow> i)"

text \<open>The expansion from the point of control; it ends because every round takes in one more node.\<close>

function vp_expand :: "(u64 \<times> u64) list \<Rightarrow> u64 \<Rightarrow> u64 \<Rightarrow> nat \<Rightarrow> nat \<Rightarrow> nat \<times> nat" where
  "vp_expand pvs target_volume accumulated left right =
     (if accumulated < target_volume
      then
        let left_vol = (if 0 < left then snd (pvs ! (left - 1)) else 0);
            right_vol = (if right + 1 < length pvs then snd (pvs ! (right + 1)) else 0)
        in if right_vol \<le> left_vol
           then if 0 < left then vp_expand pvs target_volume (u64_sat_add accumulated left_vol) (left - 1) right
                else if right + 1 < length pvs
                then vp_expand pvs target_volume (u64_sat_add accumulated right_vol) left (right + 1)
                else (left, right)
           else if right + 1 < length pvs
                then vp_expand pvs target_volume (u64_sat_add accumulated right_vol) left (right + 1)
                else if 0 < left then vp_expand pvs target_volume (u64_sat_add accumulated left_vol) (left - 1) right
                else (left, right)
      else (left, right))"
  by pat_completeness auto

termination vp_expand
  by (relation "measure (\<lambda>(pvs, t, a, left, right). left + (length pvs - right))") auto

declare vp_expand.simps [simp del]

definition vp_calculate_value_area :: "VolumeProfileEngine \<Rightarrow> u64 \<times> u64" where
  "vp_calculate_value_area e =
     (case vp_calculate_poc e of (poc_price, poc_volume) \<Rightarrow>
        if poc_price = 0 \<or> poc_volume = 0 then (0, 0)
        else
          let total_vol = vp_total_volume e
          in if total_vol = 0 then (0, 0)
             else
               let target_volume = total_vol * ucast (vp_value_area_pct e) div 100;
                   price_volumes = vp_price_volumes e
               in if price_volumes = [] then (0, 0)
                  else
                    let price_volumes = bubble_sort price_volumes;
                        poc_idx = vp_poc_idx poc_price price_volumes;
                        bounds = vp_expand price_volumes target_volume (snd (price_volumes ! poc_idx)) poc_idx poc_idx
                    in (fst (price_volumes ! snd bounds), fst (price_volumes ! fst bounds)))"

definition vp_get_stats :: "VolumeProfileEngine \<Rightarrow> VolumeProfileStats" where
  "vp_get_stats e =
     \<lparr>vps_poc_price = fst (vp_calculate_poc e), vps_poc_volume = snd (vp_calculate_poc e),
      vps_vah_price = fst (vp_calculate_value_area e), vps_val_price = snd (vp_calculate_value_area e),
      vps_total_volume = vp_total_volume e, vps_node_count = vp_active_count e,
      vps_value_area_pct = vp_value_area_pct e\<rparr>"

text \<open>The lookup scans from the first slot and stops at the first empty one.\<close>

fun vp_volume_scan :: "u64 \<Rightarrow> VolumeNode list \<Rightarrow> u64" where
  "vp_volume_scan bucketed_price [] = 0"
| "vp_volume_scan bucketed_price (node # nodes) =
     (if vn_price_micros node = bucketed_price then vn_volume_scaled node
      else if vn_price_micros node = 0 then 0
      else vp_volume_scan bucketed_price nodes)"

definition vp_get_volume_at_price :: "u64 \<Rightarrow> VolumeProfileEngine \<Rightarrow> u64 option" where
  "vp_get_volume_at_price price_micros e =
     (if vp_bucket_size_micros e = 0 then None
      else Some (vp_volume_scan (price_micros div vp_bucket_size_micros e * vp_bucket_size_micros e) (vp_nodes e)))"

definition vp_get_session_low :: "VolumeProfileEngine \<Rightarrow> u64" where
  "vp_get_session_low e = (if vp_session_low e = - 1 then 0 else vp_session_low e)"

definition vp_reset :: "VolumeProfileEngine \<Rightarrow> VolumeProfileEngine" where
  "vp_reset e =
     e\<lparr>vp_nodes := map vn_clear (vp_nodes e), vp_active_count := 0, vp_total_volume := 0, vp_session_high := 0,
       vp_session_low := - 1, vp_version := vp_version e + 1\<rparr>"

definition vp_get_high_volume_nodes :: "u32 \<Rightarrow> VolumeProfileEngine \<Rightarrow> (u64 \<times> u64) list" where
  "vp_get_high_volume_nodes threshold_multiplier e =
     (if vp_active_count e = 0 then []
      else
        let avg_volume = vp_total_volume e div vp_active_count e;
            threshold = avg_volume * ucast threshold_multiplier
        in map (\<lambda>n. (vn_price_micros n, vn_volume_scaled n))
             (filter (\<lambda>n. 0 < vn_price_micros n \<and> threshold < vn_volume_scaled n) (vp_nodes e)))"

section \<open>The bubble sort sorts\<close>

lemma bubble_pass_facts:
  assumes "k < length xs"
  shows "mset (take (Suc k) (bubble_pass k xs)) = mset (take (Suc k) xs)"
    and "drop (Suc k) (bubble_pass k xs) = drop (Suc k) xs"
    and "x \<in> set (take (Suc k) xs) \<Longrightarrow> fst x \<le> fst (bubble_pass k xs ! k)"
proof -
  have "mset (take (Suc k) (bubble_pass k xs)) = mset (take (Suc k) xs) \<and>
    drop (Suc k) (bubble_pass k xs) = drop (Suc k) xs \<and>
    (\<forall>x \<in> set (take (Suc k) xs). fst x \<le> fst (bubble_pass k xs ! k))"
    using assms
  proof (induction k xs rule: bubble_pass.induct)
    case (1 k x y xs)
    then show ?case by (cases "fst y < fst x") auto
  qed (auto simp: neq_Nil_conv take_Suc)
  then show "mset (take (Suc k) (bubble_pass k xs)) = mset (take (Suc k) xs)"
    "drop (Suc k) (bubble_pass k xs) = drop (Suc k) xs"
    "x \<in> set (take (Suc k) xs) \<Longrightarrow> fst x \<le> fst (bubble_pass k xs ! k)" by blast+
qed

lemma length_bubble_pass [simp]: "length (bubble_pass k xs) = length xs"
  by (induction k xs rule: bubble_pass.induct) auto

lemma mset_bubble_pass: "k < length xs \<Longrightarrow> mset (bubble_pass k xs) = mset xs"
  using bubble_pass_facts(1,2) [of k xs] by (metis append_take_drop_id mset_append)

text \<open>The last \<open>i\<close> places are final: nothing before them is larger.\<close>

definition sorted_end :: "nat \<Rightarrow> (u64 \<times> u64) list \<Rightarrow> bool" where
  "sorted_end i xs \<longleftrightarrow> (\<forall>b < length xs. \<forall>a < b. length xs - i \<le> b \<longrightarrow> fst (xs ! a) \<le> fst (xs ! b))"

lemma sorted_end_pass:
  assumes "sorted_end i xs" "Suc i < length xs"
  shows "sorted_end (Suc i) (bubble_pass (length xs - Suc i) xs)"
  unfolding sorted_end_def length_bubble_pass
proof (intro allI impI)
  let ?k = "length xs - Suc i" and ?ys = "bubble_pass (length xs - Suc i) xs"
  have k: "?k < length xs" using assms(2) by simp
  note facts = bubble_pass_facts [OF k]
  have late: "?ys ! b = xs ! b" if "?k < b" "b < length xs" for b
    using arg_cong [OF facts(2), of "\<lambda>zs. zs ! (b - Suc ?k)"] that by simp
  have early: "\<exists>a' \<le> ?k. ?ys ! a = xs ! a'" if "a \<le> ?k" for a
  proof -
    have "?ys ! a \<in> set (take (Suc ?k) ?ys)" using that k by (auto simp: in_set_conv_nth intro!: exI [of _ a])
    then have "?ys ! a \<in> set (take (Suc ?k) xs)" using facts(1) by (metis set_mset_mset)
    then obtain j where "j < Suc ?k" "xs ! j = ?ys ! a" using k by (auto simp: in_set_conv_nth)
    then show ?thesis by (intro exI [of _ j]) auto
  qed
  fix a b assume b: "b < length xs" and a: "a < b" and "length xs - Suc i \<le> b"
  show "fst (?ys ! a) \<le> fst (?ys ! b)"
  proof (cases "b = ?k")
    case True
    with early [of a] a obtain a' where a': "a' \<le> ?k" "?ys ! a = xs ! a'" by auto
    then have "xs ! a' \<in> set (take (Suc ?k) xs)" using k by (auto simp: in_set_conv_nth intro!: exI [of _ a'])
    from facts(3) [OF this] show ?thesis by (simp add: a' True)
  next
    case False
    then have kb: "?k < b" using \<open>length xs - Suc i \<le> b\<close> by simp
    have "\<exists>a' < b. ?ys ! a = xs ! a'"
    proof (cases "a \<le> ?k")
      case True
      then show ?thesis using early [OF True] kb by (meson le_less_trans)
    next
      case False
      then show ?thesis using late [of a] a b by auto
    qed
    moreover have "length xs - i \<le> b" using kb by simp
    ultimately show ?thesis using assms(1) b late [OF kb b] unfolding sorted_end_def by auto
  qed
qed

lemma bubble_sort_facts: "mset (bubble_sort xs) = mset xs" "sorted (map fst (bubble_sort xs))"
proof -
  let ?f = "\<lambda>i. bubble_pass (length xs - (i + 1))"
  have inv: "n \<le> length xs - 1 \<Longrightarrow> mset (fold ?f [0..<n] xs) = mset xs \<and> length (fold ?f [0..<n] xs) = length xs \<and>
    sorted_end n (fold ?f [0..<n] xs)" for n
  proof (induction n)
    case 0
    then show ?case by (simp add: sorted_end_def)
  next
    case (Suc n)
    let ?ys = "fold ?f [0..<n] xs"
    have IH: "mset ?ys = mset xs" "length ?ys = length xs" "sorted_end n ?ys" using Suc by simp_all
    have n: "Suc n < length xs" using Suc.prems by simp
    have step: "fold ?f [0..<Suc n] xs = bubble_pass (length ?ys - Suc n) ?ys" using IH(2) by simp
    show ?case
      unfolding step using sorted_end_pass [OF IH(3)] mset_bubble_pass [of "length ?ys - Suc n" ?ys] IH n by simp
  qed
  then show "mset (bubble_sort xs) = mset xs" by (simp add: bubble_sort_def)
  have "sorted_end (length xs - 1) (bubble_sort xs)" "length (bubble_sort xs) = length xs"
    using inv by (simp_all add: bubble_sort_def)
  then show "sorted (map fst (bubble_sort xs))"
    unfolding sorted_iff_nth_mono_less sorted_end_def by auto
qed

section \<open>The expansion covers its target\<close>

definition range_volume :: "(u64 \<times> u64) list \<Rightarrow> nat \<Rightarrow> nat \<Rightarrow> nat" where
  "range_volume pvs l r = (\<Sum>i = l..r. unat (snd (pvs ! i)))"

lemma range_volume_right: "l \<le> Suc r \<Longrightarrow> range_volume pvs l (Suc r) = range_volume pvs l r + unat (snd (pvs ! Suc r))"
  by (simp add: range_volume_def)

lemma range_volume_left: "0 < l \<Longrightarrow> l \<le> Suc r \<Longrightarrow> range_volume pvs (l - 1) r = unat (snd (pvs ! (l - 1))) + range_volume pvs l r"
  by (cases l) (simp_all add: range_volume_def sum.atLeast_Suc_atMost)

lemma range_volume_mono: "l' \<le> l \<Longrightarrow> r \<le> r' \<Longrightarrow> range_volume pvs l r \<le> range_volume pvs l' r'"
  unfolding range_volume_def by (rule sum_mono2) auto

lemma expand_covers:
  assumes "range_volume pvs 0 (length pvs - 1) < 2 ^ 64" "left \<le> right" "right < length pvs"
    and "unat accumulated = range_volume pvs left right"
  shows "case vp_expand pvs target accumulated left right of (l, r) \<Rightarrow>
    l \<le> left \<and> right \<le> r \<and> r < length pvs \<and>
    (unat target \<le> range_volume pvs l r \<or> l = 0 \<and> r = length pvs - 1)"
  using assms(2-)
proof (induction "left + (length pvs - right)" arbitrary: left right accumulated rule: less_induct)
  case less
  let ?lv = "if 0 < left then snd (pvs ! (left - 1)) else 0"
  let ?rv = "if right + 1 < length pvs then snd (pvs ! (right + 1)) else 0"
  have bound: "range_volume pvs l r < 2 ^ 64" if "r < length pvs" for l r
  proof -
    have "r \<le> length pvs - 1" using that by simp
    from range_volume_mono [OF _ this, of 0 l pvs] assms(1) show ?thesis by simp
  qed
  have go_left: ?case if "0 < left" and
    step: "vp_expand pvs target accumulated left right = vp_expand pvs target (u64_sat_add accumulated ?lv) (left - 1) right"
  proof -
    have sum: "range_volume pvs (left - 1) right = unat ?lv + range_volume pvs left right"
      using range_volume_left [of left right pvs] that(1) less.prems(1) by simp
    then have eq: "unat (u64_sat_add accumulated ?lv) = range_volume pvs (left - 1) right"
      using bound [OF less.prems(2), of "left - 1"] less.prems(3) by (simp add: unat_u64_sat_add)
    have smaller: "left - 1 + (length pvs - right) < left + (length pvs - right)" and le: "left - 1 \<le> right"
      using that(1) less.prems(1) by simp_all
    define x where "x = vp_expand pvs target (u64_sat_add accumulated ?lv) (left - 1) right"
    have ind: "case x of (l, r) \<Rightarrow> l \<le> left - 1 \<and> right \<le> r \<and> r < length pvs \<and>
        (unat target \<le> range_volume pvs l r \<or> l = 0 \<and> r = length pvs - 1)"
      unfolding x_def by (rule less.hyps [OF smaller le less.prems(2) eq])
    show ?thesis unfolding step x_def [symmetric] using ind by (cases x) auto
  qed
  have go_right: ?case if "right + 1 < length pvs" and
    step: "vp_expand pvs target accumulated left right = vp_expand pvs target (u64_sat_add accumulated ?rv) left (right + 1)"
  proof -
    have sum: "range_volume pvs left (right + 1) = range_volume pvs left right + unat ?rv"
      using range_volume_right [of left right pvs] that(1) less.prems(1) by simp
    then have eq: "unat (u64_sat_add accumulated ?rv) = range_volume pvs left (right + 1)"
      using bound [OF that(1), of left] less.prems(3) by (simp add: unat_u64_sat_add)
    have smaller: "left + (length pvs - (right + 1)) < left + (length pvs - right)" and le: "left \<le> right + 1"
      using that(1) less.prems(1) by simp_all
    define x where "x = vp_expand pvs target (u64_sat_add accumulated ?rv) left (right + 1)"
    have ind: "case x of (l, r) \<Rightarrow> l \<le> left \<and> right + 1 \<le> r \<and> r < length pvs \<and>
        (unat target \<le> range_volume pvs l r \<or> l = 0 \<and> r = length pvs - 1)"
      unfolding x_def by (rule less.hyps [OF smaller le that(1) eq])
    show ?thesis unfolding step x_def [symmetric] using ind by (cases x) auto
  qed
  note unfold = vp_expand.simps [of pvs target accumulated left right]
  show ?case
  proof (cases "accumulated < target")
    case False
    then show ?thesis using less.prems by (simp add: unfold word_less_nat_alt)
  next
    case lt: True
    show ?thesis
    proof (cases "0 < left \<and> (?rv \<le> ?lv \<or> \<not> right + 1 < length pvs)")
      case True
      then show ?thesis by (intro go_left) (use lt in \<open>auto simp: unfold Let_def\<close>)
    next
      case False
      show ?thesis
      proof (cases "right + 1 < length pvs")
        case True
        show ?thesis by (intro go_right) (use True False lt in \<open>auto simp: unfold Let_def\<close>)
      next
        case end_right: False
        with False have "left = 0" by simp
        moreover have "right = length pvs - 1" using end_right less.prems(2) by simp
        moreover have "vp_expand pvs target accumulated left right = (left, right)"
          using \<open>left = 0\<close> end_right by (subst vp_expand.simps) (simp add: Let_def)
        ultimately show ?thesis using less.prems by simp
      qed
    qed
  qed
qed

section \<open>The table and the trades\<close>

text \<open>
  A trade is its price, volume and side. The table against the history of trades: the volume of a bucket is
  the sum over the trades of the bucket.
\<close>

type_synonym vp_trade = "u64 \<times> u64 \<times> bool"

definition bucket_of :: "u64 \<Rightarrow> vp_trade \<Rightarrow> u64" where
  "bucket_of b t = fst t div b * b"

definition volume_of :: "u64 \<Rightarrow> vp_trade list \<Rightarrow> u64 \<Rightarrow> nat" where
  "volume_of b h q = (\<Sum>t \<leftarrow> filter (\<lambda>t. bucket_of b t = q) h. unat (fst (snd t)) * 1000)"

definition traded_volume :: "vp_trade list \<Rightarrow> nat" where
  "traded_volume h = (\<Sum>t \<leftarrow> h. unat (fst (snd t)) * 1000)"

definition buckets :: "u64 \<Rightarrow> vp_trade list \<Rightarrow> u64 set" where
  "buckets b h = bucket_of b ` set h"

definition vp_record :: "vp_trade \<Rightarrow> VolumeProfileEngine \<Rightarrow> VolumeProfileEngine option" where
  "vp_record t = vp_add_trade (fst t) (fst (snd t)) (snd (snd t))"

primrec vp_record_all :: "vp_trade list \<Rightarrow> VolumeProfileEngine \<Rightarrow> VolumeProfileEngine option" where
  "vp_record_all [] e = Some e"
| "vp_record_all (t # h) e = Option.bind (vp_record t e) (vp_record_all h)"

text \<open>The histories the table has room for: no price below a bucket, no overflow, not too many buckets.\<close>

definition fits_table :: "u64 \<Rightarrow> vp_trade list \<Rightarrow> bool" where
  "fits_table b h \<longleftrightarrow>
     b \<noteq> 0 \<and> (\<forall>t \<in> set h. b \<le> fst t) \<and> traded_volume h < 2 ^ 64 \<and> card (buckets b h) \<le> 8192"

lemma finite_buckets [simp]: "finite (buckets b h)"
  by (simp add: buckets_def)

lemma volume_of_snoc:
  "volume_of b (h @ [t]) q = volume_of b h q + (if bucket_of b t = q then unat (fst (snd t)) * 1000 else 0)"
  by (simp add: volume_of_def)

lemma traded_volume_snoc: "traded_volume (h @ [t]) = traded_volume h + unat (fst (snd t)) * 1000"
  by (simp add: traded_volume_def)

lemma volume_of_le: "volume_of b h q \<le> traded_volume h"
  unfolding volume_of_def traded_volume_def by (induction h) auto

lemma sum_volume_of: "finite Q \<Longrightarrow> buckets b h \<subseteq> Q \<Longrightarrow> (\<Sum>q \<in> Q. volume_of b h q) = traded_volume h"
proof (induction h rule: rev_induct)
  case Nil
  then show ?case by (simp add: volume_of_def traded_volume_def)
next
  case (snoc t h)
  then have "buckets b h \<subseteq> Q" "bucket_of b t \<in> Q" by (auto simp: buckets_def)
  with snoc show ?case
    by (simp add: volume_of_snoc traded_volume_snoc sum.distrib)
qed

lemma volume_of_outside: "q \<notin> buckets b h \<Longrightarrow> volume_of b h q = 0"
  by (auto simp: volume_of_def buckets_def filter_empty_conv)

lemma bucket_positive: "b \<noteq> 0 \<Longrightarrow> b \<le> fst t \<Longrightarrow> bucket_of b t \<noteq> 0"
proof -
  assume b: "b \<noteq> 0" "b \<le> fst t"
  have "unat (fst t) div unat b * unat b \<le> unat (fst t)" by simp
  also have "\<dots> < 2 ^ 64" using unsigned_less [of "fst t"] by simp
  finally have "unat (bucket_of b t) = unat (fst t) div unat b * unat b"
    unfolding bucket_of_def by (subst unat_mult_u64) (simp_all add: unat_div)
  moreover have "0 < unat b" "unat b \<le> unat (fst t)" using b by (simp_all add: word_le_nat_alt unat_gt_0)
  ultimately show ?thesis by (auto simp: div_eq_0_iff)
qed

abbreviation node_price :: "VolumeProfileEngine \<Rightarrow> nat \<Rightarrow> u64" where
  "node_price e i \<equiv> vn_price_micros (vp_nodes e ! i)"

definition vp_tracks :: "u64 \<Rightarrow> vp_trade list \<Rightarrow> VolumeProfileEngine \<Rightarrow> bool" where
  "vp_tracks b h e \<longleftrightarrow>
     vp_bucket_size_micros e = b \<and> length (vp_nodes e) = 8192 \<and>
     (\<forall>i < 8192. \<forall>j < 8192. node_price e i = node_price e j \<longrightarrow> node_price e i \<noteq> 0 \<longrightarrow> i = j) \<and>
     (\<forall>q. q \<noteq> 0 \<longrightarrow> (\<exists>i < 8192. node_price e i = q) = (q \<in> buckets b h)) \<and>
     (\<forall>i < 8192. node_price e i \<noteq> 0 \<longrightarrow> unat (vn_volume_scaled (vp_nodes e ! i)) = volume_of b h (node_price e i)) \<and>
     unat (vp_total_volume e) = traded_volume h"

lemma probe_facts:
  assumes "idx < 8192" and "bp \<noteq> 0" and "\<And>e. fe = Some e \<Longrightarrow> e < 8192 \<and> vn_price_micros (nodes ! e) = 0"
  shows "case vp_probe nodes bp n idx fe of
      Inl i \<Rightarrow> i < 8192 \<and> vn_price_micros (nodes ! i) = bp
    | Inr fe' \<Rightarrow> (\<forall>k < n. vn_price_micros (nodes ! ((idx + k) mod 8192)) \<noteq> bp) \<and>
        (\<forall>e. fe' = Some e \<longrightarrow> e < 8192 \<and> vn_price_micros (nodes ! e) = 0) \<and>
        (fe' = None \<longrightarrow> (\<forall>k < n. vn_price_micros (nodes ! ((idx + k) mod 8192)) \<noteq> 0))"
  using assms
proof (induction n arbitrary: idx fe)
  case (Suc n)
  let ?p = "vn_price_micros (nodes ! idx)" and ?idx = "(idx + 1) mod 8192"
  have cover: "(\<forall>k < Suc n. P ((idx + k) mod 8192)) \<longleftrightarrow> P idx \<and> (\<forall>k < n. P ((?idx + k) mod 8192))" for P
  proof -
    have "(idx + Suc k) mod 8192 = (?idx + k) mod 8192" for k by (simp add: mod_simps)
    then show ?thesis using Suc.prems(1) by (auto simp: less_Suc_eq_0_disj)
  qed
  show ?case
  proof (cases "?p = 0")
    case True
    let ?fe = "case fe of None \<Rightarrow> Some idx | Some e \<Rightarrow> Some e"
    have "\<And>e. ?fe = Some e \<Longrightarrow> e < 8192 \<and> vn_price_micros (nodes ! e) = 0"
      using Suc.prems(1,3) True by (auto split: option.splits)
    from Suc.IH [of ?idx ?fe, OF _ Suc.prems(2) this]
    have IH: "case vp_probe nodes bp n ?idx ?fe of
      Inl i \<Rightarrow> i < 8192 \<and> vn_price_micros (nodes ! i) = bp
    | Inr fe' \<Rightarrow> (\<forall>k < n. vn_price_micros (nodes ! ((?idx + k) mod 8192)) \<noteq> bp) \<and>
        (\<forall>e. fe' = Some e \<longrightarrow> e < 8192 \<and> vn_price_micros (nodes ! e) = 0) \<and>
        (fe' = None \<longrightarrow> (\<forall>k < n. vn_price_micros (nodes ! ((?idx + k) mod 8192)) \<noteq> 0))" by simp
    have kept: "vp_probe nodes bp m i (Some e) \<noteq> Inr None" for m i e
      by (induction m arbitrary: i e) (auto simp: Let_def)
    have "vp_probe nodes bp n ?idx ?fe \<noteq> Inr None" using kept by (cases fe) auto
    moreover have "vp_probe nodes bp (Suc n) idx fe = vp_probe nodes bp n ?idx ?fe"
      using True by (simp add: MAX_PRICE_NODES_def Let_def)
    moreover have "?p \<noteq> bp" using True Suc.prems(2) by simp
    ultimately show ?thesis using IH
      unfolding cover [of "\<lambda>i. vn_price_micros (nodes ! i) \<noteq> bp"]
      by (auto split: sum.splits)
  next
    case False
    show ?thesis
    proof (cases "?p = bp")
      case True
      then show ?thesis using False Suc.prems(1) by simp
    next
      case ne: False
      from Suc.IH [of ?idx fe, OF _ Suc.prems(2,3)]
      have IH: "case vp_probe nodes bp n ?idx fe of
        Inl i \<Rightarrow> i < 8192 \<and> vn_price_micros (nodes ! i) = bp
      | Inr fe' \<Rightarrow> (\<forall>k < n. vn_price_micros (nodes ! ((?idx + k) mod 8192)) \<noteq> bp) \<and>
          (\<forall>e. fe' = Some e \<longrightarrow> e < 8192 \<and> vn_price_micros (nodes ! e) = 0) \<and>
          (fe' = None \<longrightarrow> (\<forall>k < n. vn_price_micros (nodes ! ((?idx + k) mod 8192)) \<noteq> 0))" by simp
      have "vp_probe nodes bp (Suc n) idx fe = vp_probe nodes bp n ?idx fe"
        using False ne by (simp add: MAX_PRICE_NODES_def Let_def)
      then show ?thesis using IH ne False
        unfolding cover [of "\<lambda>i. vn_price_micros (nodes ! i) \<noteq> bp"] cover [of "\<lambda>i. vn_price_micros (nodes ! i) \<noteq> 0"]
        by (auto split: sum.splits)
    qed
  qed
qed (auto split: option.splits)

lemma all_slots: "idx < 8192 \<Longrightarrow> (\<forall>k < 8192. P ((idx + k) mod (8192 :: nat))) \<Longrightarrow> i < 8192 \<Longrightarrow> P i"
proof -
  assume a: "idx < 8192" "\<forall>k < 8192. P ((idx + k) mod (8192 :: nat))" "i < 8192"
  have "(idx + (i + 8192 - idx) mod 8192) mod 8192 = i" using a(1,3) by (simp add: mod_simps)
  moreover have "(i + 8192 - idx) mod 8192 < 8192" by simp
  ultimately show "P i" using a(2) by metis
qed

lemma vp_update_session_fields [simp]:
  "vp_nodes (vp_update_session p e) = vp_nodes e"
  "vp_bucket_size_micros (vp_update_session p e) = vp_bucket_size_micros e"
  "vp_total_volume (vp_update_session p e) = vp_total_volume e"
  "vp_active_count (vp_update_session p e) = vp_active_count e"
  by (simp_all add: vp_update_session_def Let_def)

lemma vn_add_trade_fields [simp]:
  "vn_price_micros (vn_add_trade v d n) = vn_price_micros n"
  "vn_volume_scaled (vn_add_trade v d n) = u64_sat_add (vn_volume_scaled n) (v * 1000)"
  by (simp_all add: vn_add_trade_def Let_def)

lemma fits_table_snocD:
  assumes "fits_table b (h @ [t])"
  shows "fits_table b h" and "bucket_of b t \<noteq> 0" and "traded_volume h + unat (fst (snd t)) * 1000 < 2 ^ 64"
    and "unat (fst (snd t) * 1000) = unat (fst (snd t)) * 1000"
proof -
  have sum: "traded_volume h + unat (fst (snd t)) * 1000 < 2 ^ 64" and b: "b \<noteq> 0" "b \<le> fst t"
    and "card (buckets b (h @ [t])) \<le> 8192"
    using assms by (simp_all add: fits_table_def traded_volume_snoc)
  moreover have "card (buckets b h) \<le> card (buckets b (h @ [t]))"
    by (rule card_mono) (auto simp: buckets_def)
  ultimately show "fits_table b h" using assms by (auto simp: fits_table_def)
  show "bucket_of b t \<noteq> 0" by (rule bucket_positive [OF b])
  show "traded_volume h + unat (fst (snd t)) * 1000 < 2 ^ 64" by (rule sum)
  then show "unat (fst (snd t) * 1000) = unat (fst (snd t)) * 1000" by (subst unat_mult_u64) simp_all
qed

lemma empty_slot_exists:
  assumes "vp_tracks b h e" "fits_table b (h @ [t])" "bucket_of b t \<notin> buckets b h"
  shows "\<exists>i < 8192. node_price e i = 0"
proof (rule ccontr)
  assume "\<not> (\<exists>i < 8192. node_price e i = 0)"
  then have full: "node_price e i \<noteq> 0" if "i < 8192" for i using that by blast
  have "inj_on (node_price e) {..<8192}" using assms(1) full by (auto simp: vp_tracks_def inj_on_def)
  then have "card (node_price e ` {..<8192}) = 8192" by (simp add: card_image)
  moreover have "node_price e ` {..<8192} \<subseteq> buckets b h"
    using assms(1) full unfolding vp_tracks_def by blast
  ultimately have "8192 \<le> card (buckets b h)" by (metis card_mono buckets_def finite_imageI finite_set)
  moreover have "buckets b (h @ [t]) = insert (bucket_of b t) (buckets b h)" by (auto simp: buckets_def)
  ultimately have "8193 \<le> card (buckets b (h @ [t]))" using assms(3) by (simp add: buckets_def)
  then show False using assms(2) by (simp add: fits_table_def)
qed

lemma tracks_write:
  assumes tr: "vp_tracks b h e" and fits: "fits_table b (h @ [t])" and i: "i < 8192"
    and new: "vn_price_micros n = bucket_of b t" "unat (vn_volume_scaled n) = volume_of b (h @ [t]) (bucket_of b t)"
    and place: "node_price e i = bucket_of b t \<or> node_price e i = 0 \<and> bucket_of b t \<notin> buckets b h"
    and e': "vp_bucket_size_micros e' = b" "vp_nodes e' = (vp_nodes e)[i := n]"
      "vp_total_volume e' = vp_total_volume e + fst (snd t) * 1000"
  shows "vp_tracks b (h @ [t]) e'"
proof -
  let ?q = "bucket_of b t"
  note t = fits_table_snocD [OF fits]
  have len: "length (vp_nodes e) = 8192" using tr by (simp add: vp_tracks_def)
  have price: "node_price e' j = (if j = i then ?q else node_price e j)" for j
    using len i new(1) e'(2) by (auto simp: nth_list_update)
  have uniq: "node_price e j \<noteq> ?q" if "j < 8192" "j \<noteq> i" for j
    using place that i tr t(2) unfolding vp_tracks_def by metis
  have inj: "j = k" if "j < 8192" "k < 8192" "node_price e' j = node_price e' k" "node_price e' j \<noteq> 0" for j k
    using that uniq [of j] uniq [of k] tr unfolding price vp_tracks_def by (auto split: if_splits)
  have dom: "(\<exists>j < 8192. node_price e' j = q) = (q \<in> buckets b (h @ [t]))" if "q \<noteq> 0" for q
  proof -
    have old: "(\<exists>j < 8192. node_price e j = q) = (q \<in> buckets b h)" using tr that unfolding vp_tracks_def by blast
    have "buckets b (h @ [t]) = insert ?q (buckets b h)" by (auto simp: buckets_def)
    moreover have "(\<exists>j < 8192. node_price e' j = q) \<longleftrightarrow> q = ?q \<or> (\<exists>j < 8192. node_price e j = q)"
      unfolding price using i place that uniq by metis
    ultimately show ?thesis using old by simp
  qed
  have vol: "unat (vn_volume_scaled (vp_nodes e' ! j)) = volume_of b (h @ [t]) (node_price e' j)"
    if "j < 8192" "node_price e' j \<noteq> 0" for j
  proof (cases "j = i")
    case True
    then show ?thesis using len i e'(2) new by simp
  next
    case False
    then have "node_price e j \<noteq> ?q" using uniq that(1) by simp
    with False show ?thesis using tr that unfolding vp_tracks_def price by (auto simp: e'(2) volume_of_snoc)
  qed
  have "unat (vp_total_volume e') = traded_volume (h @ [t])"
    using tr t(3,4) unfolding e'(3) traded_volume_snoc by (subst unat_add_u64) (simp_all add: vp_tracks_def)
  then show ?thesis
    unfolding vp_tracks_def using len e'(1,2) inj dom vol by simp
qed

lemma record_tracks:
  assumes tr: "vp_tracks b h e" and fits: "fits_table b (h @ [t])"
  shows "\<exists>e'. vp_record t e = Some e' \<and> vp_tracks b (h @ [t]) e'"
proof -
  let ?q = "bucket_of b t" and ?v = "fst (snd t)" and ?d = "snd (snd t)"
  note t = fits_table_snocD [OF fits]
  have b: "b \<noteq> 0" "vp_bucket_size_micros e = b" using fits tr by (simp_all add: fits_table_def vp_tracks_def)
  define hash where "hash = (ucast (?q div b) :: u32)"
  define idx where "idx = unat hash mod 8192"
  have idx: "idx < 8192" by (simp add: idx_def)
  define e1 where "e1 = vp_update_session (fst t) e"
  have e1: "vp_nodes e1 = vp_nodes e" "vp_bucket_size_micros e1 = b" "vp_total_volume e1 = vp_total_volume e"
    using b(2) by (simp_all add: e1_def)
  have step: "vp_record t e = (case vp_probe (vp_nodes e) ?q 8192 idx None of
      Inl i \<Rightarrow> Some (vp_count_trade ?v (e1\<lparr>vp_nodes := (vp_nodes e)[i := vn_add_trade ?v ?d (vp_nodes e ! i)]\<rparr>))
    | Inr (Some i) \<Rightarrow> Some (vp_count_trade ?v
        (e1\<lparr>vp_nodes := (vp_nodes e)[i := (vn_add_trade ?v ?d (vn_new ?q))\<lparr>vn_hash := hash\<rparr>],
            vp_active_count := vp_active_count e1 + 1\<rparr>))
    | Inr None \<Rightarrow> Some e1)"
    using b e1 by (simp add: vp_record_def vp_add_trade_def bucket_of_def [symmetric] e1_def [symmetric]
        hash_def idx_def MAX_PRICE_NODES_def Let_def split: sum.split option.split)
  note facts = probe_facts [OF idx t(2), of None "vp_nodes e" 8192, simplified]
  have sat: "unat (u64_sat_add w (?v * 1000)) = unat w + unat ?v * 1000" if "unat w \<le> traded_volume h" for w
    using that t(3,4) by (simp add: unat_u64_sat_add)
  show ?thesis
  proof (cases "vp_probe (vp_nodes e) ?q 8192 idx None")
    case (Inl i)
    then have i: "i < 8192" "node_price e i = ?q" using facts by simp_all
    then have old: "unat (vn_volume_scaled (vp_nodes e ! i)) = volume_of b h ?q"
      using tr t(2) unfolding vp_tracks_def by metis
    have "vp_tracks b (h @ [t]) (vp_count_trade ?v (e1\<lparr>vp_nodes := (vp_nodes e)[i := vn_add_trade ?v ?d (vp_nodes e ! i)]\<rparr>))"
    proof (rule tracks_write [OF tr fits i(1)])
      show "unat (vn_volume_scaled (vn_add_trade ?v ?d (vp_nodes e ! i))) = volume_of b (h @ [t]) ?q"
        using old sat [of "vn_volume_scaled (vp_nodes e ! i)"] volume_of_le [of b h ?q] by (simp add: volume_of_snoc)
    qed (use i(2) e1 in \<open>simp_all add: vp_count_trade_def\<close>)
    then show ?thesis by (simp add: step Inl)
  next
    case (Inr fe)
    then have absent: "node_price e i \<noteq> ?q" if "i < 8192" for i
      using facts all_slots [OF idx _ that, of "\<lambda>i. node_price e i \<noteq> ?q"] by simp
    then have fresh: "?q \<notin> buckets b h" using tr t(2) unfolding vp_tracks_def by blast
    show ?thesis
    proof (cases fe)
      case None
      then have "node_price e i \<noteq> 0" if "i < 8192" for i
        using facts Inr all_slots [OF idx _ that, of "\<lambda>i. node_price e i \<noteq> 0"] by simp
      with empty_slot_exists [OF tr fits fresh] show ?thesis by blast
    next
      case (Some i)
      then have i: "i < 8192" "node_price e i = 0" using facts Inr by simp_all
      have "vp_tracks b (h @ [t]) (vp_count_trade ?v
        (e1\<lparr>vp_nodes := (vp_nodes e)[i := (vn_add_trade ?v ?d (vn_new ?q))\<lparr>vn_hash := hash\<rparr>],
            vp_active_count := vp_active_count e1 + 1\<rparr>))"
      proof (rule tracks_write [OF tr fits i(1)])
        show "unat (vn_volume_scaled ((vn_add_trade ?v ?d (vn_new ?q))\<lparr>vn_hash := hash\<rparr>)) = volume_of b (h @ [t]) ?q"
          using sat [of 0] volume_of_outside [OF fresh] by (simp add: volume_of_snoc vn_new_def vn_default_def)
      qed (use i(2) e1 fresh in \<open>simp_all add: vp_count_trade_def vn_new_def\<close>)
      then show ?thesis by (simp add: step Inr Some)
    qed
  qed
qed

lemma tracks_new: "b \<noteq> 0 \<Longrightarrow> vp_tracks b [] (vp_new b pct)"
proof -
  have n: "MAX_PRICE_NODES = 8192" by (simp add: MAX_PRICE_NODES_def)
  have "length (vp_nodes (vp_new b pct)) = 8192" unfolding vp_new_def VolumeProfileEngine.simps length_replicate n ..
  moreover have "node_price (vp_new b pct) i = 0" if "i < 8192" for i
    using that unfolding vp_new_def VolumeProfileEngine.simps by (subst nth_replicate) (simp_all add: n vn_default_def)
  moreover have "vp_bucket_size_micros (vp_new b pct) = b" "vp_total_volume (vp_new b pct) = 0" by (simp_all add: vp_new_def)
  ultimately show ?thesis by (simp add: vp_tracks_def buckets_def traded_volume_def)
qed

lemma record_all_tracks:
  "vp_tracks b h0 e \<Longrightarrow> fits_table b (h0 @ h) \<Longrightarrow> \<exists>e'. vp_record_all h e = Some e' \<and> vp_tracks b (h0 @ h) e'"
proof (induction h arbitrary: h0 e)
  case (Cons t h)
  have "fits_table b (h0 @ [t])"
  proof -
    have "h0 @ t # h = (h0 @ [t]) @ h" by simp
    moreover have "fits_table b (xs @ ys) \<Longrightarrow> fits_table b xs" for xs ys
      by (induction ys rule: rev_induct) (use fits_table_snocD(1) in \<open>fastforce simp flip: append_assoc\<close>)+
    ultimately show ?thesis using Cons.prems(2) by metis
  qed
  from record_tracks [OF Cons.prems(1) this] obtain e' where "vp_record t e = Some e'" "vp_tracks b (h0 @ [t]) e'" by blast
  with Cons.IH [of "h0 @ [t]" e'] Cons.prems(2) show ?case by simp
qed simp

section \<open>What the profile says about the trades\<close>

definition poc_of :: "VolumeNode list \<Rightarrow> u64 \<times> u64 \<Rightarrow> u64 \<times> u64 \<Rightarrow> bool" where
  "poc_of ns start r \<longleftrightarrow>
     snd start \<le> snd r \<and> (\<forall>n \<in> set ns. 0 < vn_price_micros n \<longrightarrow> vn_volume_scaled n \<le> snd r) \<and>
     (r = start \<or> (\<exists>n \<in> set ns. 0 < vn_price_micros n \<and> r = (vn_price_micros n, vn_volume_scaled n)))"

lemma poc_fold: "poc_of ns start (fold vp_poc_step ns start)"
proof (induction ns arbitrary: start)
  case (Cons n ns)
  show ?case
  proof (cases "0 < vn_price_micros n \<and> snd start < vn_volume_scaled n")
    case True
    with Cons [of "(vn_price_micros n, vn_volume_scaled n)"] show ?thesis
      by (auto simp: poc_of_def vp_poc_step_def [of n])
  next
    case False
    with Cons [of start] show ?thesis by (auto simp: poc_of_def vp_poc_step_def [of n])
  qed
qed (simp add: poc_of_def)

lemma tracks_nodes:
  assumes "vp_tracks b h e" "fits_table b h"
  shows "n \<in> set (vp_nodes e) \<Longrightarrow> 0 < vn_price_micros n \<Longrightarrow>
      vn_price_micros n \<in> buckets b h \<and> unat (vn_volume_scaled n) = volume_of b h (vn_price_micros n)"
    and "q \<in> buckets b h \<Longrightarrow> \<exists>n \<in> set (vp_nodes e). 0 < vn_price_micros n \<and> vn_price_micros n = q"
proof -
  have len: "length (vp_nodes e) = 8192" using assms(1) by (simp add: vp_tracks_def)
  assume n: "n \<in> set (vp_nodes e)" "0 < vn_price_micros n"
  then obtain i where i: "i < 8192" "vp_nodes e ! i = n" using len by (auto simp: in_set_conv_nth)
  with n(2) have "node_price e i \<noteq> 0" by auto
  with i assms(1) show "vn_price_micros n \<in> buckets b h \<and> unat (vn_volume_scaled n) = volume_of b h (vn_price_micros n)"
    unfolding vp_tracks_def by blast
next
  have len: "length (vp_nodes e) = 8192" using assms(1) by (simp add: vp_tracks_def)
  assume q: "q \<in> buckets b h"
  then have pos: "q \<noteq> 0" using assms(2) bucket_positive by (auto simp: buckets_def fits_table_def)
  with q assms(1) obtain i where "i < 8192" "node_price e i = q" unfolding vp_tracks_def by blast
  then show "\<exists>n \<in> set (vp_nodes e). 0 < vn_price_micros n \<and> vn_price_micros n = q"
    using len pos by (intro bexI [of _ "vp_nodes e ! i"]) (auto simp: word_gt_0)
qed

lemma poc_exact:
  assumes tr: "vp_tracks b h e" and fits: "fits_table b h" and vol: "0 < traded_volume h"
    and poc: "vp_calculate_poc e = (p, v)"
  shows "p \<in> buckets b h" and "unat v = volume_of b h p" and "\<forall>q. volume_of b h q \<le> volume_of b h p" and "v \<noteq> 0"
proof -
  have facts: "poc_of (vp_nodes e) (0, 0) (p, v)" using poc_fold [of "vp_nodes e" "(0, 0)"] poc by (simp add: vp_calculate_poc_def)
  have "\<exists>q \<in> buckets b h. volume_of b h q \<noteq> 0"
  proof (rule ccontr)
    assume "\<not> (\<exists>q \<in> buckets b h. volume_of b h q \<noteq> 0)"
    then have "(\<Sum>q \<in> buckets b h. volume_of b h q) = 0" by (intro sum.neutral) blast
    then show False using vol sum_volume_of [of "buckets b h" b h] by simp
  qed
  then obtain q where q: "q \<in> buckets b h" "volume_of b h q \<noteq> 0" by blast
  have le: "volume_of b h q \<le> unat v" for q
  proof (cases "q \<in> buckets b h")
    case True
    then obtain n where "n \<in> set (vp_nodes e)" "0 < vn_price_micros n" "vn_price_micros n = q"
      using tracks_nodes(2) [OF tr fits] by blast
    then show ?thesis using facts tracks_nodes(1) [OF tr fits] by (auto simp: poc_of_def word_le_nat_alt)
  qed (simp add: volume_of_outside)
  from le [of q] q(2) show "v \<noteq> 0" by auto
  with facts obtain n where n: "n \<in> set (vp_nodes e)" "0 < vn_price_micros n" "p = vn_price_micros n" "v = vn_volume_scaled n"
    by (auto simp: poc_of_def)
  from tracks_nodes(1) [OF tr fits n(1,2)] show p: "p \<in> buckets b h" "unat v = volume_of b h p" by (simp_all add: n)
  show "\<forall>q. volume_of b h q \<le> volume_of b h p" using le p(2) by simp
qed

lemma distinct_prices:
  assumes "\<forall>i < length ns. \<forall>j < length ns. vn_price_micros (ns ! i) = vn_price_micros (ns ! j) \<longrightarrow>
    vn_price_micros (ns ! i) \<noteq> 0 \<longrightarrow> i = j"
  shows "distinct (map vn_price_micros (filter (\<lambda>n. 0 < vn_price_micros n) ns))"
  using assms
proof (induction ns)
  case (Cons n ns)
  have "\<forall>i < length ns. \<forall>j < length ns. vn_price_micros (ns ! i) = vn_price_micros (ns ! j) \<longrightarrow>
      vn_price_micros (ns ! i) \<noteq> 0 \<longrightarrow> i = j"
  proof (intro allI impI)
    fix i j assume "i < length ns" "j < length ns" "vn_price_micros (ns ! i) = vn_price_micros (ns ! j)"
      "vn_price_micros (ns ! i) \<noteq> 0"
    then show "i = j" using Cons.prems [rule_format, of "Suc i" "Suc j"] by simp
  qed
  note IH = Cons.IH [OF this]
  have "vn_price_micros n \<notin> vn_price_micros ` set ns" if "0 < vn_price_micros n"
  proof
    assume "vn_price_micros n \<in> vn_price_micros ` set ns"
    then obtain j where j: "j < length ns" "vn_price_micros n = vn_price_micros (ns ! j)" by (auto simp: in_set_conv_nth)
    moreover have "vn_price_micros n \<noteq> 0" using that by auto
    ultimately show False using Cons.prems [rule_format, of 0 "Suc j"] by simp
  qed
  with IH show ?case by auto
qed simp

text \<open>The price-volume pairs, sorted: each bucket once, in the order of the prices.\<close>

lemma sorted_pairs:
  assumes tr: "vp_tracks b h e" and fits: "fits_table b h"
  defines "pvs \<equiv> bubble_sort (vp_price_volumes e)"
  shows "sorted_wrt (<) (map fst pvs)" and "set (map fst pvs) = buckets b h"
    and "i < length pvs \<Longrightarrow> unat (snd (pvs ! i)) = volume_of b h (fst (pvs ! i))"
proof -
  have len: "length (vp_nodes e) = 8192" using tr by (simp add: vp_tracks_def)
  have members: "set pvs = set (vp_price_volumes e)"
    unfolding pvs_def using bubble_sort_facts(1) by (metis set_mset_mset)
  have fsts: "map fst (vp_price_volumes e) = map vn_price_micros (filter (\<lambda>n. 0 < vn_price_micros n) (vp_nodes e))"
    by (simp add: vp_price_volumes_def)
  have "distinct (map vn_price_micros (filter (\<lambda>n. 0 < vn_price_micros n) (vp_nodes e)))"
    by (rule distinct_prices) (use tr in \<open>simp add: vp_tracks_def\<close>)
  then have "distinct (map fst (vp_price_volumes e))" by (simp add: fsts)
  then have "distinct (map fst pvs)"
    unfolding pvs_def using bubble_sort_facts(1) by (metis mset_map mset_eq_imp_distinct_iff)
  then show "sorted_wrt (<) (map fst pvs)"
    using bubble_sort_facts(2) by (simp add: pvs_def strict_sorted_iff)
  show "set (map fst pvs) = buckets b h"
    using members tracks_nodes [OF tr fits] by (force simp: vp_price_volumes_def)
  assume "i < length pvs"
  then have "pvs ! i \<in> set (vp_price_volumes e)" using members nth_mem by metis
  then show "unat (snd (pvs ! i)) = volume_of b h (fst (pvs ! i))"
    using tracks_nodes(1) [OF tr fits] by (auto simp: vp_price_volumes_def)
qed

lemma range_volume_buckets:
  assumes "sorted_wrt (<) (map fst pvs)" and "\<And>i. i < length pvs \<Longrightarrow> unat (snd (pvs ! i)) = vol (fst (pvs ! i))"
    and "l \<le> r" "r < length pvs"
  shows "range_volume pvs l r = (\<Sum>q \<in> {q \<in> set (map fst pvs). fst (pvs ! l) \<le> q \<and> q \<le> fst (pvs ! r)}. vol q)"
proof -
  have less: "fst (pvs ! i) < fst (pvs ! j)" if "i < j" "j < length pvs" for i j
    using sorted_wrt_nth_less [OF assms(1), of i j] that by simp
  have mono: "fst (pvs ! i) \<le> fst (pvs ! j) \<longleftrightarrow> i \<le> j" if "i < length pvs" "j < length pvs" for i j
    using less [of i j] less [of j i] that by (cases i j rule: linorder_cases) auto
  have inj: "inj_on (\<lambda>i. fst (pvs ! i)) {l..r}"
  proof (rule inj_onI)
    fix i j assume ij: "i \<in> {l..r}" "j \<in> {l..r}" "fst (pvs ! i) = fst (pvs ! j)"
    then have "i < length pvs" "j < length pvs" using assms(4) by simp_all
    with mono [of i j] mono [of j i] ij(3) show "i = j" by simp
  qed
  have image: "(\<lambda>i. fst (pvs ! i)) ` {l..r} = {q \<in> set (map fst pvs). fst (pvs ! l) \<le> q \<and> q \<le> fst (pvs ! r)}"
  proof (intro equalityI subsetI)
    fix q assume "q \<in> {q \<in> set (map fst pvs). fst (pvs ! l) \<le> q \<and> q \<le> fst (pvs ! r)}"
    then obtain i where i: "i < length pvs" "q = fst (pvs ! i)" "fst (pvs ! l) \<le> q" "q \<le> fst (pvs ! r)"
      by (auto simp: in_set_conv_nth)
    then have "l \<le> i" "i \<le> r" using mono assms(3,4) by auto
    then show "q \<in> (\<lambda>i. fst (pvs ! i)) ` {l..r}" using i(2) by auto
  qed (use mono assms(3,4) in \<open>auto intro!: imageI nth_mem\<close>)
  have "(\<Sum>q \<in> {q \<in> set (map fst pvs). fst (pvs ! l) \<le> q \<and> q \<le> fst (pvs ! r)}. vol q) =
      (\<Sum>i = l..r. vol (fst (pvs ! i)))"
    unfolding image [symmetric] by (simp add: sum.reindex [OF inj])
  also have "\<dots> = range_volume pvs l r" unfolding range_volume_def using assms(2,4) by (intro sum.cong) auto
  finally show ?thesis ..
qed

text \<open>
  C17: The table is the profile of the trades. For any trades it has room for, recording them all succeeds;
  the price reported as the point of control is a bucket with the largest volume of all, reported with that
  volume; and the total is the volume of all trades.
\<close>

theorem point_of_control_exact:
  assumes "fits_table b h" and "0 < traded_volume h"
  shows "\<exists>e. vp_record_all h (vp_new b pct) = Some e \<and> unat (vp_total_volume e) = traded_volume h \<and>
    (case vp_calculate_poc e of (p, v) \<Rightarrow>
       p \<in> buckets b h \<and> unat v = volume_of b h p \<and> (\<forall>q. volume_of b h q \<le> volume_of b h p))"
proof -
  have "b \<noteq> 0" using assms(1) by (simp add: fits_table_def)
  from record_all_tracks [OF tracks_new [OF this], of h pct] assms(1) obtain e where
    e: "vp_record_all h (vp_new b pct) = Some e" "vp_tracks b h e" by auto
  obtain p v where poc: "vp_calculate_poc e = (p, v)" by fastforce
  have "unat (vp_total_volume e) = traded_volume h" using e(2) by (simp add: vp_tracks_def)
  with e(1) poc poc_exact(1-3) [OF e(2) assms poc] show ?thesis by (intro exI [of _ e]) simp
qed

lemma poc_idx_found:
  assumes "i < length pvs" "fst (pvs ! i) = p"
  shows "vp_poc_idx p pvs < length pvs \<and> fst (pvs ! vp_poc_idx p pvs) = p"
proof (cases "find (\<lambda>i. fst (pvs ! i) = p) [0..<length pvs]")
  case None
  then show ?thesis using assms by (auto simp: find_None_iff)
next
  case (Some j)
  then have "j < length pvs \<and> fst (pvs ! j) = p" by (auto simp: find_Some_iff)
  then show ?thesis using Some by (simp add: vp_poc_idx_def)
qed

lemma value_area_of_tracked:
  assumes tr: "vp_tracks b h e" and fits: "fits_table b h" and vol: "0 < traded_volume h"
    and pct: "unat (vp_value_area_pct e) \<le> 100" "traded_volume h * unat (vp_value_area_pct e) < 2 ^ 64"
  shows "case vp_calculate_value_area e of (vah, val) \<Rightarrow>
    val \<in> buckets b h \<and> vah \<in> buckets b h \<and> val \<le> fst (vp_calculate_poc e) \<and> fst (vp_calculate_poc e) \<le> vah \<and>
    traded_volume h * unat (vp_value_area_pct e) div 100 \<le>
      (\<Sum>q \<in> {q \<in> buckets b h. val \<le> q \<and> q \<le> vah}. volume_of b h q)"
proof -
  obtain p v where poc: "vp_calculate_poc e = (p, v)" by fastforce
  note p = poc_exact [OF tr fits vol poc]
  define pvs where "pvs = bubble_sort (vp_price_volumes e)"
  note pairs = sorted_pairs [OF tr fits, folded pvs_def]
  define i where "i = vp_poc_idx p pvs"
  have i: "i < length pvs" "fst (pvs ! i) = p"
  proof -
    from p(1) obtain j where "j < length pvs" "fst (pvs ! j) = p"
      unfolding pairs(2) [symmetric] by (auto simp: in_set_conv_nth)
    from poc_idx_found [OF this] show "i < length pvs" "fst (pvs ! i) = p" by (simp_all add: i_def)
  qed
  have range: "range_volume pvs l r = (\<Sum>q \<in> {q \<in> buckets b h. fst (pvs ! l) \<le> q \<and> q \<le> fst (pvs ! r)}. volume_of b h q)"
    if "l \<le> r" "r < length pvs" for l r
    using range_volume_buckets [OF pairs(1,3) that] unfolding pairs(2) .
  define target where "target = vp_total_volume e * ucast (vp_value_area_pct e) div 100"
  have "unat (vp_total_volume e) = traded_volume h" using tr by (simp add: vp_tracks_def)
  then have target: "unat target = traded_volume h * unat (vp_value_area_pct e) div 100"
    unfolding target_def using pct(2) by (simp add: unat_div unat_mult_u64 unat_ucast_32_64)
  have less: "fst (pvs ! i) \<le> fst (pvs ! j)" if "i \<le> j" "j < length pvs" for i j
    using sorted_wrt_nth_less [OF pairs(1), of i j] that by (cases "i = j") auto
  have all: "{q \<in> buckets b h. fst (pvs ! 0) \<le> q \<and> q \<le> fst (pvs ! (length pvs - 1))} = buckets b h"
  proof -
    have "fst (pvs ! 0) \<le> q \<and> q \<le> fst (pvs ! (length pvs - 1))" if "q \<in> buckets b h" for q
    proof -
      from that obtain j where j: "j < length pvs" "q = fst (pvs ! j)"
        unfolding pairs(2) [symmetric] by (auto simp: in_set_conv_nth)
      then have "j \<le> length pvs - 1" "length pvs - 1 < length pvs" by simp_all
      with less [of 0 j] less [of j "length pvs - 1"] j show ?thesis by blast
    qed
    then show ?thesis by blast
  qed
  then have total: "range_volume pvs 0 (length pvs - 1) = traded_volume h"
    using range [of 0 "length pvs - 1"] i(1) sum_volume_of [of "buckets b h" b h] by simp
  obtain l r where lr: "vp_expand pvs target (snd (pvs ! i)) i i = (l, r)" by fastforce
  have "range_volume pvs 0 (length pvs - 1) < 2 ^ 64" unfolding total using fits by (simp add: fits_table_def)
  from expand_covers [OF this order_refl i(1), of "snd (pvs ! i)" target] lr
  have bounds: "l \<le> i" "i \<le> r" "r < length pvs" "unat target \<le> range_volume pvs l r \<or> l = 0 \<and> r = length pvs - 1"
    by (simp_all add: range_volume_def)
  have "traded_volume h * unat (vp_value_area_pct e) div 100 \<le> traded_volume h * 100 div 100"
    using pct(1) by (intro div_le_mono mult_le_mono2)
  then have "unat target \<le> traded_volume h" by (simp add: target)
  with bounds(4) total have cover: "unat target \<le> range_volume pvs l r" by auto
  have "vp_price_volumes e \<noteq> []" using i(1) bubble_sort_facts(1) [of "vp_price_volumes e"] by (auto simp: pvs_def)
  moreover have "p \<noteq> 0" "vp_total_volume e \<noteq> 0"
    using p(1) fits bucket_positive vol tr by (auto simp: buckets_def fits_table_def vp_tracks_def)
  ultimately have "vp_calculate_value_area e = (fst (pvs ! r), fst (pvs ! l))"
    using poc p(4) lr by (simp add: vp_calculate_value_area_def pvs_def [symmetric] i_def [symmetric]
        target_def [symmetric] Let_def)
  moreover have "fst (pvs ! l) \<in> buckets b h" "fst (pvs ! r) \<in> buckets b h"
    unfolding pairs(2) [symmetric] using bounds by auto
  moreover have "fst (pvs ! l) \<le> p" "p \<le> fst (pvs ! r)" using less bounds i by force+
  moreover have "l \<le> r" using bounds by simp
  ultimately show ?thesis using cover range [of l r] bounds(3) by (simp add: poc target)
qed

text \<open>
  C19: The value area covers what it promises. For any trades the table has room for and a percentage of at
  most one hundred, the value area reaches from a traded bucket to a traded bucket around the point of
  control, and the volume traded inside it is at least that percentage of all volume.
\<close>

theorem value_area_covers:
  assumes "fits_table b h" and "0 < traded_volume h" and "pct \<le> 100" and "traded_volume h * unat pct < 2 ^ 64"
  shows "\<exists>e. vp_record_all h (vp_new b pct) = Some e \<and>
    (case vp_calculate_value_area e of (vah, val) \<Rightarrow>
       val \<in> buckets b h \<and> vah \<in> buckets b h \<and> val \<le> fst (vp_calculate_poc e) \<and> fst (vp_calculate_poc e) \<le> vah \<and>
       traded_volume h * unat pct div 100 \<le> (\<Sum>q \<in> {q \<in> buckets b h. val \<le> q \<and> q \<le> vah}. volume_of b h q))"
proof -
  have pct_kept: "vp_record t e = Some e' \<Longrightarrow> vp_value_area_pct e' = vp_value_area_pct e" for t e e'
    by (auto simp: vp_record_def vp_add_trade_def vp_update_session_def vp_count_trade_def Let_def
        split: if_splits sum.splits option.splits)
  have kept: "vp_record_all h e = Some e' \<Longrightarrow> vp_value_area_pct e' = vp_value_area_pct e" for h e e'
    by (induction h arbitrary: e) (auto simp: pct_kept split: bind_splits)
  have "b \<noteq> 0" using assms(1) by (simp add: fits_table_def)
  from record_all_tracks [OF tracks_new [OF this], of h pct] assms(1) obtain e where
    e: "vp_record_all h (vp_new b pct) = Some e" "vp_tracks b h e" by auto
  have pct: "vp_value_area_pct e = pct" using kept [OF e(1)] by (simp add: vp_new_def)
  have "unat pct \<le> 100" using assms(3) by (simp add: word_le_nat_alt)
  with value_area_of_tracked [OF e(2) assms(1,2)] assms(4) e(1) show ?thesis by (simp add: pct)
qed

text \<open>A bucket of one unit, 70 per cent: of volumes 5, 9 and 2 at three prices the area is the first two.\<close>

definition example_trades :: "vp_trade list" where
  "example_trades = [(100, 5, True), (101, 4, True), (102, 2, False), (101, 5, False)]"

lemma example_fits: "fits_table 1 example_trades" "traded_volume example_trades = 16000"
proof -
  have "card (buckets 1 example_trades) \<le> length example_trades"
    unfolding buckets_def using card_image_le [of "set example_trades"] card_length [of example_trades] by (meson finite_set le_trans)
  moreover show "traded_volume example_trades = 16000" by (simp add: traded_volume_def example_trades_def)
  ultimately show "fits_table 1 example_trades" by (simp add: fits_table_def example_trades_def word_le_nat_alt)
qed

theorem point_of_control_exact_witness:
  "\<exists>e. vp_record_all example_trades (vp_new 1 70) = Some e \<and> unat (snd (vp_calculate_poc e)) \<ge> 9000"
proof -
  have "volume_of 1 example_trades 101 = 9000" by (simp add: volume_of_def bucket_of_def example_trades_def)
  then show ?thesis using point_of_control_exact [OF example_fits(1), of 70] example_fits(2)
    by (auto simp: case_prod_beta) metis
qed

theorem value_area_covers_witness:
  "\<exists>e. vp_record_all example_trades (vp_new 1 70) = Some e \<and>
    (case vp_calculate_value_area e of (vah, val) \<Rightarrow>
       11200 \<le> (\<Sum>q \<in> {q \<in> buckets 1 example_trades. val \<le> q \<and> q \<le> vah}. volume_of 1 example_trades q))"
  using value_area_covers [OF example_fits(1), of 70] example_fits(2) by (auto simp: case_prod_beta)

section \<open>Where the profile falls short\<close>

text \<open>The lookup of a volume gives up at once when the first slot is empty, wherever the price is stored.\<close>

lemma lookup_stops_at_first_slot:
  assumes "vp_nodes e = n # ns" "vn_price_micros n = 0" "vn_volume_scaled n = 0" "vp_bucket_size_micros e \<noteq> 0"
  shows "vp_get_volume_at_price p e = Some 0"
  using assms by (simp add: vp_get_volume_at_price_def)

text \<open>A reset forgets how many nodes there are but keeps their prices, so they are never counted again.\<close>

lemma reset_keeps_prices:
  "map vn_price_micros (vp_nodes (vp_reset e)) = map vn_price_micros (vp_nodes e)" "vp_active_count (vp_reset e) = 0"
  by (simp_all add: vp_reset_def vn_clear_def comp_def)

end
