(* ===== verification/Ichimoku.thy ===== *)
theory Ichimoku
  imports Machine
begin

text \<open>
  The Ichimoku cloud (\<open>src/src/ta/ichimoku.rs\<close>): circular buffers of highs and lows, the midpoints of the last
  candles, the signals and the twist of the cloud. Prices are signed integers.
\<close>

section \<open>The rolling window\<close>

definition MAX_LOOKBACK :: u64 where
  "MAX_LOOKBACK = 52"

record RollingWindow =
  rw_highs :: "i64 list"
  rw_lows :: "i64 list"
  rw_index :: u64
  rw_count :: u64

definition rw_new :: RollingWindow where
  "rw_new = \<lparr>rw_highs = replicate (unat MAX_LOOKBACK) 0, rw_lows = replicate (unat MAX_LOOKBACK) 0,
     rw_index = 0, rw_count = 0\<rparr>"

definition rw_push :: "i64 \<Rightarrow> i64 \<Rightarrow> RollingWindow \<Rightarrow> RollingWindow" where
  "rw_push high low w =
     (let idx = rw_index w;
          w = w\<lparr>rw_highs := (rw_highs w)[unat idx := high], rw_lows := (rw_lows w)[unat idx := low],
                rw_index := (idx + 1) mod MAX_LOOKBACK\<rparr>
      in if rw_count w < MAX_LOOKBACK then w\<lparr>rw_count := rw_count w + 1\<rparr> else w)"

definition rw_read_idx :: "u64 \<Rightarrow> u64 \<Rightarrow> nat" where
  "rw_read_idx idx i = unat ((idx - (i + 1) + MAX_LOOKBACK) mod MAX_LOOKBACK)"

definition rw_highest_high :: "u64 \<Rightarrow> RollingWindow \<Rightarrow> i64" where
  "rw_highest_high n w =
     (let actual_n = min n (rw_count w)
      in if actual_n = 0 then 0
         else fold (\<lambda>i max_high. let h = rw_highs w ! rw_read_idx (rw_index w) (of_nat i)
                                in if max_high <s h then h else max_high)
                [0..<unat actual_n] i64_MIN)"

definition rw_lowest_low :: "u64 \<Rightarrow> RollingWindow \<Rightarrow> i64" where
  "rw_lowest_low n w =
     (let actual_n = min n (rw_count w)
      in if actual_n = 0 then i64_MAX
         else fold (\<lambda>i min_low. let l = rw_lows w ! rw_read_idx (rw_index w) (of_nat i)
                               in if l <s min_low then l else min_low)
                [0..<unat actual_n] i64_MAX)"

definition rw_close_ago :: "i64 list \<Rightarrow> u64 \<Rightarrow> RollingWindow \<Rightarrow> i64" where
  "rw_close_ago closes n w = (if rw_count w \<le> n then 0 else closes ! rw_read_idx (rw_index w) n)"

section \<open>The calculator\<close>

record IchimokuComponents =
  ich_tenkan :: i64
  ich_kijun :: i64
  ich_senkou_a :: i64
  ich_senkou_b :: i64
  ich_chikou :: i64
  ich_close :: i64

definition ich_components_new :: IchimokuComponents where
  "ich_components_new =
     \<lparr>ich_tenkan = 0, ich_kijun = 0, ich_senkou_a = 0, ich_senkou_b = 0, ich_chikou = 0, ich_close = 0\<rparr>"

datatype IchimokuSignal =
    NoSignal | BullishTKCross | BearishTKCross | BullishCloudBreak | BearishCloudBreak | BullishChikou
  | BearishChikou | StrongBullish | StrongBearish

record IchimokuCalculator =
  ikc_window :: RollingWindow
  ikc_closes :: "i64 list"
  ikc_tenkan_period :: u64
  ikc_kijun_period :: u64
  ikc_senkou_period :: u64
  ikc_leading_offset :: u64
  ikc_prev_tenkan :: i64
  ikc_prev_kijun :: i64

definition ikc_new :: "u64 \<Rightarrow> u64 \<Rightarrow> u64 \<Rightarrow> IchimokuCalculator" where
  "ikc_new tenkan_period kijun_period senkou_period =
     \<lparr>ikc_window = rw_new, ikc_closes = replicate (unat MAX_LOOKBACK) 0, ikc_tenkan_period = tenkan_period,
      ikc_kijun_period = kijun_period, ikc_senkou_period = senkou_period, ikc_leading_offset = 26,
      ikc_prev_tenkan = 0, ikc_prev_kijun = 0\<rparr>"

definition ikc_default :: IchimokuCalculator where
  "ikc_default = ikc_new 9 26 52"

definition ikc_midpoint :: "u64 \<Rightarrow> RollingWindow \<Rightarrow> i64" where
  "ikc_midpoint period w = i64_div (rw_highest_high period w + rw_lowest_low period w) 2"

definition ikc_process_candle ::
    "i64 \<Rightarrow> i64 \<Rightarrow> i64 \<Rightarrow> IchimokuCalculator \<Rightarrow> IchimokuComponents option \<times> IchimokuCalculator" where
  "ikc_process_candle high low close_price c =
     (let idx = rw_index (ikc_window c);
          c = c\<lparr>ikc_closes := (ikc_closes c)[unat idx := close_price], ikc_window := rw_push high low (ikc_window c)\<rparr>
      in if rw_count (ikc_window c) < ikc_senkou_period c then (None, c)
         else
           let tenkan = ikc_midpoint (ikc_tenkan_period c) (ikc_window c);
               kijun = ikc_midpoint (ikc_kijun_period c) (ikc_window c);
               senkou_a = i64_div (tenkan + kijun) 2;
               senkou_b = ikc_midpoint (ikc_senkou_period c) (ikc_window c)
           in (Some \<lparr>ich_tenkan = tenkan, ich_kijun = kijun, ich_senkou_a = senkou_a, ich_senkou_b = senkou_b,
                     ich_chikou = close_price, ich_close = close_price\<rparr>,
               c\<lparr>ikc_prev_tenkan := tenkan, ikc_prev_kijun := kijun\<rparr>))"

definition ikc_max :: "i64 \<Rightarrow> i64 \<Rightarrow> i64" where
  "ikc_max a b = (if b <s a then a else b)"

definition ikc_min :: "i64 \<Rightarrow> i64 \<Rightarrow> i64" where
  "ikc_min a b = (if a \<le>s b then a else b)"

definition ikc_detect_signal :: "IchimokuComponents \<Rightarrow> i64 \<Rightarrow> IchimokuCalculator \<Rightarrow> IchimokuSignal" where
  "ikc_detect_signal k price_26_ago c =
     (let up = ich_kijun k <s ich_tenkan k
      in if up \<and> ikc_prev_tenkan c \<le>s ikc_prev_kijun c then BullishTKCross
         else if \<not> up \<and> ikc_prev_kijun c \<le>s ikc_prev_tenkan c then BearishTKCross
         else
           let cloud_top = ikc_max (ich_senkou_a k) (ich_senkou_b k);
               cloud_bottom = ikc_min (ich_senkou_a k) (ich_senkou_b k);
               above = cloud_top <s ich_close k;
               below = \<not> above \<and> ich_close k <s cloud_bottom;
               later_up = price_26_ago <s ich_chikou k;
               later_down = \<not> later_up \<and> ich_chikou k <s price_26_ago;
               bullish_signals = of_bool up + of_bool above + of_bool later_up :: u8;
               bearish_signals = of_bool (\<not> up) + of_bool below + of_bool later_down :: u8
           in if 3 \<le> bullish_signals then StrongBullish
              else if 3 \<le> bearish_signals then StrongBearish
              else if bearish_signals < bullish_signals then BullishChikou
              else if bullish_signals < bearish_signals then BearishChikou
              else NoSignal)"

definition ikc_is_in_cloud :: "IchimokuComponents \<Rightarrow> i64 \<Rightarrow> bool" where
  "ikc_is_in_cloud k current_price \<longleftrightarrow>
     ikc_min (ich_senkou_a k) (ich_senkou_b k) \<le>s current_price \<and>
     current_price \<le>s ikc_max (ich_senkou_a k) (ich_senkou_b k)"

definition ikc_cloud_thickness :: "IchimokuComponents \<Rightarrow> i64" where
  "ikc_cloud_thickness k = i64_abs (ich_senkou_a k - ich_senkou_b k)"

definition ikc_get_future_cloud :: "u64 \<Rightarrow> IchimokuCalculator \<Rightarrow> i64 \<times> i64" where
  "ikc_get_future_cloud periods_ahead c =
     (i64_div (ikc_prev_tenkan c + ikc_prev_kijun c) 2, ikc_prev_kijun c)"

definition ikc_reset :: "IchimokuCalculator \<Rightarrow> IchimokuCalculator" where
  "ikc_reset c = c\<lparr>ikc_window := rw_new, ikc_closes := replicate (unat MAX_LOOKBACK) 0, ikc_prev_tenkan := 0,
     ikc_prev_kijun := 0\<rparr>"

section \<open>The twist detector\<close>

record KumoTwistDetector =
  ktd_prev_senkou_a :: i64
  ktd_prev_senkou_b :: i64
  ktd_initialized :: bool

definition ktd_new :: KumoTwistDetector where
  "ktd_new = \<lparr>ktd_prev_senkou_a = 0, ktd_prev_senkou_b = 0, ktd_initialized = False\<rparr>"

definition ktd_check_twist :: "i64 \<Rightarrow> i64 \<Rightarrow> KumoTwistDetector \<Rightarrow> int option \<times> KumoTwistDetector" where
  "ktd_check_twist senkou_a senkou_b d =
     (if \<not> ktd_initialized d
      then (None, d\<lparr>ktd_prev_senkou_a := senkou_a, ktd_prev_senkou_b := senkou_b, ktd_initialized := True\<rparr>)
      else
        let prev_diff = ktd_prev_senkou_a d - ktd_prev_senkou_b d;
            curr_diff = senkou_a - senkou_b;
            d = d\<lparr>ktd_prev_senkou_a := senkou_a, ktd_prev_senkou_b := senkou_b\<rparr>
        in (if prev_diff \<le>s 0 \<and> 0 <s curr_diff then Some 1
            else if 0 \<le>s prev_diff \<and> curr_diff <s 0 then Some (- 1)
            else None, d))"

section \<open>The window holds the last candles\<close>

text \<open>A candle is its high, low and close. The candles most recent first are the history reversed.\<close>

type_synonym candle = "i64 \<times> i64 \<times> i64"

definition rw_tracks :: "(i64 \<times> i64) list \<Rightarrow> RollingWindow \<Rightarrow> bool" where
  "rw_tracks h w \<longleftrightarrow>
     length (rw_highs w) = 52 \<and> length (rw_lows w) = 52 \<and> unat (rw_index w) = length h mod 52 \<and>
     unat (rw_count w) = min (length h) 52 \<and>
     (\<forall>i < min (length h) 52. (rw_highs w ! ((length h - Suc i) mod 52), rw_lows w ! ((length h - Suc i) mod 52)) = rev h ! i)"

lemma rw_tracks_new: "rw_tracks [] rw_new"
  by (simp add: rw_tracks_def rw_new_def MAX_LOOKBACK_def)

lemma mod_52_inj: "a < b \<Longrightarrow> b < a + 52 \<Longrightarrow> a mod 52 \<noteq> b mod (52 :: nat)"
proof
  assume a: "a < b" "b < a + 52" and "a mod 52 = b mod 52"
  then have "52 dvd b - a" using mod_eq_dvd_iff_nat [of a b 52] by simp
  then have "52 \<le> b - a" using a(1) by (intro dvd_imp_le) simp_all
  with a(2) show False by simp
qed

lemma rw_tracks_push:
  assumes "rw_tracks h w"
  shows "rw_tracks (h @ [(high, low)]) (rw_push high low w)"
proof -
  let ?w = "rw_push high low w" and ?n = "length h"
  have idx: "unat (rw_index w) = ?n mod 52" "unat (rw_count w) = min ?n 52" and len: "length (rw_highs w) = 52" "length (rw_lows w) = 52"
    using assms by (simp_all add: rw_tracks_def)
  have w: "rw_highs ?w = (rw_highs w)[?n mod 52 := high]" "rw_lows ?w = (rw_lows w)[?n mod 52 := low]"
    "rw_index ?w = (rw_index w + 1) mod 52" "rw_count ?w = (if rw_count w < 52 then rw_count w + 1 else rw_count w)"
    by (simp_all add: rw_push_def MAX_LOOKBACK_def idx(1) Let_def)
  have "unat (rw_index w + 1) = ?n mod 52 + 1" using idx(1) by (subst unat_add_u64) simp_all
  then have "unat (rw_index ?w) = Suc ?n mod 52" by (simp add: w unat_mod mod_Suc_eq)
  moreover have "unat (rw_count ?w) = min (Suc ?n) 52"
    using idx(2) by (auto simp: w word_less_nat_alt unat_add_u64)
  moreover have "(rw_highs ?w ! ((Suc ?n - Suc i) mod 52), rw_lows ?w ! ((Suc ?n - Suc i) mod 52)) = rev (h @ [(high, low)]) ! i"
    if "i < min (Suc ?n) 52" for i
  proof (cases i)
    case 0
    then show ?thesis using len by (simp add: w)
  next
    case (Suc j)
    then have "(?n - Suc j) mod 52 \<noteq> ?n mod 52" using mod_52_inj [of "?n - Suc j" ?n] that by linarith
    then show ?thesis using assms that Suc by (simp add: w rw_tracks_def)
  qed
  ultimately show ?thesis using len by (simp add: rw_tracks_def w)
qed

lemma word_shift: "a + c = b \<Longrightarrow> x - a + b = x + c" for x :: u64
  by (auto simp: algebra_simps)

lemma read_idx:
  assumes "rw_tracks h w" "i < length h" "i < 52"
  shows "rw_read_idx (rw_index w) (of_nat i) = (length h - Suc i) mod 52"
proof -
  let ?x = "rw_index w"
  have x: "unat ?x = length h mod 52" using assms(1) by (simp add: rw_tracks_def)
  then have lt: "unat ?x < 52" by simp
  have e: "Suc i + (52 - Suc i) = 52" using assms(3) by linarith
  have "of_nat (Suc i + (52 - Suc i)) = (of_nat 52 :: u64)" unfolding e ..
  then have "1 + of_nat i + of_nat (52 - Suc i) = (52 :: u64)" unfolding of_nat_add of_nat_Suc of_nat_numeral .
  then have shift: "?x - (of_nat i + 1) + 52 = ?x + of_nat (52 - Suc i)"
    by (intro word_shift) (simp only: ac_simps)
  have "unat (of_nat (52 - Suc i) :: u64) = 52 - Suc i" by (simp add: unsigned_of_nat take_bit_nat_eq_self)
  then have sum: "unat (?x + of_nat (52 - Suc i)) = unat ?x + (52 - Suc i)" using lt by (subst unat_add_u64) simp_all
  have "rw_read_idx ?x (of_nat i) = (length h mod 52 + (52 - Suc i)) mod 52"
    unfolding rw_read_idx_def MAX_LOOKBACK_def shift unat_mod sum x by simp
  also have "\<dots> = (length h + (52 - Suc i)) mod 52" by (simp add: mod_simps)
  also have "length h + (52 - Suc i) = (length h - Suc i) + 52" using assms(2,3) by simp
  finally show ?thesis by simp
qed

section \<open>Highest high and lowest low\<close>

lemma map_nth_take: "m \<le> length xs \<Longrightarrow> map ((!) xs) [0..<m] = take m xs"
  by (auto intro: nth_equalityI)

lemma fold_nth_take: "m \<le> length xs \<Longrightarrow> fold (\<lambda>i. g (xs ! i)) [0..<m] a = fold g (take m xs) a"
  using fold_map [of g "(!) xs" "[0..<m]"] by (simp add: map_nth_take comp_def)

lemma Max_merge: "finite A \<Longrightarrow> Max (insert (max x y) A) = Max (insert x (insert y A))" for x y :: int
  by (cases "A = {}") (simp_all add: max.assoc)

lemma sint_fold_max:
  "sint (fold (\<lambda>h m. if m <s h then h else m) xs a) = Max (insert (sint a) (sint ` set xs))" for a :: i64
proof (induction xs arbitrary: a)
  case (Cons x xs)
  have step: "sint (if a <s x then x else a) = max (sint a) (sint x)" by (simp add: word_sless_alt max_def)
  show ?case unfolding fold_Cons comp_def Cons.IH step
    by (simp add: Max_merge)
qed simp

lemma Min_merge: "finite A \<Longrightarrow> Min (insert (min x y) A) = Min (insert x (insert y A))" for x y :: int
  by (cases "A = {}") (simp_all add: min.assoc)

lemma sint_fold_min:
  "sint (fold (\<lambda>l m. if l <s m then l else m) xs a) = Min (insert (sint a) (sint ` set xs))" for a :: i64
proof (induction xs arbitrary: a)
  case (Cons x xs)
  have step: "sint (if x <s a then x else a) = min (sint a) (sint x)" by (simp add: word_sless_alt min_def)
  show ?case unfolding fold_Cons comp_def Cons.IH step
    by (simp add: Min_merge)
qed simp

text \<open>The highest high and the lowest low of the last \<open>n\<close> candles.\<close>

definition last_high :: "(i64 \<times> i64) list \<Rightarrow> nat \<Rightarrow> int" where
  "last_high h n = Max ((\<lambda>k. sint (fst k)) ` set (take n (rev h)))"

definition last_low :: "(i64 \<times> i64) list \<Rightarrow> nat \<Rightarrow> int" where
  "last_low h n = Min ((\<lambda>k. sint (snd k)) ` set (take n (rev h)))"

lemma take_bounded: "n \<le> 52 \<Longrightarrow> take (min n (min (length h) 52)) (rev h) = take n (rev h)"
  by (simp add: min_def)

lemma Max_dominated: "finite A \<Longrightarrow> A \<noteq> {} \<Longrightarrow> \<forall>x\<in>A. b \<le> x \<Longrightarrow> Max (insert b A) = Max A" for b :: int
  by (metis Max_in Max_insert max.absorb2)

lemma Min_dominated: "finite A \<Longrightarrow> A \<noteq> {} \<Longrightarrow> \<forall>x\<in>A. x \<le> b \<Longrightarrow> Min (insert b A) = Min A" for b :: int
  by (metis Min_in Min_insert min.absorb2)

lemma window_extremes:
  assumes tr: "rw_tracks h w" and n: "n \<noteq> 0" "n \<le> 52" and h: "h \<noteq> []"
  shows "sint (rw_highest_high n w) = last_high h (unat n)" and "sint (rw_lowest_low n w) = last_low h (unat n)"
proof -
  define m where "m = min (unat n) (min (length h) 52)"
  have count: "unat (rw_count w) = min (length h) 52" using tr by (simp add: rw_tracks_def)
  have n': "0 < unat n" "unat n \<le> 52" using n by (simp_all add: unat_gt_0 word_le_nat_alt)
  have m: "unat (min n (rw_count w)) = m" "m \<le> length (rev h)"
    using count by (auto simp: m_def min_def word_le_nat_alt)
  have "0 < m" using n' h by (simp add: m_def)
  then have actual: "min n (rw_count w) \<noteq> 0" using m(1) by (metis less_numeral_extra(3) unat_0)
  have cell: "(rw_highs w ! rw_read_idx (rw_index w) (of_nat i), rw_lows w ! rw_read_idx (rw_index w) (of_nat i)) = rev h ! i"
    if "i < m" for i
    using that tr read_idx [OF tr, of i] by (simp add: m_def rw_tracks_def)
  then have cell_high: "rw_highs w ! rw_read_idx (rw_index w) (of_nat i) = fst (rev h ! i)"
    and cell_low: "rw_lows w ! rw_read_idx (rw_index w) (of_nat i) = snd (rev h ! i)" if "i < m" for i
    using that by (metis fst_conv, metis snd_conv)
  have take: "take m (rev h) = take (unat n) (rev h)" unfolding m_def by (rule take_bounded [OF n'(2)])
  have ne: "take (unat n) (rev h) \<noteq> []" using n'(1) h by (cases "unat n") auto
  have "rw_highest_high n w = fold (\<lambda>i m. if m <s fst (rev h ! i) then fst (rev h ! i) else m) [0..<m] i64_MIN"
    unfolding rw_highest_high_def Let_def m(1) if_not_P [OF actual]
    by (rule fold_cong) (simp_all add: fun_eq_iff cell_high)
  also have "\<dots> = fold (\<lambda>h m. if m <s h then h else m) (map fst (take (unat n) (rev h))) i64_MIN"
    using fold_nth_take [OF m(2), of "\<lambda>k m. if m <s fst k then fst k else m"] by (simp add: fold_map comp_def take)
  finally have "sint (rw_highest_high n w) = Max (insert (sint i64_MIN) ((\<lambda>k. sint (fst k)) ` set (take (unat n) (rev h))))"
    by (simp add: sint_fold_max image_image)
  also have "\<dots> = last_high h (unat n)"
    unfolding last_high_def using ne
    by (intro Max_dominated) (simp_all add: sint_i64_ge)
  finally show "sint (rw_highest_high n w) = last_high h (unat n)" .
  have "rw_lowest_low n w = fold (\<lambda>i m. if snd (rev h ! i) <s m then snd (rev h ! i) else m) [0..<m] i64_MAX"
    unfolding rw_lowest_low_def Let_def m(1) if_not_P [OF actual]
    by (rule fold_cong) (simp_all add: fun_eq_iff cell_low)
  also have "\<dots> = fold (\<lambda>h m. if h <s m then h else m) (map snd (take (unat n) (rev h))) i64_MAX"
    using fold_nth_take [OF m(2), of "\<lambda>k m. if snd k <s m then snd k else m"] by (simp add: fold_map comp_def take)
  finally have "sint (rw_lowest_low n w) = Min (insert (sint i64_MAX) ((\<lambda>k. sint (snd k)) ` set (take (unat n) (rev h))))"
    by (simp add: sint_fold_min image_image)
  also have "\<dots> = last_low h (unat n)"
    unfolding last_low_def using ne
    by (intro Min_dominated) (simp_all add: sint_i64_le)
  finally show "sint (rw_lowest_low n w) = last_low h (unat n)" .
qed

section \<open>The lines of the cloud\<close>

definition good_price :: "i64 \<Rightarrow> bool" where
  "good_price p \<longleftrightarrow> 0 \<le> sint p \<and> sint p < 2 ^ 62"

definition good_candle :: "i64 \<times> i64 \<Rightarrow> bool" where
  "good_candle k \<longleftrightarrow> good_price (fst k) \<and> good_price (snd k)"

definition mid_line :: "(i64 \<times> i64) list \<Rightarrow> nat \<Rightarrow> int" where
  "mid_line h n = (last_high h n + last_low h n) div 2"

lemma half_sum:
  assumes "0 \<le> sint a" "0 \<le> sint b" "sint a < 2 ^ 62" "sint b < 2 ^ 62"
  shows "sint (i64_div (a + b) 2) = (sint a + sint b) div 2"
proof -
  have sum: "sint (a + b) = sint a + sint b" using assms by (intro sint_add_i64) simp_all
  have two: "sint (2 :: i64) = 2" by simp
  have "i64_div (a + b) 2 = word_of_int ((sint a + sint b) div 2)"
    unfolding i64_div_def sum two using assms by (simp add: sgn_if)
  then show ?thesis using assms by (simp only:) (rule sint_word_of_int_i64; simp)
qed

lemma last_bounds:
  assumes "\<forall>k\<in>set h. good_candle k" and "h \<noteq> []" and "0 < n"
  shows "0 \<le> last_high h n" "last_high h n < 2 ^ 62" "0 \<le> last_low h n" "last_low h n < 2 ^ 62"
proof -
  let ?K = "set (take n (rev h))"
  have ne: "?K \<noteq> {}" using assms(2,3) by (cases n) auto
  have good: "good_candle k" if "k \<in> ?K" for k
    using in_set_takeD [OF that] assms(1) by simp
  have "last_high h n \<in> (\<lambda>k. sint (fst k)) ` ?K" unfolding last_high_def using ne by (intro Max_in) simp_all
  then obtain a where a: "a \<in> ?K" "last_high h n = sint (fst a)" by (rule imageE) blast
  have "last_low h n \<in> (\<lambda>k. sint (snd k)) ` ?K" unfolding last_low_def using ne by (intro Min_in) simp_all
  then obtain b where b: "b \<in> ?K" "last_low h n = sint (snd b)" by (rule imageE) blast
  show "0 \<le> last_high h n" "last_high h n < 2 ^ 62" "0 \<le> last_low h n" "last_low h n < 2 ^ 62"
    using good [OF a(1)] good [OF b(1)] unfolding a(2) b(2) good_candle_def good_price_def by blast+
qed

lemma mid_line_bounds:
  assumes "\<forall>k\<in>set h. good_candle k" and "h \<noteq> []" and "0 < n"
  shows "0 \<le> mid_line h n" "mid_line h n < 2 ^ 62"
  using last_bounds [OF assms] by (auto simp: mid_line_def)

lemma sint_midpoint:
  assumes tr: "rw_tracks h w" and n: "n \<noteq> 0" "n \<le> 52" and h: "h \<noteq> []" "\<forall>k\<in>set h. good_candle k"
  shows "sint (ikc_midpoint n w) = mid_line h (unat n)"
proof -
  have n': "0 < unat n" using n(1) by (simp add: unat_gt_0)
  note ext = window_extremes [OF tr n h(1)] and bounds = last_bounds [OF h(2,1) n']
  show ?thesis
    unfolding ikc_midpoint_def mid_line_def using bounds by (subst half_sum) (simp_all add: ext)
qed

definition ikc_step :: "candle \<Rightarrow> IchimokuCalculator \<Rightarrow> IchimokuCalculator" where
  "ikc_step k c = snd (ikc_process_candle (fst k) (fst (snd k)) (snd (snd k)) c)"

definition ikc_run :: "u64 \<Rightarrow> u64 \<Rightarrow> u64 \<Rightarrow> candle list \<Rightarrow> IchimokuCalculator" where
  "ikc_run t k s cs = fold ikc_step cs (ikc_new t k s)"

definition high_low :: "candle \<Rightarrow> i64 \<times> i64" where
  "high_low k = (fst k, fst (snd k))"

lemma process_window: "ikc_window (snd (ikc_process_candle high low cl c)) = rw_push high low (ikc_window c)"
  by (simp add: ikc_process_candle_def Let_def)

lemma process_periods:
  "ikc_tenkan_period (snd (ikc_process_candle high low cl c)) = ikc_tenkan_period c"
  "ikc_kijun_period (snd (ikc_process_candle high low cl c)) = ikc_kijun_period c"
  "ikc_senkou_period (snd (ikc_process_candle high low cl c)) = ikc_senkou_period c"
  by (simp_all add: ikc_process_candle_def Let_def)

lemma run_periods:
  "ikc_tenkan_period (ikc_run t k s cs) = t \<and> ikc_kijun_period (ikc_run t k s cs) = k \<and> ikc_senkou_period (ikc_run t k s cs) = s"
  by (induction cs rule: rev_induct) (simp_all add: ikc_run_def ikc_new_def ikc_step_def process_periods)

lemma run_tracks: "rw_tracks (map high_low cs) (ikc_window (ikc_run t k s cs))"
proof (induction cs rule: rev_induct)
  case Nil
  then show ?case by (simp add: ikc_run_def ikc_new_def rw_tracks_new)
next
  case (snoc x cs)
  then show ?case
    using rw_tracks_push [OF snoc, of "fst x" "fst (snd x)"] by (simp add: ikc_run_def ikc_step_def process_window high_low_def)
qed

text \<open>
  C40: The calculator's circular buffers and periods give the Ichimoku lines of the candles it was fed. After any run
  of candles from a new calculator, with periods from 1 to 52 and prices from 0 below \<open>2 ^ 62\<close>, a candle is answered
  with nothing while fewer than the longest period have been seen, and after that with exactly: half of the highest
  high plus the lowest low of the last tenkan, kijun and senkou candles, the half sum of the first two, and the close.
\<close>

theorem ichimoku_exact:
  assumes periods: "t \<noteq> 0" "t \<le> 52" "k \<noteq> 0" "k \<le> 52" "s \<noteq> 0" "s \<le> 52"
    and good: "\<forall>x\<in>set (map high_low cs @ [(high, low)]). good_candle x"
  shows "map_option (\<lambda>c. (sint (ich_tenkan c), sint (ich_kijun c), sint (ich_senkou_a c), sint (ich_senkou_b c),
             ich_chikou c, ich_close c))
           (fst (ikc_process_candle high low cl (ikc_run t k s cs))) =
         (if Suc (length cs) < unat s then None
          else let h = map high_low cs @ [(high, low)]
               in Some (mid_line h (unat t), mid_line h (unat k), (mid_line h (unat t) + mid_line h (unat k)) div 2,
                        mid_line h (unat s), cl, cl))"
proof -
  let ?h = "map high_low cs @ [(high, low)]" and ?c = "ikc_run t k s cs"
  let ?w = "rw_push high low (ikc_window ?c)"
  have tr: "rw_tracks ?h ?w" by (rule rw_tracks_push [OF run_tracks])
  then have "unat (rw_count ?w) = min (Suc (length cs)) 52" by (simp add: rw_tracks_def)
  moreover have "unat s \<le> 52" using periods(6) by (simp add: word_le_nat_alt)
  ultimately have count: "rw_count ?w < s \<longleftrightarrow> Suc (length cs) < unat s" by (auto simp: word_less_nat_alt)
  have ne: "?h \<noteq> []" by simp
  note mids = sint_midpoint [OF tr periods(1,2) ne good] sint_midpoint [OF tr periods(3,4) ne good]
    sint_midpoint [OF tr periods(5,6) ne good]
  have pos: "0 < unat t" "0 < unat k" using periods by (simp_all add: unat_gt_0)
  note bounds = mid_line_bounds [OF good ne pos(1)] mid_line_bounds [OF good ne pos(2)]
  have "sint (i64_div (ikc_midpoint t ?w + ikc_midpoint k ?w) 2) = (mid_line ?h (unat t) + mid_line ?h (unat k)) div 2"
    using bounds by (subst half_sum) (simp_all add: mids)
  then show ?thesis
    using run_periods [of t k s cs] by (simp add: ikc_process_candle_def Let_def count mids)
qed

theorem ichimoku_exact_witness:
  "map_option (\<lambda>c. (sint (ich_tenkan c), sint (ich_kijun c), sint (ich_senkou_a c), sint (ich_senkou_b c),
             ich_chikou c, ich_close c))
     (fst (ikc_process_candle 120 100 110 (ikc_run 1 2 3 [(100, 80, 90), (130, 90, 100)]))) =
   Some (110, 110, 110, 105, 110, 110)"
proof -
  have "\<forall>x\<in>set (map high_low [(100, 80, 90), (130, 90, 100)] @ [(120, 100)]). good_candle x"
    by (simp add: high_low_def good_candle_def good_price_def)
  note exact = ichimoku_exact [of 1 2 3, OF _ _ _ _ _ _ this, of 110]
  show ?thesis
    by (rule trans [OF exact]) (simp_all add: Let_def high_low_def mid_line_def last_high_def last_low_def)
qed

section \<open>A crossing is never seen\<close>

text \<open>
  The signal compares the current lines with the previous ones, but the candle that produced the lines has already
  overwritten the previous ones with them: an upward crossing is never reported, and a downward one is reported
  exactly when the two lines coincide.
\<close>

lemma word_eqI_sint: "sint b = sint a \<Longrightarrow> a = b" for a b :: i64
  by (rule signed_word_eqI) (rule HOL.sym)

lemma crossing_lost:
  assumes "ikc_process_candle high low cl c = (Some k, c')"
  shows "ikc_detect_signal k p c' \<noteq> BullishTKCross"
    and "ikc_detect_signal k p c' = BearishTKCross \<longleftrightarrow> ich_tenkan k = ich_kijun k"
proof -
  have prev: "ikc_prev_tenkan c' = ich_tenkan k" "ikc_prev_kijun c' = ich_kijun k"
    using assms by (auto simp: ikc_process_candle_def Let_def split: if_splits)
  show "ikc_detect_signal k p c' \<noteq> BullishTKCross"
    by (simp add: ikc_detect_signal_def Let_def prev word_sless_alt word_sle_eq)
  show "ikc_detect_signal k p c' = BearishTKCross \<longleftrightarrow> ich_tenkan k = ich_kijun k"
    by (auto intro!: word_eqI_sint simp: ikc_detect_signal_def Let_def prev word_sless_alt word_sle_eq)
qed

end
