(* ===== verification/Spec2Isabelle.thy ===== *)
theory Spec2Isabelle
  imports Safety Risk_Router Portfolio_Manager Self_Trade Exchange_Control Fix_Engine
    Dependency_Graph Event_Disruptor Conditional_Orders Trailing_Stop Pegged_Order
    Tick_Compression Xor_Encoding Order_Book Book_Checksum Snapshot_Store
    Gateway_Manager Resilience Actor_System
    Compliance Post_Only Event_Replay Rate_Limiter Lifecycle Shutdown
    Keyword_Search Volume_Profile Ichimoku
begin

text \<open>
  \<^bold>\<open>A verification library for the core of the trading system\<close>

  The repository is a Rust crate (\<open>hft_crypto_bot\<close>, sources under \<open>src/src\<close>) with Python
  services beside it. This development models the parts that decide whether and how the bot
  may trade, which are mostly integer and state-machine code:

  \<^item> \<open>safety/\<close>: circuit breakers, the global kill switch, the safety system that joins them
    and the execution gateway every order passes through;
  \<^item> \<open>risk/\<close>: the order-id generator, the pre-trade validator, the margin calculator and the
    router that asks all of them before an order leaves;
  \<^item> \<open>portfolio/\<close>: lock-free exposure totals with limits, reconciliation with the exchange,
    netting of pending orders;
  \<^item> \<open>compliance/\<close>: self-trade prevention and its order tags, wash-trade detection, the manager
    of both;
  \<^item> \<open>exchange/\<close>: call-auction books, the clearing price and the auction engine; detection of
    exchange halts; the control of a venue that joins both;
  \<^item> \<open>fix/\<close>: the codec, the session and the engine of the FIX protocol;
  \<^item> \<open>disruptor/\<close>: ring buffer, sequencers, barriers, consumer dependencies and publishing;
  \<^item> \<open>execution/\<close>: conditional orders, trailing stops, pegged and post-only orders;
  \<^item> \<open>tickdb/\<close>: compression of timestamps and prices;
  \<^item> \<open>orderbook/\<close>: price levels, snapshots and deltas, checksums and the snapshot store;
  \<^item> \<open>gateway/\<close>: venues, connection pool, load balancer and routing with failover;
  \<^item> \<open>network/\<close>: the network circuit breaker, key rotation and recovery; the rate limiter;
  \<^item> \<open>event_store/\<close>: the write-ahead log, replay of events into a book, the store;
  \<^item> \<open>orchestrator/\<close> and \<open>orchestration/\<close>: the life cycle and the graceful shutdown;
  \<^item> \<open>events/\<close>, \<open>market_data/\<close> and \<open>ta/\<close>: the keyword matcher of the news feed, the volume profile
    and the Ichimoku cloud;
  \<^item> \<open>actors/\<close>: the state of a symbol's actor, the dispatcher and the actor manager.

  \<^bold>\<open>Conventions\<close> (theory \<open>Machine\<close>)

  Machine integers are words of their width; the release profile leaves overflow checks off,
  so arithmetic wraps. Signed comparisons go through \<open>sint\<close>. A padded atomic cell is the value
  it holds, and a method is one transition of a record; where interleaving is the point
  (order ids, aggregation of exposures) there is a second model with one transition per
  atomic operation and any number of threads. A method that reads the system clock takes a
  \<open>clock\<close>, one value per read site, without any assumption on their order. Definitions keep
  the source's names with a prefix per type. A method that may return early, reject or fail
  returns an option, a status value or a sum type next to the new state. Where the source
  does not compile, the theory says how the place is read.

  The locales of \<open>Machine\<close> lift facts about one operation to runs: \<open>guarded_system\<close> (an
  invariant kept by allowed operations), \<open>refined_system\<close> (which also implements an abstract
  specification), \<open>latched_system\<close> (a condition no operation of a class undoes) and
  \<open>framed_system\<close> (a part of the state no operation touches). Each component is interpreted
  in those that apply.

  \<^bold>\<open>Theories\<close>

  \<^item> \<open>Trading_Gate\<close>: the contract of everything that can be asked whether trading is allowed;
    a shut gate refuses and stays shut. Interpreted by a breaker, by the breaker manager and
    by the safety system.
  \<^item> \<open>Circuit_Breaker\<close> (\<open>safety/circuit_breaker.rs\<close>): \<open>CircuitBreaker\<close> and
    \<open>CircuitBreakerManager\<close>. Exact trip rules for drawdown, API errors and rejections; a
    tripped breaker stays shut; the drawdown rule is dead for breakers made by \<open>new\<close>.
  \<^item> \<open>Kill_Switch\<close> (\<open>safety/kill_switch.rs\<close>): the state machine of the switch. The first
    trigger wins; the cancellation countdown; its wrap-around.
  \<^item> \<open>Safety\<close> (\<open>safety/mod.rs\<close>): \<open>SafetySystem\<close> and \<open>SafeExecutionGateway\<close>. A halted system
    refuses every order; accounting of attempts; what is and is not escalated; reset and
    cooldown.
  \<^item> \<open>Order_Id\<close> (\<open>risk/pre_trade.rs\<close>, first half): \<open>IdempotentOrderIdGenerator\<close> as a step
    relation over threads (ids never repeat in any interleaving) and as a sequential function
    with fuel. One unit of fuel is enough for each of the first \<open>2 ^ 32\<close> ids of an epoch, and
    no fuel is enough for the next one: both are theorems. The locale \<open>id_source\<close> is the
    interface clients use.
  \<^item> \<open>Pre_Trade\<close> (\<open>risk/pre_trade.rs\<close>, second half): the validator, exact on all its checks.
  \<^item> \<open>Margin\<close> (\<open>risk/margin.rs\<close>): balances, margin ratio and health flag, with the
    wrap-around of balances and the sign of losses.
  \<^item> \<open>Risk_Router\<close> (\<open>risk/mod.rs\<close>): the router. What a routed order guarantees, the position
    limit for one order at a time, and its failure for orders in flight.
  \<^item> \<open>Portfolio_State\<close> (\<open>portfolio/state.rs\<close>): exposure totals against unbounded integer sums,
    the exact limits flag, interleaved aggregations, and the race that loses the alarm. The
    locales \<open>exposure_total\<close> and \<open>owed_total\<close> state what each of the four totals promises.
  \<^item> \<open>Reconciliation\<close> (\<open>portfolio/reconciliation.rs\<close>): the verdicts, the failure limit and the
    runner, whose loop is driven by the effects of the other threads, iteration by
    iteration; \<open>None\<close> is a loop that has not been left.
  \<^item> \<open>Portfolio_Manager\<close> (\<open>portfolio/mod.rs\<close>): the manager, hedging trigger and \<open>net_orders\<close>.
  \<^item> \<open>Self_Trade\<close> (\<open>compliance/stp.rs\<close>): per-symbol books by group and side, refined to a map
    of open orders; detection is sound and complete; tags round-trip; group ids.
  \<^item> \<open>Price_Map\<close>: the \<open>BTreeMap\<close> over prices, with the locale \<open>ordered_map\<close> its clients use.
  \<^item> \<open>Auction_Book\<close>, \<open>Auction_Price\<close>, \<open>Auction_Engine\<close> (\<open>exchange/auction_engine.rs\<close>): the book
    refined to the multiset of open orders, the clearing price against demand and supply, the
    engine with its phases and its capacity.
  \<^item> \<open>Halt_Detector\<close> (\<open>exchange/halt_detector.rs\<close>): symbol and venue halts and the kill switch
    they drive. A venue-wide halt holds until the venue resumes; a symbol halt is undone by
    any other symbol; the binary message round-trips but for its reason code.
  \<^item> \<open>Exchange_Control\<close> (\<open>exchange/halt_mod.rs\<close>): the control of one venue and the manager of
    several. Which symbols are reported tradeable, and which halts the manager sees.
  \<^item> \<open>Bytes\<close>, \<open>Fix_Codec\<close>, \<open>Fix_Wire\<close> (\<open>fix/codec.rs\<close>): decimal digits, encoding and decoding of
    messages in fixed buffers. The codec round-trips; decoded fields are slices of the buffer;
    its own messages fail its checksum test.
  \<^item> \<open>Fix_Session\<close> (\<open>fix/session.rs\<close>): sequence numbers, gap detection and the states of a
    session. \<open>Fix_Engine\<close> (\<open>fix/mod.rs\<close>): encoding through a session, two sessions in step, the
    router.
  \<^item> \<open>Ring_Buffer\<close>, \<open>Sequencing\<close>, \<open>Dependency_Graph\<close>, \<open>Event_Disruptor\<close> (\<open>disruptor/\<close>): slots and
    batches; claims, cursors and the wait strategies; the graph of consumers with its cycle
    test and topological sort, proved against reachability; publishing refined to the sequence
    of events. \<open>has_path\<close> has fuel for one more than the number of nodes, and each node is
    visited once, so the fuel is never used up.
  \<^item> \<open>Conditional_Orders\<close>, \<open>Trailing_Stop\<close>, \<open>Pegged_Order\<close> (\<open>execution/\<close>): which orders an
    evaluation executes and that none is executed twice; the stop that only tightens; the
    quoted price within a tick of its limited target.
  \<^item> \<open>Bit_Stream\<close>, \<open>Tick_Compression\<close>, \<open>Xor_Encoding\<close> (\<open>tickdb/\<close>): the bit writer and reader, the
    delta-of-delta coding, the two XOR codings and what each of them loses.
  \<^item> \<open>Order_Book\<close> (\<open>orderbook/book.rs\<close>): sorted sides refined to the map of quotes, best prices,
    snapshots and deltas. \<open>Book_Checksum\<close> (\<open>orderbook/checksum.rs\<close>): the table-driven CRC against
    the bitwise one, the wrong entries of the table, the XOR checksum. \<open>Snapshot_Store\<close>
    (\<open>orderbook/snapshot_manager.rs\<close>): the ring of the last snapshots.
  \<^item> \<open>Venue\<close>, \<open>Gateway_Manager\<close> (\<open>gateway/\<close>): the routing score and the best venue; three
    attempts of failover, which end for any adapter; a started manager.
  \<^item> \<open>Resilience\<close> (\<open>network/resilience_mod.rs\<close>): the breaker as an abstract machine of its
    phases; the rotation
    of keys and the lock it takes twice; the states of a connection.
  \<^item> \<open>Symbol_Actor\<close>, \<open>Actor_System\<close> (\<open>actors/\<close>): fills, limits and heartbeats of one actor; routing
    of events to channels; the life cycle the manager gives its actors.

  \<^item> \<open>Float64\<close>: binary64 floating-point numbers: zero, finite, infinite and not a number, with
    rounding of exact rational results to the nearest even. It carries the percentages and
    ratios of the theories below.
  \<^item> \<open>Wash_Trade\<close> (\<open>compliance/wash_trade.rs\<close>), \<open>Compliance\<close> (\<open>compliance/stp_mod.rs\<close>): which fills
    raise an alert, in exact arithmetic; the manager's check per venue.
  \<^item> \<open>Post_Only\<close> (\<open>execution/post_only.rs\<close>): accepted prices never meet the other side.
  \<^item> \<open>Write_Ahead_Log\<close>, \<open>Event_Replay\<close> (\<open>event_store/\<close>): records, reader and writer over a file
    that may fail; a prefix of the log reads back; the replayed book refined to the map of
    quotes; the store and its gaps.
  \<^item> \<open>Rate_Limiter\<close> (\<open>network/rate_limiter.rs\<close>): token buckets, and what the minimum interval
    does to them.
  \<^item> \<open>Lifecycle\<close> (\<open>orchestrator/lifecycle.rs\<close>): the states from start to termination as a step
    relation. \<open>Shutdown\<close> (\<open>orchestration/graceful_shutdown.rs\<close>): the phases, and which of them
    have run.
  \<^item> \<open>Keyword_Matcher\<close>, \<open>Keyword_Automaton\<close>, \<open>Keyword_Search\<close> (\<open>events/keyword_matcher.rs\<close>): the
    tables of the Aho-Corasick matcher as arrays that panic out of range; the trie, the
    failure links and the breadth-first queue against prefixes and suffixes of keywords; what
    a scan reports. Following failure links ends because each link leads to a shorter word.
  \<^item> \<open>Volume_Profile\<close> (\<open>market_data/volume_profile.rs\<close>): the table with linear probing against
    the volume per bucket, the bubble sort, the expansion of the value area.
  \<^item> \<open>Ichimoku\<close> (\<open>ta/ichimoku.rs\<close>): the circular window against the last candles, the lines of
    the cloud, and the crossing that is never seen.

  \<^bold>\<open>How the parts interact\<close>

  The gateway asks the safety system, which asks the kill switch and the three breakers of
  the manager. The router asks the margin calculator and the validator, which owns the
  order-id generator. The portfolio manager owns the totals and the reconciliation engine.
  The FIX engine runs codec and session; the event disruptor joins ring buffer and sequencer;
  the gateway manager asks the load balancer for a venue and submits to its adapter; the
  actor manager owns actors and their channels; the compliance manager owns a self-trade
  engine per venue and the wash-trade detector; the event store owns a log writer and a replay
  engine.
  The theories import each other along these calls, and a theorem about the outer part rests
  on the interpretations of the inner one.

  \<^bold>\<open>Hypotheses\<close>

  Code outside the repository is a parameter: the adapter of a venue, a channel of the crate
  \<open>crossbeam_channel\<close> (a push that may be refused or block) and the executor of conditional
  orders. So are the faults of the file below the log, the padding bytes of its headers, the
  serialisation of events, the callbacks of a shutdown and lower case beyond ASCII.
  Most theorems hold for every such parameter; \<open>failover_is_bounded\<close> assumes that the
  event channel does not block and that an adapter counts its submissions, and its witness
  gives such a world. Otherwise hypotheses are about inputs: parameters whose arithmetic does not overflow, fresh order
  ids, book sizes below \<open>2 ^ 63\<close> units. \<open>VenueId\<close> is defined nowhere in the repository; it is a
  type variable. The iteration order of hash maps is unspecified, and no theorem depends on
  it.

  \<^bold>\<open>Not modelled\<close>

  Numerical models in floating point (signals, pricing, estimates), I/O, networking and operating
  system interfaces, and the Python services. Memory orderings weaker than sequential
  consistency are not modelled: atomic operations take effect one after the other. Panics of
  the system clock before 1970 are not modelled.

  \<^bold>\<open>Plan\<close>

  The program's integer and state-machine core is modelled first; floating point enters where
  it decides about an order. What is left is numerical code and the parts listed above.
\<close>

end
